(* ===== verification/Prelude.thy ===== *)
theory Prelude
  imports Main "HOL-Library.Word" "HOL-Library.Multiset"
begin

text \<open>
  The shared vocabulary of the development: the C++ integer types the server uses, the
  conversions between them with their wrap-around written out, and the generic facts on
  lists, options and words the component theories rest on.

  A C++ value of type \<open>uint8\<close>, \<open>uint16\<close>, \<open>uint32\<close> or \<open>uint64\<close> whose arithmetic can wrap is
  an Isabelle word of that width, or, where a component mostly compares and counts, a natural or
  an integer with the reduction modulo the width written out.  Identifiers, loop counters and list
  positions on which the code does no arithmetic are naturals.  Signed values whose overflow would be undefined
  behaviour in C++ are integers; a narrowing cast is one of the functions below.
  A function that dereferences a null pointer or leaves the bounds of an array for some
  arguments returns an option, with \<^term>\<open>None\<close> for the undefined behaviour.
\<close>

named_theorems wf_intros \<open>every operation keeps its component's invariant\<close>
named_theorems word_arith \<open>word arithmetic read as natural-number arithmetic\<close>

type_synonym uint8 = "8 word"
type_synonym uint16 = "16 word"
type_synonym uint32 = "32 word"
type_synonym uint64 = "64 word"

section \<open>Narrowing casts on integers\<close>

definition to_u8 :: "int \<Rightarrow> int" where
  "to_u8 x = x mod 2 ^ 8"

definition to_u16 :: "int \<Rightarrow> int" where
  "to_u16 x = x mod 2 ^ 16"

definition to_u32 :: "int \<Rightarrow> int" where
  "to_u32 x = x mod 2 ^ 32"

definition to_i16 :: "int \<Rightarrow> int" where
  "to_i16 x = (x + 2 ^ 15) mod 2 ^ 16 - 2 ^ 15"

definition to_i32 :: "int \<Rightarrow> int" where
  "to_i32 x = (x + 2 ^ 31) mod 2 ^ 32 - 2 ^ 31"

definition clamp :: "int \<Rightarrow> int \<Rightarrow> int \<Rightarrow> int" where
  "clamp x lo hi = (if x < lo then lo else if hi < x then hi else x)"

lemma to_i32_id: "- (2 ^ 31) \<le> x \<Longrightarrow> x < 2 ^ 31 \<Longrightarrow> to_i32 x = x"
  by (simp add: to_i32_def)

lemma to_u8_id: "0 \<le> x \<Longrightarrow> x < 256 \<Longrightarrow> to_u8 x = x"
  by (simp add: to_u8_def)

lemma clamp_bounds: "lo \<le> hi \<Longrightarrow> lo \<le> clamp x lo hi \<and> clamp x lo hi \<le> hi"
  by (simp add: clamp_def)

lemma clamp_id: "lo \<le> x \<Longrightarrow> x \<le> hi \<Longrightarrow> clamp x lo hi = x"
  by (simp add: clamp_def)

section \<open>Word arithmetic\<close>

lemma unat_inc8 [word_arith]:
  fixes w :: uint8
  assumes "unat w < 255"
  shows "unat (w + 1) = Suc (unat w)"
  using assms by (simp add: unat_word_ariths)

lemma unat_dec8 [word_arith]:
  fixes w :: uint8
  assumes "0 < unat w"
  shows "unat (w - 1) = unat w - 1"
  using assms by unat_arith

lemma unat_minus8 [word_arith]:
  fixes a b :: uint8
  assumes "unat b \<le> unat a"
  shows "unat (a - b) = unat a - unat b"
  using assms by (simp add: unat_sub word_le_nat_alt)

section \<open>Lists\<close>

lemma find_None_upt: "List.find P [a..<b] = None \<longleftrightarrow> (\<forall>i. a \<le> i \<and> i < b \<longrightarrow> \<not> P i)"
  by (auto simp: find_None_iff)

lemma find_Some_upt:
  assumes "List.find P [a..<b] = Some i"
  shows "a \<le> i \<and> i < b \<and> P i \<and> (\<forall>j. a \<le> j \<and> j < i \<longrightarrow> \<not> P j)"
proof -
  from assms obtain k where k: "k < b - a" "P ([a..<b] ! k)" "i = [a..<b] ! k"
    "\<forall>j<k. \<not> P ([a..<b] ! j)"
    by (auto simp: find_Some_iff)
  then have "i = a + k" by simp
  have "\<not> P j" if "a \<le> j" "j < i" for j
    using that k(1) k(4)[rule_format, of "j - a"] \<open>i = a + k\<close> by auto
  with k \<open>i = a + k\<close> show ?thesis by auto
qed

end
