(* ===== verification/FieldSpec.thy ===== *)
theory FieldSpec
  imports Prelude
begin

text \<open>
  The contract of a bit-field packer: a field that has room can be written, reads back as the low
  bits of the value, and leaves every disjoint field as it was.  The name codecs write a run of
  fields of one width and rely on nothing else; both bit orders of the packers provide it.
\<close>

text \<open>Writing values one after another, each \<open>w\<close> bits wide, starting at bit \<open>p\<close>.\<close>

fun put_fields ::
  "('b \<Rightarrow> uint64 \<Rightarrow> nat \<Rightarrow> nat \<Rightarrow> (nat \<times> 'b) option) \<Rightarrow> nat \<Rightarrow> uint64 list \<Rightarrow> nat \<Rightarrow> 'b \<Rightarrow> 'b option"
where
  "put_fields put w [] p b = Some b"
| "put_fields put w (v # vs) p b =
     (case put b v p w of None \<Rightarrow> None | Some (_, b') \<Rightarrow> put_fields put w vs (p + w) b')"

locale field_store =
  fixes put :: "'b \<Rightarrow> uint64 \<Rightarrow> nat \<Rightarrow> nat \<Rightarrow> (nat \<times> 'b) option"
    and get :: "'b \<Rightarrow> nat \<Rightarrow> nat \<Rightarrow> uint64 option"
    and room :: "'b \<Rightarrow> nat \<Rightarrow> nat \<Rightarrow> bool"
  assumes put_room: "\<And>b p l v. room b p l \<Longrightarrow>
      \<exists>b'. put b v p l = Some (p + l, b') \<and> room b' = room b"
    and put_get: "\<And>b p l v e b'. room b p l \<Longrightarrow> put b v p l = Some (e, b') \<Longrightarrow>
      get b' p l = Some (take_bit l v)"
    and put_other: "\<And>b p l v e b' q m. room b p l \<Longrightarrow> put b v p l = Some (e, b') \<Longrightarrow>
      room b q m \<Longrightarrow> q + m \<le> p \<or> p + l \<le> q \<Longrightarrow> get b' q m = get b q m"
begin

lemma put_fields_get:
  assumes "\<forall>k < length vs. room b (p + w * k) w"
  shows "\<exists>b'. put_fields put w vs p b = Some b' \<and> room b' = room b \<and>
    (\<forall>k < length vs. get b' (p + w * k) w = Some (take_bit w (vs ! k))) \<and>
    (\<forall>q m. room b q m \<and> (q + m \<le> p \<or> p + w * length vs \<le> q) \<longrightarrow> get b' q m = get b q m)"
  using assms
proof (induction vs arbitrary: b p)
  case Nil
  then show ?case by simp
next
  case (Cons v vs)
  have r: "room b p w" using Cons.prems[rule_format, of 0] by simp
  then obtain b1 where b1: "put b v p w = Some (p + w, b1)" "room b1 = room b"
    using put_room by blast
  have "\<forall>k < length vs. room b1 (p + w + w * k) w"
  proof (intro allI impI)
    fix k assume "k < length vs"
    then show "room b1 (p + w + w * k) w" using Cons.prems[rule_format, of "Suc k"] b1(2) by (simp add: add.assoc)
  qed
  from Cons.IH[OF this] obtain b2 where b2: "put_fields put w vs (p + w) b1 = Some b2"
    "room b2 = room b1" "\<forall>k < length vs. get b2 (p + w + w * k) w = Some (take_bit w (vs ! k))"
    "\<forall>q m. room b1 q m \<and> (q + m \<le> p + w \<or> p + w + w * length vs \<le> q) \<longrightarrow> get b2 q m = get b1 q m"
    by blast
  have "get b2 p w = Some (take_bit w v)"
    using b2(4)[rule_format, of p w] r b1(2) put_get[OF r b1(1)] by simp
  then have here: "get b2 (p + w * k) w = Some (take_bit w ((v # vs) ! k))"
    if "k < length (v # vs)" for k
    using that b2(3) by (cases k) (auto simp: add.assoc)
  have other: "get b2 q m = get b q m"
    if "room b q m" "q + m \<le> p \<or> p + w * length (v # vs) \<le> q" for q m
  proof -
    have "get b2 q m = get b1 q m"
      using b2(4)[rule_format, of q m] that b1(2) by (auto simp: add.assoc)
    also have "\<dots> = get b q m" using put_other[OF r b1(1) that(1)] that(2) by auto
    finally show ?thesis .
  qed
  show ?case
  proof (intro exI[of _ b2] conjI allI impI)
    show "put_fields put w (v # vs) p b = Some b2" "room b2 = room b"
      using b1 b2(1,2) by simp_all
  next
    fix k assume "k < length (v # vs)"
    then show "get b2 (p + w * k) w = Some (take_bit w ((v # vs) ! k))" by (rule here)
  next
    fix q m assume "room b q m \<and> (q + m \<le> p \<or> p + w * length (v # vs) \<le> q)"
    then show "get b2 q m = get b q m" using other by blast
  qed
qed

end

end
