(* ===== verification/BitPacking.thy ===== *)
theory BitPacking
  imports FieldSpec
begin

unbundle bit_operations_syntax

text \<open>
  The bit arrays and bit fields of \<open>src/common/utils.cpp\<close>: \<open>hasBit\<close>, \<open>addBit\<close>, \<open>delBit\<close>, and
  the packers \<open>packBitsBE\<close>, \<open>unpackBitsBE\<close>, \<open>packBitsLE\<close>, \<open>unpackBitsLE\<close> that every packet and
  every encoded name goes through.  A buffer is a list of bytes.  The packers access it through
  a pointer of 1, 2, 4 or 8 bytes on a little-endian host; an access that leaves the buffer, and
  a shift by a negative amount or by the width of its operand, is \<^term>\<open>None\<close>.
\<close>

type_synonym buffer = "uint8 list"

section \<open>Bit arrays\<close>

definition hasBit :: "nat \<Rightarrow> buffer \<Rightarrow> nat \<Rightarrow> uint8 option" where
  "hasBit value arr sz =
     (if sz * 8 \<le> value then Some 0
      else if value div 8 < length arr then Some (arr ! (value div 8) AND push_bit (value mod 8) 1)
      else None)"

definition addBit :: "nat \<Rightarrow> buffer \<Rightarrow> nat \<Rightarrow> (nat \<times> buffer) option" where
  "addBit value arr sz =
     (case hasBit value arr sz of
        None \<Rightarrow> None
      | Some b \<Rightarrow>
          (if b = 0 \<and> value < sz * 8
           then Some (1, arr[value div 8 := arr ! (value div 8) OR push_bit (value mod 8) 1])
           else Some (0, arr)))"

definition delBit :: "nat \<Rightarrow> buffer \<Rightarrow> nat \<Rightarrow> (nat \<times> buffer) option" where
  "delBit value arr sz =
     (case hasBit value arr sz of
        None \<Rightarrow> None
      | Some b \<Rightarrow>
          (if b \<noteq> 0
           then Some (1, arr[value div 8 := arr ! (value div 8) AND NOT (push_bit (value mod 8) 1)])
           else Some (0, arr)))"

section \<open>Unaligned little-endian access\<close>

fun load :: "nat \<Rightarrow> buffer \<Rightarrow> nat \<Rightarrow> uint64" where
  "load 0 bs off = 0"
| "load (Suc n) bs off = ucast (bs ! off) OR push_bit 8 (load n bs (Suc off))"

fun store :: "nat \<Rightarrow> buffer \<Rightarrow> nat \<Rightarrow> uint64 \<Rightarrow> buffer" where
  "store 0 bs off v = bs"
| "store (Suc n) bs off v = store n (bs[off := ucast v]) (Suc off) (drop_bit 8 v)"

text \<open>The number of bytes of the pointer the code picks for a field that ends at bit \<open>n\<close>.\<close>

definition access_width :: "nat \<Rightarrow> nat option" where
  "access_width n = (if n \<le> 8 then Some 1 else if n \<le> 16 then Some 2
     else if n \<le> 32 then Some 4 else if n \<le> 64 then Some 8 else None)"

definition field_mask :: "nat \<Rightarrow> nat \<Rightarrow> uint64" where
  "field_mask len off = push_bit off (drop_bit (64 - len) (NOT 0))"

section \<open>Least significant bit first\<close>

definition packBitsBE :: "buffer \<Rightarrow> uint64 \<Rightarrow> nat \<Rightarrow> nat \<Rightarrow> nat \<Rightarrow> (nat \<times> buffer) option" where
  "packBitsBE target value byteOffset bitOffset lengthInBit =
     (let byteOff = byteOffset + bitOffset div 8;
          bitOff = bitOffset mod 8;
          bitmask = field_mask lengthInBit bitOff;
          v = push_bit bitOff value AND bitmask;
          ret = byteOff * 8 + bitOff + lengthInBit
      in if lengthInBit = 0 \<or> 64 < lengthInBit then None
         else (case access_width (lengthInBit + bitOff) of
                 None \<Rightarrow> Some (ret, target)
               | Some n \<Rightarrow>
                   (if byteOff + n \<le> length target
                    then Some (ret, store n target byteOff
                           ((load n target byteOff AND NOT bitmask) OR v))
                    else None)))"

definition unpackBitsBE :: "buffer \<Rightarrow> nat \<Rightarrow> nat \<Rightarrow> nat \<Rightarrow> uint64 option" where
  "unpackBitsBE target byteOffset bitOffset lengthInBit =
     (let byteOff = byteOffset + bitOffset div 8;
          bitOff = bitOffset mod 8;
          bitmask = field_mask lengthInBit bitOff
      in if lengthInBit = 0 \<or> 64 < lengthInBit then None
         else (case access_width (lengthInBit + bitOff) of
                 None \<Rightarrow> Some 0
               | Some n \<Rightarrow>
                   (if byteOff + n \<le> length target
                    then Some (drop_bit bitOff (load n target byteOff AND bitmask))
                    else None)))"

section \<open>Most significant bit first\<close>

text \<open>
  The code copies the bytes it needs into a fresh array in reverse order, runs the other packer
  on that array, and copies them back.
\<close>

definition reversed_window :: "buffer \<Rightarrow> nat \<Rightarrow> nat \<Rightarrow> buffer" where
  "reversed_window target off n = map (\<lambda>cur. target ! (off + (n - 1) - cur)) [0..<n]"

definition write_back :: "buffer \<Rightarrow> nat \<Rightarrow> nat \<Rightarrow> buffer \<Rightarrow> buffer" where
  "write_back target off n modified =
     fold (\<lambda>cur t. t[off + (n - 1) - cur := modified ! cur]) [0..<n] target"

definition packBitsLE :: "buffer \<Rightarrow> uint64 \<Rightarrow> nat \<Rightarrow> nat \<Rightarrow> nat \<Rightarrow> (nat \<times> buffer) option" where
  "packBitsLE target value byteOffset bitOffset lengthInBit =
     (let byteOff = byteOffset + bitOffset div 8;
          bitOff = bitOffset mod 8
      in case access_width (bitOff + lengthInBit) of
           None \<Rightarrow> Some (0, target)
         | Some n \<Rightarrow>
             (if length target < byteOff + n then None
              else (case packBitsBE (reversed_window target byteOff n) value 0
                           (8 * n - (bitOff + lengthInBit)) lengthInBit of
                      None \<Rightarrow> None
                    | Some (_, modified) \<Rightarrow>
                        Some (byteOff * 8 + bitOff + lengthInBit,
                              write_back target byteOff n modified))))"

definition unpackBitsLE :: "buffer \<Rightarrow> nat \<Rightarrow> nat \<Rightarrow> nat \<Rightarrow> uint64 option" where
  "unpackBitsLE target byteOffset bitOffset lengthInBit =
     (let byteOff = byteOffset + bitOffset div 8;
          bitOff = bitOffset mod 8
      in case access_width (bitOff + lengthInBit) of
           None \<Rightarrow> Some 0
         | Some n \<Rightarrow>
             (if length target < byteOff + n then None
              else if n = 1
              then Some (ucast (drop_bit (8 - (lengthInBit + bitOff))
                     (reversed_window target byteOff n ! 0 AND drop_bit bitOff 255)))
              else unpackBitsBE (reversed_window target byteOff n) 0
                     (8 * n - (bitOff + lengthInBit)) lengthInBit))"

definition packBitsBE_at :: "buffer \<Rightarrow> uint64 \<Rightarrow> nat \<Rightarrow> nat \<Rightarrow> (nat \<times> buffer) option" where
  "packBitsBE_at target value bitOffset len = packBitsBE target value 0 bitOffset len"

definition unpackBitsBE_at :: "buffer \<Rightarrow> nat \<Rightarrow> nat \<Rightarrow> uint64 option" where
  "unpackBitsBE_at target bitOffset len = unpackBitsBE target 0 bitOffset len"

definition packBitsLE_at :: "buffer \<Rightarrow> uint64 \<Rightarrow> nat \<Rightarrow> nat \<Rightarrow> (nat \<times> buffer) option" where
  "packBitsLE_at target value bitOffset len = packBitsLE target value 0 bitOffset len"

definition unpackBitsLE_at :: "buffer \<Rightarrow> nat \<Rightarrow> nat \<Rightarrow> uint64 option" where
  "unpackBitsLE_at target bitOffset len = unpackBitsLE target 0 bitOffset len"

section \<open>Bits of a buffer\<close>

text \<open>
  The two ways to number the bits of a buffer: from the least and from the most significant bit
  of each byte.
\<close>

definition bitBE :: "buffer \<Rightarrow> nat \<Rightarrow> bool" where
  "bitBE bs j = bit (bs ! (j div 8)) (j mod 8)"

definition bitLE :: "buffer \<Rightarrow> nat \<Rightarrow> bool" where
  "bitLE bs j = bit (bs ! (j div 8)) (7 - j mod 8)"

lemma length_store [simp]: "length (store n bs off v) = length bs"
  by (induction n arbitrary: bs off v) auto

lemma bit_load:
  "bit (load n bs off) i \<longleftrightarrow> i < 64 \<and> i < 8 * n \<and> bitBE bs (8 * off + i)"
proof (induction n arbitrary: off i)
  case 0
  then show ?case by simp
next
  case (Suc n)
  have "bit (load (Suc n) bs off) i \<longleftrightarrow>
      i < 64 \<and> ((i < 8 \<and> bit (bs ! off) i) \<or> (8 \<le> i \<and> bit (load n bs (Suc off)) (i - 8)))"
    by (auto simp: bit_simps dest: bit_imp_le_length)
  also have "\<dots> \<longleftrightarrow> i < 64 \<and> i < 8 * Suc n \<and> bitBE bs (8 * off + i)"
    unfolding Suc.IH by (cases "i < 8") (auto simp: bitBE_def)
  finally show ?case .
qed

lemma bitBE_update:
  "bitBE (bs[k := w]) j = (if j div 8 = k \<and> k < length bs then bit w (j mod 8) else bitBE bs j)"
  by (cases "k < length bs") (auto simp: bitBE_def not_less list_update_beyond)

lemma bitBE_store:
  assumes "off + n \<le> length bs" "8 * n \<le> 64"
  shows "bitBE (store n bs off v) j =
    (if 8 * off \<le> j \<and> j < 8 * (off + n) then bit v (j - 8 * off) else bitBE bs j)"
  using assms
proof (induction n arbitrary: bs off v)
  case 0
  then show ?case by auto
next
  case (Suc n)
  have IH: "bitBE (store (Suc n) bs off v) j =
      (if 8 * Suc off \<le> j \<and> j < 8 * (Suc off + n) then bit (drop_bit 8 v) (j - 8 * Suc off)
       else bitBE (bs[off := ucast v]) j)"
    using Suc.IH[of "Suc off" "bs[off := ucast v]" "drop_bit 8 v"] Suc.prems by simp
  have dv: "j div 8 = off \<longleftrightarrow> 8 * off \<le> j \<and> j < 8 * off + 8" by auto
  have md: "j mod 8 = j - 8 * off" if "8 * off \<le> j" "j < 8 * off + 8"
  proof -
    from that obtain i where "j = 8 * off + i" "i < 8"
      by (metis le_Suc_ex nat_add_left_cancel_less)
    then show ?thesis by simp
  qed
  show ?case
  proof (cases "8 * Suc off \<le> j")
    case True
    then show ?thesis unfolding IH by (auto simp: bit_simps bitBE_update dv)
  next
    case False
    then show ?thesis
      unfolding IH using Suc.prems md by (auto simp: bit_simps bitBE_update dv)
  qed
qed

lemma bit_field_mask:
  assumes "0 < len" "len + off \<le> 64"
  shows "bit (field_mask len off) i \<longleftrightarrow> off \<le> i \<and> i < off + len"
  using assms by (auto simp: field_mask_def bit_simps)

lemma access_width_cases:
  "access_width n = Some w \<Longrightarrow> n \<le> 8 * w \<and> w \<le> 8 \<and> 0 < w"
  by (auto simp: access_width_def split: if_splits)

lemma access_width_defined: "n \<le> 64 \<Longrightarrow> \<exists>w. access_width n = Some w"
  by (auto simp: access_width_def)

lemma buffer_eqI:
  assumes "length bs = length bs'" "\<And>j. j < 8 * length bs \<Longrightarrow> bitBE bs j = bitBE bs' j"
  shows "bs = bs'"
proof (rule nth_equalityI)
  fix k assume k: "k < length bs"
  show "bs ! k = bs' ! k"
  proof (rule bit_word_eqI)
    fix n assume "n < LENGTH(8)"
    then have n: "n < 8" by simp
    then have "8 * k + n < 8 * length bs" "(8 * k + n) div 8 = k" "(8 * k + n) mod 8 = n"
      using k by auto
    then show "bit (bs ! k) n = bit (bs' ! k) n"
      using assms(2)[of "8 * k + n"] by (simp add: bitBE_def)
  qed
qed (rule assms)

section \<open>What the packers do\<close>

lemma field_bits:
  assumes len: "0 < len" "len + b \<le> 8 * n" "8 * n \<le> 64" and fits: "B + n \<le> length t"
  shows "bitBE (store n t B ((load n t B AND NOT (field_mask len b)) OR
      (push_bit b v AND field_mask len b))) j =
    (if 8 * B + b \<le> j \<and> j < 8 * B + b + len then bit v (j - (8 * B + b)) else bitBE t j)"
proof (cases "8 * B \<le> j \<and> j < 8 * (B + n)")
  case True
  then obtain i where j: "j = 8 * B + i" and i: "i < 8 * n"
    by (metis add_mult_distrib2 le_Suc_ex nat_add_left_cancel_less)
  then have "i < 64" using len by simp
  then show ?thesis
    unfolding bitBE_store[OF fits len(3)] j
    using i len by (auto simp: bit_simps bit_load bit_field_mask)
next
  case False
  then show ?thesis unfolding bitBE_store[OF fits len(3)] using len by auto
qed

lemma packBitsBE_bits:
  assumes len: "0 < len" "len + bi mod 8 \<le> 64"
    and w: "access_width (len + bi mod 8) = Some n" and fits: "bo + bi div 8 + n \<le> length t"
  shows "\<exists>t'. packBitsBE t v bo bi len = Some (8 * bo + bi + len, t') \<and> length t' = length t \<and>
    (\<forall>j. bitBE t' j = (if 8 * bo + bi \<le> j \<and> j < 8 * bo + bi + len
       then bit v (j - (8 * bo + bi)) else bitBE t j))"
proof -
  let ?B = "bo + bi div 8" and ?b = "bi mod 8"
  let ?t' = "store n t ?B ((load n t ?B AND NOT (field_mask len ?b)) OR
      (push_bit ?b v AND field_mask len ?b))"
  have n: "len + ?b \<le> 8 * n" "8 * n \<le> 64" using access_width_cases[OF w] by auto
  have start: "8 * bo + bi = 8 * ?B + ?b" by simp
  have "bitBE ?t' j = (if 8 * bo + bi \<le> j \<and> j < 8 * bo + bi + len
       then bit v (j - (8 * bo + bi)) else bitBE t j)" for j
    unfolding start by (rule field_bits[OF len(1) n fits])
  moreover have "packBitsBE t v bo bi len = Some (8 * bo + bi + len, ?t')"
    using len w fits by (simp add: packBitsBE_def Let_def)
  ultimately show ?thesis by auto
qed

lemma unpackBitsBE_bits:
  assumes len: "0 < len" "len + bi mod 8 \<le> 64"
    and w: "access_width (len + bi mod 8) = Some n" and fits: "bo + bi div 8 + n \<le> length t"
  shows "\<exists>r. unpackBitsBE t bo bi len = Some r \<and>
    (\<forall>i. bit r i \<longleftrightarrow> i < len \<and> bitBE t (8 * bo + bi + i))"
proof -
  let ?B = "bo + bi div 8" and ?b = "bi mod 8"
  have n: "len + ?b \<le> 8 * n" "8 * n \<le> 64" using access_width_cases[OF w] by auto
  have start: "8 * bo + bi = 8 * ?B + ?b" by simp
  have "bit (drop_bit ?b (load n t ?B AND field_mask len ?b)) i \<longleftrightarrow>
      i < len \<and> bitBE t (8 * bo + bi + i)" for i
    unfolding start using n len by (auto simp: bit_simps bit_load bit_field_mask add.assoc)
  moreover have "unpackBitsBE t bo bi len =
      Some (drop_bit ?b (load n t ?B AND field_mask len ?b))"
    using len w fits by (simp add: unpackBitsBE_def Let_def)
  ultimately show ?thesis by auto
qed

lemma length_reversed_window [simp]: "length (reversed_window t off n) = n"
  by (simp add: reversed_window_def)

lemma mirror_index:
  fixes r :: nat
  assumes "r < 8"
  shows "(8 * (a + Suc (q + d)) - 1 - (8 * q + r)) div 8 = a + d"
    "(8 * (a + Suc (q + d)) - 1 - (8 * q + r)) mod 8 = 7 - r"
proof -
  have *: "(8 * c + y) div 8 = c \<and> (8 * c + y) mod 8 = y" if "y < 8" for c y :: nat
    using that by auto
  have "8 * (a + Suc (q + d)) = (8 * (a + d) + (7 - r)) + 1 + (8 * q + r)" using assms by simp
  then have "8 * (a + Suc (q + d)) - 1 - (8 * q + r) = 8 * (a + d) + (7 - r)"
    unfolding diff_diff_left by (simp only: add.assoc diff_add_inverse2)
  with *[of "7 - r" "a + d"] show "(8 * (a + Suc (q + d)) - 1 - (8 * q + r)) div 8 = a + d"
    "(8 * (a + Suc (q + d)) - 1 - (8 * q + r)) mod 8 = 7 - r" by simp_all
qed

lemma bitBE_reversed_window:
  assumes "w < 8 * n"
  shows "bitBE (reversed_window t off n) w = bitLE t (8 * (off + n) - 1 - w)"
proof -
  have k: "w div 8 < n" using assms by auto
  then obtain d where d: "n = Suc (w div 8 + d)" by (metis less_iff_Suc_add)
  have "(8 * (off + n) - 1 - w) div 8 = off + d" "(8 * (off + n) - 1 - w) mod 8 = 7 - w mod 8"
    using mirror_index[of "w mod 8" off "w div 8" d] d by simp_all
  moreover have "7 - (7 - w mod 8) = w mod 8" using mod_less_divisor[of 8 w] by linarith
  moreover have "reversed_window t off n ! (w div 8) = t ! (off + d)"
    using k arg_cong[OF d, of "\<lambda>m. off + (m - 1) - w div 8"]
    by (simp add: reversed_window_def del: upt_Suc)
  ultimately show ?thesis by (simp add: bitBE_def bitLE_def)
qed

lemma length_write_back [simp]: "length (write_back t off n m) = length t"
proof -
  have "length (fold (\<lambda>cur t. t[f cur := g cur]) xs t) = length t" for f g xs and t :: buffer
    by (induction xs arbitrary: t) auto
  then show ?thesis by (simp add: write_back_def)
qed

lemma nth_write_back:
  assumes "off + n \<le> length t"
  shows "write_back t off n m ! i =
    (if off \<le> i \<and> i < off + n then m ! (off + n - 1 - i) else t ! i)"
proof -
  let ?f = "\<lambda>k. fold (\<lambda>cur t. t[off + (n - 1) - cur := m ! cur]) [0..<k] t"
  have len: "length (?f k) = length t" for k
    by (induction k) auto
  have "k \<le> n \<Longrightarrow> ?f k ! i =
      (if off + n - k \<le> i \<and> i < off + n then m ! (off + n - 1 - i) else t ! i)" for k
  proof (induction k)
    case 0
    then show ?case by auto
  next
    case (Suc k)
    then have "?f (Suc k) = (?f k)[off + n - Suc k := m ! k]" by auto
    then show ?case
      using Suc len[of k] assms by (auto simp: nth_list_update)
  qed
  from this[of n] show ?thesis by (simp add: write_back_def)
qed

lemma bitLE_write_back:
  assumes "off + n \<le> length t" "length m = n"
  shows "bitLE (write_back t off n m) j =
    (if 8 * off \<le> j \<and> j < 8 * (off + n) then bitBE m (8 * (off + n) - 1 - j) else bitLE t j)"
proof (cases "off \<le> j div 8 \<and> j div 8 < off + n")
  case True
  then obtain d where d: "off + n = Suc (j div 8 + d)" by (metis less_iff_Suc_add)
  have "(8 * (off + n) - 1 - j) div 8 = off + n - 1 - j div 8"
    "(8 * (off + n) - 1 - j) mod 8 = 7 - j mod 8"
    using mirror_index[of "j mod 8" 0 "j div 8" d] d by simp_all
  moreover have "8 * off \<le> j \<and> j < 8 * (off + n)" using True by auto
  ultimately show ?thesis
    using True by (simp add: bitLE_def bitBE_def nth_write_back[OF assms(1)])
next
  case False
  then have "\<not> (8 * off \<le> j \<and> j < 8 * (off + n))" by auto
  then show ?thesis
    unfolding bitLE_def nth_write_back[OF assms(1)] using False by (simp only: if_False)
qed

text \<open>
  The fields the most-significant-bit-first packers handle within their temporary array: those
  that end in the last byte of the 1, 2, 4 or 8 bytes copied.
\<close>

definition window_safe :: "nat \<Rightarrow> bool" where
  "window_safe m \<longleftrightarrow> m \<le> 16 \<or> (25 \<le> m \<and> m \<le> 32) \<or> (57 \<le> m \<and> m \<le> 64)"

lemma window_safeD:
  assumes "0 < len" "b < 8" "window_safe (b + len)"
  shows "\<exists>n. access_width (b + len) = Some n \<and> b + len \<le> 8 * n \<and> 8 * n - (b + len) < 8 \<and>
    access_width (len + (8 * n - (b + len))) = Some n \<and> (n = 1 \<longleftrightarrow> b + len \<le> 8)"
proof -
  consider "b + len \<le> 8" | "8 < b + len" "b + len \<le> 16" | "25 \<le> b + len" "b + len \<le> 32"
    | "57 \<le> b + len" "b + len \<le> 64"
    using assms(3) unfolding window_safe_def by linarith
  then show ?thesis
  proof cases
    case 1
    with assms show ?thesis by (auto simp: access_width_def)
  next
    case 2
    then have "len + (16 - (b + len)) = 16 - b" "16 - (b + len) < 8" by auto
    with 2 assms(2) show ?thesis by (auto simp: access_width_def)
  next
    case 3
    then have "len + (32 - (b + len)) = 32 - b" "32 - (b + len) < 8" by auto
    with 3 assms(2) show ?thesis by (auto simp: access_width_def)
  next
    case 4
    then have "len + (64 - (b + len)) = 64 - b" "64 - (b + len) < 8" by auto
    with 4 assms(2) show ?thesis by (auto simp: access_width_def)
  qed
qed

lemma window_unsafe:
  assumes "0 < len" "b < 8" "b + len \<le> 64" "\<not> window_safe (b + len)" "length w = n"
    and n: "access_width (b + len) = Some n"
  shows "packBitsBE w v 0 (8 * n - (b + len)) len = None \<and>
    unpackBitsBE w 0 (8 * n - (b + len)) len = None"
proof -
  have *: "\<lbrakk>0 < len; len \<le> 64; access_width (len + r) = Some k; r < 8; n < q + k\<rbrakk> \<Longrightarrow>
      packBitsBE w v 0 (8 * q + r) len = None \<and> unpackBitsBE w 0 (8 * q + r) len = None" for q r k
    using assms(5) by (simp add: packBitsBE_def unpackBitsBE_def)
  have wid: "len + (k - (b + len)) = k - b" if "b + len \<le> k" for k using that by auto
  consider "17 \<le> b + len" "b + len \<le> 24" | "33 \<le> b + len" "b + len \<le> 40"
    | "41 \<le> b + len" "b + len \<le> 48" | "49 \<le> b + len" "b + len \<le> 56"
    using assms(3,4) unfolding window_safe_def by linarith
  then show ?thesis
  proof cases
    case 1
    then have n1: "n = 4" using n by (auto simp: access_width_def)
    then have eq: "8 * n - (b + len) = 8 * 1 + (24 - (b + len))" using 1 by simp
    have "access_width (len + (24 - (b + len))) = Some 4"
      using 1 assms(2) wid[of 24] by (auto simp: access_width_def)
    then show ?thesis
      unfolding eq using 1 assms n1 by (intro *[where k = 4]) auto
  next
    case 2
    then have n2: "n = 8" using n by (auto simp: access_width_def)
    then have eq: "8 * n - (b + len) = 8 * 3 + (40 - (b + len))" using 2 by simp
    have "access_width (len + (40 - (b + len))) = Some 8"
      using 2 assms(2) wid[of 40] by (auto simp: access_width_def)
    then show ?thesis
      unfolding eq using 2 assms n2 by (intro *[where k = 8]) auto
  next
    case 3
    then have n3: "n = 8" using n by (auto simp: access_width_def)
    then have eq: "8 * n - (b + len) = 8 * 2 + (48 - (b + len))" using 3 by simp
    have "access_width (len + (48 - (b + len))) = Some 8"
      using 3 assms(2) wid[of 48] by (auto simp: access_width_def)
    then show ?thesis
      unfolding eq using 3 assms n3 by (intro *[where k = 8]) auto
  next
    case 4
    then have n4: "n = 8" using n by (auto simp: access_width_def)
    then have eq: "8 * n - (b + len) = 8 * 1 + (56 - (b + len))" using 4 by simp
    have "access_width (len + (56 - (b + len))) = Some 8"
      using 4 assms(2) wid[of 56] by (auto simp: access_width_def)
    then show ?thesis
      unfolding eq using 4 assms n4 by (intro *[where k = 8]) auto
  qed
qed

text \<open>A field is in the window when the packers stay within the buffer and the copied bytes.\<close>

definition field_ok :: "buffer \<Rightarrow> nat \<Rightarrow> nat \<Rightarrow> nat \<Rightarrow> bool" where
  "field_ok t bo bi len \<longleftrightarrow> 0 < len \<and> window_safe (bi mod 8 + len) \<and>
     (\<exists>n. access_width (bi mod 8 + len) = Some n \<and> bo + bi div 8 + n \<le> length t)"

lemma field_okE:
  assumes "field_ok t bo bi len"
  obtains n where "0 < len" "access_width (bi mod 8 + len) = Some n"
    "bo + bi div 8 + n \<le> length t" "bi mod 8 + len \<le> 8 * n" "n \<le> 8" "0 < n"
    "8 * n - (bi mod 8 + len) < 8" "access_width (len + (8 * n - (bi mod 8 + len))) = Some n"
    "n = 1 \<longleftrightarrow> bi mod 8 + len \<le> 8"
proof -
  from assms obtain n where n: "0 < len" "window_safe (bi mod 8 + len)"
    "access_width (bi mod 8 + len) = Some n" "bo + bi div 8 + n \<le> length t"
    by (auto simp: field_ok_def)
  with window_safeD[of len "bi mod 8"] access_width_cases[OF n(3)] that show ?thesis by auto
qed

lemma field_shift:
  fixes b i c :: nat
  shows "(if b \<le> i \<and> i < b + len then f (b + len - 1 - i) else g) =
    (if c + b \<le> c + i \<and> c + i < c + b + len then f (c + b + len - 1 - (c + i)) else g)"
  by (simp add: add.assoc)

lemma inside_window:
  fixes b :: nat
  assumes "b + len \<le> 8 * n"
  shows "c + b \<le> j \<and> j < c + b + len \<Longrightarrow> c \<le> j \<and> j < c + 8 * n"
  using assms by auto

lemma packBitsLE_bits:
  assumes "field_ok t bo bi len"
  shows "\<exists>t'. packBitsLE t v bo bi len = Some (8 * bo + bi + len, t') \<and> length t' = length t \<and>
    (\<forall>j. bitLE t' j = (if 8 * bo + bi \<le> j \<and> j < 8 * bo + bi + len
       then bit v (8 * bo + bi + len - 1 - j) else bitLE t j))"
  using assms
proof (rule field_okE)
  fix n
  let ?B = "bo + bi div 8" and ?b = "bi mod 8"
  let ?r = "8 * n - (?b + len)" and ?w = "reversed_window t (bo + bi div 8) n"
  assume len: "0 < len" and w: "access_width (?b + len) = Some n" and fits: "?B + n \<le> length t"
    and m: "?b + len \<le> 8 * n" "n \<le> 8" "0 < n" "?r < 8"
    and w': "access_width (len + ?r) = Some n" and "n = 1 \<longleftrightarrow> ?b + len \<le> 8"
  have le64: "len + ?r mod 8 \<le> 64" using m by simp
  have "?r mod 8 = ?r" "?r div 8 = 0" using m(4) by simp_all
  then have pre: "access_width (len + ?r mod 8) = Some n" "0 + ?r div 8 + n \<le> length ?w"
    using w' by simp_all
  from packBitsBE_bits[OF len le64 pre, of v] obtain w1 where
    w1: "packBitsBE ?w v 0 ?r len = Some (8 * 0 + ?r + len, w1)" "length w1 = length ?w"
    "\<forall>j. bitBE w1 j = (if 8 * 0 + ?r \<le> j \<and> j < 8 * 0 + ?r + len
       then bit v (j - (8 * 0 + ?r)) else bitBE ?w j)" by blast
  let ?t' = "write_back t ?B n w1"
  have start: "8 * bo + bi = 8 * ?B + ?b" by simp
  have "packBitsLE t v bo bi len = Some (8 * bo + bi + len, ?t')"
    using w w1(1) fits by (simp add: packBitsLE_def Let_def)
  moreover have "bitLE ?t' j = (if 8 * bo + bi \<le> j \<and> j < 8 * bo + bi + len
       then bit v (8 * bo + bi + len - 1 - j) else bitLE t j)" for j
  proof (cases "8 * ?B \<le> j \<and> j < 8 * (?B + n)")
    case True
    then obtain i where j: "j = 8 * ?B + i" and i: "i < 8 * n"
      by (metis add_mult_distrib2 le_Suc_ex nat_add_left_cancel_less)
    have u: "8 * (?B + n) - 1 - j = 8 * n - 1 - i" using i unfolding j by simp
    have lt: "8 * n - 1 - i < 8 * n" using m by simp
    have bck: "8 * (?B + n) - 1 - (8 * n - 1 - i) = j" using i unfolding j by simp
    have cond: "?r \<le> 8 * n - 1 - i \<and> 8 * n - 1 - i < ?r + len \<longleftrightarrow> ?b \<le> i \<and> i < ?b + len"
      using i m(1) len by linarith
    have idx: "8 * n - 1 - i - ?r = ?b + len - 1 - i" if "?b \<le> i \<and> i < ?b + len"
      using that m(1) by linarith
    have "bitLE ?t' j = bitBE w1 (8 * n - 1 - i)"
      using True w1(2) u by (simp add: bitLE_write_back[OF fits])
    also have "\<dots> = (if ?b \<le> i \<and> i < ?b + len then bit v (?b + len - 1 - i) else bitLE t j)"
      using w1(3) cond idx bitBE_reversed_window[OF lt, of t ?B] bck by auto
    finally show ?thesis unfolding start j by (rule trans) (rule field_shift)
  next
    case False
    then have "\<not> (8 * bo + bi \<le> j \<and> j < 8 * bo + bi + len)" unfolding start
      using inside_window[OF m(1), of "8 * ?B" j] by (simp only: distrib_left) blast
    then show ?thesis using False w1(2) by (simp only: bitLE_write_back[OF fits] if_False length_reversed_window)
  qed
  ultimately show ?thesis by auto
qed

lemma window_index:
  fixes b :: nat
  assumes "i < len" "b + len \<le> 8 * n"
  shows "8 * (B + n) - 1 - (8 * n - (b + len) + i) = 8 * B + b + len - 1 - i"
proof -
  from assms(2) obtain d where d: "8 * n = b + len + d" using le_Suc_ex by blast
  have "8 * (B + n) = 8 * B + (b + len + d)" unfolding d[symmetric] by simp
  then show ?thesis using assms(1) unfolding d by simp
qed

lemma unpackBitsLE_bits:
  assumes "field_ok t bo bi len"
  shows "\<exists>r. unpackBitsLE t bo bi len = Some r \<and>
    (\<forall>i. bit r i \<longleftrightarrow> i < len \<and> bitLE t (8 * bo + bi + len - 1 - i))"
  using assms
proof (rule field_okE)
  fix n
  let ?B = "bo + bi div 8" and ?b = "bi mod 8"
  let ?r = "8 * n - (?b + len)" and ?w = "reversed_window t (bo + bi div 8) n"
  assume len: "0 < len" and w: "access_width (?b + len) = Some n" and fits: "?B + n \<le> length t"
    and m: "?b + len \<le> 8 * n" "n \<le> 8" "0 < n" "?r < 8"
    and w': "access_width (len + ?r) = Some n" and one: "n = 1 \<longleftrightarrow> ?b + len \<le> 8"
  have start: "8 * bo + bi = 8 * ?B + ?b" by simp
  have bits: "bitBE ?w (?r + i) = bitLE t (8 * bo + bi + len - 1 - i)" if "i < len" for i
  proof -
    have "?r + i < 8 * n" using that m(1) by linarith
    moreover have "8 * (?B + n) - 1 - (?r + i) = 8 * ?B + ?b + len - 1 - i"
      by (rule window_index[OF that m(1)])
    ultimately show ?thesis unfolding start by (simp only: bitBE_reversed_window)
  qed
  show ?thesis
  proof (cases "n = 1")
    case True
    let ?v = "ucast (drop_bit (8 - (len + ?b)) (?w ! 0 AND drop_bit ?b 255)) :: uint64"
    have "unpackBitsLE t bo bi len = Some ?v"
      using True w fits by (simp add: unpackBitsLE_def Let_def)
    moreover have "bit ?v i \<longleftrightarrow> i < len \<and> bitLE t (8 * bo + bi + len - 1 - i)" for i
    proof -
      have ones: "bit (255 :: uint8) k \<longleftrightarrow> k < 8" for k
        using bit_mask_iff[of 8 k, where 'a = "8 word"] by (simp add: mask_eq_exp_minus_1)
      have b: "?b + len \<le> 8" using one True by simp
      have "bit ?v i \<longleftrightarrow> i < len \<and> bit (?w ! 0) (8 - (len + ?b) + i)"
        unfolding bit_simps ones using b by (auto simp: ac_simps)
      also have "\<dots> \<longleftrightarrow> i < len \<and> bitBE ?w (?r + i)"
        using b True by (auto simp: bitBE_def ac_simps)
      finally show ?thesis using bits by auto
    qed
    ultimately show ?thesis by blast
  next
    case False
    have le64: "len + ?r mod 8 \<le> 64" using m by simp
    have "?r mod 8 = ?r" "?r div 8 = 0" using m(4) by simp_all
    then have pre: "access_width (len + ?r mod 8) = Some n" "0 + ?r div 8 + n \<le> length ?w"
      using w' by simp_all
    have "unpackBitsLE t bo bi len = unpackBitsBE ?w 0 ?r len"
      using w fits False by (simp add: unpackBitsLE_def Let_def)
    with unpackBitsBE_bits[OF len le64 pre] bits show ?thesis by auto
  qed
qed

section \<open>Reading back what was written\<close>

lemma bitLE_buffer_eqI:
  assumes "length bs = length bs'" "\<And>j. bitLE bs j = bitLE bs' j"
  shows "bs = bs'"
proof (rule nth_equalityI)
  fix k assume "k < length bs"
  show "bs ! k = bs' ! k"
  proof (rule bit_word_eqI)
    fix n assume "n < LENGTH(8)"
    then have n: "n < 8" by simp
    then have "(8 * k + m) div 8 = k \<and> (8 * k + m) mod 8 = m" if "m \<le> 7" for m
      using that by auto
    from this[of "7 - n"] have "(8 * k + (7 - n)) div 8 = k" "(8 * k + (7 - n)) mod 8 = 7 - n"
      by simp_all
    then show "bit (bs ! k) n = bit (bs' ! k) n"
      using assms(2)[of "8 * k + (7 - n)"] n by (simp add: bitLE_def)
  qed
qed (rule assms)

lemma field_ok_len: "field_ok t bo bi len \<Longrightarrow> length t' = length t \<Longrightarrow> field_ok t' bo bi len"
  by (simp add: field_ok_def)

lemma unpack_pack_same:
  assumes ok: "field_ok t bo bi len" and p: "packBitsLE t v bo bi len = Some (e, t')"
  shows "unpackBitsLE t' bo bi len = Some (take_bit len v)"
proof -
  obtain t1 where t1: "packBitsLE t v bo bi len = Some (8 * bo + bi + len, t1)"
    "length t1 = length t" "\<And>j. bitLE t1 j = (if 8 * bo + bi \<le> j \<and> j < 8 * bo + bi + len
       then bit v (8 * bo + bi + len - 1 - j) else bitLE t j)"
    using packBitsLE_bits[OF ok, of v] by blast
  with p have [simp]: "t' = t1" by simp
  from unpackBitsLE_bits[OF field_ok_len[OF ok t1(2)]] obtain r where
    r: "unpackBitsLE t1 bo bi len = Some r"
    "\<forall>i. bit r i \<longleftrightarrow> i < len \<and> bitLE t1 (8 * bo + bi + len - 1 - i)" by blast
  have "r = take_bit len v"
    by (rule bit_word_eqI) (auto simp: r(2) t1(3) bit_take_bit_iff)
  with r(1) show ?thesis by simp
qed

lemma unpack_pack_other:
  assumes ok: "field_ok t bo bi len" and p: "packBitsLE t v bo bi len = Some (e, t')"
    and ok2: "field_ok t bo' bi' len'"
    and disj: "8 * bo' + bi' + len' \<le> 8 * bo + bi \<or> 8 * bo + bi + len \<le> 8 * bo' + bi'"
  shows "unpackBitsLE t' bo' bi' len' = unpackBitsLE t bo' bi' len'"
proof -
  obtain t1 where t1: "packBitsLE t v bo bi len = Some (8 * bo + bi + len, t1)"
    "length t1 = length t" "\<And>j. bitLE t1 j = (if 8 * bo + bi \<le> j \<and> j < 8 * bo + bi + len
       then bit v (8 * bo + bi + len - 1 - j) else bitLE t j)"
    using packBitsLE_bits[OF ok, of v] by blast
  with p have [simp]: "t' = t1" by simp
  from unpackBitsLE_bits[OF field_ok_len[OF ok2 t1(2)]] obtain r where
    r: "unpackBitsLE t1 bo' bi' len' = Some r"
    "\<forall>i. bit r i \<longleftrightarrow> i < len' \<and> bitLE t1 (8 * bo' + bi' + len' - 1 - i)" by blast
  from unpackBitsLE_bits[OF ok2] obtain q where
    q: "unpackBitsLE t bo' bi' len' = Some q"
    "\<forall>i. bit q i \<longleftrightarrow> i < len' \<and> bitLE t (8 * bo' + bi' + len' - 1 - i)" by blast
  have "bitLE t1 (8 * bo' + bi' + len' - 1 - i) = bitLE t (8 * bo' + bi' + len' - 1 - i)"
    if "i < len'" for i
    using disj that unfolding t1(3) by (intro if_not_P) linarith
  then have "r = q" by (intro bit_word_eqI) (auto simp: r(2) q(2))
  with r(1) q(1) show ?thesis by simp
qed

text \<open>
  C34: the most-significant-bit-first packer and unpacker are inverse on every field they handle
  within the buffer: packing always returns the bit position after the field, the field reads
  back as the low bits of the value, and every other field of the buffer reads as before.
\<close>

theorem packBitsLE_roundtrip:
  assumes "field_ok t bo bi len"
  shows "\<exists>t'. packBitsLE t v bo bi len = Some (8 * bo + bi + len, t') \<and> length t' = length t \<and>
    unpackBitsLE t' bo bi len = Some (take_bit len v) \<and>
    (\<forall>bo' bi' len'. field_ok t bo' bi' len' \<and>
       (8 * bo' + bi' + len' \<le> 8 * bo + bi \<or> 8 * bo + bi + len \<le> 8 * bo' + bi') \<longrightarrow>
       unpackBitsLE t' bo' bi' len' = unpackBitsLE t bo' bi' len')"
proof -
  obtain t' where t': "packBitsLE t v bo bi len = Some (8 * bo + bi + len, t')" "length t' = length t"
    using packBitsLE_bits[OF assms, of v] by blast
  with unpack_pack_same[OF assms t'(1)] unpack_pack_other[OF assms t'(1)] show ?thesis by auto
qed

lemma field_ok_example: "field_ok [0, 0, 0, 0] 0 3 7" "field_ok [0, 0, 0, 0] 1 5 10"
  by (simp_all add: field_ok_def window_safe_def access_width_def)

theorem packBitsLE_roundtrip_witness:
  "\<exists>t'. packBitsLE [0, 0, 0, 0] 0x1ab 0 3 7 = Some (10, t') \<and>
     unpackBitsLE t' 0 3 7 = Some 0x2b \<and> unpackBitsLE t' 1 5 10 = Some 0"
proof -
  have "take_bit 7 (0x1ab :: uint64) = 0x2b" "unpackBitsLE [0, 0, 0, 0] 1 5 10 = Some 0"
    by code_simp+
  with packBitsLE_roundtrip[OF field_ok_example(1), where v = "0x1ab"] field_ok_example(2)
  show ?thesis by fastforce
qed

text \<open>
  The least-significant-bit-first pair: a field that ends within 64 bits of the byte it
  starts in, and whose access stays in the buffer, reads back as the low bits of the value, and
  no other bit of the buffer changes.
\<close>

theorem packBitsBE_roundtrip:
  assumes "0 < len" "len + bi mod 8 \<le> 64" "access_width (len + bi mod 8) = Some n"
    "bo + bi div 8 + n \<le> length t"
  shows "\<exists>t'. packBitsBE t v bo bi len = Some (8 * bo + bi + len, t') \<and> length t' = length t \<and>
    unpackBitsBE t' bo bi len = Some (take_bit len v) \<and>
    (\<forall>j. j < 8 * bo + bi \<or> 8 * bo + bi + len \<le> j \<longrightarrow> bitBE t' j = bitBE t j)"
proof -
  obtain t' where t': "packBitsBE t v bo bi len = Some (8 * bo + bi + len, t')"
    "length t' = length t" "\<forall>j. bitBE t' j = (if 8 * bo + bi \<le> j \<and> j < 8 * bo + bi + len
       then bit v (j - (8 * bo + bi)) else bitBE t j)"
    using packBitsBE_bits[OF assms, of v] by blast
  obtain r where r: "unpackBitsBE t' bo bi len = Some r"
    "\<forall>i. bit r i \<longleftrightarrow> i < len \<and> bitBE t' (8 * bo + bi + i)"
    using unpackBitsBE_bits[of len bi n bo t'] assms t'(2) by auto
  have "r = take_bit len v"
    by (rule bit_word_eqI) (auto simp: r(2) t'(3) bit_take_bit_iff)
  with t' r(1) show ?thesis by auto
qed

theorem packBitsBE_roundtrip_witness:
  "\<exists>t'. packBitsBE [1, 2, 3, 4, 5] 0x155 1 6 12 = Some (26, t') \<and>
     unpackBitsBE t' 1 6 12 = Some 0x155 \<and> bitBE t' 0"
proof -
  have "take_bit 12 (0x155 :: uint64) = 0x155" "bitBE [1, 2, 3, 4, 5] 0" by code_simp+
  with packBitsBE_roundtrip[where len = 12 and bi = 6 and n = 4 and bo = 1 and
      t = "[1, 2, 3, 4, 5]" and v = "0x155"] show ?thesis
    by (force simp: access_width_def)
qed

text \<open>
  The packers that number bits from the most significant one overrun their temporary array
  for the other widths.  When the field ends 17 to 24 or 33 to 56 bits after the start of its
  first byte, the reversed copy has 4 or 8 bytes, the field does not start in its first byte, and
  the inner call picks a 4 or 8 byte access past the end of it, whatever the buffer.
\<close>

theorem packBitsLE_overrun:
  assumes "0 < len" "bi mod 8 + len \<le> 64" "\<not> window_safe (bi mod 8 + len)"
  shows "packBitsLE t v bo bi len = None \<and> unpackBitsLE t bo bi len = None"
proof -
  obtain n where n: "access_width (bi mod 8 + len) = Some n" using access_width_defined[OF assms(2)] by blast
  have "n \<noteq> 1" using n assms(3) by (auto simp: access_width_def window_safe_def split: if_splits)
  with n window_unsafe[where w = "reversed_window t (bo + bi div 8) n" and v = v,
      OF assms(1) _ assms(2,3) length_reversed_window n]
  show ?thesis by (simp add: packBitsLE_def unpackBitsLE_def Let_def)
qed

theorem packBitsLE_overrun_witness:
  "packBitsLE (replicate 512 0) 12345 0 48 20 = None"
  using packBitsLE_overrun[of 20 48 "replicate 512 0" 12345 0] by (simp add: window_safe_def)

section \<open>Both packers provide the contract\<close>

definition room_LE :: "buffer \<Rightarrow> nat \<Rightarrow> nat \<Rightarrow> bool" where
  "room_LE t p len \<longleftrightarrow> field_ok t 0 p len"

definition room_BE :: "buffer \<Rightarrow> nat \<Rightarrow> nat \<Rightarrow> bool" where
  "room_BE t p len \<longleftrightarrow> 0 < len \<and> len + p mod 8 \<le> 64 \<and>
     p div 8 + the (access_width (len + p mod 8)) \<le> length t"

lemma room_LE_len: "length t' = length t \<Longrightarrow> room_LE t' = room_LE t"
  by (intro ext) (simp add: room_LE_def field_ok_def)

lemma room_BE_len: "length t' = length t \<Longrightarrow> room_BE t' = room_BE t"
  by (intro ext) (simp add: room_BE_def)

lemma BE_field:
  assumes "room_BE t p len"
  obtains t' where "packBitsBE_at t v p len = Some (p + len, t')" "length t' = length t"
    "\<forall>j. bitBE t' j = (if p \<le> j \<and> j < p + len then bit v (j - p) else bitBE t j)"
proof -
  obtain n where n: "access_width (len + p mod 8) = Some n"
    using assms access_width_defined by (auto simp: room_BE_def)
  have "0 < len" "len + p mod 8 \<le> 64" "0 + p div 8 + n \<le> length t"
    using assms n by (simp_all add: room_BE_def)
  from packBitsBE_bits[OF this(1,2) n this(3), of v] that show ?thesis
    by (auto simp: packBitsBE_at_def)
qed

lemma BE_field_read:
  assumes "room_BE t p len"
  obtains r where "unpackBitsBE_at t p len = Some r" "\<forall>i. bit r i \<longleftrightarrow> i < len \<and> bitBE t (p + i)"
proof -
  obtain n where n: "access_width (len + p mod 8) = Some n"
    using assms access_width_defined by (auto simp: room_BE_def)
  have "0 < len" "len + p mod 8 \<le> 64" "0 + p div 8 + n \<le> length t"
    using assms n by (simp_all add: room_BE_def)
  from unpackBitsBE_bits[OF this(1,2) n this(3)] that show ?thesis
    by (auto simp: unpackBitsBE_at_def)
qed

interpretation msb_first: field_store packBitsLE_at unpackBitsLE_at room_LE
proof unfold_locales
  fix b :: buffer and p l :: nat and v :: uint64
  assume "room_LE b p l"
  then obtain b' where "packBitsLE_at b v p l = Some (p + l, b')" "length b' = length b"
    using packBitsLE_bits[of b 0 p l v] by (auto simp: room_LE_def packBitsLE_at_def)
  then show "\<exists>b'. packBitsLE_at b v p l = Some (p + l, b') \<and> room_LE b' = room_LE b"
    using room_LE_len by blast
next
  fix b b' :: buffer and p l e :: nat and v :: uint64
  assume "room_LE b p l" "packBitsLE_at b v p l = Some (e, b')"
  then show "unpackBitsLE_at b' p l = Some (take_bit l v)"
    using unpack_pack_same[of b 0 p l v e b']
    by (simp add: room_LE_def packBitsLE_at_def unpackBitsLE_at_def)
next
  fix b b' :: buffer and p l e q m :: nat and v :: uint64
  assume "room_LE b p l" "packBitsLE_at b v p l = Some (e, b')" "room_LE b q m"
    "q + m \<le> p \<or> p + l \<le> q"
  then show "unpackBitsLE_at b' q m = unpackBitsLE_at b q m"
    using unpack_pack_other[of b 0 p l v e b' 0 q m]
    by (simp add: room_LE_def packBitsLE_at_def unpackBitsLE_at_def)
qed

interpretation lsb_first: field_store packBitsBE_at unpackBitsBE_at room_BE
proof unfold_locales
  fix b :: buffer and p l :: nat and v :: uint64
  assume "room_BE b p l"
  then obtain b' where "packBitsBE_at b v p l = Some (p + l, b')" "length b' = length b"
    by (rule BE_field)
  then show "\<exists>b'. packBitsBE_at b v p l = Some (p + l, b') \<and> room_BE b' = room_BE b"
    using room_BE_len by blast
next
  fix b b' :: buffer and p l e :: nat and v :: uint64
  assume r: "room_BE b p l" and p: "packBitsBE_at b v p l = Some (e, b')"
  from r p have b': "length b' = length b"
    "\<forall>j. bitBE b' j = (if p \<le> j \<and> j < p + l then bit v (j - p) else bitBE b j)"
    by (auto elim!: BE_field[where v = v])
  with r have "room_BE b' p l" using room_BE_len by metis
  then obtain x where x: "unpackBitsBE_at b' p l = Some x" "\<forall>i. bit x i \<longleftrightarrow> i < l \<and> bitBE b' (p + i)"
    by (rule BE_field_read)
  have "x = take_bit l v" by (rule bit_word_eqI) (auto simp: x(2) b'(2) bit_take_bit_iff)
  with x(1) show "unpackBitsBE_at b' p l = Some (take_bit l v)" by simp
next
  fix b b' :: buffer and p l e q m :: nat and v :: uint64
  assume r: "room_BE b p l" and p: "packBitsBE_at b v p l = Some (e, b')" and rq: "room_BE b q m"
    and d: "q + m \<le> p \<or> p + l \<le> q"
  from r p have b': "length b' = length b"
    "\<forall>j. bitBE b' j = (if p \<le> j \<and> j < p + l then bit v (j - p) else bitBE b j)"
    by (auto elim!: BE_field[where v = v])
  with rq have "room_BE b' q m" using room_BE_len by metis
  then obtain x where x: "unpackBitsBE_at b' q m = Some x" "\<forall>i. bit x i \<longleftrightarrow> i < m \<and> bitBE b' (q + i)"
    by (rule BE_field_read)
  obtain y where y: "unpackBitsBE_at b q m = Some y" "\<forall>i. bit y i \<longleftrightarrow> i < m \<and> bitBE b (q + i)"
    by (rule BE_field_read[OF rq])
  have "x = y" using d by (intro bit_word_eqI) (auto simp: x(2) y(2) b'(2))
  with x(1) y(1) show "unpackBitsBE_at b' q m = unpackBitsBE_at b q m" by simp
qed

section \<open>Bit sets\<close>

lemma bit_one_shift: "v < 8 \<Longrightarrow> (w AND push_bit v 1 \<noteq> 0) \<longleftrightarrow> bit w v" for w :: uint8
proof
  assume "v < 8" "w AND push_bit v 1 \<noteq> 0"
  then obtain i where "bit (w AND push_bit v 1) i"
    using bit_eq_iff[of "w AND push_bit v 1" 0] by auto
  then show "bit w v" by (auto simp: bit_simps bit_1_iff)
next
  assume "v < 8" "bit w v"
  then have "bit (w AND push_bit v 1) v" by (simp add: bit_simps bit_1_iff)
  then show "w AND push_bit v 1 \<noteq> 0" by auto
qed

text \<open>The values a bit array of \<open>sz\<close> bytes holds.\<close>

definition bits_of :: "buffer \<Rightarrow> nat \<Rightarrow> nat set" where
  "bits_of arr sz = {v. v < 8 * sz \<and> bitBE arr v}"

lemma hasBit_iff:
  assumes "sz \<le> length arr"
  shows "\<exists>b. hasBit v arr sz = Some b \<and> (b \<noteq> 0 \<longleftrightarrow> v \<in> bits_of arr sz)"
  using assms bit_one_shift[of "v mod 8" "arr ! (v div 8)"]
  by (auto simp: hasBit_def bits_of_def bitBE_def)

lemma bit_set_reset:
  "n < 8 \<Longrightarrow> bit ((w :: uint8) OR push_bit v 1) n \<longleftrightarrow> n = v \<or> bit w n"
  "n < 8 \<Longrightarrow> bit (w AND NOT (push_bit v 1)) n \<longleftrightarrow> n \<noteq> v \<and> bit w n"
  by (auto simp: bit_simps bit_1_iff)

lemma bitBE_set_reset:
  assumes "v div 8 < length arr"
  shows "bitBE (arr[v div 8 := arr ! (v div 8) OR push_bit (v mod 8) 1]) u \<longleftrightarrow> u = v \<or> bitBE arr u"
    "bitBE (arr[v div 8 := arr ! (v div 8) AND NOT (push_bit (v mod 8) 1)]) u \<longleftrightarrow>
      u \<noteq> v \<and> bitBE arr u"
proof -
  have same: "u = v \<longleftrightarrow> u mod 8 = v mod 8" if "u div 8 = v div 8"
    using that by (metis div_mult_mod_eq)
  have "u mod 8 < 8" by simp
  note flip = bit_set_reset[OF this, of "arr ! (v div 8)" "v mod 8"]
  show "bitBE (arr[v div 8 := arr ! (v div 8) OR push_bit (v mod 8) 1]) u \<longleftrightarrow> u = v \<or> bitBE arr u"
  proof (cases "u div 8 = v div 8")
    case True
    with assms show ?thesis by (simp only: nth_list_update_eq bitBE_def same flip)
  next
    case False
    then have "u \<noteq> v" by blast
    with False show ?thesis unfolding bitBE_update by simp
  qed
  show "bitBE (arr[v div 8 := arr ! (v div 8) AND NOT (push_bit (v mod 8) 1)]) u \<longleftrightarrow>
      u \<noteq> v \<and> bitBE arr u"
  proof (cases "u div 8 = v div 8")
    case True
    with assms show ?thesis by (simp only: nth_list_update_eq bitBE_def same flip)
  next
    case False
    then have "u \<noteq> v" by blast
    with False show ?thesis unfolding bitBE_update by simp
  qed
qed

lemma bits_of_set:
  assumes "v < 8 * sz" "sz \<le> length arr"
  shows "bits_of (arr[v div 8 := arr ! (v div 8) OR push_bit (v mod 8) 1]) sz =
      insert v (bits_of arr sz)"
    "bits_of (arr[v div 8 := arr ! (v div 8) AND NOT (push_bit (v mod 8) 1)]) sz =
      bits_of arr sz - {v}"
proof -
  have "v div 8 < length arr" using assms by auto
  note * = bitBE_set_reset[OF this]
  show "bits_of (arr[v div 8 := arr ! (v div 8) OR push_bit (v mod 8) 1]) sz =
      insert v (bits_of arr sz)" unfolding bits_of_def * using assms(1) by blast
  show "bits_of (arr[v div 8 := arr ! (v div 8) AND NOT (push_bit (v mod 8) 1)]) sz =
      bits_of arr sz - {v}" unfolding bits_of_def * by blast
qed

text \<open>
  A bit array of \<open>sz\<close> bytes is a set of the numbers below \<open>8 * sz\<close>: \<open>hasBit\<close> is membership,
  \<open>addBit\<close> inserts a number in range and answers 1 exactly when it was not there, \<open>delBit\<close>
  removes it and answers 1 exactly when it was; out of range all three change nothing.
\<close>

theorem bit_array_is_a_set:
  assumes "sz \<le> length arr"
  shows "(\<exists>b. hasBit v arr sz = Some b \<and> (b \<noteq> 0 \<longleftrightarrow> v \<in> bits_of arr sz)) \<and>
    (\<exists>arr'. addBit v arr sz = Some (of_bool (v < 8 * sz \<and> v \<notin> bits_of arr sz), arr') \<and>
       length arr' = length arr \<and>
       bits_of arr' sz = (if v < 8 * sz then insert v (bits_of arr sz) else bits_of arr sz)) \<and>
    (\<exists>arr'. delBit v arr sz = Some (of_bool (v \<in> bits_of arr sz), arr') \<and>
       length arr' = length arr \<and> bits_of arr' sz = bits_of arr sz - {v})"
proof -
  obtain b where b: "hasBit v arr sz = Some b" "b \<noteq> 0 \<longleftrightarrow> v \<in> bits_of arr sz"
    using hasBit_iff[OF assms, of v] by blast
  have inr: "v \<in> bits_of arr sz \<Longrightarrow> v < 8 * sz" by (simp add: bits_of_def)
  show ?thesis
    using b inr bits_of_set[of v sz arr, OF _ assms]
    by (cases "v \<in> bits_of arr sz") (auto simp: addBit_def delBit_def insert_absorb)
qed

theorem bit_array_is_a_set_witness:
  "\<exists>arr'. addBit 11 [0, 0] 2 = Some (1, arr') \<and> bits_of arr' 2 = insert 11 (bits_of [0, 0] 2)"
proof -
  have "11 \<notin> bits_of [0, 0] 2" by (simp add: bits_of_def bitBE_def)
  with bit_array_is_a_set[of 2 "[0, 0]" 11] show ?thesis by auto
qed

end
