(* ===== verification/NameCodec.thy ===== *)
theory NameCodec
  imports BitPacking
begin

unbundle bit_operations_syntax

text \<open>
  The compressed names of \<open>src/common/utils.cpp\<close>: linkshell names and item signatures pack six
  bits per character through \<open>packBitsLE\<close>, soul plates seven bits per character with shifts.
  Strings are lists of bytes without their terminator; a character array is a list of bytes.
\<close>

section \<open>C strings\<close>

definition strncpy :: "nat \<Rightarrow> buffer \<Rightarrow> buffer" where
  "strncpy n src =
     (let s = takeWhile (\<lambda>b. b \<noteq> 0) (take n src) in s @ replicate (n - length s) 0)"

definition c_string :: "buffer \<Rightarrow> buffer" where
  "c_string arr = takeWhile (\<lambda>b. b \<noteq> 0) arr"

definition is_digit :: "uint8 \<Rightarrow> bool" where "is_digit c \<longleftrightarrow> 48 \<le> c \<and> c \<le> 57"
definition is_upper :: "uint8 \<Rightarrow> bool" where "is_upper c \<longleftrightarrow> 65 \<le> c \<and> c \<le> 90"
definition is_lower :: "uint8 \<Rightarrow> bool" where "is_lower c \<longleftrightarrow> 97 \<le> c \<and> c \<le> 122"
definition alnum :: "uint8 \<Rightarrow> bool" where "alnum c \<longleftrightarrow> is_digit c \<or> is_upper c \<or> is_lower c"

section \<open>Linkshell names\<close>

definition ls_code :: "uint8 \<Rightarrow> uint8" where
  "ls_code c = (if is_digit c then c - 48 + 53 else if is_upper c then c - 65 + 27
     else if is_lower c then c - 97 + 1 else 0)"

definition ls_char :: "uint8 \<Rightarrow> uint8" where
  "ls_char t = (if 1 \<le> t \<and> t \<le> 26 then 97 - 1 + t else if 27 \<le> t \<and> t \<le> 52 then 65 - 27 + t
     else if 53 \<le> t \<and> t \<le> 62 then 48 - 53 + t else t)"

definition ls_leftover :: "nat \<Rightarrow> nat" where
  "ls_leftover chars = (let l = 8 - chars * 6 mod 8 in if l = 8 \<or> l = 2 then 6 else l)"

definition linkshell_array :: "buffer \<Rightarrow> buffer option" where
  "linkshell_array signature =
     (let cs = take 20 signature in
      case put_fields packBitsLE_at 6 (map (\<lambda>c. ucast (ls_code c)) cs) 0 (replicate 20 0) of
        None \<Rightarrow> None
      | Some b \<Rightarrow> map_option snd (packBitsLE_at b 0xFF (6 * length cs) (ls_leftover (length cs))))"

definition EncodeStringLinkshell :: "buffer \<Rightarrow> buffer option" where
  "EncodeStringLinkshell signature = map_option (strncpy 20) (linkshell_array signature)"

fun linkshell_loop :: "nat \<Rightarrow> nat \<Rightarrow> buffer \<Rightarrow> buffer \<Rightarrow> buffer option" where
  "linkshell_loop 0 i s d = Some d"
| "linkshell_loop (Suc n) i s d =
     (case unpackBitsLE_at (s @ [0]) (i * 6) 6 of
        None \<Rightarrow> None
      | Some r \<Rightarrow>
          (let t = ls_char (ucast r) in
           if t = 0 then Some (d[(if i = 0 then i else i - 1) := 0])
           else if t = 63 then Some (d[i := 0])
           else linkshell_loop n (Suc i) s (d[i := t])))"

definition DecodeStringLinkshell :: "buffer \<Rightarrow> buffer option" where
  "DecodeStringLinkshell s =
     map_option (strncpy 20) (linkshell_loop (min 20 (length s * 8 div 6)) 0 s (replicate 21 0))"

section \<open>Signatures\<close>

definition sig_code :: "uint8 \<Rightarrow> uint8" where
  "sig_code c = (if is_digit c then c - 48 + 1 else if is_upper c then c - 65 + 11
     else if is_lower c then c - 97 + 37 else 0)"

definition sig_char :: "uint8 \<Rightarrow> uint8" where
  "sig_char t = (if 1 \<le> t \<and> t \<le> 10 then 48 - 1 + t else if 11 \<le> t \<and> t \<le> 36 then 65 - 11 + t
     else if 37 \<le> t \<and> t \<le> 62 then 97 - 37 + t else t)"

definition signature_array :: "buffer \<Rightarrow> buffer option" where
  "signature_array signature =
     put_fields packBitsLE_at 6 (map (\<lambda>c. ucast (sig_code c)) (take 15 signature)) 0 (replicate 16 0)"

definition EncodeStringSignature :: "buffer \<Rightarrow> buffer option" where
  "EncodeStringSignature signature = map_option (strncpy 16) (signature_array signature)"

fun signature_loop :: "nat \<Rightarrow> nat \<Rightarrow> buffer \<Rightarrow> buffer \<Rightarrow> buffer option" where
  "signature_loop 0 i s d = Some d"
| "signature_loop (Suc n) i s d =
     (case unpackBitsLE_at (s @ [0]) (i * 6) 6 of
        None \<Rightarrow> None
      | Some r \<Rightarrow> signature_loop n (Suc i) s (d[i := sig_char (ucast r)]))"

definition DecodeStringSignature :: "buffer \<Rightarrow> buffer option" where
  "DecodeStringSignature s = map_option (strncpy 16) (signature_loop 16 0 s (replicate 17 0))"

section \<open>Soul plate names\<close>

text \<open>The name cut to 15 characters and its underscores removed.\<close>

definition soul_name :: "buffer \<Rightarrow> buffer" where
  "soul_name name = filter (\<lambda>c. c \<noteq> 95) (take 15 name)"

function shift_left_7 :: "nat \<Rightarrow> nat \<Rightarrow> uint8 \<Rightarrow> uint8" where
  "shift_left_7 j shift t =
     (if j < shift
      then (let t' = push_bit 1 t
            in shift_left_7 (Suc j) shift
                 (if Suc j \<noteq> shift \<and> t' AND 128 \<noteq> 0 then t' XOR 128 else t'))
      else t)"
  by pat_completeness auto

termination shift_left_7
  by (relation "measure (\<lambda>(j, shift, t). shift - j)") auto

declare shift_left_7.simps [simp del]

primrec soul_pack_loop :: "nat \<Rightarrow> buffer \<Rightarrow> nat \<Rightarrow> nat \<Rightarrow> nat \<Rightarrow> buffer \<Rightarrow> buffer" where
  "soul_pack_loop 0 name i shift loops out = out"
| "soul_pack_loop (Suc fuel) name i shift loops out =
     (if i \<le> 15
      then (let total = length name;
                current = (if i < total then name ! i else 0);
                nxt = (if i + 1 < total then name ! (i + 1) else 0);
                out' = out[i - loops :=
                  shift_left_7 0 shift current OR drop_bit (7 - shift) nxt]
            in if shift = 7 then soul_pack_loop fuel name (i + 2) 1 (Suc loops) out'
               else soul_pack_loop fuel name (i + 1) (Suc shift) loops out')
      else out)"

definition PackSoultrapperName :: "buffer \<Rightarrow> buffer \<Rightarrow> buffer" where
  "PackSoultrapperName name out = soul_pack_loop 16 (soul_name name) 0 1 0 out"

text \<open>
  Reading one character: up to seven bits, the most significant first; \<^term>\<open>None\<close> when the
  fourteen bytes run out.
\<close>

primrec soul_read :: "nat \<Rightarrow> buffer \<Rightarrow> nat \<Rightarrow> uint8 \<Rightarrow> nat \<Rightarrow> uint8 \<Rightarrow>
  (uint8 \<times> nat \<times> uint8 \<times> nat) option" where
  "soul_read 0 inp bitsLeft byte pos c = Some (c, bitsLeft, byte, pos)"
| "soul_read (Suc n) inp bitsLeft byte pos c =
     (if bitsLeft = 0 \<and> 14 \<le> pos then None
      else (let byte1 = (if bitsLeft = 0 then inp ! pos else byte);
                left1 = (if bitsLeft = 0 then 8 else bitsLeft);
                pos1 = (if bitsLeft = 0 then Suc pos else pos);
                c1 = (if byte1 AND 0x80 \<noteq> 0 then c OR push_bit n 1 else c)
            in soul_read n inp (left1 - 1) (push_bit 1 byte1) pos1 c1))"

primrec soul_unpack_loop :: "nat \<Rightarrow> buffer \<Rightarrow> nat \<Rightarrow> uint8 \<Rightarrow> nat \<Rightarrow> buffer \<Rightarrow> buffer option" where
  "soul_unpack_loop 0 inp bitsLeft byte pos out = None"
| "soul_unpack_loop (Suc fuel) inp bitsLeft byte pos out =
     (case soul_read 7 inp bitsLeft byte pos 0 of
        None \<Rightarrow> Some out
      | Some (c, bitsLeft', byte', pos') \<Rightarrow>
          (if c = 0 \<or> c < 48 \<or> 122 < c then Some out
           else soul_unpack_loop fuel inp bitsLeft' byte' pos' (out @ [c])))"

definition UnpackSoultrapperName :: "buffer \<Rightarrow> buffer option" where
  "UnpackSoultrapperName inp =
     (if length inp < 14 then None else soul_unpack_loop 17 inp 0 0 0 [])"

section \<open>The character codes\<close>

lemma le_8_cases:
  fixes c :: uint8
  shows "c \<le> d \<longleftrightarrow> unat c \<le> unat d"
  by (rule word_le_nat_alt)

definition alnum_codes :: "nat list" where
  "alnum_codes = [48..<58] @ [65..<91] @ [97..<123]"

lemma alnum_cases:
  assumes "alnum c"
  obtains k where "c = word_of_nat k" "k \<in> set alnum_codes"
proof -
  have "(48 \<le> unat c \<and> unat c \<le> 57) \<or> (65 \<le> unat c \<and> unat c \<le> 90) \<or>
      (97 \<le> unat c \<and> unat c \<le> 122)"
    using assms by (simp add: alnum_def is_digit_def is_upper_def is_lower_def le_8_cases)
  then have "unat c \<in> set alnum_codes" unfolding alnum_codes_def set_append set_upt Un_iff atLeastLessThan_iff
    by linarith
  then show ?thesis by (intro that[of "unat c"]) simp
qed

lemma all_codes:
  "\<forall>k \<in> set alnum_codes.
     (let c = word_of_nat k :: uint8; v = ls_code c; g = sig_code c in
      ls_char v = c \<and> sig_char g = c \<and> v < 63 \<and> g < 63 \<and> c \<noteq> 63 \<and> c \<noteq> 0)"
  by code_simp

lemma six_bits:
  fixes w :: uint8
  assumes "w < 63"
  shows "ucast (take_bit 6 (ucast w :: uint64)) = w"
proof -
  have "unat w < 2 ^ 6" using assms by (simp add: word_less_nat_alt)
  then have "unat (ucast (take_bit 6 (ucast w :: uint64)) :: uint8) = unat w"
    by (simp add: unsigned_ucast_eq unsigned_take_bit_eq take_bit_nat_eq_self)
  then show ?thesis by (simp only: word_unat_eq_iff)
qed

lemma codes:
  assumes "alnum c"
  shows "ls_char (ls_code c) = c" "sig_char (sig_code c) = c" "ls_code c < 63" "sig_code c < 63"
    "c \<noteq> 63" "c \<noteq> 0"
    "ucast (take_bit 6 (ucast (ls_code c) :: uint64)) = ls_code c"
    "ucast (take_bit 6 (ucast (sig_code c) :: uint64)) = sig_code c"
proof -
  obtain k where k: "c = word_of_nat k" "k \<in> set alnum_codes" by (rule alnum_cases[OF assms])
  from bspec[OF all_codes k(2), folded k(1), unfolded Let_def]
  show "ls_char (ls_code c) = c" "sig_char (sig_code c) = c" "ls_code c < 63" "sig_code c < 63"
    "c \<noteq> 63" "c \<noteq> 0" by blast+
  then show "ucast (take_bit 6 (ucast (ls_code c) :: uint64)) = ls_code c"
    "ucast (take_bit 6 (ucast (sig_code c) :: uint64)) = sig_code c" by (simp_all add: six_bits)
qed

section \<open>Fields of the character arrays\<close>

lemma field_ok_6:
  assumes "8 * length t \<ge> 6 * k + 6"
  shows "room_LE t (6 * k) 6"
proof -
  have m: "6 * k mod 8 = 0 \<or> 6 * k mod 8 = 2 \<or> 6 * k mod 8 = 4 \<or> 6 * k mod 8 = 6" by presburger
  have "6 * k = 8 * (6 * k div 8) + 6 * k mod 8" by presburger
  with m assms show ?thesis
    by (auto simp: room_LE_def field_ok_def window_safe_def access_width_def)
qed

text \<open>A field depends only on the bytes its access reads.\<close>

lemma unpackBitsLE_cong:
  assumes "room_LE t p len" "room_LE t' p len"
    and "\<And>k. k < the (access_width (p mod 8 + len)) \<Longrightarrow> t ! (p div 8 + k) = t' ! (p div 8 + k)"
  shows "unpackBitsLE_at t p len = unpackBitsLE_at t' p len"
proof -
  obtain n where n: "access_width (p mod 8 + len) = Some n" "p div 8 + n \<le> length t" "0 < n"
    using assms(1) access_width_cases by (auto simp: room_LE_def field_ok_def)
  have l: "p div 8 + n \<le> length t'" using assms(2) n by (auto simp: room_LE_def field_ok_def)
  have "reversed_window t (p div 8) n = reversed_window t' (p div 8) n"
    unfolding reversed_window_def
  proof (rule map_cong[OF refl])
    fix cur assume "cur \<in> set [0..<n]"
    then show "t ! (p div 8 + (n - 1) - cur) = t' ! (p div 8 + (n - 1) - cur)"
      using assms(3)[of "n - 1 - cur"] n by (simp add: add_diff_assoc)
  qed
  with n l show ?thesis
    by (cases "n = 1") (auto simp: unpackBitsLE_at_def unpackBitsLE_def Let_def)
qed

lemma room_byte: "k < length t \<Longrightarrow> room_LE t (8 * k) 8"
  by (simp add: room_LE_def field_ok_def window_safe_def access_width_def)

lemma unpack_byte:
  assumes "k < length t"
  shows "unpackBitsLE_at t (8 * k) 8 = Some (ucast (t ! k))"
proof -
  obtain r where r: "unpackBitsLE_at t (8 * k) 8 = Some r"
    "\<forall>i. bit r i \<longleftrightarrow> i < 8 \<and> bitLE t (8 * k + 8 - 1 - i)"
    using unpackBitsLE_bits[of t 0 "8 * k" 8] room_byte[OF assms]
    by (auto simp: room_LE_def unpackBitsLE_at_def)
  have "bitLE t (8 * k + 8 - 1 - i) = bit (t ! k) i" if "i < 8" for i
  proof -
    have "8 * k + 8 - 1 - i = 8 * k + (7 - i)" using that by simp
    moreover have "(8 * k + (7 - i)) div 8 = k" "(8 * k + (7 - i)) mod 8 = 7 - i"
      using that by (simp_all only: div_mult_self4 mod_mult_self4) auto
    ultimately show ?thesis using that by (simp add: bitLE_def)
  qed
  moreover have "bit (t ! k) i \<Longrightarrow> i < 8" for i
    using bit_imp_le_length[of "t ! k" i] by simp
  ultimately have "r = ucast (t ! k)"
    by (intro bit_word_eqI) (auto simp: r(2) bit_ucast_iff)
  with r(1) show ?thesis by simp
qed

section \<open>Writing and reading back a name\<close>

lemma ls_leftover_range: "4 \<le> ls_leftover n \<and> ls_leftover n \<le> 6"
proof -
  have "n * 6 mod 8 = 0 \<or> n * 6 mod 8 = 2 \<or> n * 6 mod 8 = 4 \<or> n * 6 mod 8 = 6" by presburger
  then show ?thesis by (auto simp: ls_leftover_def Let_def)
qed

lemma room_leftover:
  assumes "n \<le> 20"
  shows "room_LE (replicate 20 0) (6 * n) (ls_leftover n)"
proof -
  have "n \<in> set [0..<21]" using assms by auto
  moreover have "\<forall>n \<in> set [0..<21]. 6 * n mod 8 + ls_leftover n \<le> 16 \<and>
      (case access_width (6 * n mod 8 + ls_leftover n) of None \<Rightarrow> False
       | Some w \<Rightarrow> 6 * n div 8 + w \<le> 20)" by code_simp
  ultimately show ?thesis
    using ls_leftover_range[of n]
    by (fastforce simp: room_LE_def field_ok_def window_safe_def split: option.splits)
qed

text \<open>The bytes a name of \<open>n\<close> characters and its terminator fill.\<close>

definition used_bytes :: "nat \<Rightarrow> nat" where
  "used_bytes n = (6 * n + ls_leftover n + 7) div 8"

lemma pack_length: "packBitsLE_at b v p l = Some (e, b') \<Longrightarrow> length b' = length b"
  by (auto simp: packBitsLE_at_def packBitsLE_def Let_def split: option.splits if_splits)

lemma put_fields_length:
  "put_fields packBitsLE_at w vs p b = Some b' \<Longrightarrow> length b' = length b"
  by (induction vs arbitrary: p b) (auto split: option.splits dest: pack_length)

lemma linkshell_array_fields:
  assumes len: "length name \<le> 20"
  shows "\<exists>raw. linkshell_array name = Some raw \<and> length raw = 20 \<and>
    (\<forall>k < length name. unpackBitsLE_at raw (6 * k) 6 =
       Some (take_bit 6 (ucast (ls_code (name ! k))))) \<and>
    unpackBitsLE_at raw (6 * length name) (ls_leftover (length name)) =
      Some (take_bit (ls_leftover (length name)) 0xFF) \<and>
    (\<forall>q m. room_LE raw q m \<and> 6 * length name + ls_leftover (length name) \<le> q \<longrightarrow>
       unpackBitsLE_at raw q m = unpackBitsLE_at (replicate 20 0) q m)"
proof -
  let ?z = "replicate 20 0 :: buffer" and ?vs = "map (\<lambda>c. ucast (ls_code c)) name :: uint64 list"
  let ?n = "length name"
  have "\<forall>k < length ?vs. room_LE ?z (0 + 6 * k) 6"
    using len by (auto intro!: field_ok_6)
  from msb_first.put_fields_get[OF this] obtain b where
    b: "put_fields packBitsLE_at 6 ?vs 0 ?z = Some b" "room_LE b = room_LE ?z"
    "\<forall>k < length ?vs. unpackBitsLE_at b (0 + 6 * k) 6 = Some (take_bit 6 (?vs ! k))"
    "\<forall>q m. room_LE ?z q m \<and> (q + m \<le> 0 \<or> 0 + 6 * length ?vs \<le> q) \<longrightarrow>
       unpackBitsLE_at b q m = unpackBitsLE_at ?z q m" by blast
  have r: "room_LE b (6 * ?n) (ls_leftover ?n)" using room_leftover[OF len] b(2) by simp
  obtain raw where raw: "packBitsLE_at b 0xFF (6 * ?n) (ls_leftover ?n) = Some (6 * ?n + ls_leftover ?n, raw)"
    "room_LE raw = room_LE b" using msb_first.put_room[OF r] by blast
  have chars: "unpackBitsLE_at raw (6 * k) 6 = Some (take_bit 6 (ucast (ls_code (name ! k))))"
    if "k < ?n" for k
  proof -
    have "room_LE b (6 * k) 6" "6 * k + 6 \<le> 6 * ?n"
      using field_ok_6[of k ?z] that len b(2) by auto
    then have "unpackBitsLE_at raw (6 * k) 6 = unpackBitsLE_at b (6 * k) 6"
      using msb_first.put_other[OF r raw(1)] by blast
    then show ?thesis using b(3) that by simp
  qed
  have after: "unpackBitsLE_at raw q m = unpackBitsLE_at ?z q m"
    if "room_LE raw q m" "6 * ?n + ls_leftover ?n \<le> q" for q m
  proof -
    have "unpackBitsLE_at raw q m = unpackBitsLE_at b q m"
      using msb_first.put_other[OF r raw(1)] that raw(2) by metis
    also have "\<dots> = unpackBitsLE_at ?z q m" using b(2,4) raw(2) that by simp
    finally show ?thesis .
  qed
  have "length raw = 20"
  proof -
    have l: "length b = 20 \<and> length raw = 20"
      using put_fields_length[OF b(1)] pack_length[OF raw(1)] by simp
    then show ?thesis by blast
  qed
  moreover have "linkshell_array name = Some raw"
    using b(1) raw(1) len by (simp add: linkshell_array_def Let_def)
  ultimately show ?thesis using chars after msb_first.put_get[OF r raw(1)] by blast
qed

lemma ucast_zero_8:
  assumes "ucast (w :: uint8) = (0 :: uint64)"
  shows "w = 0"
proof -
  have "unat w < 2 ^ LENGTH(8)" by (rule unsigned_less)
  then have "unat (ucast w :: uint64) = unat w"
    by (simp add: unsigned_ucast_eq take_bit_nat_eq_self)
  with assms show ?thesis by (simp add: word_unat_eq_iff)
qed

lemma linkshell_array_tail:
  assumes len: "length name \<le> 20" and raw: "linkshell_array name = Some raw"
  shows "raw = take (used_bytes (length name)) raw @ replicate (20 - used_bytes (length name)) 0"
proof -
  let ?u = "used_bytes (length name)"
  from linkshell_array_fields[OF len] raw have l: "length raw = 20"
    and after: "\<forall>q m. room_LE raw q m \<and> 6 * length name + ls_leftover (length name) \<le> q \<longrightarrow>
       unpackBitsLE_at raw q m = unpackBitsLE_at (replicate 20 0) q m" by auto
  have "raw ! k = 0" if "?u \<le> k" "k < 20" for k
  proof -
    have "6 * length name + ls_leftover (length name) \<le> 8 * k"
      using that(1) by (simp add: used_bytes_def)
    then have "unpackBitsLE_at raw (8 * k) 8 = unpackBitsLE_at (replicate 20 0) (8 * k) 8"
      using after room_byte[of k raw] that(2) l by simp
    then have "ucast (raw ! k) = (0 :: uint64)"
      using unpack_byte[of k raw] unpack_byte[of k "replicate 20 0"] that(2) l by simp
    then show "raw ! k = 0" by (rule ucast_zero_8)
  qed
  then show ?thesis
    using l by (intro nth_equalityI) (auto simp: nth_append min_def)
qed

lemma same_prefix_field:
  assumes "\<And>i. 8 * i < 6 * k + 6 \<Longrightarrow> i < length t \<and> i < length t' \<and> t ! i = t' ! i"
  shows "unpackBitsLE_at t (6 * k) 6 = unpackBitsLE_at t' (6 * k) 6"
proof (rule unpackBitsLE_cong)
  have m: "6 * k mod 8 = 0 \<or> 6 * k mod 8 = 2 \<or> 6 * k mod 8 = 4 \<or> 6 * k mod 8 = 6" by presburger
  have k: "6 * k = 8 * (6 * k div 8) + 6 * k mod 8" by presburger
  have "8 * ((6 * k + 5) div 8) < 6 * k + 6" by presburger
  from assms[OF this] have "(6 * k + 5) div 8 < length t" "(6 * k + 5) div 8 < length t'" by blast+
  then have "6 * k + 6 \<le> 8 * length t" "6 * k + 6 \<le> 8 * length t'" by linarith+
  then show "room_LE t (6 * k) 6" "room_LE t' (6 * k) 6" by (simp_all add: field_ok_6)
  fix j assume "j < the (access_width (6 * k mod 8 + 6))"
  then have "8 * (6 * k div 8 + j) < 6 * k + 6" using m k by (auto simp: access_width_def)
  then show "t ! (6 * k div 8 + j) = t' ! (6 * k div 8 + j)" using assms by blast
qed

text \<open>Any string that continues an encoded name with zero bytes has the same fields.\<close>

lemma prefix_field:
  assumes raw: "length raw = 20" "raw = take u raw @ replicate (20 - u) 0" and u: "u + z \<le> 20"
    and s: "s = take u raw @ replicate z 0" and k: "6 * k + 6 \<le> 8 * length s"
  shows "unpackBitsLE_at (s @ [0]) (k * 6) 6 = unpackBitsLE_at raw (6 * k) 6"
proof -
  have ls: "length s = u + z" using s u raw(1) by simp
  have r: "room_LE (s @ [0]) (6 * k) 6" "room_LE raw (6 * k) 6"
    using k u ls raw(1) by (auto intro: field_ok_6)
  have "(s @ [0]) ! i = raw ! i" if i: "i < u + z" for i
  proof (cases "i < u")
    case True
    then show ?thesis using u raw(1) by (simp add: s nth_append)
  next
    case False
    have "raw ! i = (take u raw @ replicate (20 - u) 0) ! i" by (subst raw(2)) simp
    with False i u raw(1) show ?thesis by (simp add: s nth_append)
  qed
  moreover have "6 * k div 8 + j < u + z"
    if "j < the (access_width (6 * k mod 8 + 6))" for j
  proof -
    have m: "6 * k mod 8 = 0 \<or> 6 * k mod 8 = 2 \<or> 6 * k mod 8 = 4 \<or> 6 * k mod 8 = 6" by presburger
    have "6 * k = 8 * (6 * k div 8) + 6 * k mod 8" by presburger
    with m that k ls show ?thesis by (auto simp: access_width_def)
  qed
  ultimately show ?thesis
    using unpackBitsLE_cong[OF r] by (simp add: mult.commute)
qed

lemma linkshell_loop_chars:
  assumes "i + n \<le> length name" "length name \<le> 20" "\<forall>c \<in> set name. alnum c"
    and "\<forall>k < length name. unpackBitsLE_at (s @ [0]) (k * 6) 6 =
       Some (take_bit 6 (ucast (ls_code (name ! k))))"
  shows "linkshell_loop (n + m) i s (take i name @ replicate (21 - i) 0) =
    linkshell_loop m (i + n) s (take (i + n) name @ replicate (21 - (i + n)) 0)"
  using assms(1)
proof (induction n arbitrary: i)
  case 0
  then show ?case by simp
next
  case (Suc n)
  have i: "i < length name" using Suc.prems by simp
  then have c: "alnum (name ! i)" using assms(3) by simp
  have upd: "(take i name @ replicate (21 - i) 0)[i := name ! i] =
      take (Suc i) name @ replicate (21 - Suc i) 0"
  proof -
    have "(21::nat) - i = Suc (21 - Suc i)" using i assms(2) by simp
    then show ?thesis
      using i by (simp add: list_update_append take_Suc_conv_app_nth)
  qed
  have "linkshell_loop (Suc (n + m)) i s (take i name @ replicate (21 - i) 0) =
      linkshell_loop (n + m) (Suc i) s (take (Suc i) name @ replicate (21 - Suc i) 0)"
    using assms(4) i codes[OF c] upd by simp
  with Suc.IH[of "Suc i"] Suc.prems show ?case by simp
qed

text \<open>What the decoder meets after the last character.\<close>

lemma used_bytes_cases:
  "n \<le> 20 \<Longrightarrow> used_bytes n \<le> 20 \<and>
    (n mod 4 = 2 \<and> ls_leftover n = 4 \<and> 8 * used_bytes n div 6 = n \<or>
     n mod 4 \<noteq> 2 \<and> ls_leftover n = 6 \<and> 8 * used_bytes n div 6 = Suc n)"
proof -
  assume "n \<le> 20"
  then have "n \<in> set [0..<21]" by auto
  moreover have "\<forall>n \<in> set [0..<21]. used_bytes n \<le> 20 \<and>
    (n mod 4 = 2 \<and> ls_leftover n = 4 \<and> 8 * used_bytes n div 6 = n \<or>
     n mod 4 \<noteq> 2 \<and> ls_leftover n = 6 \<and> 8 * used_bytes n div 6 = Suc n)" by code_simp
  ultimately show ?thesis by blast
qed

lemma strncpy_padded:
  assumes "0 \<notin> set xs" "length xs \<le> n" "n \<le> m"
  shows "strncpy n (xs @ replicate (m - length xs) 0) = xs @ replicate (n - length xs) 0"
proof -
  have "take n (xs @ replicate (m - length xs) 0) = xs @ replicate (n - length xs) 0"
    using assms(2,3) by simp
  moreover have "takeWhile (\<lambda>b. b \<noteq> 0) (xs @ replicate k 0) = xs" for k
    using assms(1) by (auto simp: takeWhile_append takeWhile_replicate)
  ultimately show ?thesis by (simp add: strncpy_def)
qed

text \<open>The field that straddles a four-bit terminator.\<close>

lemma split_field:
  assumes ok: "room_LE t p (a + b)" "room_LE t p a" "room_LE t (p + a) b"
    and x: "unpackBitsLE_at t p a = Some x" and y: "unpackBitsLE_at t (p + a) b = Some y"
  shows "unpackBitsLE_at t p (a + b) = Some (push_bit b x OR y)"
proof -
  obtain r where r: "unpackBitsLE_at t p (a + b) = Some r"
    "\<forall>i. bit r i \<longleftrightarrow> i < a + b \<and> bitLE t (8 * 0 + p + (a + b) - 1 - i)"
    using unpackBitsLE_bits[of t 0 p "a + b"] ok(1) by (auto simp: room_LE_def unpackBitsLE_at_def)
  have x': "\<forall>i. bit x i \<longleftrightarrow> i < a \<and> bitLE t (8 * 0 + p + a - 1 - i)"
    using unpackBitsLE_bits[of t 0 p a] ok(2) x by (auto simp: room_LE_def unpackBitsLE_at_def)
  have y': "\<forall>i. bit y i \<longleftrightarrow> i < b \<and> bitLE t (8 * 0 + (p + a) + b - 1 - i)"
    using unpackBitsLE_bits[of t 0 "p + a" b] ok(3) y by (auto simp: room_LE_def unpackBitsLE_at_def)
  have "bit r i = bit (push_bit b x OR y) i" if "i < 64" for i
  proof (cases "i < b")
    case True
    then show ?thesis using r(2) y' by (simp add: bit_simps add.assoc)
  next
    case False
    then have "a + b - 1 - i = a - 1 - (i - b)" "i < a + b \<longleftrightarrow> i - b < a" by auto
    then have "p + (a + b) - 1 - i = p + a - 1 - (i - b)" using False by auto
    then show ?thesis
      using False that r(2) y' x' \<open>i < a + b \<longleftrightarrow> i - b < a\<close> by (auto simp: bit_simps)
  qed
  then have "r = push_bit b x OR y" by (intro bit_word_eqI) simp
  with r(1) show ?thesis by simp
qed

lemma narrow_rooms:
  assumes "n \<le> 20"
  shows "room_LE (replicate 20 0) (6 * n + 4) 2"
proof -
  have "(6 * n + 4) mod 8 \<le> 6" by presburger
  moreover have "(6 * n + 4) div 8 < 20" using assms by presburger
  ultimately show ?thesis
    by (simp add: room_LE_def field_ok_def window_safe_def access_width_def)
qed

lemma unpack_zero_bytes:
  assumes "room_LE (replicate N 0) p len"
  shows "unpackBitsLE_at (replicate N 0) p len = Some 0"
proof -
  obtain r where r: "unpackBitsLE_at (replicate N 0) p len = Some r"
    "\<forall>i. bit r i \<longleftrightarrow> i < len \<and> bitLE (replicate N 0) (8 * 0 + p + len - 1 - i)"
    using unpackBitsLE_bits[of "replicate N 0" 0 p len] assms
    by (auto simp: room_LE_def unpackBitsLE_at_def)
  obtain n where n: "access_width (p mod 8 + len) = Some n" "p div 8 + n \<le> N"
    "p mod 8 + len \<le> 8 * n" "0 < len"
    using assms access_width_cases by (auto simp: room_LE_def field_ok_def)
  have "(p + len - 1 - i) div 8 < N" for i
  proof -
    have "p + len \<le> 8 * N" using n(2,3) div_mult_mod_eq[of p 8] by linarith
    then have "p + len - 1 - i < N * 8" using n(4) by simp
    then show ?thesis by (simp add: less_mult_imp_div_less)
  qed
  then have "r = 0" by (intro bit_word_eqI) (simp add: r(2) bitLE_def)
  with r(1) show ?thesis by simp
qed

lemma linkshell_loop_end:
  assumes n: "n = length name" "n \<le> 20"
    and trm: "unpackBitsLE_at raw (6 * n) (ls_leftover n) = Some (take_bit (ls_leftover n) 0xFF)"
    and after: "\<forall>q m. room_LE raw q m \<and> 6 * n + ls_leftover n \<le> q \<longrightarrow>
       unpackBitsLE_at raw q m = unpackBitsLE_at (replicate 20 0) q m"
    and l: "length raw = 20"
    and field: "\<And>k. 6 * k + 6 \<le> 8 * length s \<Longrightarrow>
       unpackBitsLE_at (s @ [0]) (k * 6) 6 = unpackBitsLE_at raw (6 * k) 6"
    and ls: "length s = used_bytes n + z" "used_bytes n + z \<le> 20"
    and m: "m = min 20 (length s * 8 div 6) - n"
  shows "linkshell_loop m n s (name @ replicate (21 - n) 0) = Some (name @ replicate (21 - n) 0)"
proof (cases m)
  case 0
  then show ?thesis by simp
next
  case (Suc m')
  have zero: "unpackBitsLE_at raw q b = Some 0"
    if "room_LE raw q b" "6 * n + ls_leftover n \<le> q" for q b
    using after that unpack_zero_bytes[of 20 q b] room_LE_len[of "replicate 20 0" raw] l by simp
  have room: "6 * n + 6 \<le> 8 * length s" using Suc m by auto
  have keep: "(name @ replicate (21 - n) 0)[n := 0] = name @ replicate (21 - n) 0"
    using n by (simp add: list_update_append list_update_same_conv)
  show ?thesis
  proof (cases "ls_leftover n = 6")
    case True
    have "take_bit 6 (0xFF :: uint64) = 63" by code_simp
    then have "unpackBitsLE_at (s @ [0]) (n * 6) 6 = Some 63" using field[OF room] trm True by simp
    moreover have "ls_char (ucast (63 :: uint64)) = 63" by code_simp
    ultimately show ?thesis using Suc keep by simp
  next
    case False
    have four: "ls_leftover n = 4" "8 * used_bytes n = 6 * n + 4"
      using used_bytes_cases[OF n(2)] False by (auto simp: used_bytes_def)
    have "n mod 4 = 2" "8 * used_bytes n div 6 = n"
      using used_bytes_cases[OF n(2)] four by auto
    then have n18: "n \<le> 18" using n(2) by presburger
    have "z \<noteq> 0" using Suc m ls \<open>8 * used_bytes n div 6 = n\<close> by (auto simp: mult.commute)
    then have room': "6 * Suc n + 6 \<le> 8 * length s" using ls four by simp
    then have "Suc (Suc n) \<le> length s * 8 div 6"
      by (simp add: less_eq_div_iff_mult_less_eq)
    then have "2 \<le> m" using m n18 by simp
    then obtain m'' where m'': "m' = Suc m''" using Suc by (cases m') auto
    have x: "unpackBitsLE_at raw (6 * n) 4 = Some 15"
    proof -
      have "take_bit 4 (0xFF :: uint64) = 15" by code_simp
      then show ?thesis using trm four by simp
    qed
    have r6: "room_LE raw (6 * n) (4 + 2)" using field_ok_6[of n raw] room ls l by simp
    have r4: "room_LE raw (6 * n) 4" "room_LE raw (6 * n + 4) 2"
      using room_leftover[OF n(2)] four room_LE_len[of "replicate 20 0" raw] l narrow_rooms[OF n(2)] by simp_all
    have "unpackBitsLE_at (s @ [0]) (n * 6) 6 = Some (push_bit 2 15 OR 0)"
      using field[OF room] split_field[OF r6 r4 x zero[OF r4(2)]] four by simp
    moreover have "ls_char (ucast (push_bit 2 15 OR 0 :: uint64)) = 55" by code_simp
    moreover have "unpackBitsLE_at (s @ [0]) (Suc n * 6) 6 = Some 0"
      using field[OF room'] zero[of "6 * Suc n" 6] field_ok_6[of "Suc n" raw] room' ls l four by simp
    moreover have "ls_char (ucast (0 :: uint64)) = 0" by code_simp
    ultimately show ?thesis using Suc m'' keep by (simp add: list_update_overwrite)
  qed
qed

text \<open>
  A linkshell name of up to 20 letters and digits whose encoding contains no zero byte
  decodes to itself, both from the NUL-terminated string and from any zero-padded prefix of the
  20 byte array, such as the 15 bytes a linkshell item stores.
\<close>

theorem linkshell_roundtrip:
  assumes name: "\<forall>c \<in> set name. alnum c" "length name \<le> 20"
    and raw: "linkshell_array name = Some raw"
    and nonzero: "0 \<notin> set (take (used_bytes (length name)) raw)"
    and s: "s = take (used_bytes (length name)) raw @ replicate z 0" "used_bytes (length name) + z \<le> 20"
  shows "EncodeStringLinkshell name = Some raw \<and>
    c_string raw = take (used_bytes (length name)) raw \<and>
    DecodeStringLinkshell s = Some (name @ replicate (20 - length name) 0)"
proof -
  let ?n = "length name" and ?u = "used_bytes (length name)"
  from linkshell_array_fields[OF name(2)] raw have l: "length raw = 20"
    and chars: "\<forall>k < ?n. unpackBitsLE_at raw (6 * k) 6 = Some (take_bit 6 (ucast (ls_code (name ! k))))"
    and trm: "unpackBitsLE_at raw (6 * ?n) (ls_leftover ?n) = Some (take_bit (ls_leftover ?n) 0xFF)"
    and after: "\<forall>q m. room_LE raw q m \<and> 6 * ?n + ls_leftover ?n \<le> q \<longrightarrow>
       unpackBitsLE_at raw q m = unpackBitsLE_at (replicate 20 0) q m" by auto
  note tail = linkshell_array_tail[OF name(2) raw]
  have u: "?u \<le> 20" using used_bytes_cases[OF name(2)] by blast
  have str: "takeWhile (\<lambda>b. b \<noteq> 0) raw = take ?u raw"
    using nonzero by (subst tail) (auto simp: takeWhile_append takeWhile_eq_all_conv takeWhile_replicate)
  have enc: "EncodeStringLinkshell name = Some raw"
    using raw str l u tail by (simp add: EncodeStringLinkshell_def strncpy_def Let_def)
  have field: "unpackBitsLE_at (s @ [0]) (k * 6) 6 = unpackBitsLE_at raw (6 * k) 6"
    if "6 * k + 6 \<le> 8 * length s" for k
    by (rule prefix_field[OF l tail s(2) s(1) that])
  have ls: "length s = ?u + z" using s l u by simp
  define m where "m = min 20 (length s * 8 div 6) - ?n"
  have fits: "?n + m = min 20 (length s * 8 div 6)"
    using used_bytes_cases[OF name(2)] name(2) ls by (auto simp: m_def)
  have "\<forall>k < ?n. unpackBitsLE_at (s @ [0]) (k * 6) 6 = Some (take_bit 6 (ucast (ls_code (name ! k))))"
  proof (intro allI impI)
    fix k assume "k < ?n"
    moreover from this have "6 * k + 6 \<le> 8 * length s" using fits by auto
    ultimately show "unpackBitsLE_at (s @ [0]) (k * 6) 6 = Some (take_bit 6 (ucast (ls_code (name ! k))))"
      using field chars by simp
  qed
  from linkshell_loop_chars[where i = 0 and n = ?n and m = m, OF _ name(2,1) this]
  have loop: "linkshell_loop (?n + m) 0 s (replicate 21 0) =
      linkshell_loop m ?n s (name @ replicate (21 - ?n) 0)" by simp
  have "linkshell_loop m ?n s (name @ replicate (21 - ?n) 0) = Some (name @ replicate (21 - ?n) 0)"
    by (rule linkshell_loop_end[OF refl name(2) trm after l field ls s(2) m_def])
  then have "DecodeStringLinkshell s = Some (strncpy 20 (name @ replicate (21 - ?n) 0))"
    by (simp only: DecodeStringLinkshell_def fits[symmetric] loop option.map)
  moreover have "strncpy 20 (name @ replicate (21 - ?n) 0) = name @ replicate (20 - ?n) 0"
  proof (rule strncpy_padded)
    show "0 \<notin> set name" using name(1) codes(6)[of 0] by auto
  qed (use name(2) in simp_all)
  ultimately show ?thesis using enc str by (simp add: c_string_def)
qed

definition bob :: buffer where "bob = [66, 111, 98]"

lemma bob_array: "linkshell_array bob = Some ([0x70, 0xF0, 0xBF] @ replicate 17 0)"
  by code_simp

theorem linkshell_roundtrip_witness:
  "DecodeStringLinkshell (c_string ([0x70, 0xF0, 0xBF] @ replicate 17 0)) = Some (bob @ replicate 17 0)"
proof -
  have u: "used_bytes (length bob) = 3" by code_simp
  have name: "\<forall>c \<in> set bob. alnum c" "length bob \<le> 20"
    by (simp_all add: bob_def alnum_def is_upper_def is_lower_def)
  show ?thesis
    using linkshell_roundtrip[OF name bob_array, where z = 0] u by (simp add: bob_def)
qed

text \<open>
  An encoding with a zero byte is cut there by the final \<open>strncpy\<close>.  The name \<open>Spa\<close> packs
  to the bytes 0xB5, 0x00, 0x7F, only the first byte is stored, and the name reads back as \<open>S\<close>.
\<close>

theorem linkshell_name_cut:
  "linkshell_array [83, 112, 97] = Some ([0xB5, 0x00, 0x7F] @ replicate 17 0) \<and>
   EncodeStringLinkshell [83, 112, 97] = Some (0xB5 # replicate 19 0) \<and>
   DecodeStringLinkshell [0xB5] = Some (83 # replicate 19 0) \<and>
   DecodeStringLinkshell (0xB5 # replicate 14 0) = Some (83 # replicate 19 0)"
proof -
  have "linkshell_array [83, 112, 97] = Some ([0xB5, 0x00, 0x7F] @ replicate 17 0)" by code_simp
  moreover have "DecodeStringLinkshell [0xB5] = Some (83 # replicate 19 0)" by code_simp
  moreover have "DecodeStringLinkshell (0xB5 # replicate 14 0) = Some (83 # replicate 19 0)"
    by code_simp
  ultimately show ?thesis by (simp add: EncodeStringLinkshell_def strncpy_def numeral_eq_Suc)
qed

section \<open>Signatures\<close>

lemma signature_loop_fields:
  assumes "\<forall>k < 16. unpackBitsLE_at (s @ [0]) (k * 6) 6 = Some (f k)" "i + n \<le> 16"
    and "length d = 17"
  shows "\<exists>d'. signature_loop n i s d = Some d' \<and> length d' = 17 \<and>
    (\<forall>j < 17. d' ! j = (if i \<le> j \<and> j < i + n then sig_char (ucast (f j)) else d ! j))"
  using assms(2,3)
proof (induction n arbitrary: i d)
  case 0
  then show ?case by auto
next
  case (Suc n)
  let ?d = "d[i := sig_char (ucast (f i))]"
  obtain d' where d': "signature_loop n (Suc i) s ?d = Some d'" "length d' = 17"
    "\<forall>j < 17. d' ! j = (if Suc i \<le> j \<and> j < Suc i + n then sig_char (ucast (f j)) else ?d ! j)"
    using Suc.IH[of "Suc i" ?d] Suc.prems by auto
  have "unpackBitsLE_at (s @ [0]) (i * 6) 6 = Some (f i)" using assms(1) Suc.prems by simp
  then show ?case
    using d' Suc.prems by (intro exI[of _ d']) (auto simp: nth_list_update not_less_eq_eq dest: le_antisym)
qed

text \<open>
  An item signature of up to 15 letters and digits whose encoding contains no zero byte
  reads back as itself from the 12 to 16 bytes an item stores.
\<close>

theorem signature_roundtrip:
  assumes name: "\<forall>c \<in> set name. alnum c" "length name \<le> 15"
    and raw: "signature_array name = Some raw"
    and nonzero: "0 \<notin> set (take ((6 * length name + 7) div 8) raw)"
    and m: "12 \<le> m" "m \<le> 16"
  shows "EncodeStringSignature name = Some raw \<and>
    DecodeStringSignature (take m raw) = Some (name @ replicate (16 - length name) 0)"
proof -
  let ?n = "length name" and ?z = "replicate 16 0 :: buffer"
  let ?vs = "map (\<lambda>c. ucast (sig_code c)) name :: uint64 list"
  have "\<forall>k < length ?vs. room_LE ?z (0 + 6 * k) 6" using name(2) by (auto intro!: field_ok_6)
  from msb_first.put_fields_get[OF this] raw name(2) have room: "room_LE raw = room_LE ?z"
    and get: "\<forall>k < length ?vs. unpackBitsLE_at raw (0 + 6 * k) 6 = Some (take_bit 6 (?vs ! k))"
    and after: "\<forall>q m. room_LE ?z q m \<and> (q + m \<le> 0 \<or> 0 + 6 * length ?vs \<le> q) \<longrightarrow>
       unpackBitsLE_at raw q m = unpackBitsLE_at ?z q m"
    by (auto simp: signature_array_def)
  have l: "length raw = 16" using put_fields_length raw by (fastforce simp: signature_array_def)
  define f where "f k = (if k < ?n then take_bit 6 (?vs ! k) else 0)" for k
  have "unpackBitsLE_at (take m raw @ [0]) (k * 6) 6 = Some (f k)" if k: "k < 16" for k
  proof -
    have "unpackBitsLE_at (take m raw @ [0]) (6 * k) 6 = unpackBitsLE_at raw (6 * k) 6"
    proof (rule same_prefix_field)
      fix i assume "8 * i < 6 * k + 6"
      then have "i < 12" using k by simp
      then show "i < length (take m raw @ [0]) \<and> i < length raw \<and> (take m raw @ [0]) ! i = raw ! i"
        using m l by (simp add: nth_append)
    qed
    moreover have "unpackBitsLE_at raw (6 * k) 6 = Some (f k)"
    proof (cases "k < ?n")
      case True
      then show ?thesis using get by (simp add: f_def)
    next
      case False
      then show ?thesis
        using after[rule_format, of "6 * k" 6] field_ok_6[of k ?z] k unpack_zero_bytes[of 16 "6 * k" 6]
        by (simp add: f_def)
    qed
    ultimately show ?thesis by (simp add: mult.commute)
  qed
  from signature_loop_fields[of "take m raw" f 0 16 "replicate 17 0"] this obtain d where
    d: "signature_loop 16 0 (take m raw) (replicate 17 0) = Some d" "length d = 17"
    "\<forall>j < 17. d ! j = (if j < 16 then sig_char (ucast (f j)) else 0)" by auto
  have "sig_char 0 = 0" by code_simp
  then have "d = name @ replicate (17 - ?n) 0"
    using d name codes(2,8) by (intro nth_equalityI) (auto simp: f_def nth_append)
  moreover have "strncpy 16 (name @ replicate (17 - ?n) 0) = name @ replicate (16 - ?n) 0"
  proof (rule strncpy_padded)
    show "0 \<notin> set name" using name(1) codes(6)[of 0] by auto
  qed (use name(2) in simp_all)
  ultimately have dec: "DecodeStringSignature (take m raw) = Some (name @ replicate (16 - ?n) 0)"
    using d(1) by (simp add: DecodeStringSignature_def)
  have "raw ! k = 0" if "(6 * ?n + 7) div 8 \<le> k" "k < 16" for k
  proof -
    have "6 * ?n \<le> 8 * k" using that(1) by simp
    then have "unpackBitsLE_at raw (8 * k) 8 = unpackBitsLE_at ?z (8 * k) 8"
      using after room_byte[of k ?z] that(2) by simp
    then have "ucast (raw ! k) = (0 :: uint64)"
      using unpack_byte[of k raw] unpack_byte[of k ?z] that(2) l by simp
    then show ?thesis by (rule ucast_zero_8)
  qed
  then have tail: "raw = take ((6 * ?n + 7) div 8) raw @ replicate (16 - (6 * ?n + 7) div 8) 0"
    using l name(2) by (intro nth_equalityI) (auto simp: nth_append min_def)
  have "takeWhile (\<lambda>b. b \<noteq> 0) raw = take ((6 * ?n + 7) div 8) raw"
    using nonzero by (subst tail) (auto simp: takeWhile_append takeWhile_replicate)
  then have "strncpy 16 raw = raw"
    using tail l name(2) by (simp add: strncpy_def Let_def)
  with dec raw show ?thesis by (simp add: EncodeStringSignature_def)
qed

theorem signature_roundtrip_witness:
  "DecodeStringSignature (take 12 ([0x33, 0x39, 0x80] @ replicate 13 0)) = Some (bob @ replicate 13 0)"
proof -
  have name: "\<forall>c \<in> set bob. alnum c" "length bob \<le> 15"
    by (simp_all add: bob_def alnum_def is_upper_def is_lower_def)
  have "signature_array bob = Some ([0x33, 0x39, 0x80] @ replicate 13 0)" by code_simp
  from signature_roundtrip[OF name this, of 12] show ?thesis by (simp add: bob_def)
qed

section \<open>Soul plates\<close>

lemma push_bit_toggle_top:
  fixes t :: uint8
  assumes "0 < m"
  shows "push_bit m (t XOR 128) = push_bit m t"
proof (rule bit_word_eqI)
  fix n assume n: "n < LENGTH(8)"
  have "n - m < 8" using n by simp
  then have "bit (128 :: uint8) (n - m) \<longleftrightarrow> 7 = n - m"
    using bit_exp_iff[of 7 "n - m", where 'a = uint8] by auto
  then show "bit (push_bit m (t XOR 128)) n = bit (push_bit m t) n"
    using assms n by (auto simp: bit_push_bit_iff bit_xor_iff)
qed

lemma shift_left_7_eq: "shift_left_7 j shift t = push_bit (shift - j) t"
proof (induction j shift t rule: shift_left_7.induct)
  case (1 j shift t)
  show ?case
  proof (cases "j < shift")
    case True
    let ?t = "push_bit 1 t"
    let ?s = "if Suc j \<noteq> shift \<and> ?t AND 128 \<noteq> 0 then ?t XOR 128 else ?t"
    have "shift_left_7 j shift t = shift_left_7 (Suc j) shift ?s"
      using True by (subst shift_left_7.simps) (simp only: Let_def if_True)
    also have "\<dots> = push_bit (shift - Suc j) ?s" by (rule 1[OF True refl])
    also have "\<dots> = push_bit (shift - Suc j) ?t"
      using True push_bit_toggle_top[of "shift - Suc j" ?t] by (cases "Suc j = shift") simp_all
    also have "\<dots> = push_bit (shift - j) t"
      using True unfolding push_bit_push_bit by (simp add: Suc_diff_Suc)
    finally show ?thesis .
  qed (subst shift_left_7.simps, simp)
qed

definition soul_char :: "buffer \<Rightarrow> nat \<Rightarrow> uint8" where
  "soul_char nm k = (if k < length nm then nm ! k else 0)"

definition soul_byte :: "buffer \<Rightarrow> nat \<Rightarrow> nat \<Rightarrow> uint8" where
  "soul_byte nm a s = push_bit s (soul_char nm a) OR drop_bit (7 - s) (soul_char nm (Suc a))"

lemma soul_pack_step:
  assumes "0 < fuel" "i \<le> 15"
  shows "soul_pack_loop fuel nm i s l out =
     (if s = 7 then soul_pack_loop (fuel - 1) nm (i + 2) 1 (l + 1) (out[i - l := soul_byte nm i s])
      else soul_pack_loop (fuel - 1) nm (i + 1) (s + 1) l (out[i - l := soul_byte nm i s]))"
  using assms by (cases fuel) (simp_all add: soul_byte_def soul_char_def shift_left_7_eq Let_def)

lemma soul_pack_done: "15 < i \<Longrightarrow> soul_pack_loop fuel nm i s l out = out"
  by (cases fuel) auto

lemma soul_pack_updates:
  fixes name defines "nm \<equiv> soul_name name"
  shows "PackSoultrapperName name out = out[0 := soul_byte nm 0 1, 1 := soul_byte nm 1 2,
     2 := soul_byte nm 2 3, 3 := soul_byte nm 3 4, 4 := soul_byte nm 4 5, 5 := soul_byte nm 5 6,
     6 := soul_byte nm 6 7, 7 := soul_byte nm 8 1, 8 := soul_byte nm 9 2, 9 := soul_byte nm 10 3,
     10 := soul_byte nm 11 4, 11 := soul_byte nm 12 5, 12 := soul_byte nm 13 6, 13 := soul_byte nm 14 7]"
  unfolding PackSoultrapperName_def nm_def
  by (simp add: soul_pack_step soul_pack_done del: soul_pack_loop.simps One_nat_def)

text \<open>Where the reader stands: \<open>P\<close> bits consumed, the rest of the current byte in its top bits.\<close>

definition soul_at :: "buffer \<Rightarrow> nat \<Rightarrow> nat \<Rightarrow> uint8 \<Rightarrow> nat \<Rightarrow> bool" where
  "soul_at inp P bitsLeft byte pos \<longleftrightarrow> P + bitsLeft = 8 * pos \<and> bitsLeft \<le> 8 \<and> pos \<le> 14 \<and>
     (\<forall>b < bitsLeft. bit byte (7 - b) = bitLE inp (P + b))"

lemma and_128_iff: "w AND 128 \<noteq> 0 \<longleftrightarrow> bit w 7" for w :: uint8
  using bit_one_shift[of 7 w] by simp

lemma soul_at_load:
  assumes "soul_at inp P left byte pos" "left \<noteq> 0 \<or> pos < 14"
  defines "byte1 \<equiv> if left = 0 then inp ! pos else byte"
    and "left1 \<equiv> if left = 0 then 8 else left" and "pos1 \<equiv> if left = 0 then Suc pos else pos"
  shows "soul_at inp (Suc P) (left1 - 1) (push_bit 1 byte1) pos1 \<and> bit byte1 7 = bitLE inp P"
proof -
  have l: "0 < left1" "left1 \<le> 8" and at: "P + left1 = 8 * pos1" "pos1 \<le> 14"
    and bits: "\<forall>b < left1. bit byte1 (7 - b) = bitLE inp (P + b)"
    using assms(1,2) by (auto simp: soul_at_def byte1_def left1_def pos1_def bitLE_def)
  have "bit (push_bit 1 byte1) (7 - b) = bitLE inp (Suc P + b)" if "b < left1 - 1" for b
  proof -
    have "bit (push_bit 1 byte1) (7 - b) = bit byte1 (7 - Suc b)"
      using that l(2) unfolding bit_push_bit_iff by auto
    with bits[rule_format, of "Suc b"] that show ?thesis by simp
  qed
  with l at bits show ?thesis unfolding soul_at_def by fastforce
qed

lemma soul_read_bits:
  assumes "soul_at inp P left byte pos" "\<forall>i. bit c i \<longrightarrow> n \<le> i" "n \<le> 7" "length inp \<ge> 14"
  shows "if P + n \<le> 112
    then \<exists>c' left' byte' pos'. soul_read n inp left byte pos c = Some (c', left', byte', pos') \<and>
      soul_at inp (P + n) left' byte' pos' \<and>
      (\<forall>i < 8. bit c' i \<longleftrightarrow> bit c i \<or> i < n \<and> bitLE inp (P + (n - 1 - i)))
    else soul_read n inp left byte pos c = None"
  using assms
proof (induction n arbitrary: P left byte pos c)
  case 0
  then show ?case by (auto simp: soul_at_def)
next
  case (Suc n)
  show ?case
  proof (cases "left = 0 \<and> 14 \<le> pos")
    case True
    with Suc.prems show ?thesis by (auto simp: soul_at_def)
  next
    case False
    let ?byte = "if left = 0 then inp ! pos else byte" and ?left = "if left = 0 then 8 else left"
    let ?pos = "if left = 0 then Suc pos else pos"
    let ?c = "if ?byte AND 0x80 \<noteq> 0 then c OR push_bit n 1 else c"
    have at: "soul_at inp (Suc P) (?left - 1) (push_bit 1 ?byte) ?pos" and top: "bit ?byte 7 = bitLE inp P"
      using soul_at_load[OF Suc.prems(1)] False by auto
    have c: "bit ?c i \<longleftrightarrow> bit c i \<or> i = n \<and> bitLE inp P" if "i < 8" for i
      using top that by (auto simp: and_128_iff bit_or_iff bit_push_bit_iff bit_1_iff simp del: push_bit_of_1)
    have "\<forall>i. bit ?c i \<longrightarrow> n \<le> i"
      using Suc.prems(2) by (auto simp: bit_or_iff bit_push_bit_iff simp del: push_bit_of_1)
    from Suc.IH[OF at this] Suc.prems(3,4) have ih:
      "if Suc P + n \<le> 112
      then \<exists>c' left' byte' pos'. soul_read n inp (?left - 1) (push_bit 1 ?byte) ?pos ?c =
          Some (c', left', byte', pos') \<and> soul_at inp (Suc P + n) left' byte' pos' \<and>
          (\<forall>i < 8. bit c' i \<longleftrightarrow> bit ?c i \<or> i < n \<and> bitLE inp (Suc P + (n - 1 - i)))
      else soul_read n inp (?left - 1) (push_bit 1 ?byte) ?pos ?c = None" by linarith
    have stp: "soul_read (Suc n) inp left byte pos c =
        soul_read n inp (?left - 1) (push_bit 1 ?byte) ?pos ?c"
      using False by (simp only: soul_read.simps Let_def if_False)
    have conv: "(\<forall>i < 8. bit c' i \<longleftrightarrow> bit ?c i \<or> i < n \<and> bitLE inp (Suc P + (n - 1 - i))) \<longrightarrow>
        (\<forall>i < 8. bit c' i \<longleftrightarrow> bit c i \<or> i < Suc n \<and> bitLE inp (P + (Suc n - 1 - i)))" for c' :: uint8
    proof (intro impI allI)
      fix i :: nat assume "\<forall>i < 8. bit c' i \<longleftrightarrow> bit ?c i \<or> i < n \<and> bitLE inp (Suc P + (n - 1 - i))" "i < 8"
      then have "bit c' i \<longleftrightarrow> bit c i \<or> i = n \<and> bitLE inp P \<or> i < n \<and> bitLE inp (Suc P + (n - 1 - i))"
        using c[OF \<open>i < 8\<close>] by simp
      moreover have "i < n \<Longrightarrow> Suc P + (n - 1 - i) = P + (Suc n - 1 - i)" by simp
      ultimately show "bit c' i \<longleftrightarrow> bit c i \<or> i < Suc n \<and> bitLE inp (P + (Suc n - 1 - i))"
        by (cases "i < n") (auto simp: less_Suc_eq)
    qed
    have P: "Suc P + n = P + Suc n" by simp
    show ?thesis
    proof (cases "P + Suc n \<le> 112")
      case True
      with ih obtain c' left' byte' pos' where
        "soul_read n inp (?left - 1) (push_bit 1 ?byte) ?pos ?c = Some (c', left', byte', pos')"
        "soul_at inp (P + Suc n) left' byte' pos'"
        "\<forall>i < 8. bit c' i \<longleftrightarrow> bit ?c i \<or> i < n \<and> bitLE inp (Suc P + (n - 1 - i))"
        unfolding P by auto
      then show ?thesis unfolding stp if_P[OF True] using conv[of c'] by blast
    next
      case False
      with ih show ?thesis unfolding stp P if_not_P[OF False] by simp
    qed
  qed
qed

definition soul_letter :: "uint8 \<Rightarrow> bool" where
  "soul_letter c \<longleftrightarrow> 48 \<le> c \<and> c \<le> 122"

lemma soul_char_small:
  assumes "\<forall>c \<in> set nm. soul_letter c"
  shows "\<not> bit (soul_char nm k) (i + 7)"
proof -
  have "unat (soul_char nm k) < 2 ^ 7"
    using assms by (auto simp: soul_char_def soul_letter_def word_le_nat_alt dest!: nth_mem)
  then have "take_bit 7 (unat (soul_char nm k)) = unat (soul_char nm k)"
    by (rule take_bit_nat_eq_self)
  then have "\<not> bit (unat (soul_char nm k)) (i + 7)"
    by (metis bit_take_bit_iff not_add_less2)
  then show ?thesis using bit_imp_le_length by (auto simp: bit_unsigned_iff)
qed

lemma bit_soul_byte:
  assumes "\<forall>c \<in> set nm. soul_letter c" "s \<le> 7" "m < 8"
  shows "bit (soul_byte nm a s) m \<longleftrightarrow>
    (if s \<le> m then bit (soul_char nm a) (m - s) else bit (soul_char nm (Suc a)) (m + (7 - s)))"
proof -
  have "\<not> bit (soul_char nm (Suc a)) (m + (7 - s))" if "s \<le> m"
    using soul_char_small[OF assms(1), of "Suc a" "m - s"] that assms(2) by simp
  then show ?thesis
    using assms(2,3) by (auto simp: soul_byte_def bit_or_iff bit_push_bit_iff bit_drop_bit_eq add.commute)
qed

lemma packed_bits:
  assumes nm: "\<forall>c \<in> set (soul_name name). soul_letter c" and l: "14 \<le> length out"
    and k: "k < 16" and i: "i < 7"
  shows "bitLE (PackSoultrapperName name out) (7 * k + (6 - i)) = bit (soul_char (soul_name name) k) i"
proof -
  let ?w = "PackSoultrapperName name out" and ?b = "soul_byte (soul_name name)"
  have ne: "out \<noteq> []" using l by auto
  have w: "?w ! 0 = ?b 0 1" "?w ! 1 = ?b 1 2" "?w ! 2 = ?b 2 3" "?w ! 3 = ?b 3 4" "?w ! 4 = ?b 4 5"
    "?w ! 5 = ?b 5 6" "?w ! 6 = ?b 6 7" "?w ! 7 = ?b 8 1" "?w ! 8 = ?b 9 2" "?w ! 9 = ?b 10 3"
    "?w ! 10 = ?b 11 4" "?w ! 11 = ?b 12 5" "?w ! 12 = ?b 13 6" "?w ! 13 = ?b 14 7"
    using l ne by (simp_all add: soul_pack_updates nth_list_update)
  have "\<forall>k \<in> {0, 1, 2, 3, 4, 5, 6, 7, 8, 9, 10, 11, 12, 13, 14, 15}. \<forall>i \<in> {0, 1, 2, 3, 4, 5, 6}.
     bitLE ?w (7 * k + (6 - i)) = bit (soul_char (soul_name name) k) i"
    by (simp add: bitLE_def w bit_soul_byte[OF nm] del: One_nat_def) (simp add: numeral_eq_Suc)
  moreover have "k \<in> {0, 1, 2, 3, 4, 5, 6, 7, 8, 9, 10, 11, 12, 13, 14, 15}" "i \<in> {0, 1, 2, 3, 4, 5, 6}"
    unfolding insert_iff empty_iff using k i by presburger+
  ultimately show ?thesis by blast
qed

lemma soul_char_eqI:
  assumes "\<forall>i < 8. bit c i \<longleftrightarrow> i < 7 \<and> bit d i" "\<not> bit (d :: uint8) 7"
  shows "c = d"
proof (rule bit_word_eqI)
  fix n assume "n < LENGTH(8)"
  then have "n < 8" by simp
  then show "bit c n = bit d n" using assms by (cases "n = 7") auto
qed

lemma soul_unpack_chars:
  assumes nm: "\<forall>c \<in> set nm. soul_letter c" "length nm \<le> 15" and l: "14 \<le> length inp"
    and bits: "\<And>k i. k < 16 \<Longrightarrow> i < 7 \<Longrightarrow> bitLE inp (7 * k + (6 - i)) = bit (soul_char nm k) i"
    and at: "soul_at inp (7 * k) left byte pos" and k: "k + n = length nm"
  shows "soul_unpack_loop (Suc n + m) inp left byte pos (take k nm) = Some nm"
  using at k
proof (induction n arbitrary: k left byte pos)
  case 0
  have 7: "7 * k + 7 \<le> 112" using 0 nm(2) by simp
  with soul_read_bits[OF 0(1), of 0 7] l obtain c left' byte' pos' where
    c: "soul_read 7 inp left byte pos 0 = Some (c, left', byte', pos')"
    "\<forall>i < 8. bit c i \<longleftrightarrow> i < 7 \<and> bitLE inp (7 * k + (7 - 1 - i))" by auto
  have "c = 0"
  proof (rule soul_char_eqI)
    show "\<forall>i < 8. bit c i \<longleftrightarrow> i < 7 \<and> bit (0 :: uint8) i"
    proof -
      have "bitLE inp (7 * k + (7 - 1 - i)) = bit (0 :: uint8) i" if "i < 7" for i
        using bits[of k i] that 0 nm(2) by (simp add: soul_char_def)
      then show ?thesis using c(2) by blast
    qed
  qed simp
  then show ?case using c(1) 0 by simp
next
  case (Suc n)
  have 7: "7 * k + 7 \<le> 112" and k: "k < length nm" using Suc.prems nm(2) by simp_all
  with soul_read_bits[OF Suc.prems(1), of 0 7] l obtain c left' byte' pos' where
    c: "soul_read 7 inp left byte pos 0 = Some (c, left', byte', pos')"
    "soul_at inp (7 * k + 7) left' byte' pos'"
    "\<forall>i < 8. bit c i \<longleftrightarrow> i < 7 \<and> bitLE inp (7 * k + (7 - 1 - i))" by auto
  have ck: "c = nm ! k"
  proof (rule soul_char_eqI)
    show "\<forall>i < 8. bit c i \<longleftrightarrow> i < 7 \<and> bit (nm ! k) i"
    proof -
      have "bitLE inp (7 * k + (7 - 1 - i)) = bit (nm ! k) i" if "i < 7" for i
        using bits[of k i] that k nm(2) by (simp add: soul_char_def)
      then show ?thesis using c(3) by blast
    qed
    show "\<not> bit (nm ! k) 7" using soul_char_small[OF nm(1), of k 0] k by (simp add: soul_char_def)
  qed
  have "soul_letter c" using nm(1) k ck by simp
  then have cc: "\<not> (c = 0 \<or> c < 48 \<or> 122 < c)" by (auto simp: soul_letter_def)
  have at: "soul_at inp (7 * Suc k) left' byte' pos'" using c(2) by (simp add: add.commute)
  have "soul_unpack_loop (Suc n + m) inp left' byte' pos' (take k nm @ [c]) = Some nm"
    using Suc.IH[OF at] Suc.prems(2) k ck by (simp add: take_Suc_conv_app_nth)
  with c(1) cc show ?case by simp
qed

text \<open>
  A soul plate name survives packing and unpacking: of a name whose characters, apart from
  underscores, lie between the digit zero and the letter z, the first 15 characters without their
  underscores read back, whatever the other bytes of the plate held.
\<close>

theorem soultrapper_roundtrip:
  assumes "\<forall>c \<in> set (soul_name name). soul_letter c" "14 \<le> length out"
  shows "UnpackSoultrapperName (PackSoultrapperName name out) = Some (soul_name name) \<and>
    length (PackSoultrapperName name out) = length out \<and>
    drop 14 (PackSoultrapperName name out) = drop 14 out"
proof -
  let ?w = "PackSoultrapperName name out"
  have len: "length (soul_name name) \<le> 15"
    unfolding soul_name_def by (rule le_trans[OF length_filter_le]) simp
  then obtain d where d: "15 = length (soul_name name) + d" using le_Suc_ex by blast
  have lw: "length ?w = length out" by (simp add: soul_pack_updates)
  then have lw14: "14 \<le> length ?w" using assms(2) by simp
  have at: "soul_at ?w (7 * 0) 0 0 0" by (simp add: soul_at_def)
  have "soul_unpack_loop (Suc (length (soul_name name)) + Suc d) ?w 0 0 0 (take 0 (soul_name name)) =
      Some (soul_name name)"
    by (rule soul_unpack_chars[OF assms(1) len lw14 packed_bits[OF assms] at]) simp_all
  moreover have "Suc (length (soul_name name)) + Suc d = 17" using d by simp
  ultimately have "soul_unpack_loop 17 ?w 0 0 0 [] = Some (soul_name name)" by (metis take0)
  then show ?thesis using lw lw14 by (simp add: UnpackSoultrapperName_def) (simp add: soul_pack_updates)
qed

theorem soultrapper_roundtrip_witness:
  "UnpackSoultrapperName (PackSoultrapperName [71, 111, 95, 66] (replicate 18 0)) = Some [71, 111, 66]"
  using soultrapper_roundtrip[of "[71, 111, 95, 66]" "replicate 18 0"]
  by (simp add: soul_name_def soul_letter_def)

end
