(* ===== verification/Items.thy ===== *)
theory Items
  imports Prelude
begin

unbundle bit_operations_syntax

text \<open>
  The item object, \<open>CItem\<close> of \<open>src/map/items/item.h\<close> and \<open>item.cpp\<close>: its quantity, stack
  and reservation fields with the clamping setters, the type and flag bits, and the place
  (container and slot) the item sits in, and its two prices.  Names and the 24 opaque extra bytes
  are left out: none of the modelled operations reads them.
\<close>

record item =
  i_id :: nat
  i_type :: uint8
  i_subtype :: uint8
  i_quantity :: uint32
  i_reserve :: uint32
  i_stackSize :: uint32
  i_flag :: uint32
  i_slotID :: nat
  i_locationID :: nat
  i_basePrice :: uint32
  i_charPrice :: uint32

definition new_item :: "nat \<Rightarrow> item" where
  "new_item ident = \<lparr>i_id = ident, i_type = 0, i_subtype = 0, i_quantity = 0, i_reserve = 0,
     i_stackSize = 0, i_flag = 0, i_slotID = 255, i_locationID = 255,
     i_basePrice = 0, i_charPrice = 0\<rparr>"

definition ITEM_USABLE :: uint8 where "ITEM_USABLE = 0x02"
definition ITEM_EQUIPMENT :: uint8 where "ITEM_EQUIPMENT = 0x08"
definition ITEM_WEAPON :: uint8 where "ITEM_WEAPON = 0x10"
definition ITEM_CURRENCY :: uint8 where "ITEM_CURRENCY = 0x20"
definition ITEM_LINKSHELL :: uint8 where "ITEM_LINKSHELL = 0x80"

definition ITEM_LOCKED :: uint8 where "ITEM_LOCKED = 0x01"
definition ITEM_UNLOCKED :: uint8 where "ITEM_UNLOCKED = 0xFE"

definition FLAG_EXCLUSIVE :: uint32 where "FLAG_EXCLUSIVE = 0x4000"
definition FLAG_RARE :: uint32 where "FLAG_RARE = 0x8000"

definition hasFlag :: "item \<Rightarrow> uint32 \<Rightarrow> bool" where
  "hasFlag it f \<longleftrightarrow> i_flag it AND f \<noteq> 0"

definition isType :: "item \<Rightarrow> uint8 \<Rightarrow> bool" where
  "isType it ty \<longleftrightarrow> i_type it AND ty \<noteq> 0"

definition setType :: "uint8 \<Rightarrow> item \<Rightarrow> item" where
  "setType ty it = it\<lparr>i_type := i_type it OR ty\<rparr>"

definition setSubType :: "uint8 \<Rightarrow> item \<Rightarrow> item" where
  "setSubType ty it = it\<lparr>i_subtype :=
     (if 128 < ty then i_subtype it AND ty else i_subtype it OR ty)\<rparr>"

definition isSubType :: "item \<Rightarrow> uint8 \<Rightarrow> bool" where
  "isSubType it ty \<longleftrightarrow> i_subtype it AND ty \<noteq> 0"

definition setReserve :: "uint32 \<Rightarrow> item \<Rightarrow> item" where
  "setReserve r it = it\<lparr>i_reserve := (if r < i_quantity it then r else i_quantity it)\<rparr>"

definition setQuantity :: "uint32 \<Rightarrow> item \<Rightarrow> item" where
  "setQuantity q it = it\<lparr>i_quantity := (if q < i_stackSize it then q else i_stackSize it)\<rparr>"

definition setCharPrice :: "uint32 \<Rightarrow> item \<Rightarrow> item" where
  "setCharPrice p it = (if hasFlag it FLAG_EXCLUSIVE then it else it\<lparr>i_charPrice := p\<rparr>)"

definition placed :: "nat \<Rightarrow> nat \<Rightarrow> item \<Rightarrow> item" where
  "placed slot loc it = it\<lparr>i_slotID := slot, i_locationID := loc\<rparr>"

lemma i_id_setters [simp]:
  "i_id (setReserve r it) = i_id it"
  "i_id (setQuantity q it) = i_id it"
  "i_id (placed s l it) = i_id it"
  by (simp_all add: setReserve_def setQuantity_def placed_def)

lemma i_quantity_setters [simp]:
  "i_quantity (setReserve r it) = i_quantity it"
  "i_quantity (setQuantity q it) = min q (i_stackSize it)"
  "i_quantity (placed s l it) = i_quantity it"
  by (auto simp: setReserve_def setQuantity_def placed_def min_def)

lemma i_reserve_setReserve [simp]: "i_reserve (setReserve r it) = min r (i_quantity it)"
  by (auto simp: setReserve_def min_def)

lemma i_stackSize_setters [simp]:
  "i_stackSize (setReserve r it) = i_stackSize it"
  "i_stackSize (setQuantity q it) = i_stackSize it"
  "i_stackSize (placed s l it) = i_stackSize it"
  by (simp_all add: setReserve_def setQuantity_def placed_def)

lemma placed_placed [simp]: "placed s l (placed s' l' it) = placed s l it"
  by (simp add: placed_def)

text \<open>
  The item apart from where it sits, which is what a move has to preserve: the same item
  stamped with the place of a freshly constructed one.
\<close>

definition unplaced :: "item \<Rightarrow> item" where
  "unplaced it = placed 255 255 it"

lemma unplaced_placed [simp]: "unplaced (placed s l it) = unplaced it"
  by (simp add: unplaced_def)

end
