(* ===== verification/Exchange.thy ===== *)
theory Exchange
  imports Items
begin

text \<open>
  The two containers an exchange of items goes through: \<open>CUContainer\<close>
  (\<open>src/map/universal_container.cpp\<close>: shop, trade, synthesis and delivery box slots) and
  \<open>CTradeContainer\<close> (\<open>src/map/trade_container.cpp\<close>: what a player offers to an NPC).  Both hold
  pointers to items owned elsewhere: a pointer is an address of an item heap, a null pointer or
  a freed address has no item there.  The type of the slots is a parameter of the universal
container: addresses here, the items themselves in a delivery box, which owns what it shows.
\<close>

type_synonym heap = "nat \<Rightarrow> item option"

definition upd_item :: "(item \<Rightarrow> item) \<Rightarrow> nat \<Rightarrow> heap \<Rightarrow> heap option" where
  "upd_item f a h = (case h a of None \<Rightarrow> None | Some it \<Rightarrow> Some (h(a := Some (f it))))"

section \<open>The universal container\<close>

datatype UCONTAINERTYPE = UCONTAINER_EMPTY | UCONTAINER_SYNTES | UCONTAINER_FISHING
  | UCONTAINER_SHOP | UCONTAINER_TRADE | UCONTAINER_USEITEM | UCONTAINER_AUCTION
  | UCONTAINER_SEND_DELIVERYBOX | UCONTAINER_RECV_DELIVERYBOX

definition UCONTAINER_SIZE :: nat where "UCONTAINER_SIZE = 16"

record 'p ucontainer =
  u_type :: UCONTAINERTYPE
  u_lock :: bool
  u_count :: uint8
  u_target :: uint16
  u_items :: "'p option list"

text \<open>Deleting the items of a delivery box; a slot the vector does not have is out of bounds.\<close>

fun destroy_slots :: "nat \<Rightarrow> nat option list \<Rightarrow> heap \<Rightarrow> heap option" where
  "destroy_slots 0 ps h = Some h"
| "destroy_slots (Suc n) [] h = None"
| "destroy_slots (Suc n) (None # ps) h = destroy_slots n ps h"
| "destroy_slots (Suc n) (Some a # ps) h =
     (if h a = None then None else destroy_slots n ps (h(a := None)))"

fun release_all :: "nat option list \<Rightarrow> heap \<Rightarrow> heap option" where
  "release_all [] h = Some h"
| "release_all (None # ps) h = release_all ps h"
| "release_all (Some a # ps) h =
     (case upd_item (setReserve 0) a h of None \<Rightarrow> None | Some h' \<Rightarrow> release_all ps h')"

definition uc_empty :: "'p ucontainer" where
  "uc_empty = \<lparr>u_type = UCONTAINER_EMPTY, u_lock = False, u_count = 0, u_target = 0,
     u_items = replicate UCONTAINER_SIZE None\<rparr>"

definition uc_Clean :: "nat ucontainer \<Rightarrow> heap \<Rightarrow> (nat ucontainer \<times> heap) option" where
  "uc_Clean c h =
     map_option (\<lambda>h'. (uc_empty, h'))
       (if u_type c = UCONTAINER_SEND_DELIVERYBOX \<or> u_type c = UCONTAINER_RECV_DELIVERYBOX
        then destroy_slots UCONTAINER_SIZE (u_items c) h
        else if u_type c = UCONTAINER_TRADE then release_all (u_items c) h
        else Some h)"

definition uc_SetTarget :: "uint16 \<Rightarrow> 'p ucontainer \<Rightarrow> 'p ucontainer" where
  "uc_SetTarget t c = c\<lparr>u_target := t\<rparr>"

definition uc_SetType :: "UCONTAINERTYPE \<Rightarrow> 'p ucontainer \<Rightarrow> 'p ucontainer" where
  "uc_SetType t c = (if u_type c \<noteq> UCONTAINER_EMPTY then c else c\<lparr>u_type := t\<rparr>)"

definition uc_SetLock :: "'p ucontainer \<Rightarrow> 'p ucontainer" where
  "uc_SetLock c = c\<lparr>u_lock := True\<rparr>"

definition uc_UnLock :: "'p ucontainer \<Rightarrow> 'p ucontainer" where
  "uc_UnLock c = c\<lparr>u_lock := False\<rparr>"

definition uc_IsContainerEmpty :: "'p ucontainer \<Rightarrow> bool" where
  "uc_IsContainerEmpty c \<longleftrightarrow> u_type c = UCONTAINER_EMPTY"

definition uc_IsSlotEmpty :: "nat \<Rightarrow> 'p ucontainer \<Rightarrow> bool" where
  "uc_IsSlotEmpty s c = (if s < length (u_items c) then u_items c ! s = None else True)"

definition uc_SetItem :: "nat \<Rightarrow> 'p option \<Rightarrow> 'p ucontainer \<Rightarrow> bool \<times> 'p ucontainer" where
  "uc_SetItem s p c =
     (if s < length (u_items c) \<and> \<not> u_lock c
      then (let c1 = (if p \<noteq> None \<and> u_items c ! s = None then c\<lparr>u_count := u_count c + 1\<rparr> else c);
                c2 = (if p = None \<and> u_items c ! s \<noteq> None then c1\<lparr>u_count := u_count c1 - 1\<rparr> else c1)
            in (True, c2\<lparr>u_items := (u_items c2)[s := p]\<rparr>))
      else (False, c))"

definition resize :: "nat \<Rightarrow> 'a \<Rightarrow> 'a list \<Rightarrow> 'a list" where
  "resize n d xs = take n xs @ replicate (n - length xs) d"

definition uc_SetSize :: "nat \<Rightarrow> 'p ucontainer \<Rightarrow> 'p ucontainer" where
  "uc_SetSize n c = c\<lparr>u_items := resize n None (u_items c)\<rparr>"

definition uc_ClearSlot :: "nat \<Rightarrow> 'p ucontainer \<Rightarrow> 'p ucontainer" where
  "uc_ClearSlot s c =
     (if s < length (u_items c) then c\<lparr>u_items := (u_items c)[s := None]\<rparr> else c)"

definition uc_GetItem :: "nat \<Rightarrow> 'p ucontainer \<Rightarrow> 'p option" where
  "uc_GetItem s c = (if s < length (u_items c) then u_items c ! s else None)"

section \<open>The trade container\<close>

definition CONTAINER_SIZE :: nat where "CONTAINER_SIZE = 17"

record trade =
  t_type :: uint8
  t_craftType :: uint8
  t_ItemsCount :: uint8
  t_exSize :: uint8
  t_PItem :: "nat option list"
  t_slotID :: "uint8 list"
  t_itemID :: "uint16 list"
  t_quantity :: "uint32 list"
  t_confirmed :: "uint32 list"
  t_guildID :: "uint8 list"
  t_guildRank :: "uint16 list"

definition tc_Clean :: trade where
  "tc_Clean = \<lparr>t_type = 0, t_craftType = 0, t_ItemsCount = 0, t_exSize = 0,
     t_PItem = replicate CONTAINER_SIZE None, t_slotID = replicate CONTAINER_SIZE 0xFF,
     t_itemID = replicate CONTAINER_SIZE 0, t_quantity = replicate CONTAINER_SIZE 0,
     t_confirmed = replicate CONTAINER_SIZE 0, t_guildID = replicate CONTAINER_SIZE 0,
     t_guildRank = replicate CONTAINER_SIZE 0\<rparr>"

text \<open>The arrays always have the length of the pointer array, so its length bounds them all.\<close>

abbreviation slots :: "trade \<Rightarrow> nat" where
  "slots t \<equiv> length (t_PItem t)"

definition tc_getItem :: "nat \<Rightarrow> trade \<Rightarrow> nat option" where
  "tc_getItem s t = (if s < slots t then t_PItem t ! s else None)"

definition tc_getItemID :: "nat \<Rightarrow> trade \<Rightarrow> uint16" where
  "tc_getItemID s t = (if s < slots t then t_itemID t ! s else 0)"

definition tc_getInvSlotID :: "nat \<Rightarrow> trade \<Rightarrow> uint8" where
  "tc_getInvSlotID s t = (if s < slots t then t_slotID t ! s else 0xFF)"

definition tc_getQuantity :: "nat \<Rightarrow> trade \<Rightarrow> uint32" where
  "tc_getQuantity s t = (if s < slots t then t_quantity t ! s else 0)"

definition tc_getConfirmedStatus :: "nat \<Rightarrow> trade \<Rightarrow> uint32" where
  "tc_getConfirmedStatus s t = (if s < slots t then t_confirmed t ! s else 0)"

definition tc_getItemQuantity :: "uint16 \<Rightarrow> trade \<Rightarrow> uint32" where
  "tc_getItemQuantity ident t =
     fold (\<lambda>s q. if t_itemID t ! s = ident then q + t_quantity t ! s else q) [0..<slots t] 0"

definition tc_getTotalQuantity :: "trade \<Rightarrow> uint32" where
  "tc_getTotalQuantity t =
     fold (\<lambda>s q. q + (if t_itemID t ! s = 0xFFFF then 1 else t_quantity t ! s)) [0..<slots t] 0"

definition tc_getSlotCount :: "trade \<Rightarrow> uint8" where
  "tc_getSlotCount t = fold (\<lambda>s n. if t_itemID t ! s \<noteq> 0 then n + 1 else n) [0..<slots t] 0"

definition tc_getGuildID :: "nat \<Rightarrow> trade \<Rightarrow> uint8" where
  "tc_getGuildID s t = (if s < slots t then t_guildID t ! s else 0)"

definition tc_getGuildRank :: "nat \<Rightarrow> trade \<Rightarrow> uint16" where
  "tc_getGuildRank s t = (if s < slots t then t_guildRank t ! s else 0)"

definition tc_setItem :: "nat \<Rightarrow> nat option \<Rightarrow> trade \<Rightarrow> trade" where
  "tc_setItem s p t = (if s < slots t then t\<lparr>t_PItem := (t_PItem t)[s := p]\<rparr> else t)"

definition tc_setItemID :: "nat \<Rightarrow> uint16 \<Rightarrow> trade \<Rightarrow> trade" where
  "tc_setItemID s v t = (if s < slots t then t\<lparr>t_itemID := (t_itemID t)[s := v]\<rparr> else t)"

definition tc_setInvSlotID :: "nat \<Rightarrow> uint8 \<Rightarrow> trade \<Rightarrow> trade" where
  "tc_setInvSlotID s v t = (if s < slots t then t\<lparr>t_slotID := (t_slotID t)[s := v]\<rparr> else t)"

definition tc_setQuantity :: "nat \<Rightarrow> uint32 \<Rightarrow> trade \<Rightarrow> trade" where
  "tc_setQuantity s v t = (if s < slots t then t\<lparr>t_quantity := (t_quantity t)[s := v]\<rparr> else t)"

definition tc_setConfirmedStatus ::
  "nat \<Rightarrow> uint32 \<Rightarrow> trade \<Rightarrow> heap \<Rightarrow> (bool \<times> trade) option" where
  "tc_setConfirmedStatus s amount t h =
     (if s < slots t
      then (case t_PItem t ! s of
              None \<Rightarrow> Some (False, t)
            | Some a \<Rightarrow>
                (case h a of
                   None \<Rightarrow> None
                 | Some it \<Rightarrow>
                     (if amount \<le> i_quantity it
                      then Some (True, t\<lparr>t_confirmed :=
                        (t_confirmed t)[s := min amount (i_quantity it)]\<rparr>)
                      else Some (False, t))))
      else Some (False, t))"

definition tc_setItemFull ::
  "nat \<Rightarrow> uint16 \<Rightarrow> uint8 \<Rightarrow> uint32 \<Rightarrow> nat option \<Rightarrow> trade \<Rightarrow> trade" where
  "tc_setItemFull s ident invSlot quantity p t =
     (if s < slots t
      then t\<lparr>t_ItemsCount := t_ItemsCount t + 1, t_PItem := (t_PItem t)[s := p],
        t_itemID := (t_itemID t)[s := ident], t_slotID := (t_slotID t)[s := invSlot],
        t_quantity := (t_quantity t)[s := quantity]\<rparr>
      else t)"

definition tc_setGuildID :: "nat \<Rightarrow> uint8 \<Rightarrow> trade \<Rightarrow> trade" where
  "tc_setGuildID s v t = (if s < slots t then t\<lparr>t_guildID := (t_guildID t)[s := v]\<rparr> else t)"

definition tc_setGuildRank :: "nat \<Rightarrow> uint16 \<Rightarrow> trade \<Rightarrow> trade" where
  "tc_setGuildRank s v t = (if s < slots t then t\<lparr>t_guildRank := (t_guildRank t)[s := v]\<rparr> else t)"

definition tc_setSize :: "nat \<Rightarrow> trade \<Rightarrow> trade" where
  "tc_setSize n t = t\<lparr>t_PItem := resize n None (t_PItem t), t_itemID := resize n 0 (t_itemID t),
     t_slotID := resize n 0xFF (t_slotID t), t_quantity := resize n 0 (t_quantity t),
     t_confirmed := resize n 0 (t_confirmed t), t_guildID := resize n 0 (t_guildID t),
     t_guildRank := resize n 0 (t_guildRank t)\<rparr>"

definition unreserve_slot :: "trade \<Rightarrow> nat \<Rightarrow> heap option \<Rightarrow> heap option" where
  "unreserve_slot t s oh =
     (case oh of
        None \<Rightarrow> None
      | Some h \<Rightarrow>
          (if s < slots t
           then (case t_PItem t ! s of
                   None \<Rightarrow> Some h
                 | Some a \<Rightarrow>
                     (let confirmedStatus = tc_getConfirmedStatus s t in
                      if 0 < confirmedStatus then upd_item (setReserve confirmedStatus) a h
                      else upd_item (setReserve 0) a h))
           else None))"

definition unreserveUnconfirmed :: "trade \<Rightarrow> heap \<Rightarrow> heap option" where
  "unreserveUnconfirmed t h = fold (unreserve_slot t) [0..<CONTAINER_SIZE] (Some h)"

section \<open>What the universal container keeps\<close>

definition occupied_slots :: "'a option list \<Rightarrow> nat" where
  "occupied_slots ps = length (filter (\<lambda>p. p \<noteq> None) ps)"

definition uc_ok :: "'p ucontainer \<Rightarrow> bool" where
  "uc_ok c \<longleftrightarrow> length (u_items c) \<le> 255 \<and> unat (u_count c) = occupied_slots (u_items c)"

lemma occupied_slots_update:
  assumes "s < length ps"
  shows "occupied_slots (ps[s := p]) + (if ps ! s = None then 0 else 1) =
    occupied_slots ps + (if p = None then 0 else 1)"
proof -
  have "ps = take s ps @ ps ! s # drop (Suc s) ps" using assms by (simp add: id_take_nth_drop)
  then have "occupied_slots ps = occupied_slots (take s ps @ ps ! s # drop (Suc s) ps)" by simp
  then show ?thesis using assms by (simp add: upd_conv_take_nth_drop occupied_slots_def)
qed

lemma occupied_slots_le: "occupied_slots ps \<le> length ps"
  by (simp add: occupied_slots_def)

lemma occupied_slots_less:
  assumes "s < length ps" "ps ! s = None"
  shows "occupied_slots ps < length ps"
  using occupied_slots_update[OF assms(1), of "Some undefined"] assms
    occupied_slots_le[of "ps[s := Some undefined]"] by simp

lemma uc_ok_SetItem [wf_intros]:
  assumes "uc_ok c"
  shows "uc_ok (snd (uc_SetItem s p c))"
proof (cases "s < length (u_items c) \<and> \<not> u_lock c")
  case True
  then have s: "s < length (u_items c)" by simp
  note upd = occupied_slots_update[OF s, of p]
  have pos: "u_items c ! s \<noteq> None \<Longrightarrow> 0 < unat (u_count c)"
    using assms occupied_slots_update[OF s, of None] by (auto simp: uc_ok_def)
  have room: "u_items c ! s = None \<Longrightarrow> unat (u_count c) < 255"
    using assms occupied_slots_less[OF s] by (auto simp: uc_ok_def)
  show ?thesis
    using True assms upd pos room unat_inc8[of "u_count c"] unat_dec8[of "u_count c"]
    by (cases p; cases "u_items c ! s") (auto simp: uc_SetItem_def uc_ok_def)
next
  case False
  with assms show ?thesis by (auto simp: uc_SetItem_def)
qed

lemma uc_ok_empty: "uc_ok uc_empty"
  by (simp add: uc_ok_def uc_empty_def occupied_slots_def UCONTAINER_SIZE_def)

text \<open>
  The universal container counts the items it holds.  Cleaning it, setting its type or its
  target, locking it and putting an item into a slot or taking one out keep the count equal to
  the number of occupied slots; a locked container or a slot out of range refuses the item and
  nothing changes, and otherwise the slot and only the slot holds what was put.
\<close>

theorem ucontainer_counts:
  assumes "uc_ok c"
  shows "uc_ok (snd (uc_SetItem s p c)) \<and> uc_ok (uc_SetType t c) \<and> uc_ok (uc_SetTarget g c) \<and>
    uc_ok (uc_SetLock c) \<and> uc_ok (uc_UnLock c) \<and>
    (\<forall>c' h'. uc_Clean c h = Some (c', h') \<longrightarrow> uc_ok c' \<and> u_count c' = 0 \<and> \<not> u_lock c') \<and>
    (if s < length (u_items c) \<and> \<not> u_lock c
     then fst (uc_SetItem s p c) \<and> uc_GetItem s (snd (uc_SetItem s p c)) = p \<and>
       (\<forall>s'. s' \<noteq> s \<longrightarrow> uc_GetItem s' (snd (uc_SetItem s p c)) = uc_GetItem s' c)
     else uc_SetItem s p c = (False, c))"
proof -
  have "uc_ok (uc_SetType t c)" "uc_ok (uc_SetTarget g c)" "uc_ok (uc_SetLock c)" "uc_ok (uc_UnLock c)"
    using assms by (simp_all add: uc_ok_def uc_SetType_def uc_SetTarget_def uc_SetLock_def uc_UnLock_def)
  moreover have "uc_Clean c h = Some (c', h') \<longrightarrow> uc_ok c' \<and> u_count c' = 0 \<and> \<not> u_lock c'" for c' h'
    using uc_ok_empty by (auto simp: uc_Clean_def) (auto simp: uc_empty_def)
  moreover have "if s < length (u_items c) \<and> \<not> u_lock c
     then fst (uc_SetItem s p c) \<and> uc_GetItem s (snd (uc_SetItem s p c)) = p \<and>
       (\<forall>s'. s' \<noteq> s \<longrightarrow> uc_GetItem s' (snd (uc_SetItem s p c)) = uc_GetItem s' c)
     else uc_SetItem s p c = (False, c)"
    by (auto simp: uc_SetItem_def uc_GetItem_def Let_def)
  ultimately show ?thesis using uc_ok_SetItem[OF assms] by simp
qed

theorem ucontainer_counts_witness:
  "uc_ok (snd (uc_SetItem 3 (Some (7 :: nat)) uc_empty)) \<and>
   uc_GetItem 3 (snd (uc_SetItem 3 (Some (7 :: nat)) uc_empty)) = Some 7"
  using ucontainer_counts[OF uc_ok_empty, of 3 "Some (7 :: nat)"]
  by (simp add: uc_empty_def UCONTAINER_SIZE_def)

text \<open>
  \<open>ClearSlot\<close> takes an item out without counting it out, so an occupied slot that is cleared
  and filled again counts twice, and the count stays above the number of items until the
  container is cleaned.
\<close>

theorem ClearSlot_miscounts:
  assumes "uc_ok c" "s < length (u_items c)" "u_items c ! s = Some a" "\<not> u_lock c"
  shows "u_count (uc_ClearSlot s c) = u_count c \<and> \<not> uc_ok (uc_ClearSlot s c) \<and>
    u_items (snd (uc_SetItem s (Some a) (uc_ClearSlot s c))) = u_items c \<and>
    u_count (snd (uc_SetItem s (Some a) (uc_ClearSlot s c))) = u_count c + 1"
proof -
  have "occupied_slots ((u_items c)[s := None]) + 1 = occupied_slots (u_items c)"
    using occupied_slots_update[OF assms(2), of None] assms(3) by simp
  then have "\<not> uc_ok (uc_ClearSlot s c)" using assms by (auto simp: uc_ok_def uc_ClearSlot_def)
  moreover have "(u_items c)[s := Some a] = u_items c" using assms(3) by (metis list_update_id)
  ultimately show ?thesis using assms(2-4) by (simp add: uc_ClearSlot_def uc_SetItem_def)
qed

theorem ClearSlot_miscounts_witness:
  "u_count (snd (uc_SetItem 2 (Some (9 :: nat)) (uc_ClearSlot 2 (snd (uc_SetItem 2 (Some 9) uc_empty))))) = 2"
proof -
  let ?c = "snd (uc_SetItem 2 (Some (9 :: nat)) uc_empty)"
  have "u_items ?c = None # None # Some 9 # replicate 13 None" "u_count ?c = 1" "\<not> u_lock ?c"
    by (simp_all add: uc_SetItem_def uc_empty_def UCONTAINER_SIZE_def numeral_eq_Suc)
  then show ?thesis using ClearSlot_miscounts[OF uc_ok_SetItem[OF uc_ok_empty], of 2 2 "Some (9 :: nat)" 9] by simp
qed

section \<open>What a trade reserves\<close>

definition trade_live :: "trade \<Rightarrow> heap \<Rightarrow> bool" where
  "trade_live t h \<longleftrightarrow> slots t = CONTAINER_SIZE \<and>
     (\<forall>s < CONTAINER_SIZE. \<forall>a. t_PItem t ! s = Some a \<longrightarrow> h a \<noteq> None) \<and>
     (\<forall>s < CONTAINER_SIZE. \<forall>s' < CONTAINER_SIZE. \<forall>a. t_PItem t ! s = Some a \<longrightarrow> t_PItem t ! s' = Some a \<longrightarrow> s = s')"

lemma unreserve_upto:
  assumes live: "trade_live t h" and n: "n \<le> CONTAINER_SIZE"
  shows "\<exists>h'. fold (unreserve_slot t) [0..<n] (Some h) = Some h' \<and>
    (\<forall>s < n. \<forall>a it. t_PItem t ! s = Some a \<longrightarrow> h a = Some it \<longrightarrow>
       h' a = Some (setReserve (t_confirmed t ! s) it)) \<and>
    (\<forall>a. (\<forall>s < n. t_PItem t ! s \<noteq> Some a) \<longrightarrow> h' a = h a)"
  using n
proof (induction n)
  case 0
  then show ?case by simp
next
  case (Suc n)
  then obtain h' where h': "fold (unreserve_slot t) [0..<n] (Some h) = Some h'"
    "\<forall>s < n. \<forall>a it. t_PItem t ! s = Some a \<longrightarrow> h a = Some it \<longrightarrow>
       h' a = Some (setReserve (t_confirmed t ! s) it)"
    "\<forall>a. (\<forall>s < n. t_PItem t ! s \<noteq> Some a) \<longrightarrow> h' a = h a" by auto
  have s: "n < slots t" using Suc.prems live by (simp add: trade_live_def)
  show ?case
  proof (cases "t_PItem t ! n")
    case None
    have "fold (unreserve_slot t) [0..<Suc n] (Some h) = Some h'"
      using h'(1) None s by (simp add: unreserve_slot_def)
    then show ?thesis using h'(2,3) None by (intro exI[of _ h']) (auto simp: less_Suc_eq)
  next
    case (Some a)
    have fresh: "\<forall>s < n. t_PItem t ! s \<noteq> Some a"
      using live Some Suc.prems unfolding trade_live_def by (metis Suc_le_lessD less_trans nat_neq_iff)
    then have same: "h' a = h a" using h'(3) by blast
    obtain it where it: "h a = Some it"
      using live Some Suc.prems unfolding trade_live_def by (meson Suc_le_lessD not_None_eq)
    let ?h = "h'(a := Some (setReserve (t_confirmed t ! n) it))"
    have "unreserve_slot t n (Some h') = Some ?h"
      using Some s same it
      by (auto simp: unreserve_slot_def upd_item_def tc_getConfirmedStatus_def Let_def word_gt_0)
    then have "fold (unreserve_slot t) [0..<Suc n] (Some h) = Some ?h" using h'(1) by simp
    then show ?thesis
      using h'(2,3) Some it fresh by (intro exI[of _ ?h]) (auto simp: less_Suc_eq)
  qed
qed

text \<open>
  C26: when a trade ends, every offered item keeps reserved exactly the confirmed amount, no item
  that was not offered changes, and no offered item is reserved beyond its quantity.
\<close>

theorem unreserve_keeps_confirmed:
  assumes "trade_live t h"
  shows "\<exists>h'. unreserveUnconfirmed t h = Some h' \<and>
    (\<forall>s < CONTAINER_SIZE. \<forall>a it. tc_getItem s t = Some a \<longrightarrow> h a = Some it \<longrightarrow>
       h' a = Some (setReserve (tc_getConfirmedStatus s t) it) \<and>
       i_reserve (setReserve (tc_getConfirmedStatus s t) it) \<le> i_quantity it) \<and>
    (\<forall>a. (\<forall>s < CONTAINER_SIZE. tc_getItem s t \<noteq> Some a) \<longrightarrow> h' a = h a)"
proof -
  have "slots t = CONTAINER_SIZE" using assms by (simp add: trade_live_def)
  then have eqs: "\<And>s. s < CONTAINER_SIZE \<Longrightarrow> tc_getItem s t = t_PItem t ! s"
    "\<And>s. s < CONTAINER_SIZE \<Longrightarrow> tc_getConfirmedStatus s t = t_confirmed t ! s"
    by (simp_all add: tc_getItem_def tc_getConfirmedStatus_def)
  obtain h' where "unreserveUnconfirmed t h = Some h'"
    "\<forall>s < CONTAINER_SIZE. \<forall>a it. t_PItem t ! s = Some a \<longrightarrow> h a = Some it \<longrightarrow>
       h' a = Some (setReserve (t_confirmed t ! s) it)"
    "\<forall>a. (\<forall>s < CONTAINER_SIZE. t_PItem t ! s \<noteq> Some a) \<longrightarrow> h' a = h a"
    using unreserve_upto[OF assms le_refl] unfolding unreserveUnconfirmed_def by blast
  then show ?thesis by (intro exI[of _ h']) (simp add: eqs)
qed

definition wit_offer :: trade where
  "wit_offer = tc_setItemFull 0 4096 1 5 (Some 7) tc_Clean"

theorem unreserve_keeps_confirmed_witness:
  "\<exists>h'. unreserveUnconfirmed wit_offer (\<lambda>a. Some (new_item a)) = Some h' \<and> h' 3 = Some (new_item 3)"
proof -
  have items: "t_PItem wit_offer = Some 7 # replicate 16 None"
    by (simp add: wit_offer_def tc_setItemFull_def tc_Clean_def CONTAINER_SIZE_def numeral_eq_Suc)
  have "trade_live wit_offer (\<lambda>a. Some (new_item a))"
    unfolding trade_live_def items by (auto simp: CONTAINER_SIZE_def nth_Cons' split: if_splits)
  from unreserve_keeps_confirmed[OF this] obtain h' where
    h': "unreserveUnconfirmed wit_offer (\<lambda>a. Some (new_item a)) = Some h'"
    "\<forall>a. (\<forall>s < CONTAINER_SIZE. tc_getItem s wit_offer \<noteq> Some a) \<longrightarrow> h' a = Some (new_item a)" by blast
  moreover have "\<forall>s < CONTAINER_SIZE. tc_getItem s wit_offer \<noteq> Some 3"
    by (auto simp: tc_getItem_def items nth_Cons' CONTAINER_SIZE_def)
  ultimately show ?thesis by blast
qed

end
