(* ===== verification/StoreSpec.thy ===== *)
theory StoreSpec
  imports Items
begin

text \<open>
  The contract a client relies on when it puts items into a storage: how many free places it
  reports, what an insertion does while there are some, and what it does when there are none.
  \<open>src/map/utils/charutils.cpp\<close> (\<open>AddItem\<close>) and \<open>src/map/treasure_pool.cpp\<close> are the clients;
  \<open>CItemContainer\<close> provides it.
\<close>

locale item_store =
  fixes ok :: "'c \<Rightarrow> bool"
    and free :: "'c \<Rightarrow> nat"
    and ins :: "item option \<Rightarrow> 'c \<Rightarrow> nat \<times> 'c"
    and items :: "'c \<Rightarrow> item multiset"
  assumes ins_free: "\<And>c it. ok c \<Longrightarrow> 0 < free c \<Longrightarrow>
      fst (ins (Some it) c) \<noteq> 255 \<and> ok (snd (ins (Some it) c)) \<and>
      items (snd (ins (Some it) c)) = add_mset (unplaced it) (items c) \<and>
      free (snd (ins (Some it) c)) = free c - 1"
    and ins_full: "\<And>c p. ok c \<Longrightarrow> free c = 0 \<Longrightarrow> ins p c = (255, c)"
    and ins_null: "\<And>c. ins None c = (255, c)"
begin

lemma ins_ok: "ok c \<Longrightarrow> ok (snd (ins p c))"
  by (cases p; cases "free c") (auto simp: ins_full ins_null dest: ins_free)

lemma ins_succeeds_iff: "ok c \<Longrightarrow> fst (ins (Some it) c) \<noteq> 255 \<longleftrightarrow> 0 < free c"
  using ins_free[of c it] ins_full[of c "Some it"] by (cases "free c") auto

lemma ins_fail_unchanged: "ok c \<Longrightarrow> fst (ins p c) = 255 \<Longrightarrow> snd (ins p c) = c"
  using ins_free[of c "the p"] ins_full[of c p] ins_null[of c]
  by (cases p; cases "free c") auto

text \<open>Inserting a list of items one after another: exactly the first \<open>free\<close> of them stay.\<close>

lemma ins_all:
  assumes "ok c"
  shows "items (fold (\<lambda>it c. snd (ins (Some it) c)) its c) =
    items c + mset (map unplaced (take (free c) its))"
  using assms
proof (induction its arbitrary: c)
  case Nil
  then show ?case by simp
next
  case (Cons it its)
  show ?case
  proof (cases "free c")
    case 0
    with Cons.prems have "snd (ins (Some it) c) = c" by (simp add: ins_full)
    with Cons 0 show ?thesis by simp
  next
    case (Suc n)
    with Cons.prems ins_free[of c it] Cons.IH[of "snd (ins (Some it) c)"] show ?thesis
      by simp
  qed
qed

end

end
