(* ===== verification/ItemContainer.thy ===== *)
theory ItemContainer
  imports StoreSpec
begin

text \<open>
  The item storage of a character, \<open>CItemContainer\<close> of \<open>src/map/item_container.h\<close> and
  \<open>item_container.cpp\<close>.  A container has 121 cells, cell 0 (the gil of the inventory) apart
  from the 120 that are counted; \<open>m_size\<close> is how many cells are usable and \<open>m_count\<close> how many
  of the cells 1 to 120 hold an item, both kept as \<open>uint8\<close> with their wrap-around.
  Moving an item is modelled on a store of containers, because the code moves items within one
  container as well as between two.
\<close>

definition MAX_CONTAINER_SIZE :: nat where "MAX_CONTAINER_SIZE = 120"
definition ERROR_SLOTID :: nat where "ERROR_SLOTID = 255"

record container =
  m_id :: uint16
  m_buff :: uint16
  m_size :: uint8
  m_count :: uint8
  m_ItemList :: "item option list"

definition new_container :: "uint16 \<Rightarrow> container" where
  "new_container loc = \<lparr>m_id = loc, m_buff = 0, m_size = 0, m_count = 0,
     m_ItemList = replicate (MAX_CONTAINER_SIZE + 1) None\<rparr>"

definition cell :: "container \<Rightarrow> nat \<Rightarrow> item option" where
  "cell c s = m_ItemList c ! s"

abbreviation location :: "container \<Rightarrow> nat" where
  "location c \<equiv> unat (ucast (m_id c) :: uint8)"

definition set_cell :: "nat \<Rightarrow> item option \<Rightarrow> container \<Rightarrow> container" where
  "set_cell s v c = c\<lparr>m_ItemList := (m_ItemList c)[s := v]\<rparr>"

section \<open>Sizes\<close>

definition GetFreeSlotsCount :: "container \<Rightarrow> uint8" where
  "GetFreeSlotsCount c = m_size c - m_count c"

definition SetSize :: "uint8 \<Rightarrow> container \<Rightarrow> nat \<times> container" where
  "SetSize sz c =
     (if sz \<le> 120 \<and> m_count c \<le> sz then (unat sz, c\<lparr>m_size := sz\<rparr>)
      else (ERROR_SLOTID, c))"

definition AddSize :: "int \<Rightarrow> container \<Rightarrow> nat \<times> container" where
  "AddSize delta c =
     (let newsize = m_size c + word_of_int delta in
      if newsize \<le> 120 \<and> m_count c \<le> newsize then (unat newsize, c\<lparr>m_size := newsize\<rparr>)
      else (ERROR_SLOTID, c))"

definition AddBuff :: "int \<Rightarrow> container \<Rightarrow> nat \<times> container" where
  "AddBuff buff c =
     (let c' = c\<lparr>m_buff := m_buff c + word_of_int buff\<rparr>
      in SetSize (word_of_int (clamp (uint (m_buff c')) 0 80)) c')"

section \<open>Inserting and removing\<close>

definition first_free_slot :: "container \<Rightarrow> nat option" where
  "first_free_slot c = List.find (\<lambda>s. cell c s = None) [1..<Suc (unat (m_size c))]"

definition InsertItem :: "item option \<Rightarrow> container \<Rightarrow> nat \<times> container" where
  "InsertItem p c =
     (case p of
        None \<Rightarrow> (ERROR_SLOTID, c)
      | Some it \<Rightarrow>
          (case first_free_slot c of
             None \<Rightarrow> (ERROR_SLOTID, c)
           | Some s \<Rightarrow>
               (s, set_cell s (Some (placed s (location c) it)) (c\<lparr>m_count := m_count c + 1\<rparr>))))"

definition InsertItemAt :: "item option \<Rightarrow> nat \<Rightarrow> container \<Rightarrow> (nat \<times> container) option" where
  "InsertItemAt p slot c =
     (if unat (m_size c) < slot then Some (ERROR_SLOTID, c)
      else (case p of
              None \<Rightarrow> None
            | Some it \<Rightarrow>
                Some (slot, set_cell slot (Some (placed slot (location c) it))
                  (if cell c slot = None \<and> slot \<noteq> 0 then c\<lparr>m_count := m_count c + 1\<rparr> else c))))"

definition RemoveItem :: "nat \<Rightarrow> container \<Rightarrow> item option \<times> container" where
  "RemoveItem slot c =
     (if unat (m_size c) < slot then (None, c)
      else (cell c slot, set_cell slot None
             (if cell c slot \<noteq> None \<and> slot \<noteq> 0 then c\<lparr>m_count := m_count c - 1\<rparr> else c)))"

definition MoveItemTo ::
  "nat \<Rightarrow> nat \<Rightarrow> nat \<Rightarrow> nat option \<Rightarrow> (nat \<Rightarrow> container) \<Rightarrow> (nat \<times> (nat \<Rightarrow> container)) option" where
  "MoveItemTo fromSlot src dst dstSlot st =
     (if (case dstSlot of
            Some d \<Rightarrow> unat (m_size (st dst)) < d \<or> cell (st dst) d \<noteq> None
          | None \<Rightarrow> GetFreeSlotsCount (st dst) = 0)
      then Some (ERROR_SLOTID, st)
      else
        (let (p, c) = RemoveItem fromSlot (st src); st1 = st(src := c) in
         if p = None then Some (ERROR_SLOTID, st1)
         else (case dstSlot of
                 Some d \<Rightarrow> map_option (\<lambda>(r, c'). (r, st1(dst := c'))) (InsertItemAt p d (st1 dst))
               | None \<Rightarrow> (let (r, c') = InsertItem p (st1 dst) in Some (r, st1(dst := c'))))))"

section \<open>Searching and clearing\<close>

definition GetItem :: "nat \<Rightarrow> container \<Rightarrow> item option" where
  "GetItem slot c = (if slot \<le> unat (m_size c) then cell c slot else None)"

definition holds_id :: "nat \<Rightarrow> item option \<Rightarrow> bool" where
  "holds_id ident p = (case p of None \<Rightarrow> False | Some it \<Rightarrow> i_id it = ident)"

definition SearchItem :: "nat \<Rightarrow> container \<Rightarrow> nat" where
  "SearchItem ident c =
     (case List.find (\<lambda>s. holds_id ident (cell c s)) [0..<Suc (unat (m_size c))] of
        Some s \<Rightarrow> s | None \<Rightarrow> ERROR_SLOTID)"

definition SearchItems :: "nat \<Rightarrow> container \<Rightarrow> nat list" where
  "SearchItems ident c = filter (\<lambda>s. holds_id ident (cell c s)) [0..<Suc (unat (m_size c))]"

definition SearchItemWithSpace :: "nat \<Rightarrow> uint32 \<Rightarrow> container \<Rightarrow> nat" where
  "SearchItemWithSpace ident quantity c =
     (case List.find (\<lambda>s. case cell c s of None \<Rightarrow> False
                        | Some it \<Rightarrow> i_id it = ident \<and> i_quantity it \<le> i_stackSize it - quantity)
        [0..<Suc (unat (m_size c))] of
        Some s \<Rightarrow> s | None \<Rightarrow> ERROR_SLOTID)"

definition Clear :: "container \<Rightarrow> container" where
  "Clear c = c\<lparr>m_ItemList :=
     replicate (Suc (unat (m_size c))) None @ drop (Suc (unat (m_size c))) (m_ItemList c)\<rparr>"

definition ForEachItem :: "(item \<Rightarrow> 's \<Rightarrow> 's) \<Rightarrow> container \<Rightarrow> 's \<Rightarrow> 's" where
  "ForEachItem f c s0 =
     fold (\<lambda>s acc. case cell c s of None \<Rightarrow> acc | Some it \<Rightarrow> f it acc)
       [0..<Suc (unat (m_size c))] s0"

section \<open>The invariant\<close>

definition occupied :: "container \<Rightarrow> nat set" where
  "occupied c = {s \<in> {1..120}. cell c s \<noteq> None}"

definition wf_container :: "container \<Rightarrow> bool" where
  "wf_container c \<longleftrightarrow> length (m_ItemList c) = 121 \<and> m_size c \<le> 120 \<and>
     unat (m_count c) = card (occupied c)"

text \<open>No item lies beyond the usable size.\<close>

definition tight :: "container \<Rightarrow> bool" where
  "tight c \<longleftrightarrow> (\<forall>s. unat (m_size c) < s \<and> s \<le> 120 \<longrightarrow> cell c s = None)"

definition contents :: "container \<Rightarrow> item multiset" where
  "contents c = image_mset (unplaced \<circ> the) (filter_mset (\<lambda>p. p \<noteq> None) (mset (m_ItemList c)))"

lemma size_le_120: "(m_size c \<le> 120) = (unat (m_size c) \<le> 120)"
  by (simp add: word_le_nat_alt)

lemma wf_sizeD: "wf_container c \<Longrightarrow> unat (m_size c) \<le> 120"
  by (simp add: wf_container_def size_le_120)

lemma finite_occupied [simp]: "finite (occupied c)"
  by (simp add: occupied_def)

lemma card_occupied_le: "card (occupied c) \<le> 120"
proof -
  have "card (occupied c) \<le> card {1..120::nat}"
    by (rule card_mono) (auto simp: occupied_def)
  then show ?thesis by simp
qed

lemma set_cell_simps [simp]:
  "m_size (set_cell s v c) = m_size c"
  "m_count (set_cell s v c) = m_count c"
  "m_id (set_cell s v c) = m_id c"
  "length (m_ItemList (set_cell s v c)) = length (m_ItemList c)"
  by (simp_all add: set_cell_def)

lemma cell_set_cell:
  "s < length (m_ItemList c) \<Longrightarrow> cell (set_cell s v c) t = (if t = s then v else cell c t)"
  by (simp add: cell_def set_cell_def nth_list_update)

lemma set_cell_same: "set_cell s (cell c s) c = c"
  by (simp add: set_cell_def cell_def)

lemma cell_m_count [simp]: "cell (c\<lparr>m_count := n\<rparr>) s = cell c s"
  by (simp add: cell_def)

lemma cell_m_size [simp]: "cell (c\<lparr>m_size := n\<rparr>) s = cell c s"
  by (simp add: cell_def)

lemma cell_m_buff [simp]: "cell (c\<lparr>m_buff := n\<rparr>) s = cell c s"
  by (simp add: cell_def)

lemma occupied_updates [simp]:
  "occupied (c\<lparr>m_count := n\<rparr>) = occupied c"
  "occupied (c\<lparr>m_size := k\<rparr>) = occupied c"
  "occupied (c\<lparr>m_buff := b\<rparr>) = occupied c"
  by (simp_all add: occupied_def)

lemma contents_updates [simp]:
  "contents (c\<lparr>m_count := n\<rparr>) = contents c"
  "contents (c\<lparr>m_size := k\<rparr>) = contents c"
  "contents (c\<lparr>m_buff := b\<rparr>) = contents c"
  by (simp_all add: contents_def)

lemma occupied_set_cell:
  assumes "s < length (m_ItemList c)"
  shows "occupied (set_cell s v c) =
    (if v \<noteq> None \<and> 1 \<le> s \<and> s \<le> 120 then insert s (occupied c) else occupied c - {s} \<union>
      (if v \<noteq> None \<and> s \<in> occupied c then {s} else {}))"
  using assms by (auto simp: occupied_def cell_set_cell)

lemma occupied_same:
  assumes "s < length (m_ItemList c)" "s = 0 \<or> (cell c s = None \<longleftrightarrow> v = None)"
  shows "occupied (set_cell s v c) = occupied c"
  using assms by (auto simp: occupied_def cell_set_cell)

lemma contents_set_cell_Some:
  assumes "s < length (m_ItemList c)" "cell c s = None"
  shows "contents (set_cell s (Some it) c) = add_mset (unplaced it) (contents c)"
  using assms by (simp add: contents_def set_cell_def cell_def mset_update)

lemma contents_set_cell_None:
  assumes "s < length (m_ItemList c)" "cell c s = Some it"
  shows "contents c = add_mset (unplaced it) (contents (set_cell s None c))"
proof -
  have "Some it \<in># mset (m_ItemList c)"
    using assms by (auto simp: cell_def in_set_conv_nth intro!: exI[of _ s])
  then obtain M where M: "mset (m_ItemList c) = add_mset (Some it) M"
    by (meson mset_add)
  with assms show ?thesis
    by (simp add: contents_def set_cell_def cell_def mset_update)
qed

lemma first_free_Some:
  "first_free_slot c = Some s \<Longrightarrow> 1 \<le> s \<and> s \<le> unat (m_size c) \<and> cell c s = None \<and>
     (\<forall>t. 1 \<le> t \<and> t < s \<longrightarrow> cell c t \<noteq> None)"
  by (auto simp: first_free_slot_def simp del: upt_Suc dest!: find_Some_upt)

lemma first_free_None:
  "first_free_slot c = None \<longleftrightarrow> (\<forall>t. 1 \<le> t \<and> t \<le> unat (m_size c) \<longrightarrow> cell c t \<noteq> None)"
  by (auto simp: first_free_slot_def find_None_upt less_Suc_eq_le simp del: upt_Suc)

section \<open>What each operation does\<close>

lemma wf_cell_updates:
  assumes "wf_container c" "s \<le> 120"
  shows "wf_container (set_cell s v c) \<longleftrightarrow> unat (m_count c) = card (occupied (set_cell s v c))"
  using assms by (auto simp: wf_container_def)

lemma wf_fill:
  assumes wf: "wf_container c" and s: "1 \<le> s" "s \<le> 120" "cell c s = None"
  shows "wf_container (set_cell s (Some it) (c\<lparr>m_count := m_count c + 1\<rparr>))"
proof -
  have notin: "s \<notin> occupied c" using s by (simp add: occupied_def)
  have "occupied c \<subseteq> {1..120} - {s}" using notin by (auto simp: occupied_def)
  then have "card (occupied c) \<le> 119"
    using card_mono[of "{1..120} - {s}" "occupied c"] s by simp
  with wf have "unat (m_count c) < 255" by (simp add: wf_container_def)
  then have "unat (m_count c + 1) = Suc (card (occupied c))"
    using wf by (simp add: unat_inc8 wf_container_def)
  with wf s notin show ?thesis
    by (simp add: wf_container_def occupied_set_cell)
qed

lemma wf_overwrite:
  assumes wf: "wf_container c" and s: "s \<le> 120" and occ: "s = 0 \<or> cell c s \<noteq> None"
  shows "wf_container (set_cell s (Some it) c)"
  using assms occupied_same[of s c "Some it"] by (auto simp: wf_container_def)

lemma wf_empty_cell:
  assumes wf: "wf_container c" and s: "1 \<le> s" "s \<le> 120" "cell c s = Some it"
  shows "wf_container (set_cell s None (c\<lparr>m_count := m_count c - 1\<rparr>))"
proof -
  have mem: "s \<in> occupied c" using s by (simp add: occupied_def)
  then have "0 < card (occupied c)" by (auto simp: card_gt_0_iff)
  with wf have "unat (m_count c - 1) = card (occupied c) - 1"
    by (simp add: unat_dec8 wf_container_def)
  with wf s mem show ?thesis
    by (simp add: wf_container_def occupied_set_cell)
qed

lemma wf_clear_cell:
  assumes wf: "wf_container c" and s: "s \<le> 120" "s = 0 \<or> cell c s = None"
  shows "wf_container (set_cell s None c)"
  using assms occupied_same[of s c None] by (auto simp: wf_container_def)

lemma wf_SetSize [wf_intros]: "wf_container c \<Longrightarrow> wf_container (snd (SetSize sz c))"
  by (simp add: SetSize_def wf_container_def)

lemma wf_AddSize [wf_intros]: "wf_container c \<Longrightarrow> wf_container (snd (AddSize d c))"
  by (simp add: AddSize_def wf_container_def Let_def)

lemma wf_AddBuff [wf_intros]: "wf_container c \<Longrightarrow> wf_container (snd (AddBuff b c))"
  unfolding AddBuff_def Let_def by (rule wf_SetSize) (simp add: wf_container_def)

lemma wf_InsertItem [wf_intros]:
  assumes "wf_container c"
  shows "wf_container (snd (InsertItem p c))"
proof (cases "first_free_slot c")
  case None
  with assms show ?thesis by (cases p) (simp_all add: InsertItem_def)
next
  case (Some s)
  with first_free_Some[OF Some] wf_sizeD[OF assms] have "1 \<le> s" "s \<le> 120" "cell c s = None"
    by auto
  with assms Some show ?thesis by (cases p) (simp_all add: InsertItem_def wf_fill)
qed

lemma wf_InsertItemAt:
  assumes "wf_container c" "InsertItemAt p s c = Some (r, c')"
  shows "wf_container c'"
  using assms wf_sizeD[of c] wf_fill[of c s] wf_overwrite[of c s]
  by (auto simp: InsertItemAt_def split: if_splits option.splits)

lemma wf_RemoveItem [wf_intros]:
  assumes "wf_container c"
  shows "wf_container (snd (RemoveItem s c))"
  using assms wf_sizeD[of c] wf_empty_cell[of c s] wf_clear_cell[of c s]
  by (auto simp: RemoveItem_def)

lemma m_size_ops [simp]:
  "m_size (snd (InsertItem p c)) = m_size c"
  "m_size (snd (RemoveItem s c)) = m_size c"
  by (auto simp: InsertItem_def RemoveItem_def split: option.splits)

lemma cell_InsertItem:
  assumes "wf_container c" "unat (m_size c) < t"
  shows "cell (snd (InsertItem p c)) t = cell c t"
  using assms first_free_Some[of c] wf_sizeD[of c]
  by (auto simp: InsertItem_def cell_set_cell wf_container_def split: option.splits)

lemma cell_RemoveItem:
  assumes "wf_container c" "s \<le> unat (m_size c)"
  shows "cell (snd (RemoveItem s c)) t = (if t = s then None else cell c t)"
  using assms wf_sizeD[of c] by (auto simp: RemoveItem_def cell_set_cell wf_container_def)

lemma tight_InsertItem: "wf_container c \<Longrightarrow> tight c \<Longrightarrow> tight (snd (InsertItem p c))"
  by (simp add: tight_def cell_InsertItem)

lemma tight_RemoveItem: "wf_container c \<Longrightarrow> tight c \<Longrightarrow> tight (snd (RemoveItem s c))"
  by (cases "s \<le> unat (m_size c)") (simp_all add: tight_def cell_RemoveItem, simp add: RemoveItem_def)

lemma contents_RemoveItem:
  assumes "wf_container c" "RemoveItem s c = (p, c')"
  shows "contents c = (case p of None \<Rightarrow> {#} | Some it \<Rightarrow> {#unplaced it#}) + contents c'"
proof (cases "unat (m_size c) < s")
  case True
  with assms show ?thesis by (auto simp: RemoveItem_def)
next
  case False
  with assms have len: "s < length (m_ItemList c)" using wf_sizeD[of c] by (simp add: wf_container_def)
  show ?thesis
  proof (cases "cell c s")
    case None
    with set_cell_same[of s c] have "set_cell s None c = c" by simp
    with None assms False show ?thesis by (auto simp: RemoveItem_def)
  next
    case (Some it)
    have "contents (set_cell s None (c\<lparr>m_count := n\<rparr>)) = contents (set_cell s None c)" for n
      by (simp add: contents_def set_cell_def)
    then have "contents c' = contents (set_cell s None c)" "p = Some it"
      using Some assms False by (auto simp: RemoveItem_def)
    with contents_set_cell_None[OF len Some] show ?thesis by simp
  qed
qed

text \<open>In a tight container the reported number of free slots is the number of empty cells.\<close>

lemma occupied_tight:
  assumes "tight c" "wf_container c"
  shows "occupied c = {s \<in> {1..unat (m_size c)}. cell c s \<noteq> None}"
proof -
  have "s \<le> unat (m_size c)" if "cell c s \<noteq> None" "s \<le> 120" for s
    using that assms(1) unfolding tight_def by (meson not_le)
  then show ?thesis
    using wf_sizeD[OF assms(2)] unfolding occupied_def by (intro Collect_cong) auto
qed

lemma free_slots_tight:
  assumes wf: "wf_container c" and t: "tight c"
  shows "unat (GetFreeSlotsCount c) = card {s \<in> {1..unat (m_size c)}. cell c s = None}"
proof -
  let ?n = "unat (m_size c)"
  let ?E = "{s \<in> {1..?n}. cell c s = None}"
  have occ: "occupied c = {s \<in> {1..?n}. cell c s \<noteq> None}"
    by (rule occupied_tight[OF t wf])
  have "{1..?n} = ?E \<union> occupied c" unfolding occ by blast
  then have "?n = card (?E \<union> occupied c)" by (metis card_atLeastAtMost diff_Suc_1)
  also have "\<dots> = card ?E + card (occupied c)"
    by (rule card_Un_disjoint) (auto simp: occupied_def)
  finally have "?n = card ?E + unat (m_count c)" using wf by (simp add: wf_container_def)
  then show ?thesis by (simp add: GetFreeSlotsCount_def unat_minus8)
qed

lemma free_slots_zero_iff:
  assumes "wf_container c" "tight c"
  shows "GetFreeSlotsCount c = 0 \<longleftrightarrow> first_free_slot c = None"
proof -
  have "GetFreeSlotsCount c = 0 \<longleftrightarrow> unat (GetFreeSlotsCount c) = 0" by (simp add: unat_eq_0)
  then show ?thesis using free_slots_tight[OF assms] by (auto simp: first_free_None)
qed

section \<open>The storage contract\<close>

definition store_ok :: "container \<Rightarrow> bool" where
  "store_ok c \<longleftrightarrow> wf_container c \<and> tight c"

lemma InsertItem_fills:
  assumes ok: "store_ok c" and f: "first_free_slot c = Some s"
  shows "fst (InsertItem (Some it) c) = s" "s \<noteq> ERROR_SLOTID"
    "contents (snd (InsertItem (Some it) c)) = add_mset (unplaced it) (contents c)"
    "cell (snd (InsertItem (Some it) c)) t =
      (if t = s then Some (placed s (location c) it) else cell c t)"
proof -
  have s: "1 \<le> s" "s \<le> 120" "cell c s = None"
    using first_free_Some[OF f] wf_sizeD[of c] ok by (auto simp: store_ok_def)
  have len: "s < length (m_ItemList c)" using s ok by (simp add: store_ok_def wf_container_def)
  show "fst (InsertItem (Some it) c) = s" by (simp add: InsertItem_def f)
  show "s \<noteq> ERROR_SLOTID" using s by (simp add: ERROR_SLOTID_def)
  have "contents (set_cell s v (c\<lparr>m_count := n\<rparr>)) = contents (set_cell s v c)" for v n
    by (simp add: contents_def set_cell_def)
  with contents_set_cell_Some[OF len s(3)]
  show "contents (snd (InsertItem (Some it) c)) = add_mset (unplaced it) (contents c)"
    by (simp add: InsertItem_def f)
  show "cell (snd (InsertItem (Some it) c)) t =
      (if t = s then Some (placed s (location c) it) else cell c t)"
    using len by (simp add: InsertItem_def f cell_set_cell)
qed

lemma store_ok_InsertItem [wf_intros]: "store_ok c \<Longrightarrow> store_ok (snd (InsertItem p c))"
  by (simp add: store_ok_def wf_InsertItem tight_InsertItem)

lemma store_ok_RemoveItem [wf_intros]: "store_ok c \<Longrightarrow> store_ok (snd (RemoveItem s c))"
  by (simp add: store_ok_def wf_RemoveItem tight_RemoveItem)

lemma InsertItem_uses_one:
  assumes ok: "store_ok c" and f: "first_free_slot c = Some s"
  shows "unat (GetFreeSlotsCount (snd (InsertItem (Some it) c))) = unat (GetFreeSlotsCount c) - 1"
proof -
  let ?c' = "snd (InsertItem (Some it) c)"
  have s: "1 \<le> s \<and> s \<le> unat (m_size c) \<and> cell c s = None" using first_free_Some[OF f] by simp
  have "{t \<in> {1..unat (m_size ?c')}. cell ?c' t = None} =
      {t \<in> {1..unat (m_size c)}. cell c t = None} - {s}"
    using InsertItem_fills(4)[OF ok f, of it] by auto
  then show ?thesis
    using s ok free_slots_tight[of ?c'] free_slots_tight[of c]
      store_ok_InsertItem[OF ok, of "Some it"]
    by (simp add: store_ok_def)
qed

interpretation containers: item_store store_ok "\<lambda>c. unat (GetFreeSlotsCount c)" InsertItem contents
proof
  fix c it
  assume ok: "store_ok c"
  assume "0 < unat (GetFreeSlotsCount c)"
  then have "first_free_slot c \<noteq> None"
    using free_slots_zero_iff[of c] ok by (auto simp: store_ok_def)
  then obtain s where f: "first_free_slot c = Some s" by blast
  show "fst (InsertItem (Some it) c) \<noteq> 255 \<and> store_ok (snd (InsertItem (Some it) c)) \<and>
      contents (snd (InsertItem (Some it) c)) = add_mset (unplaced it) (contents c) \<and>
      unat (GetFreeSlotsCount (snd (InsertItem (Some it) c))) = unat (GetFreeSlotsCount c) - 1"
    using InsertItem_fills(1,3)[OF ok f, of it] InsertItem_fills(2)[OF ok f] InsertItem_uses_one[OF ok f] store_ok_InsertItem[OF ok]
    by (simp add: ERROR_SLOTID_def)
next
  fix c p
  assume ok: "store_ok c" and "unat (GetFreeSlotsCount c) = 0"
  then have "first_free_slot c = None"
    using free_slots_zero_iff[of c] ok by (simp add: store_ok_def unat_eq_0)
  then show "InsertItem p c = (255, c)"
    by (cases p) (simp_all add: InsertItem_def ERROR_SLOTID_def)
qed (simp add: InsertItem_def ERROR_SLOTID_def)

section \<open>Moving an item\<close>

lemma first_free_RemoveItem:
  assumes "wf_container c" "first_free_slot c \<noteq> None"
  shows "first_free_slot (snd (RemoveItem s c)) \<noteq> None"
proof (cases "s \<le> unat (m_size c)")
  case True
  with assms show ?thesis
    by (auto simp: first_free_None cell_RemoveItem)
next
  case False
  with assms show ?thesis by (simp add: RemoveItem_def)
qed

lemma InsertItemAt_empty:
  assumes ok: "store_ok c" and d: "d \<le> unat (m_size c)" "cell c d = None"
  shows "\<exists>c'. InsertItemAt (Some it) d c = Some (d, c') \<and> store_ok c' \<and>
    contents c' = add_mset (unplaced it) (contents c) \<and>
    cell c' d = Some (placed d (location c) it)"
proof -
  have len: "d < length (m_ItemList c)"
    using d(1) ok wf_sizeD[of c] by (auto simp: store_ok_def wf_container_def)
  obtain r c' where r: "InsertItemAt (Some it) d c = Some (r, c')"
    using d by (simp add: InsertItemAt_def)
  have "wf_container c'" using r ok wf_InsertItemAt unfolding store_ok_def by blast
  moreover have "cell c' t = (if t = d then Some (placed d (location c) it) else cell c t)" for t
    using r d len by (auto simp: InsertItemAt_def cell_set_cell)
  moreover have "m_size c' = m_size c" using r d by (auto simp: InsertItemAt_def)
  moreover have "contents (set_cell d v (c\<lparr>m_count := n\<rparr>)) = contents (set_cell d v c)" for v n
    by (simp add: contents_def set_cell_def)
  then have "contents c' = contents (set_cell d (Some (placed d (location c) it)) c)"
    using r d by (auto simp: InsertItemAt_def)
  ultimately show ?thesis
    using r d ok contents_set_cell_Some[OF len d(2)]
    by (auto simp: InsertItemAt_def store_ok_def tight_def)
qed

text \<open>
  What a move leaves behind, put together from the two steps: after the removal the source is
  the old one without the item, and the destination (the same container or another) still has
  the place that the guard saw.
\<close>

definition total_contents :: "nat \<Rightarrow> nat \<Rightarrow> (nat \<Rightarrow> container) \<Rightarrow> item multiset" where
  "total_contents src dst st =
     (if src = dst then contents (st src) else contents (st src) + contents (st dst))"

lemma total_contents_upd_dst:
  assumes "contents c' = add_mset x (contents (st dst))"
  shows "total_contents src dst (st(dst := c')) = add_mset x (total_contents src dst st)"
  using assms by (simp add: total_contents_def)

lemma total_contents_upd_src:
  assumes "contents (st src) = add_mset x (contents c')"
  shows "add_mset x (total_contents src dst (st(src := c'))) = total_contents src dst st"
  using assms by (auto simp: total_contents_def)

lemma RemoveItem_None_same:
  assumes "wf_container c" "RemoveItem s c = (None, c')"
  shows "c' = c"
proof (cases "unat (m_size c) < s")
  case True
  with assms show ?thesis by (simp add: RemoveItem_def)
next
  case False
  with assms have "cell c s = None" "c' = set_cell s None c"
    by (auto simp: RemoveItem_def split: if_splits)
  with set_cell_same[of s c] show ?thesis by simp
qed

lemma MoveItemTo_insert_step:
  assumes ok: "store_ok c"
    and room: "case d of Some k \<Rightarrow> k \<le> unat (m_size c) \<and> cell c k = None
                 | None \<Rightarrow> first_free_slot c \<noteq> None"
  shows "\<exists>r c'. (case d of Some k \<Rightarrow> InsertItemAt (Some it) k c
                   | None \<Rightarrow> Some (InsertItem (Some it) c)) = Some (r, c') \<and>
     r \<noteq> ERROR_SLOTID \<and> store_ok c' \<and> contents c' = add_mset (unplaced it) (contents c) \<and>
     cell c' r = Some (placed r (location c) it)"
proof (cases d)
  case None
  with room obtain s where f: "first_free_slot c = Some s" by auto
  show ?thesis
    using None InsertItem_fills(1,3,4)[OF ok f, of it] InsertItem_fills(2)[OF ok f]
      store_ok_InsertItem[OF ok, of "Some it"]
    by (cases "InsertItem (Some it) c") auto
next
  case (Some k)
  with room have k: "k \<le> unat (m_size c)" "cell c k = None" by auto
  moreover have "k \<noteq> ERROR_SLOTID"
    using k(1) ok wf_sizeD[of c] by (auto simp: store_ok_def ERROR_SLOTID_def)
  ultimately show ?thesis using Some InsertItemAt_empty[OF ok k, of it] by auto
qed

lemma MoveItemTo_room:
  assumes ok: "store_ok (st src)" "store_ok (st dst)"
    and guard: "\<not> (case d of Some k \<Rightarrow> unat (m_size (st dst)) < k \<or> cell (st dst) k \<noteq> None
                     | None \<Rightarrow> GetFreeSlotsCount (st dst) = 0)"
    and rem: "RemoveItem f (st src) = (p, c)"
  shows "case d of Some k \<Rightarrow> k \<le> unat (m_size ((st(src := c)) dst)) \<and> cell ((st(src := c)) dst) k = None
           | None \<Rightarrow> first_free_slot ((st(src := c)) dst) \<noteq> None"
proof -
  have c: "c = snd (RemoveItem f (st src))" using rem by simp
  have keep: "cell c k = None" if "cell (st src) k = None" for k
    using that ok(1) cell_RemoveItem[of "st src" f k]
    by (cases "f \<le> unat (m_size (st src))") (auto simp: c store_ok_def RemoveItem_def)
  have "first_free_slot (st dst) \<noteq> None" if "d = None"
    using that guard ok(2) free_slots_zero_iff[of "st dst"] by (simp add: store_ok_def)
  then show ?thesis
    using guard keep ok first_free_RemoveItem[of "st dst" f]
    by (auto simp: c store_ok_def split: option.splits)
qed

section \<open>Properties\<close>

lemma wf_Clear_iff:
  assumes "wf_container c"
  shows "wf_container (Clear c) \<longleftrightarrow> (\<forall>s. 1 \<le> s \<and> s \<le> unat (m_size c) \<longrightarrow> cell c s = None)"
proof -
  have sz: "unat (m_size c) \<le> 120" "length (m_ItemList c) = 121" "unat (m_count c) = card (occupied c)"
    using assms wf_sizeD[OF assms] by (simp_all add: wf_container_def)
  have cells: "cell (Clear c) s = (if s \<le> unat (m_size c) then None else cell c s)" if "s \<le> 120" for s
    using that sz by (simp add: Clear_def cell_def nth_append nth_replicate del: replicate_Suc)
  then have occ: "occupied (Clear c) = {s \<in> occupied c. unat (m_size c) < s}"
    by (auto simp: occupied_def split: if_splits)
  then have sub: "occupied (Clear c) \<subseteq> occupied c" by blast
  have "wf_container (Clear c) \<longleftrightarrow> card (occupied (Clear c)) = card (occupied c)"
    using sz assms by (auto simp: wf_container_def Clear_def)
  also have "\<dots> \<longleftrightarrow> occupied (Clear c) = occupied c"
    using card_subset_eq[OF finite_occupied sub] by metis
  also have "\<dots> \<longleftrightarrow> (\<forall>s. 1 \<le> s \<and> s \<le> unat (m_size c) \<longrightarrow> cell c s = None)"
  proof -
    have "occupied (Clear c) = occupied c \<longleftrightarrow> (\<forall>s \<in> occupied c. unat (m_size c) < s)" unfolding occ by blast
    also have "\<dots> \<longleftrightarrow> (\<forall>s. 1 \<le> s \<and> s \<le> unat (m_size c) \<longrightarrow> cell c s = None)"
      using sz(1) order_trans[of _ "unat (m_size c)" 120] unfolding occupied_def by (metis (lifting) atLeastAtMost_iff linorder_not_le mem_Collect_eq)
    finally show ?thesis .
  qed
  finally show ?thesis .
qed

text \<open>
  C27: the container's invariant (121 cells, a usable size of at most 120 and an item count equal
  to the number of occupied cells 1 to 120) under each of its operations.  Setting and adding to the size,
  the buff, both ways to insert, and removing keep it in every well-formed container; \<open>Clear\<close>, which
  empties the cells but not the count, keeps it exactly when there was nothing to clear.
\<close>

theorem container_invariant:
  assumes "wf_container c"
  shows "wf_container (snd (SetSize sz c)) \<and> wf_container (snd (AddSize d c)) \<and>
    wf_container (snd (AddBuff b c)) \<and> wf_container (snd (InsertItem p c)) \<and>
    wf_container (snd (RemoveItem s c)) \<and>
    (\<forall>r c'. InsertItemAt p s c = Some (r, c') \<longrightarrow> wf_container c') \<and>
    (wf_container (Clear c) \<longleftrightarrow> (\<forall>t. 1 \<le> t \<and> t \<le> unat (m_size c) \<longrightarrow> cell c t = None))"
  using assms by (auto intro: wf_intros wf_InsertItemAt simp: wf_Clear_iff)

definition wit_item :: item where
  "wit_item = (new_item 4096)\<lparr>i_stackSize := 12, i_quantity := 3\<rparr>"

definition wit_container :: container where
  "wit_container = snd (InsertItem (Some wit_item) (snd (SetSize 2 (new_container 0))))"

lemma wf_new_container: "wf_container (new_container l)"
proof -
  have "occupied (new_container l) = {}"
    by (auto simp: occupied_def cell_def new_container_def MAX_CONTAINER_SIZE_def nth_replicate)
  then show ?thesis by (simp add: wf_container_def new_container_def MAX_CONTAINER_SIZE_def)
qed

lemma tight_new_container: "tight (snd (SetSize sz (new_container l)))"
  by (auto simp: tight_def SetSize_def new_container_def cell_def MAX_CONTAINER_SIZE_def nth_replicate)

lemma store_ok_new_container: "store_ok (snd (SetSize sz (new_container l)))"
  unfolding store_ok_def by (intro conjI wf_SetSize wf_new_container tight_new_container)

theorem container_invariant_witness:
  "wf_container (snd (InsertItem (Some wit_item) wit_container))"
proof -
  have "wf_container wit_container"
    unfolding wit_container_def by (intro wf_InsertItem wf_SetSize wf_new_container)
  from container_invariant[OF this, where p = "Some wit_item"] show ?thesis by simp
qed

lemma move_conserves:
  assumes ok: "\<And>l. store_ok (st l)"
  shows "\<exists>r st'. MoveItemTo f src dst d st = Some (r, st') \<and> (\<forall>l. store_ok (st' l)) \<and>
    total_contents src dst st' = total_contents src dst st \<and>
    (r = ERROR_SLOTID \<longrightarrow> st' = st) \<and>
    (r \<noteq> ERROR_SLOTID \<longrightarrow> (\<exists>it. cell (st src) f = Some it \<and>
        cell (st' dst) r = Some (placed r (location (st dst)) it)))"
proof -
  let ?blocked = "case d of Some k \<Rightarrow> unat (m_size (st dst)) < k \<or> cell (st dst) k \<noteq> None
                     | None \<Rightarrow> GetFreeSlotsCount (st dst) = 0"
  obtain p c where rem: "RemoveItem f (st src) = (p, c)" by fastforce
  let ?st1 = "st(src := c)"
  have okc: "store_ok c" using store_ok_RemoveItem[OF ok, of f src] rem by simp
  consider "?blocked" | "\<not> ?blocked" "p = None" | it where "\<not> ?blocked" "p = Some it" by blast
  then show ?thesis
  proof cases
    case 1
    then show ?thesis using ok by (auto simp: MoveItemTo_def)
  next
    case 2
    then have "c = st src" using RemoveItem_None_same rem ok unfolding store_ok_def by blast
    with 2 rem ok show ?thesis by (simp add: MoveItemTo_def fun_upd_triv del: fun_upd_apply)
  next
    case (3 it)
    have ok1: "store_ok (?st1 dst)" using ok okc by simp
    note room = MoveItemTo_room[where st = st and d = d, OF ok ok 3(1) rem]
    from MoveItemTo_insert_step[OF ok1 room, of it] obtain r c' where ins:
      "(case d of Some k \<Rightarrow> InsertItemAt (Some it) k (?st1 dst)
          | None \<Rightarrow> Some (InsertItem (Some it) (?st1 dst))) = Some (r, c')"
      and r: "r \<noteq> ERROR_SLOTID" "store_ok c'"
        "contents c' = add_mset (unplaced it) (contents (?st1 dst))"
        "cell c' r = Some (placed r (location (?st1 dst)) it)" by blast
    have res: "MoveItemTo f src dst d st = Some (r, ?st1(dst := c'))"
      using 3 rem ins by (auto simp: MoveItemTo_def Let_def split: option.splits prod.splits)
    have rm: "contents (st src) = add_mset (unplaced it) (contents c)"
      using contents_RemoveItem[OF _ rem] ok 3(2) by (simp add: store_ok_def)
    have "location c = location (st src)" using rem by (auto simp: RemoveItem_def split: if_splits)
    moreover have "cell (st src) f = Some it" using rem 3(2) by (auto simp: RemoveItem_def split: if_splits)
    moreover have "total_contents src dst (?st1(dst := c')) = total_contents src dst st"
      using total_contents_upd_dst[of c' _ ?st1 dst, OF r(3)] total_contents_upd_src[of st src, OF rm]
      by metis
    ultimately show ?thesis using res r ok okc by (auto simp: fun_upd_apply)
  qed
qed

lemma move_frame:
  "MoveItemTo f src dst d st = Some (r, st') \<Longrightarrow> l \<noteq> src \<Longrightarrow> l \<noteq> dst \<Longrightarrow> st' l = st l"
  by (auto simp: MoveItemTo_def Let_def split: option.splits prod.splits if_splits)

text \<open>
  C7: among well-formed containers in which no item lies beyond the usable size (\<open>store_ok\<close>),
  moving an item, within a container or between two, never loses or duplicates one.  A move
  always returns; the two containers together hold the same items as before; when it reports the
  error slot nothing has changed, and otherwise the item that was in the source slot sits in the
  destination, stamped with its new place.  (Outside \<open>store_ok\<close> an item can be lost, see
  \<open>MoveItemTo_loses_after_shrink\<close>.)
\<close>

theorem MoveItemTo_conserves:
  assumes ok: "\<And>l. store_ok (st l)"
  shows "\<exists>r st'. MoveItemTo f src dst d st = Some (r, st') \<and> (\<forall>l. store_ok (st' l)) \<and>
    total_contents src dst st' = total_contents src dst st \<and>
    (r = ERROR_SLOTID \<longrightarrow> st' = st) \<and>
    (r \<noteq> ERROR_SLOTID \<longrightarrow> (\<exists>it. cell (st src) f = Some it \<and>
        cell (st' dst) r = Some (placed r (location (st dst)) it)))"
  by (rule move_conserves[OF assms])

definition wit_store :: "nat \<Rightarrow> container" where
  "wit_store l = (if l = 0 then wit_container else snd (SetSize 5 (new_container (of_nat l))))"

theorem MoveItemTo_conserves_witness:
  "\<exists>r st'. MoveItemTo 1 0 1 None wit_store = Some (r, st') \<and>
     total_contents 0 1 st' = total_contents 0 1 wit_store"
proof -
  have "store_ok (wit_store l)" for l
    by (simp add: wit_store_def wit_container_def store_ok_InsertItem store_ok_new_container)
  from MoveItemTo_conserves[where st = wit_store, OF this] show ?thesis by blast
qed

text \<open>
  The precondition of the previous property cannot be dropped.  A container that was shrunk
  below an occupied cell and then filled through an explicit slot counts more items than its
  size, its free count wraps to 255, and a move into it without a slot destroys the item: the
  move reports the error slot although the item has left the source and reached nothing.
\<close>

definition shrink_steps :: "container \<Rightarrow> container" where
  "shrink_steps c0 =
     (let c1 = snd (the (InsertItemAt (Some wit_item) 2 (snd (SetSize 3 c0))));
          c2 = snd (the (InsertItemAt (Some wit_item) 3 c1))
      in snd (the (InsertItemAt (Some wit_item) 1 (snd (SetSize 2 c2)))))"

definition shrunk_store :: "nat \<Rightarrow> container" where
  "shrunk_store l = (if l = 0 then shrink_steps (new_container 0) else wit_container)"

lemma new_container_cells:
  "m_ItemList (new_container l) = None # None # None # None # replicate 117 None"
  using replicate_add[of 4 117 "None :: item option"]
  by (simp add: new_container_def MAX_CONTAINER_SIZE_def numeral_eq_Suc)

lemma new_container_0:
  "new_container 0 = \<lparr>m_id = 0, m_buff = 0, m_size = 0, m_count = 0,
      m_ItemList = None # None # None # None # replicate 117 None\<rparr>"
  using new_container_cells[of 0] by (simp add: new_container_def)

abbreviation four :: "uint8 \<Rightarrow> uint8 \<Rightarrow> item option \<Rightarrow> item option \<Rightarrow> item option \<Rightarrow> container" where
  "four sz n a b d \<equiv> \<lparr>m_id = 0, m_buff = 0, m_size = sz, m_count = n,
     m_ItemList = None # a # b # d # replicate 117 None\<rparr>"

lemma InsertItemAt_four:
  "2 \<le> unat sz \<Longrightarrow> snd (the (InsertItemAt (Some it) 2 (four sz n a None d))) =
     four sz (n + 1) a (Some (placed 2 0 it)) d"
  "3 \<le> unat sz \<Longrightarrow> snd (the (InsertItemAt (Some it) 3 (four sz n a b None))) =
     four sz (n + 1) a b (Some (placed 3 0 it))"
  "1 \<le> unat sz \<Longrightarrow> snd (the (InsertItemAt (Some it) 1 (four sz n None b d))) =
     four sz (n + 1) (Some (placed 1 0 it)) b d"
  by (simp_all add: InsertItemAt_def set_cell_def cell_def numeral_2_eq_2 numeral_3_eq_3)

lemma shrunk_container:
  "shrunk_store 0 = four 2 3 (Some (placed 1 0 wit_item)) (Some (placed 2 0 wit_item))
     (Some (placed 3 0 wit_item))"
  by (simp add: shrunk_store_def shrink_steps_def Let_def new_container_0 SetSize_def
      InsertItemAt_four[simplified])

lemma upt_1_3: "[Suc 0..<3] = [Suc 0, 2]"
  by (simp add: upt_rec)

lemma wit_container_eq: "wit_container = four 2 1 (Some (placed 1 0 wit_item)) None None"
  by (simp add: wit_container_def new_container_0 InsertItem_def SetSize_def first_free_slot_def
      set_cell_def cell_def upt_1_3)

theorem MoveItemTo_loses_after_shrink:
  "GetFreeSlotsCount (shrunk_store 0) = 255 \<and> cell (shrunk_store 1) 1 \<noteq> None \<and>
   (\<exists>st'. MoveItemTo 1 1 0 None shrunk_store = Some (ERROR_SLOTID, st') \<and>
      st' 0 = shrunk_store 0 \<and> contents (st' 1) = {#})"
proof -
  have full: "first_free_slot (shrunk_store 0) = None"
    by (simp add: shrunk_container first_free_slot_def cell_def upt_1_3)
  have free: "GetFreeSlotsCount (shrunk_store 0) = 255"
    by (simp add: shrunk_container GetFreeSlotsCount_def)
  have src: "shrunk_store 1 = wit_container" by (simp add: shrunk_store_def)
  obtain c where rem: "RemoveItem 1 wit_container = (Some (placed 1 0 wit_item), c)"
    and c: "m_ItemList c = None # None # None # None # replicate 117 None"
    by (simp add: wit_container_eq RemoveItem_def cell_def set_cell_def)
  have "MoveItemTo 1 1 0 None shrunk_store = Some (ERROR_SLOTID, shrunk_store(1 := c))"
    using rem full src by (simp add: MoveItemTo_def free InsertItem_def fun_upd_twist fun_upd_idem)
  moreover have "contents c = {#}" by (simp add: contents_def c)
  ultimately show ?thesis using free src by (simp add: wit_container_eq cell_def)
qed

text \<open>
  \<open>Clear\<close> empties every usable cell but leaves the item count as it was, so a container
  that was full still reports no free slot although all its cells are empty, and a move into it
  is refused.
\<close>

lemma cell_Clear:
  assumes "store_ok c" "s \<le> 120"
  shows "cell (Clear c) s = None"
proof (cases "s \<le> unat (m_size c)")
  case True
  then show ?thesis by (simp add: Clear_def cell_def nth_append nth_replicate del: replicate_Suc)
next
  case False
  with assms have "cell c s = None" by (simp add: store_ok_def tight_def)
  with False assms show ?thesis
    by (simp add: Clear_def cell_def nth_append store_ok_def wf_container_def)
qed

theorem Clear_keeps_count:
  assumes ok: "store_ok (st dst)" and full: "GetFreeSlotsCount (st dst) = 0"
    and size: "0 < unat (m_size (st dst))"
  shows "(\<forall>s\<le>120. cell (Clear (st dst)) s = None) \<and> first_free_slot (Clear (st dst)) = Some 1 \<and>
    GetFreeSlotsCount (Clear (st dst)) = 0 \<and>
    MoveItemTo f src dst None (st(dst := Clear (st dst))) =
      Some (ERROR_SLOTID, st(dst := Clear (st dst)))"
proof -
  have free: "GetFreeSlotsCount (Clear (st dst)) = 0"
    using full by (simp add: GetFreeSlotsCount_def Clear_def)
  have "m_size (Clear (st dst)) = m_size (st dst)" by (simp add: Clear_def)
  then have "first_free_slot (Clear (st dst)) = Some 1"
    using cell_Clear[OF ok, of 1] size by (simp add: first_free_slot_def upt_conv_Cons del: upt_Suc)
  with free cell_Clear[OF ok] show ?thesis by (simp add: MoveItemTo_def)
qed

definition full_container :: container where
  "full_container = snd (InsertItem (Some wit_item) (snd (SetSize 1 (new_container 3))))"

theorem Clear_keeps_count_witness:
  "GetFreeSlotsCount (Clear full_container) = 0 \<and> first_free_slot (Clear full_container) = Some 1"
proof -
  let ?st = "\<lambda>l::nat. full_container"
  have "store_ok full_container"
    by (simp add: full_container_def store_ok_InsertItem store_ok_new_container)
  moreover have "GetFreeSlotsCount full_container = 0" "0 < unat (m_size full_container)"
    by code_simp+
  ultimately show ?thesis using Clear_keeps_count[of ?st 0] by simp
qed

text \<open>
  \<open>SearchItem\<close> answers the first usable cell, the gil cell included, that holds the item
  id, and the error slot exactly when no usable cell does; \<open>SearchItems\<close> lists all such cells
  in order.
\<close>

theorem SearchItem_first:
  assumes "wf_container c"
  shows "(SearchItem ident c = ERROR_SLOTID \<longleftrightarrow>
      (\<forall>s \<le> unat (m_size c). \<not> holds_id ident (cell c s))) \<and>
    (SearchItem ident c \<noteq> ERROR_SLOTID \<longrightarrow> SearchItem ident c \<le> unat (m_size c) \<and>
      holds_id ident (cell c (SearchItem ident c)) \<and>
      (\<forall>s < SearchItem ident c. \<not> holds_id ident (cell c s))) \<and>
    SearchItem ident c = (case SearchItems ident c of [] \<Rightarrow> ERROR_SLOTID | s # _ \<Rightarrow> s)"
proof (cases "List.find (\<lambda>s. holds_id ident (cell c s)) [0..<Suc (unat (m_size c))]")
  case None
  then have "\<forall>s \<le> unat (m_size c). \<not> holds_id ident (cell c s)"
    by (simp add: find_None_upt less_Suc_eq_le del: upt_Suc)
  moreover from this have "SearchItems ident c = []"
    by (simp add: SearchItems_def filter_empty_conv less_Suc_eq_le del: upt_Suc)
  ultimately show ?thesis using None by (simp add: SearchItem_def del: upt_Suc)
next
  case (Some s)
  from find_Some_upt[OF Some] have s: "s \<le> unat (m_size c)" "holds_id ident (cell c s)"
    "\<forall>j < s. \<not> holds_id ident (cell c j)" by auto
  have ne: "s \<noteq> ERROR_SLOTID" using s(1) wf_sizeD[OF assms] by (simp add: ERROR_SLOTID_def)
  have "[0..<Suc (unat (m_size c))] = [0..<s] @ s # [Suc s..<Suc (unat (m_size c))]"
    using s(1) upt_add_eq_append[of 0 s "Suc (unat (m_size c)) - s"]
      upt_conv_Cons[of s "Suc (unat (m_size c))"] by (simp del: upt_Suc)
  moreover have "filter (\<lambda>s. holds_id ident (cell c s)) [0..<s] = []"
    using s(3) by (simp add: filter_empty_conv)
  ultimately have "\<exists>ss. SearchItems ident c = s # ss"
    using s(2) by (simp add: SearchItems_def del: upt_Suc)
  then show ?thesis using s ne Some by (auto simp: SearchItem_def simp del: upt_Suc)
qed

theorem SearchItem_first_witness:
  "SearchItem 4096 wit_container = 1 \<and> holds_id 4096 (cell wit_container 1)"
proof -
  have wf: "wf_container wit_container"
    unfolding wit_container_def by (intro wf_InsertItem wf_SetSize wf_new_container)
  have one: "SearchItem 4096 wit_container = 1" by code_simp
  from SearchItem_first[OF wf, of 4096]
  have "SearchItem 4096 wit_container \<noteq> ERROR_SLOTID \<longrightarrow>
      holds_id 4096 (cell wit_container (SearchItem 4096 wit_container))" by blast
  with one show ?thesis by (simp add: ERROR_SLOTID_def)
qed

end
