(* ===== verification/CharInventory.thy ===== *)
theory CharInventory
  imports ItemContainer
begin

text \<open>
  A character's items: the part of \<open>src/map/utils/charutils.cpp\<close> that adds, counts, updates,
  moves, drops and recycles items in the eighteen storages of a character, the item factory of
  \<open>src/map/utils/itemutils.cpp\<close>, and the handler of the item move packet
  (\<open>src/map/packets/c2s/0x029_item_move.cpp\<close>).
  The item templates, filled from the database, are a parameter of the factory; whether a
  database statement succeeds is a Boolean argument of the operation that issues it.  Packets,
  log lines, scripts and the style of worn equipment do not touch the storages and are left out.
\<close>

definition LOC_INVENTORY :: nat where "LOC_INVENTORY = 0"
definition LOC_TEMPITEMS :: nat where "LOC_TEMPITEMS = 3"
definition LOC_RECYCLEBIN :: nat where "LOC_RECYCLEBIN = 17"
definition MAX_CONTAINER_ID :: nat where "MAX_CONTAINER_ID = 18"
definition MAX_ITEMID :: nat where "MAX_ITEMID = 32768"

text \<open>The slot and storage of the item a use state holds, if any, are all the code reads of it.\<close>

record character =
  storage :: "nat \<Rightarrow> container"
  using_item :: "(nat \<times> nat) option"

definition on_storage :: "nat \<Rightarrow> (container \<Rightarrow> container) \<Rightarrow> character \<Rightarrow> character" where
  "on_storage loc f ch = ch\<lparr>storage := (storage ch)(loc := f (storage ch loc))\<rparr>"

section \<open>The item factory\<close>

type_synonym templates = "nat \<Rightarrow> item option"

definition lookup :: "templates \<Rightarrow> nat \<Rightarrow> item option" where
  "lookup T ident = (if MAX_ITEMID \<le> ident then None else T ident)"

text \<open>Every typed item is copied field by field, an item of no type yields no object.\<close>

definition clone :: "item \<Rightarrow> item option" where
  "clone source = (if i_type source = 0 then None else Some source)"

definition spawn :: "templates \<Rightarrow> nat \<Rightarrow> item option" where
  "spawn T ident =
     (if ident = 0xFFFF
      then Some (setType ITEM_CURRENCY (new_item ident)\<lparr>i_stackSize := 999999999\<rparr>)
      else (case lookup T ident of None \<Rightarrow> None | Some tpl \<Rightarrow> clone tpl))"

section \<open>Having and counting items\<close>

definition HasItem :: "nat \<Rightarrow> character \<Rightarrow> bool" where
  "HasItem ident ch \<longleftrightarrow>
     ident \<noteq> 0 \<and> (\<exists>loc \<in> set [0..<MAX_CONTAINER_ID]. SearchItem ident (storage ch loc) \<noteq> ERROR_SLOTID)"

definition getItemCount :: "nat \<Rightarrow> character \<Rightarrow> uint32" where
  "getItemCount ident ch =
     (if ident = 0 then 0
      else fold (\<lambda>loc n. ForEachItem (\<lambda>it m. if i_id it = ident then m + i_quantity it else m)
             (storage ch loc) n) [0..<MAX_CONTAINER_ID] 0)"

section \<open>Updating and adding\<close>

definition UpdateItem :: "nat \<Rightarrow> nat \<Rightarrow> int \<Rightarrow> bool \<Rightarrow> character \<Rightarrow> nat \<times> character" where
  "UpdateItem loc slot quantity force ch =
     (case GetItem slot (storage ch loc) of
        None \<Rightarrow> (0, ch)
      | Some it \<Rightarrow>
          if quantity < 0 \<and> i_quantity it < word_of_int (- quantity) then (0, ch)
          else if 0 \<le> quantity \<and> i_stackSize it < i_quantity it - i_reserve it + word_of_int quantity
          then (0, ch)
          else if using_item ch = Some (i_slotID it, i_locationID it) \<and> \<not> force then (0, ch)
          else
            let newq = i_quantity it + word_of_int quantity;
                newQuantity = (if i_stackSize it < newq then i_stackSize it else newq)
            in if 0 < newQuantity \<or> isType it ITEM_CURRENCY
               then (i_id it, on_storage loc (set_cell slot (Some (setQuantity newQuantity it))) ch)
               else (i_id it, on_storage loc (\<lambda>c. snd (RemoveItem slot c)) ch))"

definition AddItemObject :: "nat \<Rightarrow> item \<Rightarrow> bool \<Rightarrow> character \<Rightarrow> nat \<times> character" where
  "AddItemObject loc it db ch =
     (if isType it ITEM_CURRENCY
      then (0, snd (UpdateItem loc 0 (sint (i_quantity it)) False ch))
      else if hasFlag it FLAG_RARE \<and> HasItem (i_id it) ch then (ERROR_SLOTID, ch)
      else (let (slot, c) = InsertItem (Some it) (storage ch loc);
                ch1 = on_storage loc (\<lambda>_. c) ch
            in if slot = ERROR_SLOTID then (slot, ch1)
               else if \<not> db then (ERROR_SLOTID, on_storage loc (\<lambda>c. snd (RemoveItem slot c)) ch1)
               else (slot, ch1)))"

definition AddItem :: "templates \<Rightarrow> nat \<Rightarrow> nat \<Rightarrow> uint32 \<Rightarrow> bool \<Rightarrow> character \<Rightarrow> nat \<times> character" where
  "AddItem T loc ident quantity db ch =
     (if GetFreeSlotsCount (storage ch loc) = 0 \<or> quantity = 0 then (ERROR_SLOTID, ch)
      else (case spawn T ident of
              None \<Rightarrow> (ERROR_SLOTID, ch)
            | Some it \<Rightarrow> AddItemObject loc (setQuantity quantity it) db ch))"

definition DropItem :: "nat \<Rightarrow> nat \<Rightarrow> int \<Rightarrow> character \<Rightarrow> character" where
  "DropItem loc slot quantity ch = snd (UpdateItem loc slot (- quantity) False ch)"

section \<open>Moving within a storage\<close>

definition MoveItem :: "nat \<Rightarrow> nat \<Rightarrow> nat \<Rightarrow> bool \<Rightarrow> character \<Rightarrow> (nat \<times> character) option" where
  "MoveItem loc slot newSlot db ch =
     (let c = storage ch loc in
      if GetFreeSlotsCount c = 0 \<or> (newSlot \<noteq> ERROR_SLOTID \<and> GetItem newSlot c \<noteq> None)
      then Some (ERROR_SLOTID, ch)
      else (let (p, c1) = RemoveItem slot c in
        if p = None then Some (ERROR_SLOTID, on_storage loc (\<lambda>_. c1) ch)
        else (case (if newSlot = ERROR_SLOTID then Some (InsertItem p c1) else InsertItemAt p newSlot c1) of
                None \<Rightarrow> None
              | Some (r, c2) \<Rightarrow>
                  (let ch2 = on_storage loc (\<lambda>_. c2) ch in
                   if r = ERROR_SLOTID then Some (ERROR_SLOTID, ch2)
                   else if \<not> db
                   then map_option (\<lambda>(_, st). (ERROR_SLOTID, ch2\<lparr>storage := st\<rparr>))
                          (MoveItemTo r loc loc (Some slot) (storage ch2))
                   else Some (r, ch2)))))"

section \<open>The recycle bin and temporary items\<close>

fun slide_down :: "nat list \<Rightarrow> (nat \<Rightarrow> container) \<Rightarrow> (nat \<Rightarrow> container) option" where
  "slide_down [] st = Some st"
| "slide_down (i # is) st =
     (if GetItem i (st LOC_RECYCLEBIN) = None then slide_down is st
      else (case MoveItemTo i LOC_RECYCLEBIN LOC_RECYCLEBIN (Some (i - 1)) st of
              None \<Rightarrow> None | Some (_, st') \<Rightarrow> slide_down is st'))"

definition AddItemToRecycleBin :: "nat \<Rightarrow> nat \<Rightarrow> bool \<Rightarrow> character \<Rightarrow> character option" where
  "AddItemToRecycleBin loc slot db ch =
     (if GetItem slot (storage ch loc) = None then Some ch
      else if 0 < GetFreeSlotsCount (storage ch LOC_RECYCLEBIN)
      then (case MoveItemTo slot loc LOC_RECYCLEBIN None (storage ch) of
              None \<Rightarrow> None
            | Some (r, st) \<Rightarrow>
                if r = ERROR_SLOTID then Some (ch\<lparr>storage := st\<rparr>)
                else if \<not> db
                then map_option (\<lambda>(_, st'). ch\<lparr>storage := st'\<rparr>)
                       (MoveItemTo r LOC_RECYCLEBIN loc (Some slot) st)
                else Some (ch\<lparr>storage := st\<rparr>))
      else (case slide_down [2..<11]
                   ((storage ch)(LOC_RECYCLEBIN := snd (RemoveItem 1 (storage ch LOC_RECYCLEBIN)))) of
              None \<Rightarrow> None
            | Some st \<Rightarrow>
                map_option (\<lambda>(_, st'). ch\<lparr>storage := st'\<rparr>)
                  (MoveItemTo slot loc LOC_RECYCLEBIN (Some 10) st)))"

definition EmptyRecycleBin :: "character \<Rightarrow> character" where
  "EmptyRecycleBin ch = on_storage LOC_RECYCLEBIN Clear ch"

definition ClearTempItems :: "character \<Rightarrow> character" where
  "ClearTempItems ch = on_storage LOC_TEMPITEMS Clear ch"

section \<open>The item move packet\<close>

text \<open>
  The parameters are the two storages and slots and the amount of the packet; \<open>addDb\<close> and
  \<open>moveDb\<close> tell whether the statements of the split and of the move succeed.
\<close>

definition item_move ::
  "templates \<Rightarrow> bool \<Rightarrow> bool \<Rightarrow> nat \<Rightarrow> nat \<Rightarrow> nat \<Rightarrow> nat \<Rightarrow> uint32 \<Rightarrow> character \<Rightarrow> character option" where
  "item_move T addDb moveDb cat1 idx1 cat2 idx2 num ch =
     (case GetItem idx1 (storage ch cat1) of
        None \<Rightarrow> Some ch
      | Some it \<Rightarrow>
          if i_quantity it - i_reserve it < num then Some ch
          else if i_quantity it - num \<noteq> 0
          then (let (r, ch1) = AddItem T cat2 (i_id it) num addDb ch in
                if r \<noteq> ERROR_SLOTID then Some (snd (UpdateItem cat1 idx1 (- sint num) False ch1))
                else Some ch1)
          else if idx2 < 82
          then (case GetItem idx2 (storage ch cat2) of
                  None \<Rightarrow> Some ch
                | Some it2 \<Rightarrow>
                    if i_id it2 \<noteq> i_id it \<or> isSubType it2 ITEM_LOCKED \<or> 0 < i_reserve it2 then Some ch
                    else if i_quantity it2 < i_stackSize it2
                    then (let moveQty = (if i_stackSize it2 \<le> i_quantity it + i_quantity it2
                                         then i_stackSize it2 - i_quantity it2 else i_quantity it)
                          in if 0 < moveQty
                             then Some (snd (UpdateItem cat1 idx1 (- sint moveQty) False
                                    (snd (UpdateItem cat2 idx2 (sint moveQty) False ch))))
                             else Some ch)
                    else Some ch)
          else (case MoveItemTo idx1 cat1 cat2 None (storage ch) of
                  None \<Rightarrow> None
                | Some (r, st) \<Rightarrow>
                    if r \<noteq> ERROR_SLOTID \<and> \<not> moveDb
                    then map_option (\<lambda>(_, st'). ch\<lparr>storage := st'\<rparr>)
                           (MoveItemTo r cat2 cat1 (Some idx1) st)
                    else Some (ch\<lparr>storage := st\<rparr>)))"

section \<open>Amounts\<close>

definition qty_of :: "nat \<Rightarrow> item \<Rightarrow> nat" where
  "qty_of ident it = (if i_id it = ident then unat (i_quantity it) else 0)"

definition qty :: "nat \<Rightarrow> container \<Rightarrow> nat" where
  "qty ident c = sum_mset (image_mset (qty_of ident) (contents c))"

definition total_qty :: "nat \<Rightarrow> character \<Rightarrow> nat" where
  "total_qty ident ch = (\<Sum>l < MAX_CONTAINER_ID. qty ident (storage ch l))"

definition inventory_ok :: "character \<Rightarrow> bool" where
  "inventory_ok ch \<longleftrightarrow> (\<forall>l. store_ok (storage ch l))"

lemma qty_of_unplaced [simp]: "qty_of ident (unplaced it) = qty_of ident it"
  by (simp add: qty_of_def unplaced_def placed_def)

lemma qty_of_placed [simp]: "qty_of ident (placed s l it) = qty_of ident it"
  by (simp add: qty_of_def)

lemma storage_on_storage [simp]:
  "storage (on_storage loc f ch) l = (if l = loc then f (storage ch loc) else storage ch l)"
  by (simp add: on_storage_def)

lemma using_on_storage [simp]: "using_item (on_storage loc f ch) = using_item ch"
  by (simp add: on_storage_def)

lemma inventory_ok_on_storage:
  "inventory_ok ch \<Longrightarrow> store_ok (f (storage ch loc)) \<Longrightarrow> inventory_ok (on_storage loc f ch)"
  by (simp add: inventory_ok_def)

lemma total_qty_on_storage:
  assumes "loc < MAX_CONTAINER_ID"
  shows "total_qty ident (on_storage loc f ch) + qty ident (storage ch loc) =
    total_qty ident ch + qty ident (f (storage ch loc))"
proof -
  have "(\<Sum>l < MAX_CONTAINER_ID. g l) = g loc + sum g ({..<MAX_CONTAINER_ID} - {loc})" for g :: "nat \<Rightarrow> nat"
    using assms by (intro sum.remove) auto
  then show ?thesis by (simp add: total_qty_def)
qed

lemma store_ok_sizeD: "store_ok c \<Longrightarrow> unat (m_size c) \<le> 120 \<and> length (m_ItemList c) = 121"
  using wf_sizeD by (auto simp: store_ok_def wf_container_def)

lemma GetItem_cell: "GetItem s c = Some it \<longleftrightarrow> s \<le> unat (m_size c) \<and> cell c s = Some it"
  by (auto simp: GetItem_def)

lemma qty_set_cell:
  assumes "s < length (m_ItemList c)" "cell c s = Some it"
  shows "qty ident (set_cell s (Some it') c) + qty_of ident it = qty ident c + qty_of ident it'"
proof -
  let ?e = "set_cell s None c"
  have "cell ?e s = None" "s < length (m_ItemList ?e)" using assms by (simp_all add: cell_set_cell)
  then have "contents (set_cell s (Some it') ?e) = add_mset (unplaced it') (contents ?e)"
    by (intro contents_set_cell_Some)
  moreover have "set_cell s (Some it') ?e = set_cell s (Some it') c" by (simp add: set_cell_def)
  ultimately show ?thesis
    using contents_set_cell_None[OF assms] by (simp add: qty_def)
qed

lemma store_ok_overwrite:
  assumes "store_ok c" "GetItem s c = Some it"
  shows "store_ok (set_cell s (Some it') c)"
proof -
  have s: "s \<le> unat (m_size c)" "cell c s = Some it" using assms(2) by (simp_all add: GetItem_cell)
  with store_ok_sizeD[OF assms(1)] have "s \<le> 120" "s < length (m_ItemList c)" by simp_all
  with wf_overwrite[of c s it'] assms(1) s show ?thesis
    by (auto simp: store_ok_def tight_def cell_set_cell)
qed

lemma qty_RemoveItem:
  assumes "store_ok c" "GetItem s c = Some it"
  shows "qty ident (snd (RemoveItem s c)) + qty_of ident it = qty ident c"
  using contents_RemoveItem[of c s "fst (RemoveItem s c)" "snd (RemoveItem s c)"] assms
  by (auto simp: GetItem_cell RemoveItem_def qty_def store_ok_def)

lemma qty_InsertItem:
  assumes "store_ok c" "fst (InsertItem (Some it) c) \<noteq> ERROR_SLOTID"
  shows "qty ident (snd (InsertItem (Some it) c)) = qty ident c + qty_of ident it"
  using containers.ins_free[OF assms(1), of it] containers.ins_succeeds_iff[OF assms(1), of it] assms(2)
  by (simp add: qty_def ERROR_SLOTID_def)

lemma GetItem_RemoveItem:
  assumes "store_ok c"
  shows "GetItem t (snd (RemoveItem s c)) = (if t = s then None else GetItem t c)"
proof (cases "s \<le> unat (m_size c)")
  case True
  then show ?thesis
    using cell_RemoveItem[of c s t] assms by (auto simp: GetItem_def store_ok_def)
next
  case False
  then show ?thesis by (auto simp: RemoveItem_def GetItem_def)
qed

lemma GetItem_set_cell:
  assumes "store_ok c" "s \<le> unat (m_size c)"
  shows "GetItem t (set_cell s (Some it) c) = (if t = s then Some it else GetItem t c)"
  using assms store_ok_sizeD[OF assms(1)] by (auto simp: GetItem_def cell_set_cell)

lemma uint_add_int:
  fixes q :: uint32
  assumes "0 \<le> uint q + d" "uint q + d < 2 ^ 32"
  shows "uint (q + word_of_int d) = uint q + d"
  using assms by (simp add: uint_word_ariths uint_word_of_int mod_add_right_eq)

lemma sint_small:
  fixes q :: uint32
  assumes "uint q < 2 ^ 31"
  shows "sint q = uint q"
  using assms signed_take_bit_int_eq_self[of 31 "uint q"] uint_nonnegative[of q]
  by (simp add: sint_uint del: uint_nonnegative)

lemma uint_qty_of: "int (qty_of ident it) = (if i_id it = ident then uint (i_quantity it) else 0)"
  by (simp add: qty_of_def)

definition sane :: "item \<Rightarrow> bool" where
  "sane it \<longleftrightarrow> \<not> isType it ITEM_CURRENCY \<and> i_quantity it \<le> i_stackSize it \<and>
     uint (i_stackSize it) < 2 ^ 31 \<and> i_reserve it \<le> i_quantity it"

text \<open>What an update that stays within the stack computes.\<close>

lemma UpdateItem_value:
  assumes it: "GetItem slot (storage ch loc) = Some it" "using_item ch = None"
    and d: "0 \<le> uint (i_quantity it) + d" "uint (i_quantity it) + d \<le> uint (i_stackSize it)"
    and res: "0 \<le> d \<Longrightarrow> i_reserve it \<le> i_quantity it"
  defines "newq \<equiv> i_quantity it + word_of_int d"
  shows "uint newq = uint (i_quantity it) + d" "newq \<le> i_stackSize it"
    "UpdateItem loc slot d False ch =
      (i_id it, if 0 < newq \<or> isType it ITEM_CURRENCY
                then on_storage loc (set_cell slot (Some (setQuantity newq it))) ch
                else on_storage loc (\<lambda>c. snd (RemoveItem slot c)) ch)"
proof -
  show us: "uint newq = uint (i_quantity it) + d"
    unfolding newq_def by (rule uint_add_int[OF d(1)]) (use d(2) uint_bounded[of "i_stackSize it"] in simp)
  show le: "newq \<le> i_stackSize it" using us d(2) by (simp add: word_le_def)
  have A: "(d < 0 \<and> i_quantity it < word_of_int (- d)) = False"
  proof (rule iffI)
    assume neg: "d < 0 \<and> i_quantity it < word_of_int (- d)"
    have "uint (word_of_int (- d) :: uint32) = - d"
      using d(1) neg uint_bounded[of "i_quantity it"]
      by (subst uint_word_of_int, intro mod_pos_pos_trivial) auto
    with neg d(1) show False unfolding word_less_def by linarith
  qed simp
  have "i_quantity it - i_reserve it + word_of_int d \<le> newq" if "0 \<le> d"
  proof -
    have r: "uint (i_quantity it - i_reserve it) = uint (i_quantity it) - uint (i_reserve it)"
      using res[OF that] by (simp add: uint_minus_simple_alt)
    have "uint (i_quantity it - i_reserve it + word_of_int d) = uint (i_quantity it) - uint (i_reserve it) + d"
    proof -
      have "uint (i_reserve it) \<le> uint (i_quantity it)" using res[OF that] by (simp add: word_le_def)
      moreover have "uint (i_stackSize it) < 2 ^ 32" using uint_bounded[of "i_stackSize it"] by simp
      then have "uint (i_quantity it) - uint (i_reserve it) + d < 2 ^ 32"
        using d(2) uint_ge_0[of "i_reserve it"] by linarith
      ultimately show ?thesis unfolding r[symmetric] using that r by (intro uint_add_int) simp_all
    qed
    then show ?thesis using us by (simp add: word_le_def)
  qed
  then have B: "(0 \<le> d \<and> i_stackSize it < i_quantity it - i_reserve it + word_of_int d) = False"
    using le by (auto simp: not_less)
  show "UpdateItem loc slot d False ch =
      (i_id it, if 0 < newq \<or> isType it ITEM_CURRENCY
                then on_storage loc (set_cell slot (Some (setQuantity newq it))) ch
                else on_storage loc (\<lambda>c. snd (RemoveItem slot c)) ch)"
    unfolding UpdateItem_def it(1) option.case A B using it(2) le
    by (simp add: Let_def not_less[symmetric] flip: newq_def)
qed

text \<open>Writing a new quantity into a stack changes the amount by exactly the difference.\<close>

lemma set_quantity_step:
  assumes inv: "inventory_ok ch" "loc < MAX_CONTAINER_ID"
    and it: "GetItem slot (storage ch loc) = Some it"
    and newq: "uint newq = uint (i_quantity it) + d" "newq \<le> i_stackSize it"
  defines "ch' \<equiv> on_storage loc (set_cell slot (Some (setQuantity newq it))) ch"
  shows "inventory_ok ch'" "int (total_qty k ch') = int (total_qty k ch) + (if i_id it = k then d else 0)"
    "GetItem t (storage ch' l) =
      (if (l, t) = (loc, slot) then Some (setQuantity newq it) else GetItem t (storage ch l))"
proof -
  let ?c = "storage ch loc" and ?f = "set_cell slot (Some (setQuantity newq it))"
  have okc: "store_ok ?c" using inv(1) by (simp add: inventory_ok_def)
  have slot: "slot \<le> unat (m_size ?c)" "cell ?c slot = Some it" "slot < length (m_ItemList ?c)"
    using it store_ok_sizeD[OF okc] by (auto simp: GetItem_cell)
  show "inventory_ok ch'"
    unfolding ch'_def using inv(1) okc it by (intro inventory_ok_on_storage) (auto intro: store_ok_overwrite)
  have n: "int (unat newq) = uint newq" by simp
  have q: "qty_of k (setQuantity newq it) = (if i_id it = k then unat newq else 0)"
    using newq(2) by (simp add: qty_of_def min_def)
  note eqs = total_qty_on_storage[OF inv(2), of k ?f ch] qty_set_cell[OF slot(3,2), of k "setQuantity newq it"]
  show "int (total_qty k ch') = int (total_qty k ch) + (if i_id it = k then d else 0)"
  proof (cases "i_id it = k")
    case True
    then show ?thesis
      using eqs q newq(1) n uint_qty_of[of k it] unfolding ch'_def if_P[OF True] by linarith
  next
    case False
    then show ?thesis
      using eqs q uint_qty_of[of k it] unfolding ch'_def if_not_P[OF False] by linarith
  qed
  show "GetItem t (storage ch' l) =
      (if (l, t) = (loc, slot) then Some (setQuantity newq it) else GetItem t (storage ch l))"
    unfolding ch'_def using GetItem_set_cell[OF okc slot(1)] by auto
qed

text \<open>One update that stays within the stack: the amount changes by exactly what was asked.\<close>

lemma UpdateItem_step:
  assumes inv: "inventory_ok ch" "loc < MAX_CONTAINER_ID" "using_item ch = None"
    and it: "GetItem slot (storage ch loc) = Some it" "\<not> isType it ITEM_CURRENCY"
    and d: "0 \<le> uint (i_quantity it) + d" "uint (i_quantity it) + d \<le> uint (i_stackSize it)"
    and res: "0 \<le> d \<Longrightarrow> i_reserve it \<le> i_quantity it"
  defines "newq \<equiv> i_quantity it + word_of_int d"
  shows "\<exists>ch'. UpdateItem loc slot d False ch = (i_id it, ch') \<and> inventory_ok ch' \<and>
    using_item ch' = None \<and>
    (\<forall>k. int (total_qty k ch') = int (total_qty k ch) + (if i_id it = k then d else 0)) \<and>
    (\<forall>l t. (l, t) \<noteq> (loc, slot) \<longrightarrow> GetItem t (storage ch' l) = GetItem t (storage ch l)) \<and>
    GetItem slot (storage ch' loc) = (if newq = 0 then None else Some (setQuantity newq it))"
proof -
  have okc: "store_ok (storage ch loc)" using inv(1) by (simp add: inventory_ok_def)
  note val = UpdateItem_value[OF it(1) inv(3) d res, folded newq_def]
  show ?thesis
  proof (cases "newq = 0")
    case True
    let ?ch = "on_storage loc (\<lambda>c. snd (RemoveItem slot c)) ch"
    have "int (total_qty k ?ch) = int (total_qty k ch) + (if i_id it = k then d else 0)" for k
      using total_qty_on_storage[OF inv(2), of k "\<lambda>c. snd (RemoveItem slot c)" ch]
        qty_RemoveItem[OF okc it(1), of k] uint_qty_of[of k it] val(1) True by auto
    moreover have "inventory_ok ?ch"
      using inv(1) okc by (intro inventory_ok_on_storage) (auto intro: store_ok_RemoveItem)
    ultimately show ?thesis
      using val(3) True it(2) inv(3) GetItem_RemoveItem[OF okc] by (intro exI[of _ ?ch]) auto
  next
    case False
    note step = set_quantity_step[OF inv(1,2) it(1) val(1,2)]
    let ?ch = "on_storage loc (set_cell slot (Some (setQuantity newq it))) ch"
    have "UpdateItem loc slot d False ch = (i_id it, ?ch)" using val(3) False by (simp add: word_gt_0)
    moreover have "using_item ?ch = None" using inv(3) by simp
    ultimately show ?thesis
      using step False by (intro exI[of _ ?ch] conjI allI impI) (auto simp del: storage_on_storage of_nat_eq_iff)
  qed
qed

section \<open>The item move packet conserves amounts\<close>

lemma total_qty_move:
  assumes "total_contents src dst st' = total_contents src dst (storage ch)"
    "\<And>l. l \<noteq> src \<Longrightarrow> l \<noteq> dst \<Longrightarrow> st' l = storage ch l" "src < MAX_CONTAINER_ID" "dst < MAX_CONTAINER_ID"
  shows "total_qty k (ch\<lparr>storage := st'\<rparr>) = total_qty k ch"
proof -
  let ?A = "{..<MAX_CONTAINER_ID}" and ?s = "\<lambda>st l. qty k (st l)"
  have frame: "sum (?s st') (?A - {src, dst}) = sum (?s (storage ch)) (?A - {src, dst})"
    by (rule sum.cong) (use assms(2) in auto)
  have "sum (?s st') {src, dst} = sum (?s (storage ch)) {src, dst}"
    using arg_cong[OF assms(1), of "\<lambda>m. sum_mset (image_mset (qty_of k) m)"]
    by (cases "src = dst") (auto simp: total_contents_def qty_def)
  moreover have "sum g ?A = sum g (?A - {src, dst}) + sum g {src, dst}" for g :: "nat \<Rightarrow> nat"
    using assms(3,4) by (intro sum.subset_diff) auto
  ultimately show ?thesis using frame by (simp add: total_qty_def)
qed

lemma MoveItemTo_character:
  assumes "inventory_ok ch" "src < MAX_CONTAINER_ID" "dst < MAX_CONTAINER_ID"
  shows "\<exists>r st. MoveItemTo f src dst d (storage ch) = Some (r, st) \<and>
    inventory_ok (ch\<lparr>storage := st\<rparr>) \<and> (\<forall>k. total_qty k (ch\<lparr>storage := st\<rparr>) = total_qty k ch)"
proof -
  from assms(1) have "\<And>l. store_ok (storage ch l)" by (simp add: inventory_ok_def)
  from move_conserves[where st = "storage ch" and f = f and src = src and dst = dst and d = d, OF this] obtain r st where
    st: "MoveItemTo f src dst d (storage ch) = Some (r, st)" "\<forall>l. store_ok (st l)"
    "total_contents src dst st = total_contents src dst (storage ch)" by blast
  with total_qty_move[OF st(3) move_frame[OF st(1)] assms(2,3)] show ?thesis
    by (auto simp: inventory_ok_def)
qed

text \<open>Adding a freshly made item either fails and changes no amount, or adds exactly it.\<close>

lemma AddItemObject_step:
  assumes inv: "inventory_ok ch" "loc < MAX_CONTAINER_ID" and cur: "\<not> isType it ITEM_CURRENCY"
  obtains r ch' where "AddItemObject loc it db ch = (r, ch')" "inventory_ok ch'"
    "using_item ch' = using_item ch"
    "\<And>k. total_qty k ch' = total_qty k ch + (if r = ERROR_SLOTID then 0 else qty_of k it)"
    "\<And>l t x. GetItem t (storage ch l) = Some x \<Longrightarrow> GetItem t (storage ch' l) = Some x"
proof (cases "hasFlag it FLAG_RARE \<and> HasItem (i_id it) ch")
  case True
  then have "AddItemObject loc it db ch = (ERROR_SLOTID, ch)" using cur by (simp add: AddItemObject_def)
  then show ?thesis using inv by (intro that[of ERROR_SLOTID ch]) simp_all
next
  case False
  let ?c = "storage ch loc"
  have ok: "store_ok ?c" using inv by (simp add: inventory_ok_def)
  obtain s c where ins: "InsertItem (Some it) ?c = (s, c)" by fastforce
  let ?ch = "on_storage loc (\<lambda>_. c) ch"
  have okc: "store_ok c" using store_ok_InsertItem[OF ok, of "Some it"] ins by simp
  show ?thesis
  proof (cases "s = ERROR_SLOTID")
    case True
    then have "c = ?c" using containers.ins_fail_unchanged[OF ok, of "Some it"] ins
      by (simp add: ERROR_SLOTID_def)
    then have "?ch = ch" by (simp add: on_storage_def)
    then have "AddItemObject loc it db ch = (ERROR_SLOTID, ch)"
      using cur False ins True by (simp add: AddItemObject_def Let_def)
    then show ?thesis using inv by (intro that[of ERROR_SLOTID ch]) simp_all
  next
    case ins_ok: False
    then obtain f where f: "first_free_slot ?c = Some f"
      using ins by (auto simp: InsertItem_def split: option.splits)
    note free = first_free_Some[OF f]
    have s: "s = f" using InsertItem_fills(1)[OF ok f, of it] ins by simp
    have cells: "cell c t = (if t = s then Some (placed s (location ?c) it) else cell ?c t)" for t
      using InsertItem_fills(4)[OF ok f, of it t] ins s by simp
    have size_c: "m_size c = m_size ?c" using m_size_ops(1)[of "Some it" ?c] ins by simp
    have keep: "GetItem t c = Some x" if "GetItem t ?c = Some x" for t x
      using that free s by (auto simp: GetItem_cell cells size_c)
    have tot: "total_qty k ?ch = total_qty k ch + qty_of k it" for k
      using total_qty_on_storage[OF inv(2), of k "\<lambda>_. c" ch] qty_InsertItem[OF ok, of it k] ins ins_ok by simp
    have okch: "inventory_ok ?ch" using inv okc by (intro inventory_ok_on_storage)
    show ?thesis
    proof (cases db)
      case True
      then have "AddItemObject loc it db ch = (s, ?ch)"
        using cur False ins ins_ok by (simp add: AddItemObject_def Let_def)
      then show ?thesis using tot okch keep ins_ok by (intro that[of s ?ch]) auto
    next
      case db: False
      let ?ch2 = "on_storage loc (\<lambda>c. snd (RemoveItem s c)) ?ch"
      have "GetItem s c = Some (placed s (location ?c) it)"
        using free s by (simp add: GetItem_cell cells size_c)
      from qty_RemoveItem[OF okc this] have rem: "qty k (snd (RemoveItem s c)) + qty_of k it = qty k c" for k
        by simp
      have "total_qty k ?ch2 = total_qty k ch" for k
        using total_qty_on_storage[OF inv(2), of k "\<lambda>c. snd (RemoveItem s c)" ?ch] tot[of k] rem[of k] by simp
      moreover have "inventory_ok ?ch2"
        by (rule inventory_ok_on_storage[OF okch]) (simp add: store_ok_RemoveItem okc)
      moreover have "GetItem t (snd (RemoveItem s c)) = Some x" if "GetItem t ?c = Some x" for t x
        using that keep[OF that] GetItem_RemoveItem[OF okc, of t s] free s by (auto simp: GetItem_cell)
      moreover have "AddItemObject loc it db ch = (ERROR_SLOTID, ?ch2)"
        unfolding AddItemObject_def if_not_P[OF False] if_not_P[OF cur] by (simp add: ins ins_ok db)
      ultimately show ?thesis by (intro that[of ERROR_SLOTID ?ch2]) auto
    qed
  qed
qed

text \<open>
  What the packet assumes of the character: nothing is being used, and the stacks it touches are
  ordinary ones (no currency, within a stack size that the template of the item shares).
\<close>

definition movable :: "templates \<Rightarrow> character \<Rightarrow> bool" where
  "movable T ch \<longleftrightarrow> using_item ch = None \<and>
     (\<forall>l s it. GetItem s (storage ch l) = Some it \<longrightarrow> i_id it \<noteq> 0xFFFF \<longrightarrow> sane it \<and>
        (\<forall>tpl. spawn T (i_id it) = Some tpl \<longrightarrow> i_id tpl = i_id it \<and>
           i_stackSize tpl = i_stackSize it \<and> \<not> isType tpl ITEM_CURRENCY))"

lemma isType_setQuantity [simp]: "isType (setQuantity q it) t = isType it t"
  by (simp add: isType_def setQuantity_def)

lemma split_stack:
  assumes inv: "inventory_ok ch" "cat1 < MAX_CONTAINER_ID" "cat2 < MAX_CONTAINER_ID" "movable T ch"
    and it: "GetItem idx1 (storage ch cat1) = Some it" "i_id it \<noteq> 0xFFFF"
    and num: "num \<le> i_quantity it" and add: "AddItem T cat2 (i_id it) num db ch = (r, ch1)"
  defines "ch2 \<equiv> if r \<noteq> ERROR_SLOTID then snd (UpdateItem cat1 idx1 (- sint num) False ch1) else ch1"
  shows "inventory_ok ch2 \<and> total_qty k ch2 = total_qty k ch"
proof (cases "GetFreeSlotsCount (storage ch cat2) = 0 \<or> num = 0 \<or> spawn T (i_id it) = None")
  case True
  then have "r = ERROR_SLOTID \<and> ch1 = ch" using add by (auto simp: AddItem_def split: if_splits)
  then show ?thesis using inv by (simp add: ch2_def)
next
  case False
  then obtain tpl where tpl: "spawn T (i_id it) = Some tpl" by blast
  have sane: "sane it" and t: "i_id tpl = i_id it" "i_stackSize tpl = i_stackSize it"
    "\<not> isType tpl ITEM_CURRENCY" and u: "using_item ch = None"
    using inv(4) it tpl unfolding movable_def by blast+
  have le: "num \<le> i_stackSize tpl" using num sane t(2) by (auto simp: sane_def)
  have "AddItemObject cat2 (setQuantity num tpl) db ch = (r, ch1)"
    using add False tpl by (simp add: AddItem_def)
  then have ch1: "inventory_ok ch1" "using_item ch1 = None"
    "total_qty k ch1 = total_qty k ch + (if r = ERROR_SLOTID then 0 else qty_of k (setQuantity num tpl))"
    "GetItem idx1 (storage ch1 cat1) = Some it"
    using AddItemObject_step[where it = "setQuantity num tpl" and db = db, OF inv(1,3)] t u it
    by (metis isType_setQuantity fst_conv snd_conv)+
  show ?thesis
  proof (cases "r = ERROR_SLOTID")
    case True
    then show ?thesis using ch1 by (simp add: ch2_def)
  next
    case ok: False
    have nz: "num \<noteq> 0" using False by simp
    have un: "uint num \<le> uint (i_quantity it)" using num by (simp add: word_le_def)
    have us: "uint (i_quantity it) \<le> uint (i_stackSize it)" "uint (i_stackSize it) < 2 ^ 31"
      using sane by (auto simp: sane_def word_le_def)
    have sn: "sint num = uint num" using un us by (intro sint_small) linarith
    have "0 < uint num" using nz uint_nonnegative[of num] by (metis uint_0_iff order_less_le)
    then obtain ch' where "UpdateItem cat1 idx1 (- uint num) False ch1 = (i_id it, ch')"
      "inventory_ok ch'"
      "int (total_qty k ch') = int (total_qty k ch1) + (if i_id it = k then - uint num else 0)"
      using UpdateItem_step[OF ch1(1) inv(2) ch1(2,4), of "- uint num"] sane un us
      by (auto simp: sane_def)
    moreover have "int (qty_of k (setQuantity num tpl)) = (if i_id it = k then uint num else 0)"
      using le t(1) by (simp add: qty_of_def min_def)
    moreover have "total_qty k ch1 = total_qty k ch + qty_of k (setQuantity num tpl)" using ok ch1(3) by simp
    ultimately have "inventory_ok ch' \<and> total_qty k ch' = total_qty k ch" "ch2 = ch'"
      using ok sn by (auto simp: ch2_def split: if_splits)
    then show ?thesis by simp
  qed
qed

lemma unite_stacks:
  assumes inv: "inventory_ok ch" "cat1 < MAX_CONTAINER_ID" "cat2 < MAX_CONTAINER_ID" "movable T ch"
    and it: "GetItem idx1 (storage ch cat1) = Some it" "i_id it \<noteq> 0xFFFF"
    and it2: "GetItem idx2 (storage ch cat2) = Some it2" "i_id it2 = i_id it" "i_reserve it2 = 0"
    and room: "i_quantity it2 < i_stackSize it2"
  defines "m \<equiv> if i_stackSize it2 \<le> i_quantity it + i_quantity it2
                then i_stackSize it2 - i_quantity it2 else i_quantity it"
  assumes pos: "0 < m"
  shows "let ch' = snd (UpdateItem cat1 idx1 (- sint m) False
           (snd (UpdateItem cat2 idx2 (sint m) False ch)))
    in inventory_ok ch' \<and> total_qty k ch' = total_qty k ch"
proof -
  have sane: "sane it" "sane it2" and u: "using_item ch = None"
    using inv(4) it it2(1,2) unfolding movable_def by metis+
  let ?q1 = "uint (i_quantity it)" and ?q2 = "uint (i_quantity it2)" and ?s = "uint (i_stackSize it2)"
  have b: "?q1 \<le> uint (i_stackSize it)" "uint (i_stackSize it) < 2 ^ 31" "?q2 < ?s" "?s < 2 ^ 31"
    using sane room by (auto simp: sane_def word_le_def word_less_def)
  have plus: "uint (i_quantity it + i_quantity it2) = ?q1 + ?q2"
    using b uint_nonnegative[of "i_quantity it"] by (simp add: uint_word_ariths)
  have minus: "uint (i_stackSize it2 - i_quantity it2) = ?s - ?q2"
    using b(3) by (intro iffD1[OF uint_sub_lem]) simp
  have m: "uint m \<le> ?q1" "uint m \<le> ?s - ?q2"
    using plus minus by (auto simp: m_def word_le_def)
  have m0: "0 < uint m" using pos by (simp add: word_less_def)
  have sm: "sint m = uint m" using m(1) b by (intro sint_small) linarith
  obtain ch1 where ch1: "UpdateItem cat2 idx2 (uint m) False ch = (i_id it2, ch1)" "inventory_ok ch1"
    "using_item ch1 = None"
    "\<forall>k. int (total_qty k ch1) = int (total_qty k ch) + (if i_id it2 = k then uint m else 0)"
    "\<forall>l t. (l, t) \<noteq> (cat2, idx2) \<longrightarrow> GetItem t (storage ch1 l) = GetItem t (storage ch l)"
    "GetItem idx2 (storage ch1 cat2) = (if i_quantity it2 + word_of_int (uint m) = 0 then None
       else Some (setQuantity (i_quantity it2 + word_of_int (uint m)) it2))"
    using UpdateItem_step[OF inv(1,3) u it2(1), of "uint m"] sane(2) it2(3) m(2) m0
      uint_nonnegative[of "i_quantity it2"] by (auto simp: sane_def)
  have w: "uint (i_quantity it2 + m) = ?q2 + uint m"
    using uint_add_int[of "i_quantity it2" "uint m"] m(2) m0 b(4) uint_nonnegative[of "i_quantity it2"] by simp
  have "\<exists>x. GetItem idx1 (storage ch1 cat1) = Some x \<and> i_id x = i_id it \<and>
      \<not> isType x ITEM_CURRENCY \<and> uint m \<le> uint (i_quantity x) \<and> i_quantity x \<le> i_stackSize x"
  proof (cases "(cat1, idx1) = (cat2, idx2)")
    case True
    have "0 < uint (i_quantity it2 + m)" unfolding w using m0 uint_nonnegative[of "i_quantity it2"] by linarith
    then have nz: "i_quantity it2 + m \<noteq> 0" by auto
    have le: "i_quantity it2 + m \<le> i_stackSize it2" unfolding word_le_def w using m(2) by linarith
    have ge: "uint m \<le> uint (i_quantity it2 + m)"
      unfolding w using uint_nonnegative[of "i_quantity it2"] by linarith
    have "GetItem idx1 (storage ch1 cat1) = Some (setQuantity (i_quantity it2 + m) it2)"
      using True ch1(6) nz by simp
    then show ?thesis using it2(2) sane(2) le ge by (auto simp: sane_def min_def)
  next
    case False
    then show ?thesis using ch1(5) it m(1) sane(1) by (auto simp: sane_def)
  qed
  then obtain x where x: "GetItem idx1 (storage ch1 cat1) = Some x" "i_id x = i_id it"
    "\<not> isType x ITEM_CURRENCY" "uint m \<le> uint (i_quantity x)" "i_quantity x \<le> i_stackSize x" by blast
  obtain ch2 where ch2: "UpdateItem cat1 idx1 (- uint m) False ch1 = (i_id x, ch2)" "inventory_ok ch2"
    "\<forall>k. int (total_qty k ch2) = int (total_qty k ch1) + (if i_id x = k then - uint m else 0)"
    using UpdateItem_step[OF ch1(2) inv(2) ch1(3) x(1,3), of "- uint m"] x(4,5) m0 by (auto simp: word_le_def)
  have "total_qty k ch2 = total_qty k ch"
    using spec[OF ch1(4), of k] spec[OF ch2(3), of k] x(2) it2(2) by (simp split: if_splits)
  then show ?thesis using ch1(1) ch2(1,2) sm by simp
qed

text \<open>
  C6: moving items between a character's own storages never changes how much of an item he owns.
  Whatever storages and slots the packet names and whether or not the database statements succeed,
  splitting a stack, uniting two stacks (also a stack with itself) and moving a whole stack return,
  keep every storage well formed, and leave the total amount of every item id as it was.  Assumed are
  what \<open>movable\<close> says of the character, among it that he is not using an item, and that the packet
  does not name his gil, which its validator refuses.  While a linkshell bank is open the packet takes
  another branch, which is not part of this function.
\<close>

theorem item_move_conserves:
  assumes "inventory_ok ch" "cat1 < MAX_CONTAINER_ID" "cat2 < MAX_CONTAINER_ID" "movable T ch"
    and not_gil: "\<And>it. GetItem idx1 (storage ch cat1) = Some it \<Longrightarrow> i_id it \<noteq> 0xFFFF"
  shows "\<exists>ch'. item_move T addDb moveDb cat1 idx1 cat2 idx2 num ch = Some ch' \<and>
    inventory_ok ch' \<and> (\<forall>k. total_qty k ch' = total_qty k ch)"
proof (cases "GetItem idx1 (storage ch cat1)")
  case None
  then show ?thesis using assms by (simp add: item_move_def)
next
  case (Some it)
  note id = not_gil[OF Some]
  have sane: "sane it" using assms(4) Some id unfolding movable_def by blast
  consider "i_quantity it - i_reserve it < num"
    | "num \<le> i_quantity it - i_reserve it" "i_quantity it - num \<noteq> 0"
    | "num \<le> i_quantity it - i_reserve it" "i_quantity it - num = 0" "idx2 < 82"
    | "num \<le> i_quantity it - i_reserve it" "i_quantity it - num = 0" "\<not> idx2 < 82"
    by (metis linorder_not_less)
  then show ?thesis
  proof cases
    case 1
    then show ?thesis using assms Some by (simp add: item_move_def)
  next
    case 2
    have n: "num \<le> i_quantity it"
      using 2(1) sane word_sub_le[of "i_reserve it" "i_quantity it"] by (auto simp: sane_def)
    obtain r ch1 where add: "AddItem T cat2 (i_id it) num addDb ch = (r, ch1)" by fastforce
    note sp = split_stack[OF assms(1-4) Some id n add]
    have "item_move T addDb moveDb cat1 idx1 cat2 idx2 num ch =
        Some (if r \<noteq> ERROR_SLOTID then snd (UpdateItem cat1 idx1 (- sint num) False ch1) else ch1)"
      using Some 2 add by (simp add: item_move_def not_less[symmetric])
    then show ?thesis using sp by blast
  next
    case 3
    show ?thesis
    proof (cases "GetItem idx2 (storage ch cat2)")
      case None
      then show ?thesis using Some 3 assms by (simp add: item_move_def not_less[symmetric])
    next
      case it2: (Some it2)
      show ?thesis
        using Some 3 it2 assms(1) unite_stacks[OF assms(1-4) Some id it2]
        by (auto simp: item_move_def Let_def word_gt_0 not_less[symmetric])
    qed
  next
    case 4
    obtain r st where st: "MoveItemTo idx1 cat1 cat2 None (storage ch) = Some (r, st)"
      "inventory_ok (ch\<lparr>storage := st\<rparr>)" "\<forall>k. total_qty k (ch\<lparr>storage := st\<rparr>) = total_qty k ch"
      using MoveItemTo_character[OF assms(1-3)] by blast
    obtain r' st' where st': "MoveItemTo r cat2 cat1 (Some idx1) st = Some (r', st')"
      "inventory_ok (ch\<lparr>storage := st'\<rparr>)" "\<forall>k. total_qty k (ch\<lparr>storage := st'\<rparr>) = total_qty k ch"
      using MoveItemTo_character[OF st(2) assms(3,2)] st(3) by auto metis
    show ?thesis
      using Some 4 st st' by (simp add: item_move_def not_less[symmetric])
  qed
qed

definition wit_char :: character where
  "wit_char = \<lparr>storage = wit_store, using_item = None\<rparr>"

lemma wit_char_ok: "inventory_ok wit_char"
  by (simp add: inventory_ok_def wit_char_def wit_store_def wit_container_def store_ok_InsertItem
      store_ok_new_container)

lemma wit_char_items:
  "GetItem s (storage wit_char l) = Some it \<Longrightarrow> l = 0 \<and> s = 1 \<and> it = placed 1 0 wit_item"
  by (auto simp: wit_char_def wit_store_def wit_container_eq GetItem_def cell_def new_container_def
      SetSize_def nth_Cons' MAX_CONTAINER_SIZE_def split: if_splits)

lemma wit_char_movable: "movable (\<lambda>_. Some wit_item) wit_char"
proof -
  have "sane (placed 1 0 wit_item)"
    by (simp add: sane_def wit_item_def new_item_def placed_def isType_def)
  moreover have "spawn (\<lambda>_. Some wit_item) 4096 = None"
    by (simp add: spawn_def lookup_def clone_def MAX_ITEMID_def wit_item_def new_item_def)
  moreover have "i_id (placed 1 0 wit_item) = 4096"
    by (simp add: wit_item_def new_item_def placed_def)
  ultimately show ?thesis using wit_char_items unfolding movable_def by (fastforce simp: wit_char_def)
qed

theorem item_move_conserves_witness:
  "\<exists>ch'. item_move (\<lambda>_. Some wit_item) True True 0 1 1 255 3 wit_char = Some ch' \<and>
     total_qty 4096 ch' = total_qty 4096 wit_char"
proof -
  have "i_id it \<noteq> 0xFFFF" if "GetItem 1 (storage wit_char 0) = Some it" for it
    using wit_char_items[OF that] by (simp add: wit_item_def new_item_def placed_def)
  from item_move_conserves[where ?cat1.0 = 0 and ?cat2.0 = 1 and ?idx1.0 = 1 and addDb = True and
      moveDb = True and ?idx2.0 = 255 and num = 3, OF wit_char_ok _ _ wit_char_movable this]
  show ?thesis by (auto simp: MAX_CONTAINER_ID_def)
qed

text \<open>
  Adding to a stack that is partly reserved can report success and lose items.  The guard
  compares the unreserved amount with the stack size while the new amount is computed from the
  whole one, so an addition between the two limits fills the stack and drops the rest.
\<close>

theorem UpdateItem_overfills:
  assumes inv: "inventory_ok ch" "loc < MAX_CONTAINER_ID" "using_item ch = None"
    and it: "GetItem slot (storage ch loc) = Some it" "sane it"
    and d: "0 < d" "d < 2 ^ 31"
    and gap: "uint (i_quantity it) - uint (i_reserve it) + d \<le> uint (i_stackSize it)"
    "uint (i_stackSize it) < uint (i_quantity it) + d"
  shows "fst (UpdateItem loc slot d False ch) = i_id it \<and>
    int (total_qty (i_id it) (snd (UpdateItem loc slot d False ch))) =
      int (total_qty (i_id it) ch) + (uint (i_stackSize it) - uint (i_quantity it)) \<and>
    int (total_qty (i_id it) (snd (UpdateItem loc slot d False ch))) < int (total_qty (i_id it) ch) + d"
proof -
  let ?q = "i_quantity it" and ?r = "i_reserve it" and ?s = "i_stackSize it" and ?c = "storage ch loc"
  have b: "uint ?r \<le> uint ?q" "uint ?q \<le> uint ?s" "uint ?s < 2 ^ 31" "0 \<le> uint ?q" "0 \<le> uint ?r"
    using it(2) by (auto simp: sane_def word_le_def)
  have diff: "uint (?q - ?r) = uint ?q - uint ?r" by (rule iffD1[OF uint_sub_lem b(1)])
  have p: "(2::int) ^ 31 = 2147483648" "(2::int) ^ 32 = 4294967296" by simp_all
  have lim: "0 \<le> uint ?q - uint ?r + d" "uint ?q - uint ?r + d < 2 ^ 32" "0 \<le> uint ?q + d" "uint ?q + d < 2 ^ 32"
    using b d unfolding p by linarith+
  have u1: "uint (?q - ?r + word_of_int d) = uint ?q - uint ?r + d"
    using uint_add_int[of "?q - ?r" d] lim(1,2) unfolding diff by blast
  have u2: "uint (?q + word_of_int d) = uint ?q + d" by (rule uint_add_int[OF lim(3,4)])
  have "\<not> ?s < ?q - ?r + word_of_int d" "?s < ?q + word_of_int d"
    unfolding word_less_def u1 u2 using gap by linarith+
  moreover have "0 < ?s" using u2 gap b d by (simp add: word_less_def)
  ultimately have upd: "UpdateItem loc slot d False ch =
      (i_id it, on_storage loc (set_cell slot (Some (setQuantity ?s it))) ch)"
    using it(1) inv(3) d(1) by (simp add: UpdateItem_def)
  have okc: "store_ok ?c" using inv(1) by (simp add: inventory_ok_def)
  have slot: "slot < length (m_ItemList ?c)" "cell ?c slot = Some it"
    using it(1) store_ok_sizeD[OF okc] by (auto simp: GetItem_cell)
  have qi: "int (qty_of (i_id it) it) = uint ?q" by (simp add: uint_qty_of)
  have "qty_of (i_id it) (setQuantity ?s it) = unat ?s" by (simp add: qty_of_def)
  moreover have "int (unat ?s) = uint ?s" by simp
  ultimately have "int (total_qty (i_id it) (snd (UpdateItem loc slot d False ch))) =
      int (total_qty (i_id it) ch) + (uint ?s - uint ?q)"
    unfolding upd snd_conv
    using total_qty_on_storage[OF inv(2), of "i_id it" "set_cell slot (Some (setQuantity ?s it))" ch]
      qty_set_cell[OF slot, of "i_id it" "setQuantity ?s it"] qi by linarith
  then show ?thesis using upd gap by simp
qed

definition wit_reserved :: character where
  "wit_reserved = on_storage 0 (set_cell 1 (Some (setReserve 2 (placed 1 0 wit_item)))) wit_char"

theorem UpdateItem_overfills_witness:
  "int (total_qty 4096 (snd (UpdateItem 0 1 10 False wit_reserved))) < int (total_qty 4096 wit_reserved) + 10"
proof -
  let ?it = "setReserve 2 (placed 1 0 wit_item)"
  have c: "store_ok (storage wit_char 0)" using wit_char_ok by (simp add: inventory_ok_def)
  have g: "GetItem 1 (storage wit_char 0) = Some (placed 1 0 wit_item)"
    by (simp add: wit_char_def wit_store_def wit_container_eq GetItem_def cell_def)
  have "inventory_ok wit_reserved" unfolding wit_reserved_def
    by (rule inventory_ok_on_storage[OF wit_char_ok]) (rule store_ok_overwrite[OF c g])
  moreover have "GetItem 1 (storage wit_reserved 0) = Some ?it"
    using GetItem_set_cell[OF c, of 1 1] g by (simp add: wit_reserved_def GetItem_cell)
  moreover have "sane ?it" "uint (i_quantity ?it) = 3" "uint (i_reserve ?it) = 2" "uint (i_stackSize ?it) = 12"
      "i_id ?it = 4096"
    by (simp_all add: sane_def wit_item_def new_item_def placed_def setReserve_def isType_def)
  moreover have "using_item wit_reserved = None" by (simp add: wit_reserved_def wit_char_def)
  ultimately show ?thesis
    using UpdateItem_overfills[of wit_reserved 0 1 ?it 10] by (simp add: MAX_CONTAINER_ID_def)
qed

end
