(* ===== verification/TreasurePool.thy ===== *)
theory TreasurePool
  imports CharInventory
begin

unbundle bit_operations_syntax

text \<open>
  The treasure pool, \<open>CTreasurePool\<close> of \<open>src/map/treasure_pool.cpp\<close>: ten items that the members
  of a party lot or pass on, and the evaluation that gives an item to the highest lot, to a random
  member, or to nobody.  A character is a number, its storages are those of \<open>CharInventory\<close>, and
  \<open>w_inPool\<close> says whether its pool pointer points to this pool; a destroyed pool is
  \<^term>\<open>None\<close>.  Times are milliseconds.  The packets that announce an outcome are a list of
  events; packets that only redraw the pool and the records of eminence are left out.
  The clock, the server start time, the random pick and the success of the database insertion are
  parameters.
\<close>

datatype TreasurePoolType = Solo | Party | Alliance | Zone

datatype pool_event =
    Win nat nat nat
  | WinError nat nat
  | Lost nat
  | LotMessage "nat option" nat nat nat nat

record pool_item =
  pi_ID :: nat
  pi_TimeStamp :: int
  pi_Lotters :: "(nat \<times> nat) list"

record pool =
  tp_type :: TreasurePoolType
  tp_count :: uint8
  tp_Tick :: int
  tp_items :: "pool_item list"
  tp_members :: "nat list"

record world =
  w_chars :: "nat \<Rightarrow> character"
  w_inPool :: "nat \<Rightarrow> bool"
  w_party :: "nat \<Rightarrow> bool"
  w_alliance :: "nat \<Rightarrow> bool"
  w_pool :: "pool option"
  w_events :: "pool_event list"

record env =
  e_templates :: templates
  e_start :: int
  e_pick :: "nat \<Rightarrow> nat"
  e_db :: bool

definition TREASUREPOOL_SIZE :: nat where "TREASUREPOOL_SIZE = 10"
definition treasure_checktime :: int where "treasure_checktime = 3000"
definition treasure_livetime :: int where "treasure_livetime = 300000"

definition new_pool :: "TreasurePoolType \<Rightarrow> pool" where
  "new_pool ty = \<lparr>tp_type = ty, tp_count = 0, tp_Tick = 0,
     tp_items = replicate TREASUREPOOL_SIZE \<lparr>pi_ID = 0, pi_TimeStamp = 0, pi_Lotters = []\<rparr>,
     tp_members = []\<rparr>"

abbreviation slot_of :: "pool \<Rightarrow> nat \<Rightarrow> pool_item" where
  "slot_of P s \<equiv> tp_items P ! s"

definition on_slot :: "nat \<Rightarrow> (pool_item \<Rightarrow> pool_item) \<Rightarrow> pool \<Rightarrow> pool" where
  "on_slot s f P = P\<lparr>tp_items := (tp_items P)[s := f (slot_of P s)]\<rparr>"

definition emit :: "pool_event \<Rightarrow> world \<Rightarrow> world" where
  "emit e w = w\<lparr>w_events := w_events w @ [e]\<rparr>"

abbreviation set_pool :: "pool \<Rightarrow> world \<Rightarrow> world" where
  "set_pool P w \<equiv> w\<lparr>w_pool := Some P\<rparr>"

definition free_slots :: "world \<Rightarrow> nat \<Rightarrow> uint8" where
  "free_slots w p = GetFreeSlotsCount (storage (w_chars w p) LOC_INVENTORY)"

section \<open>Members\<close>

definition addMember :: "nat \<Rightarrow> world \<Rightarrow> world" where
  "addMember p w =
     (case w_pool w of
        None \<Rightarrow> w
      | Some P \<Rightarrow>
          if \<not> w_inPool w p \<or> p \<in> set (tp_members P) then w
          else set_pool (P\<lparr>tp_members := tp_members P @ [p],
            tp_type := (if tp_type P = Solo \<and> w_party w p then Party
                        else if tp_type P = Party \<and> w_party w p \<and> w_alliance w p then Alliance
                        else tp_type P)\<rparr>) w)"

definition remove_lots :: "nat \<Rightarrow> pool \<Rightarrow> pool" where
  "remove_lots p P =
     P\<lparr>tp_items := map (\<lambda>it. it\<lparr>pi_Lotters := filter (\<lambda>l. fst l \<noteq> p) (pi_Lotters it)\<rparr>) (tp_items P)\<rparr>"

definition delMember :: "nat \<Rightarrow> world \<Rightarrow> world" where
  "delMember p w =
     (case w_pool w of
        None \<Rightarrow> w
      | Some P \<Rightarrow>
          if \<not> w_inPool w p then w
          else
            (let P1 = remove_lots p P;
                 found = p \<in> set (tp_members P1);
                 w1 = (if found then w\<lparr>w_inPool := (w_inPool w)(p := False)\<rparr> else w);
                 P2 = (if found then P1\<lparr>tp_members := remove1 p (tp_members P1)\<rparr> else P1);
                 P3 = (if (tp_type P2 = Party \<or> tp_type P2 = Alliance) \<and> length (tp_members P2) = 1
                       then P2\<lparr>tp_type := Solo\<rparr> else P2)
             in w1\<lparr>w_pool := (if tp_type P3 \<noteq> Zone \<and> tp_members P3 = [] then None else Some P3)\<rparr>))"

section \<open>Lots\<close>

definition hasLottedItem :: "nat \<Rightarrow> nat \<Rightarrow> pool \<Rightarrow> bool" where
  "hasLottedItem p s P \<longleftrightarrow> s < TREASUREPOOL_SIZE \<and> (\<exists>l \<in> set (pi_Lotters (slot_of P s)). fst l = p)"

definition hasPassedItem :: "nat \<Rightarrow> nat \<Rightarrow> pool \<Rightarrow> bool" where
  "hasPassedItem p s P =
     (if s < TREASUREPOOL_SIZE
      then (case List.find (\<lambda>l. fst l = p) (pi_Lotters (slot_of P s)) of
              None \<Rightarrow> False | Some l \<Rightarrow> snd l = 0)
      else False)"

text \<open>The first of the highest lots above zero.\<close>

definition highest :: "(nat \<times> nat) list \<Rightarrow> nat option \<times> nat" where
  "highest ls = fold (\<lambda>l best. if snd best < snd l then (Some (fst l), snd l) else best) ls (None, 0)"

section \<open>Outcomes\<close>

definition clear_slot :: "env \<Rightarrow> nat \<Rightarrow> pool \<Rightarrow> pool" where
  "clear_slot E s P =
     (on_slot s (\<lambda>it. it\<lparr>pi_TimeStamp := e_start E, pi_ID := 0, pi_Lotters := []\<rparr>) P)
       \<lparr>tp_count := tp_count P - 1\<rparr>"

definition treasureWon :: "env \<Rightarrow> nat \<Rightarrow> nat \<Rightarrow> pool \<Rightarrow> world \<Rightarrow> world" where
  "treasureWon E winner s P w =
     (if \<not> w_inPool w winner \<or> pi_ID (slot_of P s) = 0 then set_pool P w
      else emit (Win winner s (pi_ID (slot_of P s))) (set_pool (clear_slot E s P) w))"

definition treasureError :: "env \<Rightarrow> nat \<Rightarrow> nat \<Rightarrow> pool \<Rightarrow> world \<Rightarrow> world" where
  "treasureError E winner s P w =
     (if \<not> w_inPool w winner \<or> pi_ID (slot_of P s) = 0 then set_pool P w
      else emit (WinError winner s) (set_pool (clear_slot E s P) w))"

definition treasureLost :: "env \<Rightarrow> nat \<Rightarrow> pool \<Rightarrow> world \<Rightarrow> world" where
  "treasureLost E s P w =
     (if pi_ID (slot_of P s) = 0 then set_pool P w
      else emit (Lost s) (set_pool (clear_slot E s P) w))"

definition give :: "env \<Rightarrow> nat \<Rightarrow> nat \<Rightarrow> pool \<Rightarrow> world \<Rightarrow> world" where
  "give E p s P w =
     (let (r, ch) = AddItem (e_templates E) LOC_INVENTORY (pi_ID (slot_of P s)) 1 (e_db E) (w_chars w p);
          w1 = w\<lparr>w_chars := (w_chars w)(p := ch)\<rparr>
      in if r \<noteq> ERROR_SLOTID then treasureWon E p s P w1 else treasureError E p s P w1)"

text \<open>
  The members that may receive an item nobody lotted on; a member that owns a rare item whose
  template is gone dereferences a null pointer.
\<close>

fun candidates :: "env \<Rightarrow> world \<Rightarrow> pool \<Rightarrow> nat \<Rightarrow> nat list \<Rightarrow> nat list option" where
  "candidates E w P s [] = Some []"
| "candidates E w P s (p # ps) =
     (let ident = pi_ID (slot_of P s);
          owned = (if HasItem ident (w_chars w p)
                   then map_option (\<lambda>it. hasFlag it FLAG_RARE) (lookup (e_templates E) ident)
                   else Some False)
      in case (owned, candidates E w P s ps) of
           (Some True, Some cs) \<Rightarrow> Some cs
         | (Some False, Some cs) \<Rightarrow>
             Some (if free_slots w p \<noteq> 0 \<and> \<not> hasPassedItem p s P then p # cs else cs)
         | _ \<Rightarrow> None)"

definition due :: "int \<Rightarrow> nat \<Rightarrow> pool \<Rightarrow> world \<Rightarrow> bool" where
  "due tick s P w \<longleftrightarrow>
     treasure_livetime < tick - pi_TimeStamp (slot_of P s) \<or>
     (length (tp_members P) = 1 \<and> free_slots w (tp_members P ! 0) \<noteq> 0) \<or>
     length (pi_Lotters (slot_of P s)) = length (tp_members P)"

definition checkTreasureItem :: "env \<Rightarrow> int \<Rightarrow> nat \<Rightarrow> world \<Rightarrow> world option" where
  "checkTreasureItem E tick s w =
     (case w_pool w of
        None \<Rightarrow> None
      | Some P \<Rightarrow>
          if pi_ID (slot_of P s) = 0 \<or> \<not> due tick s P w then Some w
          else (case highest (pi_Lotters (slot_of P s)) of
                  (Some p, lot) \<Rightarrow>
                    if free_slots w p \<noteq> 0 then Some (give E p s P w) else Some (treasureLost E s P w)
                | (None, lot) \<Rightarrow>
                    (case candidates E w P s (tp_members P) of
                       None \<Rightarrow> None
                     | Some [] \<Rightarrow> Some (treasureLost E s P w)
                     | Some cs \<Rightarrow>
                         if e_pick E (length cs) < length cs
                         then Some (give E (cs ! e_pick E (length cs)) s P w)
                         else None)))"

section \<open>Adding an item\<close>

text \<open>
  The slot with the smallest time stamp among those that satisfy a condition; the time starts at
  the largest value of the clock, and a slot has to be strictly older to be chosen.
\<close>

definition oldest_slot :: "(pool_item \<Rightarrow> bool) \<Rightarrow> pool \<Rightarrow> nat option" where
  "oldest_slot ok P =
     fst (fold (\<lambda>s best. if ok (slot_of P s) \<and>
                  (case snd best of None \<Rightarrow> True | Some t \<Rightarrow> pi_TimeStamp (slot_of P s) < t)
                then (Some s, Some (pi_TimeStamp (slot_of P s))) else best)
          [0..<TREASUREPOOL_SIZE] (None, None))"

definition lacks_flags :: "env \<Rightarrow> uint32 \<Rightarrow> pool_item \<Rightarrow> bool" where
  "lacks_flags E f it =
     (case lookup (e_templates E) (pi_ID it) of None \<Rightarrow> False | Some tpl \<Rightarrow> \<not> hasFlag tpl f)"

text \<open>The slot a new item takes, and whether the pool was full.\<close>

definition choose_slot :: "env \<Rightarrow> pool \<Rightarrow> nat \<times> bool" where
  "choose_slot E P =
     (case List.find (\<lambda>s. pi_ID (slot_of P s) = 0) [0..<TREASUREPOOL_SIZE] of
        Some s \<Rightarrow> (s, False)
      | None \<Rightarrow>
          (case oldest_slot (lacks_flags E (FLAG_RARE OR FLAG_EXCLUSIVE)) P of
             Some s \<Rightarrow> (s, True)
           | None \<Rightarrow>
               (case oldest_slot (lacks_flags E FLAG_EXCLUSIVE) P of
                  Some s \<Rightarrow> (s, True)
                | None \<Rightarrow> (case oldest_slot (\<lambda>_. True) P of Some s \<Rightarrow> (s, True) | None \<Rightarrow> (0, True)))))"

definition addItem :: "env \<Rightarrow> int \<Rightarrow> nat \<Rightarrow> world \<Rightarrow> world option" where
  "addItem E now ident w =
     (case w_pool w of
        None \<Rightarrow> None
      | Some P \<Rightarrow>
          if lookup (e_templates E) ident = None then Some w
          else
            (let (s, full) = choose_slot E P;
                 evicted = (if full
                   then checkTreasureItem E now s
                          (set_pool (on_slot s (\<lambda>it. it\<lparr>pi_TimeStamp := e_start E\<rparr>) P) w)
                   else Some w)
             in case evicted of
                  None \<Rightarrow> None
                | Some w1 \<Rightarrow>
                    (case w_pool w1 of
                       None \<Rightarrow> None
                     | Some P1 \<Rightarrow>
                         (let P2 = on_slot s (\<lambda>it. it\<lparr>pi_ID := ident,
                                       pi_TimeStamp := now - treasure_checktime\<rparr>)
                                     (P1\<lparr>tp_count := tp_count P1 + 1\<rparr>);
                              w2 = set_pool P2 w1
                          in if length (tp_members P2) = 1 then checkTreasureItem E now s w2
                             else Some w2))))"

section \<open>Lotting and passing\<close>

definition lot_messages :: "nat \<Rightarrow> nat \<Rightarrow> nat \<Rightarrow> pool \<Rightarrow> world \<Rightarrow> world" where
  "lot_messages p s lot P w =
     (case highest (pi_Lotters (slot_of P s)) of
        (h, hl) \<Rightarrow> emit (LotMessage h hl p s lot) w)"

definition evaluate_if_complete :: "env \<Rightarrow> nat \<Rightarrow> pool \<Rightarrow> world \<Rightarrow> world option" where
  "evaluate_if_complete E s P w =
     (if length (pi_Lotters (slot_of P s)) = length (tp_members P)
      then checkTreasureItem E (tp_Tick P) s w else Some w)"

definition lotItem :: "env \<Rightarrow> nat \<Rightarrow> nat \<Rightarrow> nat \<Rightarrow> world \<Rightarrow> world option" where
  "lotItem E p s lot w =
     (case w_pool w of
        None \<Rightarrow> None
      | Some P \<Rightarrow>
          if \<not> w_inPool w p \<or> TREASUREPOOL_SIZE \<le> s then Some w
          else (case lookup (e_templates E) (pi_ID (slot_of P s)) of
                  None \<Rightarrow> Some w
                | Some tpl \<Rightarrow>
                    if free_slots w p = 0 then Some w
                    else if hasFlag tpl FLAG_RARE \<and> HasItem (pi_ID (slot_of P s)) (w_chars w p) then Some w
                    else (let P1 = on_slot s (\<lambda>it. it\<lparr>pi_Lotters := pi_Lotters it @ [(p, lot)]\<rparr>) P
                          in evaluate_if_complete E s P1 (lot_messages p s lot P1 (set_pool P1 w)))))"

fun set_lot :: "nat \<Rightarrow> nat \<Rightarrow> (nat \<times> nat) list \<Rightarrow> (nat \<times> nat) list" where
  "set_lot p v [] = []"
| "set_lot p v (l # ls) = (if fst l = p then (fst l, v) # ls else l # set_lot p v ls)"

definition passItem :: "env \<Rightarrow> nat \<Rightarrow> nat \<Rightarrow> world \<Rightarrow> world option" where
  "passItem E p s w =
     (case w_pool w of
        None \<Rightarrow> None
      | Some P \<Rightarrow>
          if \<not> w_inPool w p \<or> TREASUREPOOL_SIZE \<le> s then Some w
          else (let ls = pi_Lotters (slot_of P s);
                    ls' = (if \<exists>l \<in> set ls. fst l = p then set_lot p 0 ls else ls @ [(p, 0)]);
                    P1 = on_slot s (\<lambda>it. it\<lparr>pi_Lotters := ls'\<rparr>) P
                in evaluate_if_complete E s P1 (lot_messages p s 65535 P1 (set_pool P1 w))))"

section \<open>The periodic check\<close>

fun check_slots :: "env \<Rightarrow> int \<Rightarrow> nat list \<Rightarrow> world \<Rightarrow> world option" where
  "check_slots E tick [] w = Some w"
| "check_slots E tick (s # ss) w =
     (case checkTreasureItem E tick s w of None \<Rightarrow> None | Some w' \<Rightarrow> check_slots E tick ss w')"

definition checkItems :: "env \<Rightarrow> int \<Rightarrow> world \<Rightarrow> world option" where
  "checkItems E tick w =
     (case w_pool w of
        None \<Rightarrow> None
      | Some P \<Rightarrow>
          if tp_count P \<noteq> 0 \<and> treasure_checktime < tick - tp_Tick P
          then (case check_slots E tick [0..<TREASUREPOOL_SIZE] w of
                  None \<Rightarrow> None
                | Some w' \<Rightarrow> Some (w'\<lparr>w_pool := map_option (\<lambda>P. P\<lparr>tp_Tick := tick\<rparr>) (w_pool w')\<rparr>))
          else Some w)"

definition flush :: "env \<Rightarrow> int \<Rightarrow> world \<Rightarrow> world option" where
  "flush E now w =
     (case w_pool w of
        None \<Rightarrow> None
      | Some P \<Rightarrow>
          if tp_count P \<noteq> 0
          then check_slots E (now + treasure_checktime + 1000) [0..<TREASUREPOOL_SIZE] w
          else Some w)"

section \<open>The packets\<close>

definition trophy_entry :: "env \<Rightarrow> nat \<Rightarrow> nat \<Rightarrow> nat \<Rightarrow> world \<Rightarrow> world option" where
  "trophy_entry E p s lot w =
     (case w_pool w of
        None \<Rightarrow> None
      | Some P \<Rightarrow> if \<not> hasLottedItem p s P then lotItem E p s lot w else Some w)"

definition trophy_absence :: "env \<Rightarrow> nat \<Rightarrow> nat \<Rightarrow> world \<Rightarrow> world option" where
  "trophy_absence E p s w =
     (case w_pool w of
        None \<Rightarrow> None
      | Some P \<Rightarrow> if \<not> hasPassedItem p s P then passItem E p s w else Some w)"

section \<open>The invariant of the pool\<close>

definition used_slots :: "pool \<Rightarrow> nat set" where
  "used_slots P = {s. s < TREASUREPOOL_SIZE \<and> pi_ID (slot_of P s) \<noteq> 0}"

definition lots_ok :: "nat list \<Rightarrow> pool_item \<Rightarrow> bool" where
  "lots_ok ms it \<longleftrightarrow> distinct (map fst (pi_Lotters it)) \<and> fst ` set (pi_Lotters it) \<subseteq> set ms"

definition pool_inv :: "(nat \<Rightarrow> bool) \<Rightarrow> pool \<Rightarrow> bool" where
  "pool_inv inPool P \<longleftrightarrow> length (tp_items P) = TREASUREPOOL_SIZE \<and>
     unat (tp_count P) = card (used_slots P) \<and> distinct (tp_members P) \<and>
     (\<forall>p. inPool p \<longleftrightarrow> p \<in> set (tp_members P)) \<and> (\<forall>it \<in> set (tp_items P). lots_ok (tp_members P) it)"

definition pool_ok :: "world \<Rightarrow> bool" where
  "pool_ok w \<longleftrightarrow> (case w_pool w of None \<Rightarrow> True | Some P \<Rightarrow> pool_inv (w_inPool w) P)"

lemma card_used_slots_le: "card (used_slots P) \<le> TREASUREPOOL_SIZE"
proof -
  have "used_slots P \<subseteq> {..<TREASUREPOOL_SIZE}" by (auto simp: used_slots_def)
  from card_mono[OF _ this] show ?thesis by simp
qed

lemma finite_used_slots [simp]: "finite (used_slots P)"
  by (simp add: used_slots_def)

lemma on_slot_simps [simp]:
  "tp_count (on_slot s f P) = tp_count P" "tp_members (on_slot s f P) = tp_members P"
  "tp_Tick (on_slot s f P) = tp_Tick P" "tp_type (on_slot s f P) = tp_type P"
  "length (tp_items (on_slot s f P)) = length (tp_items P)"
  "tp_items (on_slot s f (P\<lparr>tp_count := c\<rparr>)) = tp_items (on_slot s f P)"
  by (simp_all add: on_slot_def)

lemma slot_on_slot:
  "s < length (tp_items P) \<Longrightarrow> slot_of (on_slot s f P) t = (if t = s then f (slot_of P s) else slot_of P t)"
  by (simp add: on_slot_def nth_list_update)

lemma used_slots_count [simp]:
  "used_slots (P\<lparr>tp_count := c\<rparr>) = used_slots P" "used_slots (P\<lparr>tp_Tick := t\<rparr>) = used_slots P"
  "used_slots (P\<lparr>tp_members := m\<rparr>) = used_slots P" "used_slots (P\<lparr>tp_type := ty\<rparr>) = used_slots P"
  by (simp_all add: used_slots_def)

lemma used_slots_on_slot:
  assumes "s < TREASUREPOOL_SIZE" "length (tp_items P) = TREASUREPOOL_SIZE"
  shows "used_slots (on_slot s f P) =
    (if pi_ID (f (slot_of P s)) = 0 then used_slots P - {s} else insert s (used_slots P))"
  using assms by (auto simp: used_slots_def slot_on_slot)

lemma lots_on_slot:
  assumes "\<forall>it \<in> set (tp_items P). lots_ok ms it" "s < length (tp_items P)"
    "lots_ok ms (slot_of P s) \<Longrightarrow> lots_ok ms (f (slot_of P s))"
  shows "\<forall>it \<in> set (tp_items (on_slot s f P)). lots_ok ms it"
  using assms by (auto simp: on_slot_def dest: set_update_subset_insert[THEN subsetD])

lemma pool_inv_on_slot:
  assumes "pool_inv ip P" "s < TREASUREPOOL_SIZE" "pi_ID (f (slot_of P s)) = pi_ID (slot_of P s)"
    "lots_ok (tp_members P) (f (slot_of P s))"
  shows "pool_inv ip (on_slot s f P)"
proof -
  have "used_slots (on_slot s f P) = used_slots P"
    using assms(1-3) by (auto simp: used_slots_on_slot pool_inv_def) (auto simp: used_slots_def)
  then show ?thesis
    using assms lots_on_slot[of P "tp_members P" s f] by (simp add: pool_inv_def)
qed

lemma pool_inv_clear_slot:
  assumes "pool_inv ip P" "s < TREASUREPOOL_SIZE" "pi_ID (slot_of P s) \<noteq> 0"
  shows "pool_inv ip (clear_slot E s P)"
proof -
  have mem: "s \<in> used_slots P" using assms by (simp add: used_slots_def)
  then have "0 < card (used_slots P)" by (auto simp: card_gt_0_iff)
  then have "unat (tp_count P - 1) = card (used_slots P - {s})"
    using assms(1) mem by (simp add: unat_dec8 pool_inv_def)
  then show ?thesis
    using assms
      lots_on_slot[of P "tp_members P" s "\<lambda>it. it\<lparr>pi_TimeStamp := e_start E, pi_ID := 0, pi_Lotters := []\<rparr>"]
    by (simp add: clear_slot_def pool_inv_def used_slots_on_slot lots_ok_def)
qed

lemma pool_inv_fill_slot:
  assumes "pool_inv ip P" "s < TREASUREPOOL_SIZE" "pi_ID (slot_of P s) = 0" "ident \<noteq> 0"
  shows "pool_inv ip (on_slot s (\<lambda>it. it\<lparr>pi_ID := ident, pi_TimeStamp := t\<rparr>) (P\<lparr>tp_count := tp_count P + 1\<rparr>))"
proof -
  have new: "s \<notin> used_slots P" using assms by (simp add: used_slots_def)
  have "unat (tp_count P + 1) = card (insert s (used_slots P))"
    using assms(1) new card_used_slots_le[of P] unat_inc8[of "tp_count P"]
    by (simp add: pool_inv_def TREASUREPOOL_SIZE_def)
  moreover have "lots_ok ms (it\<lparr>pi_ID := ident, pi_TimeStamp := t\<rparr>) = lots_ok ms it" for ms it
    by (simp add: lots_ok_def)
  ultimately show ?thesis
    using assms lots_on_slot[of P "tp_members P" s "\<lambda>it. it\<lparr>pi_ID := ident, pi_TimeStamp := t\<rparr>"]
    by (simp add: pool_inv_def used_slots_on_slot)
qed

section \<open>What an evaluation does\<close>

lemma highest_Some:
  assumes "highest ls = (Some p, lot)"
  shows "(p, lot) \<in> set ls \<and> 0 < lot \<and> (\<forall>l \<in> set ls. snd l \<le> lot)"
proof -
  have "case fold (\<lambda>l best. if snd best < snd l then (Some (fst l), snd l) else best) ls (None, 0) of
      (None, m) \<Rightarrow> m = 0 \<and> (\<forall>l \<in> set ls. snd l = 0)
    | (Some q, m) \<Rightarrow> (q, m) \<in> set ls \<and> 0 < m \<and> (\<forall>l \<in> set ls. snd l \<le> m)"
  proof (induction ls rule: rev_induct)
    case (snoc x xs)
    obtain h m where f: "fold (\<lambda>l best. if snd best < snd l then (Some (fst l), snd l) else best) xs (None, 0) = (h, m)"
      by fastforce
    show ?case
    proof (cases "m < snd x")
      case True
      moreover have "snd l \<le> m" if "l \<in> set xs" for l using snoc f that by (cases h) auto
      ultimately show ?thesis using f by (cases x) fastforce
    next
      case False
      then show ?thesis using snoc f by (cases h) auto
    qed
  qed simp
  with assms show ?thesis by (simp add: highest_def split: prod.splits option.splits)
qed

lemma highest_None:
  assumes "highest ls = (None, lot)"
  shows "\<forall>l \<in> set ls. snd l = 0"
proof -
  have "case fold (\<lambda>l best. if snd best < snd l then (Some (fst l), snd l) else best) ls (None, 0) of
      (None, m) \<Rightarrow> m = 0 \<and> (\<forall>l \<in> set ls. snd l = 0)
    | (Some q, m) \<Rightarrow> 0 < m"
    by (induction ls rule: rev_induct) (auto split: option.splits prod.splits)
  with assms show ?thesis by (simp add: highest_def split: prod.splits option.splits)
qed

lemma candidates_sound:
  "candidates E w P s ps = Some cs \<Longrightarrow> p \<in> set cs \<Longrightarrow>
     p \<in> set ps \<and> free_slots w p \<noteq> 0 \<and> \<not> hasPassedItem p s P"
  by (induction ps arbitrary: cs) (auto simp: Let_def split: option.splits bool.splits if_splits)

text \<open>Who may get the item of a slot: the highest lot, or, if nobody lotted, someone who did not pass.\<close>

definition entitled :: "nat \<Rightarrow> nat \<Rightarrow> pool \<Rightarrow> bool" where
  "entitled p s P \<longleftrightarrow> p \<in> set (tp_members P) \<and>
     (case highest (pi_Lotters (slot_of P s)) of
        (Some q, lot) \<Rightarrow> p = q
      | (None, lot) \<Rightarrow> (\<forall>l \<in> set (pi_Lotters (slot_of P s)). snd l = 0) \<and> \<not> hasPassedItem p s P)"

definition received :: "env \<Rightarrow> nat \<Rightarrow> nat \<Rightarrow> pool \<Rightarrow> world \<Rightarrow> nat \<times> character" where
  "received E p s P w =
     AddItem (e_templates E) LOC_INVENTORY (pi_ID (slot_of P s)) 1 (e_db E) (w_chars w p)"

definition resolved :: "env \<Rightarrow> nat \<Rightarrow> pool \<Rightarrow> world \<Rightarrow> world \<Rightarrow> bool" where
  "resolved E s P w w' \<longleftrightarrow> w_pool w' = Some (clear_slot E s P) \<and> w_inPool w' = w_inPool w \<and>
     (w_chars w' = w_chars w \<and> w_events w' = w_events w @ [Lost s] \<or>
      (\<exists>p. entitled p s P \<and> free_slots w p \<noteq> 0 \<and>
         w_chars w' = (w_chars w)(p := snd (received E p s P w)) \<and>
         w_events w' = w_events w @
           [if fst (received E p s P w) \<noteq> ERROR_SLOTID then Win p s (pi_ID (slot_of P s)) else WinError p s]))"

lemma give_resolved:
  assumes "w_inPool w p" "pi_ID (slot_of P s) \<noteq> 0" "entitled p s P" "free_slots w p \<noteq> 0"
  shows "resolved E s P w (give E p s P w)"
proof -
  obtain r ch where r: "received E p s P w = (r, ch)" by fastforce
  have "w_pool (give E p s P w) = Some (clear_slot E s P)" "w_inPool (give E p s P w) = w_inPool w"
    "w_chars (give E p s P w) = (w_chars w)(p := ch)"
    "w_events (give E p s P w) = w_events w @
       [if r \<noteq> ERROR_SLOTID then Win p s (pi_ID (slot_of P s)) else WinError p s]"
    using assms(1,2) r
    by (simp_all add: give_def received_def treasureWon_def treasureError_def emit_def Let_def)
  then show ?thesis
    unfolding resolved_def using assms(3,4) r by (intro conjI disjI2 exI[of _ p]) simp_all
qed

lemma check_cases:
  assumes inv: "pool_inv (w_inPool w) P" and P: "w_pool w = Some P" and s: "s < TREASUREPOOL_SIZE"
    and c: "checkTreasureItem E tick s w = Some w'"
  shows "if pi_ID (slot_of P s) \<noteq> 0 \<and> due tick s P w then resolved E s P w w' else w' = w"
proof (cases "pi_ID (slot_of P s) \<noteq> 0 \<and> due tick s P w")
  case True
  let ?ls = "pi_Lotters (slot_of P s)"
  have lost: "resolved E s P w (treasureLost E s P w)"
    using True by (simp add: treasureLost_def resolved_def emit_def)
  have lots: "fst ` set ?ls \<subseteq> set (tp_members P)"
    using inv s by (simp add: pool_inv_def lots_ok_def)
  show ?thesis
  proof (cases "highest ?ls")
    case (Pair h lot)
    show ?thesis
    proof (cases h)
      case (Some p)
      have "(p, lot) \<in> set ?ls" using highest_Some Pair Some by blast
      then have "p \<in> set (tp_members P)" using lots by force
      then have "entitled p s P" "w_inPool w p"
        using Pair Some inv by (simp_all add: entitled_def pool_inv_def)
      then show ?thesis
        using True c P Pair Some lost give_resolved[of w p P s E]
        by (auto simp: checkTreasureItem_def split: if_splits)
    next
      case None
      then obtain cs where cs: "candidates E w P s (tp_members P) = Some cs"
        using c P True Pair by (auto simp: checkTreasureItem_def split: option.splits)
      show ?thesis
      proof (cases cs)
        case Nil
        then show ?thesis using c P True Pair None cs lost by (simp add: checkTreasureItem_def)
      next
        case (Cons a as)
        let ?p = "cs ! e_pick E (length cs)"
        have pick: "e_pick E (length cs) < length cs" "w' = give E ?p s P w"
          using c P True Pair None cs Cons by (auto simp: checkTreasureItem_def split: if_splits)
        have "?p \<in> set cs" using pick(1) by simp
        note sound = candidates_sound[OF cs this]
        moreover have "\<forall>l \<in> set ?ls. snd l = 0" using highest_None Pair None by blast
        ultimately have "entitled ?p s P" using Pair None by (simp add: entitled_def)
        moreover have "w_inPool w ?p" using sound inv by (simp add: pool_inv_def)
        ultimately show ?thesis
          using give_resolved[of w ?p P s E] sound True pick(2) by simp
      qed
    qed
  qed
next
  case False
  then show ?thesis using c P by (auto simp: checkTreasureItem_def)
qed

lemma check_pool_ok:
  assumes "pool_ok w" "s < TREASUREPOOL_SIZE" "checkTreasureItem E tick s w = Some w'"
  shows "pool_ok w'"
proof -
  obtain P where P: "w_pool w = Some P" using assms(3) by (auto simp: checkTreasureItem_def split: option.splits)
  with assms(1) have inv: "pool_inv (w_inPool w) P" by (simp add: pool_ok_def)
  show ?thesis
    using check_cases[OF inv P assms(2,3)] assms(1) pool_inv_clear_slot[OF inv assms(2)]
    by (auto simp: resolved_def pool_ok_def split: if_splits)
qed

section \<open>The operations keep the invariant\<close>

lemma pool_ok_Some: "w_pool w = Some P \<Longrightarrow> pool_ok w \<longleftrightarrow> pool_inv (w_inPool w) P"
  by (simp add: pool_ok_def)

lemma oldest_slot_range:
  assumes "oldest_slot ok P = Some s"
  shows "s < TREASUREPOOL_SIZE"
proof -
  let ?f = "\<lambda>s best. if ok (slot_of P s) \<and>
      (case snd best of None \<Rightarrow> True | Some t \<Rightarrow> pi_TimeStamp (slot_of P s) < t)
    then (Some s, Some (pi_TimeStamp (slot_of P s))) else best"
  have "case fst (fold ?f xs (None, None)) of None \<Rightarrow> True | Some s \<Rightarrow> s \<in> set xs" for xs
    by (induction xs rule: rev_induct) (auto split: option.splits)
  from this[of "[0..<TREASUREPOOL_SIZE]"] assms show ?thesis
    unfolding oldest_slot_def by (simp only: option.case set_upt) simp
qed

lemma choose_slot_cases:
  assumes "choose_slot E P = (s, full)"
  shows "s < TREASUREPOOL_SIZE \<and> (full \<longrightarrow> (\<forall>t < TREASUREPOOL_SIZE. pi_ID (slot_of P t) \<noteq> 0)) \<and>
    (\<not> full \<longrightarrow> pi_ID (slot_of P s) = 0)"
proof (cases "List.find (\<lambda>s. pi_ID (slot_of P s) = 0) [0..<TREASUREPOOL_SIZE]")
  case None
  then have "\<forall>t < TREASUREPOOL_SIZE. pi_ID (slot_of P t) \<noteq> 0" by (simp add: find_None_upt)
  moreover have "full" using assms unfolding choose_slot_def None by (auto split: option.splits)
  moreover have "s < TREASUREPOOL_SIZE"
    using assms oldest_slot_range unfolding choose_slot_def None
    by (auto simp: TREASUREPOOL_SIZE_def split: option.splits)
  ultimately show ?thesis by simp
next
  case (Some t)
  then show ?thesis using assms find_Some_upt[OF Some] by (auto simp: choose_slot_def)
qed

lemma add_evicts:
  assumes inv: "pool_inv (w_inPool w) P" and P: "w_pool w = Some P" and s: "s < TREASUREPOOL_SIZE"
    and id: "pi_ID (slot_of P s) \<noteq> 0" and up: "treasure_livetime < now - e_start E"
    and c: "checkTreasureItem E now s (set_pool (on_slot s (\<lambda>it. it\<lparr>pi_TimeStamp := e_start E\<rparr>) P) w) = Some w'"
  shows "\<exists>P'. w_pool w' = Some P' \<and> pool_inv (w_inPool w') P' \<and> pi_ID (slot_of P' s) = 0"
proof -
  let ?P = "on_slot s (\<lambda>it. it\<lparr>pi_TimeStamp := e_start E\<rparr>) P"
  let ?w = "set_pool ?P w"
  have len: "s < length (tp_items P)" using inv s by (simp add: pool_inv_def)
  have "lots_ok (tp_members P) (slot_of P s)" using inv len by (simp add: pool_inv_def)
  then have inv': "pool_inv (w_inPool ?w) ?P"
    using inv s by (intro pool_inv_on_slot) (simp_all add: lots_ok_def)
  have "pi_ID (slot_of ?P s) \<noteq> 0 \<and> due now s ?P ?w"
    using id up len by (simp add: due_def slot_on_slot)
  with check_cases[OF inv' _ s c] have r: "w_pool w' = Some (clear_slot E s ?P)" "w_inPool w' = w_inPool w"
    by (simp_all add: resolved_def)
  have "pi_ID (slot_of (clear_slot E s ?P) s) = 0"
    using len by (simp add: clear_slot_def on_slot_def)
  moreover have "pool_inv (w_inPool w) (clear_slot E s ?P)"
    using pool_inv_clear_slot[OF inv' s, of E] id len by (simp add: slot_on_slot)
  ultimately show ?thesis using r by simp
qed

lemma addItem_pool_ok:
  assumes ok: "pool_ok w" and up: "treasure_livetime < now - e_start E" and id: "ident \<noteq> 0"
    and a: "addItem E now ident w = Some w'"
  shows "pool_ok w'"
proof -
  obtain P where P: "w_pool w = Some P" using a by (auto simp: addItem_def split: option.splits)
  have inv: "pool_inv (w_inPool w) P" using ok P by (simp add: pool_ok_def)
  show ?thesis
  proof (cases "lookup (e_templates E) ident = None")
    case True
    then show ?thesis using a P ok by (simp add: addItem_def)
  next
    case False
    obtain s full where c: "choose_slot E P = (s, full)" by fastforce
    note ch = choose_slot_cases[OF c]
    let ?ev = "if full then checkTreasureItem E now s
        (set_pool (on_slot s (\<lambda>it. it\<lparr>pi_TimeStamp := e_start E\<rparr>) P) w) else Some w"
    obtain w1 where w1: "?ev = Some w1"
      using a P False c by (cases ?ev) (auto simp: addItem_def Let_def)
    have "\<exists>P1. w_pool w1 = Some P1 \<and> pool_inv (w_inPool w1) P1 \<and> pi_ID (slot_of P1 s) = 0"
    proof (cases full)
      case True
      then show ?thesis using add_evicts[OF inv P _ _ up] ch w1 by simp
    next
      case False
      then show ?thesis using w1 P inv ch by simp
    qed
    then obtain P1 where P1: "w_pool w1 = Some P1" "pool_inv (w_inPool w1) P1" "pi_ID (slot_of P1 s) = 0"
      by blast
    let ?P2 = "on_slot s (\<lambda>it. it\<lparr>pi_ID := ident, pi_TimeStamp := now - treasure_checktime\<rparr>)
      (P1\<lparr>tp_count := tp_count P1 + 1\<rparr>)"
    have "pool_inv (w_inPool w1) ?P2" using pool_inv_fill_slot[OF P1(2) _ P1(3) id] ch by simp
    then have ok2: "pool_ok (set_pool ?P2 w1)" by (simp add: pool_ok_def)
    have "(if length (tp_members ?P2) = 1 then checkTreasureItem E now s (set_pool ?P2 w1)
        else Some (set_pool ?P2 w1)) = Some w'"
      using a P False c w1 P1(1) by (simp add: addItem_def Let_def)
    then show ?thesis using check_pool_ok[OF ok2] ch ok2 by (auto split: if_splits)
  qed
qed

lemma evaluate_pool_ok:
  assumes "pool_ok w" "s < TREASUREPOOL_SIZE" "evaluate_if_complete E s P w = Some w'"
  shows "pool_ok w'"
  using assms check_pool_ok by (auto simp: evaluate_if_complete_def split: if_splits)

lemma pool_ok_lot_messages [simp]: "pool_ok (lot_messages p s lot P w) = pool_ok w"
  by (cases "highest (pi_Lotters (slot_of P s))"; cases "w_pool w")
    (simp_all add: lot_messages_def emit_def pool_ok_def)

lemma lots_pool_ok:
  assumes "pool_inv (w_inPool w) P" "s < TREASUREPOOL_SIZE"
    "lots_ok (tp_members P) (slot_of P s) \<Longrightarrow> lots_ok (tp_members P) (f (slot_of P s))"
    "pi_ID (f (slot_of P s)) = pi_ID (slot_of P s)"
  shows "pool_ok (set_pool (on_slot s f P) w)"
proof -
  have "lots_ok (tp_members P) (slot_of P s)" using assms(1,2) by (simp add: pool_inv_def)
  then show ?thesis
    using pool_inv_on_slot[where f = f, OF assms(1,2,4)] assms(3) by (simp add: pool_ok_def)
qed

lemma fst_set_lot: "map fst (set_lot p v ls) = map fst ls"
  by (induction ls) auto

lemma trophy_entry_pool_ok:
  assumes "pool_ok w" "trophy_entry E p s lot w = Some w'"
  shows "pool_ok w'"
proof -
  obtain P where P: "w_pool w = Some P" using assms(2) by (auto simp: trophy_entry_def split: option.splits)
  have inv: "pool_inv (w_inPool w) P" using assms(1) P by (simp add: pool_ok_def)
  let ?f = "\<lambda>it. it\<lparr>pi_Lotters := pi_Lotters it @ [(p, lot)]\<rparr>"
  let ?P1 = "on_slot s ?f P"
  show ?thesis
  proof (cases "w' = w")
    case False
    then have g: "\<not> hasLottedItem p s P" "w_inPool w p" "s < TREASUREPOOL_SIZE"
      and ev: "evaluate_if_complete E s ?P1 (lot_messages p s lot ?P1 (set_pool ?P1 w)) = Some w'"
      using assms(2) P by (auto simp: trophy_entry_def lotItem_def Let_def split: if_splits option.splits)
    have "pool_ok (set_pool ?P1 w)"
    proof (rule lots_pool_ok[OF inv g(3)])
      have "p \<in> set (tp_members P)" using inv g(2) by (simp add: pool_inv_def)
      moreover have "p \<notin> fst ` set (pi_Lotters (slot_of P s))" using g(1,3) by (auto simp: hasLottedItem_def)
      moreover assume "lots_ok (tp_members P) (slot_of P s)"
      ultimately show "lots_ok (tp_members P) (?f (slot_of P s))" by (simp add: lots_ok_def)
    qed simp
    then show ?thesis using evaluate_pool_ok[OF _ g(3) ev] by simp
  qed (use assms in simp)
qed

lemma trophy_absence_pool_ok:
  assumes "pool_ok w" "trophy_absence E p s w = Some w'"
  shows "pool_ok w'"
proof -
  obtain P where P: "w_pool w = Some P" using assms(2) by (auto simp: trophy_absence_def split: option.splits)
  have inv: "pool_inv (w_inPool w) P" using assms(1) P by (simp add: pool_ok_def)
  let ?g = "\<lambda>ls. if \<exists>l \<in> set ls. fst l = p then set_lot p 0 ls else ls @ [(p, 0)]"
  let ?f = "\<lambda>it. it\<lparr>pi_Lotters := ?g (pi_Lotters (slot_of P s))\<rparr>"
  let ?P1 = "on_slot s ?f P"
  show ?thesis
  proof (cases "w' = w")
    case False
    then have g: "w_inPool w p" "s < TREASUREPOOL_SIZE"
      and ev: "evaluate_if_complete E s ?P1 (lot_messages p s 65535 ?P1 (set_pool ?P1 w)) = Some w'"
      using assms(2) P by (auto simp: trophy_absence_def passItem_def Let_def split: if_splits)
    have "pool_ok (set_pool ?P1 w)"
    proof (rule lots_pool_ok[OF inv g(2)])
      have "p \<in> set (tp_members P)" using inv g(1) by (simp add: pool_inv_def)
      moreover assume "lots_ok (tp_members P) (slot_of P s)"
      moreover have "fst ` set (set_lot p 0 ls) = fst ` set ls" for ls
        using fst_set_lot[of p 0 ls] by (metis set_map)
      ultimately show "lots_ok (tp_members P) (?f (slot_of P s))"
        by (auto simp: lots_ok_def fst_set_lot image_iff)
    qed simp
    then show ?thesis using evaluate_pool_ok[OF _ g(2) ev] by simp
  qed (use assms in simp)
qed

lemma check_slots_pool_ok:
  "pool_ok w \<Longrightarrow> \<forall>s \<in> set ss. s < TREASUREPOOL_SIZE \<Longrightarrow> check_slots E tick ss w = Some w' \<Longrightarrow> pool_ok w'"
  by (induction ss arbitrary: w) (auto split: option.splits dest: check_pool_ok)

lemma checkItems_pool_ok:
  assumes "pool_ok w" "checkItems E tick w = Some w'"
  shows "pool_ok w'"
proof -
  have tick: "pool_ok (w1\<lparr>w_pool := map_option (\<lambda>P. P\<lparr>tp_Tick := tick\<rparr>) (w_pool w1)\<rparr>) = pool_ok w1" for w1
    by (cases "w_pool w1") (simp_all add: pool_ok_def pool_inv_def)
  show ?thesis
    using assms check_slots_pool_ok[OF assms(1), of "[0..<TREASUREPOOL_SIZE]" E tick] tick
    by (auto simp: checkItems_def split: option.splits if_splits)
qed

lemma flush_pool_ok: "pool_ok w \<Longrightarrow> flush E now w = Some w' \<Longrightarrow> pool_ok w'"
  using check_slots_pool_ok[of w "[0..<TREASUREPOOL_SIZE]"]
  by (auto simp: flush_def split: option.splits if_splits)

text \<open>Joining sets the pool pointer of the character and then adds it to the members.\<close>

definition join :: "nat \<Rightarrow> world \<Rightarrow> world" where
  "join p w = addMember p (w\<lparr>w_inPool := (w_inPool w)(p := True)\<rparr>)"

lemma lots_ok_mono: "lots_ok ms it \<Longrightarrow> set ms \<subseteq> set ms' \<Longrightarrow> lots_ok ms' it"
  by (auto simp: lots_ok_def)

lemma join_pool_ok:
  assumes "pool_ok w"
  shows "pool_ok (join p w)"
proof (cases "w_pool w")
  case None
  then show ?thesis by (simp add: join_def addMember_def pool_ok_def)
next
  case (Some P)
  then have inv: "pool_inv (w_inPool w) P" using assms by (simp add: pool_ok_def)
  show ?thesis
  proof (cases "p \<in> set (tp_members P)")
    case True
    then have "(w_inPool w)(p := True) = w_inPool w"
      using inv by (intro fun_upd_idem) (simp add: pool_inv_def)
    then show ?thesis using Some True inv by (simp add: join_def addMember_def pool_ok_def)
  next
    case False
    then show ?thesis
      using Some inv lots_ok_mono[of "tp_members P" _ "tp_members P @ [p]"]
      by (auto simp: join_def addMember_def pool_ok_def pool_inv_def)
  qed
qed

lemma delMember_pool_ok:
  assumes "pool_ok w"
  shows "pool_ok (delMember p w)"
proof (cases "w_pool w")
  case None
  then show ?thesis by (simp add: delMember_def pool_ok_def)
next
  case (Some P)
  then have inv: "pool_inv (w_inPool w) P" using assms by (simp add: pool_ok_def)
  show ?thesis
  proof (cases "w_inPool w p")
    case False
    then show ?thesis using Some assms by (simp add: delMember_def)
  next
    case True
    then have mem: "p \<in> set (tp_members P)" using inv by (simp add: pool_inv_def)
    let ?P = "remove_lots p P\<lparr>tp_members := remove1 p (tp_members P)\<rparr>"
    have used: "used_slots (remove_lots p P) = used_slots P"
      using inv by (auto simp: used_slots_def remove_lots_def pool_inv_def)
    have lots: "lots_ok (remove1 p (tp_members P)) (it\<lparr>pi_Lotters := filter (\<lambda>l. fst l \<noteq> p) (pi_Lotters it)\<rparr>)"
      if "lots_ok (tp_members P) it" for it
      using that inv by (auto simp: lots_ok_def pool_inv_def distinct_map_filter in_set_remove1)
    have new: "pool_inv ((w_inPool w)(p := False)) ?P"
      using inv used lots by (auto simp: pool_inv_def) (auto simp: remove_lots_def pool_inv_def)
    have "pool_inv ip (P'\<lparr>tp_type := ty\<rparr>) = pool_inv ip P'" for ip P' ty by (simp add: pool_inv_def)
    then show ?thesis
      using Some True mem new
      by (simp add: delMember_def Let_def pool_ok_def remove_lots_def)
  qed
qed

section \<open>Every run of the pool\<close>

text \<open>One event of the life of a pool, on a server that has been up for the life time of an item.\<close>

inductive pool_step :: "env \<Rightarrow> world \<Rightarrow> world \<Rightarrow> bool" for E where
  drop_item: "addItem E now ident w = Some w' \<Longrightarrow> ident \<noteq> 0 \<Longrightarrow> treasure_livetime < now - e_start E \<Longrightarrow>
    pool_step E w w'"
| lot: "trophy_entry E p s n w = Some w' \<Longrightarrow> pool_step E w w'"
| pass: "trophy_absence E p s w = Some w' \<Longrightarrow> pool_step E w w'"
| tick: "checkItems E now w = Some w' \<Longrightarrow> pool_step E w w'"
| flushed: "flush E now w = Some w' \<Longrightarrow> pool_step E w w'"
| joins: "pool_step E w (join p w)"
| leaves: "pool_step E w (delMember p w)"

inductive_cases pool_stepE: "pool_step E w w'"

lemma pool_step_ok: "pool_step E w w' \<Longrightarrow> pool_ok w \<Longrightarrow> pool_ok w'"
  by (erule pool_stepE)
    (auto intro: addItem_pool_ok trophy_entry_pool_ok trophy_absence_pool_ok checkItems_pool_ok
      flush_pool_ok join_pool_ok delMember_pool_ok)

definition start_world :: "TreasurePoolType \<Rightarrow> (nat \<Rightarrow> character) \<Rightarrow> world" where
  "start_world ty chars = \<lparr>w_chars = chars, w_inPool = (\<lambda>_. False), w_party = (\<lambda>_. False),
     w_alliance = (\<lambda>_. False), w_pool = Some (new_pool ty), w_events = []\<rparr>"

lemma start_pool_ok: "pool_ok (start_world ty chars)"
  by (auto simp: start_world_def pool_ok_def pool_inv_def new_pool_def lots_ok_def used_slots_def
      TREASUREPOOL_SIZE_def)

text \<open>
  C20: in every run of a treasure pool in which items drop only once the server has been up for
  longer than the life time of an item (five minutes), whatever items drop and whatever the members
  lot, pass, join and leave, the item count is the number of filled slots, at most ten, every lot on an item
  belongs to a member, and no member has two lots on one item.  During the first five minutes the
  count can pass ten: \<open>full_pool_early_overwrite\<close>.
\<close>

theorem treasure_pool_invariant:
  assumes "(pool_step E)\<^sup>*\<^sup>* (start_world ty chars) w" and "w_pool w = Some P"
  shows "unat (tp_count P) = card {s. s < TREASUREPOOL_SIZE \<and> pi_ID (slot_of P s) \<noteq> 0} \<and>
    unat (tp_count P) \<le> TREASUREPOOL_SIZE \<and> distinct (tp_members P) \<and>
    (\<forall>s < TREASUREPOOL_SIZE. distinct (map fst (pi_Lotters (slot_of P s))) \<and>
      (\<forall>l \<in> set (pi_Lotters (slot_of P s)). fst l \<in> set (tp_members P) \<and> w_inPool w (fst l)))"
proof -
  from assms(1) have "pool_ok w"
    by (induction rule: rtranclp_induct) (auto intro: start_pool_ok pool_step_ok)
  then have inv: "pool_inv (w_inPool w) P" using assms(2) by (simp add: pool_ok_def)
  have "lots_ok (tp_members P) (slot_of P s)" if "s < TREASUREPOOL_SIZE" for s
    using inv that by (simp add: pool_inv_def)
  then show ?thesis
    using inv card_used_slots_le[of P]
    by (fastforce simp: pool_inv_def lots_ok_def used_slots_def)
qed

theorem treasure_pool_invariant_witness:
  "unat (tp_count (the (w_pool (join 3 (start_world Solo (\<lambda>_. wit_char)))))) \<le> 10"
proof -
  let ?w = "join 3 (start_world Solo (\<lambda>_. wit_char))"
  have "(pool_step E)\<^sup>*\<^sup>* (start_world Solo (\<lambda>_. wit_char)) ?w" for E
    by (rule r_into_rtranclp) (rule joins)
  moreover have "\<exists>P. w_pool ?w = Some P"
    by (simp add: join_def addMember_def start_world_def new_pool_def)
  ultimately show ?thesis
    using treasure_pool_invariant[of _ Solo "\<lambda>_. wit_char" ?w] by (auto simp: TREASUREPOOL_SIZE_def)
qed

section \<open>Who gets the item\<close>

definition poolable :: "env \<Rightarrow> nat \<Rightarrow> bool" where
  "poolable E ident \<longleftrightarrow> (\<forall>tpl. spawn (e_templates E) ident = Some tpl \<longrightarrow>
     i_id tpl = ident \<and> \<not> isType tpl ITEM_CURRENCY \<and> 1 \<le> i_stackSize tpl)"

lemma received_amount:
  assumes "inventory_ok (w_chars w p)" "poolable E (pi_ID (slot_of P s))" "free_slots w p \<noteq> 0"
  shows "total_qty k (snd (received E p s P w)) = total_qty k (w_chars w p) +
    (if fst (received E p s P w) \<noteq> ERROR_SLOTID \<and> k = pi_ID (slot_of P s) then 1 else 0) \<and>
    inventory_ok (snd (received E p s P w))"
proof (cases "spawn (e_templates E) (pi_ID (slot_of P s))")
  case None
  then show ?thesis using assms by (simp add: received_def AddItem_def)
next
  case (Some tpl)
  let ?it = "setQuantity 1 tpl"
  have t: "i_id tpl = pi_ID (slot_of P s)" "\<not> isType ?it ITEM_CURRENCY" "1 \<le> i_stackSize tpl"
    using assms(2) Some by (auto simp: poolable_def)
  obtain r ch where rc: "AddItemObject LOC_INVENTORY ?it (e_db E) (w_chars w p) = (r, ch)"
    "inventory_ok ch"
    "\<And>k. total_qty k ch = total_qty k (w_chars w p) + (if r = ERROR_SLOTID then 0 else qty_of k ?it)"
    by (rule AddItemObject_step[OF assms(1) _ t(2), of LOC_INVENTORY "e_db E"])
      (auto simp: LOC_INVENTORY_def MAX_CONTAINER_ID_def)
  have "received E p s P w = (r, ch)"
    using assms(3) Some rc(1) by (simp add: received_def AddItem_def free_slots_def)
  then show ?thesis using rc(2,3) t by (auto simp: qty_of_def min_def)
qed

text \<open>
  C9: evaluating a slot does nothing unless the slot is filled and due: its time is up, or
  everybody lotted or passed, or a single member has room.  Then the slot is emptied with its
  lots, and the item goes to at most one character: the holder of the highest lot if anyone
  lotted, otherwise a member that did not pass, in both cases one with a free slot.  A win event
  is emitted exactly when that character owns one more of the item; nobody's amounts change
  otherwise.
\<close>

theorem evaluation_is_fair:
  assumes ok: "pool_ok w" "w_pool w = Some P" "s < TREASUREPOOL_SIZE"
    and inv: "\<And>p. inventory_ok (w_chars w p)" and item: "poolable E (pi_ID (slot_of P s))"
    and c: "checkTreasureItem E tick s w = Some w'"
  shows "if pi_ID (slot_of P s) = 0 \<or> \<not> due tick s P w then w' = w
    else (\<exists>P'. w_pool w' = Some P' \<and> pi_ID (slot_of P' s) = 0 \<and> pi_Lotters (slot_of P' s) = [] \<and>
        (\<forall>t < TREASUREPOOL_SIZE. t \<noteq> s \<longrightarrow> slot_of P' t = slot_of P t)) \<and>
      (\<exists>e. w_events w' = w_events w @ [e] \<and>
        (case e of Win p _ _ \<Rightarrow> entitled p s P \<and> free_slots w p \<noteq> 0 | _ \<Rightarrow> True) \<and>
        (\<forall>q k. total_qty k (w_chars w' q) = total_qty k (w_chars w q) +
           (if e = Win q s (pi_ID (slot_of P s)) \<and> k = pi_ID (slot_of P s) then 1 else 0)))"
proof (cases "pi_ID (slot_of P s) \<noteq> 0 \<and> due tick s P w")
  case False
  have pi: "pool_inv (w_inPool w) P" using ok by (simp add: pool_ok_def)
  with check_cases[OF pi ok(2,3) c] False show ?thesis by auto
next
  case True
  have pi: "pool_inv (w_inPool w) P" using ok by (simp add: pool_ok_def)
  have r: "resolved E s P w w'" using check_cases[OF pi ok(2,3) c] True by simp
  have len: "s < length (tp_items P)" using pi ok(3) by (simp add: pool_inv_def)
  let ?P = "clear_slot E s P"
  have slots: "pi_ID (slot_of ?P s) = 0" "pi_Lotters (slot_of ?P s) = []"
    "\<forall>t < TREASUREPOOL_SIZE. t \<noteq> s \<longrightarrow> slot_of ?P t = slot_of P t"
    using len by (simp_all add: clear_slot_def on_slot_def)
  have "\<exists>e. w_events w' = w_events w @ [e] \<and>
        (case e of Win p _ _ \<Rightarrow> entitled p s P \<and> free_slots w p \<noteq> 0 | _ \<Rightarrow> True) \<and>
        (\<forall>q k. total_qty k (w_chars w' q) = total_qty k (w_chars w q) +
           (if e = Win q s (pi_ID (slot_of P s)) \<and> k = pi_ID (slot_of P s) then 1 else 0))"
  proof -
    consider "w_chars w' = w_chars w" "w_events w' = w_events w @ [Lost s]"
      | p where "entitled p s P" "free_slots w p \<noteq> 0"
        "w_chars w' = (w_chars w)(p := snd (received E p s P w))"
        "w_events w' = w_events w @
           [if fst (received E p s P w) \<noteq> ERROR_SLOTID then Win p s (pi_ID (slot_of P s)) else WinError p s]"
      using r unfolding resolved_def by blast
    then show ?thesis
    proof cases
      case 1
      then show ?thesis by (intro exI[of _ "Lost s"]) simp
    next
      case (2 p)
      note amount = received_amount[OF inv item 2(2)]
      show ?thesis
        using 2 amount
        by (intro exI[of _ "if fst (received E p s P w) \<noteq> ERROR_SLOTID then Win p s (pi_ID (slot_of P s))
              else WinError p s"]) auto
    qed
  qed
  moreover have "w_pool w' = Some ?P" using r by (simp add: resolved_def)
  ultimately show ?thesis using True slots by auto
qed

definition wit_env :: env where
  "wit_env = \<lparr>e_templates = (\<lambda>i. Some (wit_item\<lparr>i_id := i, i_type := 1\<rparr>)), e_start = 0,
     e_pick = (\<lambda>_. 0), e_db = True\<rparr>"

definition wit_pool :: pool where
  "wit_pool = \<lparr>tp_type = Party, tp_count = 1, tp_Tick = 0,
     tp_items = \<lparr>pi_ID = 17, pi_TimeStamp = 0, pi_Lotters = [(4, 800), (3, 950)]\<rparr> #
       replicate 9 \<lparr>pi_ID = 0, pi_TimeStamp = 0, pi_Lotters = []\<rparr>,
     tp_members = [3, 4]\<rparr>"

definition wit_world :: world where
  "wit_world = \<lparr>w_chars = (\<lambda>_. wit_char), w_inPool = (\<lambda>p. p = 3 \<or> p = 4), w_party = (\<lambda>_. True),
     w_alliance = (\<lambda>_. False), w_pool = Some wit_pool, w_events = []\<rparr>"

lemma wit_pool_slots: "slot_of wit_pool 0 = \<lparr>pi_ID = 17, pi_TimeStamp = 0, pi_Lotters = [(4, 800), (3, 950)]\<rparr>"
  by (simp add: wit_pool_def)

lemma wit_pool_ok: "pool_ok wit_world"
proof -
  have "used_slots wit_pool = {0}"
    by (auto simp: used_slots_def wit_pool_def TREASUREPOOL_SIZE_def nth_Cons')
  moreover have "\<forall>it \<in> set (tp_items wit_pool). lots_ok (tp_members wit_pool) it"
    by (simp add: wit_pool_def lots_ok_def set_replicate_conv_if)
  ultimately have "pool_inv (\<lambda>p. p = 3 \<or> p = 4) wit_pool"
    by (simp add: pool_inv_def) (simp add: wit_pool_def TREASUREPOOL_SIZE_def)
  then show ?thesis by (simp add: pool_ok_def wit_world_def)
qed

lemma wit_free: "free_slots wit_world 3 \<noteq> 0"
  by (simp add: free_slots_def wit_world_def wit_char_def wit_store_def LOC_INVENTORY_def wit_container_eq
      GetFreeSlotsCount_def)

theorem evaluation_is_fair_witness:
  "\<exists>w'. checkTreasureItem wit_env 0 0 wit_world = Some w' \<and> (\<exists>e. w_events w' = [e]) \<and>
     pi_ID (slot_of (the (w_pool w')) 0) = 0"
proof -
  have P: "w_pool wit_world = Some wit_pool" by (simp add: wit_world_def)
  have due: "due 0 0 wit_pool wit_world" by (simp add: due_def wit_pool_slots) (simp add: wit_pool_def)
  have "highest (pi_Lotters (slot_of wit_pool 0)) = (Some 3, 950)" by (simp add: wit_pool_slots highest_def)
  then have c: "checkTreasureItem wit_env 0 0 wit_world = Some (give wit_env 3 0 wit_pool wit_world)"
    using P due wit_free by (simp add: checkTreasureItem_def wit_pool_slots)
  have inv: "inventory_ok (w_chars wit_world p)" for p using wit_char_ok by (simp add: wit_world_def)
  have "poolable wit_env (pi_ID (slot_of wit_pool 0))"
    by (auto simp: poolable_def wit_pool_slots wit_env_def spawn_def lookup_def clone_def wit_item_def
        new_item_def isType_def ITEM_CURRENCY_def split: if_splits)
  from evaluation_is_fair[OF wit_pool_ok P _ inv this c] due c show ?thesis
    by (auto simp: TREASUREPOOL_SIZE_def wit_pool_slots wit_world_def)
qed

text \<open>
  Passing on an empty slot is recorded, and the next item that lands in the slot starts with
  that pass: the member can no longer lot on it and is not considered when it is given away,
  although it never passed on that item.
\<close>

theorem early_pass_persists:
  assumes P: "w_pool w = Some P" "w_inPool w p" "length (tp_items P) = TREASUREPOOL_SIZE"
    and s: "choose_slot E P = (s, False)" "pi_Lotters (slot_of P s) = []"
    and two: "2 \<le> length (tp_members P)" and known: "lookup (e_templates E) ident \<noteq> None"
  shows "\<exists>w1 w2 P2. trophy_absence E p s w = Some w1 \<and> addItem E now ident w1 = Some w2 \<and>
    w_pool w2 = Some P2 \<and> pi_ID (slot_of P2 s) = ident \<and> hasPassedItem p s P2 \<and>
    trophy_entry E p s lot w2 = Some w2"
proof -
  have bs: "s < TREASUREPOOL_SIZE" "pi_ID (slot_of P s) = 0" using choose_slot_cases[OF s(1)] by simp_all
  then have len: "s < length (tp_items P)" using P(3) by simp
  let ?P1 = "on_slot s (\<lambda>it. it\<lparr>pi_Lotters := [(p, 0)]\<rparr>) P"
  let ?w1 = "lot_messages p s 65535 ?P1 (set_pool ?P1 w)"
  have l1: "pi_Lotters (slot_of ?P1 s) = [(p, 0)]" using len by (simp add: slot_on_slot)
  have "\<not> hasPassedItem p s P" using s(2) by (simp add: hasPassedItem_def)
  then have a: "trophy_absence E p s w = Some ?w1"
    using P(1,2) bs s(2) two l1
    by (simp add: trophy_absence_def passItem_def evaluate_if_complete_def Let_def not_le)
  have w1: "w_pool ?w1 = Some ?P1" "w_inPool ?w1 = w_inPool w"
    by (simp_all add: lot_messages_def emit_def split: prod.splits)
  have "pi_ID (slot_of ?P1 t) = pi_ID (slot_of P t)" for t using len by (simp add: slot_on_slot)
  then have "choose_slot E ?P1 = (s, False)"
    using s(1) by (auto simp: choose_slot_def split: option.splits)
  then have b: "\<exists>P2. addItem E now ident ?w1 = Some (set_pool P2 ?w1) \<and> pi_ID (slot_of P2 s) = ident \<and>
      pi_Lotters (slot_of P2 s) = [(p, 0)]"
    using known two w1(1) len l1 by (auto simp: addItem_def on_slot_def Let_def)
  then obtain P2 where P2: "addItem E now ident ?w1 = Some (set_pool P2 ?w1)" "pi_ID (slot_of P2 s) = ident"
    "pi_Lotters (slot_of P2 s) = [(p, 0)]" by blast
  have "hasPassedItem p s P2" "hasLottedItem p s P2"
    using P2(3) bs(1) by (simp_all add: hasPassedItem_def hasLottedItem_def)
  then show ?thesis
    using a P2 by (intro exI[of _ ?w1] exI[of _ "set_pool P2 ?w1"] exI[of _ P2]) (simp add: trophy_entry_def)
qed

definition empty_world :: world where
  "empty_world = wit_world\<lparr>w_pool := Some ((new_pool Party)\<lparr>tp_members := [3, 4]\<rparr>)\<rparr>"

theorem early_pass_persists_witness:
  "\<exists>w1 w2. trophy_absence wit_env 3 0 empty_world = Some w1 \<and> addItem wit_env 5000 17 w1 = Some w2 \<and>
     hasPassedItem 3 0 (the (w_pool w2))"
proof -
  let ?P = "(new_pool Party)\<lparr>tp_members := [3, 4]\<rparr>"
  have "choose_slot wit_env ?P = (0, False)"
    by (simp add: choose_slot_def new_pool_def TREASUREPOOL_SIZE_def upt_rec)
  moreover have "w_pool empty_world = Some ?P" "w_inPool empty_world 3"
    by (simp_all add: empty_world_def wit_world_def)
  moreover have "lookup (e_templates wit_env) 17 \<noteq> None" by (simp add: lookup_def wit_env_def MAX_ITEMID_def)
  moreover have "length (tp_items ?P) = TREASUREPOOL_SIZE" "pi_Lotters (slot_of ?P 0) = []"
    "2 \<le> length (tp_members ?P)" by (simp_all add: new_pool_def TREASUREPOOL_SIZE_def)
  ultimately show ?thesis
    using early_pass_persists[of empty_world ?P 3 wit_env 0 17 5000 1] by fastforce
qed

text \<open>
  An item that drops into a full pool within five minutes of the server start replaces the
  chosen item silently: the evaluation finds nothing due, no event announces the loss, the new
  item inherits the lots of the old one, and the item count passes the number of slots.
\<close>

theorem full_pool_early_overwrite:
  assumes P: "pool_ok w" "w_pool w = Some P" and full: "\<forall>t < TREASUREPOOL_SIZE. pi_ID (slot_of P t) \<noteq> 0"
    and early: "now - e_start E \<le> treasure_livetime" and many: "length (tp_members P) \<noteq> 1"
    and known: "lookup (e_templates E) ident \<noteq> None" and s: "choose_slot E P = (s, True)"
    and lots: "length (pi_Lotters (slot_of P s)) \<noteq> length (tp_members P)"
  shows "\<exists>w' P'. addItem E now ident w = Some w' \<and> w_events w' = w_events w \<and> w_pool w' = Some P' \<and>
    pi_ID (slot_of P' s) = ident \<and> pi_Lotters (slot_of P' s) = pi_Lotters (slot_of P s) \<and>
    unat (tp_count P') = 11"
proof -
  have inv: "pool_inv (w_inPool w) P" using P by (simp add: pool_ok_def)
  have len: "s < length (tp_items P)" using choose_slot_cases[OF s] inv by (simp add: pool_inv_def)
  have "used_slots P = {..<TREASUREPOOL_SIZE}" using full by (auto simp: used_slots_def)
  then have ten: "unat (tp_count P) = 10" using inv by (simp add: pool_inv_def TREASUREPOOL_SIZE_def)
  let ?P1 = "on_slot s (\<lambda>it. it\<lparr>pi_TimeStamp := e_start E\<rparr>) P"
  have "\<not> due now s ?P1 (set_pool ?P1 w)"
    using early many lots len by (simp add: due_def slot_on_slot)
  then have "checkTreasureItem E now s (set_pool ?P1 w) = Some (set_pool ?P1 w)"
    by (simp add: checkTreasureItem_def)
  then have "addItem E now ident w = Some (set_pool (on_slot s (\<lambda>it. it\<lparr>pi_ID := ident,
      pi_TimeStamp := now - treasure_checktime\<rparr>) (?P1\<lparr>tp_count := tp_count P + 1\<rparr>)) w)"
    using P(2) known s many by (auto simp: addItem_def Let_def)
  moreover have "unat (tp_count P + 1) = 11" using ten unat_inc8[of "tp_count P"] by simp
  ultimately show ?thesis using len by (simp add: on_slot_def)
qed

definition full_pool :: pool where
  "full_pool = \<lparr>tp_type = Party, tp_count = 10, tp_Tick = 0,
     tp_items = replicate 10 \<lparr>pi_ID = 17, pi_TimeStamp = 0, pi_Lotters = []\<rparr>, tp_members = [3, 4]\<rparr>"

theorem full_pool_early_overwrite_witness:
  "\<exists>w' P'. addItem wit_env 60000 18 (set_pool full_pool wit_world) = Some w' \<and> w_pool w' = Some P' \<and>
     unat (tp_count P') = 11"
proof -
  let ?w = "set_pool full_pool wit_world"
  have slots: "\<forall>t < TREASUREPOOL_SIZE. slot_of full_pool t = \<lparr>pi_ID = 17, pi_TimeStamp = 0, pi_Lotters = []\<rparr>"
    by (simp add: full_pool_def TREASUREPOOL_SIZE_def)
  then have full: "\<forall>t < TREASUREPOOL_SIZE. pi_ID (slot_of full_pool t) \<noteq> 0" by simp
  then have "used_slots full_pool = {..<TREASUREPOOL_SIZE}" by (auto simp: used_slots_def)
  moreover have "\<forall>it \<in> set (tp_items full_pool). lots_ok (tp_members full_pool) it"
    by (simp add: full_pool_def lots_ok_def set_replicate_conv_if)
  ultimately have "pool_inv (\<lambda>p. p = 3 \<or> p = 4) full_pool"
    by (simp add: pool_inv_def) (simp add: full_pool_def TREASUREPOOL_SIZE_def)
  then have ok: "pool_ok ?w" by (simp add: pool_ok_def wit_world_def)
  obtain s f where s: "choose_slot wit_env full_pool = (s, f)" by fastforce
  have f: "f" using choose_slot_cases[OF s] full by auto
  have l: "pi_Lotters (slot_of full_pool s) = []" using choose_slot_cases[OF s] slots by simp
  have "lookup (e_templates wit_env) 18 \<noteq> None" by (simp add: lookup_def wit_env_def MAX_ITEMID_def)
  then show ?thesis
    using full_pool_early_overwrite[OF ok _ full, where E = wit_env and now = 60000 and s = s and ident = 18] s f l
    by (auto simp: treasure_livetime_def wit_env_def full_pool_def)
qed

end
