(* ===== verification/Recast.thy ===== *)
theory Recast
  imports Prelude
begin

text \<open>
  The recast timers of \<open>recast_container.cpp\<close> (every battle entity) and
  \<open>char_recast_container.cpp\<close> (players): when a spell, an ability, an item or a special loot
  roll may be used again, and how many charges of a charged ability are left.

  Times are integers in the units of \<open>timer::duration\<close>; \<open>second\<close> is how many of them make a
  second.  One record serves both classes, \<open>is_pc\<close> telling the derived one; \<open>saved\<close> holds the
  rows of the table \<open>char_recast\<close> that belong to the character, and the conversion of a time
  point to the Unix time stored there is the argument \<open>utc\<close>.  \<open>timer::now()\<close> is an argument:
  \<open>now\<close> where the code reads it once, and the sequence \<open>clk\<close> of its readings in \<open>Check\<close>, which
  reads it once for every entry.  \<^term>\<open>None\<close> stands for a dereferenced null list, and for
  an index outside a list.
\<close>

section \<open>Data\<close>

datatype RECASTTYPE = RECAST_ITEM | RECAST_MAGIC | RECAST_ABILITY | RECAST_LOOT

definition Recast_Special :: nat where "Recast_Special = 0"
definition Recast_Special2 :: nat where "Recast_Special2 = 254"

record recast =
  ID :: nat
  TimeStamp :: int
  RecastTime :: int
  chargeTime :: int
  maxCharges :: uint8

record recasts =
  is_pc :: bool
  RecastMagicList :: "recast list"
  RecastAbilityList :: "recast list"
  RecastItemList :: "recast list"
  RecastLootList :: "recast list"
  saved :: "nat \<rightharpoonup> int \<times> int"

definition second :: int where "second = 1000000000"

section \<open>Lists and look-up\<close>

fun GetRecastList :: "recasts \<Rightarrow> RECASTTYPE \<Rightarrow> recast list option" where
  "GetRecastList c RECAST_MAGIC = Some (RecastMagicList c)"
| "GetRecastList c RECAST_ABILITY = Some (RecastAbilityList c)"
| "GetRecastList c RECAST_ITEM = (if is_pc c then Some (RecastItemList c) else None)"
| "GetRecastList c RECAST_LOOT = (if is_pc c then Some (RecastLootList c) else None)"

fun set_list :: "recasts \<Rightarrow> RECASTTYPE \<Rightarrow> recast list \<Rightarrow> recasts" where
  "set_list c RECAST_MAGIC l = c\<lparr>RecastMagicList := l\<rparr>"
| "set_list c RECAST_ABILITY l = c\<lparr>RecastAbilityList := l\<rparr>"
| "set_list c RECAST_ITEM l = c\<lparr>RecastItemList := l\<rparr>"
| "set_list c RECAST_LOOT l = c\<lparr>RecastLootList := l\<rparr>"

primrec find_recast :: "recast list \<Rightarrow> nat \<Rightarrow> nat option" where
  "find_recast [] i = None"
| "find_recast (r # rs) i = (if ID r = i then Some 0 else map_option Suc (find_recast rs i))"

definition GetRecast :: "recasts \<Rightarrow> RECASTTYPE \<Rightarrow> nat \<Rightarrow> recast option option" where
  "GetRecast c type i =
     (case GetRecastList c type of
        None \<Rightarrow> None
      | Some l \<Rightarrow> Some (map_option ((!) l) (find_recast l i)))"

definition Has :: "recasts \<Rightarrow> RECASTTYPE \<Rightarrow> nat \<Rightarrow> bool option" where
  "Has c type i =
     (case GetRecastList c type of
        None \<Rightarrow> None
      | Some l \<Rightarrow> Some (List.find (\<lambda>r. ID r = i) l \<noteq> None))"

definition HasLootRecast :: "recasts \<Rightarrow> nat \<Rightarrow> bool option" where
  "HasLootRecast c i = Has c RECAST_LOOT i"

definition GetLootRecast :: "recasts \<Rightarrow> nat \<Rightarrow> recast option option" where
  "GetLootRecast c i = GetRecast c RECAST_LOOT i"

section \<open>Adding and loading\<close>

definition charge_cap :: "recast \<Rightarrow> int" where
  "charge_cap r = chargeTime r * uint (maxCharges r)"

definition load_entry :: "int \<Rightarrow> recast \<Rightarrow> int \<Rightarrow> int \<Rightarrow> uint8 \<Rightarrow> recast" where
  "load_entry now r duration ct mc =
     (let r1 = (if ct \<noteq> 0 then r\<lparr>chargeTime := ct\<rparr> else r);
          r2 = (if mc \<noteq> 0 then r1\<lparr>maxCharges := mc\<rparr> else r1) in
      if chargeTime r2 = 0 then r2\<lparr>TimeStamp := now, RecastTime := duration\<rparr>
      else if RecastTime r2 = 0 then
        r2\<lparr>TimeStamp := now, RecastTime := RecastTime r2 + duration\<rparr>
      else if RecastTime r2 + duration > charge_cap r2 then
        (let diff = RecastTime r2 + duration - charge_cap r2 in
         r2\<lparr>TimeStamp := TimeStamp r2 + diff, RecastTime := RecastTime r2 + (duration - diff)\<rparr>)
      else r2\<lparr>RecastTime := RecastTime r2 + duration\<rparr>)"

definition Load :: "int \<Rightarrow> recasts \<Rightarrow> RECASTTYPE \<Rightarrow> nat \<Rightarrow> int \<Rightarrow> int \<Rightarrow> uint8 \<Rightarrow>
    (recasts \<times> recast) option" where
  "Load now c type i duration ct mc =
     (case GetRecastList c type of
        None \<Rightarrow> None
      | Some l \<Rightarrow>
          (case find_recast l i of
             None \<Rightarrow>
               (let r = \<lparr>ID = i, TimeStamp = now, RecastTime = duration, chargeTime = ct,
                         maxCharges = mc\<rparr> in
                Some (set_list c type (l @ [r]), r))
           | Some k \<Rightarrow>
               (let r = load_entry now (l ! k) duration ct mc in
                Some (set_list c type (l[k := r]), r))))"

definition Add :: "(int \<Rightarrow> int) \<Rightarrow> int \<Rightarrow> recasts \<Rightarrow> RECASTTYPE \<Rightarrow> nat \<Rightarrow> int \<Rightarrow> int \<Rightarrow> uint8 \<Rightarrow>
    recasts option" where
  "Add utc now c type i duration ct mc =
     (case Load now c type i duration ct mc of
        None \<Rightarrow> None
      | Some (c', r) \<Rightarrow>
          Some (if is_pc c \<and> type = RECAST_ABILITY
                then c'\<lparr>saved := (saved c')(ID r \<mapsto>
                       (utc (TimeStamp r), to_u32 (RecastTime r div second)))\<rparr>
                else c'))"

definition AddLootRecast :: "(int \<Rightarrow> int) \<Rightarrow> int \<Rightarrow> recasts \<Rightarrow> nat \<Rightarrow> int \<Rightarrow> recasts option" where
  "AddLootRecast utc now c i duration = Add utc now c RECAST_LOOT i duration 0 0"

section \<open>Deleting\<close>

definition Del_base :: "recasts \<Rightarrow> RECASTTYPE \<Rightarrow> recasts option" where
  "Del_base c type =
     (case GetRecastList c type of
        None \<Rightarrow> None
      | Some l \<Rightarrow>
          Some (if type = RECAST_ABILITY
                then set_list c type (map (\<lambda>r. r\<lparr>RecastTime := 0\<rparr>) l)
                else set_list c type []))"

definition Del :: "recasts \<Rightarrow> RECASTTYPE \<Rightarrow> recasts option" where
  "Del c type =
     (case Del_base c type of
        None \<Rightarrow> None
      | Some c' \<Rightarrow>
          Some (if is_pc c \<and> type = RECAST_ABILITY then c'\<lparr>saved := Map.empty\<rparr> else c'))"

definition DelId_base :: "recasts \<Rightarrow> RECASTTYPE \<Rightarrow> nat \<Rightarrow> recasts option" where
  "DelId_base c type i =
     (case GetRecastList c type of
        None \<Rightarrow> None
      | Some l \<Rightarrow>
          if type = RECAST_ABILITY then
            (case find_recast l i of
               None \<Rightarrow> Some c
             | Some k \<Rightarrow> Some (set_list c type (l[k := (l ! k)\<lparr>RecastTime := 0\<rparr>])))
          else Some (set_list c type (filter (\<lambda>r. ID r \<noteq> i) l)))"

definition DelId :: "recasts \<Rightarrow> RECASTTYPE \<Rightarrow> nat \<Rightarrow> recasts option" where
  "DelId c type i =
     (case DelId_base c type i of
        None \<Rightarrow> None
      | Some c' \<Rightarrow> Some (if is_pc c then c'\<lparr>saved := (saved c')(i := None)\<rparr> else c'))"

definition DeleteByIndex :: "recasts \<Rightarrow> RECASTTYPE \<Rightarrow> nat \<Rightarrow> recasts option" where
  "DeleteByIndex c type index =
     (case GetRecastList c type of
        None \<Rightarrow> None
      | Some l \<Rightarrow>
          if length l \<le> index then None
          else if type = RECAST_ABILITY then
            (let c' = set_list c type (l[index := (l ! index)\<lparr>RecastTime := 0\<rparr>]) in
             Some (if is_pc c then c'\<lparr>saved := (saved c')(ID (l ! index) := None)\<rparr> else c'))
          else Some (set_list c type (take index l @ drop (Suc index) l)))"

section \<open>Availability\<close>

definition cdiv :: "int \<Rightarrow> int \<Rightarrow> int" where
  "cdiv a b = (if (0 \<le> a) = (0 < b) then \<bar>a\<bar> div \<bar>b\<bar> else - (\<bar>a\<bar> div \<bar>b\<bar>))"

definition entry_blocks :: "int \<Rightarrow> recast \<Rightarrow> int \<Rightarrow> bool" where
  "entry_blocks now r recast =
     (if chargeTime r = 0 then True
      else
        (let cryptic = recast div second in
         if cryptic > uint (maxCharges r) then True
         else
           (let currentRecast = TimeStamp r - now + RecastTime r;
                availableCharges = to_u8 (cdiv currentRecast (chargeTime r));
                charges = uint (maxCharges r) - availableCharges - 1 in
            charges < cryptic)))"

primrec blocked_in :: "int \<Rightarrow> recast list \<Rightarrow> nat \<Rightarrow> int \<Rightarrow> bool" where
  "blocked_in now [] i recast = False"
| "blocked_in now (r # rs) i recast =
     (if ID r = i \<and> RecastTime r > 0 \<and> entry_blocks now r recast then True
      else blocked_in now rs i recast)"

definition HasRecast :: "int \<Rightarrow> recasts \<Rightarrow> RECASTTYPE \<Rightarrow> nat \<Rightarrow> int \<Rightarrow> bool option" where
  "HasRecast now c type i recast =
     map_option (\<lambda>l. blocked_in now l i recast) (GetRecastList c type)"

section \<open>Expiry\<close>

definition expires :: "recast \<Rightarrow> int" where
  "expires r = TimeStamp r + RecastTime r"

function check_loop :: "(nat \<Rightarrow> int) \<Rightarrow> nat \<Rightarrow> bool \<Rightarrow> recast list \<Rightarrow> nat \<Rightarrow> recast list \<times> nat" where
  "check_loop clk k erases l i =
     (if i < length l then
        (if clk k \<ge> expires (l ! i) then
           (if erases then check_loop clk (Suc k) erases (take i l @ drop (Suc i) l) i
            else check_loop clk (Suc k) erases (l[i := (l ! i)\<lparr>RecastTime := 0\<rparr>]) (Suc i))
         else check_loop clk (Suc k) erases l (Suc i))
      else (l, k))"
  by pat_completeness auto
termination
  by (relation "measure (\<lambda>(clk, k, e, l, i). length l - i)") auto

declare check_loop.simps [simp del]

definition check_type :: "(nat \<Rightarrow> int) \<Rightarrow> RECASTTYPE \<Rightarrow> recasts \<times> nat \<Rightarrow> (recasts \<times> nat) option" where
  "check_type clk type s =
     (case s of (c, k) \<Rightarrow>
        (case GetRecastList c type of
           None \<Rightarrow> None
         | Some l \<Rightarrow>
             (case check_loop clk k (type \<noteq> RECAST_ABILITY) l 0 of
                (l', k') \<Rightarrow> Some (set_list c type l', k'))))"

primrec check_types :: "(nat \<Rightarrow> int) \<Rightarrow> RECASTTYPE list \<Rightarrow> recasts \<times> nat \<Rightarrow> (recasts \<times> nat) option" where
  "check_types clk [] s = Some s"
| "check_types clk (t # ts) s =
     (case check_type clk t s of None \<Rightarrow> None | Some s' \<Rightarrow> check_types clk ts s')"

definition Check_base :: "(nat \<Rightarrow> int) \<Rightarrow> recasts \<Rightarrow> recasts option" where
  "Check_base clk c = map_option fst (check_types clk [RECAST_MAGIC, RECAST_ABILITY] (c, 0))"

definition Check_char :: "(nat \<Rightarrow> int) \<Rightarrow> recasts \<Rightarrow> recasts option" where
  "Check_char clk c =
     map_option fst
       (check_types clk [RECAST_ITEM, RECAST_MAGIC, RECAST_ABILITY, RECAST_LOOT] (c, 0))"

definition Check :: "(nat \<Rightarrow> int) \<Rightarrow> recasts \<Rightarrow> recasts option" where
  "Check clk c = (if is_pc c then Check_char clk c else Check_base clk c)"

section \<open>Job abilities\<close>

primrec reset_loop :: "int \<Rightarrow> recast list \<Rightarrow> recasts \<Rightarrow> recasts option" where
  "reset_loop now [] c = Some c"
| "reset_loop now (r # rs) c =
     (if ID r \<noteq> Recast_Special \<and> ID r \<noteq> Recast_Special2
      then (case Load now c RECAST_ABILITY (ID r) 0 0 0 of
              None \<Rightarrow> None
            | Some (c', _) \<Rightarrow> reset_loop now rs c')
      else reset_loop now rs c)"

definition ResetAbilities_base :: "int \<Rightarrow> recasts \<Rightarrow> recasts option" where
  "ResetAbilities_base now c = reset_loop now (RecastAbilityList c) c"

definition keep_id_0 :: "(nat \<rightharpoonup> int \<times> int) \<Rightarrow> nat \<rightharpoonup> int \<times> int" where
  "keep_id_0 m = (\<lambda>i. if i \<noteq> 0 then None else m i)"

definition ResetAbilities :: "int \<Rightarrow> recasts \<Rightarrow> recasts option" where
  "ResetAbilities now c =
     (case ResetAbilities_base now c of
        None \<Rightarrow> None
      | Some c' \<Rightarrow> Some (if is_pc c then c'\<lparr>saved := keep_id_0 (saved c')\<rparr> else c'))"

definition ChangeJob :: "recasts \<Rightarrow> recasts" where
  "ChangeJob c =
     (if is_pc c
      then c\<lparr>RecastAbilityList :=
               filter (\<lambda>r. \<not> (ID r \<noteq> Recast_Special \<and> ID r \<noteq> Recast_Special2)) (RecastAbilityList c),
             saved := keep_id_0 (saved c)\<rparr>
      else c)"

section \<open>The lists and their records\<close>

lemma GetRecastList_set_list [simp]:
  "GetRecastList (set_list c t l) t' =
     (if t = t' then map_option (\<lambda>_. l) (GetRecastList c t) else GetRecastList c t')"
  by (cases t; cases t') auto

lemma is_pc_set_list [simp]: "is_pc (set_list c t l) = is_pc c"
  by (cases t) auto

lemma saved_set_list [simp]: "saved (set_list c t l) = saved c"
  by (cases t) auto

lemma GetRecastList_saved [simp]: "GetRecastList (c\<lparr>saved := m\<rparr>) t = GetRecastList c t"
  by (cases t) auto

lemma GetRecastList_ability [simp]: "GetRecastList c RECAST_ABILITY = Some (RecastAbilityList c)"
  by simp

lemma find_recast_None: "find_recast l i = None \<longleftrightarrow> i \<notin> ID ` set l"
  by (induction l) auto

lemma find_recast_Some:
  "find_recast l i = Some k \<Longrightarrow> k < length l \<and> ID (l ! k) = i"
  by (induction l arbitrary: k) (auto split: if_splits)

lemma find_recast_unique:
  assumes "distinct (map ID l)" "k < length l"
  shows "find_recast l (ID (l ! k)) = Some k"
  using assms
proof (induction l arbitrary: k)
  case (Cons r rs)
  then show ?case by (cases k) (force simp: in_set_conv_nth image_iff)+
qed simp

lemma ID_load_entry [simp]: "ID (load_entry now r d ct mc) = ID r"
  by (simp add: load_entry_def Let_def)

lemma map_ID_update: "k < length l \<Longrightarrow> ID r = ID (l ! k) \<Longrightarrow> map ID (l[k := r]) = map ID l"
  by (simp add: map_update list_update_same_conv)

section \<open>Identifiers stay distinct\<close>

definition recasts_ok :: "recasts \<Rightarrow> bool" where
  "recasts_ok c \<longleftrightarrow>
     (\<forall>t\<in>set [RECAST_ITEM, RECAST_MAGIC, RECAST_ABILITY, RECAST_LOOT].
        case GetRecastList c t of None \<Rightarrow> True | Some l \<Rightarrow> distinct (map ID l))"

lemma recasts_okD: "recasts_ok c \<Longrightarrow> GetRecastList c t = Some l \<Longrightarrow> distinct (map ID l)"
  by (cases t) (auto simp: recasts_ok_def split: option.splits if_splits)

lemma recasts_okI:
  assumes "\<And>t l. GetRecastList c t = Some l \<Longrightarrow> distinct (map ID l)"
  shows "recasts_ok c"
  using assms unfolding recasts_ok_def by (metis option.case_eq_if option.collapse)

lemma recasts_ok_set_list [wf_intros]:
  assumes "recasts_ok c" "distinct (map ID l)"
  shows "recasts_ok (set_list c t l)"
proof (rule recasts_okI)
  fix t' l' assume "GetRecastList (set_list c t l) t' = Some l'"
  then show "distinct (map ID l')"
    using assms recasts_okD[of c] by (auto split: if_splits)
qed

lemma recasts_ok_ability [wf_intros]:
  "recasts_ok c \<Longrightarrow> distinct (map ID l) \<Longrightarrow> recasts_ok (c\<lparr>RecastAbilityList := l\<rparr>)"
  using recasts_ok_set_list[of c l RECAST_ABILITY] by simp

lemma recasts_ok_saved [simp]: "recasts_ok (c\<lparr>saved := m\<rparr>) = recasts_ok c"
  by (simp add: recasts_ok_def)

lemma Load_ok [wf_intros]:
  assumes "recasts_ok c" "Load now c t i d ct mc = Some (c', r)"
  shows "recasts_ok c'"
proof -
  from assms(2) obtain l where l: "GetRecastList c t = Some l"
    by (auto simp: Load_def split: option.splits)
  note dl = recasts_okD[OF assms(1) l]
  show ?thesis
  proof (cases "find_recast l i")
    case None
    then have "i \<notin> ID ` set l" by (simp add: find_recast_None)
    with assms l None dl show ?thesis
      by (auto simp: Load_def Let_def intro!: recasts_ok_set_list)
  next
    case (Some k)
    with find_recast_Some[OF Some] assms l dl show ?thesis
      by (auto simp: Load_def Let_def map_ID_update intro!: recasts_ok_set_list)
  qed
qed

lemma Add_ok [wf_intros]:
  "recasts_ok c \<Longrightarrow> Add utc now c t i d ct mc = Some c' \<Longrightarrow> recasts_ok c'"
  by (auto simp: Add_def split: option.splits intro: Load_ok)

lemma map_ID_zero [simp]: "map ID (map (RecastTime_update f) l) = map ID l"
  by (induction l) auto

lemma Del_ok [wf_intros]:
  assumes "recasts_ok c" "Del c t = Some c'"
  shows "recasts_ok c'"
  using assms recasts_okD[OF assms(1), of t]
  by (auto simp: Del_def Del_base_def split: option.splits if_splits
      intro!: recasts_ok_set_list recasts_ok_ability simp del: map_map)

lemma distinct_ID_filter: "distinct (map ID l) \<Longrightarrow> distinct (map ID (filter P l))"
  by (rule distinct_map_filter)

lemma DelId_ok [wf_intros]:
  assumes "recasts_ok c" "DelId c t i = Some c'"
  shows "recasts_ok c'"
  using assms recasts_okD[OF assms(1), of t]
  by (auto simp: DelId_def DelId_base_def map_ID_update split: option.splits if_splits
      intro!: recasts_ok_set_list recasts_ok_ability distinct_ID_filter dest!: find_recast_Some)

lemma distinct_ID_cut:
  "distinct (map ID l) \<Longrightarrow> distinct (map ID (take i l @ drop (Suc i) l))"
  using set_take_disj_set_drop_if_distinct[of "map ID l" i "Suc i"]
  by (simp add: take_map drop_map flip: take_map drop_map)

lemma DeleteByIndex_ok [wf_intros]:
  assumes "recasts_ok c" "DeleteByIndex c t i = Some c'"
  shows "recasts_ok c'"
  using assms recasts_okD[OF assms(1), of t]
  by (auto simp: DeleteByIndex_def Let_def map_ID_update not_le
      simp del: map_append split: option.splits if_splits
      intro!: recasts_ok_set_list recasts_ok_ability distinct_ID_cut)

section \<open>The expiry sweep\<close>

text \<open>What the sweep does, without the cursor: each entry meets its own reading of the clock.\<close>

primrec sweep :: "(nat \<Rightarrow> int) \<Rightarrow> nat \<Rightarrow> bool \<Rightarrow> recast list \<Rightarrow> recast list" where
  "sweep clk k erases [] = []"
| "sweep clk k erases (r # rs) =
     (if clk k \<ge> expires r
      then (if erases then [] else [r\<lparr>RecastTime := 0\<rparr>]) else [r]) @ sweep clk (Suc k) erases rs"

lemma check_loop_sweep:
  "check_loop clk k e l i = (take i l @ sweep clk k e (drop i l), k + (length l - i))"
proof (induction clk k e l i rule: check_loop.induct)
  case (1 clk k e l i)
  show ?case
  proof (cases "i < length l")
    case False
    then show ?thesis by (simp add: check_loop.simps)
  next
    case True
    have d: "drop i l = l ! i # drop (Suc i) l" using True by (simp add: Cons_nth_drop_Suc)
    have tk: "take (Suc i) l = take i l @ [l ! i]" using True by (simp add: take_Suc_conv_app_nth)
    have tu: "take (Suc i) (l[i := y]) = take i l @ [y]" for y
      using True by (simp add: take_Suc_conv_app_nth)
    have lk: "Suc k + (length l - Suc i) = k + (length l - i)" using True by simp
    consider "expires (l ! i) \<le> clk k" "e" | "expires (l ! i) \<le> clk k" "\<not> e"
      | "\<not> expires (l ! i) \<le> clk k" by blast
    then show ?thesis
    proof cases
      case 1
      have "length (take i l @ drop (Suc i) l) - i = length l - Suc i" using True by simp
      then show ?thesis
        using 1 True "1.IH"(1)[OF True 1] d lk by (subst check_loop.simps) simp
    next
      case 2
      then show ?thesis
        using True "1.IH"(2)[OF True 2] d tu lk by (subst check_loop.simps) simp
    next
      case 3
      then show ?thesis
        using True "1.IH"(3)[OF True 3] d tk lk by (subst check_loop.simps) simp
    qed
  qed
qed

lemma ID_sweep_subset: "ID ` set (sweep clk k e l) \<subseteq> ID ` set l"
  by (induction l arbitrary: k) (auto split: if_splits, blast+)

lemma distinct_sweep: "distinct (map ID l) \<Longrightarrow> distinct (map ID (sweep clk k e l))"
proof (induction l arbitrary: k)
  case (Cons r rs)
  have "ID r \<notin> ID ` set (sweep clk (Suc k) e rs)" using Cons.prems ID_sweep_subset[of clk "Suc k" e rs] by auto
  with Cons show ?case by auto
qed simp

lemma check_types_ok:
  "recasts_ok (fst s) \<Longrightarrow> check_types clk ts s = Some s' \<Longrightarrow> recasts_ok (fst s')"
proof (induction ts arbitrary: s)
  case (Cons t ts)
  then obtain s1 where s1: "check_type clk t s = Some s1" "check_types clk ts s1 = Some s'"
    by (auto split: option.splits)
  have "recasts_ok (fst s1)"
    using s1(1) Cons.prems(1) recasts_okD[OF Cons.prems(1), of t]
    by (cases s) (auto simp: check_type_def check_loop_sweep split: option.splits
        intro!: recasts_ok_set_list distinct_sweep)
  with s1(2) Cons.IH show ?case by blast
qed simp

lemma Check_ok [wf_intros]: "recasts_ok c \<Longrightarrow> Check clk c = Some c' \<Longrightarrow> recasts_ok c'"
  by (auto simp: Check_def Check_char_def Check_base_def split: if_splits simp del: check_types.simps
      dest!: check_types_ok[rotated])

lemma reset_loop_ok: "recasts_ok c \<Longrightarrow> reset_loop now rs c = Some c' \<Longrightarrow> recasts_ok c'"
proof (induction rs arbitrary: c)
  case (Cons r rs)
  then show ?case
    by (auto split: if_splits option.splits dest: Load_ok)
qed simp

lemma ResetAbilities_ok [wf_intros]:
  "recasts_ok c \<Longrightarrow> ResetAbilities now c = Some c' \<Longrightarrow> recasts_ok c'"
  by (auto simp: ResetAbilities_def ResetAbilities_base_def split: option.splits
      dest: reset_loop_ok)

lemma ChangeJob_ok [wf_intros]:
  assumes "recasts_ok c"
  shows "recasts_ok (ChangeJob c)"
proof -
  have "ChangeJob c = (if is_pc c then (set_list c RECAST_ABILITY (filter (\<lambda>r. \<not> (ID r \<noteq> Recast_Special \<and>
      ID r \<noteq> Recast_Special2)) (RecastAbilityList c)))\<lparr>saved := keep_id_0 (saved c)\<rparr> else c)"
    by (simp add: ChangeJob_def)
  moreover have "recasts_ok (set_list c RECAST_ABILITY (filter P (RecastAbilityList c)))" for P
    using assms recasts_okD[OF assms, of RECAST_ABILITY] by (intro recasts_ok_set_list distinct_ID_filter) auto
  ultimately show ?thesis using assms by simp
qed

section \<open>Charges\<close>

text \<open>A charged entry at an instant: started, and not owing more than its charges.\<close>

definition charge_ok :: "int \<Rightarrow> recast \<Rightarrow> bool" where
  "charge_ok now r \<longleftrightarrow> 0 < chargeTime r \<and> TimeStamp r \<le> now \<and> RecastTime r \<le> charge_cap r"

lemma to_u8_div_cap:
  assumes "0 < ct" "0 \<le> x" "x \<le> ct * uint (n :: uint8)"
  shows "to_u8 (cdiv x ct) = x div ct"
proof -
  have "x div ct \<le> (ct * uint n) div ct" using assms by (intro zdiv_mono1) auto
  then have "x div ct \<le> uint n" using assms(1) by simp
  moreover have "uint n < 256" using uint_bounded[of n] by simp
  ultimately have u: "x div ct < 256" by linarith
  have "0 \<le> x div ct" using assms by (simp add: pos_imp_zdiv_nonneg_iff)
  then show ?thesis using assms u by (simp add: cdiv_def to_u8_id)
qed

lemma entry_free_room:
  assumes ok: "charge_ok now r" and pend: "now \<le> expires r"
    and free: "\<not> entry_blocks now r (n * second)"
  shows "expires r - now + n * chargeTime r < charge_cap r"
proof -
  let ?cur = "expires r - now" and ?ct = "chargeTime r" and ?u = "uint (maxCharges r)"
  have ct: "0 < ?ct" using ok by (simp add: charge_ok_def)
  have cur: "TimeStamp r - now + RecastTime r = ?cur" by (simp add: expires_def)
  have cap: "?cur \<le> ?ct * ?u"
    using ok by (simp add: charge_ok_def charge_cap_def expires_def)
  have q: "to_u8 (cdiv ?cur ?ct) = ?cur div ?ct"
    using to_u8_div_cap[OF ct _ cap] pend by simp
  have sec: "n * second div second = n" by (simp add: second_def)
  from free ct have "\<not> ?u - ?cur div ?ct - 1 < n"
    unfolding entry_blocks_def Let_def cur q sec by (metis less_irrefl)
  then have "n * ?ct \<le> (?u - ?cur div ?ct - 1) * ?ct"
    using ct by (intro mult_right_mono) linarith+
  then have "n * ?ct \<le> charge_cap r - (?cur div ?ct) * ?ct - ?ct"
    by (simp add: charge_cap_def algebra_simps)
  moreover have "?cur = (?cur div ?ct) * ?ct + ?cur mod ?ct" by simp
  moreover have "?cur mod ?ct < ?ct" using ct by simp
  ultimately show ?thesis by linarith
qed

lemma load_charge:
  assumes ok: "charge_ok now r" and pend: "0 < RecastTime r"
    and room: "expires r - now + d \<le> charge_cap r"
  shows "charge_ok now (load_entry now r d 0 0)"
    and "expires (load_entry now r d 0 0) = expires r + d"
proof -
  have ct: "chargeTime r \<noteq> 0" "RecastTime r \<noteq> 0" using ok pend by (auto simp: charge_ok_def)
  show "expires (load_entry now r d 0 0) = expires r + d"
    using ct by (simp add: load_entry_def Let_def expires_def)
  show "charge_ok now (load_entry now r d 0 0)"
    using ct ok room by (auto simp: load_entry_def Let_def charge_ok_def charge_cap_def expires_def)
qed

section \<open>Reachable containers\<close>

definition no_recasts :: "bool \<Rightarrow> recasts" where
  "no_recasts pc = \<lparr>is_pc = pc, RecastMagicList = [], RecastAbilityList = [], RecastItemList = [],
     RecastLootList = [], saved = Map.empty\<rparr>"

inductive recast_step :: "recasts \<Rightarrow> recasts \<Rightarrow> bool" where
  step_Add: "Add utc now c t i d ct mc = Some c' \<Longrightarrow> recast_step c c'"
| step_Load: "Load now c t i d ct mc = Some (c', r) \<Longrightarrow> recast_step c c'"
| step_Del: "Del c t = Some c' \<Longrightarrow> recast_step c c'"
| step_DelId: "DelId c t i = Some c' \<Longrightarrow> recast_step c c'"
| step_DeleteByIndex: "DeleteByIndex c t n = Some c' \<Longrightarrow> recast_step c c'"
| step_Check: "Check clk c = Some c' \<Longrightarrow> recast_step c c'"
| step_Reset: "ResetAbilities now c = Some c' \<Longrightarrow> recast_step c c'"
| step_ChangeJob: "recast_step c (ChangeJob c)"

lemma recast_step_ok: "recast_step c c' \<Longrightarrow> recasts_ok c \<Longrightarrow> recasts_ok c'"
  by (induction rule: recast_step.induct) (auto intro: wf_intros)

text \<open>
  C37: In every container that any sequence of additions, loads, deletions, expiry sweeps, ability
  resets and job changes produces from an empty one, no list holds two entries for the same
  identifier, so that the entry \<open>GetRecast\<close> finds is the only one that concerns it.
\<close>
theorem recast_entries_unique:
  assumes "recast_step\<^sup>*\<^sup>* (no_recasts pc) c" "GetRecastList c t = Some l" "k < length l"
  shows "distinct (map ID l) \<and> GetRecast c t (ID (l ! k)) = Some (Some (l ! k))"
proof -
  have "recasts_ok c"
    using assms(1)
  proof (induction rule: rtranclp_induct)
    case base
    show ?case by (simp add: recasts_ok_def no_recasts_def)
  next
    case (step y z)
    then show ?case by (blast intro: recast_step_ok)
  qed
  then have d: "distinct (map ID l)" using assms(2) by (rule recasts_okD)
  then show ?thesis using assms(2) find_recast_unique[OF d assms(3)] by (simp add: GetRecast_def)
qed

theorem recast_entries_unique_witness:
  "GetRecast (fst (the (Load 5 (no_recasts True) RECAST_LOOT 2 10 0 0))) RECAST_LOOT 2
     = Some (Some \<lparr>ID = 2, TimeStamp = 5, RecastTime = 10, chargeTime = 0, maxCharges = 0\<rparr>)"
proof -
  let ?r = "\<lparr>ID = 2, TimeStamp = 5, RecastTime = 10, chargeTime = 0, maxCharges = 0\<rparr> :: recast"
  have "Load 5 (no_recasts True) RECAST_LOOT 2 10 0 0 = Some ((no_recasts True)\<lparr>RecastLootList := [?r]\<rparr>, ?r)"
    by (simp add: Load_def no_recasts_def Let_def)
  moreover from step_Load[OF this]
  have "recast_step\<^sup>*\<^sup>* (no_recasts True) ((no_recasts True)\<lparr>RecastLootList := [?r]\<rparr>)" by blast
  ultimately show ?thesis
    using recast_entries_unique[of True "(no_recasts True)\<lparr>RecastLootList := [?r]\<rparr>" RECAST_LOOT "[?r]" 0]
    by (simp add: no_recasts_def)
qed

section \<open>Spending charges\<close>

lemma blocked_in_unique:
  assumes "distinct (map ID l)" "k < length l" "0 < RecastTime (l ! k)"
    "\<not> blocked_in now l (ID (l ! k)) d"
  shows "\<not> entry_blocks now (l ! k) d"
  using assms
proof (induction l arbitrary: k)
  case (Cons r rs)
  then show ?case by (cases k) (auto split: if_splits)
qed simp

text \<open>
  C19: Charges are never overdrawn and never given away.  If an ability with charges is recovering
  and \<open>HasRecast\<close> lets \<open>n\<close> of its charges be used, then \<open>Add\<close> with the time of \<open>n\<close> charges leaves
  its entry owing at most \<open>maxCharges\<close> charges, with a start that is not in the future, and the
  moment at which all charges are back moves by exactly the time of \<open>n\<close> charges, whether or not
  the entry was capped.
\<close>
theorem spending_charges:
  assumes "recasts_ok c" "GetRecast c RECAST_ABILITY i = Some (Some r)"
    and "charge_ok now r" "0 < RecastTime r" "now \<le> expires r"
    and "HasRecast now c RECAST_ABILITY i (n * second) = Some False"
  shows "\<exists>c' r'. Add utc now c RECAST_ABILITY i (n * chargeTime r) 0 0 = Some c' \<and>
     GetRecast c' RECAST_ABILITY i = Some (Some r') \<and> charge_ok now r' \<and>
     expires r' = expires r + n * chargeTime r"
proof -
  let ?l = "RecastAbilityList c"
  obtain k where k: "find_recast ?l i = Some k" "r = ?l ! k"
    using assms(2) by (auto simp: GetRecast_def)
  note kl = find_recast_Some[OF k(1)]
  have d: "distinct (map ID ?l)" using recasts_okD[OF assms(1), of RECAST_ABILITY] by simp
  have free: "\<not> entry_blocks now r (n * second)"
    using blocked_in_unique[OF d, of k now "n * second"] kl k assms(4,6) by (simp add: HasRecast_def)
  then have room: "expires r - now + n * chargeTime r \<le> charge_cap r"
    using entry_free_room[OF assms(3,5) free] by linarith
  let ?r = "load_entry now r (n * chargeTime r) 0 0"
  have d': "distinct (map ID (?l[k := ?r]))" using d kl k(2) by (simp add: map_ID_update)
  have "find_recast (?l[k := ?r]) i = Some k"
    using find_recast_unique[OF d', of k] kl k(2) by simp
  then show ?thesis
    using load_charge[OF assms(3,4) room] k kl
    by (auto simp: Add_def Load_def GetRecast_def Let_def)
qed

definition example_charges :: recasts where
  "example_charges = (no_recasts True)\<lparr>RecastAbilityList :=
     [\<lparr>ID = 231, TimeStamp = 0, RecastTime = 60 * second, chargeTime = 60 * second,
       maxCharges = 4\<rparr>]\<rparr>"

theorem spending_charges_witness:
  "\<exists>c' r'. Add (\<lambda>x. x) (10 * second) example_charges RECAST_ABILITY 231 (3 * (60 * second)) 0 0 = Some c' \<and>
     GetRecast c' RECAST_ABILITY 231 = Some (Some r') \<and> charge_ok (10 * second) r' \<and>
     expires r' = 240 * second"
proof -
  let ?r = "\<lparr>ID = 231, TimeStamp = 0, RecastTime = 60 * second, chargeTime = 60 * second,
       maxCharges = 4\<rparr> :: recast"
  have "recasts_ok example_charges"
    by (simp add: recasts_ok_def example_charges_def no_recasts_def)
  moreover have "GetRecast example_charges RECAST_ABILITY 231 = Some (Some ?r)"
    by (simp add: GetRecast_def example_charges_def)
  moreover have "charge_ok (10 * second) ?r"
    by (simp add: charge_ok_def charge_cap_def second_def)
  moreover have "HasRecast (10 * second) example_charges RECAST_ABILITY 231 (3 * second) = Some False"
    by code_simp
  ultimately show ?thesis
    using spending_charges[of example_charges 231 ?r "10 * second" 3 "\<lambda>x. x"]
    by (simp add: second_def expires_def)
qed

section \<open>Expiry, resets and job changes\<close>

lemma sweep_const:
  "sweep (\<lambda>_. now) k True l = filter (\<lambda>r. now < expires r) l"
  "sweep (\<lambda>_. now) k False l = map (\<lambda>r. if now < expires r then r else r\<lparr>RecastTime := 0\<rparr>) l"
  by (induction l arbitrary: k) auto

lemma check_loop_const:
  "check_loop (\<lambda>_. now) k e l 0 =
     (if e then filter (\<lambda>r. now < expires r) l
      else map (\<lambda>r. if now < expires r then r else r\<lparr>RecastTime := 0\<rparr>) l, k + length l)"
  by (simp add: check_loop_sweep sweep_const)

text \<open>
  The expiry sweep of a player at one instant removes exactly the spell, item and loot entries
  whose time has passed, keeps the others in their order, and keeps every ability entry, setting
  the remaining time of exactly those that have expired to zero.  Erasing while walking the list
  skips no entry.
\<close>
theorem Check_sweeps:
  assumes "is_pc c"
  shows "\<exists>c'. Check (\<lambda>_. now) c = Some c' \<and>
     RecastMagicList c' = filter (\<lambda>r. now < expires r) (RecastMagicList c) \<and>
     RecastItemList c' = filter (\<lambda>r. now < expires r) (RecastItemList c) \<and>
     RecastLootList c' = filter (\<lambda>r. now < expires r) (RecastLootList c) \<and>
     RecastAbilityList c' =
       map (\<lambda>r. if now < expires r then r else r\<lparr>RecastTime := 0\<rparr>) (RecastAbilityList c) \<and>
     saved c' = saved c"
  using assms by (simp add: Check_def Check_char_def check_type_def check_loop_const)

theorem Check_sweeps_witness:
  "\<exists>c'. Check (\<lambda>_. 100 * second) example_charges = Some c' \<and>
     RecastAbilityList c' = [\<lparr>ID = 231, TimeStamp = 0, RecastTime = 0, chargeTime = 60 * second,
       maxCharges = 4\<rparr>]"
  using Check_sweeps[of example_charges "100 * second"]
  by (auto simp: example_charges_def no_recasts_def expires_def second_def)

definition reset_entry :: "int \<Rightarrow> recast \<Rightarrow> recast" where
  "reset_entry now r = (if ID r = Recast_Special \<or> ID r = Recast_Special2 then r
     else load_entry now r 0 0 0)"

lemma reset_loop_map:
  assumes "distinct (map ID (done @ todo))"
  shows "reset_loop now todo (c\<lparr>RecastAbilityList := done @ todo\<rparr>) =
     Some (c\<lparr>RecastAbilityList := done @ map (reset_entry now) todo\<rparr>)"
  using assms
proof (induction todo arbitrary: "done")
  case (Cons r rs)
  have f: "find_recast (done @ r # rs) (ID r) = Some (length done)"
    using find_recast_unique[OF Cons.prems, of "length done"] by simp
  have ih: "reset_loop now rs (c\<lparr>RecastAbilityList := (done @ [reset_entry now r]) @ rs\<rparr>) =
     Some (c\<lparr>RecastAbilityList := (done @ [reset_entry now r]) @ map (reset_entry now) rs\<rparr>)"
    using Cons.prems by (intro Cons.IH) (simp add: reset_entry_def)
  show ?case
  proof (cases "ID r = Recast_Special \<or> ID r = Recast_Special2")
    case True
    then show ?thesis using ih by (auto simp: reset_entry_def)
  next
    case False
    then show ?thesis using ih f by (simp add: Load_def Let_def reset_entry_def)
  qed
qed simp

text \<open>
  What resetting the job abilities does to each entry: the one-hour abilities keep their
  time, an ability without charges is ready at once, and an ability with charges that owes some,
  within its cap, is left exactly as it was: the reset does not give its charges back.
\<close>
theorem ResetAbilities_effect:
  assumes "recasts_ok c"
  shows "\<exists>c'. ResetAbilities now c = Some c' \<and>
     length (RecastAbilityList c') = length (RecastAbilityList c) \<and>
     (\<forall>k < length (RecastAbilityList c).
        let r = RecastAbilityList c ! k; r' = RecastAbilityList c' ! k in
        (if ID r = Recast_Special \<or> ID r = Recast_Special2 then r' = r
         else if chargeTime r = 0 then r' = r\<lparr>TimeStamp := now, RecastTime := 0\<rparr>
         else RecastTime r \<noteq> 0 \<longrightarrow> RecastTime r \<le> charge_cap r \<longrightarrow> r' = r))"
proof -
  have "distinct (map ID (RecastAbilityList c))" using recasts_okD[OF assms, of RECAST_ABILITY] by simp
  then have "reset_loop now (RecastAbilityList c) c =
      Some (c\<lparr>RecastAbilityList := map (reset_entry now) (RecastAbilityList c)\<rparr>)"
    using reset_loop_map[of "[]" "RecastAbilityList c" now c] by simp
  then show ?thesis
    by (auto simp: ResetAbilities_def ResetAbilities_base_def reset_entry_def load_entry_def Let_def)
qed

theorem ResetAbilities_effect_witness:
  "\<exists>c'. ResetAbilities (30 * second) example_charges = Some c' \<and>
     RecastAbilityList c' = RecastAbilityList example_charges"
proof -
  have "recasts_ok example_charges"
    by (simp add: recasts_ok_def example_charges_def no_recasts_def)
  from ResetAbilities_effect[OF this, of "30 * second"] show ?thesis
    by (auto simp: Let_def example_charges_def no_recasts_def charge_cap_def second_def
        Recast_Special_def Recast_Special2_def intro!: nth_equalityI)
qed

text \<open>
  A job change keeps the running time of the second one-hour ability in memory but deletes its
  row in the table, as it does for every identifier other than zero.
\<close>
lemma ChangeJob_drops_row:
  assumes "is_pc c" "r \<in> set (RecastAbilityList c)" "ID r = Recast_Special2"
  shows "r \<in> set (RecastAbilityList (ChangeJob c)) \<and> saved (ChangeJob c) Recast_Special2 = None"
  using assms by (simp add: ChangeJob_def keep_id_0_def Recast_Special2_def)

end
