(* ===== verification/Md5.thy ===== *)
theory Md5
  imports Prelude
begin

text \<open>
  The MD5 digest of \<open>md52.cpp\<close>, which protects every packet of the map and search servers and
  derives their cipher keys, and the checksum test of \<open>utils.cpp\<close> built on it.

  The macros \<open>S\<close>, \<open>P\<close> and the four \<open>F\<close> are functions, the sixty-four steps of \<open>md5_process\<close> are
  written out in the order and with the roles of the four variables the code gives them, and a
  context is the record of its two counters, its state and its buffer of 64 bytes.  The pair of a
  pointer and a length becomes a list of bytes; its length is below \<open>2 ^ 32\<close>, the range of the
  type \<open>uint32\<close> the code passes it in.

  The second half states what the digest is without the incremental context: pad the message,
  cut it in blocks of 64 bytes, and fold the compression function over them.  The lemmas relate a
  context to the message it has absorbed, however the message was cut up on the way in.
\<close>

unbundle bit_operations_syntax

section \<open>Bytes and words\<close>

definition GET_UINT32 :: "uint8 list \<Rightarrow> nat \<Rightarrow> uint32" where
  "GET_UINT32 b i =
     ucast (b ! i) OR push_bit 8 (ucast (b ! (i + 1))) OR push_bit 16 (ucast (b ! (i + 2))) OR
     push_bit 24 (ucast (b ! (i + 3)))"

definition PUT_UINT32 :: "uint32 \<Rightarrow> uint8 list" where
  "PUT_UINT32 n =
     [ucast n, ucast (drop_bit 8 n), ucast (drop_bit 16 n), ucast (drop_bit 24 n)]"

section \<open>The compression function\<close>

type_synonym md5_state = "uint32 \<times> uint32 \<times> uint32 \<times> uint32"

definition md5_S :: "uint32 \<Rightarrow> nat \<Rightarrow> uint32" where
  "md5_S x n = push_bit n x OR drop_bit (32 - n) (x AND 0xFFFFFFFF)"

definition md5_P :: "(uint32 \<Rightarrow> uint32 \<Rightarrow> uint32 \<Rightarrow> uint32) \<Rightarrow> uint32 list \<Rightarrow> uint32 \<Rightarrow> uint32 \<Rightarrow> uint32 \<Rightarrow>
    uint32 \<Rightarrow> nat \<Rightarrow> nat \<Rightarrow> uint32 \<Rightarrow> uint32" where
  "md5_P F X a b c d k s t = md5_S (a + (F b c d + X ! k + t)) s + b"

definition md5_F1 :: "uint32 \<Rightarrow> uint32 \<Rightarrow> uint32 \<Rightarrow> uint32" where
  "md5_F1 x y z = z XOR (x AND (y XOR z))"

definition md5_F2 :: "uint32 \<Rightarrow> uint32 \<Rightarrow> uint32 \<Rightarrow> uint32" where
  "md5_F2 x y z = y XOR (z AND (x XOR y))"

definition md5_F3 :: "uint32 \<Rightarrow> uint32 \<Rightarrow> uint32 \<Rightarrow> uint32" where
  "md5_F3 x y z = x XOR y XOR z"

definition md5_F4 :: "uint32 \<Rightarrow> uint32 \<Rightarrow> uint32 \<Rightarrow> uint32" where
  "md5_F4 x y z = y XOR (x OR NOT z)"

definition md5_round1 :: "uint32 list \<Rightarrow> md5_state \<Rightarrow> md5_state" where
  "md5_round1 X st =
    (case st of (A, B, C, D) \<Rightarrow>
     let A = md5_P md5_F1 X A B C D 0 7 0xD76AA478 in
     let D = md5_P md5_F1 X D A B C 1 12 0xE8C7B756 in
     let C = md5_P md5_F1 X C D A B 2 17 0x242070DB in
     let B = md5_P md5_F1 X B C D A 3 22 0xC1BDCEEE in
     let A = md5_P md5_F1 X A B C D 4 7 0xF57C0FAF in
     let D = md5_P md5_F1 X D A B C 5 12 0x4787C62A in
     let C = md5_P md5_F1 X C D A B 6 17 0xA8304613 in
     let B = md5_P md5_F1 X B C D A 7 22 0xFD469501 in
     let A = md5_P md5_F1 X A B C D 8 7 0x698098D8 in
     let D = md5_P md5_F1 X D A B C 9 12 0x8B44F7AF in
     let C = md5_P md5_F1 X C D A B 10 17 0xFFFF5BB1 in
     let B = md5_P md5_F1 X B C D A 11 22 0x895CD7BE in
     let A = md5_P md5_F1 X A B C D 12 7 0x6B901122 in
     let D = md5_P md5_F1 X D A B C 13 12 0xFD987193 in
     let C = md5_P md5_F1 X C D A B 14 17 0xA679438E in
     let B = md5_P md5_F1 X B C D A 15 22 0x49B40821 in
     (A, B, C, D))"

definition md5_round2 :: "uint32 list \<Rightarrow> md5_state \<Rightarrow> md5_state" where
  "md5_round2 X st =
    (case st of (A, B, C, D) \<Rightarrow>
     let A = md5_P md5_F2 X A B C D 1 5 0xF61E2562 in
     let D = md5_P md5_F2 X D A B C 6 9 0xC040B340 in
     let C = md5_P md5_F2 X C D A B 11 14 0x265E5A51 in
     let B = md5_P md5_F2 X B C D A 0 20 0xE9B6C7AA in
     let A = md5_P md5_F2 X A B C D 5 5 0xD62F105D in
     let D = md5_P md5_F2 X D A B C 10 9 0x02441453 in
     let C = md5_P md5_F2 X C D A B 15 14 0xD8A1E681 in
     let B = md5_P md5_F2 X B C D A 4 20 0xE7D3FBC8 in
     let A = md5_P md5_F2 X A B C D 9 5 0x21E1CDE6 in
     let D = md5_P md5_F2 X D A B C 14 9 0xC33707D6 in
     let C = md5_P md5_F2 X C D A B 3 14 0xF4D50D87 in
     let B = md5_P md5_F2 X B C D A 8 20 0x455A14ED in
     let A = md5_P md5_F2 X A B C D 13 5 0xA9E3E905 in
     let D = md5_P md5_F2 X D A B C 2 9 0xFCEFA3F8 in
     let C = md5_P md5_F2 X C D A B 7 14 0x676F02D9 in
     let B = md5_P md5_F2 X B C D A 12 20 0x8D2A4C8A in
     (A, B, C, D))"

definition md5_round3 :: "uint32 list \<Rightarrow> md5_state \<Rightarrow> md5_state" where
  "md5_round3 X st =
    (case st of (A, B, C, D) \<Rightarrow>
     let A = md5_P md5_F3 X A B C D 5 4 0xFFFA3942 in
     let D = md5_P md5_F3 X D A B C 8 11 0x8771F681 in
     let C = md5_P md5_F3 X C D A B 11 16 0x6D9D6122 in
     let B = md5_P md5_F3 X B C D A 14 23 0xFDE5380C in
     let A = md5_P md5_F3 X A B C D 1 4 0xA4BEEA44 in
     let D = md5_P md5_F3 X D A B C 4 11 0x4BDECFA9 in
     let C = md5_P md5_F3 X C D A B 7 16 0xF6BB4B60 in
     let B = md5_P md5_F3 X B C D A 10 23 0xBEBFBC70 in
     let A = md5_P md5_F3 X A B C D 13 4 0x289B7EC6 in
     let D = md5_P md5_F3 X D A B C 0 11 0xEAA127FA in
     let C = md5_P md5_F3 X C D A B 3 16 0xD4EF3085 in
     let B = md5_P md5_F3 X B C D A 6 23 0x04881D05 in
     let A = md5_P md5_F3 X A B C D 9 4 0xD9D4D039 in
     let D = md5_P md5_F3 X D A B C 12 11 0xE6DB99E5 in
     let C = md5_P md5_F3 X C D A B 15 16 0x1FA27CF8 in
     let B = md5_P md5_F3 X B C D A 2 23 0xC4AC5665 in
     (A, B, C, D))"

definition md5_round4 :: "uint32 list \<Rightarrow> md5_state \<Rightarrow> md5_state" where
  "md5_round4 X st =
    (case st of (A, B, C, D) \<Rightarrow>
     let A = md5_P md5_F4 X A B C D 0 6 0xF4292244 in
     let D = md5_P md5_F4 X D A B C 7 10 0x432AFF97 in
     let C = md5_P md5_F4 X C D A B 14 15 0xAB9423A7 in
     let B = md5_P md5_F4 X B C D A 5 21 0xFC93A039 in
     let A = md5_P md5_F4 X A B C D 12 6 0x655B59C3 in
     let D = md5_P md5_F4 X D A B C 3 10 0x8F0CCC92 in
     let C = md5_P md5_F4 X C D A B 10 15 0xFFEFF47D in
     let B = md5_P md5_F4 X B C D A 1 21 0x85845DD1 in
     let A = md5_P md5_F4 X A B C D 8 6 0x6FA87E4F in
     let D = md5_P md5_F4 X D A B C 15 10 0xFE2CE6E0 in
     let C = md5_P md5_F4 X C D A B 6 15 0xA3014314 in
     let B = md5_P md5_F4 X B C D A 13 21 0x4E0811A1 in
     let A = md5_P md5_F4 X A B C D 4 6 0xF7537E82 in
     let D = md5_P md5_F4 X D A B C 11 10 0xBD3AF235 in
     let C = md5_P md5_F4 X C D A B 2 15 0x2AD7D2BB in
     let B = md5_P md5_F4 X B C D A 9 21 0xEB86D391 in
     (A, B, C, D))"

definition md5_words :: "uint8 list \<Rightarrow> uint32 list" where
  "md5_words data = map (\<lambda>i. GET_UINT32 data (4 * i)) [0..<16]"

fun add_state :: "md5_state \<Rightarrow> md5_state \<Rightarrow> md5_state" where
  "add_state (a, b, c, d) (A, B, C, D) = (a + A, b + B, c + C, d + D)"

definition md5_process :: "md5_state \<Rightarrow> uint8 list \<Rightarrow> md5_state" where
  "md5_process st data =
     (let X = md5_words data in
      add_state st (md5_round4 X (md5_round3 X (md5_round2 X (md5_round1 X st)))))"

section \<open>The incremental context\<close>

record md5_context =
  total0 :: uint32
  total1 :: uint32
  md5state :: md5_state
  md5buffer :: "uint8 list"

definition md5_starts :: "md5_context \<Rightarrow> md5_context" where
  "md5_starts ctx = ctx\<lparr>total0 := 0, total1 := 0,
     md5state := (0x67452301, 0xEFCDAB89, 0x98BADCFE, 0x10325476)\<rparr>"

definition memcpy_at :: "uint8 list \<Rightarrow> nat \<Rightarrow> uint8 list \<Rightarrow> uint8 list" where
  "memcpy_at buf at src = take at buf @ src @ drop (at + length src) buf"

function md5_blocks :: "md5_state \<Rightarrow> uint8 list \<Rightarrow> md5_state \<times> uint8 list" where
  "md5_blocks st input =
     (if length input \<ge> 64 then md5_blocks (md5_process st (take 64 input)) (drop 64 input)
      else (st, input))"
  by pat_completeness auto
termination by (relation "measure (\<lambda>(st, input). length input)") auto

declare md5_blocks.simps [simp del]

definition md5_update :: "md5_context \<Rightarrow> uint8 list \<Rightarrow> md5_context" where
  "md5_update ctx input =
     (if input = [] then ctx
      else
        (let len = of_nat (length input) :: uint32;
             left = unat (total0 ctx AND 0x3F);
             fill = 64 - left;
             t0 = (total0 ctx + len) AND 0xFFFFFFFF;
             t1 = (if t0 < len then total1 ctx + 1 else total1 ctx);
             (st, buf, rest, left') =
               (if left \<noteq> 0 \<and> length input \<ge> fill
                then (let buf = memcpy_at (md5buffer ctx) left (take fill input) in
                      (md5_process (md5state ctx) buf, buf, drop fill input, 0))
                else (md5state ctx, md5buffer ctx, input, left));
             (st', tail) = md5_blocks st rest
         in ctx\<lparr>total0 := t0, total1 := t1, md5state := st',
                md5buffer := (if tail \<noteq> [] then memcpy_at buf left' tail else buf)\<rparr>))"

definition md5_padding :: "uint8 list" where
  "md5_padding = 0x80 # replicate 63 0"

fun put_state :: "md5_state \<Rightarrow> uint8 list" where
  "put_state (a, b, c, d) = PUT_UINT32 a @ PUT_UINT32 b @ PUT_UINT32 c @ PUT_UINT32 d"

definition md5_finish :: "md5_context \<Rightarrow> uint8 list" where
  "md5_finish ctx =
     (let high = drop_bit 29 (total0 ctx) OR push_bit 3 (total1 ctx);
          low = push_bit 3 (total0 ctx);
          msglen = PUT_UINT32 low @ PUT_UINT32 high;
          last = unat (total0 ctx AND 0x3F);
          padn = (if last < 56 then 56 - last else 120 - last);
          ctx1 = md5_update ctx (take padn md5_padding);
          ctx2 = md5_update ctx1 msglen
      in put_state (md5state ctx2))"

definition md5 :: "uint8 list \<Rightarrow> uint8 list" where
  "md5 text =
     md5_finish (md5_update
       (md5_starts \<lparr>total0 = 0, total1 = 0, md5state = (0, 0, 0, 0), md5buffer = replicate 64 0\<rparr>)
       text)"

definition checksum :: "uint8 list \<Rightarrow> uint8 list \<Rightarrow> int" where
  "checksum buf checkhash = (if md5 buf = take 16 checkhash then 0 else - 1)"

section \<open>The digest without the context\<close>

definition md5_init :: md5_state where
  "md5_init = (0x67452301, 0xEFCDAB89, 0x98BADCFE, 0x10325476)"

definition le64 :: "nat \<Rightarrow> uint8 list" where
  "le64 n = map (\<lambda>i. of_nat (drop_bit (8 * i) n)) [0..<8]"

definition md5_pad :: "uint8 list \<Rightarrow> uint8 list" where
  "md5_pad msg =
     msg @ 0x80 # replicate ((119 - length msg mod 64) mod 64) 0 @ le64 (8 * length msg)"

definition blocks64 :: "uint8 list \<Rightarrow> uint8 list list" where
  "blocks64 msg = map (\<lambda>i. take 64 (drop (64 * i) msg)) [0..<length msg div 64]"

definition md5_fold :: "uint8 list \<Rightarrow> md5_state" where
  "md5_fold msg = foldl md5_process md5_init (blocks64 msg)"

definition md5_spec :: "uint8 list \<Rightarrow> uint8 list" where
  "md5_spec msg = put_state (md5_fold (md5_pad msg))"

section \<open>Blocks\<close>

lemma blocks64_short: "length xs < 64 \<Longrightarrow> blocks64 xs = []"
  by (simp add: blocks64_def)

lemma blocks64_step:
  assumes "64 \<le> length xs"
  shows "blocks64 xs = take 64 xs # blocks64 (drop 64 xs)"
proof -
  obtain q where q: "length xs div 64 = Suc q" using assms by (metis div_greater_zero_iff gr0_implies_Suc zero_less_numeral)
  then have "length (drop 64 xs) div 64 = q" using assms by simp
  moreover have "[0..<Suc q] = 0 # map Suc [0..<q]" by (simp add: upt_conv_Cons map_Suc_upt del: upt_Suc)
  ultimately show ?thesis
    by (simp add: blocks64_def q drop_drop add.commute o_def del: upt_Suc)
qed

lemma blocks64_append:
  "64 dvd length xs \<Longrightarrow> blocks64 (xs @ ys) = blocks64 xs @ blocks64 ys"
proof (induction xs rule: measure_induct_rule[of length])
  case (less xs)
  show ?case
  proof (cases "xs = []")
    case False
    with less.prems have l: "64 \<le> length xs" using dvd_imp_le by blast
    with less.prems have "64 dvd length (drop 64 xs)" by (simp add: dvd_diff_nat)
    with less.IH[of "drop 64 xs"] l have "blocks64 (drop 64 xs @ ys) = blocks64 (drop 64 xs) @ blocks64 ys"
      by simp
    with l show ?thesis by (simp add: blocks64_step[of xs] blocks64_step[of "xs @ ys"])
  qed (simp add: blocks64_short)
qed

lemma md5_blocks_eq:
  "md5_blocks st xs = (foldl md5_process st (blocks64 xs), drop (64 * (length xs div 64)) xs)"
proof (induction st xs rule: md5_blocks.induct)
  case (1 st xs)
  show ?case
  proof (cases "64 \<le> length xs")
    case True
    have "64 + 64 * (length (drop 64 xs) div 64) = 64 * (length xs div 64)"
      using True by (metis add.commute div_add_self2 length_drop le_add_diff_inverse2 mult_Suc_right
          zero_neq_numeral Suc_eq_plus1)
    with 1[OF True] True show ?thesis
      by (subst md5_blocks.simps) (simp add: blocks64_step[of xs] drop_drop add.commute)
  qed (simp add: md5_blocks.simps blocks64_short)
qed

text \<open>The full blocks of a message, and what is left over.\<close>

definition whole :: "uint8 list \<Rightarrow> uint8 list" where
  "whole msg = take (64 * (length msg div 64)) msg"

definition leftover :: "uint8 list \<Rightarrow> uint8 list" where
  "leftover msg = drop (64 * (length msg div 64)) msg"

lemma whole_leftover: "whole msg @ leftover msg = msg"
  by (simp add: whole_def leftover_def)

lemma length_whole: "64 dvd length (whole msg)"
  by (simp add: whole_def min_absorb2)

lemma length_leftover: "length (leftover msg) = length msg mod 64"
  by (simp add: leftover_def minus_mult_div_eq_mod)

lemma leftover_short: "length xs < 64 \<Longrightarrow> leftover xs = xs"
  by (simp add: leftover_def)

lemma md5_fold_whole: "64 dvd length a \<Longrightarrow> md5_fold (a @ b) = foldl md5_process (md5_fold a) (blocks64 b)"
  by (simp add: md5_fold_def blocks64_append)

lemma md5_fold_eq: "md5_fold msg = md5_fold (whole msg)"
  using md5_fold_whole[OF length_whole, of msg "leftover msg"]
  by (simp add: whole_leftover blocks64_short length_leftover)

lemma md5_fold_append: "md5_fold (a @ b) = foldl md5_process (md5_fold a) (blocks64 (leftover a @ b))"
proof -
  have "md5_fold (a @ b) = md5_fold (whole a @ (leftover a @ b))"
    by (simp add: whole_leftover flip: append.assoc)
  also have "\<dots> = foldl md5_process (md5_fold (whole a)) (blocks64 (leftover a @ b))"
    by (rule md5_fold_whole[OF length_whole])
  finally show ?thesis by (simp only: md5_fold_eq[symmetric])
qed

lemma leftover_append: "64 dvd length a \<Longrightarrow> leftover (a @ b) = leftover b"
  by (auto simp: leftover_def elim!: dvdE)

lemma leftover_leftover: "leftover (a @ b) = leftover (leftover a @ b)"
  using leftover_append[OF length_whole, of a "leftover a @ b"] by (simp add: whole_leftover flip: append.assoc)

lemma carry_div:
  fixes n m M :: nat
  assumes "m < M"
  shows "(n + m) div M = n div M + (if (n + m) mod M < m then 1 else 0)"
proof -
  define q r where "q = n div M" and "r = n mod M"
  have n: "n = q * M + r" and r: "r < M" using assms by (simp_all add: q_def r_def)
  show ?thesis
  proof (cases "r + m < M")
    case True
    have "(n + m) div M = q" "(n + m) mod M = r + m"
      using True by (simp_all add: n add.assoc)
    then show ?thesis by (simp add: q_def)
  next
    case False
    have nm: "n + m = M * q + M + (r + m - M)" "r + m - M < M"
      using False r assms by (simp_all add: n)
    have "M * Suc q \<le> n + m" "n + m < M * Suc (Suc q)"
      unfolding mult_Suc_right using nm by linarith+
    then have d: "(n + m) div M = Suc q" by (rule div_nat_eqI)
    have "(n + m) mod M = n + m - M * Suc q" using d minus_mult_div_eq_mod[of "n + m" M] by simp
    with nm have "(n + m) mod M = r + m - M" by simp
    with d show ?thesis using r assms False by (simp add: q_def)
  qed
qed

lemma total_carry:
  assumes "m < 2 ^ 32"
  shows "(if (of_nat (n + m) :: uint32) < of_nat m then of_nat (drop_bit 32 n) + 1
     else of_nat (drop_bit 32 n)) = (of_nat (drop_bit 32 (n + m)) :: uint32)"
proof -
  have "(of_nat (n + m) :: uint32) < of_nat m \<longleftrightarrow> (n + m) mod 2 ^ 32 < m"
    using assms by (simp add: word_less_nat_alt unat_of_nat del: of_nat_add)
  then show ?thesis using carry_div[OF assms, of n] by (auto simp: drop_bit_eq_div)
qed

lemma unat_and_63: "unat ((of_nat n :: uint32) AND 0x3F) = n mod 64"
proof -
  have "(of_nat n :: uint32) AND 0x3F = take_bit 6 (of_nat n)"
    using take_bit_eq_mask[of 6 "of_nat n :: uint32"] by (simp add: mask_numeral)
  then have "unat ((of_nat n :: uint32) AND 0x3F) = take_bit 6 (unat (of_nat n :: uint32))"
    by (simp add: unsigned_take_bit_eq)
  also have "\<dots> = n mod 64"
    by (simp add: unat_of_nat take_bit_eq_mod mod_mod_cancel)
  finally show ?thesis .
qed

lemma and_FFFFFFFF: "(x :: uint32) AND 0xFFFFFFFF = x"
  using take_bit_eq_mask[of 32 x] by (simp add: mask_numeral take_bit_word_eq_self)

section \<open>A context and the message it has absorbed\<close>

definition absorbed :: "md5_context \<Rightarrow> uint8 list \<Rightarrow> bool" where
  "absorbed ctx msg \<longleftrightarrow>
     total0 ctx = of_nat (length msg) \<and> total1 ctx = of_nat (drop_bit 32 (length msg)) \<and>
     length (md5buffer ctx) = 64 \<and> md5state ctx = md5_fold msg \<and>
     take (length msg mod 64) (md5buffer ctx) = leftover msg"

lemma absorbed_buffer:
  "absorbed ctx msg \<Longrightarrow> memcpy_at (md5buffer ctx) (length msg mod 64) src
     = leftover msg @ src @ drop (length msg mod 64 + length src) (md5buffer ctx)"
  by (simp add: absorbed_def memcpy_at_def)

lemma absorbed_fold: "absorbed ctx a \<Longrightarrow>
    md5_fold (a @ b) = foldl md5_process (md5state ctx) (blocks64 (leftover a @ b))"
  by (simp add: md5_fold_append absorbed_def)

text \<open>One update, with its counters and its loop evaluated: the two cases of its first step.\<close>

lemma md5_update_eq:
  assumes ok: "absorbed ctx a" and len: "length b < 2 ^ 32" and "b \<noteq> []"
  shows "md5_update ctx b =
     (let l = length a mod 64;
          (st, buf, rest, l') =
            (if l \<noteq> 0 \<and> 64 - l \<le> length b
             then (let buf = memcpy_at (md5buffer ctx) l (take (64 - l) b) in
                   (md5_process (md5state ctx) buf, buf, drop (64 - l) b, 0))
             else (md5state ctx, md5buffer ctx, b, l))
      in ctx\<lparr>total0 := of_nat (length a + length b),
             total1 := of_nat (drop_bit 32 (length a + length b)),
             md5state := foldl md5_process st (blocks64 rest),
             md5buffer := (if leftover rest \<noteq> [] then memcpy_at buf l' (leftover rest) else buf)\<rparr>)"
proof -
  let ?n = "length a" and ?m = "length b"
  have left: "unat (total0 ctx AND 0x3F) = ?n mod 64" using ok by (simp add: absorbed_def unat_and_63)
  have t0: "(total0 ctx + of_nat ?m) AND 0xFFFFFFFF = of_nat (?n + ?m)"
    using ok by (simp add: absorbed_def and_FFFFFFFF)
  have t1: "(if (of_nat (?n + ?m) :: uint32) < of_nat ?m then total1 ctx + 1 else total1 ctx)
      = of_nat (drop_bit 32 (?n + ?m))"
    using total_carry[OF len, of ?n] ok by (simp only: absorbed_def)
  show ?thesis
    using assms(3)
    by (simp add: md5_update_def left t0 t1 md5_blocks_eq Let_def leftover_def del: of_nat_add)
qed

lemma memcpy_if:
  assumes "l + length x \<le> length buf"
  shows "length (if x \<noteq> [] then memcpy_at buf l x else buf) = length buf"
    and "take (l + length x) (if x \<noteq> [] then memcpy_at buf l x else buf) = take l buf @ x"
  using assms by (auto simp: memcpy_at_def)

lemma md5_update_fills:
  assumes ok: "absorbed ctx a" and len: "length b < 2 ^ 32" and "b \<noteq> []"
    and full: "length a mod 64 \<noteq> 0" "64 - length a mod 64 \<le> length b"
  shows "absorbed (md5_update ctx b) (a @ b)"
proof -
  let ?l = "length a mod 64"
  let ?rest = "drop (64 - ?l) b" and ?buf = "memcpy_at (md5buffer ctx) ?l (take (64 - ?l) b)"
  have buf64: "length (md5buffer ctx) = 64" using ok by (simp add: absorbed_def)
  have lt: "?l < 64" by simp
  have ll: "length (leftover a) = ?l" by (rule length_leftover)
  have buf: "?buf = leftover a @ take (64 - ?l) b"
    using absorbed_buffer[OF ok] full lt buf64 by simp
  have lb: "length ?buf = 64" using buf ll full lt by simp
  have cut: "leftover a @ b = ?buf @ ?rest" using buf by simp
  have st: "md5_fold (a @ b) = foldl md5_process (md5_process (md5state ctx) ?buf) (blocks64 ?rest)"
    unfolding absorbed_fold[OF ok] cut
    using lb by (subst blocks64_step) simp_all
  have lo: "leftover (a @ b) = leftover ?rest"
    using leftover_append[of ?buf ?rest] lb leftover_leftover[of a b] cut by simp
  have lor: "length (leftover ?rest) = (length a + length b) mod 64"
    using length_leftover[of "a @ b"] lo by simp
  have "(length a + length b) mod 64 < 64" by simp
  moreover define buf2 where
    "buf2 = (if leftover ?rest \<noteq> [] then memcpy_at ?buf 0 (leftover ?rest) else ?buf)"
  ultimately have b2: "length buf2 = 64" "take ((length a + length b) mod 64) buf2 = leftover ?rest"
    using memcpy_if[of 0 "leftover ?rest" ?buf] lb lor by simp_all
  have upd: "md5_update ctx b = ctx\<lparr>total0 := of_nat (length a + length b),
      total1 := of_nat (drop_bit 32 (length a + length b)), md5state := md5_fold (a @ b),
      md5buffer := buf2\<rparr>"
    unfolding md5_update_eq[OF ok len assms(3)] st buf2_def
    using full by (simp only: Let_def if_P prod.case simp_thms)
  show ?thesis
    unfolding absorbed_def upd by (simp add: b2 lo del: of_nat_add)
qed

lemma md5_update_keeps:
  assumes ok: "absorbed ctx a" and len: "length b < 2 ^ 32" and "b \<noteq> []"
    and part: "\<not> (length a mod 64 \<noteq> 0 \<and> 64 - length a mod 64 \<le> length b)"
  shows "absorbed (md5_update ctx b) (a @ b)"
proof -
  let ?l = "length a mod 64"
  have buf64: "length (md5buffer ctx) = 64" using ok by (simp add: absorbed_def)
  have ll: "length (leftover a) = ?l" by (rule length_leftover)
  have la: "leftover a = [] \<or> length (leftover a @ b) < 64"
    using part ll mod_less_divisor[of 64 "length a"] by auto
  then have st: "md5_fold (a @ b) = foldl md5_process (md5state ctx) (blocks64 b)"
    using absorbed_fold[OF ok, of b] by (auto simp: blocks64_short)
  have lo: "leftover (a @ b) = leftover a @ leftover b"
    using la leftover_leftover[of a b] leftover_short[of b] leftover_short[of "leftover a @ b"] by auto
  have tot: "(length a + length b) mod 64 = ?l + length (leftover b)"
    using length_leftover[of "a @ b"] lo ll by simp
  moreover have "(length a + length b) mod 64 < 64" by simp
  ultimately have fit: "?l + length (leftover b) < 64" by simp
  have "take ?l (md5buffer ctx) = leftover a" using ok by (simp add: absorbed_def)
  moreover define buf2 where
    "buf2 = (if leftover b \<noteq> [] then memcpy_at (md5buffer ctx) ?l (leftover b) else md5buffer ctx)"
  ultimately have b2: "length buf2 = 64" "take (?l + length (leftover b)) buf2 = leftover a @ leftover b"
    using memcpy_if[of ?l "leftover b" "md5buffer ctx"] fit buf64 by simp_all
  have upd: "md5_update ctx b = ctx\<lparr>total0 := of_nat (length a + length b),
      total1 := of_nat (drop_bit 32 (length a + length b)), md5state := md5_fold (a @ b),
      md5buffer := buf2\<rparr>"
    unfolding md5_update_eq[OF ok len assms(3)] st buf2_def
    using part by (simp only: Let_def if_not_P prod.case simp_thms)
  show ?thesis
    unfolding absorbed_def upd by (simp add: b2 lo tot del: of_nat_add)
qed

lemma md5_update_absorbs:
  assumes "absorbed ctx a" "length b < 2 ^ 32"
  shows "absorbed (md5_update ctx b) (a @ b)"
proof (cases "b = []")
  case True
  then show ?thesis using assms(1) by (simp add: md5_update_def)
next
  case False
  then show ?thesis using md5_update_fills[OF assms] md5_update_keeps[OF assms] by blast
qed

section \<open>The length field\<close>

lemma bit_total:
  "bit (of_nat n :: uint32) k \<longleftrightarrow> k < 32 \<and> bit n k"
  "bit (of_nat (drop_bit 32 n) :: uint32) k \<longleftrightarrow> k < 32 \<and> bit n (k + 32)"
  by (auto simp: bit_of_nat_iff bit_drop_bit_eq add.commute)

lemma length_bytes:
  assumes t0: "t0 = (of_nat n :: uint32)" and t1: "t1 = (of_nat (drop_bit 32 n) :: uint32)"
  shows "PUT_UINT32 (push_bit 3 t0) @ PUT_UINT32 (drop_bit 29 t0 OR push_bit 3 t1) = le64 (8 * n)"
proof -
  define h where "h = drop_bit 29 t0 OR push_bit 3 t1"
  have lo: "bit (push_bit 3 t0) k \<longleftrightarrow> k < 32 \<and> 3 \<le> k \<and> bit n (k - 3)" for k
    by (auto simp: t0 bit_simps bit_total)
  have hi: "bit h k \<longleftrightarrow> k < 32 \<and> bit n (k + 29)" for k
    by (auto simp: h_def t0 t1 bit_or_iff bit_drop_bit_eq bit_push_bit_iff bit_total add.commute)
  have 8: "8 * n = push_bit 3 n" by (simp add: push_bit_eq_mult)
  have sp: "bit (of_nat (drop_bit j (8 * n)) :: uint8) m \<longleftrightarrow> m < 8 \<and> 3 \<le> j + m \<and> bit n (j + m - 3)" for j m
    unfolding 8 by (auto simp: bit_of_nat_iff bit_simps)
  have ucl: "(ucast (drop_bit j (push_bit 3 t0)) :: uint8) = of_nat (drop_bit j (8 * n))"
    if "j \<le> 24" for j
    by (rule bit_word_eqI)
      (use that in \<open>auto simp: bit_ucast_iff bit_drop_bit_eq lo sp add.commute\<close>)
  have uch: "(ucast (drop_bit j h) :: uint8) = of_nat (drop_bit (j + 32) (8 * n))"
    if "j \<le> 24" for j
    by (rule bit_word_eqI)
      (use that in \<open>auto simp: bit_ucast_iff bit_drop_bit_eq hi sp add.commute\<close>)
  show ?thesis
    unfolding h_def[symmetric]
    using ucl[of 0] ucl[of 8] ucl[of 16] ucl[of 24] uch[of 0] uch[of 8] uch[of 16] uch[of 24]
    by (simp add: PUT_UINT32_def le64_def upt_rec)
qed

section \<open>The digest\<close>

lemma length_le64: "length (le64 n) = 8"
  by (simp add: le64_def)

lemma padding_length: "l < 64 \<Longrightarrow> (119 - l) mod 64 = (if l < 56 then 55 - l else (119 - l :: nat))"
  by (simp add: le_mod_geq)

lemma padding_bytes:
  assumes "l < 64"
  shows "take (if l < 56 then 56 - l else 120 - l) md5_padding
     = 0x80 # replicate ((119 - l) mod 64) 0"
proof -
  note padding_length[OF assms]
  moreover have "take (Suc k) md5_padding = 0x80 # replicate (min k 63) 0" for k
    by (simp add: md5_padding_def)
  moreover have "(if l < 56 then 56 - l else 120 - l) = Suc (if l < 56 then 55 - l else 119 - l)"
    using assms by (cases "l < 56") simp_all
  ultimately show ?thesis using assms by (simp add: min_absorb1)
qed

lemma md5_finish_digest:
  assumes "absorbed ctx msg"
  shows "md5_finish ctx = md5_spec msg"
proof -
  let ?l = "length msg mod 64"
  let ?pad = "0x80 # replicate ((119 - ?l) mod 64) 0 :: uint8 list"
  have last: "unat (total0 ctx AND 0x3F) = ?l" using assms by (simp add: absorbed_def unat_and_63)
  have bytes: "PUT_UINT32 (push_bit 3 (total0 ctx)) @
      PUT_UINT32 (drop_bit 29 (total0 ctx) OR push_bit 3 (total1 ctx)) = le64 (8 * length msg)"
    using assms by (intro length_bytes) (simp_all add: absorbed_def)
  have "(119 - ?l) mod 64 < 64" by simp
  then have "length ?pad < 2 ^ 32" by simp
  then have "absorbed (md5_update ctx ?pad) (msg @ ?pad)"
    by (rule md5_update_absorbs[OF assms])
  then have "absorbed (md5_update (md5_update ctx ?pad) (le64 (8 * length msg))) (md5_pad msg)"
    using md5_update_absorbs[of "md5_update ctx ?pad" "msg @ ?pad" "le64 (8 * length msg)"]
    by (simp add: length_le64 md5_pad_def)
  then show ?thesis
    using padding_bytes[of ?l] unfolding md5_finish_def Let_def last bytes
    by (simp add: absorbed_def md5_spec_def)
qed

lemma md5_starts_absorbed: "length (md5buffer ctx) = 64 \<Longrightarrow> absorbed (md5_starts ctx) []"
  by (simp add: absorbed_def md5_starts_def md5_fold_def md5_init_def blocks64_def leftover_def)

lemma md5_updates_absorb:
  "absorbed ctx msg \<Longrightarrow> \<forall>c\<in>set chunks. length c < 2 ^ 32 \<Longrightarrow>
     absorbed (foldl md5_update ctx chunks) (msg @ concat chunks)"
proof (induction chunks arbitrary: ctx msg)
  case (Cons c cs)
  then have "absorbed (md5_update ctx c) (msg @ c)" by (intro md5_update_absorbs) simp_all
  with Cons show ?case by fastforce
qed simp

lemma length_md5_pad: "64 dvd length (md5_pad msg)"
proof -
  define q l where "q = length msg div 64" and "l = length msg mod 64"
  have n: "length msg = 64 * q + l" and l: "l < 64" by (simp_all add: q_def l_def)
  have "length (md5_pad msg) = length msg + (119 - l) mod 64 + 9"
    by (simp add: md5_pad_def length_le64 l_def)
  also have "\<dots> = (if l < 56 then 64 * (q + 1) else 64 * (q + 2))"
    unfolding n padding_length[OF l] using l by simp
  finally show ?thesis by simp
qed

lemma length_put_state: "length (put_state s) = 16"
  by (cases s) (simp add: PUT_UINT32_def)

text \<open>
  C31: However a message is cut into pieces on its way into the incremental context, the digest is
  the one of the message as a whole: padded to a multiple of 64 bytes with one byte 0x80, zeros
  and its length in bits as a 64-bit little-endian number, and folded block by block.
\<close>
theorem md5_incremental:
  assumes "length (md5buffer ctx) = 64" "\<forall>c\<in>set chunks. length c < 2 ^ 32"
  shows "md5_finish (foldl md5_update (md5_starts ctx) chunks) = md5_spec (concat chunks) \<and>
     64 dvd length (md5_pad (concat chunks))"
  using md5_updates_absorb[OF md5_starts_absorbed[OF assms(1)] assms(2)]
  by (simp add: md5_finish_digest length_md5_pad)

theorem md5_incremental_witness:
  "md5_finish (foldl md5_update
      (md5_starts \<lparr>total0 = 9, total1 = 8, md5state = (0, 0, 0, 0), md5buffer = replicate 64 1\<rparr>)
      [[0x61], [0x62, 0x63]]) = md5_spec [0x61, 0x62, 0x63]"
  using md5_incremental[of "\<lparr>total0 = 9, total1 = 8, md5state = (0, 0, 0, 0), md5buffer = replicate 64 1\<rparr>"
      "[[0x61], [0x62, 0x63]]"]
  by simp

lemma md5_digest:
  assumes "length text < 2 ^ 31"
  shows "md5 text = md5_spec text"
  using md5_updates_absorb[OF md5_starts_absorbed, of _ "[text]"] assms
  by (simp add: md5_def md5_finish_digest)

lemma length_md5: "length (md5 text) = 16"
  by (simp add: md5_def md5_finish_def Let_def length_put_state)

text \<open>A packet carries its digest behind its data; the test accepts exactly that.\<close>

lemma checksum_zero: "checksum buf h = 0 \<longleftrightarrow> md5 buf = take 16 h"
  by (simp add: checksum_def)

lemma checksum_appended: "checksum buf (md5 buf) = 0"
  by (simp add: checksum_zero length_md5)

end
