(* ===== verification/Blowfish.thy ===== *)
theory Blowfish
  imports Md5 CipherTables
begin

text \<open>
  The packet cipher: \<open>blowfish.cpp\<close> with its initial tables, the session keys of
  \<open>map_session.cpp\<close>, and the two ends of the map server's packets in \<open>map_networking.cpp\<close>
  (\<open>send_parse\<close> from the digest on, and \<open>map_decipher_packet\<close>).

  A pointer pair \<open>xl\<close>, \<open>xr\<close> becomes a pair of words, the tables \<open>P\<close> and \<open>S\<close> lists of 18 and
  1024 words, and a network buffer a list of bytes that is read and written as little-endian
  words where the code casts it to \<open>uint32*\<close>.  The branch for 32-bit Windows compilers, which is
  inline assembly for the same function, is not modelled.
\<close>

section \<open>Enciphering and deciphering a pair of words\<close>

definition TT :: "uint32 \<Rightarrow> uint32 list \<Rightarrow> uint32" where
  "TT working S =
     ((S ! (256 + unat (drop_bit 8 working AND 0xFF)) AND 1) XOR 32) +
     ((S ! (768 + unat (drop_bit 24 working)) AND 1) XOR 32) +
     S ! (512 + unat (drop_bit 16 working AND 0xFF)) +
     S ! unat (working AND 0xFF)"

definition bf_round :: "uint32 list \<Rightarrow> uint32 list \<Rightarrow> uint32 \<times> uint32 \<Rightarrow> nat \<Rightarrow> uint32 \<times> uint32" where
  "bf_round P S x i =
     (case x of (Xl, Xr) \<Rightarrow>
        let Xl = Xl XOR P ! i;
            Xr = TT Xl S XOR Xr
        in (Xr, Xl))"

definition blowfish_encipher :: "uint32 list \<Rightarrow> uint32 list \<Rightarrow> uint32 \<times> uint32 \<Rightarrow> uint32 \<times> uint32" where
  "blowfish_encipher P S x =
     (case foldl (bf_round P S) x [0..<16] of (Xl, Xr) \<Rightarrow>
        (case (Xr, Xl) of (Xl, Xr) \<Rightarrow> (Xl XOR P ! 17, Xr XOR P ! 16)))"

definition blowfish_decipher :: "uint32 list \<Rightarrow> uint32 list \<Rightarrow> uint32 \<times> uint32 \<Rightarrow> uint32 \<times> uint32" where
  "blowfish_decipher P S x =
     (case foldl (bf_round P S) x (rev [2..<18]) of (Xl, Xr) \<Rightarrow>
        (case (Xr, Xl) of (Xl, Xr) \<Rightarrow> (Xl XOR P ! 0, Xr XOR P ! 1)))"

section \<open>The key schedule\<close>

primrec key_data :: "uint8 list \<Rightarrow> nat \<Rightarrow> nat \<Rightarrow> uint32 \<Rightarrow> nat \<Rightarrow> uint32 \<times> nat" where
  "key_data key keybytes 0 data j = (data, j)"
| "key_data key keybytes (Suc k) data j =
     (let data = push_bit 8 data OR scast (key ! j);
          j = (if j + 1 \<ge> keybytes then 0 else j + 1)
      in key_data key keybytes k data j)"

definition mix_key_step :: "uint8 list \<Rightarrow> nat \<Rightarrow> uint32 list \<times> nat \<Rightarrow> nat \<Rightarrow> uint32 list \<times> nat" where
  "mix_key_step key keybytes x i =
     (case x of (P, j) \<Rightarrow>
        (case key_data key keybytes 4 0 j of (data, j) \<Rightarrow> (P[i := P ! i XOR data], j)))"

definition fill_P_step :: "uint32 list \<Rightarrow> uint32 list \<times> (uint32 \<times> uint32) \<Rightarrow> nat \<Rightarrow>
    uint32 list \<times> (uint32 \<times> uint32)" where
  "fill_P_step S x i =
     (case x of (P, dat) \<Rightarrow>
        (case blowfish_encipher P S dat of (datal, datar) \<Rightarrow>
           (P[2 * i := datal, 2 * i + 1 := datar], (datal, datar))))"

definition fill_S_step :: "uint32 list \<Rightarrow> uint32 list \<times> (uint32 \<times> uint32) \<Rightarrow> nat \<Rightarrow>
    uint32 list \<times> (uint32 \<times> uint32)" where
  "fill_S_step P x i =
     (case x of (S, dat) \<Rightarrow>
        (case blowfish_encipher P S dat of (datal, datar) \<Rightarrow>
           (S[2 * i := datal, 2 * i + 1 := datar], (datal, datar))))"

definition blowfish_init :: "uint8 list \<Rightarrow> nat \<Rightarrow> uint32 list \<times> uint32 list" where
  "blowfish_init key keybytes =
     (let P = map (\<lambda>i. GET_UINT32 subkey (4 * i)) [0..<18];
          S = map (\<lambda>i. GET_UINT32 subkey (72 + 4 * i)) [0..<1024];
          P = fst (foldl (mix_key_step key keybytes) (P, 0) [0..<18]);
          (P, dat) = foldl (fill_P_step S) (P, (0, 0)) [0..<9];
          (S, dat) = foldl (fill_S_step P) (S, dat) [0..<512]
      in (P, S))"

section \<open>Session keys\<close>

datatype BLOWFISH =
  BLOWFISH_WAITING | BLOWFISH_SENT | BLOWFISH_ACCEPTED | BLOWFISH_PENDING_ZONE

record blowfish =
  bf_key :: "uint32 list"
  bf_hash :: "uint8 list"
  bf_P :: "uint32 list"
  bf_S :: "uint32 list"
  bf_status :: BLOWFISH

record map_session =
  session_blowfish :: blowfish
  prev_blowfish :: blowfish

definition cut_at_zero :: "uint8 list \<Rightarrow> uint8 list" where
  "cut_at_zero h =
     (let i = length (takeWhile (\<lambda>b. b \<noteq> 0) h) in take i h @ replicate (length h - i) 0)"

definition initBlowfish :: "map_session \<Rightarrow> map_session" where
  "initBlowfish s =
     (let b = session_blowfish s;
          hash = cut_at_zero (md5 (take 20 (concat (map PUT_UINT32 (bf_key b)))));
          (P, S) = blowfish_init hash 16
      in s\<lparr>session_blowfish := b\<lparr>bf_hash := hash, bf_P := P, bf_S := S\<rparr>\<rparr>)"

definition incrementBlowfish :: "map_session \<Rightarrow> map_session" where
  "incrementBlowfish s =
     (let s = s\<lparr>prev_blowfish := session_blowfish s\<rparr>;
          b = session_blowfish s
      in initBlowfish (s\<lparr>session_blowfish := b\<lparr>bf_key := (bf_key b)[4 := bf_key b ! 4 + 2]\<rparr>\<rparr>))"

section \<open>Packets\<close>

definition FFXI_HEADER_SIZE :: nat where "FFXI_HEADER_SIZE = 28"

definition read_word :: "uint8 list \<Rightarrow> nat \<Rightarrow> uint32" where
  "read_word buff w = GET_UINT32 buff (4 * w)"

definition write_word :: "uint8 list \<Rightarrow> nat \<Rightarrow> uint32 \<Rightarrow> uint8 list" where
  "write_word buff w x = memcpy_at buff (4 * w) (PUT_UINT32 x)"

definition crypt_pair :: "(uint32 \<times> uint32 \<Rightarrow> uint32 \<times> uint32) \<Rightarrow> uint8 list \<Rightarrow> nat \<Rightarrow> uint8 list" where
  "crypt_pair f buff i =
     (case f (read_word buff (2 * i + 7), read_word buff (2 * i + 8)) of
        (xl, xr) \<Rightarrow> write_word (write_word buff (2 * i + 7) xl) (2 * i + 8) xr)"

definition sending_key :: "map_session \<Rightarrow> bool \<Rightarrow> blowfish" where
  "sending_key s usePreviousKey =
     (if bf_status (session_blowfish s) = BLOWFISH_PENDING_ZONE \<and> usePreviousKey
      then prev_blowfish s else session_blowfish s)"

definition send_sealed :: "map_session \<Rightarrow> bool \<Rightarrow> uint8 list \<Rightarrow> uint8 list \<Rightarrow> (uint8 list \<times> nat) option" where
  "send_sealed s usePreviousKey buff scratch =
     (let PacketSize = length scratch + 16 in
      if length buff < FFXI_HEADER_SIZE + PacketSize then None
      else
        (let buff = memcpy_at buff FFXI_HEADER_SIZE (scratch @ md5 scratch);
             CypherSize = 2 * (PacketSize div 4 div 2);
             key = sending_key s usePreviousKey;
             buff = foldl (crypt_pair (blowfish_encipher (bf_P key) (bf_S key))) buff
                      [0..<CypherSize div 2]
         in Some (buff, PacketSize + FFXI_HEADER_SIZE)))"

definition map_decipher_packet :: "uint8 list \<Rightarrow> nat \<Rightarrow> blowfish \<Rightarrow> (uint8 list \<times> int) option" where
  "map_decipher_packet buff buffsize key =
     (if buffsize < FFXI_HEADER_SIZE + 16 then None
      else
        (let tmp = (buffsize - FFXI_HEADER_SIZE) div 4 mod 2 ^ 16;
             tmp = tmp - tmp mod 2;
             buff = foldl (crypt_pair (blowfish_decipher (bf_P key) (bf_S key))) buff [0..<tmp div 2]
         in Some (buff,
              if checksum (take (buffsize - (FFXI_HEADER_SIZE + 16)) (drop FFXI_HEADER_SIZE buff))
                   (drop (buffsize - 16) buff) = 0
              then 0 else - 1)))"

section \<open>The cipher is its own inverse\<close>

lemma bf_round_pair: "bf_round P S (a, b) i = (TT (a XOR P ! i) S XOR b, a XOR P ! i)"
  by (simp add: bf_round_def Let_def)

text \<open>
  The state deciphering has before it uses \<open>P ! (i + 1)\<close>, from the state enciphering had before
  it used \<open>P ! i\<close>.
\<close>

definition mirror :: "uint32 list \<Rightarrow> nat \<Rightarrow> uint32 \<times> uint32 \<Rightarrow> uint32 \<times> uint32" where
  "mirror P i x = (snd x XOR P ! (i + 1), fst x XOR P ! i)"

lemma xor_back: "(a :: uint32) XOR (b XOR b) = a" "b XOR (b XOR (a :: uint32)) = a"
  by (simp_all flip: xor.assoc)

lemma mirror_round: "bf_round P S (mirror P (Suc i) (bf_round P S x i)) (i + 2) = mirror P i x"
  by (cases x) (simp add: mirror_def bf_round_pair xor_back ac_simps)

lemma mirror_rounds:
  "foldl (bf_round P S) (mirror P n (foldl (bf_round P S) x [0..<n])) (rev [2..<n + 2]) = mirror P 0 x"
proof (induction n)
  case (Suc n)
  then show ?case using mirror_round[of P S n] by simp
qed simp

lemma decipher_encipher: "blowfish_decipher P S (blowfish_encipher P S x) = x"
proof -
  obtain l r where s: "foldl (bf_round P S) x [0..<16] = (l, r)" by fastforce
  have "blowfish_encipher P S x = mirror P 16 (l, r)"
    by (simp add: blowfish_encipher_def s mirror_def)
  then have "foldl (bf_round P S) (blowfish_encipher P S x) (rev [2..<18]) = mirror P 0 x"
    using mirror_rounds[of P S 16 x] s by simp
  then show ?thesis
    by (cases x) (simp add: blowfish_decipher_def mirror_def xor_back ac_simps)
qed

lemma encipher_decipher: "blowfish_encipher P S (blowfish_decipher P S y) = y"
proof -
  have "inj (blowfish_encipher P S)"
    by (rule inj_on_inverseI[where g = "blowfish_decipher P S"]) (rule decipher_encipher)
  then have "surj (blowfish_encipher P S)" by (rule finite_UNIV_inj_surj[rotated]) simp
  then obtain x where "y = blowfish_encipher P S x" by blast
  then show ?thesis by (simp add: decipher_encipher)
qed

text \<open>
  With any tables, deciphering undoes enciphering on every pair of words and enciphering undoes
  deciphering.
\<close>
theorem cipher_roundtrip:
  "blowfish_decipher P S (blowfish_encipher P S x) = x \<and>
   blowfish_encipher P S (blowfish_decipher P S x) = x"
  by (simp add: decipher_encipher encipher_decipher)

section \<open>Buffers\<close>

lemma GET_PUT: "GET_UINT32 (PUT_UINT32 x @ ys) 0 = x"
proof (rule bit_word_eqI)
  fix n assume "n < LENGTH(32)"
  then show "bit (GET_UINT32 (PUT_UINT32 x @ ys) 0) n = bit x n"
    by (cases "n < 8"; cases "n < 16"; cases "n < 24")
      (auto simp: GET_UINT32_def PUT_UINT32_def bit_simps)
qed

lemma bit_uint8: "bit (w :: uint8) k \<Longrightarrow> k < 8"
  using bit_imp_le_length[of w k] by simp

lemma PUT_GET:
  assumes "i + 4 \<le> length b"
  shows "PUT_UINT32 (GET_UINT32 b i) = take 4 (drop i b)"
proof -
  have "take 4 (drop i b) = [b ! i, b ! (i + 1), b ! (i + 2), b ! (i + 3)]"
    using assms by (simp add: take_Suc_conv_app_nth numeral_eq_Suc)
  moreover have "PUT_UINT32 (GET_UINT32 b i) = [b ! i, b ! (i + 1), b ! (i + 2), b ! (i + 3)]"
    by (auto simp: GET_UINT32_def PUT_UINT32_def intro!: bit_word_eqI)
      (auto simp: bit_simps dest: bit_uint8)
  ultimately show ?thesis by simp
qed

lemma length_PUT [simp]: "length (PUT_UINT32 x) = 4"
  by (simp add: PUT_UINT32_def)

text \<open>What enciphering one pair does to its eight bytes.\<close>

definition crypt_bytes :: "(uint32 \<times> uint32 \<Rightarrow> uint32 \<times> uint32) \<Rightarrow> uint8 list \<Rightarrow> uint8 list" where
  "crypt_bytes f c =
     (case f (GET_UINT32 c 0, GET_UINT32 c 4) of (l, r) \<Rightarrow> PUT_UINT32 l @ PUT_UINT32 r)"

lemma length_crypt_bytes [simp]: "length (crypt_bytes f c) = 8"
  by (simp add: crypt_bytes_def split: prod.splits)

lemma GET_append: "GET_UINT32 (pre @ b) (length pre + i) = GET_UINT32 b i"
  by (simp add: GET_UINT32_def nth_append)

lemma GET_prefix: "i + 4 \<le> length b \<Longrightarrow> GET_UINT32 (b @ post) i = GET_UINT32 b i"
  by (simp add: GET_UINT32_def nth_append)

lemma crypt_bytes_inverse:
  assumes "\<And>x. g (f x) = x" "length c = 8"
  shows "crypt_bytes g (crypt_bytes f c) = c"
proof -
  obtain l r where f: "f (GET_UINT32 c 0, GET_UINT32 c 4) = (l, r)" by fastforce
  have 0: "GET_UINT32 (PUT_UINT32 l @ PUT_UINT32 r) 0 = l" by (rule GET_PUT)
  have 4: "GET_UINT32 (PUT_UINT32 l @ PUT_UINT32 r) 4 = r"
    using GET_append[of "PUT_UINT32 l" "PUT_UINT32 r" 0] GET_PUT[of r "[]"] by simp
  have "g (l, r) = (GET_UINT32 c 0, GET_UINT32 c 4)" using assms(1) f by metis
  then have "crypt_bytes g (crypt_bytes f c) = PUT_UINT32 (GET_UINT32 c 0) @ PUT_UINT32 (GET_UINT32 c 4)"
    unfolding crypt_bytes_def f prod.case 0 4 by simp
  also have "\<dots> = take 4 c @ take 4 (drop 4 c)" using assms(2) by (simp add: PUT_GET)
  also have "\<dots> = c" using assms(2) append_take_drop_id[of 4 c] by simp
  finally show ?thesis .
qed

lemma crypt_pair_slice:
  assumes "length pre = 28 + 8 * i" "length c = 8"
  shows "crypt_pair f (pre @ c @ post) i = pre @ crypt_bytes f c @ post"
proof -
  have l: "read_word (pre @ c @ post) (2 * i + 7) = GET_UINT32 c 0"
    using GET_append[of pre "c @ post" 0] GET_prefix[of 0 c post] assms
    by (simp add: read_word_def algebra_simps)
  have r: "read_word (pre @ c @ post) (2 * i + 8) = GET_UINT32 c 4"
    using GET_append[of pre "c @ post" 4] GET_prefix[of 4 c post] assms
    by (simp add: read_word_def algebra_simps)
  have w1: "write_word (pre @ c @ post) (2 * i + 7) x = pre @ PUT_UINT32 x @ drop 4 c @ post" for x
    using assms by (simp add: write_word_def memcpy_at_def algebra_simps)
  have w2: "write_word (pre @ PUT_UINT32 x @ drop 4 c @ post) (2 * i + 8) y
      = pre @ PUT_UINT32 x @ PUT_UINT32 y @ post" for x y
    using assms by (simp add: write_word_def memcpy_at_def algebra_simps)
  show ?thesis
    unfolding crypt_pair_def l r by (simp add: crypt_bytes_def w1 w2 split: prod.splits)
qed

primrec crypt_body :: "(uint32 \<times> uint32 \<Rightarrow> uint32 \<times> uint32) \<Rightarrow> nat \<Rightarrow> uint8 list \<Rightarrow> uint8 list" where
  "crypt_body f 0 body = []"
| "crypt_body f (Suc n) body = crypt_bytes f (take 8 body) @ crypt_body f n (drop 8 body)"

lemma crypt_loop:
  "length pre = 28 + 8 * i \<Longrightarrow> length body = 8 * n \<Longrightarrow>
     foldl (crypt_pair f) (pre @ body @ post) [i..<i + n] = pre @ crypt_body f n body @ post"
proof (induction n arbitrary: i pre body)
  case (Suc n)
  have b: "body = take 8 body @ drop 8 body" by simp
  have step: "crypt_pair f (pre @ body @ post) i
      = (pre @ crypt_bytes f (take 8 body)) @ drop 8 body @ post"
    using crypt_pair_slice[OF Suc.prems(1), of "take 8 body" f "drop 8 body @ post"] Suc.prems(2)
    by (subst b) (simp only: append_assoc, simp)
  have "[i..<i + Suc n] = i # [Suc i..<Suc i + n]" by (simp add: upt_conv_Cons)
  then have "foldl (crypt_pair f) (pre @ body @ post) [i..<i + Suc n]
      = foldl (crypt_pair f) ((pre @ crypt_bytes f (take 8 body)) @ drop 8 body @ post) [Suc i..<Suc i + n]"
    by (simp only: foldl_Cons step)
  also have "\<dots> = (pre @ crypt_bytes f (take 8 body)) @ crypt_body f n (drop 8 body) @ post"
    by (rule Suc.IH) (use Suc.prems in simp_all)
  finally show ?case by simp
qed simp

lemma length_crypt_body: "length (crypt_body f n body) = 8 * n"
  by (induction n arbitrary: body) simp_all

lemma crypt_body_inverse:
  assumes "\<And>x. g (f x) = x"
  shows "length body = 8 * n \<Longrightarrow> crypt_body g n (crypt_body f n body) = body"
  by (induction n arbitrary: body) (simp_all add: crypt_bytes_inverse[where f = f and g = g, OF assms])

lemma crypt_loop_inverse:
  assumes inv: "\<And>x. g (f x) = x" and len: "28 + 8 * n \<le> length buff"
  shows "foldl (crypt_pair g) (foldl (crypt_pair f) buff [0..<n]) [0..<n] = buff"
proof -
  let ?pre = "take 28 buff" and ?body = "take (8 * n) (drop 28 buff)" and ?post = "drop (8 * n) (drop 28 buff)"
  have b: "buff = ?pre @ ?body @ ?post" by (simp only: append_take_drop_id)
  have pre: "length ?pre = 28 + 8 * 0" and body: "length ?body = 8 * n" using len by simp_all
  have "foldl (crypt_pair f) buff [0..<n] = ?pre @ crypt_body f n ?body @ ?post"
    using crypt_loop[OF pre body, of f ?post] b by simp
  then have "foldl (crypt_pair g) (foldl (crypt_pair f) buff [0..<n]) [0..<n]
      = ?pre @ crypt_body g n (crypt_body f n ?body) @ ?post"
    using crypt_loop[where body = "crypt_body f n ?body" and f = g and post = ?post,
        OF pre length_crypt_body] by simp
  then show ?thesis using crypt_body_inverse[where f = f and g = g, OF inv body] b by simp
qed

section \<open>Sealed packets open\<close>

lemma length_memcpy: "at + length src \<le> length buf \<Longrightarrow> length (memcpy_at buf at src) = length buf"
  by (simp add: memcpy_at_def)

lemma sealed_checksum:
  assumes "28 + length scratch + 16 \<le> length buff"
  shows "checksum (take (length scratch) (drop 28 (memcpy_at buff 28 (scratch @ md5 scratch))))
     (drop (28 + length scratch) (memcpy_at buff 28 (scratch @ md5 scratch))) = 0"
proof -
  let ?b = "memcpy_at buff 28 (scratch @ md5 scratch)"
  have "drop 28 ?b = scratch @ md5 scratch @ drop (28 + length scratch + 16) buff"
    using assms by (simp add: memcpy_at_def length_md5)
  then have "take (length scratch) (drop 28 ?b) = scratch"
    "drop (28 + length scratch) ?b = md5 scratch @ drop (28 + length scratch + 16) buff"
    by (simp_all add: add.commute[of 28] flip: drop_drop)
  then show ?thesis by (simp add: checksum_zero length_md5)
qed

lemma sealed_opens:
  assumes room: "length scratch + 44 \<le> length buff" and "length scratch \<le> 2500"
    and sent: "send_sealed s use buff scratch = Some (pkt, n)"
  shows "map_decipher_packet pkt n (sending_key s use)
     = Some (memcpy_at buff 28 (scratch @ md5 scratch), 0)"
proof -
  let ?b = "memcpy_at buff 28 (scratch @ md5 scratch)" and ?k = "sending_key s use"
  let ?m = "(length scratch + 16) div 4 div 2"
  have lb: "length ?b = length buff" using room by (intro length_memcpy) (simp add: length_md5)
  have n: "n = length scratch + 44"
    and pkt: "pkt = foldl (crypt_pair (blowfish_encipher (bf_P ?k) (bf_S ?k))) ?b [0..<?m]"
    using sent room by (auto simp: send_sealed_def FFXI_HEADER_SIZE_def Let_def)
  have dec: "foldl (crypt_pair (blowfish_decipher (bf_P ?k) (bf_S ?k))) pkt [0..<?m] = ?b"
    unfolding pkt using room lb by (intro crypt_loop_inverse decipher_encipher) simp
  have "(length scratch + 16) div 4 < 2 ^ 16" using assms(2) by simp
  then have tmp: "(n - FFXI_HEADER_SIZE) div 4 mod 2 ^ 16 = (length scratch + 16) div 4"
    by (simp add: n FFXI_HEADER_SIZE_def)
  have half: "(x - x mod 2) div 2 = x div 2" for x :: nat by presburger
  have ck: "checksum (take (n - (FFXI_HEADER_SIZE + 16)) (drop FFXI_HEADER_SIZE ?b)) (drop (n - 16) ?b) = 0"
    using sealed_checksum[of scratch buff] room by (simp add: n FFXI_HEADER_SIZE_def)
  have "\<not> n < FFXI_HEADER_SIZE + 16" by (simp add: n FFXI_HEADER_SIZE_def)
  then show ?thesis
    unfolding map_decipher_packet_def Let_def tmp half dec ck by (simp only: if_False simp_thms if_True)
qed

lemma send_fits:
  "length scratch + 44 \<le> length buff \<Longrightarrow> \<exists>pkt n. send_sealed s use buff scratch = Some (pkt, n)"
  by (simp add: send_sealed_def FFXI_HEADER_SIZE_def Let_def)

text \<open>
  C29: Whatever the map server sends can be opened: a packet sealed by \<open>send_parse\<close> (its data, the
  digest of the data, both enciphered in pairs of words with an odd last word left plain) passes
  the receiver's decipher-and-check with the key it was sent under, and the receiver then holds
  exactly the header, the data and the digest.
\<close>
theorem sealed_packet_opens:
  assumes "length scratch + 44 \<le> length buff" "length scratch \<le> 2500"
  shows "\<exists>pkt n. send_sealed s use buff scratch = Some (pkt, n) \<and>
     map_decipher_packet pkt n (sending_key s use)
       = Some (memcpy_at buff 28 (scratch @ md5 scratch), 0)"
  using sealed_opens[OF assms] send_fits[OF assms(1)] by blast

definition plain_session :: map_session where
  "plain_session =
     (let b = \<lparr>bf_key = [1, 2, 3, 4, 5], bf_hash = replicate 16 0, bf_P = replicate 18 7,
               bf_S = replicate 1024 9, bf_status = BLOWFISH_PENDING_ZONE\<rparr>
      in \<lparr>session_blowfish = b, prev_blowfish = b\<rparr>)"

theorem sealed_packet_opens_witness:
  "\<exists>pkt n. send_sealed plain_session False (replicate 60 0) [1, 2, 3, 4, 5] = Some (pkt, n) \<and>
     map_decipher_packet pkt n (session_blowfish plain_session)
       = Some (memcpy_at (replicate 60 0) 28 ([1, 2, 3, 4, 5] @ md5 [1, 2, 3, 4, 5]), 0)"
  using sealed_packet_opens[of "[1, 2, 3, 4, 5]" "replicate 60 0" plain_session False]
  by (simp add: sending_key_def)

section \<open>Changing keys\<close>

lemma length_fold_pair:
  assumes "\<And>x i. length (fst (f x i)) = length (fst x)"
  shows "length (fst (foldl f x is)) = length (fst x)"
  using assms by (induction "is" arbitrary: x) simp_all

lemma blowfish_init_lengths:
  "length (fst (blowfish_init key n)) = 18" "length (snd (blowfish_init key n)) = 1024"
proof -
  have mix: "length (fst (foldl (mix_key_step key n) x is)) = length (fst x)" for x "is"
    by (rule length_fold_pair) (auto simp: mix_key_step_def split: prod.splits)
  have P: "length (fst (foldl (fill_P_step S) x is)) = length (fst x)" for S x "is"
    by (rule length_fold_pair) (auto simp: fill_P_step_def split: prod.splits)
  have S: "length (fst (foldl (fill_S_step P) x is)) = length (fst x)" for P x "is"
    by (rule length_fold_pair) (auto simp: fill_S_step_def split: prod.splits)
  define P0 where "P0 = fst (foldl (mix_key_step key n) (map (\<lambda>i. GET_UINT32 subkey (4 * i)) [0..<18], 0) [0..<18])"
  define S0 where "S0 = map (\<lambda>i. GET_UINT32 subkey (72 + 4 * i)) [0..<1024]"
  obtain P1 d1 where 1: "foldl (fill_P_step S0) (P0, (0, 0)) [0..<9] = (P1, d1)" by (metis prod.exhaust)
  obtain S1 d2 where 2: "foldl (fill_S_step P1) (S0, d1) [0..<512] = (S1, d2)" by (metis prod.exhaust)
  have "blowfish_init key n = (P1, S1)"
    unfolding blowfish_init_def Let_def P0_def[symmetric] S0_def[symmetric] 1 prod.case 2 by simp
  moreover have "length P1 = 18" using P[of S0 "(P0, (0, 0))" "[0..<9]"] 1 mix by (simp add: P0_def)
  moreover have "length S1 = 1024" using S[of P1 "(S0, d1)" "[0..<512]"] 2 by (simp add: S0_def)
  ultimately show "length (fst (blowfish_init key n)) = 18" "length (snd (blowfish_init key n)) = 1024"
    by simp_all
qed

lemma and_FF: "unat ((w :: uint32) AND 0xFF) < 256"
proof -
  have "w AND 0xFF = take_bit 8 w" using take_bit_eq_mask[of 8 w] by (simp add: mask_numeral)
  then have "unat (w AND 0xFF) = take_bit 8 (unat w)" by (simp only: unsigned_take_bit_eq)
  then show ?thesis using take_bit_nat_less_exp[of 8 "unat w"] by simp
qed

lemma drop_24: "unat (drop_bit 24 (w :: uint32)) < 256"
proof -
  have "unat w < 2 ^ 32" using unsigned_less[of w] by simp
  then have "unat w div 2 ^ 24 < 256" by (simp add: less_mult_imp_div_less)
  then show ?thesis by (simp add: drop_bit_eq_div unat_div)
qed

text \<open>
  Changing the session key is safe for a client that has not followed yet.  After
  \<open>incrementBlowfish\<close> the old key is kept as the previous one and the new one differs from it in
  its last word, its tables have the 18 and 1024 entries the cipher indexes, every index \<open>TT\<close>
  computes is within them, and while the zone change is pending a packet sent with the previous
  key is opened by the key that was current before.
\<close>
theorem increment_keeps_previous:
  assumes "length (bf_key (session_blowfish s)) = 5"
    and "bf_status (session_blowfish s) = BLOWFISH_PENDING_ZONE"
    and "length scratch + 44 \<le> length buff" "length scratch \<le> 2500"
  shows "let s' = incrementBlowfish s; b = session_blowfish s' in
     prev_blowfish s' = session_blowfish s \<and> bf_key b ! 4 = bf_key (session_blowfish s) ! 4 + 2 \<and>
     length (bf_P b) = 18 \<and> length (bf_S b) = 1024 \<and>
     (\<forall>w :: uint32. 256 + unat (drop_bit 8 w AND 0xFF) < length (bf_S b) \<and>
          768 + unat (drop_bit 24 w) < length (bf_S b) \<and>
          512 + unat (drop_bit 16 w AND 0xFF) < length (bf_S b) \<and>
          unat (w AND 0xFF) < length (bf_S b)) \<and>
     (\<exists>pkt n. send_sealed s' True buff scratch = Some (pkt, n) \<and>
        map_decipher_packet pkt n (session_blowfish s)
          = Some (memcpy_at buff 28 (scratch @ md5 scratch), 0))"
proof -
  define s' where "s' = incrementBlowfish s"
  let ?b = "session_blowfish s'"
  have pair: "\<exists>h. x = fst (blowfish_init h 16) \<and> y = snd (blowfish_init h 16)"
    if "blowfish_init h 16 = (x, y)" for h x y
    using that by (metis fst_conv snd_conv)
  have f: "prev_blowfish s' = session_blowfish s"
    "bf_key ?b = (bf_key (session_blowfish s))[4 := bf_key (session_blowfish s) ! 4 + 2]"
    "bf_status ?b = bf_status (session_blowfish s)"
    "\<exists>h. bf_P ?b = fst (blowfish_init h 16) \<and> bf_S ?b = snd (blowfish_init h 16)"
    by (auto simp: s'_def incrementBlowfish_def initBlowfish_def Let_def split: prod.splits intro: pair)
  have l: "length (bf_P ?b) = 18" "length (bf_S ?b) = 1024"
    using f(4) blowfish_init_lengths by auto
  have k: "sending_key s' True = session_blowfish s"
    using assms(2) f by (simp add: sending_key_def)
  obtain pkt n where p: "send_sealed s' True buff scratch = Some (pkt, n)"
    using send_fits[OF assms(3)] by blast
  have bounds: "\<forall>w :: uint32. 256 + unat (drop_bit 8 w AND 0xFF) < length (bf_S ?b) \<and>
      768 + unat (drop_bit 24 w) < length (bf_S ?b) \<and>
      512 + unat (drop_bit 16 w AND 0xFF) < length (bf_S ?b) \<and>
      unat (w AND 0xFF) < length (bf_S ?b)"
  proof
    fix w :: uint32
    show "256 + unat (drop_bit 8 w AND 0xFF) < length (bf_S ?b) \<and>
      768 + unat (drop_bit 24 w) < length (bf_S ?b) \<and>
      512 + unat (drop_bit 16 w AND 0xFF) < length (bf_S ?b) \<and> unat (w AND 0xFF) < length (bf_S ?b)"
      using and_FF[of "drop_bit 8 w"] and_FF[of "drop_bit 16 w"] and_FF[of w] drop_24[of w] l(2)
      by linarith
  qed
  have key: "bf_key ?b ! 4 = bf_key (session_blowfish s) ! 4 + 2" using f(2) assms(1) by simp
  have opens: "\<exists>pkt n. send_sealed s' True buff scratch = Some (pkt, n) \<and>
     map_decipher_packet pkt n (session_blowfish s)
       = Some (memcpy_at buff 28 (scratch @ md5 scratch), 0)"
    using sealed_opens[OF assms(3,4) p] k p by simp
  show ?thesis
    unfolding Let_def s'_def[symmetric] by (intro conjI f(1) key l bounds opens)
qed

theorem increment_keeps_previous_witness:
  "\<exists>pkt n. send_sealed (incrementBlowfish plain_session) True (replicate 60 0) [1, 2] = Some (pkt, n) \<and>
     map_decipher_packet pkt n (session_blowfish plain_session)
       = Some (memcpy_at (replicate 60 0) 28 ([1, 2] @ md5 [1, 2]), 0)"
proof -
  have "length (bf_key (session_blowfish plain_session)) = 5"
    "bf_status (session_blowfish plain_session) = BLOWFISH_PENDING_ZONE"
    by (simp_all add: plain_session_def Let_def)
  from increment_keeps_previous[OF this, of "[1, 2]" "replicate 60 0"] show ?thesis
    unfolding Let_def by (auto simp del: append_Cons append_Nil)
qed

end
