(* ===== verification/Zlib.thy ===== *)
theory Zlib
  imports Prelude
begin

text \<open>
  The packet compression of \<open>zlib.cpp\<close>, a static prefix code whose two tables the server loads
  from the files \<open>res/compress.dat\<close> and \<open>res/decompress.dat\<close>.  Here the tables are arguments;
  \<open>ZlibTables\<close> holds the ones the repository ships.

  A table of pointers becomes a list whose entries point to an index or hold a byte; the null
  pointer is the byte zero.  A buffer is a list of bytes; bit \<open>i\<close> of a buffer is bit \<open>i mod 8\<close> of
  its byte \<open>i div 8\<close>, as the macro \<open>JMPBIT\<close> reads it.  The swap of big-endian machines is the
  identity on the others and is left out, as are the log lines; a failed assertion and an access
  outside a table or a buffer are \<^term>\<open>None\<close>.
\<close>

unbundle bit_operations_syntax

section \<open>Tables\<close>

datatype zlib_jump = Ptr nat | Data nat

definition populate_jump_table :: "uint32 list \<Rightarrow> zlib_jump list" where
  "populate_jump_table dec =
     (let base = dec ! 0 - 4 in
      map (\<lambda>d. if d > 0xFF then Ptr (unat ((d - base) div 4)) else Data (unat d)) dec)"

definition entry :: "zlib_jump list \<Rightarrow> nat \<Rightarrow> zlib_jump option" where
  "entry jump i = (if i < length jump then Some (jump ! i) else None)"

definition follow :: "zlib_jump list \<Rightarrow> nat \<Rightarrow> nat option" where
  "follow jump i =
     (case entry jump i of
        Some (Ptr p) \<Rightarrow> if p \<le> length jump then Some p else None
      | _ \<Rightarrow> None)"

definition is_null :: "zlib_jump list \<Rightarrow> nat \<Rightarrow> bool option" where
  "is_null jump i = map_option (\<lambda>e. e = Data 0) (entry jump i)"

definition is_leaf :: "zlib_jump list \<Rightarrow> nat \<Rightarrow> bool option" where
  "is_leaf jump j =
     (case is_null jump j of
        None \<Rightarrow> None
      | Some n0 \<Rightarrow> if \<not> n0 then Some False else is_null jump (j + 1))"

definition JMPBIT :: "uint8 list \<Rightarrow> nat \<Rightarrow> bool option" where
  "JMPBIT table i =
     (if i div 8 < length table then Some (bit (table ! (i div 8)) (i mod 8)) else None)"

section \<open>Compression\<close>

definition zlib_compressed_size :: "nat \<Rightarrow> nat" where
  "zlib_compressed_size sz = (sz + 7) div 8"

definition put_bit :: "uint8 list \<Rightarrow> nat \<Rightarrow> bool \<Rightarrow> uint8 list" where
  "put_bit out p b =
     (let shift = p mod 8; v = p div 8; inv_mask = NOT (push_bit shift 1) in
      out[v := (inv_mask AND out ! v) + push_bit shift (of_bool b)])"

primrec put_bits :: "uint32 \<Rightarrow> nat \<Rightarrow> nat \<Rightarrow> nat \<Rightarrow> uint8 list \<Rightarrow> uint8 list" where
  "put_bits b32 read 0 i out = out"
| "put_bits b32 read (Suc n) i out = put_bits b32 read n (Suc i) (put_bit out (read + i) (bit b32 i))"

definition zlib_compress_sub :: "uint32 \<Rightarrow> nat \<Rightarrow> nat \<Rightarrow> uint8 list \<Rightarrow> nat \<Rightarrow> int \<times> uint8 list" where
  "zlib_compress_sub b32 read elem out out_sz =
     (if zlib_compressed_size elem > 4 then (- 1, out)
      else if zlib_compressed_size ((read + elem) mod 2 ^ 32) > out_sz then (- 1, out)
      else (0, put_bits b32 read elem 0 out))"

definition memset :: "uint8 list \<Rightarrow> nat \<Rightarrow> uint8 \<Rightarrow> nat \<Rightarrow> uint8 list option" where
  "memset buf at x n =
     (if at + n \<le> length buf then Some (take at buf @ replicate n x @ drop (at + n) buf) else None)"

definition zlib_garbage :: "uint8 list \<Rightarrow> nat \<Rightarrow> nat \<Rightarrow> uint8 list option" where
  "zlib_garbage out in_sz out_sz =
     (case memset out 0 0 (out_sz div 4 + in_sz mod 4) of
        None \<Rightarrow> None
      | Some o1 \<Rightarrow>
          (case memset o1 1 (of_nat in_sz) (in_sz div 4) of
             None \<Rightarrow> None
           | Some o2 \<Rightarrow> memset o2 (1 + in_sz div 4) (of_nat ((in_sz + 1) * 8)) (in_sz mod 4)))"

definition enc_len :: "uint32 list \<Rightarrow> uint8 \<Rightarrow> nat" where
  "enc_len enc b = unat (enc ! nat (sint b + 0x180))"

definition enc_bits :: "uint32 list \<Rightarrow> uint8 \<Rightarrow> uint32" where
  "enc_bits enc b = enc ! nat (sint b + 0x80)"

primrec zlib_compress_loop :: "uint32 list \<Rightarrow> nat \<Rightarrow> nat \<Rightarrow> uint8 list \<Rightarrow> nat \<Rightarrow> uint8 list \<Rightarrow>
    (int \<times> uint8 list) option" where
  "zlib_compress_loop enc in_sz out_sz [] read out = Some (int (read + 8), out[0 := 1])"
| "zlib_compress_loop enc in_sz out_sz (b # bs) read out =
     (let elem = enc_len enc b; max_sz = ((out_sz + 2 ^ 32 - 1) * 8) mod 2 ^ 32 in
      if (elem + read) mod 2 ^ 32 < max_sz then
        (case zlib_compress_sub (enc_bits enc b) read elem (drop 1 out) (out_sz - 1) of
           (_, body) \<Rightarrow>
             zlib_compress_loop enc in_sz out_sz bs ((read + elem) mod 2 ^ 32) (take 1 out @ body))
      else if (in_sz + 1) mod 2 ^ 32 \<ge> out_sz then
        map_option (\<lambda>o'. (int in_sz, o')) (zlib_garbage out in_sz out_sz)
      else Some (- 1, out))"

definition zlib_compress :: "uint32 list \<Rightarrow> uint8 list \<Rightarrow> uint8 list \<Rightarrow> nat \<Rightarrow>
    (int \<times> uint8 list) option" where
  "zlib_compress enc inp out out_sz =
     (if length out < out_sz \<or> out_sz = 0 then None
      else zlib_compress_loop enc (length inp) out_sz inp 0 out)"

section \<open>Decompression\<close>

primrec zlib_decompress_loop :: "zlib_jump list \<Rightarrow> uint8 list \<Rightarrow> nat \<Rightarrow> nat \<Rightarrow> nat \<Rightarrow> nat \<Rightarrow> uint8 list \<Rightarrow>
    (int \<times> uint8 list) option" where
  "zlib_decompress_loop jump data out_sz 0 i jmp out = Some (int (length out), out)"
| "zlib_decompress_loop jump data out_sz (Suc n) i jmp out =
     (if length out < out_sz then
        (case JMPBIT data i of
           None \<Rightarrow> None
         | Some x \<Rightarrow>
             (case follow jump (jmp + (if x then 1 else 0)) of
                None \<Rightarrow> None
              | Some j \<Rightarrow>
                  (case is_leaf jump j of
                     Some leaf \<Rightarrow>
                       if \<not> leaf then zlib_decompress_loop jump data out_sz n (Suc i) j out
                       else
                         (case entry jump (j + 3) of
                            Some (Data d) \<Rightarrow>
                              (let out' = out @ [of_nat d] in
                               case follow jump 0 of
                                 None \<Rightarrow> None
                               | Some root \<Rightarrow>
                                   if length out' \<ge> out_sz then Some (- 1, out')
                                   else zlib_decompress_loop jump data out_sz n (Suc i) root out')
                          | _ \<Rightarrow> None)
                   | _ \<Rightarrow> None)))
      else Some (int (length out), out))"

definition zlib_decompress :: "zlib_jump list \<Rightarrow> uint8 list \<Rightarrow> nat \<Rightarrow> nat \<Rightarrow> (int \<times> uint8 list) option" where
  "zlib_decompress jump inp in_sz out_sz =
     (case follow jump 0 of
        None \<Rightarrow> None
      | Some root \<Rightarrow>
          if inp = [] then None
          else if inp ! 0 \<noteq> 1 then Some (- 1, [])
          else zlib_decompress_loop jump (drop 1 inp) out_sz in_sz 0 root [])"

section \<open>Bits of a buffer\<close>

definition buffer_bit :: "uint8 list \<Rightarrow> nat \<Rightarrow> bool" where
  "buffer_bit out k = bit (out ! (k div 8)) (k mod 8)"

lemma JMPBIT_buffer: "i div 8 < length table \<Longrightarrow> JMPBIT table i = Some (buffer_bit table i)"
  by (simp add: JMPBIT_def buffer_bit_def)

lemma set_bit8:
  fixes w :: uint8
  assumes "s < 8" "q < 8"
  shows "bit ((NOT (push_bit s 1) AND w) + push_bit s (of_bool b)) q = (if q = s then b else bit w q)"
proof -
  have "(NOT (push_bit s 1) AND w) + push_bit s (of_bool b)
      = (NOT (push_bit s 1) AND w) OR push_bit s (of_bool b)"
    by (rule disjunctive_add) (auto simp: bit_simps)
  then show ?thesis using assms by (auto simp: bit_simps)
qed

lemma buffer_bit_put:
  assumes "p div 8 < length out"
  shows "buffer_bit (put_bit out p b) q = (if q = p then b else buffer_bit out q)"
proof (cases "q div 8 = p div 8")
  case True
  then have "q = p \<longleftrightarrow> q mod 8 = p mod 8" by (metis mult_div_mod_eq)
  then show ?thesis
    using True assms set_bit8[of "p mod 8" "q mod 8" "out ! (p div 8)" b]
    by (simp add: buffer_bit_def put_bit_def Let_def)
next
  case False
  then show ?thesis by (auto simp: buffer_bit_def put_bit_def Let_def)
qed

lemma length_put_bit [simp]: "length (put_bit out p b) = length out"
  by (simp add: put_bit_def Let_def)

lemma length_put_bits [simp]: "length (put_bits v read n i out) = length out"
  by (induction n arbitrary: i out) simp_all

lemma buffer_bit_put_bits:
  "read + i + n \<le> 8 * length out \<Longrightarrow>
   buffer_bit (put_bits v read n i out) q =
     (if read + i \<le> q \<and> q < read + i + n then bit v (q - read) else buffer_bit out q)"
proof (induction n arbitrary: i out)
  case (Suc n)
  have "(read + i) div 8 < length out" using Suc.prems by (simp add: less_mult_imp_div_less)
  then have put: "buffer_bit (put_bit out (read + i) (bit v i)) q
      = (if q = read + i then bit v i else buffer_bit out q)"
    by (rule buffer_bit_put)
  show ?case using Suc.IH[of "Suc i" "put_bit out (read + i) (bit v i)"] Suc.prems put by auto
qed auto

section \<open>What compression writes\<close>

definition code :: "uint32 list \<Rightarrow> uint8 \<Rightarrow> bool list" where
  "code enc b = map (bit (enc_bits enc b)) [0..<enc_len enc b]"

definition codes :: "uint32 list \<Rightarrow> uint8 list \<Rightarrow> bool list" where
  "codes enc inp = concat (map (code enc) inp)"

lemma length_code [simp]: "length (code enc b) = enc_len enc b"
  by (simp add: code_def)

lemma codes_Cons [simp]: "codes enc (b # bs) = code enc b @ codes enc bs"
  by (simp add: codes_def)

lemma codes_Nil [simp]: "codes enc [] = []"
  by (simp add: codes_def)

lemma compress_sub_bits:
  assumes "elem \<le> 32" "read + elem < out_sz * 8" "out_sz \<le> length out" "out_sz * 8 < 2 ^ 32"
  shows "zlib_compress_sub b32 read elem out out_sz = (0, put_bits b32 read elem 0 out)"
proof -
  have "(read + elem) mod 2 ^ 32 = read + elem" using assms by simp
  moreover have "zlib_compressed_size elem \<le> 4" using assms(1) by (simp add: zlib_compressed_size_def)
  moreover have "zlib_compressed_size (read + elem) \<le> out_sz"
    using assms(2) by (simp add: zlib_compressed_size_def less_mult_imp_div_less)
  ultimately show ?thesis by (simp add: zlib_compress_sub_def)
qed

lemma compress_loop_bits:
  assumes "\<forall>b\<in>set inp. enc_len enc b \<le> 32" "read + length (codes enc inp) < (out_sz - 1) * 8"
    "out_sz \<le> length out" "out_sz * 8 < 2 ^ 32"
  shows "\<exists>out'. zlib_compress_loop enc in_sz out_sz inp read out
       = Some (int (read + length (codes enc inp) + 8), out') \<and>
     length out' = length out \<and> out' ! 0 = 1 \<and>
     (\<forall>q. buffer_bit (drop 1 out') q =
        (if read \<le> q \<and> q < read + length (codes enc inp) then codes enc inp ! (q - read)
         else buffer_bit (drop 1 out) q))"
  using assms
proof (induction inp arbitrary: read out)
  case Nil
  then have "0 < length out" by (cases out_sz) auto
  then show ?case by (auto simp: drop_update_cancel)
next
  case (Cons b bs)
  let ?e = "enc_len enc b" and ?v = "enc_bits enc b"
  let ?body = "put_bits ?v read ?e 0 (drop 1 out)"
  let ?out = "take 1 out @ ?body"
  have o: "1 < out_sz" using Cons.prems(2) by (cases out_sz) auto
  have mx: "((out_sz + 2 ^ 32 - 1) * 8) mod 2 ^ 32 = (out_sz - 1) * 8"
  proof -
    have "(out_sz + 2 ^ 32 - 1) * 8 = (out_sz - 1) * 8 + 8 * 2 ^ 32" using o by simp
    then have "((out_sz + 2 ^ 32 - 1) * 8) mod 2 ^ 32 = ((out_sz - 1) * 8) mod 2 ^ 32"
      by (simp only: mod_mult_self1)
    then show ?thesis using Cons.prems(4) by simp
  qed
  have small: "read + ?e < (out_sz - 1) * 8" using Cons.prems(2) by simp
  have rd: "(read + ?e) mod 2 ^ 32 = read + ?e" "(?e + read) mod 2 ^ 32 = read + ?e"
    using small Cons.prems(4) by (simp_all add: add.commute)
  have sub: "zlib_compress_sub ?v read ?e (drop 1 out) (out_sz - 1) = (0, ?body)"
    using Cons.prems small by (intro compress_sub_bits) auto
  have run: "zlib_compress_loop enc in_sz out_sz (b # bs) read out
      = zlib_compress_loop enc in_sz out_sz bs (read + ?e) ?out"
    using small unfolding zlib_compress_loop.simps Let_def mx rd sub by simp
  have lo: "length ?out = length out" using Cons.prems(3) o by simp
  have bits: "buffer_bit (drop 1 ?out) q =
      (if read \<le> q \<and> q < read + ?e then code enc b ! (q - read) else buffer_bit (drop 1 out) q)" for q
    using buffer_bit_put_bits[of read 0 ?e "drop 1 out" ?v q] small Cons.prems(3) o
    by (auto simp: code_def)
  obtain out' where "zlib_compress_loop enc in_sz out_sz bs (read + ?e) ?out
       = Some (int (read + ?e + length (codes enc bs) + 8), out')"
    "length out' = length ?out" "out' ! 0 = 1"
    "\<forall>q. buffer_bit (drop 1 out') q =
        (if read + ?e \<le> q \<and> q < read + ?e + length (codes enc bs) then codes enc bs ! (q - (read + ?e))
         else buffer_bit (drop 1 ?out) q)"
    using Cons.IH[of "read + ?e" ?out] Cons.prems lo by auto
  then show ?case
    unfolding run using lo bits by (auto simp: nth_append)
qed

section \<open>Tables that belong together\<close>

text \<open>
  Following the bits of a code from a node ends in a leaf that holds the byte, and in no leaf
  before: what the decompressor needs of its table.
\<close>

fun walks :: "zlib_jump list \<Rightarrow> nat \<Rightarrow> bool list \<Rightarrow> nat \<Rightarrow> bool" where
  "walks jump j [] d = False"
| "walks jump j (x # xs) d =
     (case follow jump (j + (if x then 1 else 0)) of
        None \<Rightarrow> False
      | Some j' \<Rightarrow>
          (case is_leaf jump j' of
             None \<Rightarrow> False
           | Some leaf \<Rightarrow>
               if leaf then xs = [] \<and> entry jump (j' + 3) = Some (Data d) else walks jump j' xs d))"

definition tables_ok :: "uint32 list \<Rightarrow> zlib_jump list \<Rightarrow> bool" where
  "tables_ok enc jump \<longleftrightarrow>
     (case follow jump 0 of
        None \<Rightarrow> False
      | Some root \<Rightarrow> \<forall>b. enc_len enc b \<le> 32 \<and> walks jump root (code enc b) (unat b))"

lemma tables_okE:
  assumes "tables_ok enc jump"
  obtains root where "follow jump 0 = Some root" "\<And>b. enc_len enc b \<le> 32"
    "\<And>b. walks jump root (code enc b) (unat b)"
  using assms by (auto simp: tables_ok_def split: option.splits)

section \<open>What decompression reads\<close>

lemma decompress_code:
  assumes "walks jump j bits d" "follow jump 0 = Some root" "length out < out_sz"
    and "\<forall>k<length bits. JMPBIT data (i + k) = Some (bits ! k)"
  shows "zlib_decompress_loop jump data out_sz (length bits + m) i j out =
     (if length out + 1 \<ge> out_sz then Some (- 1, out @ [of_nat d])
      else zlib_decompress_loop jump data out_sz m (i + length bits) root (out @ [of_nat d]))"
  using assms
proof (induction bits arbitrary: i j)
  case (Cons x xs)
  from Cons.prems(1) obtain j' leaf where j': "follow jump (j + (if x then 1 else 0)) = Some j'"
    "is_leaf jump j' = Some leaf"
    "if leaf then xs = [] \<and> entry jump (j' + 3) = Some (Data d) else walks jump j' xs d"
    by (auto split: option.splits)
  have bit0: "JMPBIT data i = Some x" using Cons.prems(4) by force
  have rest: "\<forall>k<length xs. JMPBIT data (Suc i + k) = Some (xs ! k)"
    using Cons.prems(4) by (metis Suc_less_eq add_Suc_right add_Suc_shift length_Cons nth_Cons_Suc)
  show ?case
  proof (cases leaf)
    case True
    then show ?thesis using j' bit0 Cons.prems(2,3) by (simp add: Let_def)
  next
    case False
    then have "zlib_decompress_loop jump data out_sz (length (x # xs) + m) i j out
        = zlib_decompress_loop jump data out_sz (length xs + m) (Suc i) j' out"
      using j'(1,2) bit0 Cons.prems(3) by simp
    then show ?thesis using Cons.IH[of j' "Suc i"] j'(3) False Cons.prems(2,3) rest by simp
  qed
qed simp

lemma decompress_codes:
  assumes ok: "tables_ok enc jump" and root: "follow jump 0 = Some root"
  shows "length out + length inp < out_sz \<Longrightarrow>
     \<forall>k<length (codes enc inp). JMPBIT data (i + k) = Some (codes enc inp ! k) \<Longrightarrow>
     zlib_decompress_loop jump data out_sz (length (codes enc inp) + m) i root out =
     zlib_decompress_loop jump data out_sz m (i + length (codes enc inp)) root (out @ inp)"
proof (induction inp arbitrary: i out)
  case (Cons b bs)
  have w: "walks jump root (code enc b) (unat b)"
    using ok root by (auto elim!: tables_okE)
  have one: "\<forall>k<length (code enc b). JMPBIT data (i + k) = Some (code enc b ! k)"
  proof (intro allI impI)
    fix k assume "k < length (code enc b)"
    then show "JMPBIT data (i + k) = Some (code enc b ! k)"
      using Cons.prems(2)[rule_format, of k] by (simp add: nth_append)
  qed
  have more: "\<forall>k<length (codes enc bs). JMPBIT data (i + enc_len enc b + k) = Some (codes enc bs ! k)"
  proof (intro allI impI)
    fix k assume "k < length (codes enc bs)"
    then show "JMPBIT data (i + enc_len enc b + k) = Some (codes enc bs ! k)"
      using Cons.prems(2)[rule_format, of "enc_len enc b + k"] by (simp add: nth_append add.assoc)
  qed
  have "length out < out_sz" "\<not> length out + 1 \<ge> out_sz" using Cons.prems(1) by simp_all
  then have "zlib_decompress_loop jump data out_sz (length (codes enc (b # bs)) + m) i root out
      = zlib_decompress_loop jump data out_sz (length (codes enc bs) + m) (i + enc_len enc b) root (out @ [b])"
    using decompress_code[OF w root _ one, of out out_sz "length (codes enc bs) + m"]
    by (simp add: add.assoc)
  also have "\<dots> = zlib_decompress_loop jump data out_sz m (i + enc_len enc b + length (codes enc bs)) root
      ((out @ [b]) @ bs)"
    by (rule Cons.IH) (use Cons.prems(1) more in simp_all)
  finally show ?case by (simp add: add.assoc)
qed simp

lemma decompress_extends:
  "zlib_decompress_loop jump data out_sz n i j out = Some (r, out') \<Longrightarrow> \<exists>more. out' = out @ more"
proof (induction n arbitrary: i j out)
  case (Suc n)
  then show ?case
    by (fastforce simp: Let_def split: if_splits option.splits zlib_jump.splits)
qed simp

section \<open>Round trip\<close>

lemma compressed_opens:
  assumes ok: "tables_ok enc jump"
    and fits: "length (codes enc inp) < (out_sz - 1) * 8" "out_sz \<le> length out" "out_sz * 8 < 2 ^ 32"
    and room: "length inp < osz"
  shows "\<exists>out'. zlib_compress enc inp out out_sz = Some (int (length (codes enc inp) + 8), out') \<and>
     length out' = length out \<and>
     zlib_decompress jump out' (length (codes enc inp)) osz = Some (int (length inp), inp) \<and>
     (\<forall>m r res. zlib_decompress jump out' (length (codes enc inp) + m) osz = Some (r, res) \<longrightarrow>
        (\<exists>more. res = inp @ more))"
proof -
  obtain root where root: "follow jump 0 = Some root" and len: "\<forall>b\<in>set inp. enc_len enc b \<le> 32"
    using ok by (auto elim!: tables_okE)
  have pos: "1 < out_sz" using fits(1) by (cases out_sz) auto
  obtain out' where out': "zlib_compress_loop enc (length inp) out_sz inp 0 out
       = Some (int (length (codes enc inp) + 8), out')" "length out' = length out" "out' ! 0 = 1"
    "\<forall>q. buffer_bit (drop 1 out') q = (if q < length (codes enc inp) then codes enc inp ! q
         else buffer_bit (drop 1 out) q)"
    using compress_loop_bits[OF len, of 0 out_sz out "length inp"] fits by auto
  have bits: "\<forall>k<length (codes enc inp). JMPBIT (drop 1 out') (0 + k) = Some (codes enc inp ! k)"
  proof (intro allI impI)
    fix k assume k: "k < length (codes enc inp)"
    then have "k div 8 < length (drop 1 out')" using fits(1,2) out'(2) by (simp add: less_mult_imp_div_less)
    then show "JMPBIT (drop 1 out') (0 + k) = Some (codes enc inp ! k)"
      using out'(4) k by (simp add: JMPBIT_buffer)
  qed
  have run: "zlib_decompress jump out' (length (codes enc inp) + m) osz
      = zlib_decompress_loop jump (drop 1 out') osz m (length (codes enc inp)) root inp" for m
    using decompress_codes[OF ok root, of "[]" inp osz "drop 1 out'" 0 m] bits room root out'(2,3) pos fits(2)
    by (auto simp: zlib_decompress_def)
  show ?thesis
    using out' run[of 0] run decompress_extends[of jump "drop 1 out'" osz _ _ root inp] pos fits(2)
    by (fastforce simp: zlib_compress_def)
qed

end
