(* ===== verification/ZlibTables.thy ===== *)
theory ZlibTables
  imports Zlib
begin

text \<open>
  The two tables the server loads: \<open>res/compress.dat\<close> (for every byte the bits of its code, then
  for every byte their number) and \<open>res/decompress.dat\<close> (the tree of the code as pointers into
  the memory image it was taken from), as little-endian 32-bit words, in parts of 64 words so that
  a look-up can be evaluated.  The files are data, so their words are copied here, and the proof
  that they belong together evaluates the copy.
\<close>

definition enc_part0 :: "uint32 list" where
  "enc_part0 = [
    0x16, 0x57E, 0x62, 0x9E, 0x5D8, 0x79E,
    0x58, 0x3BE, 0x122, 0x308, 0x40, 0x280,
    0x132, 0x258, 0x5F2, 0x1D0, 0x1C6, 0x218,
    0x50, 0x37E, 0x0, 0x472, 0x746, 0x346,
    0x250, 0x550, 0x43E, 0x72, 0x2A2, 0x63E,
    0x60E, 0xF12, 0x232, 0xC7A, 0x46, 0x632,
    0x668, 0x752, 0x1E, 0xC46, 0x6FE, 0xD22,
    0x412, 0x9D8, 0xC6, 0x47A, 0x7D2, 0xCA2,
    0x4D2, 0xEE8, 0x6C8, 0xC92, 0x792, 0xE32,
    0x552, 0x9A2, 0x3D2, 0x598, 0x118, 0xF52,
    0x392, 0x758, 0x272, 0x19E]"

definition enc_part1 :: "uint32 list" where
  "enc_part1 = [
    0x398, 0xFA, 0x42, 0x1A, 0xE3E, 0x4D8,
    0xA0E, 0x2D8, 0x852, 0x518, 0x20E, 0x188,
    0xE, 0x372, 0x3A2, 0x3D8, 0xB58, 0x2C8,
    0x1D8, 0x4C8, 0x4A2, 0x480, 0x6E8, 0x150,
    0xD98, 0x98, 0x522, 0x468, 0x1C8, 0x208,
    0x3D0, 0x3C8, 0xC98, 0x59E, 0x6D8, 0x152,
    0xBD0, 0x7D8, 0x498, 0x558, 0x52, 0x7A2,
    0x9C8, 0x712, 0x7D0, 0x358, 0x450, 0x1F2,
    0x92, 0x492, 0x198, 0x9F2, 0x7C8, 0x872,
    0x672, 0xA2, 0x17E, 0x580, 0x246, 0x47E,
    0x7A, 0x99E, 0x3E, 0x1A2]"

definition enc_part2 :: "uint32 list" where
  "enc_part2 = [
    0x1, 0xA, 0x2E, 0x4E, 0x26, 0x1C0,
    0x5E, 0x8E, 0x48, 0x168, 0x66, 0x146,
    0xC0, 0x3F2, 0x6, 0x11E, 0x100, 0x88,
    0x3FE, 0x7E, 0x1BE, 0x4, 0x30, 0x192,
    0x3A, 0x172, 0x322, 0xD0, 0x50E, 0x108,
    0x1E8, 0x4FE, 0x7BE, 0x140, 0x212, 0x32,
    0x10E, 0x350, 0x646, 0x388, 0x67E, 0x20,
    0x5C8, 0x2FE, 0x6A2, 0x17A, 0x772, 0xBE,
    0x352, 0x77E, 0x41E, 0x380, 0x6D0, 0x312,
    0x640, 0xD2, 0xC7E, 0xB2, 0xED8, 0x7FA,
    0x2D2, 0x298, 0x2E8, 0xF2]"

definition enc_part3 :: "uint32 list" where
  "enc_part3 = [
    0x5A, 0x27A, 0x71E, 0x28, 0x1D2, 0x608,
    0x61E, 0x5A2, 0x5FE, 0x70E, 0x292, 0x112,
    0x2, 0x318, 0x13E, 0x3C6, 0x18, 0x732,
    0x69E, 0x452, 0x1FE, 0x68, 0xE8, 0x240,
    0x3FA, 0x2D0, 0x27E, 0xD8, 0x5C6, 0x408,
    0x4BE, 0x10, 0x49E, 0x8, 0x23E, 0x158,
    0x38, 0xC8, 0x6BE, 0x22, 0x21E, 0x268,
    0x29E, 0x252, 0x6D2, 0x30E, 0x31E, 0x200,
    0x12, 0x2BE, 0x458, 0x1FA, 0x588, 0x332,
    0x180, 0x5FA, 0x340, 0x7C6, 0x80, 0x652,
    0x446, 0x39E, 0x740, 0xFE]"

definition enc_part4 :: "uint32 list" where
  "enc_part4 = [
    0x5, 0xB, 0x7, 0xB, 0xB, 0xB,
    0xB, 0xB, 0xB, 0xA, 0xA, 0xA,
    0xA, 0xA, 0xB, 0xA, 0xB, 0xA,
    0xB, 0xB, 0xA, 0xB, 0xB, 0xB,
    0xA, 0xB, 0xB, 0xC, 0xB, 0xC,
    0xB, 0xC, 0xB, 0xC, 0xB, 0xC,
    0xB, 0xC, 0xB, 0xC, 0xB, 0xC,
    0xB, 0xC, 0x9, 0xC, 0xB, 0xC,
    0xB, 0xC, 0xB, 0xC, 0xB, 0xC,
    0xB, 0xC, 0xB, 0xC, 0xB, 0xC,
    0xB, 0xB, 0xB, 0xC]"

definition enc_part5 :: "uint32 list" where
  "enc_part5 = [
    0xA, 0x9, 0x7, 0x7, 0xC, 0xB,
    0xC, 0xB, 0xC, 0xB, 0xC, 0xB,
    0xA, 0xB, 0xB, 0xB, 0xC, 0xB,
    0xC, 0xB, 0xC, 0xB, 0xC, 0xB,
    0xC, 0xB, 0xC, 0xB, 0xC, 0xB,
    0xC, 0xB, 0xC, 0xB, 0xC, 0xB,
    0xC, 0xB, 0xC, 0xB, 0xC, 0xB,
    0xC, 0xC, 0xB, 0xC, 0xB, 0xC,
    0xB, 0xC, 0xB, 0xC, 0xB, 0xC,
    0xB, 0xB, 0xB, 0xB, 0xB, 0xC,
    0xB, 0xC, 0xB, 0xC]"

definition enc_part6 :: "uint32 list" where
  "enc_part6 = [
    0x1, 0x5, 0x6, 0x7, 0x7, 0x9,
    0x7, 0x8, 0x8, 0x9, 0x7, 0xA,
    0x9, 0xA, 0x7, 0xA, 0x9, 0x9,
    0xA, 0xB, 0xA, 0x3, 0x6, 0xA,
    0x7, 0xA, 0xA, 0xA, 0xB, 0xA,
    0x9, 0xB, 0xB, 0xA, 0xA, 0xA,
    0xB, 0xA, 0xB, 0xA, 0xB, 0x6,
    0xB, 0xB, 0xB, 0x9, 0xB, 0xB,
    0xB, 0xB, 0xB, 0xA, 0xB, 0xB,
    0xB, 0xB, 0xC, 0x8, 0xC, 0xB,
    0xB, 0xA, 0xB, 0x9]"

definition enc_part7 :: "uint32 list" where
  "enc_part7 = [
    0x7, 0xA, 0xB, 0x7, 0xA, 0xB,
    0xB, 0xB, 0xB, 0xB, 0xA, 0xA,
    0x7, 0xA, 0x9, 0xB, 0xA, 0xB,
    0xB, 0xB, 0xB, 0xB, 0xA, 0xB,
    0xB, 0xB, 0xB, 0xB, 0xB, 0xB,
    0xB, 0x7, 0xB, 0xB, 0xB, 0xB,
    0x6, 0xB, 0xB, 0x9, 0xB, 0xB,
    0xB, 0xB, 0xB, 0xB, 0xB, 0xA,
    0xB, 0xB, 0xB, 0xB, 0xB, 0xB,
    0xB, 0xB, 0xB, 0xB, 0xB, 0xB,
    0xC, 0xB, 0xB, 0xB]"

definition compress_dat_parts :: "uint32 list list" where
  "compress_dat_parts = [
    enc_part0, enc_part1, enc_part2, enc_part3, enc_part4, enc_part5, enc_part6, enc_part7]"

definition compress_dat :: "uint32 list" where
  "compress_dat = concat compress_dat_parts"

definition dec_part0 :: "nat list list" where
  "dec_part0 = [
    [0x15B3AAA4, 0x15B3AAB8, 0x15B3C64C, 0x0, 0x0, 0x0,
     0x15B3AC98, 0x15B3AACC, 0x15B3AAA4, 0x0, 0x0, 0x15B3ABBC,
     0x15B3AAE0, 0x15B3AAB8, 0x0, 0x0],
    [0x15B3AAF4, 0x15B3AB1C, 0x15B3AACC, 0x0, 0x0, 0x15B3B170,
     0x15B3AB08, 0x15B3AAE0, 0x0, 0x0, 0x0, 0x0,
     0x15B3AAF4, 0x80, 0x0, 0x15B3B508],
    [0x15B3AB30, 0x15B3AAE0, 0x0, 0x0, 0x15B3AC20, 0x15B3AB44,
     0x15B3AB1C, 0x0, 0x0, 0x15B3ADEC, 0x15B3AB58, 0x15B3AB30,
     0x0, 0x0, 0x15B3AB6C, 0x15B3B8DC],
    [0x15B3AB44, 0x0, 0x0, 0x15B3C5AC, 0x15B3AB80, 0x15B3AB58,
     0x0, 0x0, 0x15B3AB94, 0x15B3B29C, 0x15B3AB6C, 0x0,
     0x0, 0x15B3C534, 0x15B3ABA8, 0x15B3AB80]]"

definition dec_part1 :: "nat list list" where
  "dec_part1 = [
    [0x0, 0x0, 0x0, 0x0, 0x15B3AB94, 0x81,
     0x0, 0x15B3ABD0, 0x15B3B65C, 0x15B3AACC, 0x0, 0x0,
     0x15B3ABE4, 0x15B3B008, 0x15B3ABBC, 0x0],
    [0x0, 0x15B3BE54, 0x15B3ABF8, 0x15B3ABD0, 0x0, 0x0,
     0x15B3AE50, 0x15B3AC0C, 0x15B3ABE4, 0x0, 0x0, 0x0,
     0x0, 0x15B3ABF8, 0x82, 0x0],
    [0x15B3AC34, 0x15B3C6EC, 0x15B3AB30, 0x0, 0x0, 0x15B3B864,
     0x15B3AC48, 0x15B3AC20, 0x0, 0x0, 0x15B3AC5C, 0x15B3AD60,
     0x15B3AC34, 0x0, 0x0, 0x15B3AC70],
    [0x15B3CE80, 0x15B3AC48, 0x0, 0x0, 0x15B3AC84, 0x15B3CFC0,
     0x15B3AC5C, 0x0, 0x0, 0x0, 0x0, 0x15B3AC70,
     0x83, 0x0, 0x15B3ACAC, 0x15B3C840]]"

definition dec_part2 :: "nat list list" where
  "dec_part2 = [
    [0x15B3AAB8, 0x0, 0x0, 0x15B3AF2C, 0x15B3ACC0, 0x15B3AC98,
     0x0, 0x0, 0x15B3AEB4, 0x15B3ACD4, 0x15B3ACAC, 0x0,
     0x0, 0x15B3ACE8, 0x15B3D010, 0x15B3ACC0],
    [0x0, 0x0, 0x15B3B1FC, 0x15B3ACFC, 0x15B3ACD4, 0x0,
     0x0, 0x15B3AD9C, 0x15B3AD10, 0x15B3ACE8, 0x0, 0x0,
     0x15B3BEB8, 0x15B3AD24, 0x15B3ACFC, 0x0],
    [0x0, 0x15B3AD38, 0x15B3C084, 0x15B3AD10, 0x0, 0x0,
     0x15B3B990, 0x15B3AD4C, 0x15B3AD24, 0x0, 0x0, 0x0,
     0x0, 0x15B3AD38, 0x84, 0x0],
    [0x15B3BDDC, 0x15B3AD74, 0x15B3AC48, 0x0, 0x0, 0x15B3D254,
     0x15B3AD88, 0x15B3AD60, 0x0, 0x0, 0x0, 0x0,
     0x15B3AD74, 0x85, 0x0, 0x15B3ADB0]]"

definition dec_part3 :: "nat list list" where
  "dec_part3 = [
    [0x15B3BD78, 0x15B3ACFC, 0x0, 0x0, 0x15B3ADC4, 0x15B3B080,
     0x15B3AD9C, 0x0, 0x0, 0x15B3ADD8, 0x15B3D150, 0x15B3ADB0,
     0x0, 0x0, 0x0, 0x0],
    [0x15B3ADC4, 0x86, 0x0, 0x15B3B404, 0x15B3AE00, 0x15B3AB44,
     0x0, 0x0, 0x15B3CAC0, 0x15B3AE14, 0x15B3ADEC, 0x0,
     0x0, 0x15B3C82C, 0x15B3AE28, 0x15B3AE00],
    [0x0, 0x0, 0x15B3AE3C, 0x15B3C96C, 0x15B3AE14, 0x0,
     0x0, 0x0, 0x0, 0x15B3AE28, 0x87, 0x0,
     0x15B3AE64, 0x15B3B47C, 0x15B3ABF8, 0x0],
    [0x0, 0x15B3D060, 0x15B3AE78, 0x15B3AE50, 0x0, 0x0,
     0x15B3AE8C, 0x15B3C8A4, 0x15B3AE64, 0x0, 0x0, 0x15B3AEA0,
     0x15B3B92C, 0x15B3AE78, 0x0, 0x0]]"

definition dec_part4 :: "nat list list" where
  "dec_part4 = [
    [0x0, 0x0, 0x15B3AE8C, 0x88, 0x0, 0x15B3AEC8,
     0x15B3B774, 0x15B3ACC0, 0x0, 0x0, 0x15B3AEDC, 0x15B3BB0C,
     0x15B3AEB4, 0x0, 0x0, 0x15B3AEF0],
    [0x15B3BFBC, 0x15B3AEC8, 0x0, 0x0, 0x15B3C264, 0x15B3AF04,
     0x15B3AEDC, 0x0, 0x0, 0x15B3C91C, 0x15B3AF18, 0x15B3AEF0,
     0x0, 0x0, 0x0, 0x0],
    [0x15B3AF04, 0x89, 0x0, 0x15B3AF40, 0x15B3B0F8, 0x15B3ACAC,
     0x0, 0x0, 0x15B3AF54, 0x15B3CA48, 0x15B3AF2C, 0x0,
     0x0, 0x15B3AFB8, 0x15B3AF68, 0x15B3AF40],
    [0x0, 0x0, 0x15B3AF7C, 0x15B3C6C4, 0x15B3AF54, 0x0,
     0x0, 0x15B3AF90, 0x15B3C980, 0x15B3AF68, 0x0, 0x0,
     0x15B3AFA4, 0x15B3CB88, 0x15B3AF7C, 0x0]]"

definition dec_part5 :: "nat list list" where
  "dec_part5 = [
    [0x0, 0x0, 0x0, 0x15B3AF90, 0x8A, 0x0,
     0x15B3B2C4, 0x15B3AFCC, 0x15B3AF54, 0x0, 0x0, 0x15B3AFE0,
     0x15B3C548, 0x15B3AFB8, 0x0, 0x0],
    [0x15B3C138, 0x15B3AFF4, 0x15B3AFCC, 0x0, 0x0, 0x0,
     0x0, 0x15B3AFE0, 0x8B, 0x0, 0x15B3B594, 0x15B3B01C,
     0x15B3ABD0, 0x0, 0x0, 0x15B3B030],
    [0x15B3B094, 0x15B3B008, 0x0, 0x0, 0x15B3B044, 0x15B3CBD8,
     0x15B3B01C, 0x0, 0x0, 0x15B3B620, 0x15B3B058, 0x15B3B030,
     0x0, 0x0, 0x15B3B06C, 0x15B3CE58],
    [0x15B3B044, 0x0, 0x0, 0x0, 0x0, 0x15B3B058,
     0x8C, 0x0, 0x0, 0x0, 0x15B3ADB0, 0x8D,
     0x0, 0x15B3B300, 0x15B3B0A8, 0x15B3B01C]]"

definition dec_part6 :: "nat list list" where
  "dec_part6 = [
    [0x0, 0x0, 0x15B3CC8C, 0x15B3B0BC, 0x15B3B094, 0x0,
     0x0, 0x15B3B0D0, 0x15B3C778, 0x15B3B0A8, 0x0, 0x0,
     0x15B3C46C, 0x15B3B0E4, 0x15B3B0BC, 0x0],
    [0x0, 0x0, 0x0, 0x15B3B0D0, 0x8E, 0x0,
     0x15B3B10C, 0x15B3C854, 0x15B3AF2C, 0x0, 0x0, 0x15B3CFAC,
     0x15B3B120, 0x15B3B0F8, 0x0, 0x0],
    [0x15B3B24C, 0x15B3B134, 0x15B3B10C, 0x0, 0x0, 0x15B3C8B8,
     0x15B3B148, 0x15B3B120, 0x0, 0x0, 0x15B3B15C, 0x15B3C2A0,
     0x15B3B134, 0x0, 0x0, 0x0],
    [0x0, 0x15B3B148, 0x8F, 0x0, 0x15B3B184, 0x15B3C69C,
     0x15B3AAF4, 0x0, 0x0, 0x15B3C78C, 0x15B3B198, 0x15B3B170,
     0x0, 0x0, 0x15B3B350, 0x15B3B1AC]]"

definition dec_part7 :: "nat list list" where
  "dec_part7 = [
    [0x15B3B184, 0x0, 0x0, 0x15B3B9B8, 0x15B3B1C0, 0x15B3B198,
     0x0, 0x0, 0x15B3B1D4, 0x15B3CE1C, 0x15B3B1AC, 0x0,
     0x0, 0x15B3B1E8, 0x15B3CF5C, 0x15B3B1C0],
    [0x0, 0x0, 0x0, 0x0, 0x15B3B1D4, 0x90,
     0x0, 0x15B3B210, 0x15B3BCB0, 0x15B3ACE8, 0x0, 0x0,
     0x15B3B224, 0x15B3BD14, 0x15B3B1FC, 0x0],
    [0x0, 0x15B3CE44, 0x15B3B238, 0x15B3B210, 0x0, 0x0,
     0x0, 0x0, 0x15B3B224, 0x91, 0x0, 0x15B3B260,
     0x15B3B3C8, 0x15B3B120, 0x0, 0x0],
    [0x15B3B274, 0x15B3B3B4, 0x15B3B24C, 0x0, 0x0, 0x15B3B288,
     0x15B3C458, 0x15B3B260, 0x0, 0x0, 0x0, 0x0,
     0x15B3B274, 0x92, 0x0, 0x15B3B2B0]]"

definition dec_part8 :: "nat list list" where
  "dec_part8 = [
    [0x15B3CB10, 0x15B3AB80, 0x0, 0x0, 0x0, 0x0,
     0x15B3B29C, 0x93, 0x0, 0x15B3B2D8, 0x15B3C7C8, 0x15B3AFB8,
     0x0, 0x0, 0x15B3B2EC, 0x15B3D114],
    [0x15B3B2C4, 0x0, 0x0, 0x0, 0x0, 0x15B3B2D8,
     0x94, 0x0, 0x15B3B314, 0x15B3C020, 0x15B3B094, 0x0,
     0x0, 0x15B3B328, 0x15B3BDB4, 0x15B3B300],
    [0x0, 0x0, 0x15B3B454, 0x15B3B33C, 0x15B3B314, 0x0,
     0x0, 0x0, 0x0, 0x15B3B328, 0x95, 0x0,
     0x15B3B710, 0x15B3B364, 0x15B3B198, 0x0],
    [0x0, 0x15B3C750, 0x15B3B378, 0x15B3B350, 0x0, 0x0,
     0x15B3B3A0, 0x15B3B38C, 0x15B3B364, 0x0, 0x0, 0x0,
     0x0, 0x15B3B378, 0x96, 0x0]]"

definition dec_part9 :: "nat list list" where
  "dec_part9 = [
    [0x0, 0x0, 0x15B3B378, 0x97, 0x0, 0x0,
     0x0, 0x15B3B260, 0x98, 0x0, 0x15B3B3DC, 0x15B3C9E4,
     0x15B3B24C, 0x0, 0x0, 0x15B3C174],
    [0x15B3B3F0, 0x15B3B3C8, 0x0, 0x0, 0x0, 0x0,
     0x15B3B3DC, 0x99, 0x0, 0x15B3B418, 0x15B3CE08, 0x15B3ADEC,
     0x0, 0x0, 0x15B3B42C, 0x15B3B4CC],
    [0x15B3B404, 0x0, 0x0, 0x15B3C624, 0x15B3B440, 0x15B3B418,
     0x0, 0x0, 0x0, 0x0, 0x15B3B42C, 0x9A,
     0x0, 0x15B3B468, 0x15B3C4F8, 0x15B3B328],
    [0x0, 0x0, 0x0, 0x0, 0x15B3B454, 0x9B,
     0x0, 0x15B3B490, 0x15B3BC4C, 0x15B3AE50, 0x0, 0x0,
     0x15B3BA30, 0x15B3B4A4, 0x15B3B47C, 0x0]]"

definition dec_part10 :: "nat list list" where
  "dec_part10 = [
    [0x0, 0x15B3B4B8, 0x15B3CA84, 0x15B3B490, 0x0, 0x0,
     0x0, 0x0, 0x15B3B4A4, 0x9C, 0x0, 0x15B3CFE8,
     0x15B3B4E0, 0x15B3B418, 0x0, 0x0],
    [0x15B3B4F4, 0x15B3BEA4, 0x15B3B4CC, 0x0, 0x0, 0x0,
     0x0, 0x15B3B4E0, 0x9D, 0x0, 0x15B3B51C, 0x15B3C674,
     0x15B3AB1C, 0x0, 0x0, 0x15B3B530],
    [0x15B3C688, 0x15B3B508, 0x0, 0x0, 0x15B3B544, 0x15B3C700,
     0x15B3B51C, 0x0, 0x0, 0x15B3B558, 0x15B3C8E0, 0x15B3B530,
     0x0, 0x0, 0x15B3C00C, 0x15B3B56C],
    [0x15B3B544, 0x0, 0x0, 0x15B3BEF4, 0x15B3B580, 0x15B3B558,
     0x0, 0x0, 0x0, 0x0, 0x15B3B56C, 0x9E,
     0x0, 0x15B3B5A8, 0x15B3B7EC, 0x15B3B008]]"

definition dec_part11 :: "nat list list" where
  "dec_part11 = [
    [0x0, 0x0, 0x15B3B5BC, 0x15B3BB70, 0x15B3B594, 0x0,
     0x0, 0x15B3B954, 0x15B3B5D0, 0x15B3B5A8, 0x0, 0x0,
     0x15B3CDCC, 0x15B3B5E4, 0x15B3B5BC, 0x0],
    [0x0, 0x15B3CB74, 0x15B3B5F8, 0x15B3B5D0, 0x0, 0x0,
     0x15B3C41C, 0x15B3B60C, 0x15B3B5E4, 0x0, 0x0, 0x0,
     0x0, 0x15B3B5F8, 0x9F, 0x0],
    [0x15B3C9BC, 0x15B3B634, 0x15B3B044, 0x0, 0x0, 0x15B3B648,
     0x15B3B74C, 0x15B3B620, 0x0, 0x0, 0x0, 0x0,
     0x15B3B634, 0xA0, 0x0, 0x15B3C660],
    [0x15B3B670, 0x15B3ABBC, 0x0, 0x0, 0x15B3BE7C, 0x15B3B684,
     0x15B3B65C, 0x0, 0x0, 0x15B3C87C, 0x15B3B698, 0x15B3B670,
     0x0, 0x0, 0x15B3B6AC, 0x15B3BE2C]]"

definition dec_part12 :: "nat list list" where
  "dec_part12 = [
    [0x15B3B684, 0x0, 0x0, 0x15B3B6C0, 0x15B3CA98, 0x15B3B698,
     0x0, 0x0, 0x15B3B6D4, 0x15B3CCB4, 0x15B3B6AC, 0x0,
     0x0, 0x15B3C5FC, 0x15B3B6E8, 0x15B3B6C0],
    [0x0, 0x0, 0x15B3B9CC, 0x15B3B6FC, 0x15B3B6D4, 0x0,
     0x0, 0x0, 0x0, 0x15B3B6E8, 0xA1, 0x0,
     0x15B3B724, 0x15B3C584, 0x15B3B350, 0x0],
    [0x0, 0x15B3B738, 0x15B3B8B4, 0x15B3B710, 0x0, 0x0,
     0x0, 0x0, 0x15B3B724, 0xA2, 0x0, 0x15B3B760,
     0x15B3BC10, 0x15B3B634, 0x0, 0x0],
    [0x0, 0x0, 0x15B3B74C, 0xA3, 0x0, 0x15B3CCF0,
     0x15B3B788, 0x15B3AEB4, 0x0, 0x0, 0x15B3B79C, 0x15B3BAA8,
     0x15B3B774, 0x0, 0x0, 0x15B3B7B0]]"

definition dec_part13 :: "nat list list" where
  "dec_part13 = [
    [0x15B3C728, 0x15B3B788, 0x0, 0x0, 0x15B3C1EC, 0x15B3B7C4,
     0x15B3B79C, 0x0, 0x0, 0x15B3D088, 0x15B3B7D8, 0x15B3B7B0,
     0x0, 0x0, 0x0, 0x0],
    [0x15B3B7C4, 0xA4, 0x0, 0x15B3B800, 0x15B3B9E0, 0x15B3B594,
     0x0, 0x0, 0x15B3BF44, 0x15B3B814, 0x15B3B7EC, 0x0,
     0x0, 0x15B3BC24, 0x15B3B828, 0x15B3B800],
    [0x0, 0x0, 0x15B3CAFC, 0x15B3B83C, 0x15B3B814, 0x0,
     0x0, 0x15B3B850, 0x15B3BD50, 0x15B3B828, 0x0, 0x0,
     0x0, 0x0, 0x15B3B83C, 0xA5],
    [0x0, 0x15B3B878, 0x15B3C7A0, 0x15B3AC34, 0x0, 0x0,
     0x15B3B88C, 0x15B3CD2C, 0x15B3B864, 0x0, 0x0, 0x15B3B8A0,
     0x15B3CB24, 0x15B3B878, 0x0, 0x0]]"

definition dec_part14 :: "nat list list" where
  "dec_part14 = [
    [0x0, 0x0, 0x15B3B88C, 0xA6, 0x0, 0x15B3D240,
     0x15B3B8C8, 0x15B3B724, 0x0, 0x0, 0x0, 0x0,
     0x15B3B8B4, 0xA7, 0x0, 0x15B3B8F0],
    [0x15B3C7F0, 0x15B3AB58, 0x0, 0x0, 0x15B3C944, 0x15B3B904,
     0x15B3B8DC, 0x0, 0x0, 0x15B3CA70, 0x15B3B918, 0x15B3B8F0,
     0x0, 0x0, 0x0, 0x0],
    [0x15B3B904, 0xA8, 0x0, 0x15B3C1D8, 0x15B3B940, 0x15B3AE8C,
     0x0, 0x0, 0x0, 0x0, 0x15B3B92C, 0xA9,
     0x0, 0x15B3B968, 0x15B3C9A8, 0x15B3B5BC],
    [0x0, 0x0, 0x15B3D128, 0x15B3B97C, 0x15B3B954, 0x0,
     0x0, 0x0, 0x0, 0x15B3B968, 0xAA, 0x0,
     0x15B3C0E8, 0x15B3B9A4, 0x15B3AD38, 0x0]]"

definition dec_part15 :: "nat list list" where
  "dec_part15 = [
    [0x0, 0x0, 0x0, 0x15B3B990, 0xAB, 0x0,
     0x0, 0x0, 0x15B3B1AC, 0xAC, 0x0, 0x0,
     0x0, 0x15B3B6E8, 0xAD, 0x0],
    [0x15B3BA6C, 0x15B3B9F4, 0x15B3B7EC, 0x0, 0x0, 0x15B3CD04,
     0x15B3BA08, 0x15B3B9E0, 0x0, 0x0, 0x15B3BC9C, 0x15B3BA1C,
     0x15B3B9F4, 0x0, 0x0, 0x0],
    [0x0, 0x15B3BA08, 0xAE, 0x0, 0x15B3C520, 0x15B3BA44,
     0x15B3B490, 0x0, 0x0, 0x15B3C124, 0x15B3BA58, 0x15B3BA30,
     0x0, 0x0, 0x0, 0x0],
    [0x15B3BA44, 0xAF, 0x0, 0x15B3BA80, 0x15B3CC3C, 0x15B3B9E0,
     0x0, 0x0, 0x15B3CBB0, 0x15B3BA94, 0x15B3BA6C, 0x0,
     0x0, 0x0, 0x0, 0x15B3BA80]]"

definition dec_part16 :: "nat list list" where
  "dec_part16 = [
    [0xB0, 0x0, 0x15B3BABC, 0x15B3C930, 0x15B3B788, 0x0,
     0x0, 0x15B3CEE4, 0x15B3BAD0, 0x15B3BAA8, 0x0, 0x0,
     0x15B3CC78, 0x15B3BAE4, 0x15B3BABC, 0x0],
    [0x0, 0x15B3C160, 0x15B3BAF8, 0x15B3BAD0, 0x0, 0x0,
     0x0, 0x0, 0x15B3BAE4, 0xB1, 0x0, 0x15B3C714,
     0x15B3BB20, 0x15B3AEC8, 0x0, 0x0],
    [0x15B3BB34, 0x15B3C214, 0x15B3BB0C, 0x0, 0x0, 0x15B3C0FC,
     0x15B3BB48, 0x15B3BB20, 0x0, 0x0, 0x15B3C0D4, 0x15B3BB5C,
     0x15B3BB34, 0x0, 0x0, 0x0],
    [0x0, 0x15B3BB48, 0xB2, 0x0, 0x15B3BB84, 0x15B3BBD4,
     0x15B3B5A8, 0x0, 0x0, 0x15B3BB98, 0x15B3CDB8, 0x15B3BB70,
     0x0, 0x0, 0x15B3C494, 0x15B3BBAC]]"

definition dec_part17 :: "nat list list" where
  "dec_part17 = [
    [0x15B3BB84, 0x0, 0x0, 0x15B3C4A8, 0x15B3BBC0, 0x15B3BB98,
     0x0, 0x0, 0x0, 0x0, 0x15B3BBAC, 0xB3,
     0x0, 0x15B3C868, 0x15B3BBE8, 0x15B3BB70],
    [0x0, 0x0, 0x15B3BD64, 0x15B3BBFC, 0x15B3BBD4, 0x0,
     0x0, 0x0, 0x0, 0x15B3BBE8, 0xB4, 0x0,
     0x0, 0x0, 0x15B3B74C, 0xB5],
    [0x0, 0x15B3C368, 0x15B3BC38, 0x15B3B814, 0x0, 0x0,
     0x0, 0x0, 0x15B3BC24, 0xB6, 0x0, 0x15B3BC60,
     0x15B3C05C, 0x15B3B47C, 0x0, 0x0],
    [0x15B3BC74, 0x15B3CD54, 0x15B3BC4C, 0x0, 0x0, 0x15B3C638,
     0x15B3BC88, 0x15B3BC60, 0x0, 0x0, 0x0, 0x0,
     0x15B3BC74, 0xB7, 0x0, 0x0]]"

definition dec_part18 :: "nat list list" where
  "dec_part18 = [
    [0x0, 0x15B3BA08, 0xB8, 0x0, 0x15B3C19C, 0x15B3BCC4,
     0x15B3B1FC, 0x0, 0x0, 0x15B3BCD8, 0x15B3BE18, 0x15B3BCB0,
     0x0, 0x0, 0x15B3C4BC, 0x15B3BCEC],
    [0x15B3BCC4, 0x0, 0x0, 0x15B3BD00, 0x15B3C188, 0x15B3BCD8,
     0x0, 0x0, 0x0, 0x0, 0x15B3BCEC, 0xB9,
     0x0, 0x15B3BD28, 0x15B3CDF4, 0x15B3B210],
    [0x0, 0x0, 0x15B3BD3C, 0x15B3BF94, 0x15B3BD14, 0x0,
     0x0, 0x0, 0x0, 0x15B3BD28, 0xBA, 0x0,
     0x0, 0x0, 0x15B3B83C, 0xBB],
    [0x0, 0x0, 0x0, 0x15B3BBE8, 0xBC, 0x0,
     0x15B3C3B8, 0x15B3BD8C, 0x15B3AD9C, 0x0, 0x0, 0x15B3C0AC,
     0x15B3BDA0, 0x15B3BD78, 0x0, 0x0]]"

definition dec_part19 :: "nat list list" where
  "dec_part19 = [
    [0x0, 0x0, 0x15B3BD8C, 0xBD, 0x0, 0x15B3BDC8,
     0x15B3C50C, 0x15B3B314, 0x0, 0x0, 0x0, 0x0,
     0x15B3BDB4, 0xBE, 0x0, 0x15B3BDF0],
    [0x15B3C32C, 0x15B3AD60, 0x0, 0x0, 0x15B3BE04, 0x15B3C610,
     0x15B3BDDC, 0x0, 0x0, 0x0, 0x0, 0x15B3BDF0,
     0xBF, 0x0, 0x0, 0x0],
    [0x15B3BCC4, 0xC0, 0x0, 0x15B3BE40, 0x15B3CC00, 0x15B3B698,
     0x0, 0x0, 0x0, 0x0, 0x15B3BE2C, 0xC1,
     0x0, 0x15B3CDE0, 0x15B3BE68, 0x15B3ABE4],
    [0x0, 0x0, 0x0, 0x0, 0x15B3BE54, 0xC2,
     0x0, 0x15B3BE90, 0x15B3CCA0, 0x15B3B670, 0x0, 0x0,
     0x0, 0x0, 0x15B3BE7C, 0xC3]]"

definition dec_part20 :: "nat list list" where
  "dec_part20 = [
    [0x0, 0x0, 0x0, 0x15B3B4E0, 0xC4, 0x0,
     0x15B3BECC, 0x15B3BF1C, 0x15B3AD10, 0x0, 0x0, 0x15B3CF48,
     0x15B3BEE0, 0x15B3BEB8, 0x0, 0x0],
    [0x0, 0x0, 0x15B3BECC, 0xC5, 0x0, 0x15B3BFA8,
     0x15B3BF08, 0x15B3B56C, 0x0, 0x0, 0x0, 0x0,
     0x15B3BEF4, 0xC6, 0x0, 0x15B3BF30],
    [0x15B3C340, 0x15B3BEB8, 0x0, 0x0, 0x0, 0x0,
     0x15B3BF1C, 0xC7, 0x0, 0x15B3BF58, 0x15B3D0B0, 0x15B3B800,
     0x0, 0x0, 0x15B3BF6C, 0x15B3CEA8],
    [0x15B3BF44, 0x0, 0x0, 0x15B3C3E0, 0x15B3BF80, 0x15B3BF58,
     0x0, 0x0, 0x0, 0x0, 0x15B3BF6C, 0xC8,
     0x0, 0x0, 0x0, 0x15B3BD28]]"

definition dec_part21 :: "nat list list" where
  "dec_part21 = [
    [0xC9, 0x0, 0x0, 0x0, 0x15B3BEF4, 0xCA,
     0x0, 0x15B3C7DC, 0x15B3BFD0, 0x15B3AEDC, 0x0, 0x0,
     0x15B3BFE4, 0x15B3CA0C, 0x15B3BFBC, 0x0],
    [0x0, 0x15B3BFF8, 0x15B3D18C, 0x15B3BFD0, 0x0, 0x0,
     0x0, 0x0, 0x15B3BFE4, 0xCB, 0x0, 0x0,
     0x0, 0x15B3B558, 0xCC, 0x0],
    [0x15B3C890, 0x15B3C034, 0x15B3B300, 0x0, 0x0, 0x15B3C048,
     0x15B3CAAC, 0x15B3C020, 0x0, 0x0, 0x0, 0x0,
     0x15B3C034, 0xCD, 0x0, 0x15B3C070],
    [0x15B3C3F4, 0x15B3BC4C, 0x0, 0x0, 0x0, 0x0,
     0x15B3C05C, 0xCE, 0x0, 0x15B3C098, 0x15B3C390, 0x15B3AD24,
     0x0, 0x0, 0x0, 0x0]]"

definition dec_part22 :: "nat list list" where
  "dec_part22 = [
    [0x15B3C084, 0xCF, 0x0, 0x15B3C444, 0x15B3C0C0, 0x15B3BD8C,
     0x0, 0x0, 0x0, 0x0, 0x15B3C0AC, 0xD0,
     0x0, 0x0, 0x0, 0x15B3BB48],
    [0xD1, 0x0, 0x0, 0x0, 0x15B3B990, 0xD2,
     0x0, 0x15B3D024, 0x15B3C110, 0x15B3BB34, 0x0, 0x0,
     0x0, 0x0, 0x15B3C0FC, 0xD3],
    [0x0, 0x0, 0x0, 0x15B3BA44, 0xD4, 0x0,
     0x15B3D218, 0x15B3C14C, 0x15B3AFE0, 0x0, 0x0, 0x0,
     0x0, 0x15B3C138, 0xD5, 0x0],
    [0x0, 0x0, 0x15B3BAE4, 0xD6, 0x0, 0x0,
     0x0, 0x15B3B3DC, 0xD7, 0x0, 0x0, 0x0,
     0x15B3BCEC, 0xD8, 0x0, 0x15B3C1B0]]"

definition dec_part23 :: "nat list list" where
  "dec_part23 = [
    [0x15B3CC64, 0x15B3BCB0, 0x0, 0x0, 0x15B3C1C4, 0x15B3C304,
     0x15B3C19C, 0x0, 0x0, 0x0, 0x0, 0x15B3C1B0,
     0xD9, 0x0, 0x0, 0x0],
    [0x15B3B92C, 0xDA, 0x0, 0x15B3CED0, 0x15B3C200, 0x15B3B7B0,
     0x0, 0x0, 0x0, 0x0, 0x15B3C1EC, 0xDB,
     0x0, 0x15B3C228, 0x15B3C2DC, 0x15B3BB20],
    [0x0, 0x0, 0x15B3C23C, 0x15B3CA5C, 0x15B3C214, 0x0,
     0x0, 0x15B3C250, 0x15B3C408, 0x15B3C228, 0x0, 0x0,
     0x0, 0x0, 0x15B3C23C, 0xDC],
    [0x0, 0x15B3CF70, 0x15B3C278, 0x15B3AEF0, 0x0, 0x0,
     0x15B3C28C, 0x15B3CD18, 0x15B3C264, 0x0, 0x0, 0x0,
     0x0, 0x15B3C278, 0xDD, 0x0]]"

definition dec_part24 :: "nat list list" where
  "dec_part24 = [
    [0x15B3C2B4, 0x15B3C430, 0x15B3B148, 0x0, 0x0, 0x15B3C2C8,
     0x15B3C37C, 0x15B3C2A0, 0x0, 0x0, 0x0, 0x0,
     0x15B3C2B4, 0xDE, 0x0, 0x15B3C2F0],
    [0x15B3C4E4, 0x15B3C214, 0x0, 0x0, 0x0, 0x0,
     0x15B3C2DC, 0xDF, 0x0, 0x15B3C3A4, 0x15B3C318, 0x15B3C1B0,
     0x0, 0x0, 0x0, 0x0],
    [0x15B3C304, 0xE0, 0x0, 0x0, 0x0, 0x15B3BDDC,
     0xE1, 0x0, 0x15B3C354, 0x15B3CBEC, 0x15B3BF1C, 0x0,
     0x0, 0x0, 0x0, 0x15B3C340],
    [0xE2, 0x0, 0x0, 0x0, 0x15B3BC24, 0xE3,
     0x0, 0x0, 0x0, 0x15B3C2B4, 0xE4, 0x0,
     0x0, 0x0, 0x15B3C084, 0xE5]]"

definition dec_part25 :: "nat list list" where
  "dec_part25 = [
    [0x0, 0x0, 0x0, 0x15B3C304, 0xE6, 0x0,
     0x15B3CFFC, 0x15B3C3CC, 0x15B3BD78, 0x0, 0x0, 0x0,
     0x0, 0x15B3C3B8, 0xE7, 0x0],
    [0x0, 0x0, 0x15B3BF6C, 0xE8, 0x0, 0x0,
     0x0, 0x15B3C05C, 0xE9, 0x0, 0x0, 0x0,
     0x15B3C23C, 0xEA, 0x0, 0x0],
    [0x0, 0x15B3B5F8, 0xEB, 0x0, 0x0, 0x0,
     0x15B3C2A0, 0xEC, 0x0, 0x0, 0x0, 0x15B3C0AC,
     0xED, 0x0, 0x0, 0x0],
    [0x15B3B274, 0xEE, 0x0, 0x15B3C480, 0x15B3C4D0, 0x15B3B0D0,
     0x0, 0x0, 0x0, 0x0, 0x15B3C46C, 0xEF,
     0x0, 0x0, 0x0, 0x15B3BB98]]"

definition dec_part26 :: "nat list list" where
  "dec_part26 = [
    [0xF0, 0x0, 0x0, 0x0, 0x15B3BBAC, 0xF1,
     0x0, 0x0, 0x0, 0x15B3BCD8, 0xF2, 0x0,
     0x0, 0x0, 0x15B3C46C, 0xF3],
    [0x0, 0x0, 0x0, 0x15B3C2DC, 0xF4, 0x0,
     0x0, 0x0, 0x15B3B454, 0xF5, 0x0, 0x0,
     0x0, 0x15B3BDB4, 0xF6, 0x0],
    [0x0, 0x0, 0x15B3BA30, 0xF7, 0x0, 0x0,
     0x0, 0x15B3AB94, 0xF8, 0x0, 0x15B3C55C, 0x15B3CB38,
     0x15B3AFCC, 0x0, 0x0, 0x15B3D1B4],
    [0x15B3C570, 0x15B3C548, 0x0, 0x0, 0x0, 0x0,
     0x15B3C55C, 0xF9, 0x0, 0x15B3C598, 0x15B3C9F8, 0x15B3B710,
     0x0, 0x0, 0x0, 0x0]]"

definition dec_part27 :: "nat list list" where
  "dec_part27 = [
    [0x15B3C584, 0xFA, 0x0, 0x15B3C5C0, 0x15B3CA20, 0x15B3AB6C,
     0x0, 0x0, 0x15B3C818, 0x15B3C5D4, 0x15B3C5AC, 0x0,
     0x0, 0x15B3C5E8, 0x15B3CBC4, 0x15B3C5C0],
    [0x0, 0x0, 0x0, 0x0, 0x15B3C5D4, 0xFB,
     0x0, 0x0, 0x0, 0x15B3B6D4, 0xFC, 0x0,
     0x0, 0x0, 0x15B3BDF0, 0xFD],
    [0x0, 0x0, 0x0, 0x15B3B42C, 0xFE, 0x0,
     0x0, 0x0, 0x15B3BC74, 0xFF, 0x0, 0x0,
     0x0, 0x15B3AAA4, 0x0, 0x0],
    [0x0, 0x0, 0x15B3B65C, 0x1, 0x0, 0x0,
     0x0, 0x15B3B508, 0x2, 0x0, 0x0, 0x0,
     0x15B3B51C, 0x3, 0x0, 0x15B3C6B0]]"

definition dec_part28 :: "nat list list" where
  "dec_part28 = [
    [0x15B3C73C, 0x15B3B170, 0x0, 0x0, 0x0, 0x0,
     0x15B3C69C, 0x4, 0x0, 0x15B3C764, 0x15B3C6D8, 0x15B3AF68,
     0x0, 0x0, 0x0, 0x0],
    [0x15B3C6C4, 0x5, 0x0, 0x0, 0x0, 0x15B3AC20,
     0x6, 0x0, 0x0, 0x0, 0x15B3B530, 0x7,
     0x0, 0x0, 0x0, 0x15B3BB0C],
    [0x8, 0x0, 0x0, 0x0, 0x15B3B79C, 0x9,
     0x0, 0x0, 0x0, 0x15B3C69C, 0xA, 0x0,
     0x0, 0x0, 0x15B3B364, 0xB],
    [0x0, 0x0, 0x0, 0x15B3C6C4, 0xC, 0x0,
     0x0, 0x0, 0x15B3B0BC, 0xD, 0x0, 0x0,
     0x0, 0x15B3B184, 0xE, 0x0]]"

definition dec_part29 :: "nat list list" where
  "dec_part29 = [
    [0x15B3C7B4, 0x15B3CCC8, 0x15B3B864, 0x0, 0x0, 0x0,
     0x0, 0x15B3C7A0, 0xF, 0x0, 0x0, 0x0,
     0x15B3B2C4, 0x10, 0x0, 0x0],
    [0x0, 0x15B3BFBC, 0x11, 0x0, 0x15B3CD68, 0x15B3C804,
     0x15B3B8DC, 0x0, 0x0, 0x0, 0x0, 0x15B3C7F0,
     0x12, 0x0, 0x0, 0x0],
    [0x15B3C5C0, 0x13, 0x0, 0x0, 0x0, 0x15B3AE14,
     0x14, 0x0, 0x0, 0x0, 0x15B3AC98, 0x15,
     0x0, 0x0, 0x0, 0x15B3B0F8],
    [0x16, 0x0, 0x0, 0x0, 0x15B3BBD4, 0x17,
     0x0, 0x0, 0x0, 0x15B3B684, 0x18, 0x0,
     0x0, 0x0, 0x15B3C020, 0x19]]"

definition dec_part30 :: "nat list list" where
  "dec_part30 = [
    [0x0, 0x0, 0x0, 0x15B3AE78, 0x1A, 0x0,
     0x15B3C8CC, 0x15B3CB4C, 0x15B3B134, 0x0, 0x0, 0x0,
     0x0, 0x15B3C8B8, 0x1B, 0x0],
    [0x15B3C8F4, 0x15B3CD90, 0x15B3B544, 0x0, 0x0, 0x15B3C9D0,
     0x15B3C908, 0x15B3C8E0, 0x0, 0x0, 0x0, 0x0,
     0x15B3C8F4, 0x1C, 0x0, 0x0],
    [0x0, 0x15B3AF04, 0x1D, 0x0, 0x0, 0x0,
     0x15B3BAA8, 0x1E, 0x0, 0x15B3D27C, 0x15B3C958, 0x15B3B8F0,
     0x0, 0x0, 0x0, 0x0],
    [0x15B3C944, 0x1F, 0x0, 0x0, 0x0, 0x15B3AE28,
     0x20, 0x0, 0x15B3C994, 0x15B3D1DC, 0x15B3AF7C, 0x0,
     0x0, 0x0, 0x0, 0x15B3C980]]"

definition dec_part31 :: "nat list list" where
  "dec_part31 = [
    [0x21, 0x0, 0x0, 0x0, 0x15B3B954, 0x22,
     0x0, 0x0, 0x0, 0x15B3B620, 0x23, 0x0,
     0x0, 0x0, 0x15B3C8F4, 0x24],
    [0x0, 0x0, 0x0, 0x15B3B3C8, 0x25, 0x0,
     0x0, 0x0, 0x15B3C584, 0x26, 0x0, 0x0,
     0x0, 0x15B3BFD0, 0x27, 0x0],
    [0x15B3CF34, 0x15B3CA34, 0x15B3C5AC, 0x0, 0x0, 0x0,
     0x0, 0x15B3CA20, 0x28, 0x0, 0x0, 0x0,
     0x15B3AF40, 0x29, 0x0, 0x0],
    [0x0, 0x15B3C228, 0x2A, 0x0, 0x0, 0x0,
     0x15B3B904, 0x2B, 0x0, 0x0, 0x0, 0x15B3B4A4,
     0x2C, 0x0, 0x0, 0x0]]"

definition dec_part32 :: "nat list list" where
  "dec_part32 = [
    [0x15B3B6AC, 0x2D, 0x0, 0x0, 0x0, 0x15B3C034,
     0x2E, 0x0, 0x15B3CAD4, 0x15B3D038, 0x15B3AE00, 0x0,
     0x0, 0x15B3CAE8, 0x15B3CF98, 0x15B3CAC0],
    [0x0, 0x0, 0x0, 0x0, 0x15B3CAD4, 0x2F,
     0x0, 0x0, 0x0, 0x15B3B828, 0x30, 0x0,
     0x0, 0x0, 0x15B3B29C, 0x31],
    [0x0, 0x0, 0x0, 0x15B3B88C, 0x32, 0x0,
     0x0, 0x0, 0x15B3C548, 0x33, 0x0, 0x15B3CF20,
     0x15B3CB60, 0x15B3C8B8, 0x0, 0x0],
    [0x0, 0x0, 0x15B3CB4C, 0x34, 0x0, 0x0,
     0x0, 0x15B3B5E4, 0x35, 0x0, 0x15B3CEF8, 0x15B3CB9C,
     0x15B3AF90, 0x0, 0x0, 0x0]]"

definition dec_part33 :: "nat list list" where
  "dec_part33 = [
    [0x0, 0x15B3CB88, 0x36, 0x0, 0x0, 0x0,
     0x15B3BA80, 0x37, 0x0, 0x0, 0x0, 0x15B3C5D4,
     0x38, 0x0, 0x0, 0x0],
    [0x15B3B030, 0x39, 0x0, 0x0, 0x0, 0x15B3C340,
     0x3A, 0x0, 0x15B3D164, 0x15B3CC14, 0x15B3BE2C, 0x0,
     0x0, 0x15B3CF0C, 0x15B3CC28, 0x15B3CC00],
    [0x0, 0x0, 0x0, 0x0, 0x15B3CC14, 0x3B,
     0x0, 0x15B3CC50, 0x15B3D0D8, 0x15B3BA6C, 0x0, 0x0,
     0x0, 0x0, 0x15B3CC3C, 0x3C],
    [0x0, 0x0, 0x0, 0x15B3C19C, 0x3D, 0x0,
     0x0, 0x0, 0x15B3BAD0, 0x3E, 0x0, 0x0,
     0x0, 0x15B3B0A8, 0x3F, 0x0]]"

definition dec_part34 :: "nat list list" where
  "dec_part34 = [
    [0x0, 0x0, 0x15B3BE7C, 0x40, 0x0, 0x0,
     0x0, 0x15B3B6C0, 0x41, 0x0, 0x15B3D100, 0x15B3CCDC,
     0x15B3C7A0, 0x0, 0x0, 0x0],
    [0x0, 0x15B3CCC8, 0x42, 0x0, 0x0, 0x0,
     0x15B3B774, 0x43, 0x0, 0x0, 0x0, 0x15B3B9F4,
     0x44, 0x0, 0x0, 0x0],
    [0x15B3C278, 0x45, 0x0, 0x15B3D074, 0x15B3CD40, 0x15B3B878,
     0x0, 0x0, 0x0, 0x0, 0x15B3CD2C, 0x46,
     0x0, 0x0, 0x0, 0x15B3BC60],
    [0x47, 0x0, 0x15B3CEBC, 0x15B3CD7C, 0x15B3C7F0, 0x0,
     0x0, 0x0, 0x0, 0x15B3CD68, 0x48, 0x0,
     0x15B3D0EC, 0x15B3CDA4, 0x15B3C8E0, 0x0]]"

definition dec_part35 :: "nat list list" where
  "dec_part35 = [
    [0x0, 0x0, 0x0, 0x15B3CD90, 0x49, 0x0,
     0x0, 0x0, 0x15B3BB84, 0x4A, 0x0, 0x0,
     0x0, 0x15B3B5D0, 0x4B, 0x0],
    [0x0, 0x0, 0x15B3BE54, 0x4C, 0x0, 0x0,
     0x0, 0x15B3BD14, 0x4D, 0x0, 0x0, 0x0,
     0x15B3B404, 0x4E, 0x0, 0x15B3CE30],
    [0x15B3D204, 0x15B3B1C0, 0x0, 0x0, 0x0, 0x0,
     0x15B3CE1C, 0x4F, 0x0, 0x0, 0x0, 0x15B3B224,
     0x50, 0x0, 0x15B3D1A0, 0x15B3CE6C],
    [0x15B3B058, 0x0, 0x0, 0x0, 0x0, 0x15B3CE58,
     0x51, 0x0, 0x15B3D09C, 0x15B3CE94, 0x15B3AC5C, 0x0,
     0x0, 0x0, 0x0, 0x15B3CE80]]"

definition dec_part36 :: "nat list list" where
  "dec_part36 = [
    [0x52, 0x0, 0x0, 0x0, 0x15B3BF58, 0x53,
     0x0, 0x0, 0x0, 0x15B3CD68, 0x54, 0x0,
     0x0, 0x0, 0x15B3C1EC, 0x55],
    [0x0, 0x0, 0x0, 0x15B3BABC, 0x56, 0x0,
     0x0, 0x0, 0x15B3CB88, 0x57, 0x0, 0x0,
     0x0, 0x15B3CC14, 0x58, 0x0],
    [0x0, 0x0, 0x15B3CB4C, 0x59, 0x0, 0x0,
     0x0, 0x15B3CA20, 0x5A, 0x0, 0x0, 0x0,
     0x15B3BECC, 0x5B, 0x0, 0x0],
    [0x0, 0x15B3B1D4, 0x5C, 0x0, 0x15B3CFD4, 0x15B3CF84,
     0x15B3C264, 0x0, 0x0, 0x0, 0x0, 0x15B3CF70,
     0x5D, 0x0, 0x0, 0x0]]"

definition dec_part37 :: "nat list list" where
  "dec_part37 = [
    [0x15B3CAD4, 0x5E, 0x0, 0x0, 0x0, 0x15B3B10C,
     0x5F, 0x0, 0x0, 0x0, 0x15B3AC70, 0x60,
     0x0, 0x0, 0x0, 0x15B3CF70],
    [0x61, 0x0, 0x0, 0x0, 0x15B3B4CC, 0x62,
     0x0, 0x0, 0x0, 0x15B3C3B8, 0x63, 0x0,
     0x0, 0x0, 0x15B3ACD4, 0x64],
    [0x0, 0x0, 0x0, 0x15B3C0FC, 0x65, 0x0,
     0x15B3D13C, 0x15B3D04C, 0x15B3CAC0, 0x0, 0x0, 0x0,
     0x0, 0x15B3D038, 0x66, 0x0],
    [0x0, 0x0, 0x15B3AE64, 0x67, 0x0, 0x0,
     0x0, 0x15B3CD2C, 0x68, 0x0, 0x0, 0x0,
     0x15B3B7C4, 0x69, 0x0, 0x0]]"

definition dec_part38 :: "nat list list" where
  "dec_part38 = [
    [0x0, 0x15B3CE80, 0x6A, 0x0, 0x15B3D0C4, 0x15B3D22C,
     0x15B3BF44, 0x0, 0x0, 0x0, 0x0, 0x15B3D0B0,
     0x6B, 0x0, 0x0, 0x0],
    [0x15B3CC3C, 0x6C, 0x0, 0x0, 0x0, 0x15B3CD90,
     0x6D, 0x0, 0x0, 0x0, 0x15B3CCC8, 0x6E,
     0x0, 0x0, 0x0, 0x15B3B2D8],
    [0x6F, 0x0, 0x0, 0x0, 0x15B3B968, 0x70,
     0x0, 0x0, 0x0, 0x15B3D038, 0x71, 0x0,
     0x0, 0x0, 0x15B3ADC4, 0x72],
    [0x0, 0x15B3D178, 0x15B3D1C8, 0x15B3CC00, 0x0, 0x0,
     0x0, 0x0, 0x15B3D164, 0x73, 0x0, 0x0,
     0x0, 0x15B3BFE4, 0x74, 0x0]]"

definition dec_part39 :: "nat list list" where
  "dec_part39 = [
    [0x0, 0x0, 0x15B3CE58, 0x75, 0x0, 0x0,
     0x0, 0x15B3C55C, 0x76, 0x0, 0x0, 0x0,
     0x15B3D164, 0x77, 0x0, 0x15B3D1F0],
    [0x15B3D268, 0x15B3C980, 0x0, 0x0, 0x0, 0x0,
     0x15B3D1DC, 0x78, 0x0, 0x0, 0x0, 0x15B3CE1C,
     0x79, 0x0, 0x0, 0x0],
    [0x15B3C138, 0x7A, 0x0, 0x0, 0x0, 0x15B3D0B0,
     0x7B, 0x0, 0x0, 0x0, 0x15B3B8B4, 0x7C,
     0x0, 0x0, 0x0, 0x15B3AD74],
    [0x7D, 0x0, 0x0, 0x0, 0x15B3D1DC, 0x7E,
     0x0, 0x0, 0x0, 0x15B3C944, 0x7F, 0x0]]"

definition decompress_dat_parts :: "nat list list list" where
  "decompress_dat_parts = [
    dec_part0, dec_part1, dec_part2, dec_part3, dec_part4, dec_part5, dec_part6, dec_part7,
    dec_part8, dec_part9, dec_part10, dec_part11, dec_part12, dec_part13, dec_part14, dec_part15,
    dec_part16, dec_part17, dec_part18, dec_part19, dec_part20, dec_part21, dec_part22, dec_part23,
    dec_part24, dec_part25, dec_part26, dec_part27, dec_part28, dec_part29, dec_part30, dec_part31,
    dec_part32, dec_part33, dec_part34, dec_part35, dec_part36, dec_part37, dec_part38, dec_part39]"

definition decompress_dat :: "uint32 list" where
  "decompress_dat = map of_nat (concat (concat decompress_dat_parts))"

lemmas enc_parts =
  enc_part0_def enc_part1_def enc_part2_def enc_part3_def enc_part4_def enc_part5_def
  enc_part6_def enc_part7_def

lemmas dec_parts =
  dec_part0_def dec_part1_def dec_part2_def dec_part3_def dec_part4_def dec_part5_def
  dec_part6_def dec_part7_def dec_part8_def dec_part9_def dec_part10_def dec_part11_def
  dec_part12_def dec_part13_def dec_part14_def dec_part15_def dec_part16_def dec_part17_def
  dec_part18_def dec_part19_def dec_part20_def dec_part21_def dec_part22_def dec_part23_def
  dec_part24_def dec_part25_def dec_part26_def dec_part27_def dec_part28_def dec_part29_def
  dec_part30_def dec_part31_def dec_part32_def dec_part33_def dec_part34_def dec_part35_def
  dec_part36_def dec_part37_def dec_part38_def dec_part39_def

section \<open>Look-up by parts\<close>

lemma nth_concat64:
  assumes "i < length xss * k" "\<forall>xs\<in>set (butlast xss). length xs = k" "length (last xss) \<le> k" "i < length (concat xss)"
  shows "concat xss ! i = xss ! (i div k) ! (i mod k)"
  using assms
proof (induction xss arbitrary: i)
  case (Cons xs xss)
  show ?case
  proof (cases "xss = []")
    case True
    then show ?thesis using Cons.prems by simp
  next
    case False
    then have xs: "length xs = k" using Cons.prems(2) by simp
    show ?thesis
    proof (cases "i < k")
      case True
      then show ?thesis using xs by (simp add: nth_append)
    next
      case ge: False
      then have k: "0 < k" using Cons.prems(1) by (cases k) auto
      have "concat xss ! (i - k) = xss ! ((i - k) div k) ! ((i - k) mod k)"
        using Cons.prems xs False ge by (intro Cons.IH) auto
      then show ?thesis
        using ge xs k by (simp add: nth_append le_div_geq le_mod_geq)
    qed
  qed
qed simp

lemma length_dec_part0: "map length dec_part0 = [16, 16, 16, 16]" by (simp add: dec_part0_def)
lemma length_dec_part1: "map length dec_part1 = [16, 16, 16, 16]" by (simp add: dec_part1_def)
lemma length_dec_part2: "map length dec_part2 = [16, 16, 16, 16]" by (simp add: dec_part2_def)
lemma length_dec_part3: "map length dec_part3 = [16, 16, 16, 16]" by (simp add: dec_part3_def)
lemma length_dec_part4: "map length dec_part4 = [16, 16, 16, 16]" by (simp add: dec_part4_def)
lemma length_dec_part5: "map length dec_part5 = [16, 16, 16, 16]" by (simp add: dec_part5_def)
lemma length_dec_part6: "map length dec_part6 = [16, 16, 16, 16]" by (simp add: dec_part6_def)
lemma length_dec_part7: "map length dec_part7 = [16, 16, 16, 16]" by (simp add: dec_part7_def)
lemma length_dec_part8: "map length dec_part8 = [16, 16, 16, 16]" by (simp add: dec_part8_def)
lemma length_dec_part9: "map length dec_part9 = [16, 16, 16, 16]" by (simp add: dec_part9_def)
lemma length_dec_part10: "map length dec_part10 = [16, 16, 16, 16]" by (simp add: dec_part10_def)
lemma length_dec_part11: "map length dec_part11 = [16, 16, 16, 16]" by (simp add: dec_part11_def)
lemma length_dec_part12: "map length dec_part12 = [16, 16, 16, 16]" by (simp add: dec_part12_def)
lemma length_dec_part13: "map length dec_part13 = [16, 16, 16, 16]" by (simp add: dec_part13_def)
lemma length_dec_part14: "map length dec_part14 = [16, 16, 16, 16]" by (simp add: dec_part14_def)
lemma length_dec_part15: "map length dec_part15 = [16, 16, 16, 16]" by (simp add: dec_part15_def)
lemma length_dec_part16: "map length dec_part16 = [16, 16, 16, 16]" by (simp add: dec_part16_def)
lemma length_dec_part17: "map length dec_part17 = [16, 16, 16, 16]" by (simp add: dec_part17_def)
lemma length_dec_part18: "map length dec_part18 = [16, 16, 16, 16]" by (simp add: dec_part18_def)
lemma length_dec_part19: "map length dec_part19 = [16, 16, 16, 16]" by (simp add: dec_part19_def)
lemma length_dec_part20: "map length dec_part20 = [16, 16, 16, 16]" by (simp add: dec_part20_def)
lemma length_dec_part21: "map length dec_part21 = [16, 16, 16, 16]" by (simp add: dec_part21_def)
lemma length_dec_part22: "map length dec_part22 = [16, 16, 16, 16]" by (simp add: dec_part22_def)
lemma length_dec_part23: "map length dec_part23 = [16, 16, 16, 16]" by (simp add: dec_part23_def)
lemma length_dec_part24: "map length dec_part24 = [16, 16, 16, 16]" by (simp add: dec_part24_def)
lemma length_dec_part25: "map length dec_part25 = [16, 16, 16, 16]" by (simp add: dec_part25_def)
lemma length_dec_part26: "map length dec_part26 = [16, 16, 16, 16]" by (simp add: dec_part26_def)
lemma length_dec_part27: "map length dec_part27 = [16, 16, 16, 16]" by (simp add: dec_part27_def)
lemma length_dec_part28: "map length dec_part28 = [16, 16, 16, 16]" by (simp add: dec_part28_def)
lemma length_dec_part29: "map length dec_part29 = [16, 16, 16, 16]" by (simp add: dec_part29_def)
lemma length_dec_part30: "map length dec_part30 = [16, 16, 16, 16]" by (simp add: dec_part30_def)
lemma length_dec_part31: "map length dec_part31 = [16, 16, 16, 16]" by (simp add: dec_part31_def)
lemma length_dec_part32: "map length dec_part32 = [16, 16, 16, 16]" by (simp add: dec_part32_def)
lemma length_dec_part33: "map length dec_part33 = [16, 16, 16, 16]" by (simp add: dec_part33_def)
lemma length_dec_part34: "map length dec_part34 = [16, 16, 16, 16]" by (simp add: dec_part34_def)
lemma length_dec_part35: "map length dec_part35 = [16, 16, 16, 16]" by (simp add: dec_part35_def)
lemma length_dec_part36: "map length dec_part36 = [16, 16, 16, 16]" by (simp add: dec_part36_def)
lemma length_dec_part37: "map length dec_part37 = [16, 16, 16, 16]" by (simp add: dec_part37_def)
lemma length_dec_part38: "map length dec_part38 = [16, 16, 16, 16]" by (simp add: dec_part38_def)
lemma length_dec_part39: "map length dec_part39 = [16, 16, 16, 12]" by (simp add: dec_part39_def)

lemma length_enc_part0: "length enc_part0 = 64" by (simp add: enc_part0_def)
lemma length_enc_part1: "length enc_part1 = 64" by (simp add: enc_part1_def)
lemma length_enc_part2: "length enc_part2 = 64" by (simp add: enc_part2_def)
lemma length_enc_part3: "length enc_part3 = 64" by (simp add: enc_part3_def)
lemma length_enc_part4: "length enc_part4 = 64" by (simp add: enc_part4_def)
lemma length_enc_part5: "length enc_part5 = 64" by (simp add: enc_part5_def)
lemma length_enc_part6: "length enc_part6 = 64" by (simp add: enc_part6_def)
lemma length_enc_part7: "length enc_part7 = 64" by (simp add: enc_part7_def)

lemmas part_lengths =
  length_dec_part0 length_dec_part1 length_dec_part2 length_dec_part3 length_dec_part4
  length_dec_part5 length_dec_part6 length_dec_part7 length_dec_part8 length_dec_part9
  length_dec_part10 length_dec_part11 length_dec_part12 length_dec_part13 length_dec_part14
  length_dec_part15 length_dec_part16 length_dec_part17 length_dec_part18 length_dec_part19
  length_dec_part20 length_dec_part21 length_dec_part22 length_dec_part23 length_dec_part24
  length_dec_part25 length_dec_part26 length_dec_part27 length_dec_part28 length_dec_part29
  length_dec_part30 length_dec_part31 length_dec_part32 length_dec_part33 length_dec_part34
  length_dec_part35 length_dec_part36 length_dec_part37 length_dec_part38 length_dec_part39
  length_enc_part0 length_enc_part1 length_enc_part2 length_enc_part3 length_enc_part4
  length_enc_part5 length_enc_part6 length_enc_part7

lemma dec_pick:
  "decompress_dat_parts ! 0 = dec_part0"
  "decompress_dat_parts ! Suc 0 = dec_part1"
  "decompress_dat_parts ! 2 = dec_part2"
  "decompress_dat_parts ! 3 = dec_part3"
  "decompress_dat_parts ! 4 = dec_part4"
  "decompress_dat_parts ! 5 = dec_part5"
  "decompress_dat_parts ! 6 = dec_part6"
  "decompress_dat_parts ! 7 = dec_part7"
  "decompress_dat_parts ! 8 = dec_part8"
  "decompress_dat_parts ! 9 = dec_part9"
  "decompress_dat_parts ! 10 = dec_part10"
  "decompress_dat_parts ! 11 = dec_part11"
  "decompress_dat_parts ! 12 = dec_part12"
  "decompress_dat_parts ! 13 = dec_part13"
  "decompress_dat_parts ! 14 = dec_part14"
  "decompress_dat_parts ! 15 = dec_part15"
  "decompress_dat_parts ! 16 = dec_part16"
  "decompress_dat_parts ! 17 = dec_part17"
  "decompress_dat_parts ! 18 = dec_part18"
  "decompress_dat_parts ! 19 = dec_part19"
  "decompress_dat_parts ! 20 = dec_part20"
  "decompress_dat_parts ! 21 = dec_part21"
  "decompress_dat_parts ! 22 = dec_part22"
  "decompress_dat_parts ! 23 = dec_part23"
  "decompress_dat_parts ! 24 = dec_part24"
  "decompress_dat_parts ! 25 = dec_part25"
  "decompress_dat_parts ! 26 = dec_part26"
  "decompress_dat_parts ! 27 = dec_part27"
  "decompress_dat_parts ! 28 = dec_part28"
  "decompress_dat_parts ! 29 = dec_part29"
  "decompress_dat_parts ! 30 = dec_part30"
  "decompress_dat_parts ! 31 = dec_part31"
  "decompress_dat_parts ! 32 = dec_part32"
  "decompress_dat_parts ! 33 = dec_part33"
  "decompress_dat_parts ! 34 = dec_part34"
  "decompress_dat_parts ! 35 = dec_part35"
  "decompress_dat_parts ! 36 = dec_part36"
  "decompress_dat_parts ! 37 = dec_part37"
  "decompress_dat_parts ! 38 = dec_part38"
  "decompress_dat_parts ! 39 = dec_part39"
  by (simp_all add: decompress_dat_parts_def)

lemma enc_pick:
  "compress_dat_parts ! 0 = enc_part0"
  "compress_dat_parts ! Suc 0 = enc_part1"
  "compress_dat_parts ! 2 = enc_part2"
  "compress_dat_parts ! 3 = enc_part3"
  "compress_dat_parts ! 4 = enc_part4"
  "compress_dat_parts ! 5 = enc_part5"
  "compress_dat_parts ! 6 = enc_part6"
  "compress_dat_parts ! 7 = enc_part7"
  by (simp_all add: compress_dat_parts_def)

lemma row_lengths:
  "list_all (\<lambda>n. n = 16) (butlast (map length (concat decompress_dat_parts)))"
  "last (map length (concat decompress_dat_parts)) = 12"
  "length (map length (concat decompress_dat_parts)) = 160"
  "sum_list (map length (concat decompress_dat_parts)) = 2556"
  by (simp_all add: decompress_dat_parts_def part_lengths del: length_map)

lemma row_count: "length (concat decompress_dat_parts) = 160"
  using row_lengths(3) by (simp only: length_map)

lemma rows_16: "\<forall>xs\<in>set (butlast (concat decompress_dat_parts)). length xs = 16"
  "length (last (concat decompress_dat_parts)) = 12"
proof -
  have ne: "concat decompress_dat_parts \<noteq> []" using row_count by (metis list.size(3) zero_neq_numeral)
  have "list_all (\<lambda>n. n = 16) (map length (butlast (concat decompress_dat_parts)))"
    using row_lengths(1) by (simp only: map_butlast)
  then show "\<forall>xs\<in>set (butlast (concat decompress_dat_parts)). length xs = 16"
    by (simp only: list_all_iff list.set_map) blast
  show "length (last (concat decompress_dat_parts)) = 12"
    using row_lengths(2) last_map[OF ne, of length] by (simp only:)
qed

lemma parts_4: "length decompress_dat_parts = 40" "\<forall>xs\<in>set decompress_dat_parts. length xs = 4"
proof -
  show "length decompress_dat_parts = 40" by (simp add: decompress_dat_parts_def)
  have "\<forall>xs\<in>set decompress_dat_parts. length (map length xs) = 4"
    unfolding decompress_dat_parts_def by (simp only: part_lengths set_simps ball_simps list.size) simp
  then show "\<forall>xs\<in>set decompress_dat_parts. length xs = 4" by simp
qed

abbreviation dec_words :: "nat list" where
  "dec_words \<equiv> concat (concat decompress_dat_parts)"

lemma length_parts: "length dec_words = 2556"
  using row_lengths(4) by (simp only: length_concat)

lemma dec_nth:
  assumes "i < 2556"
  shows "dec_words ! i = decompress_dat_parts ! (i div 64) ! (i div 16 mod 4) ! (i mod 16)"
proof -
  have "dec_words ! i = concat decompress_dat_parts ! (i div 16) ! (i mod 16)"
    using assms row_count rows_16 length_parts by (intro nth_concat64) auto
  moreover have "concat decompress_dat_parts ! (i div 16) = decompress_dat_parts ! (i div 16 div 4) ! (i div 16 mod 4)"
  proof (rule nth_concat64)
    have "decompress_dat_parts \<noteq> []" using parts_4(1) by (metis list.size(3) zero_neq_numeral)
    then show "length (last decompress_dat_parts) \<le> 4" using parts_4(2) by simp
  qed (use assms row_count parts_4 in \<open>auto dest: in_set_butlastD\<close>)
  moreover have "i div 16 div 4 = i div 64" by (simp add: div_mult2_eq[symmetric])
  ultimately show ?thesis by simp
qed

lemma enc_nth: "i < 512 \<Longrightarrow> compress_dat ! i = compress_dat_parts ! (i div 64) ! (i mod 64)"
  unfolding compress_dat_def
  by (rule nth_concat64) (simp_all add: compress_dat_parts_def part_lengths)

section \<open>The jump table\<close>

definition shipped_jump :: "zlib_jump list" where
  "shipped_jump = populate_jump_table decompress_dat"

text \<open>Every word is a byte or a pointer at or behind the image's base, in 32 bits.\<close>

definition dec_word_ok :: "nat \<Rightarrow> bool" where
  "dec_word_ok n \<longleftrightarrow> n \<le> 255 \<or> 0x15B3AAA0 \<le> n \<and> n < 2 ^ 32"

definition jump_word :: "nat \<Rightarrow> zlib_jump" where
  "jump_word n = (if 255 < n then Ptr ((n - 0x15B3AAA0) div 4) else Data n)"

lemma dec_words_ok: "n \<in> set dec_words \<Longrightarrow> dec_word_ok n"
proof -
  have "list_all (list_all (list_all dec_word_ok)) decompress_dat_parts"
    unfolding decompress_dat_parts_def list.pred_inject by (intro conjI) (simp_all add: dec_parts dec_word_ok_def)
  then show "n \<in> set dec_words \<Longrightarrow> dec_word_ok n" by (auto simp: list_all_iff)
qed

lemma jump_word_of_nat:
  assumes "dec_word_ok n"
  shows "(if (of_nat n :: uint32) > 0xFF then Ptr (unat ((of_nat n - 0x15B3AAA0 :: uint32) div 4))
     else Data (unat (of_nat n :: uint32))) = jump_word n"
proof -
  have lt: "n < 2 ^ 32" using assms by (auto simp: dec_word_ok_def)
  then have u: "unat (of_nat n :: uint32) = n" by (simp add: unat_of_nat)
  have "(of_nat n :: uint32) > 0xFF \<longleftrightarrow> 255 < n" using u by (simp add: word_less_nat_alt)
  moreover have "unat ((of_nat n - 0x15B3AAA0 :: uint32) div 4) = (n - 0x15B3AAA0) div 4" if "255 < n"
  proof -
    have "0x15B3AAA0 \<le> (of_nat n :: uint32)" using that assms u by (auto simp: dec_word_ok_def word_le_nat_alt)
    then show ?thesis using u by (simp add: unat_div unat_sub)
  qed
  ultimately show ?thesis using u by (simp add: jump_word_def)
qed

lemma entry_shipped:
  "entry shipped_jump i =
     (if i < 2556 then Some (jump_word (decompress_dat_parts ! (i div 64) ! (i div 16 mod 4) ! (i mod 16))) else None)"
proof (cases "i < 2556")
  case True
  have "(decompress_dat ! 0 :: uint32) = 0x15B3AAA4"
    using dec_nth[of 0] length_parts by (simp add: decompress_dat_def dec_pick dec_part0_def)
  moreover have "dec_word_ok (dec_words ! i)"
    using True length_parts by (intro dec_words_ok nth_mem) simp
  ultimately have "shipped_jump ! i = jump_word (dec_words ! i)"
    using True length_parts
    by (simp add: shipped_jump_def populate_jump_table_def decompress_dat_def Let_def
        flip: jump_word_of_nat)
  then show ?thesis
    using True length_parts dec_nth[of i]
    by (simp add: entry_def shipped_jump_def populate_jump_table_def decompress_dat_def Let_def)
next
  case False
  then show ?thesis
    using length_parts by (simp add: entry_def shipped_jump_def populate_jump_table_def decompress_dat_def Let_def)
qed

lemma length_shipped: "length shipped_jump = 2556"
  using length_parts by (simp add: shipped_jump_def populate_jump_table_def decompress_dat_def Let_def)

lemma follow_shipped:
  "follow shipped_jump i =
     (case entry shipped_jump i of
        Some (Ptr p) \<Rightarrow> if p \<le> 2556 then Some p else None
      | _ \<Rightarrow> None)"
  by (simp add: follow_def length_shipped split: option.splits zlib_jump.splits)

section \<open>The tables belong together\<close>

lemmas walk_eval = upt_rec code_def enc_len_def enc_bits_def enc_nth enc_pick enc_parts is_leaf_def is_null_def
  follow_shipped entry_shipped dec_pick dec_parts jump_word_def

lemma walks_0: "list_all (\<lambda>i. walks shipped_jump 1 (code compress_dat (of_nat i)) i)
   [0..<16]"
  by (simp add: walk_eval)

lemma walks_1: "list_all (\<lambda>i. walks shipped_jump 1 (code compress_dat (of_nat i)) i)
   [16..<32]"
  by (simp add: walk_eval)

lemma walks_2: "list_all (\<lambda>i. walks shipped_jump 1 (code compress_dat (of_nat i)) i)
   [32..<48]"
  by (simp add: walk_eval)

lemma walks_3: "list_all (\<lambda>i. walks shipped_jump 1 (code compress_dat (of_nat i)) i)
   [48..<64]"
  by (simp add: walk_eval)

lemma walks_4: "list_all (\<lambda>i. walks shipped_jump 1 (code compress_dat (of_nat i)) i)
   [64..<80]"
  by (simp add: walk_eval)

lemma walks_5: "list_all (\<lambda>i. walks shipped_jump 1 (code compress_dat (of_nat i)) i)
   [80..<96]"
  by (simp add: walk_eval)

lemma walks_6: "list_all (\<lambda>i. walks shipped_jump 1 (code compress_dat (of_nat i)) i)
   [96..<112]"
  by (simp add: walk_eval)

lemma walks_7: "list_all (\<lambda>i. walks shipped_jump 1 (code compress_dat (of_nat i)) i)
   [112..<128]"
  by (simp add: walk_eval)

lemma walks_8: "list_all (\<lambda>i. walks shipped_jump 1 (code compress_dat (of_nat i)) i)
   [128..<144]"
  by (simp add: walk_eval)

lemma walks_9: "list_all (\<lambda>i. walks shipped_jump 1 (code compress_dat (of_nat i)) i)
   [144..<160]"
  by (simp add: walk_eval)

lemma walks_10: "list_all (\<lambda>i. walks shipped_jump 1 (code compress_dat (of_nat i)) i)
   [160..<176]"
  by (simp add: walk_eval)

lemma walks_11: "list_all (\<lambda>i. walks shipped_jump 1 (code compress_dat (of_nat i)) i)
   [176..<192]"
  by (simp add: walk_eval)

lemma walks_12: "list_all (\<lambda>i. walks shipped_jump 1 (code compress_dat (of_nat i)) i)
   [192..<208]"
  by (simp add: walk_eval)

lemma walks_13: "list_all (\<lambda>i. walks shipped_jump 1 (code compress_dat (of_nat i)) i)
   [208..<224]"
  by (simp add: walk_eval)

lemma walks_14: "list_all (\<lambda>i. walks shipped_jump 1 (code compress_dat (of_nat i)) i)
   [224..<240]"
  by (simp add: walk_eval)

lemma walks_15: "list_all (\<lambda>i. walks shipped_jump 1 (code compress_dat (of_nat i)) i)
   [240..<256]"
  by (simp add: walk_eval)

lemma enc_lens: "list_all (list_all (\<lambda>w. w \<le> 12)) (drop 4 compress_dat_parts)"
  by (simp add: compress_dat_parts_def enc_parts)

lemma walks_all:
  assumes "i < 256"
  shows "walks shipped_jump 1 (code compress_dat (of_nat i)) i"
proof -
  have "i \<in> {0..<16} \<union> {16..<32} \<union> {32..<48} \<union> {48..<64} \<union> {64..<80}
      \<union> {80..<96} \<union> {96..<112} \<union> {112..<128} \<union> {128..<144} \<union>
      {144..<160} \<union> {160..<176} \<union> {176..<192} \<union> {192..<208} \<union>
      {208..<224} \<union> {224..<240} \<union> {240..<256}"
    using assms by (simp add: ivl_disj_un_two(3))
  then show ?thesis
    using walks_0 walks_1 walks_2 walks_3 walks_4 walks_5 walks_6 walks_7 walks_8 walks_9 walks_10
      walks_11 walks_12 walks_13 walks_14 walks_15
    unfolding list_all_iff set_upt by blast
qed

lemma enc_len_le: "enc_len compress_dat b \<le> 32"
proof -
  define i where "i = nat (sint b + 0x180)"
  have r: "- 128 \<le> sint b" "sint b < 128" using sint_greater_eq[of b] sint_less[of b] by simp_all
  then have i: "256 \<le> i" "i < 512" by (auto simp: i_def)
  have q: "4 \<le> i div 64" "i div 64 < 8" using i by auto
  then have "compress_dat_parts ! (i div 64) \<in> set (drop 4 compress_dat_parts)"
  proof -
    have "i div 64 = 4 \<or> i div 64 = 5 \<or> i div 64 = 6 \<or> i div 64 = 7" using q by linarith
    then show ?thesis by (auto simp: enc_pick) (simp_all add: compress_dat_parts_def)
  qed
  moreover have "i mod 64 < length (compress_dat_parts ! (i div 64))"
  proof -
    have "\<forall>xs\<in>set compress_dat_parts. length xs = 64" by (simp add: compress_dat_parts_def part_lengths)
    moreover have "compress_dat_parts ! (i div 64) \<in> set compress_dat_parts"
      using q by (intro nth_mem) (simp add: compress_dat_parts_def)
    ultimately show ?thesis by simp
  qed
  ultimately have "compress_dat ! i \<le> 12"
    using enc_lens i enc_nth[of i] by (fastforce simp: list_all_iff)
  then have "unat (compress_dat ! i) \<le> 12" by (simp add: word_le_nat_alt)
  then show ?thesis by (simp add: enc_len_def i_def)
qed

lemma shipped_tables: "tables_ok compress_dat shipped_jump"
proof -
  have "follow shipped_jump 0 = Some 1"
    by (simp add: follow_shipped entry_shipped dec_pick dec_part0_def jump_word_def)
  moreover have "walks shipped_jump 1 (code compress_dat b) (unat b)" for b :: uint8
    using walks_all[of "unat b"] unsigned_less[of b] by simp
  ultimately show ?thesis by (simp add: tables_ok_def enc_len_le)
qed

section \<open>The tree is closed\<close>

text \<open>
  Behind the root pointer the file consists of rows of five words: the two children of a node (both
  zero in a leaf), a word that is not used, the byte of a leaf, and the parent.
\<close>

definition node_word :: "nat \<Rightarrow> bool" where
  "node_word w \<longleftrightarrow> 255 < w \<and> (w - 0x15B3AAA0) div 4 mod 5 = 1 \<and> (w - 0x15B3AAA0) div 4 < 2552"

definition row_ok :: "nat \<Rightarrow> nat \<Rightarrow> nat \<Rightarrow> bool" where
  "row_ok l r d \<longleftrightarrow> (if l = 0 then r = 0 \<and> d \<le> 255 else node_word l \<and> node_word r)"

fun rows_ok :: "nat list \<Rightarrow> bool" where
  "rows_ok (l # r # x # d # y # rest) = (row_ok l r d \<and> rows_ok rest)"
| "rows_ok xs = (xs = [])"

lemma shipped_rows: "rows_ok (drop 1 dec_words)"
  unfolding decompress_dat_parts_def by (simp add: dec_parts row_ok_def node_word_def)

lemma rows_ok_nth:
  "rows_ok xs \<Longrightarrow> 5 * k + 5 \<le> length xs \<Longrightarrow> row_ok (xs ! (5 * k)) (xs ! (5 * k + 1)) (xs ! (5 * k + 3))"
proof (induction xs arbitrary: k rule: rows_ok.induct)
  case (1 l r x d y rest)
  show ?case
  proof (cases k)
    case (Suc k')
    have "5 * k = Suc (Suc (Suc (Suc (Suc (5 * k')))))" using Suc by simp
    then show ?thesis using 1 Suc by (simp add: numeral_eq_Suc)
  qed (use 1 in \<open>simp add: numeral_eq_Suc\<close>)
qed simp_all

definition is_node :: "nat \<Rightarrow> bool" where
  "is_node j \<longleftrightarrow> j mod 5 = 1 \<and> j < 2552"

definition dec_word :: "nat \<Rightarrow> nat" where
  "dec_word i = dec_words ! i"

lemma entry_word: "i < 2556 \<Longrightarrow> entry shipped_jump i = Some (jump_word (dec_word i))"
  by (simp add: entry_shipped dec_word_def dec_nth)

lemma node_row:
  assumes "is_node j"
  shows "row_ok (dec_word j) (dec_word (j + 1)) (dec_word (j + 3))"
proof -
  define k where "k = j div 5"
  have j: "j = 5 * k + 1" using assms unfolding is_node_def k_def by presburger
  have "k < 511" using assms j by (simp add: is_node_def)
  then have "5 * k + 5 \<le> length (drop 1 dec_words)" using length_parts by simp
  from rows_ok_nth[OF shipped_rows this] show ?thesis
    using \<open>k < 511\<close> length_parts by (simp add: j dec_word_def add.commute)
qed

lemma follow_node_word:
  "i < 2556 \<Longrightarrow> node_word (dec_word i) \<Longrightarrow> \<exists>p. follow shipped_jump i = Some p \<and> is_node p"
  by (simp add: follow_shipped entry_word jump_word_def node_word_def is_node_def)

lemma node_cases:
  assumes "is_node j"
  obtains (leaf) d where "is_leaf shipped_jump j = Some True" "entry shipped_jump (j + 3) = Some (Data d)"
  | (inner) l r where "is_leaf shipped_jump j = Some False"
      "follow shipped_jump j = Some l" "is_node l" "follow shipped_jump (j + 1) = Some r" "is_node r"
proof -
  have j: "j + 3 < 2556" using assms by (simp add: is_node_def)
  have row: "row_ok (dec_word j) (dec_word (j + 1)) (dec_word (j + 3))" by (rule node_row[OF assms])
  have null: "is_null shipped_jump i = Some (jump_word (dec_word i) = Data 0)" if "i < 2556" for i
    using that by (simp add: is_null_def entry_word)
  show ?thesis
  proof (cases "dec_word j = 0")
    case True
    then have "is_leaf shipped_jump j = Some True" "entry shipped_jump (j + 3) = Some (Data (dec_word (j + 3)))"
      using row j null by (simp_all add: row_ok_def is_leaf_def entry_word jump_word_def)
    then show ?thesis by (rule leaf)
  next
    case False
    then have w: "node_word (dec_word j)" "node_word (dec_word (j + 1))" using row by (simp_all add: row_ok_def)
    then have "is_leaf shipped_jump j = Some False"
      using j null by (simp add: is_leaf_def jump_word_def node_word_def)
    then show ?thesis using w follow_node_word[of j] follow_node_word[of "j + 1"] j inner by auto
  qed
qed

lemma root_shipped: "follow shipped_jump 0 = Some 1" "is_node 1" "is_leaf shipped_jump 1 = Some False"
  by (simp_all add: follow_shipped entry_shipped dec_pick dec_part0_def jump_word_def is_node_def is_leaf_def
      is_null_def)

lemma decompress_total_loop:
  "is_node j \<Longrightarrow> is_leaf shipped_jump j = Some False \<Longrightarrow> i + n \<le> 8 * length data \<Longrightarrow>
   \<exists>r res. zlib_decompress_loop shipped_jump data osz n i j out = Some (r, res) \<and>
     (r = - 1 \<and> osz \<le> length res \<or> r = int (length res)) \<and> length res \<le> length out + n \<and>
     length res \<le> max (length out) osz"
proof (induction n arbitrary: i j out)
  case (Suc n)
  show ?case
  proof (cases "length out < osz")
    case True
    have "i div 8 < length data" using Suc.prems(3) by (simp add: less_mult_imp_div_less)
    then have bit0: "JMPBIT data i = Some (buffer_bit data i)" by (rule JMPBIT_buffer)
    obtain j' where j': "follow shipped_jump (j + (if buffer_bit data i then 1 else 0)) = Some j'" "is_node j'"
      using Suc.prems(2) by (cases rule: node_cases[OF Suc.prems(1)]; cases "buffer_bit data i") auto
    from j'(2) show ?thesis
    proof (cases rule: node_cases)
      case (leaf d)
      show ?thesis
        using leaf bit0 j'(1) True root_shipped Suc.IH[of 1 "Suc i" "out @ [of_nat d]"] Suc.prems(3)
        by (auto simp: Let_def)
    next
      case (inner l r)
      then show ?thesis
        using bit0 j' True Suc.IH[of j' "Suc i" out] Suc.prems(3) by auto
    qed
  qed simp
qed simp

text \<open>
  C30: With the tables the repository ships, whatever \<open>zlib_compress\<close> accepts comes back: if the
  codes of the message fit the output buffer, compression reports their number of bits plus
  eight and a first byte 1, and \<open>zlib_decompress\<close>, given that many code bits, returns exactly the
  message; given more bits (the reported count includes the first byte, so eight of them follow
  the last code) it still returns the message first, possibly followed by more bytes.
\<close>
theorem compression_roundtrip:
  assumes "length (codes compress_dat inp) < (out_sz - 1) * 8" "out_sz \<le> length out"
    "out_sz * 8 < 2 ^ 32" "length inp < osz"
  shows "\<exists>out'. zlib_compress compress_dat inp out out_sz
       = Some (int (length (codes compress_dat inp) + 8), out') \<and>
     zlib_decompress shipped_jump out' (length (codes compress_dat inp)) osz
       = Some (int (length inp), inp) \<and>
     (\<forall>m r res. zlib_decompress shipped_jump out' (length (codes compress_dat inp) + m) osz = Some (r, res)
        \<longrightarrow> (\<exists>more. res = inp @ more))"
  using compressed_opens[OF shipped_tables assms] by blast

theorem compression_roundtrip_witness:
  "\<exists>out'. zlib_compress compress_dat [104, 105] (replicate 20 0) 20
       = Some (int (length (codes compress_dat [104, 105]) + 8), out') \<and>
     zlib_decompress shipped_jump out' (length (codes compress_dat [104, 105])) 100 = Some (2, [104, 105])"
proof -
  have "enc_len compress_dat 104 \<le> 32" "enc_len compress_dat 105 \<le> 32" by (rule enc_len_le)+
  then have "length (codes compress_dat [104, 105]) < (20 - 1) * 8" by simp
  from compression_roundtrip[OF this, of "replicate 20 0" 100] show ?thesis by auto
qed

lemma decompress_total:
  assumes "inp \<noteq> []" "in_sz \<le> 8 * (length inp - 1)"
  shows "\<exists>r res. zlib_decompress shipped_jump inp in_sz osz = Some (r, res) \<and>
     (r = - 1 \<or> r = int (length res)) \<and> length res \<le> in_sz \<and> length res \<le> osz"
proof (cases "inp ! 0 = 1")
  case True
  obtain r res where "zlib_decompress_loop shipped_jump (drop 1 inp) osz in_sz 0 1 [] = Some (r, res)"
    "r = - 1 \<and> osz \<le> length res \<or> r = int (length res)" "length res \<le> in_sz" "length res \<le> osz"
    using decompress_total_loop[OF root_shipped(2,3), of 0 in_sz "drop 1 inp" osz "[]"] assms by auto
  then show ?thesis using assms(1) True root_shipped(1) by (auto simp: zlib_decompress_def)
qed (use assms root_shipped in \<open>simp add: zlib_decompress_def\<close>)

text \<open>
  C36: Decompression is safe on every input: with the shipped tables, for any bytes a client sends and
  any number of bits that lies within them, \<open>zlib_decompress\<close> terminates without a jump outside its
  table and returns an error or a number of bytes that is the length of what it wrote, at most
  one byte for each bit and never more than the output buffer holds.
\<close>
theorem decompress_stays_in_bounds:
  assumes "inp \<noteq> []" "in_sz \<le> 8 * (length inp - 1)"
  shows "\<exists>r res. zlib_decompress shipped_jump inp in_sz osz = Some (r, res) \<and>
     (r = - 1 \<or> r = int (length res)) \<and> length res \<le> in_sz \<and> length res \<le> osz"
  by (rule decompress_total[OF assms])

theorem decompress_stays_in_bounds_witness:
  "\<exists>r res. zlib_decompress shipped_jump [1, 77, 88, 99] 24 2500 = Some (r, res) \<and> length res \<le> 24"
  using decompress_stays_in_bounds[of "[1, 77, 88, 99]" 24 2500] by fastforce

end
