(* ===== verification/Wire.thy ===== *)
theory Wire
  imports Blowfish ZlibTables
begin

text \<open>
  The two ends of an encrypted map packet in \<open>map_networking.cpp\<close>: \<open>send_parse\<close> from the
  compression of the collected small packets to the enciphered datagram, and the branch of
  \<open>recv_parse\<close> for packets of a known session, which deciphers with the current key or, while a
  zone change is pending, with the previous one, and decompresses.  Their composition is the
  contract the components below keep together: what one side puts in, the other gets out.
\<close>

section \<open>Sending\<close>

definition kMaxBufferSize :: nat where "kMaxBufferSize = 2500"

datatype framed = CompressError | Framed "uint8 list" nat

definition frame_packet :: "uint8 list \<Rightarrow> uint8 list \<Rightarrow> framed option" where
  "frame_packet data scratch =
     (case zlib_compress compress_dat data scratch kMaxBufferSize of
        None \<Rightarrow> None
      | Some (r, scratch) \<Rightarrow>
          if r = - 1 then Some CompressError
          else
            (let PacketSize = nat r; end = zlib_compressed_size PacketSize in
             if length scratch < end + 4 then None
             else Some (Framed (memcpy_at scratch end (PUT_UINT32 (of_nat PacketSize))) (end + 4))))"

definition send_packet :: "map_session \<Rightarrow> bool \<Rightarrow> uint8 list \<Rightarrow> uint8 list \<Rightarrow> uint8 list \<Rightarrow>
    (uint8 list \<times> nat) option" where
  "send_packet s usePreviousKey buff data scratch =
     (case frame_packet data scratch of
        Some (Framed scratch PacketSize) \<Rightarrow>
          send_sealed s usePreviousKey buff (take PacketSize scratch)
      | _ \<Rightarrow> None)"

section \<open>Receiving\<close>

definition decipher_either :: "map_session \<Rightarrow> uint8 list \<Rightarrow> nat \<Rightarrow> (uint8 list \<times> int) option" where
  "decipher_either s buff buffsize =
     (case map_decipher_packet buff buffsize (session_blowfish s) of
        None \<Rightarrow> None
      | Some (buff1, r) \<Rightarrow>
          if r = - 1 then
            (if bf_status (session_blowfish s) = BLOWFISH_PENDING_ZONE then
               (case map_decipher_packet buff buffsize (prev_blowfish s) of
                  None \<Rightarrow> None
                | Some (buff2, r2) \<Rightarrow>
                    if r2 \<noteq> - 1 then Some (memcpy_at buff1 0 (take buffsize buff2), 1)
                    else Some (buff1, - 1))
             else Some (buff1, - 1))
          else Some (buff1, 0))"

definition recv_encrypted :: "map_session \<Rightarrow> uint8 list \<Rightarrow> nat \<Rightarrow> (uint8 list \<times> nat \<times> int) option" where
  "recv_encrypted s buff buffsize =
     (case decipher_either s buff buffsize of
        None \<Rightarrow> None
      | Some (buff, decryptCount) \<Rightarrow>
          if decryptCount = - 1 then Some (buff, 0, - 1)
          else
            (let PacketDataSize = unat (GET_UINT32 buff (buffsize - 4 - 16)) in
             case zlib_decompress shipped_jump (drop FFXI_HEADER_SIZE buff) PacketDataSize kMaxBufferSize of
               None \<Rightarrow> None
             | Some (r, scratch) \<Rightarrow>
                 if r \<noteq> - 1 then
                   (if length buff < FFXI_HEADER_SIZE + nat r then None
                    else Some (memcpy_at buff FFXI_HEADER_SIZE (take (nat r) scratch),
                               FFXI_HEADER_SIZE + nat r, decryptCount))
                 else Some (buff, buffsize, decryptCount)))"

section \<open>What is sent is received\<close>

text \<open>The plain contents of a packet: the codes of the data behind a byte 1, and their number.\<close>

lemma framed_contents:
  assumes "length (codes compress_dat data) \<le> 19000" "length scratch = 2500"
  shows "\<exists>framed psize. frame_packet data scratch = Some (Framed framed psize) \<and>
     psize = zlib_compressed_size (length (codes compress_dat data) + 8) + 4 \<and>
     (\<exists>z. take psize framed = z @ PUT_UINT32 (of_nat (length (codes compress_dat data) + 8)) \<and>
        length z + 4 = psize \<and> z ! 0 = 1 \<and>
        (\<forall>k < length (codes compress_dat data). JMPBIT (drop 1 z) k = Some (codes compress_dat data ! k)))"
proof -
  let ?n = "length (codes compress_dat data)" and ?e = "zlib_compressed_size (length (codes compress_dat data) + 8)"
  obtain out' where out': "zlib_compress compress_dat data scratch kMaxBufferSize = Some (int (?n + 8), out')"
    "length out' = 2500" "out' ! 0 = 1"
    "\<forall>q. buffer_bit (drop 1 out') q = (if q < ?n then codes compress_dat data ! q
         else buffer_bit (drop 1 scratch) q)"
    using compress_loop_bits[of data compress_dat 0 kMaxBufferSize scratch "length data"]
      enc_len_le assms
    by (auto simp: zlib_compress_def kMaxBufferSize_def)
  have e: "0 < ?e" "?e < 2400" "?n \<le> 8 * (?e - 1)" using assms(1) by (simp_all add: zlib_compressed_size_def)
  have fr: "frame_packet data scratch = Some (Framed (memcpy_at out' ?e (PUT_UINT32 (of_nat (?n + 8)))) (?e + 4))"
    using out'(1,2) e by (simp add: frame_packet_def Let_def nat_add_distrib del: of_nat_add)
  have tk: "take (?e + 4) (memcpy_at out' ?e (PUT_UINT32 (of_nat (?n + 8))))
      = take ?e out' @ PUT_UINT32 (of_nat (?n + 8))"
    using out'(2) e by (simp add: memcpy_at_def)
  have "JMPBIT (drop 1 (take ?e out')) k = Some (codes compress_dat data ! k)" if k: "k < ?n" for k
  proof -
    have k8: "k div 8 < ?e - 1" using k e(3) by (simp add: less_mult_imp_div_less)
    then have "JMPBIT (drop 1 (take ?e out')) k = Some (buffer_bit (drop 1 out') k)"
      using out'(2) e by (simp add: JMPBIT_def buffer_bit_def)
    then show ?thesis using out'(4) k by simp
  qed
  then show ?thesis
    using fr tk out'(2,3) e by (intro exI[of _ "take ?e out'"] exI conjI) auto
qed

text \<open>Such contents decompress to the data, and to a few bytes more at most.\<close>

lemma contents_decompress:
  assumes "z ! 0 = 1" "z \<noteq> []" "length (codes compress_dat data) + 8 \<le> 8 * (length (z @ zs) - 1)"
    and "\<forall>k < length (codes compress_dat data). JMPBIT (drop 1 z) k = Some (codes compress_dat data ! k)"
    and "length data + 8 < osz"
  shows "\<exists>extra. zlib_decompress shipped_jump (z @ zs) (length (codes compress_dat data) + 8) osz
      = Some (int (length data + length extra), data @ extra) \<and> length extra \<le> 8"
proof -
  let ?n = "length (codes compress_dat data)" and ?d = "drop 1 (z @ zs)"
  have bits: "\<forall>k < ?n. JMPBIT ?d (0 + k) = Some (codes compress_dat data ! k)"
  proof (intro allI impI)
    fix k assume "k < ?n"
    with assms(4) have "JMPBIT (drop 1 z) k = Some (codes compress_dat data ! k)" by blast
    then show "JMPBIT ?d (0 + k) = Some (codes compress_dat data ! k)"
      using assms(2) by (auto simp: JMPBIT_def nth_append split: if_splits)
  qed
  have run: "zlib_decompress shipped_jump (z @ zs) (?n + 8) osz
      = zlib_decompress_loop shipped_jump ?d osz 8 ?n 1 data"
    using decompress_codes[OF shipped_tables root_shipped(1), of "[]" data osz ?d 0 8] bits assms(1,2,5)
      root_shipped(1)
    by (simp add: zlib_decompress_def nth_append)
  have room: "?n + 8 \<le> 8 * length ?d" using assms(3) by (simp only: length_drop)
  obtain r res where "zlib_decompress_loop shipped_jump ?d osz 8 ?n 1 data = Some (r, res)"
    "r = - 1 \<and> osz \<le> length res \<or> r = int (length res)" "length res \<le> length data + 8"
    using decompress_total_loop[OF root_shipped(2,3), of ?n 8 ?d osz data, OF room] by auto
  moreover from this(1) obtain extra where "res = data @ extra" using decompress_extends by blast
  ultimately show ?thesis using run assms(5) by auto
qed

text \<open>The opened packet: header, contents, declared length, digest.\<close>

lemma plain_packet:
  fixes w :: uint32
  assumes "length z + 4 = psize" "psize \<le> 2400" "length buff = 2500"
  defines "B \<equiv> memcpy_at buff 28 ((z @ PUT_UINT32 w) @ md5 (z @ PUT_UINT32 w))"
  shows "length B = 2500" "take 28 B = take 28 buff" "GET_UINT32 B (psize + 44 - 4 - 16) = w"
    and "drop FFXI_HEADER_SIZE B
      = z @ PUT_UINT32 w @ md5 (z @ PUT_UINT32 w) @ drop (28 + psize + 16) buff"
proof -
  let ?zs = "PUT_UINT32 w @ md5 (z @ PUT_UINT32 w) @ drop (28 + psize + 16) buff"
  have B: "B = take 28 buff @ z @ ?zs"
    unfolding B_def using assms(1)[symmetric] by (simp add: memcpy_at_def length_md5)
  have t28: "length (take 28 buff) = 28" using assms(3) by simp
  show "length B = 2500" unfolding B using assms(1-3) by (simp add: length_md5)
  show "take 28 B = take 28 buff" unfolding B using t28 by simp
  show "drop FFXI_HEADER_SIZE B = z @ ?zs" unfolding B using t28 by (simp add: FFXI_HEADER_SIZE_def)
  have "psize + 44 - 4 - 16 = length (take 28 buff @ z) + 0" using assms(1) t28 by simp
  then show "GET_UINT32 B (psize + 44 - 4 - 16) = w"
    unfolding B using GET_append[of "take 28 buff @ z" ?zs 0] GET_PUT by simp
qed

lemma memcpy_read:
  assumes "at \<le> length buf"
  shows "take at (memcpy_at buf at (a @ b)) = take at buf"
    "take (length a) (drop at (memcpy_at buf at (a @ b))) = a"
  using assms by (simp_all add: memcpy_at_def)

lemma recv_opened:
  assumes "map_decipher_packet pkt n (session_blowfish s) = Some (B, 0)"
    and "unat (GET_UINT32 B (n - 4 - 16)) = m"
    and "zlib_decompress shipped_jump (drop FFXI_HEADER_SIZE B) m kMaxBufferSize = Some (int k, res)"
    and "FFXI_HEADER_SIZE + k \<le> length B"
  shows "recv_encrypted s pkt n
    = Some (memcpy_at B FFXI_HEADER_SIZE (take k res), FFXI_HEADER_SIZE + k, 0)"
  using assms by (simp add: recv_encrypted_def decipher_either_def)

text \<open>
  C12: What the map server sends can be read back with the server's own receiving code: for any
  data whose codes fit a datagram, \<open>send_packet\<close> produces a packet, and \<open>recv_encrypted\<close> of a
  session that holds the sending key accepts it under its current key, leaves the header as it
  was, and puts the data behind it.  The declared length counts the eight bits of the first
  byte, so up to eight more bytes may follow the data.
\<close>
theorem wire_delivers:
  assumes "length data \<le> 2400" "length (codes compress_dat data) \<le> 19000"
    and "length buff = 2500" "length scratch = 2500"
    and "session_blowfish r = sending_key s use"
  shows "\<exists>pkt n buff' n'. send_packet s use buff data scratch = Some (pkt, n) \<and>
     recv_encrypted r pkt n = Some (buff', n', 0) \<and>
     take 28 buff' = take 28 buff \<and> take (length data) (drop 28 buff') = data \<and>
     28 + length data \<le> n' \<and> n' \<le> 28 + length data + 8"
proof -
  let ?n = "length (codes compress_dat data)"
  obtain framed psize z where fr: "frame_packet data scratch = Some (Framed framed psize)"
    "psize = zlib_compressed_size (?n + 8) + 4" and d: "take psize framed = z @ PUT_UINT32 (of_nat (?n + 8))"
    and z: "length z + 4 = psize" "z ! 0 = 1"
      "\<forall>k < ?n. JMPBIT (drop 1 z) k = Some (codes compress_dat data ! k)"
    using framed_contents[OF assms(2,4)] by blast
  have sz: "psize \<le> 2400" "?n + 8 \<le> 8 * (psize - 4)" "0 < length z"
    using fr(2) z(1) assms(2) by (simp_all add: zlib_compressed_size_def)
  let ?D = "z @ PUT_UINT32 (of_nat (?n + 8))"
  have lD: "length ?D = psize" using z(1) by simp
  obtain pkt n where sent: "send_sealed s use buff ?D = Some (pkt, n)"
    using send_fits[of ?D buff s use] lD sz assms(3) by auto
  let ?B = "memcpy_at buff 28 (?D @ md5 ?D)"
  have opened: "map_decipher_packet pkt n (session_blowfish r) = Some (?B, 0)"
    using sealed_opens[OF _ _ sent] lD sz assms(3,5) by simp
  have n: "n = psize + 44" using sent lD by (auto simp: send_sealed_def FFXI_HEADER_SIZE_def Let_def split: if_splits)
  let ?zs = "PUT_UINT32 (of_nat (?n + 8)) @ md5 ?D @ drop (28 + psize + 16) buff"
  note plain = plain_packet[OF z(1) sz(1) assms(3), of "of_nat (?n + 8)"]
  have "?n + 8 < 2 ^ 32" using assms(2) by simp
  then have decl: "unat (GET_UINT32 ?B (n - 4 - 16)) = ?n + 8"
    unfolding n plain(3) by (simp only: unat_of_nat mod_less len_num1 len_bit0 len_bit1) simp
  have "?n + 8 \<le> 8 * (length (z @ ?zs) - 1)" using sz z(1) by (simp add: length_md5)
  then obtain extra where dec: "zlib_decompress shipped_jump (z @ ?zs) (?n + 8) kMaxBufferSize
      = Some (int (length data + length extra), data @ extra)" "length extra \<le> 8"
    using contents_decompress[of z data ?zs kMaxBufferSize] z sz assms(1) by (auto simp: kMaxBufferSize_def)
  let ?R = "memcpy_at ?B 28 (data @ extra)"
  have dec': "zlib_decompress shipped_jump (drop FFXI_HEADER_SIZE ?B) (?n + 8) kMaxBufferSize
      = Some (int (length data + length extra), data @ extra)"
    unfolding plain(4) by (rule dec(1))
  have "FFXI_HEADER_SIZE + (length data + length extra) \<le> length ?B"
    unfolding plain(1) using dec(2) assms(1) by (simp add: FFXI_HEADER_SIZE_def)
  from recv_opened[OF opened decl dec' this]
  have "recv_encrypted r pkt n = Some (?R, 28 + (length data + length extra), 0)"
    by (simp add: FFXI_HEADER_SIZE_def)
  moreover have "take 28 ?R = take 28 buff" "take (length data) (drop 28 ?R) = data"
    using memcpy_read[of 28 ?B data extra] unfolding plain(1,2) by simp_all
  moreover have "send_packet s use buff data scratch = Some (pkt, n)"
    using fr(1) d sent by (simp add: send_packet_def)
  ultimately show ?thesis using dec(2) by (intro exI conjI) auto
qed

theorem wire_delivers_witness:
  "\<exists>pkt n buff' n'. send_packet plain_session False (replicate 2500 0) [1, 2, 3] (replicate 2500 0) = Some (pkt, n) \<and>
     recv_encrypted plain_session pkt n = Some (buff', n', 0) \<and> take 3 (drop 28 buff') = [1, 2, 3]"
proof -
  have "enc_len compress_dat 1 \<le> 32" "enc_len compress_dat 2 \<le> 32" "enc_len compress_dat 3 \<le> 32"
    by (rule enc_len_le)+
  then have "length (codes compress_dat [1, 2, 3]) \<le> 19000" by simp
  moreover have "session_blowfish plain_session = sending_key plain_session False"
    by (simp add: sending_key_def)
  moreover define b :: "uint8 list" where "b = replicate 2500 0"
  moreover have lb: "length b = 2500" by (simp add: b_def)
  ultimately obtain pkt n buff' n' where
    "send_packet plain_session False b [1, 2, 3] b = Some (pkt, n)"
    "recv_encrypted plain_session pkt n = Some (buff', n', 0)"
    "take (length [1, 2, 3 :: uint8]) (drop 28 buff') = [1, 2, 3]"
    using wire_delivers[of "[1, 2, 3]" b b plain_session plain_session False] by auto
  then show ?thesis unfolding b_def by (intro exI conjI) (simp_all add: eval_nat_numeral)
qed

end
