(* ===== verification/Float32.thy ===== *)
theory Float32
  imports Prelude Complex_Main
begin

text \<open>
  The arithmetic of the C++ types \<open>float\<close> and \<open>double\<close> that the combat code uses: IEEE arithmetic
  with rounding to nearest, ties to even.  A value is the rational number it denotes, and an
  operation is the exact operation followed by the rounding \<open>f32\<close> to 24 significant bits, or
  \<open>f64\<close> to 53.  Infinities, NaN,
  negative zero and subnormal numbers are not represented; the values of the code stay in the
  normal range, which the lemmas on its size bound.
\<close>

section \<open>Rounding\<close>

fun bit_length :: "nat \<Rightarrow> nat" where
  "bit_length n = (if n = 0 then 0 else Suc (bit_length (n div 2)))"

declare bit_length.simps [simp del]

definition ilog2 :: "rat \<Rightarrow> int" where
  "ilog2 x =
     (if 1 \<le> x then int (bit_length (nat \<lfloor>x\<rfloor>)) - 1
      else - int (bit_length (nat (\<lceil>1 / x\<rceil> - 1))))"

definition round_even :: "rat \<Rightarrow> int" where
  "round_even x =
     (let f = \<lfloor>x\<rfloor>; d = x - of_int f in
      if d < 1 / 2 then f else if 1 / 2 < d then f + 1 else if even f then f else f + 1)"

definition pow2 :: "int \<Rightarrow> rat" where
  "pow2 e = (if 0 \<le> e then 2 ^ nat e else 1 / 2 ^ nat (- e))"

definition fround :: "nat \<Rightarrow> rat \<Rightarrow> rat" where
  "fround p x =
     (if x = 0 then 0
      else (let e = ilog2 \<bar>x\<bar> - int p + 1 in of_int (round_even (x / pow2 e)) * pow2 e))"

definition f32 :: "rat \<Rightarrow> rat" where
  "f32 = fround 24"

definition f64 :: "rat \<Rightarrow> rat" where
  "f64 = fround 53"

text \<open>Conversion to \<open>int32\<close> truncates towards zero and is undefined outside the range.\<close>

definition trunc :: "rat \<Rightarrow> int" where
  "trunc x = (if 0 \<le> x then \<lfloor>x\<rfloor> else \<lceil>x\<rceil>)"

definition to_int32 :: "rat \<Rightarrow> int option" where
  "to_int32 x = (if - (2 ^ 31) \<le> trunc x \<and> trunc x < 2 ^ 31 then Some (trunc x) else None)"

section \<open>The rounding error\<close>

lemma bit_length_0 [simp]: "bit_length 0 = 0"
  by (simp add: bit_length.simps)

lemma bit_length_bounds: "0 < n \<Longrightarrow> 2 ^ (bit_length n - 1) \<le> n \<and> n < 2 ^ bit_length n"
proof (induction n rule: bit_length.induct)
  case (1 n)
  show ?case
  proof (cases "n = 1")
    case True
    then show ?thesis by (simp add: bit_length.simps)
  next
    case False
    with 1 have "0 < n div 2" by (simp add: div_greater_zero_iff)
    with 1 have ih: "2 ^ (bit_length (n div 2) - 1) \<le> n div 2" "n div 2 < 2 ^ bit_length (n div 2)" by auto
    have b: "bit_length n = Suc (bit_length (n div 2))" using 1(2) by (simp add: bit_length.simps)
    have pos: "0 < bit_length (n div 2)" using \<open>0 < n div 2\<close> by (subst bit_length.simps) simp
    then have "(2::nat) ^ bit_length (n div 2) = 2 * 2 ^ (bit_length (n div 2) - 1)"
      by (cases "bit_length (n div 2)") auto
    have d: "2 * (n div 2) \<le> n" "n < 2 * (n div 2) + 2" by presburger+
    have "2 * 2 ^ (bit_length (n div 2) - 1) \<le> 2 * (n div 2)" using ih by (intro mult_left_mono) simp_all
    moreover have "2 * (n div 2) + 2 \<le> 2 * 2 ^ bit_length (n div 2)"
      using ih(2) Suc_leI[of "n div 2"] by linarith
    ultimately show ?thesis using d b \<open>2 ^ bit_length (n div 2) = 2 * 2 ^ (bit_length (n div 2) - 1)\<close>
      by (simp only: diff_Suc_1 power_Suc) linarith
  qed
qed

lemma pow2_pos [simp]: "0 < pow2 e"
  by (simp add: pow2_def)

lemma pow2_nz [simp]: "pow2 e \<noteq> 0"
  using pow2_pos[of e] by linarith

lemma pow2_powi: "pow2 e = 2 powi e"
  by (simp add: pow2_def power_int_def power_one_over inverse_eq_divide)

lemma pow2_diff: "pow2 (e - int p + 1) = 2 * pow2 e / 2 ^ p"
proof -
  have "2 powi (e - int p + 1) = (2 :: rat) powi (e - int p) * 2 powi 1"
    by (rule power_int_add) simp
  moreover have "(2 :: rat) powi (e - int p) = 2 powi e / 2 powi int p"
    by (rule power_int_diff) simp
  ultimately show ?thesis by (simp add: pow2_powi)
qed

lemma ilog2_le:
  assumes "0 < x"
  shows "pow2 (ilog2 x) \<le> x"
proof (cases "1 \<le> x")
  case True
  let ?n = "nat \<lfloor>x\<rfloor>"
  have n: "0 < ?n" using True by (simp add: le_floor_iff)
  have "bit_length ?n = Suc (bit_length (?n div 2))" using n by (subst bit_length.simps) simp
  then have "pow2 (ilog2 x) = 2 ^ (bit_length ?n - 1)" using True by (simp add: ilog2_def pow2_def)
  also have "\<dots> \<le> of_nat ?n"
    using bit_length_bounds[OF n] by (metis of_nat_le_iff of_nat_numeral of_nat_power)
  also have "\<dots> \<le> x" using assms by simp
  finally show ?thesis .
next
  case False
  let ?n = "nat (\<lceil>1 / x\<rceil> - 1)"
  have "1 < 1 / x" using assms False by simp
  then have c: "1 < \<lceil>1 / x\<rceil>" by linarith
  then have n: "0 < ?n" by simp
  have "1 / x \<le> of_int \<lceil>1 / x\<rceil>" by simp
  also have "\<dots> = of_nat ?n + 1"
  proof -
    have "\<lceil>1 / x\<rceil> = int ?n + 1" using c by linarith
    then show ?thesis by (metis of_int_1 of_int_add of_int_of_nat_eq)
  qed
  also have "\<dots> \<le> 2 ^ bit_length ?n"
    using bit_length_bounds[OF n] by (metis Suc_leI of_nat_Suc of_nat_le_iff of_nat_numeral of_nat_power add.commute)
  finally have "1 / 2 ^ bit_length ?n \<le> x" using assms by (simp add: field_simps)
  moreover have "0 < bit_length ?n" using n by (subst bit_length.simps) simp
  ultimately show ?thesis using False by (simp add: ilog2_def pow2_def)
qed

lemma round_even_error: "\<bar>of_int (round_even x) - x\<bar> \<le> 1 / 2"
proof -
  have "of_int \<lfloor>x\<rfloor> \<le> x" "x < of_int \<lfloor>x\<rfloor> + 1" by linarith+
  then show ?thesis by (auto simp: round_even_def Let_def)
qed

lemma fround_error: "\<bar>fround p x - x\<bar> \<le> \<bar>x\<bar> / 2 ^ p"
proof (cases "x = 0")
  case False
  let ?e = "ilog2 \<bar>x\<bar> - int p + 1"
  have "fround p x - x = (of_int (round_even (x / pow2 ?e)) - x / pow2 ?e) * pow2 ?e"
    using False by (simp add: fround_def Let_def algebra_simps)
  then have "\<bar>fround p x - x\<bar> = \<bar>of_int (round_even (x / pow2 ?e)) - x / pow2 ?e\<bar> * pow2 ?e"
    using pow2_pos[of ?e] by (simp only: abs_mult abs_of_pos)
  then have "\<bar>fround p x - x\<bar> \<le> 1 / 2 * pow2 ?e"
    using mult_right_mono[OF round_even_error[of "x / pow2 ?e"], of "pow2 ?e"] pow2_pos[of ?e] by linarith
  also have "\<dots> = pow2 (ilog2 \<bar>x\<bar>) / 2 ^ p" by (simp add: pow2_diff)
  also have "\<dots> \<le> \<bar>x\<bar> / 2 ^ p" using ilog2_le[of "\<bar>x\<bar>"] False by (intro divide_right_mono) simp_all
  finally show ?thesis .
qed (simp add: fround_def)

lemma f32_error: "\<bar>f32 x - x\<bar> \<le> \<bar>x\<bar> / 2 ^ 24"
  unfolding f32_def by (rule fround_error)

lemma f32_nonneg: "0 \<le> x \<Longrightarrow> 0 \<le> f32 x"
proof -
  assume x: "0 \<le> x"
  have "\<bar>f32 x - x\<bar> \<le> x" using f32_error[of x] x by (simp add: field_simps)
  then show ?thesis by linarith
qed

lemma f32_0 [simp]: "f32 0 = 0"
  by (simp add: f32_def fround_def)

lemma f32_le: "0 \<le> x \<Longrightarrow> x \<le> b \<Longrightarrow> f32 x \<le> b + b / 2 ^ 24"
proof -
  assume "0 \<le> x" "x \<le> b"
  moreover from this have "x / 2 ^ 24 \<le> b / 2 ^ 24" by (intro divide_right_mono) simp_all
  moreover have "f32 x \<le> x + \<bar>x\<bar> / 2 ^ 24" using f32_error[of x] by linarith
  ultimately show ?thesis by linarith
qed

lemma f32_abs_le: "\<bar>f32 x\<bar> \<le> 2 * \<bar>x\<bar>"
proof -
  have "\<bar>x\<bar> / 2 ^ 24 \<le> \<bar>x\<bar>" by simp
  then show ?thesis using f32_error[of x] by linarith
qed

lemma to_int32_Some: "\<bar>x\<bar> \<le> 2 ^ 30 \<Longrightarrow> to_int32 x = Some (trunc x)"
  by (auto simp: to_int32_def trunc_def abs_le_iff le_floor_iff floor_less_iff ceiling_less_iff
      le_ceiling_iff)

lemma trunc_nonneg: "0 \<le> x \<Longrightarrow> 0 \<le> trunc x"
  by (simp add: trunc_def)

lemma trunc_le: "0 \<le> x \<Longrightarrow> x < of_int b + 1 \<Longrightarrow> trunc x \<le> b"
  by (simp add: trunc_def) linarith


lemma f64_error: "\<bar>f64 x - x\<bar> \<le> \<bar>x\<bar> / 2 ^ 53"
  unfolding f64_def by (rule fround_error)

lemma f64_nonneg: "0 \<le> x \<Longrightarrow> 0 \<le> f64 x"
proof -
  assume x: "0 \<le> x"
  have "\<bar>f64 x - x\<bar> \<le> x" using f64_error[of x] x by (simp add: field_simps)
  then show ?thesis by linarith
qed

lemma f64_ge: "0 \<le> b \<Longrightarrow> b \<le> x \<Longrightarrow> b - b / 2 ^ 53 \<le> f64 x"
proof -
  assume b: "0 \<le> b" "b \<le> x"
  then have "x - x / 2 ^ 53 \<le> f64 x" using f64_error[of x] by linarith
  moreover have "b * (1 - 1 / 2 ^ 53) \<le> x * (1 - 1 / 2 ^ 53)" using b by (intro mult_right_mono) simp_all
  ultimately show ?thesis by (simp add: algebra_simps)
qed

lemma trunc_ge: "of_int b \<le> x \<Longrightarrow> 0 \<le> x \<Longrightarrow> b \<le> trunc x"
  by (simp add: trunc_def le_floor_iff)

lemma trunc_abs_le: "\<bar>x\<bar> \<le> of_int b \<Longrightarrow> \<bar>trunc x\<bar> \<le> b"
  by (auto simp: trunc_def abs_le_iff le_floor_iff floor_le_iff ceiling_le_iff le_ceiling_iff) linarith+


text \<open>An integer of at most 24 bits is a float.\<close>

lemma round_even_of_int [simp]: "round_even (of_int z) = z"
  by (simp add: round_even_def)

lemma f32_of_int:
  assumes "\<bar>n\<bar> < 2 ^ 24"
  shows "f32 (of_int n) = of_int n"
proof (cases "n = 0")
  case False
  let ?x = "\<bar>of_int n\<bar> :: rat"
  define k where "k = nat (23 - ilog2 ?x)"
  have x1: "1 \<le> ?x" using False by simp
  have "pow2 (ilog2 ?x) \<le> ?x" using x1 by (intro ilog2_le) linarith
  also have "\<dots> < 2 ^ 24" using assms by (metis of_int_abs of_int_less_iff of_int_numeral of_int_power)
  finally have "pow2 (ilog2 ?x) < 2 ^ 24" .
  moreover have "2 ^ 24 \<le> pow2 i" if "24 \<le> i" for i
  proof -
    have "(2 :: rat) ^ 24 \<le> 2 ^ nat i" using that by (intro power_increasing) simp_all
    then show ?thesis using that by (simp add: pow2_def)
  qed
  ultimately have "ilog2 ?x < 24" by (meson linorder_not_le order_less_le_trans)
  then have e: "ilog2 ?x - 24 + 1 = - int k" by (simp add: k_def)
  have "f32 (of_int n) = of_int (round_even (of_int n / pow2 (- int k))) * pow2 (- int k)"
    using False e by (simp add: f32_def fround_def Let_def)
  also have "of_int n / pow2 (- int k) = (of_int (n * 2 ^ k) :: rat)"
    by (simp add: pow2_powi power_int_minus divide_inverse)
  also have "pow2 (- int k) = 1 / 2 ^ k" by (simp add: pow2_powi power_int_minus divide_inverse)
  finally show ?thesis by (simp only: round_even_of_int) simp
qed simp

end
