(* ===== verification/Enmity.thy ===== *)
theory Enmity
  imports Float32 "HOL-Library.AList" "HOL-Library.Monad_Syntax"
begin

text \<open>
  \<open>src/map/enmity_container.cpp\<close> and \<open>src/map/notoriety_container.cpp\<close>: the hate list of a mob and
  the reverse list of the mobs that hate an entity.  A \<open>hate_world\<close> holds the entities by address, with
  the attributes these files read, the mutable part of every mob and every notoriety set.  A hash
  table is an association list with distinct keys whose order stands for the unspecified iteration
  order, so a lemma for every list is a lemma for every order.  An operation returns \<open>None\<close> where
  the code has undefined behaviour (a signed overflow, a division by zero, a float out of the range
  of the integer it is converted to).
\<close>

section \<open>Entities, hate lists, notoriety\<close>

type_synonym ptr = nat

datatype ENTITYTYPE =
  TYPE_NONE | TYPE_PC | TYPE_NPC | TYPE_MOB | TYPE_PET | TYPE_SHIP | TYPE_TRUST | TYPE_FELLOW

datatype mod_id =
  ENMITY | SAVAGE_BLADE_ENMITY | TREASURE_HUNTER | GILFINDER | ENMITY_LOSS_REDUCTION

datatype merit_id = MERIT_ENMITY_INCREASE | MERIT_ENMITY_DECREASE | MERIT_BLOOD_DISCIPLINE

record position =
  pos_x :: rat
  pos_y :: rat
  pos_z :: rat

record ent =
  id :: uint32
  targid :: uint16
  objtype :: ENTITYTYPE
  is_mob_class :: bool
  getZone :: uint16
  PInstance :: "ptr option"
  allegiance :: uint8
  isDead :: bool
  loc_p :: position
  PMaster :: "ptr option"
  is_thief :: bool
  GetMLevel :: nat
  GetMaxHP :: int
  m_battleTarget :: uint16
  getMod :: "mod_id \<Rightarrow> int"
  GetMeritValue :: "merit_id \<Rightarrow> int"
  has_souleater :: bool
  has_tranquil_heart :: bool
  healing_skill :: nat

record EnmityObject_t =
  PEnmityOwner :: "ptr option"
  CE :: int
  VE :: int
  active :: bool

type_synonym EnmityList_t = "(uint32 \<times> EnmityObject_t) list"

record mob =
  EnmityCap :: int
  m_EnmityList :: EnmityList_t
  m_tameable :: bool
  is_notorious :: bool
  m_THLvl :: int
  m_GilfinderLevel :: int
  m_HiPCLvl :: nat

record hate_world =
  ents :: "ptr \<Rightarrow> ent"
  mobs :: "ptr \<Rightarrow> mob"
  m_Lookup :: "ptr \<Rightarrow> ptr set"
  GetChar :: "uint32 \<Rightarrow> ptr option"

definition upd_mob :: "ptr \<Rightarrow> (mob \<Rightarrow> mob) \<Rightarrow> hate_world \<Rightarrow> hate_world" where
  "upd_mob h f w = w\<lparr>mobs := (mobs w)(h := f (mobs w h))\<rparr>"

definition upd_list :: "ptr \<Rightarrow> (EnmityList_t \<Rightarrow> EnmityList_t) \<Rightarrow> hate_world \<Rightarrow> hate_world" where
  "upd_list h f = upd_mob h (\<lambda>m. m\<lparr>m_EnmityList := f (m_EnmityList m)\<rparr>)"

definition elist :: "hate_world \<Rightarrow> ptr \<Rightarrow> EnmityList_t" where
  "elist w h = m_EnmityList (mobs w h)"

definition cap :: "hate_world \<Rightarrow> ptr \<Rightarrow> int" where
  "cap w h = EnmityCap (mobs w h)"

definition emplace :: "uint32 \<Rightarrow> EnmityObject_t \<Rightarrow> EnmityList_t \<Rightarrow> EnmityList_t" where
  "emplace k e xs = (if map_of xs k = None then xs @ [(k, e)] else xs)"

definition add32 :: "int \<Rightarrow> int \<Rightarrow> int option" where
  "add32 a b = (if - (2 ^ 31) \<le> a + b \<and> a + b < 2 ^ 31 then Some (a + b) else None)"

section \<open>Notoriety\<close>

definition noto_add :: "ptr \<Rightarrow> ptr \<Rightarrow> hate_world \<Rightarrow> hate_world" where
  "noto_add p h w =
     (if allegiance (ents w h) \<noteq> allegiance (ents w p)
      then w\<lparr>m_Lookup := (m_Lookup w)(p := insert h (m_Lookup w p))\<rparr> else w)"

definition noto_remove :: "ptr \<Rightarrow> ptr \<Rightarrow> hate_world \<Rightarrow> hate_world" where
  "noto_remove p h w = w\<lparr>m_Lookup := (m_Lookup w)(p := m_Lookup w p - {h})\<rparr>"

definition stale :: "hate_world \<Rightarrow> ptr \<Rightarrow> ptr \<Rightarrow> bool" where
  "stale w p entry =
     (is_mob_class (ents w entry) \<and>
      (let notOnEnmityList = map_of (elist w entry) (ucast (ucast (id (ents w p)) :: uint16)) = None in
       (\<not> isDead (ents w entry) \<and> notOnEnmityList) \<or> isDead (ents w entry)))"

definition noto_hasEnmity :: "ptr \<Rightarrow> hate_world \<Rightarrow> bool \<times> hate_world" where
  "noto_hasEnmity p w =
     (let w' = w\<lparr>m_Lookup := (m_Lookup w)(p := Set.filter (\<lambda>e. \<not> stale w p e) (m_Lookup w p))\<rparr>
      in (m_Lookup w' p \<noteq> {}, w'))"

section \<open>The hate list\<close>

definition square :: "rat \<Rightarrow> rat" where
  "square d = f32 (d * d)"

definition distanceSquared :: "position \<Rightarrow> position \<Rightarrow> rat" where
  "distanceSquared a b =
     (let dX = f32 (pos_x a - pos_x b); dY = f32 (pos_y a - pos_y b); dZ = f32 (pos_z a - pos_z b)
      in f32 (f32 (f32 (dX * dX) + f32 (dY * dY)) + f32 (dZ * dZ)))"

definition isWithinDistance :: "position \<Rightarrow> position \<Rightarrow> rat \<Rightarrow> bool" where
  "isWithinDistance a b reach \<longleftrightarrow> distanceSquared a b \<le> square reach"

definition IsWithinEnmityRange :: "hate_world \<Rightarrow> ptr \<Rightarrow> ptr \<Rightarrow> bool" where
  "IsWithinEnmityRange w h p =
     (if getZone (ents w p) \<noteq> getZone (ents w h) then False
      else isWithinDistance (loc_p (ents w h)) (loc_p (ents w p))
             (if is_notorious (mobs w h) then 28 else 25))"

primrec clear_owners :: "ptr \<Rightarrow> EnmityList_t \<Rightarrow> hate_world \<Rightarrow> hate_world" where
  "clear_owners h [] w = w"
| "clear_owners h (x # xs) w =
     clear_owners h xs (case PEnmityOwner (snd x) of Some p \<Rightarrow> noto_remove p h w | None \<Rightarrow> w)"

definition Clear_enmity :: "ptr \<Rightarrow> uint32 \<Rightarrow> hate_world \<Rightarrow> hate_world" where
  "Clear_enmity h EntityID w =
     (if EntityID = 0 then upd_list h (\<lambda>_. []) (clear_owners h (elist w h) w)
      else
        let w1 = (case map_of (elist w h) EntityID of
                    Some e \<Rightarrow> (case PEnmityOwner e of Some p \<Rightarrow> noto_remove p h w | None \<Rightarrow> w)
                  | None \<Rightarrow> w)
        in upd_mob h (\<lambda>m. m\<lparr>m_tameable := True\<rparr>) (upd_list h (AList.delete EntityID) w1))"

definition LogoutReset :: "ptr \<Rightarrow> uint32 \<Rightarrow> hate_world \<Rightarrow> hate_world" where
  "LogoutReset h EntityID = upd_list h (AList.map_entry EntityID (\<lambda>e. e\<lparr>PEnmityOwner := None\<rparr>))"

definition SetActive :: "ptr \<Rightarrow> uint32 \<Rightarrow> bool \<Rightarrow> hate_world \<Rightarrow> hate_world" where
  "SetActive h EntityID act = upd_list h (AList.map_entry EntityID (\<lambda>e. e\<lparr>active := act\<rparr>))"

definition AddBaseEnmity :: "ptr \<Rightarrow> ptr \<Rightarrow> hate_world \<Rightarrow> hate_world" where
  "AddBaseEnmity h p w =
     (if getZone (ents w p) \<noteq> getZone (ents w h) then w
      else noto_add p h
        (upd_list h (emplace (id (ents w p)) \<lparr>PEnmityOwner = Some p, CE = 0, VE = 0, active = True\<rparr>) w))"

definition CalculateEnmityBonus :: "ent \<Rightarrow> rat" where
  "CalculateEnmityBonus p =
     (let enmityBonus = getMod p ENMITY * 2;
          enmityBonus =
            (if objtype p = TYPE_PC
             then let b = enmityBonus + (GetMeritValue p MERIT_ENMITY_INCREASE
                                         - GetMeritValue p MERIT_ENMITY_DECREASE)
                  in if has_souleater p then b - GetMeritValue p MERIT_BLOOD_DISCIPLINE else b
             else enmityBonus);
          bonus = f32 ((100 + of_int (clamp enmityBonus (-50) 200)) / 100)
      in if 0 < getMod p SAVAGE_BLADE_ENMITY then f32 (bonus * (5 / 4)) else bonus)"

definition apply_hunter_levels :: "ptr \<Rightarrow> ptr \<Rightarrow> hate_world \<Rightarrow> hate_world" where
  "apply_hunter_levels h p w =
     (let e = ents w p;
          THlevel = (if is_thief e then min 8 (getMod e TREASURE_HUNTER)
                     else min 4 (getMod e TREASURE_HUNTER));
          GFlevel = getMod e GILFINDER
      in upd_mob h (\<lambda>m. m\<lparr>m_THLvl := (if m_THLvl m < THlevel then THlevel else m_THLvl m),
                          m_GilfinderLevel := (if m_GilfinderLevel m < GFlevel then GFlevel
                                               else m_GilfinderLevel m)\<rparr>) w)"

text \<open>The value of a hate component after adding an amount that the bonus raises when positive.\<close>

definition scaled :: "rat \<Rightarrow> int \<Rightarrow> int \<Rightarrow> int option" where
  "scaled bonus old amount =
     to_int32 (f32 (f32 (of_int old) +
       (if 0 < amount then f32 (f32 (of_int amount) * bonus) else f32 (of_int amount))))"

definition update_listed ::
  "ptr \<Rightarrow> ptr \<Rightarrow> int \<Rightarrow> int \<Rightarrow> EnmityObject_t \<Rightarrow> hate_world \<Rightarrow> hate_world option" where
  "update_listed h p ce ve e w = do {
     let bonus = CalculateEnmityBonus (ents w p);
     newCE \<leftarrow> scaled bonus (CE e) ce;
     newVE \<leftarrow> scaled bonus (VE e) ve;
     Some (upd_list h (AList.update (id (ents w p))
       \<lparr>PEnmityOwner = (case PEnmityOwner e of None \<Rightarrow> Some p | Some q \<Rightarrow> Some q),
        CE = clamp newCE 0 (cap w h), VE = clamp newVE 0 (cap w h),
        active = (if 0 \<le> ce \<and> 0 \<le> ve then True else active e)\<rparr>) w)
   }"

definition add_master :: "ptr \<Rightarrow> ptr \<Rightarrow> bool \<Rightarrow> hate_world \<Rightarrow> hate_world" where
  "add_master h p withMaster w =
     (case PMaster (ents w p) of
        None \<Rightarrow> w
      | Some q \<Rightarrow>
          if withMaster \<and> (objtype (ents w p) = TYPE_PET \<or>
               (objtype (ents w p) = TYPE_MOB \<and> objtype (ents w q) = TYPE_PC))
          then AddBaseEnmity h q w else w)"

definition update_new ::
  "ptr \<Rightarrow> ptr \<Rightarrow> int \<Rightarrow> int \<Rightarrow> bool \<Rightarrow> hate_world \<Rightarrow> hate_world option" where
  "update_new h p ce ve withMaster w = do {
     let initial = (\<not> (\<exists>x \<in> set (elist w h). active (snd x)));
     ce \<leftarrow> (if initial then add32 ce 200 else Some ce);
     ve \<leftarrow> (if initial then add32 ve 900 else Some ve);
     let bonus = CalculateEnmityBonus (ents w p);
     newCE \<leftarrow> to_int32 (f32 (f32 (of_int ce) * bonus));
     newVE \<leftarrow> to_int32 (f32 (f32 (of_int ve) * bonus));
     Some (add_master h p withMaster (noto_add p h (upd_list h (emplace (id (ents w p))
       \<lparr>PEnmityOwner = Some p, CE = clamp newCE 0 (cap w h), VE = clamp newVE 0 (cap w h),
        active = True\<rparr>) w)))
   }"

definition UpdateEnmity ::
  "ptr \<Rightarrow> ptr \<Rightarrow> int \<Rightarrow> int \<Rightarrow> bool \<Rightarrow> bool \<Rightarrow> bool \<Rightarrow> hate_world \<Rightarrow> hate_world option" where
  "UpdateEnmity h p ce ve withMaster tameable directAction w =
     (if objtype (ents w h) \<noteq> TYPE_MOB then Some w
      else do {
        let near = IsWithinEnmityRange w h p;
        let ce = (if near then ce else 0);
        let ve = (if near then ve else 0);
        let w1 = (if directAction then apply_hunter_levels h p w else w);
        w2 \<leftarrow> (case map_of (elist w1 h) (id (ents w1 p)) of
                 Some e \<Rightarrow> update_listed h p ce ve e w1
               | None \<Rightarrow> if 0 \<le> ce \<and> 0 \<le> ve then update_new h p ce ve withMaster w1 else Some w1);
        Some (if tameable then w2 else upd_mob h (\<lambda>m. m\<lparr>m_tameable := False\<rparr>) w2)
      })"

definition HasID :: "hate_world \<Rightarrow> ptr \<Rightarrow> uint32 \<Rightarrow> bool" where
  "HasID w h TargetID \<longleftrightarrow> (\<exists>x \<in> set (elist w h). fst x = TargetID)"

definition GetEnmityModDamage :: "int \<Rightarrow> int" where
  "GetEnmityModDamage level = level * 31 div 50 + 6"

definition GetEnmityModCure :: "int \<Rightarrow> int" where
  "GetEnmityModCure level =
     (if level \<le> 10 then level + 10
      else if level \<le> 50 then 20 + (level - 10) div 2
      else trunc (f64 (40 + f64 (of_int (level - 50) * f64 (3 / 5)))))"

definition HandleTranquilHeart :: "ent \<Rightarrow> rat" where
  "HandleTranquilHeart p =
     (if objtype p = TYPE_PC \<and> has_tranquil_heart p
      then let reduction = f32 (f32 (of_nat (healing_skill p) / 10) * (1 / 2));
               reduction = (if 25 < reduction then 25 else reduction)
           in f32 (reduction / 100)
      else 0)"

definition cure_amounts :: "ent \<Rightarrow> nat \<Rightarrow> int \<Rightarrow> int \<Rightarrow> int \<Rightarrow> (int \<times> int) option" where
  "cure_amounts p level CureAmount fixedCE fixedVE =
     (let bonus = CalculateEnmityBonus p;
          reduction = f32 (1 - HandleTranquilHeart p);
          fixed = (\<lambda>a. to_int32 (f32 (f32 (f32 (of_int a) * bonus) * reduction)));
          amount = (if CureAmount < 1 then 1 else CureAmount);
          perCure = (\<lambda>c. to_int32 (f32 (f32 (f32 (f32 (c / of_int (GetEnmityModCure (int level)))
                       * f32 (of_int amount)) * bonus) * reduction)))
      in if 0 < fixedCE \<or> 0 < fixedVE
         then do { ce \<leftarrow> fixed fixedCE; ve \<leftarrow> fixed fixedVE; Some (ce, ve) }
         else do { ce \<leftarrow> perCure 40; ve \<leftarrow> perCure 240; Some (ce, ve) })"

definition UpdateEnmityFromCure ::
  "ptr \<Rightarrow> ptr \<Rightarrow> nat \<Rightarrow> int \<Rightarrow> int \<Rightarrow> int \<Rightarrow> hate_world \<Rightarrow> hate_world option" where
  "UpdateEnmityFromCure h p level CureAmount fixedCE fixedVE w =
     (if \<not> IsWithinEnmityRange w h p then Some w
      else do {
        (ce, ve) \<leftarrow> cure_amounts (ents w p) level CureAmount fixedCE fixedVE;
        case map_of (elist w h) (id (ents w p)) of
          Some e \<Rightarrow> do {
            ce \<leftarrow> add32 (CE e) ce;
            ve \<leftarrow> add32 (VE e) ve;
            Some (upd_list h (AList.update (id (ents w p))
              (e\<lparr>CE := clamp ce 0 (cap w h), VE := clamp ve 0 (cap w h), active := True\<rparr>)) w)
          }
        | None \<Rightarrow>
            Some (noto_add p h (upd_list h (emplace (id (ents w p))
              \<lparr>PEnmityOwner = Some p, CE = clamp ce 0 (cap w h), VE = clamp ve 0 (cap w h),
               active = True\<rparr>) w))
      })"

text \<open>What \<open>LowerEnmityByPercent\<close> takes from one component: the share, and what remains.\<close>

definition share :: "int \<Rightarrow> nat \<Rightarrow> int option" where
  "share amount percent = to_int32 (f32 (f32 (of_int amount) * f32 (of_nat percent / 100)))"

definition take_share :: "int \<Rightarrow> int \<Rightarrow> int option" where
  "take_share amount s = add32 amount (- (if s < 0 then 0 else s))"

definition LowerEnmityByPercent ::
  "ptr \<Rightarrow> ptr \<Rightarrow> nat \<Rightarrow> ptr option \<Rightarrow> hate_world \<Rightarrow> hate_world option" where
  "LowerEnmityByPercent h p percent HateReceiver w =
     (case map_of (elist w h) (id (ents w p)) of
        None \<Rightarrow> Some w
      | Some e \<Rightarrow> do {
          CEValue \<leftarrow> share (CE e) percent;
          ce \<leftarrow> take_share (CE e) CEValue;
          VEValue \<leftarrow> share (VE e) percent;
          ve \<leftarrow> take_share (VE e) VEValue;
          let w1 = upd_list h (AList.update (id (ents w p)) (e\<lparr>CE := ce, VE := ve\<rparr>)) w;
          case HateReceiver of
            None \<Rightarrow> Some w1
          | Some q \<Rightarrow> UpdateEnmity h q CEValue VEValue False False True w1
        })"

definition GetCE :: "hate_world \<Rightarrow> ptr \<Rightarrow> ptr \<Rightarrow> int" where
  "GetCE w h p = (case map_of (elist w h) (id (ents w p)) of Some e \<Rightarrow> CE e | None \<Rightarrow> 0)"

definition GetVE :: "hate_world \<Rightarrow> ptr \<Rightarrow> ptr \<Rightarrow> int" where
  "GetVE w h p = (case map_of (elist w h) (id (ents w p)) of Some e \<Rightarrow> VE e | None \<Rightarrow> 0)"

text \<open>The recursion of \<open>SetCE\<close> and \<open>SetVE\<close> need not end, so \<open>None\<close> is also a call that never returns.\<close>

partial_function (option) SetCE :: "ptr \<Rightarrow> ptr \<Rightarrow> int \<Rightarrow> hate_world \<Rightarrow> hate_world option" where
  "SetCE h p amount w =
     (case map_of (elist w h) (id (ents w p)) of
        Some e \<Rightarrow> Some (upd_list h (AList.update (id (ents w p)) (e\<lparr>CE := min amount (cap w h)\<rparr>)) w)
      | None \<Rightarrow> SetCE h p amount (AddBaseEnmity h p w))"

partial_function (option) SetVE :: "ptr \<Rightarrow> ptr \<Rightarrow> int \<Rightarrow> hate_world \<Rightarrow> hate_world option" where
  "SetVE h p amount w =
     (case map_of (elist w h) (id (ents w p)) of
        Some e \<Rightarrow> Some (upd_list h (AList.update (id (ents w p)) (e\<lparr>VE := min amount (cap w h)\<rparr>)) w)
      | None \<Rightarrow> SetVE h p amount (AddBaseEnmity h p w))"

definition UpdateEnmityFromDamage :: "ptr \<Rightarrow> ptr option \<Rightarrow> int \<Rightarrow> hate_world \<Rightarrow> hate_world option" where
  "UpdateEnmityFromDamage h PEntity Damage w =
     (case PEntity of
        None \<Rightarrow> Some w
      | Some p \<Rightarrow>
          if id (ents w h) = id (ents w p) then Some w
          else do {
            let damage = (if Damage < 1 then 1 else Damage);
            let damageMod = GetEnmityModDamage (int (GetMLevel (ents w h)));
            ce \<leftarrow> to_int32 (f32 (f32 (80 / of_int damageMod) * f32 (of_int damage)));
            ve \<leftarrow> to_int32 (f32 (f32 (240 / of_int damageMod) * f32 (of_int damage)));
            w1 \<leftarrow> UpdateEnmity h p ce ve False False True w;
            Some (upd_mob h (\<lambda>m. m\<lparr>m_HiPCLvl := max (m_HiPCLvl m) (GetMLevel (ents w p))\<rparr>) w1)
          })"

definition attack_loss :: "ent \<Rightarrow> int \<Rightarrow> int option" where
  "attack_loss p Damage =
     (if GetMaxHP p = 0 then None
      else
        let reduction = f32 ((100 - of_int (min (getMod p ENMITY_LOSS_REDUCTION) 100)) / 100)
        in to_int32 (f32 (f32 (f32 (- 1800 * f32 (of_int Damage)) / f32 (of_int (GetMaxHP p))) * reduction)))"

definition UpdateEnmityFromAttack :: "ptr \<Rightarrow> ptr \<Rightarrow> int \<Rightarrow> hate_world \<Rightarrow> hate_world option" where
  "UpdateEnmityFromAttack h p Damage w =
     (case map_of (elist w h) (id (ents w p)) of
        None \<Rightarrow> Some w
      | Some e \<Rightarrow> do {
          ce \<leftarrow> attack_loss (ents w p) Damage;
          ce \<leftarrow> add32 (CE e) ce;
          Some (upd_list h (AList.update (id (ents w p)) (e\<lparr>CE := clamp ce 0 (cap w h)\<rparr>)) w)
        })"

definition decay_amount :: int where
  "decay_amount = trunc (f32 (60 / (5 / 2)))"

definition decay_entry :: "EnmityObject_t \<Rightarrow> EnmityObject_t" where
  "decay_entry e = e\<lparr>VE := VE e - (if decay_amount < VE e then decay_amount else VE e)\<rparr>"

definition DecayEnmity :: "ptr \<Rightarrow> hate_world \<Rightarrow> hate_world" where
  "DecayEnmity h = upd_list h (map (\<lambda>(k, e). (k, decay_entry e)))"

definition UpdateEnmityFromCover :: "ptr \<Rightarrow> ptr option \<Rightarrow> ptr option \<Rightarrow> hate_world \<Rightarrow> hate_world option" where
  "UpdateEnmityFromCover h target user w =
     (case (target, user) of
        (Some t, Some u) \<Rightarrow> do {
          amount \<leftarrow> add32 (GetCE w h u) 200;
          w1 \<leftarrow> SetCE h u amount w;
          LowerEnmityByPercent h t 10 None w1
        }
      | _ \<Rightarrow> Some w)"

section \<open>The highest enmity\<close>

definition Enmity :: "EnmityObject_t \<Rightarrow> uint32" where
  "Enmity e = word_of_int (CE e + VE e)"

definition tie_kept :: "hate_world \<Rightarrow> ptr \<Rightarrow> uint32 \<Rightarrow> uint32 \<Rightarrow> (uint32 \<times> EnmityObject_t) option \<Rightarrow> bool" where
  "tie_kept w h enm highestEnm highest =
     (enm = highestEnm \<and> m_battleTarget (ents w h) \<noteq> 0 \<and>
      (case highest of
         None \<Rightarrow> False
       | Some x \<Rightarrow> (case PEnmityOwner (snd x) of
                      None \<Rightarrow> False
                    | Some q \<Rightarrow> targid (ents w q) = m_battleTarget (ents w h))))"

definition hostile :: "hate_world \<Rightarrow> ptr \<Rightarrow> EnmityObject_t \<Rightarrow> bool" where
  "hostile w h e =
     (case PEnmityOwner e of None \<Rightarrow> True | Some q \<Rightarrow> allegiance (ents w q) \<noteq> allegiance (ents w h))"

fun scan_highest ::
  "hate_world \<Rightarrow> ptr \<Rightarrow> EnmityList_t \<Rightarrow> uint32 \<Rightarrow> (uint32 \<times> EnmityObject_t) option
   \<Rightarrow> (uint32 \<times> EnmityObject_t) option" where
  "scan_highest w h [] highestEnm highest = highest"
| "scan_highest w h (x # xs) highestEnm highest =
     (let enm = Enmity (snd x) in
      if highestEnm \<le> enm \<and> active (snd x) \<and> hostile w h (snd x) \<and> \<not> tie_kept w h enm highestEnm highest
      then scan_highest w h xs enm (Some x)
      else scan_highest w h xs highestEnm highest)"

definition entry_entity :: "hate_world \<Rightarrow> uint32 \<times> EnmityObject_t \<Rightarrow> ptr option" where
  "entry_entity w x = (case PEnmityOwner (snd x) of Some p \<Rightarrow> Some p | None \<Rightarrow> GetChar w (fst x))"

definition attackable :: "hate_world \<Rightarrow> ptr \<Rightarrow> ptr \<Rightarrow> bool" where
  "attackable w h p \<longleftrightarrow>
     getZone (ents w p) = getZone (ents w h) \<and> PInstance (ents w p) = PInstance (ents w h) \<and>
     \<not> isDead (ents w p)"

lemma scan_highest_mem:
  "scan_highest w h xs m b = Some x \<Longrightarrow> x \<in> set xs \<or> b = Some x"
  by (induction xs arbitrary: m b) (auto simp: Let_def split: if_splits)

function highest_loop :: "hate_world \<Rightarrow> ptr \<Rightarrow> EnmityList_t \<Rightarrow> ptr option \<times> EnmityList_t" where
  "highest_loop w h xs =
     (case scan_highest w h xs 0 None of
        None \<Rightarrow> (None, xs)
      | Some x \<Rightarrow>
          (case entry_entity w x of
             Some p \<Rightarrow> if attackable w h p then (Some p, xs) else highest_loop w h (AList.delete (fst x) xs)
           | None \<Rightarrow> highest_loop w h (AList.delete (fst x) xs)))"
  by pat_completeness auto

lemma length_delete_less: "(k, e) \<in> set xs \<Longrightarrow> length (AList.delete k xs) < length xs"
  by (induction xs) (auto simp: AList.delete_eq intro: le_imp_less_Suc)

termination highest_loop
proof (relation "measure (\<lambda>(w, h, xs). length xs)")
qed (auto dest!: scan_highest_mem intro: length_delete_less)

declare highest_loop.simps [simp del]

definition GetHighestEnmity :: "ptr \<Rightarrow> hate_world \<Rightarrow> ptr option \<times> hate_world" where
  "GetHighestEnmity h w =
     (if elist w h = [] then (None, w)
      else let (r, xs) = highest_loop w h (elist w h) in (r, upd_list h (\<lambda>_. xs) w))"


section \<open>What an operation leaves alone\<close>

lemma elist_upd_list [simp]:
  "elist (upd_list h f w) h' = (if h' = h then f (elist w h) else elist w h')"
  by (simp add: elist_def upd_list_def upd_mob_def)

lemma cap_upd_list [simp]: "cap (upd_list h f w) h' = cap w h'"
  by (simp add: cap_def upd_list_def upd_mob_def)

lemma ents_upd [simp]: "ents (upd_list h f w) = ents w" "ents (upd_mob h g w) = ents w"
  "GetChar (upd_list h f w) = GetChar w" "GetChar (upd_mob h g w) = GetChar w"
  "m_Lookup (upd_list h f w) = m_Lookup w" "m_Lookup (upd_mob h g w) = m_Lookup w"
  by (simp_all add: upd_list_def upd_mob_def)

lemma noto_add_simps [simp]:
  "elist (noto_add p h w) h' = elist w h'" "cap (noto_add p h w) h' = cap w h'"
  "ents (noto_add p h w) = ents w" "GetChar (noto_add p h w) = GetChar w"
  by (simp_all add: noto_add_def elist_def cap_def)

lemma noto_remove_simps [simp]:
  "elist (noto_remove p h w) h' = elist w h'" "cap (noto_remove p h w) h' = cap w h'"
  "ents (noto_remove p h w) = ents w"
  by (simp_all add: noto_remove_def elist_def cap_def)

lemma upd_mob_simps:
  assumes "\<And>m. m_EnmityList (f m) = m_EnmityList m" "\<And>m. EnmityCap (f m) = EnmityCap m"
  shows "elist (upd_mob h f w) h' = elist w h'" "cap (upd_mob h f w) h' = cap w h'"
  using assms by (simp_all add: upd_mob_def elist_def cap_def)

lemma hunter_levels_simps [simp]:
  "elist (apply_hunter_levels h p w) h' = elist w h'"
  "cap (apply_hunter_levels h p w) h' = cap w h'"
  "ents (apply_hunter_levels h p w) = ents w"
  by (simp_all add: apply_hunter_levels_def Let_def upd_mob_simps)

lemma clear_owners_simps [simp]:
  "elist (clear_owners h xs w) h' = elist w h'" "cap (clear_owners h xs w) h' = cap w h'"
  "ents (clear_owners h xs w) = ents w"
  by (induction xs arbitrary: w) (simp_all split: option.split)

lemma IsWithinEnmityRange_cong:
  "ents w' = ents w \<Longrightarrow> (\<And>m. is_notorious (mobs w' m) = is_notorious (mobs w m)) \<Longrightarrow>
   IsWithinEnmityRange w' = IsWithinEnmityRange w"
  by (intro ext) (simp add: IsWithinEnmityRange_def)

section \<open>Every amount of enmity lies between zero and the cap\<close>

definition entry_ok :: "int \<Rightarrow> EnmityObject_t \<Rightarrow> bool" where
  "entry_ok c e \<longleftrightarrow> 0 \<le> CE e \<and> CE e \<le> c \<and> 0 \<le> VE e \<and> VE e \<le> c"

definition list_ok :: "int \<Rightarrow> EnmityList_t \<Rightarrow> bool" where
  "list_ok c xs \<longleftrightarrow> distinct (map fst xs) \<and> (\<forall>x \<in> set xs. entry_ok c (snd x))"

definition max_cap :: int where
  "max_cap = 2 ^ 20"

definition world_ok :: "hate_world \<Rightarrow> bool" where
  "world_ok w \<longleftrightarrow> (\<forall>h. 0 \<le> cap w h \<and> cap w h \<le> max_cap \<and> list_ok (cap w h) (elist w h))"

lemma list_ok_lookup: "list_ok c xs \<Longrightarrow> map_of xs k = Some e \<Longrightarrow> entry_ok c e"
  by (auto simp: list_ok_def dest!: map_of_SomeD)

lemma update_mem: "x \<in> set (AList.update k v xs) \<Longrightarrow> x = (k, v) \<or> x \<in> set xs"
  by (induction xs) (auto split: if_splits)

lemma list_ok_update: "list_ok c xs \<Longrightarrow> entry_ok c e \<Longrightarrow> list_ok c (AList.update k e xs)"
  by (auto simp: list_ok_def distinct_update dest!: update_mem)

lemma list_ok_emplace: "list_ok c xs \<Longrightarrow> entry_ok c e \<Longrightarrow> list_ok c (emplace k e xs)"
  by (auto simp: list_ok_def emplace_def map_of_eq_None_iff)

lemma delete_mem: "x \<in> set (AList.delete k xs) \<longleftrightarrow> x \<in> set xs \<and> fst x \<noteq> k"
  by (auto simp: AList.delete_eq)

lemma list_ok_delete: "list_ok c xs \<Longrightarrow> list_ok c (AList.delete k xs)"
  by (auto simp: list_ok_def distinct_delete delete_mem)

lemma list_ok_map_entry:
  "list_ok c xs \<Longrightarrow> (\<And>e. entry_ok c e \<Longrightarrow> entry_ok c (f e)) \<Longrightarrow> list_ok c (AList.map_entry k f xs)"
  by (induction xs) (auto simp: list_ok_def dom_map_entry)

lemma list_ok_map:
  "list_ok c xs \<Longrightarrow> (\<And>e. entry_ok c e \<Longrightarrow> entry_ok c (f e)) \<Longrightarrow> list_ok c (map (\<lambda>(k, e). (k, f e)) xs)"
  by (auto simp: list_ok_def o_def case_prod_beta)

lemma world_ok_upd_list:
  "world_ok w \<Longrightarrow> list_ok (cap w h) (f (elist w h)) \<Longrightarrow> world_ok (upd_list h f w)"
  by (simp add: world_ok_def)

lemma world_okD: "world_ok w \<Longrightarrow> list_ok (cap w h) (elist w h)"
  "world_ok w \<Longrightarrow> 0 \<le> cap w h" "world_ok w \<Longrightarrow> cap w h \<le> max_cap"
  by (auto simp: world_ok_def)

lemma world_ok_cong:
  "(\<And>h. elist w' h = elist w h) \<Longrightarrow> (\<And>h. cap w' h = cap w h) \<Longrightarrow> world_ok w' = world_ok w"
  by (simp add: world_ok_def)

lemma world_ok_noto [simp]:
  "world_ok (noto_add p h w) = world_ok w" "world_ok (noto_remove p h w) = world_ok w"
  "world_ok (apply_hunter_levels h p w) = world_ok w" "world_ok (clear_owners h xs w) = world_ok w"
  by (simp_all add: world_ok_def)

lemma entry_ok_simps [simp]:
  "entry_ok c (e\<lparr>PEnmityOwner := x\<rparr>) = entry_ok c e" "entry_ok c (e\<lparr>active := b\<rparr>) = entry_ok c e"
  by (simp_all add: entry_ok_def)

lemma entry_ok_clamp:
  "0 \<le> c \<Longrightarrow> entry_ok c \<lparr>PEnmityOwner = o1, CE = clamp a 0 c, VE = clamp b 0 c, active = d\<rparr>"
  "0 \<le> c \<Longrightarrow> entry_ok c (e\<lparr>CE := clamp a 0 c, VE := clamp b 0 c, active := d\<rparr>)"
  "0 \<le> c \<Longrightarrow> entry_ok c (e\<lparr>CE := clamp a 0 c, VE := clamp b 0 c\<rparr>)"
  "0 \<le> c \<Longrightarrow> entry_ok c e \<Longrightarrow> entry_ok c (e\<lparr>CE := clamp a 0 c\<rparr>)"
  "0 \<le> c \<Longrightarrow> entry_ok c \<lparr>PEnmityOwner = o1, CE = 0, VE = 0, active = d\<rparr>"
  using clamp_bounds[of 0 c] by (auto simp: entry_ok_def)

subsection \<open>The float computations stay in the range of \<open>int32\<close>\<close>

lemma bonus_bounds: "0 \<le> CalculateEnmityBonus p \<and> CalculateEnmityBonus p \<le> 4"
proof -
  define c where "c = (if objtype p = TYPE_PC
             then let b = getMod p ENMITY * 2 + (GetMeritValue p MERIT_ENMITY_INCREASE
                                         - GetMeritValue p MERIT_ENMITY_DECREASE)
                  in if has_souleater p then b - GetMeritValue p MERIT_BLOOD_DISCIPLINE else b
             else getMod p ENMITY * 2)"
  define b where "b = f32 ((100 + of_int (clamp c (-50) 200)) / 100)"
  have "- 50 \<le> clamp c (-50) 200" "clamp c (-50) 200 \<le> 200" using clamp_bounds[of "-50" 200 c] by simp_all
  then have "- 50 \<le> (of_int (clamp c (-50) 200) :: rat)" "(of_int (clamp c (-50) 200) :: rat) \<le> 200"
    by (metis of_int_le_iff of_int_neg_numeral, metis of_int_le_iff of_int_numeral)
  then have "0 \<le> (100 + of_int (clamp c (-50) 200)) / (100 :: rat)"
    "(100 + of_int (clamp c (-50) 200)) / (100 :: rat) \<le> 3" by simp_all
  from f32_nonneg[OF this(1)] f32_le[OF this] have b: "0 \<le> b" "b \<le> 3 + 3 / 2 ^ 24" by (simp_all add: b_def)
  then have "0 \<le> b * (5 / 4)" "b * (5 / 4) \<le> (3 + 3 / 2 ^ 24) * (5 / 4)" by simp_all
  from f32_nonneg[OF this(1)] f32_le[OF this] have s: "0 \<le> f32 (b * (5 / 4))" "f32 (b * (5 / 4)) \<le> 4" by simp_all
  have "CalculateEnmityBonus p = (if 0 < getMod p SAVAGE_BLADE_ENMITY then f32 (b * (5 / 4)) else b)"
    by (simp add: CalculateEnmityBonus_def Let_def b_def c_def)
  then show ?thesis using b s by simp
qed

lemma abs_mult_le: "\<bar>x\<bar> \<le> a \<Longrightarrow> \<bar>y\<bar> \<le> b \<Longrightarrow> \<bar>x * y\<bar> \<le> a * (b :: rat)"
  by (simp add: abs_mult mult_mono)

lemma f32_mult_le: "\<bar>x\<bar> \<le> a \<Longrightarrow> \<bar>y\<bar> \<le> b \<Longrightarrow> \<bar>f32 (x * y)\<bar> \<le> 2 * (a * b)"
  using f32_abs_le[of "x * y"] abs_mult_le[of x a y b] by linarith

lemma f32_int_le: "\<bar>x\<bar> \<le> a \<Longrightarrow> \<bar>f32 (of_int x)\<bar> \<le> 2 * of_int a"
proof -
  assume "\<bar>x\<bar> \<le> a"
  then have "\<bar>of_int x\<bar> \<le> (of_int a :: rat)" by (metis of_int_abs of_int_le_iff)
  then show ?thesis using f32_abs_le[of "of_int x"] by linarith
qed

lemma f32_defined: "\<bar>x\<bar> \<le> 2 ^ 29 \<Longrightarrow> \<exists>y. to_int32 (f32 x) = Some y"
  using f32_abs_le[of x] by (intro exI[of _ "trunc (f32 x)"] to_int32_Some) simp

lemma scaled_defined:
  assumes "\<bar>amount\<bar> \<le> 2 ^ 24" "\<bar>old\<bar> \<le> max_cap" "0 \<le> b" "b \<le> 4"
  shows "\<exists>y. scaled b old amount = Some y"
proof -
  have o: "\<bar>f32 (of_int old)\<bar> \<le> 2 ^ 21" using f32_int_le[OF assms(2)] by (simp add: max_cap_def)
  have a: "\<bar>f32 (of_int amount)\<bar> \<le> 2 ^ 25" using f32_int_le[OF assms(1)] by simp
  have "\<bar>b\<bar> \<le> 4" using assms by simp
  from f32_mult_le[OF a this] have "\<bar>f32 (f32 (of_int amount) * b)\<bar> \<le> 2 ^ 28" by simp
  then have "\<bar>f32 (of_int old) + (if 0 < amount then f32 (f32 (of_int amount) * b) else f32 (of_int amount))\<bar> \<le> 2 ^ 28 + 2 ^ 21"
    using o a by (auto simp: abs_le_iff)
  then show ?thesis unfolding scaled_def by (intro f32_defined) simp
qed

lemma max_cap_int32: "0 \<le> c \<Longrightarrow> c \<le> max_cap \<Longrightarrow> entry_ok c e \<Longrightarrow> \<bar>CE e\<bar> \<le> max_cap \<and> \<bar>VE e\<bar> \<le> max_cap"
  by (simp add: entry_ok_def)

subsection \<open>The operations keep the bounds\<close>

lemma AddBaseEnmity_ok: "world_ok w \<Longrightarrow> world_ok (AddBaseEnmity h p w)"
  by (auto simp: AddBaseEnmity_def entry_ok_clamp world_okD intro!: world_ok_upd_list list_ok_emplace)

lemma add_master_ok: "world_ok w \<Longrightarrow> world_ok (add_master h p m w)"
  by (simp add: add_master_def AddBaseEnmity_ok split: option.split)

lemma update_listed_ok:
  assumes "world_ok w" "\<bar>ce\<bar> \<le> 2 ^ 24" "\<bar>ve\<bar> \<le> 2 ^ 24" "map_of (elist w h) (id (ents w p)) = Some e"
  shows "\<exists>w'. update_listed h p ce ve e w = Some w' \<and> world_ok w'"
proof -
  note ok = world_okD[OF assms(1), of h]
  have e: "\<bar>CE e\<bar> \<le> max_cap" "\<bar>VE e\<bar> \<le> max_cap"
    using max_cap_int32[OF ok(2,3) list_ok_lookup[OF ok(1) assms(4)]] by simp_all
  obtain a b where "scaled (CalculateEnmityBonus (ents w p)) (CE e) ce = Some a"
    "scaled (CalculateEnmityBonus (ents w p)) (VE e) ve = Some b"
    using scaled_defined assms e bonus_bounds by meson
  then show ?thesis
    using assms(1) ok by (auto simp: update_listed_def entry_ok_clamp intro!: world_ok_upd_list list_ok_update)
qed

lemma new_amount_defined:
  assumes "\<bar>a\<bar> \<le> 2 ^ 24 + 900"
  shows "\<exists>y. to_int32 (f32 (f32 (of_int a) * CalculateEnmityBonus p)) = Some y"
proof (rule f32_defined)
  have "\<bar>CalculateEnmityBonus p\<bar> \<le> 4" using bonus_bounds by (simp add: abs_le_iff)
  from abs_mult_le[OF f32_int_le[OF assms] this]
  show "\<bar>f32 (of_int a) * CalculateEnmityBonus p\<bar> \<le> 2 ^ 29" by simp
qed

lemma update_new_ok:
  assumes "world_ok w" "0 \<le> ce" "0 \<le> ve" "ce \<le> 2 ^ 24" "ve \<le> 2 ^ 24"
  shows "\<exists>w'. update_new h p ce ve m w = Some w' \<and> world_ok w'"
proof -
  define initial where "initial \<longleftrightarrow> \<not> (\<exists>x \<in> set (elist w h). active (snd x))"
  define a b where "a = (if initial then ce + 200 else ce)" and "b = (if initial then ve + 900 else ve)"
  have ab: "(if initial then add32 ce 200 else Some ce) = Some a" "(if initial then add32 ve 900 else Some ve) = Some b"
    using assms by (auto simp: a_def b_def add32_def)
  have "\<bar>a\<bar> \<le> 2 ^ 24 + 900" "\<bar>b\<bar> \<le> 2 ^ 24 + 900" using assms by (auto simp: a_def b_def)
  then obtain x y where "to_int32 (f32 (f32 (of_int a) * CalculateEnmityBonus (ents w p))) = Some x"
    "to_int32 (f32 (f32 (of_int b) * CalculateEnmityBonus (ents w p))) = Some y"
    using new_amount_defined by meson
  then show ?thesis
    using world_okD[OF assms(1), of h] assms(1) unfolding update_new_def Let_def initial_def[symmetric] ab
    by (auto simp: ab entry_ok_clamp intro!: add_master_ok world_ok_upd_list list_ok_emplace)
qed

lemma UpdateEnmity_keeps:
  assumes "world_ok w" "\<bar>ce\<bar> \<le> 2 ^ 24" "\<bar>ve\<bar> \<le> 2 ^ 24"
  shows "\<exists>w'. UpdateEnmity h p ce ve m t d w = Some w' \<and> world_ok w'"
proof (cases "objtype (ents w h) = TYPE_MOB")
  case False
  then show ?thesis using assms(1) by (simp add: UpdateEnmity_def)
next
  case True
  define near where "near = IsWithinEnmityRange w h p"
  define a b where "a = (if near then ce else 0)" and "b = (if near then ve else 0)"
  define w1 where "w1 = (if d then apply_hunter_levels h p w else w)"
  have w1: "world_ok w1" using assms(1) by (simp add: w1_def)
  have ab: "\<bar>a\<bar> \<le> 2 ^ 24" "\<bar>b\<bar> \<le> 2 ^ 24" using assms by (auto simp: a_def b_def)
  have "\<exists>w2. (case map_of (elist w1 h) (id (ents w1 p)) of
                 Some e \<Rightarrow> update_listed h p a b e w1
               | None \<Rightarrow> if 0 \<le> a \<and> 0 \<le> b then update_new h p a b m w1 else Some w1) = Some w2 \<and> world_ok w2"
    using update_listed_ok[OF w1 ab, of h p] update_new_ok[OF w1, of a b h p m] ab w1
    by (auto split: option.split)
  then obtain w2 where w2: "(case map_of (elist w1 h) (id (ents w1 p)) of
                 Some e \<Rightarrow> update_listed h p a b e w1
               | None \<Rightarrow> if 0 \<le> a \<and> 0 \<le> b then update_new h p a b m w1 else Some w1) = Some w2" "world_ok w2"
    by blast
  have "UpdateEnmity h p ce ve m t d w = Some (if t then w2 else upd_mob h (\<lambda>m. m\<lparr>m_tameable := False\<rparr>) w2)"
    unfolding UpdateEnmity_def Let_def near_def[symmetric] a_def[symmetric] b_def[symmetric] w1_def[symmetric] w2(1)
    using True by simp
  moreover have "world_ok (upd_mob h (\<lambda>m. m\<lparr>m_tameable := False\<rparr>) w2)"
    using w2(2) by (simp add: world_ok_def upd_mob_simps)
  ultimately show ?thesis using w2(2) by simp
qed


lemma tranquil_bounds: "0 \<le> HandleTranquilHeart p \<and> HandleTranquilHeart p \<le> 1"
proof -
  define r where "r = f32 (f32 (of_nat (healing_skill p) / 10) * (1 / 2))"
  have r: "0 \<le> r" by (simp add: r_def f32_nonneg)
  define s where "s = (if 25 < r then 25 else r)"
  have "0 \<le> s / 100" "s / 100 \<le> 1 / 4" using r by (auto simp: s_def)
  from f32_nonneg[OF this(1)] f32_le[OF this] have "0 \<le> f32 (s / 100)" "f32 (s / 100) \<le> 1" by simp_all
  moreover have "HandleTranquilHeart p = (if objtype p = TYPE_PC \<and> has_tranquil_heart p then f32 (s / 100) else 0)"
    by (simp only: HandleTranquilHeart_def Let_def s_def r_def)
  ultimately show ?thesis by simp
qed

lemma GetEnmityModCure_bounds: "0 \<le> l \<Longrightarrow> 10 \<le> GetEnmityModCure l"
proof -
  assume l: "0 \<le> l"
  have "0 \<le> f64 (of_int (l - 50) * f64 (3 / 5))" if "50 < l"
  proof -
    have "0 \<le> f64 (3 / 5)" by (simp add: f64_nonneg)
    then show ?thesis using that by (intro f64_nonneg mult_nonneg_nonneg) simp_all
  qed
  then have "40 - 40 / 2 ^ 53 \<le> f64 (40 + f64 (of_int (l - 50) * f64 (3 / 5)))" if "50 < l"
    using that f64_ge[of 40] by simp
  then have "10 \<le> trunc (f64 (40 + f64 (of_int (l - 50) * f64 (3 / 5))))" if "50 < l"
    using that by (intro trunc_ge) (auto intro: order_trans[rotated])
  then show ?thesis using l by (auto simp: GetEnmityModCure_def)
qed

lemma cure_amounts_ok:
  assumes "\<bar>amount\<bar> \<le> 2 ^ 17" "\<bar>fce\<bar> \<le> 2 ^ 20" "\<bar>fve\<bar> \<le> 2 ^ 20"
  shows "\<exists>ce ve. cure_amounts p level amount fce fve = Some (ce, ve) \<and> \<bar>ce\<bar> \<le> 2 ^ 30 \<and> \<bar>ve\<bar> \<le> 2 ^ 30"
proof -
  define bonus where "bonus = CalculateEnmityBonus p"
  define red where "red = f32 (1 - HandleTranquilHeart p)"
  define m where "m = GetEnmityModCure (int level)"
  have b: "\<bar>bonus\<bar> \<le> 4" using bonus_bounds by (simp add: bonus_def abs_le_iff)
  have "\<bar>1 - HandleTranquilHeart p\<bar> \<le> 1" using tranquil_bounds[of p] by linarith
  then have r: "\<bar>red\<bar> \<le> 2" using f32_abs_le[of "1 - HandleTranquilHeart p"] by (simp add: red_def)
  have fixed: "\<exists>y. to_int32 (f32 (f32 (x * bonus) * red)) = Some y \<and> \<bar>y\<bar> \<le> 2 ^ 30" if "\<bar>x\<bar> \<le> 2 ^ 25" for x
  proof -
    from f32_mult_le[OF that b] have "\<bar>f32 (x * bonus)\<bar> \<le> 2 ^ 28" by simp
    from f32_mult_le[OF this r] have "\<bar>f32 (f32 (x * bonus) * red)\<bar> \<le> 2 ^ 30" by simp
    then show ?thesis using to_int32_Some trunc_abs_le by fastforce
  qed
  have m: "10 \<le> m" unfolding m_def by (rule GetEnmityModCure_bounds) simp
  have cure: "\<bar>f32 (f32 (c / of_int m) * f32 (of_int a))\<bar> \<le> 2 ^ 25" if "0 \<le> c" "c \<le> 240" "\<bar>a\<bar> \<le> 2 ^ 17" for c a
  proof -
    have "10 \<le> (of_int m :: rat)" using m by (metis of_int_le_iff of_int_numeral)
    then have "c / of_int m \<le> 240 / 10" using that by (intro frac_le) simp_all
    moreover have "0 \<le> c / of_int m" using that m by simp
    ultimately have "\<bar>f32 (c / of_int m)\<bar> \<le> 25" using f32_nonneg f32_le[of "c / of_int m" 24] by simp
    from f32_mult_le[OF this f32_int_le[OF that(3)]] show ?thesis by simp
  qed
  define a where "a = (if amount < 1 then 1 else amount)"
  have a: "\<bar>a\<bar> \<le> 2 ^ 17" using assms(1) by (auto simp: a_def abs_le_iff)
  have "\<bar>f32 (of_int fce)\<bar> \<le> 2 ^ 25" "\<bar>f32 (of_int fve)\<bar> \<le> 2 ^ 25"
    using f32_int_le[OF assms(2)] f32_int_le[OF assms(3)] by simp_all
  from fixed[OF this(1)] fixed[OF this(2)] fixed[OF cure[of 40, OF _ _ a]] fixed[OF cure[of 240, OF _ _ a]]
  obtain y1 y2 y3 y4 where y: "to_int32 (f32 (f32 (f32 (of_int fce) * bonus) * red)) = Some y1" "\<bar>y1\<bar> \<le> 2 ^ 30"
    "to_int32 (f32 (f32 (f32 (of_int fve) * bonus) * red)) = Some y2" "\<bar>y2\<bar> \<le> 2 ^ 30"
    "to_int32 (f32 (f32 (f32 (f32 (40 / of_int m) * f32 (of_int a)) * bonus) * red)) = Some y3" "\<bar>y3\<bar> \<le> 2 ^ 30"
    "to_int32 (f32 (f32 (f32 (f32 (240 / of_int m) * f32 (of_int a)) * bonus) * red)) = Some y4" "\<bar>y4\<bar> \<le> 2 ^ 30"
    by auto
  show ?thesis
    unfolding cure_amounts_def Let_def bonus_def[symmetric] red_def[symmetric] m_def[symmetric] a_def[symmetric]
    using y by simp
qed

lemma UpdateEnmityFromCure_keeps:
  assumes "world_ok w" "\<bar>amount\<bar> \<le> 2 ^ 17" "\<bar>fce\<bar> \<le> 2 ^ 20" "\<bar>fve\<bar> \<le> 2 ^ 20"
  shows "\<exists>w'. UpdateEnmityFromCure h p level amount fce fve w = Some w' \<and> world_ok w'"
proof -
  note ok = world_okD[OF assms(1), of h]
  obtain ce ve where c: "cure_amounts (ents w p) level amount fce fve = Some (ce, ve)"
    "\<bar>ce\<bar> \<le> 2 ^ 30" "\<bar>ve\<bar> \<le> 2 ^ 30" using cure_amounts_ok[OF assms(2-4)] by blast
  have "add32 (CE e) ce = Some (CE e + ce) \<and> add32 (VE e) ve = Some (VE e + ve)"
    if "map_of (elist w h) (id (ents w p)) = Some e" for e
    using max_cap_int32[OF ok(2,3) list_ok_lookup[OF ok(1) that]] c by (simp add: add32_def max_cap_def abs_le_iff)
  then show ?thesis
    using c ok assms(1) by (auto simp: UpdateEnmityFromCure_def entry_ok_clamp split: option.split
        intro!: world_ok_upd_list list_ok_update list_ok_emplace)
qed

lemma share_bounds:
  assumes "0 \<le> a" "a \<le> max_cap" "pct \<le> 100"
  shows "\<exists>s. share a pct = Some s \<and> 0 \<le> s \<and> s \<le> a"
proof -
  have a20: "(of_int a :: rat) \<le> 2 ^ 20" using assms(2) by (simp add: max_cap_def)
  have a: "f32 (of_int a) = of_int a" using assms by (intro f32_of_int) (simp add: max_cap_def)
  have "of_nat pct / 100 \<le> (1 :: rat)" using assms(3) by simp
  from f32_nonneg[of "of_nat pct / 100"] f32_le[OF _ this]
  have m: "0 \<le> f32 (of_nat pct / 100)" "f32 (of_nat pct / 100) \<le> 1 + 1 / 2 ^ 24" by simp_all
  define x where "x = of_int a * f32 (of_nat pct / 100)"
  have x: "0 \<le> x" "x \<le> of_int a * (1 + 1 / 2 ^ 24)"
    unfolding x_def using assms(1) m by (intro mult_nonneg_nonneg mult_left_mono; simp)+
  have "f32 x \<le> of_int a * (1 + 1 / 2 ^ 24) + of_int a * (1 + 1 / 2 ^ 24) / 2 ^ 24" by (rule f32_le[OF x])
  also have "\<dots> < of_int a + 1" using a20 by (simp add: algebra_simps)
  finally have lt: "f32 x < of_int a + 1" .
  have "\<bar>f32 x\<bar> \<le> 2 ^ 30" using lt f32_nonneg[OF x(1)] a20 by simp
  then have "share a pct = Some (trunc (f32 x))" by (simp add: share_def a x_def[symmetric] to_int32_Some)
  then show ?thesis using trunc_le[OF f32_nonneg[OF x(1)] lt] trunc_nonneg[OF f32_nonneg[OF x(1)]] by blast
qed

lemma take_share_bounds: "0 \<le> s \<Longrightarrow> s \<le> a \<Longrightarrow> a \<le> max_cap \<Longrightarrow> take_share a s = Some (a - s)"
  by (auto simp: take_share_def add32_def max_cap_def)

lemma LowerEnmityByPercent_keeps:
  assumes "world_ok w" "pct \<le> 100"
  shows "\<exists>w'. LowerEnmityByPercent h p pct r w = Some w' \<and> world_ok w'"
proof (cases "map_of (elist w h) (id (ents w p))")
  case None
  then show ?thesis using assms(1) by (simp add: LowerEnmityByPercent_def)
next
  case (Some e)
  note ok = world_okD[OF assms(1), of h]
  have e: "0 \<le> CE e" "CE e \<le> max_cap" "0 \<le> VE e" "VE e \<le> max_cap" "entry_ok (cap w h) e"
    using list_ok_lookup[OF ok(1) Some] ok(3) by (auto simp: entry_ok_def)
  obtain s t where s: "share (CE e) pct = Some s" "0 \<le> s" "s \<le> CE e"
    and t: "share (VE e) pct = Some t" "0 \<le> t" "t \<le> VE e"
    using share_bounds e(1-4) assms(2) by meson
  define w1 where "w1 = upd_list h (AList.update (id (ents w p)) (e\<lparr>CE := CE e - s, VE := VE e - t\<rparr>)) w"
  have w1: "world_ok w1"
    using assms(1) ok(1) e(5) s t unfolding w1_def
    by (auto intro!: world_ok_upd_list list_ok_update simp: entry_ok_def)
  have "\<bar>s\<bar> \<le> 2 ^ 24" "\<bar>t\<bar> \<le> 2 ^ 24" using s t e by (auto simp: max_cap_def)
  from UpdateEnmity_keeps[OF w1 this]
  have u: "\<exists>w'. UpdateEnmity h q s t False False True w1 = Some w' \<and> world_ok w'" for q .
  have eq: "LowerEnmityByPercent h p pct r w =
      (case r of None \<Rightarrow> Some w1 | Some q \<Rightarrow> UpdateEnmity h q s t False False True w1)"
    using Some s t e(2,4) by (simp add: LowerEnmityByPercent_def take_share_bounds Let_def w1_def split: option.split)
  show ?thesis unfolding eq using u w1 by (simp split: option.split)
qed


lemma attack_loss_bounds:
  assumes "\<bar>dmg\<bar> \<le> 2 ^ 17" "0 < GetMaxHP p" "dmg \<le> 2 ^ 7 * GetMaxHP p" "- dmg \<le> 2 ^ 7 * GetMaxHP p"
    "GetMaxHP p < 2 ^ 24" "- 100 \<le> getMod p ENMITY_LOSS_REDUCTION"
  shows "\<exists>y. attack_loss p dmg = Some y \<and> \<bar>y\<bar> \<le> 2 ^ 30"
proof -
  define hp where "hp = (of_int (GetMaxHP p) :: rat)"
  define d where "d = (of_int dmg :: rat)"
  define red where "red = f32 ((100 - of_int (min (getMod p ENMITY_LOSS_REDUCTION) 100)) / 100)"
  have hp: "f32 hp = hp" "0 < hp" using assms by (simp_all add: hp_def f32_of_int)
  have d: "f32 d = d" using assms(1) by (simp add: d_def f32_of_int)
  have "dmg \<le> 2 ^ 7 * GetMaxHP p" "- (2 ^ 7 * GetMaxHP p) \<le> dmg" using assms by linarith+
  then have "d \<le> of_int (2 ^ 7 * GetMaxHP p)" "of_int (- (2 ^ 7 * GetMaxHP p)) \<le> d"
    unfolding d_def by (simp_all only: of_int_le_iff)
  then have "\<bar>d\<bar> \<le> 2 ^ 7 * hp" by (simp add: hp_def abs_le_iff)
  then have "\<bar>- 1800 * d\<bar> \<le> 1800 * (2 ^ 7 * hp)" by (simp add: abs_mult)
  then have "\<bar>f32 (- 1800 * d)\<bar> \<le> 2 * (1800 * (2 ^ 7 * hp))" using f32_abs_le[of "- 1800 * d"] by linarith
  then have "\<bar>f32 (- 1800 * d) / hp\<bar> \<le> 2 * 1800 * 2 ^ 7" using hp by (simp add: abs_divide pos_divide_le_eq)
  then have q: "\<bar>f32 (f32 (- 1800 * d) / hp)\<bar> \<le> 2 ^ 20" using f32_abs_le[of "f32 (- 1800 * d) / hp"] by simp
  have "0 \<le> 100 - min (getMod p ENMITY_LOSS_REDUCTION) 100" "100 - min (getMod p ENMITY_LOSS_REDUCTION) 100 \<le> 200"
    using assms(6) by auto
  then have "of_int 0 \<le> (of_int (100 - min (getMod p ENMITY_LOSS_REDUCTION) 100) :: rat)"
    "(of_int (100 - min (getMod p ENMITY_LOSS_REDUCTION) 100) :: rat) \<le> of_int 200" by (simp_all only: of_int_le_iff)
  then have "0 \<le> (100 - of_int (min (getMod p ENMITY_LOSS_REDUCTION) 100)) / (100 :: rat)"
    "(100 - of_int (min (getMod p ENMITY_LOSS_REDUCTION) 100)) / (100 :: rat) \<le> 2" by simp_all
  from f32_nonneg[OF this(1)] f32_le[OF this] have "\<bar>red\<bar> \<le> 4" by (simp add: red_def)
  from f32_mult_le[OF q this] have y: "\<bar>f32 (f32 (f32 (- 1800 * d) / hp) * red)\<bar> \<le> 2 ^ 30" by simp
  have "attack_loss p dmg = to_int32 (f32 (f32 (f32 (- 1800 * f32 d) / f32 hp) * red))"
    using assms(2) by (simp add: attack_loss_def Let_def d_def hp_def red_def)
  then have "attack_loss p dmg = Some (trunc (f32 (f32 (f32 (- 1800 * d) / hp) * red)))"
    using y by (simp only: hp d to_int32_Some)
  moreover have "\<bar>trunc (f32 (f32 (f32 (- 1800 * d) / hp) * red))\<bar> \<le> 2 ^ 30" by (rule trunc_abs_le) (use y in simp)
  ultimately show ?thesis by blast
qed

text \<open>The states in which the losses by attacks are defined: hit points and reductions in range.\<close>

definition fit_target :: "ent \<Rightarrow> int \<Rightarrow> bool" where
  "fit_target p dmg \<longleftrightarrow> \<bar>dmg\<bar> \<le> 2 ^ 17 \<and> \<bar>dmg\<bar> \<le> 2 ^ 7 * GetMaxHP p \<and> 0 < GetMaxHP p \<and>
     GetMaxHP p < 2 ^ 24 \<and> - 100 \<le> getMod p ENMITY_LOSS_REDUCTION"

lemma UpdateEnmityFromAttack_keeps:
  assumes "world_ok w" "fit_target (ents w p) dmg"
  shows "\<exists>w'. UpdateEnmityFromAttack h p dmg w = Some w' \<and> world_ok w'"
proof -
  note ok = world_okD[OF assms(1), of h]
  have "dmg \<le> 2 ^ 7 * GetMaxHP (ents w p)" "- dmg \<le> 2 ^ 7 * GetMaxHP (ents w p)"
    using assms(2) unfolding fit_target_def by linarith+
  then obtain y where y: "attack_loss (ents w p) dmg = Some y" "\<bar>y\<bar> \<le> 2 ^ 30"
    using attack_loss_bounds assms(2) unfolding fit_target_def by blast
  have "add32 (CE e) y = Some (CE e + y) \<and> entry_ok (cap w h) e"
    if "map_of (elist w h) (id (ents w p)) = Some e" for e
    using list_ok_lookup[OF ok(1) that] max_cap_int32[OF ok(2,3) list_ok_lookup[OF ok(1) that]] y
    by (simp add: add32_def max_cap_def abs_le_iff)
  then show ?thesis
    using y ok assms(1) by (auto simp: UpdateEnmityFromAttack_def entry_ok_clamp split: option.split
        intro!: world_ok_upd_list list_ok_update)
qed

lemma UpdateEnmityFromDamage_keeps:
  assumes "world_ok w" "\<bar>dmg\<bar> \<le> 2 ^ 17"
  shows "\<exists>w'. UpdateEnmityFromDamage h q dmg w = Some w' \<and> world_ok w'"
proof (cases q)
  case None
  then show ?thesis using assms(1) by (simp add: UpdateEnmityFromDamage_def)
next
  case (Some p)
  define m where "m = GetEnmityModDamage (int (GetMLevel (ents w h)))"
  define a where "a = (if dmg < 1 then 1 else dmg)"
  have a: "\<bar>a\<bar> < 2 ^ 24" "\<bar>of_int a\<bar> \<le> (2 ^ 17 :: rat)"
  proof -
    have *: "\<bar>a\<bar> \<le> 2 ^ 17" using assms(2) by (auto simp: a_def abs_le_iff)
    then show "\<bar>a\<bar> < 2 ^ 24" by simp
    from * have "of_int \<bar>a\<bar> \<le> (of_int (2 ^ 17) :: rat)" by (simp only: of_int_le_iff)
    then show "\<bar>of_int a\<bar> \<le> (2 ^ 17 :: rat)" by simp
  qed
  have m: "6 \<le> m" by (simp add: m_def GetEnmityModDamage_def)
  have f: "\<exists>y. to_int32 (f32 (f32 (c / of_int m) * f32 (of_int a))) = Some y \<and> \<bar>y\<bar> \<le> 2 ^ 24"
    if "0 \<le> c" "c \<le> 240" for c
  proof -
    have "6 \<le> (of_int m :: rat)" using m by (metis of_int_le_iff of_int_numeral)
    then have "c / of_int m \<le> 240 / 6" using that by (intro frac_le) simp_all
    moreover have "0 \<le> c / of_int m" using that m by simp
    ultimately have "\<bar>f32 (c / of_int m)\<bar> \<le> 41" using f32_nonneg f32_le[of "c / of_int m" 40] by simp
    from f32_mult_le[OF this a(2)] have y: "\<bar>f32 (f32 (c / of_int m) * f32 (of_int a))\<bar> \<le> 2 ^ 24"
      using f32_of_int[OF a(1)] by simp
    then have "to_int32 (f32 (f32 (c / of_int m) * f32 (of_int a))) = Some (trunc (f32 (f32 (c / of_int m) * f32 (of_int a))))"
      by (intro to_int32_Some) simp
    moreover have "\<bar>trunc (f32 (f32 (c / of_int m) * f32 (of_int a)))\<bar> \<le> 2 ^ 24" by (rule trunc_abs_le) (use y in simp)
    ultimately show ?thesis by blast
  qed
  obtain ce ve where cv: "to_int32 (f32 (f32 (80 / of_int m) * f32 (of_int a))) = Some ce" "\<bar>ce\<bar> \<le> 2 ^ 24"
    "to_int32 (f32 (f32 (240 / of_int m) * f32 (of_int a))) = Some ve" "\<bar>ve\<bar> \<le> 2 ^ 24" using f[of 80] f[of 240] by auto
  obtain w1 where w1: "UpdateEnmity h p ce ve False False True w = Some w1" "world_ok w1"
    using UpdateEnmity_keeps[OF assms(1) cv(2,4)] by blast
  have "world_ok (upd_mob h (\<lambda>m. m\<lparr>m_HiPCLvl := max (m_HiPCLvl m) k\<rparr>) w1)" for k
    using w1(2) by (simp add: world_ok_def upd_mob_simps)
  then show ?thesis
    unfolding UpdateEnmityFromDamage_def Let_def m_def[symmetric] a_def[symmetric] using Some cv w1 assms(1) by simp
qed

lemma SetCE_listed:
  assumes "map_of (elist w h) (id (ents w p)) = Some e"
  shows "SetCE h p a w = Some (upd_list h (AList.update (id (ents w p)) (e\<lparr>CE := min a (cap w h)\<rparr>)) w)"
  using assms by (subst SetCE.simps) simp

lemma SetVE_listed:
  assumes "map_of (elist w h) (id (ents w p)) = Some e"
  shows "SetVE h p a w = Some (upd_list h (AList.update (id (ents w p)) (e\<lparr>VE := min a (cap w h)\<rparr>)) w)"
  using assms by (subst SetVE.simps) simp

lemma AddBaseEnmity_lists:
  assumes "map_of (elist w h) (id (ents w p)) = None" "getZone (ents w p) = getZone (ents w h)"
  shows "map_of (elist (AddBaseEnmity h p w) h) (id (ents w p)) =
           Some \<lparr>PEnmityOwner = Some p, CE = 0, VE = 0, active = True\<rparr>"
    "ents (AddBaseEnmity h p w) = ents w"
  using assms by (simp_all add: AddBaseEnmity_def emplace_def map_add_def)

definition reaches :: "hate_world \<Rightarrow> ptr \<Rightarrow> ptr \<Rightarrow> bool" where
  "reaches w h p \<longleftrightarrow> map_of (elist w h) (id (ents w p)) \<noteq> None \<or> getZone (ents w p) = getZone (ents w h)"

lemma SetCE_loops:
  assumes "SetCE h p a w = Some w'"
  shows "reaches w h p"
proof (rule SetCE.raw_induct[where P = "\<lambda>h p a w w'. reaches w h p", OF _ assms])
  fix f h p amount w w'
  assume ih: "\<And>h p a w w'. f h p a w = Some w' \<Longrightarrow> reaches w h p"
    and s: "(case map_of (elist w h) (id (ents w p)) of
        Some e \<Rightarrow> Some (upd_list h (AList.update (id (ents w p)) (e\<lparr>CE := min amount (cap w h)\<rparr>)) w)
      | None \<Rightarrow> f h p amount (AddBaseEnmity h p w)) = Some w'"
  show "reaches w h p"
  proof (cases "map_of (elist w h) (id (ents w p))")
    case None
    then have "reaches (AddBaseEnmity h p w) h p" using ih s by auto
    then show ?thesis using None by (auto simp: reaches_def AddBaseEnmity_def split: if_splits)
  qed (simp add: reaches_def)
qed

lemma SetVE_loops:
  assumes "SetVE h p a w = Some w'"
  shows "reaches w h p"
proof (rule SetVE.raw_induct[where P = "\<lambda>h p a w w'. reaches w h p", OF _ assms])
  fix f h p amount w w'
  assume ih: "\<And>h p a w w'. f h p a w = Some w' \<Longrightarrow> reaches w h p"
    and s: "(case map_of (elist w h) (id (ents w p)) of
        Some e \<Rightarrow> Some (upd_list h (AList.update (id (ents w p)) (e\<lparr>VE := min amount (cap w h)\<rparr>)) w)
      | None \<Rightarrow> f h p amount (AddBaseEnmity h p w)) = Some w'"
  show "reaches w h p"
  proof (cases "map_of (elist w h) (id (ents w p))")
    case None
    then have "reaches (AddBaseEnmity h p w) h p" using ih s by auto
    then show ?thesis using None by (auto simp: reaches_def AddBaseEnmity_def split: if_splits)
  qed (simp add: reaches_def)
qed

lemma SetCE_keeps:
  assumes "world_ok w" "0 \<le> a" "reaches w h p"
  shows "\<exists>w'. SetCE h p a w = Some w' \<and> world_ok w' \<and> GetCE w' h p = min a (cap w h)"
proof (cases "map_of (elist w h) (id (ents w p))")
  case (Some e)
  then show ?thesis
    using assms(1,2) world_okD[OF assms(1), of h] list_ok_lookup[OF world_okD(1)[OF assms(1), of h] Some]
    by (auto simp: SetCE_listed GetCE_def update_conv entry_ok_def intro!: world_ok_upd_list list_ok_update)
next
  case None
  then have z: "getZone (ents w p) = getZone (ents w h)" using assms(3) by (simp add: reaches_def)
  note l = AddBaseEnmity_lists[OF None z]
  have w1: "world_ok (AddBaseEnmity h p w)" using assms(1) by (rule AddBaseEnmity_ok)
  have "cap (AddBaseEnmity h p w) h = cap w h" by (simp add: AddBaseEnmity_def)
  then show ?thesis
    using None assms(2) w1 world_okD[OF w1, of h] l
    by (subst SetCE.simps) (auto simp: SetCE_listed GetCE_def update_conv entry_ok_def intro!: world_ok_upd_list list_ok_update)
qed

lemma SetVE_keeps:
  assumes "world_ok w" "0 \<le> a" "reaches w h p"
  shows "\<exists>w'. SetVE h p a w = Some w' \<and> world_ok w' \<and> GetVE w' h p = min a (cap w h)"
proof (cases "map_of (elist w h) (id (ents w p))")
  case (Some e)
  then show ?thesis
    using assms(1,2) world_okD[OF assms(1), of h] list_ok_lookup[OF world_okD(1)[OF assms(1), of h] Some]
    by (auto simp: SetVE_listed GetVE_def update_conv entry_ok_def intro!: world_ok_upd_list list_ok_update)
next
  case None
  then have z: "getZone (ents w p) = getZone (ents w h)" using assms(3) by (simp add: reaches_def)
  note l = AddBaseEnmity_lists[OF None z]
  have w1: "world_ok (AddBaseEnmity h p w)" using assms(1) by (rule AddBaseEnmity_ok)
  have "cap (AddBaseEnmity h p w) h = cap w h" by (simp add: AddBaseEnmity_def)
  then show ?thesis
    using None assms(2) w1 world_okD[OF w1, of h] l
    by (subst SetVE.simps) (auto simp: SetVE_listed GetVE_def update_conv entry_ok_def intro!: world_ok_upd_list list_ok_update)
qed


text \<open>
  C35: the recursion of \<open>SetCE\<close> ends exactly when the entity is listed or in the zone of the mob
  (\<open>AddBaseEnmity\<close> adds nobody from another zone, and \<open>SetCE\<close> then calls itself on the same
  state); when it ends, the amount that is read back is the one set, lowered to the cap.
\<close>

theorem SetCE_returns:
  "(\<exists>w'. SetCE h p a w = Some w') \<longleftrightarrow>
     HasID w h (id (ents w p)) \<or> getZone (ents w p) = getZone (ents w h)"
proof -
  have "HasID w h (id (ents w p)) \<longleftrightarrow> map_of (elist w h) (id (ents w p)) \<noteq> None"
    by (force simp: HasID_def map_of_eq_None_iff)
  moreover have "\<exists>w'. SetCE h p a w = Some w'" if "reaches w h p"
  proof (cases "map_of (elist w h) (id (ents w p))")
    case (Some e)
    then show ?thesis by (simp add: SetCE_listed)
  next
    case None
    with that have "getZone (ents w p) = getZone (ents w h)" by (simp add: reaches_def)
    from AddBaseEnmity_lists[OF None this] None show ?thesis
      by (subst SetCE.simps) (simp add: SetCE_listed)
  qed
  ultimately show ?thesis using SetCE_loops[of h p a w] by (auto simp: reaches_def)
qed

section \<open>Reachable states\<close>

lemma DecayEnmity_keeps: "world_ok w \<Longrightarrow> world_ok (DecayEnmity h w)"
proof -
  assume w: "world_ok w"
  have "0 \<le> decay_amount" by (simp add: decay_amount_def trunc_nonneg f32_nonneg)
  then have "list_ok c xs \<Longrightarrow> list_ok c (map (\<lambda>(k, e). (k, decay_entry e)) xs)" for c xs
    by (intro list_ok_map) (auto simp: decay_entry_def entry_ok_def)
  then show ?thesis using w by (auto simp: DecayEnmity_def world_okD intro!: world_ok_upd_list)
qed

lemma Clear_enmity_keeps: "world_ok w \<Longrightarrow> world_ok (Clear_enmity h k w)"
proof -
  assume w: "world_ok w"
  have empty: "world_ok (upd_list h (\<lambda>_. []) w')" if "world_ok w'" for w'
    using that by (intro world_ok_upd_list) (simp_all add: list_ok_def)
  have del: "world_ok (upd_list h (AList.delete k) w')" if "world_ok w'" for w'
    using that by (intro world_ok_upd_list list_ok_delete) (simp_all add: world_okD)
  have tame: "world_ok (upd_mob h (\<lambda>m. m\<lparr>m_tameable := True\<rparr>) w') = world_ok w'" for w'
    by (simp add: world_ok_def upd_mob_simps)
  show ?thesis using w
    by (auto simp: Clear_enmity_def Let_def tame intro!: empty del split: option.split)
qed

lemma highest_loop_subset: "highest_loop w h xs = (r, ys) \<Longrightarrow> list_ok c xs \<Longrightarrow> list_ok c ys"
proof (induction w h xs rule: highest_loop.induct)
  case (1 w h xs)
  then show ?case
    by (subst (asm) (3) highest_loop.simps) (auto split: option.splits if_splits intro: list_ok_delete)
qed

lemma GetHighestEnmity_keeps: "world_ok w \<Longrightarrow> world_ok (snd (GetHighestEnmity h w))"
proof -
  assume w: "world_ok w"
  obtain r ys where l: "highest_loop w h (elist w h) = (r, ys)" by fastforce
  from highest_loop_subset[OF this world_okD(1)[OF w]] have "world_ok (upd_list h (\<lambda>_. ys) w)"
    by (intro world_ok_upd_list w)
  then show ?thesis using w l by (simp add: GetHighestEnmity_def)
qed

lemma Cover_keeps:
  assumes "world_ok w" "\<And>q. u = Some q \<Longrightarrow> reaches w h q"
  shows "\<exists>w'. UpdateEnmityFromCover h t u w = Some w' \<and> world_ok w'"
proof (cases "\<exists>tp up. t = Some tp \<and> u = Some up")
  case False
  then show ?thesis using assms(1) by (auto simp: UpdateEnmityFromCover_def split: option.split)
next
  case True
  then obtain tp up where tu: "t = Some tp" "u = Some up" by blast
  note ok = world_okD[OF assms(1), of h]
  have "0 \<le> GetCE w h up \<and> GetCE w h up \<le> max_cap"
    using list_ok_lookup[OF ok(1), of "id (ents w up)"] ok(3)
    by (auto simp: GetCE_def entry_ok_def max_cap_def split: option.split)
  then have g: "add32 (GetCE w h up) 200 = Some (GetCE w h up + 200)" "0 \<le> GetCE w h up + 200"
    by (auto simp: add32_def max_cap_def)
  obtain w1 where w1: "SetCE h up (GetCE w h up + 200) w = Some w1" "world_ok w1"
    using SetCE_keeps[OF assms(1) g(2) assms(2)[OF tu(2)]] by blast
  obtain w2 where "LowerEnmityByPercent h tp 10 None w1 = Some w2" "world_ok w2"
    using LowerEnmityByPercent_keeps[OF w1(2), of 10 h tp None] by auto
  then show ?thesis using tu g w1 by (simp add: UpdateEnmityFromCover_def)
qed

lemma LogoutReset_keeps: "world_ok w \<Longrightarrow> world_ok (LogoutReset h k w)"
  by (auto simp: LogoutReset_def world_okD intro!: world_ok_upd_list list_ok_map_entry)

lemma SetActive_keeps: "world_ok w \<Longrightarrow> world_ok (SetActive h k b w)"
  by (auto simp: SetActive_def world_okD intro!: world_ok_upd_list list_ok_map_entry)

lemma hasEnmity_keeps: "world_ok w \<Longrightarrow> world_ok (snd (noto_hasEnmity p w))"
  by (simp add: noto_hasEnmity_def Let_def world_ok_def elist_def cap_def)

text \<open>One call on some container, with arguments of the sizes the game uses.\<close>

inductive enmity_step :: "hate_world \<Rightarrow> hate_world \<Rightarrow> bool" where
  step_update: "\<bar>ce\<bar> \<le> 2 ^ 24 \<Longrightarrow> \<bar>ve\<bar> \<le> 2 ^ 24 \<Longrightarrow> UpdateEnmity h p ce ve m t d w = Some w' \<Longrightarrow> enmity_step w w'"
| step_cure: "\<bar>a\<bar> \<le> 2 ^ 17 \<Longrightarrow> \<bar>ce\<bar> \<le> 2 ^ 20 \<Longrightarrow> \<bar>ve\<bar> \<le> 2 ^ 20 \<Longrightarrow>
    UpdateEnmityFromCure h p level a ce ve w = Some w' \<Longrightarrow> enmity_step w w'"
| step_damage: "\<bar>a\<bar> \<le> 2 ^ 17 \<Longrightarrow> UpdateEnmityFromDamage h q a w = Some w' \<Longrightarrow> enmity_step w w'"
| step_attack: "fit_target (ents w p) a \<Longrightarrow> UpdateEnmityFromAttack h p a w = Some w' \<Longrightarrow> enmity_step w w'"
| step_lower: "pct \<le> 100 \<Longrightarrow> LowerEnmityByPercent h p pct r w = Some w' \<Longrightarrow> enmity_step w w'"
| step_cover: "UpdateEnmityFromCover h q r w = Some w' \<Longrightarrow> enmity_step w w'"
| step_set_ce: "0 \<le> a \<Longrightarrow> SetCE h p a w = Some w' \<Longrightarrow> enmity_step w w'"
| step_set_ve: "0 \<le> a \<Longrightarrow> SetVE h p a w = Some w' \<Longrightarrow> enmity_step w w'"
| step_base: "enmity_step w (AddBaseEnmity h p w)"
| step_clear: "enmity_step w (Clear_enmity h k w)"
| step_logout: "enmity_step w (LogoutReset h k w)"
| step_active: "enmity_step w (SetActive h k b w)"
| step_decay: "enmity_step w (DecayEnmity h w)"
| step_highest: "enmity_step w (snd (GetHighestEnmity h w))"
| step_notoriety: "enmity_step w (snd (noto_hasEnmity p w))"

lemma cover_reaches:
  "UpdateEnmityFromCover h (Some t) (Some u) w = Some w' \<Longrightarrow> reaches w h u"
  by (auto simp: UpdateEnmityFromCover_def bind_eq_Some_conv dest: SetCE_loops)

lemma Cover_step: "world_ok w \<Longrightarrow> UpdateEnmityFromCover h q r w = Some w' \<Longrightarrow> world_ok w'"
proof -
  assume w: "world_ok w" and s: "UpdateEnmityFromCover h q r w = Some w'"
  show ?thesis
  proof (cases "q = None \<or> r = None")
    case True
    then show ?thesis using w s by (auto simp: UpdateEnmityFromCover_def split: option.splits)
  next
    case False
    then obtain t u where "q = Some t" "r = Some u" by auto
    then show ?thesis using Cover_keeps[OF w, of r h q] s cover_reaches by auto
  qed
qed

lemma enmity_step_ok: "enmity_step w w' \<Longrightarrow> world_ok w \<Longrightarrow> world_ok w'"
proof (induction rule: enmity_step.induct)
  case (step_set_ce a h p w w')
  then show ?case using SetCE_keeps[of w a h p] SetCE_loops[of h p a w w'] by auto
next
  case (step_set_ve a h p w w')
  then show ?case using SetVE_keeps[of w a h p] SetVE_loops[of h p a w w'] by auto
next
  case (step_update ce ve h p m t d w w')
  then show ?case using UpdateEnmity_keeps[of w ce ve h p m t d] by auto
next
  case (step_cure a ce ve h p level w w')
  then show ?case using UpdateEnmityFromCure_keeps[of w a ce ve h p level] by auto
next
  case (step_damage a h q w w')
  then show ?case using UpdateEnmityFromDamage_keeps[of w a h q] by auto
next
  case (step_attack w p a h w')
  then show ?case using UpdateEnmityFromAttack_keeps[of w p a h] by auto
next
  case (step_lower pct h p r w w')
  then show ?case using LowerEnmityByPercent_keeps[of w pct h p r] by auto
qed (auto intro: Cover_step AddBaseEnmity_ok Clear_enmity_keeps LogoutReset_keeps SetActive_keeps
    DecayEnmity_keeps GetHighestEnmity_keeps hasEnmity_keeps)


lemma enmity_reachable_ok: "enmity_step\<^sup>*\<^sup>* w w' \<Longrightarrow> world_ok w \<Longrightarrow> world_ok w'"
  by (induction rule: rtranclp_induct) (auto intro: enmity_step_ok)

text \<open>
  C11: whatever sequence of calls is made on the containers, the cumulative and the volatile enmity
  of every entry of every list stay between zero and the cap of the list, and no list holds an
  entity twice.
\<close>

theorem enmity_within_cap:
  assumes "world_ok w" "enmity_step\<^sup>*\<^sup>* w w'" "(k, e) \<in> set (elist w' h)"
  shows "0 \<le> CE e \<and> CE e \<le> cap w' h \<and> 0 \<le> VE e \<and> VE e \<le> cap w' h \<and> map_of (elist w' h) k = Some e"
  using world_okD(1)[OF enmity_reachable_ok[OF assms(2,1)], of h] assms(3)
  by (auto simp: list_ok_def entry_ok_def)

text \<open>A mob and a player in one zone, for concrete runs.\<close>

definition demo_ent :: ent where
  "demo_ent = \<lparr>id = 16777217, targid = 1, objtype = TYPE_MOB, is_mob_class = True, getZone = 100,
     PInstance = None, allegiance = 0, isDead = False,
     loc_p = \<lparr>pos_x = 0, pos_y = 0, pos_z = 0\<rparr>, PMaster = None, is_thief = False, GetMLevel = 10,
     GetMaxHP = 1000, m_battleTarget = 0, getMod = (\<lambda>_. 0), GetMeritValue = (\<lambda>_. 0),
     has_souleater = False, has_tranquil_heart = False, healing_skill = 0\<rparr>"

definition demo_player :: ent where
  "demo_player = demo_ent\<lparr>id := 70000, targid := 1024, objtype := TYPE_PC, is_mob_class := False, allegiance := 1\<rparr>"

definition demo_world :: hate_world where
  "demo_world = \<lparr>ents = (\<lambda>p. if p = 0 then demo_ent else demo_player),
     mobs = (\<lambda>_. \<lparr>EnmityCap = 30000, m_EnmityList = [], m_tameable = True, is_notorious = False,
                  m_THLvl = 0, m_GilfinderLevel = 0, m_HiPCLvl = 0\<rparr>),
     m_Lookup = (\<lambda>_. {}), GetChar = (\<lambda>_. None)\<rparr>"

lemma demo_world_ok: "world_ok demo_world"
  by (simp add: world_ok_def demo_world_def cap_def elist_def list_ok_def max_cap_def)

theorem enmity_within_cap_witness:
  "map_of (elist (AddBaseEnmity 0 1 demo_world) 0) 70000 =
     Some \<lparr>PEnmityOwner = Some 1, CE = 0, VE = 0, active = True\<rparr>"
proof (rule enmity_within_cap[OF demo_world_ok, THEN conjunct2, THEN conjunct2, THEN conjunct2, THEN conjunct2])
  show "enmity_step\<^sup>*\<^sup>* demo_world (AddBaseEnmity 0 1 demo_world)" by (intro r_into_rtranclp step_base)
  show "(70000, \<lparr>PEnmityOwner = Some 1, CE = 0, VE = 0, active = True\<rparr>) \<in> set (elist (AddBaseEnmity 0 1 demo_world) 0)"
    by (simp add: AddBaseEnmity_def emplace_def) (simp add: demo_world_def demo_ent_def demo_player_def elist_def)
qed

section \<open>The entity that \<open>GetHighestEnmity\<close> returns\<close>

definition candidate :: "hate_world \<Rightarrow> ptr \<Rightarrow> uint32 \<times> EnmityObject_t \<Rightarrow> bool" where
  "candidate w h x \<longleftrightarrow> active (snd x) \<and> hostile w h (snd x)"

lemma scan_highest_spec:
  assumes "b = None \<Longrightarrow> m = 0" "\<And>x. b = Some x \<Longrightarrow> Enmity (snd x) = m"
  shows "(case scan_highest w h xs m b of
      None \<Rightarrow> b = None \<and> (\<forall>y \<in> set xs. \<not> candidate w h y)
    | Some x \<Rightarrow> (b = Some x \<or> x \<in> set xs \<and> candidate w h x) \<and> m \<le> Enmity (snd x) \<and>
        (\<forall>y \<in> set xs. candidate w h y \<longrightarrow> Enmity (snd y) \<le> Enmity (snd x)))"
  using assms
proof (induction xs arbitrary: m b)
  case Nil
  then show ?case by (cases b) auto
next
  case (Cons y ys)
  define enm where "enm = Enmity (snd y)"
  define taken where "taken \<longleftrightarrow> m \<le> enm \<and> active (snd y) \<and> hostile w h (snd y) \<and> \<not> tie_kept w h enm m b"
  have eq: "scan_highest w h (y # ys) m b =
      (if taken then scan_highest w h ys enm (Some y) else scan_highest w h ys m b)"
    by (simp only: scan_highest.simps Let_def taken_def enm_def)
  show ?case
  proof (cases taken)
    case True
    have "m \<le> enm" "candidate w h y" using True by (auto simp: taken_def candidate_def)
    with True Cons.IH[of "Some y" enm] show ?thesis unfolding eq by (force simp: enm_def split: option.splits)
  next
    case False
    have le: "candidate w h y \<Longrightarrow> enm \<le> m" using False by (auto simp: taken_def candidate_def tie_kept_def)
    have none: "b = None \<Longrightarrow> \<not> candidate w h y"
      using False Cons.prems(1) by (auto simp: taken_def candidate_def tie_kept_def)
    have "case scan_highest w h ys m b of
        None \<Rightarrow> b = None \<and> (\<forall>y \<in> set ys. \<not> candidate w h y)
      | Some x \<Rightarrow> (b = Some x \<or> x \<in> set ys \<and> candidate w h x) \<and> m \<le> Enmity (snd x) \<and>
          (\<forall>y \<in> set ys. candidate w h y \<longrightarrow> Enmity (snd y) \<le> Enmity (snd x))"
      by (rule Cons.IH) (use Cons.prems in auto)
    with False le none show ?thesis unfolding eq by (auto simp: enm_def split: option.splits)
  qed
qed

lemma scan_highest_None: "scan_highest w h xs 0 None = None \<Longrightarrow> y \<in> set xs \<Longrightarrow> \<not> candidate w h y"
  using scan_highest_spec[where b = None and m = 0 and w = w and h = h and xs = xs] by simp

lemma scan_highest_Some:
  "scan_highest w h xs 0 None = Some x \<Longrightarrow> x \<in> set xs \<and> candidate w h x \<and>
     (\<forall>y \<in> set xs. candidate w h y \<longrightarrow> Enmity (snd y) \<le> Enmity (snd x))"
  using scan_highest_spec[where b = None and m = 0 and w = w and h = h and xs = xs] by auto

definition valid_entry :: "hate_world \<Rightarrow> ptr \<Rightarrow> uint32 \<times> EnmityObject_t \<Rightarrow> bool" where
  "valid_entry w h x \<longleftrightarrow> (case entry_entity w x of Some p \<Rightarrow> attackable w h p | None \<Rightarrow> False)"

lemma highest_loop_spec:
  assumes "highest_loop w h xs = (r, ys)" "distinct (map fst xs)"
  shows "set ys \<subseteq> set xs \<and> (\<forall>x \<in> set xs - set ys. \<not> valid_entry w h x) \<and>
    (case r of
       None \<Rightarrow> (\<forall>x \<in> set ys. \<not> candidate w h x)
     | Some p \<Rightarrow> attackable w h p \<and> (\<exists>x \<in> set ys. entry_entity w x = Some p \<and> candidate w h x \<and>
         (\<forall>y \<in> set ys. candidate w h y \<longrightarrow> Enmity (snd y) \<le> Enmity (snd x))))"
  using assms
proof (induction w h xs rule: highest_loop.induct)
  case (1 w h xs)
  show ?case
  proof (cases "scan_highest w h xs 0 None")
    case None
    then have "r = None" "ys = xs" using 1(3) by (simp_all add: highest_loop.simps)
    then show ?thesis using scan_highest_None[OF None] by auto
  next
    case (Some x)
    note s = scan_highest_Some[OF Some]
    show ?thesis
    proof (cases "valid_entry w h x")
      case True
      then obtain p where p: "entry_entity w x = Some p" "attackable w h p"
        by (auto simp: valid_entry_def split: option.splits)
      then have "r = Some p" "ys = xs" using 1(3) Some by (simp_all add: highest_loop.simps)
      then show ?thesis using s p by auto
    next
      case False
      have l: "highest_loop w h (AList.delete (fst x) xs) = (r, ys)"
        using 1(3) Some False by (subst (asm) highest_loop.simps) (auto simp: valid_entry_def split: option.splits if_splits)
      have d: "distinct (map fst (AList.delete (fst x) xs))" using 1(4) by (rule distinct_delete)
      have ih: "set ys \<subseteq> set (AList.delete (fst x) xs) \<and>
          (\<forall>x' \<in> set (AList.delete (fst x) xs) - set ys. \<not> valid_entry w h x') \<and>
          (case r of None \<Rightarrow> (\<forall>x \<in> set ys. \<not> candidate w h x)
           | Some p \<Rightarrow> attackable w h p \<and> (\<exists>x \<in> set ys. entry_entity w x = Some p \<and> candidate w h x \<and>
               (\<forall>y \<in> set ys. candidate w h y \<longrightarrow> Enmity (snd y) \<le> Enmity (snd x))))"
      proof (cases "entry_entity w x")
        case None
        then show ?thesis using 1(1)[OF Some _ l d] by simp
      next
        case (Some p)
        then have "\<not> attackable w h p" using False by (simp add: valid_entry_def)
        then show ?thesis using 1(2)[OF \<open>scan_highest w h xs 0 None = Some x\<close> Some _ l d] by simp
      qed
      have same: "y = x" if "y \<in> set xs" "fst y = fst x" for y
        using 1(4) s that by (metis eq_key_imp_eq_value prod.collapse)
      have "\<not> valid_entry w h z" if "z \<in> set xs" "z \<notin> set ys" for z
      proof (cases "fst z = fst x")
        case True
        then show ?thesis using same[OF that(1)] False by simp
      next
        case other: False
        then show ?thesis using that ih by (auto simp: delete_mem)
      qed
      moreover have "set ys \<subseteq> set xs" using ih by (auto simp: delete_mem)
      ultimately show ?thesis using ih by blast
    qed
  qed
qed

lemma uint_Enmity: "entry_ok c e \<Longrightarrow> c \<le> max_cap \<Longrightarrow> uint (Enmity e) = CE e + VE e"
  unfolding Enmity_def uint_word_of_int by (rule mod_pos_pos_trivial) (auto simp: entry_ok_def max_cap_def)

lemma Enmity_le_iff:
  assumes "entry_ok c e" "entry_ok c e'" "c \<le> max_cap"
  shows "Enmity e \<le> Enmity e' \<longleftrightarrow> CE e + VE e \<le> CE e' + VE e'"
  using assms by (simp add: word_le_def uint_Enmity)

text \<open>
  C18: the search for the most hated entity ends with an entity that is alive and in the zone and
  the instance of the mob, and whose entry no other entry of an active enemy exceeds; on the way it
  only drops entries whose entity is dead, gone or elsewhere; it returns nobody only if no entry of
  an active enemy is left.
\<close>

theorem GetHighestEnmity_maximal:
  assumes "world_ok w" "GetHighestEnmity h w = (r, w')"
  shows "set (elist w' h) \<subseteq> set (elist w h) \<and>
    (\<forall>x \<in> set (elist w h) - set (elist w' h). \<not> valid_entry w h x) \<and>
    (case r of
       None \<Rightarrow> (\<forall>x \<in> set (elist w h). candidate w h x \<longrightarrow> \<not> valid_entry w h x)
     | Some p \<Rightarrow> attackable w h p \<and> (\<exists>x \<in> set (elist w' h). entry_entity w x = Some p \<and> candidate w h x \<and>
         (\<forall>y \<in> set (elist w' h). candidate w h y \<longrightarrow>
            CE (snd y) + VE (snd y) \<le> CE (snd x) + VE (snd x))))"
proof (cases "elist w h = []")
  case True
  then show ?thesis using assms(2) by (auto simp: GetHighestEnmity_def)
next
  case False
  obtain r0 ys where l: "highest_loop w h (elist w h) = (r0, ys)" by fastforce
  then have r: "r0 = r" "w' = upd_list h (\<lambda>_. ys) w" using assms(2) False by (simp_all add: GetHighestEnmity_def)
  note ok = world_okD[OF assms(1), of h]
  have d: "distinct (map fst (elist w h))" using ok(1) by (simp add: list_ok_def)
  note s = highest_loop_spec[OF l d, unfolded r(1)]
  have "entry_ok (cap w h) (snd x)" if "x \<in> set ys" for x using s that ok(1) by (auto simp: list_ok_def)
  then have "Enmity (snd y) \<le> Enmity (snd x) \<longleftrightarrow> CE (snd y) + VE (snd y) \<le> CE (snd x) + VE (snd x)"
    if "x \<in> set ys" "y \<in> set ys" for x y using that ok(3) by (intro Enmity_le_iff)
  then show ?thesis using s unfolding r(2) by (auto split: option.splits)
qed


definition demo_hate :: hate_world where
  "demo_hate = AddBaseEnmity 0 1 demo_world"

lemma demo_hate_list: "elist demo_hate 0 = [(70000, \<lparr>PEnmityOwner = Some 1, CE = 0, VE = 0, active = True\<rparr>)]"
  "ents demo_hate = (\<lambda>p. if p = 0 then demo_ent else demo_player)"
  by (simp_all add: demo_hate_def AddBaseEnmity_def emplace_def)
    (simp_all add: demo_world_def demo_ent_def demo_player_def elist_def)

theorem GetHighestEnmity_maximal_witness:
  "fst (GetHighestEnmity 0 demo_hate) = Some 1 \<and> attackable demo_hate 0 1"
proof -
  have r: "fst (GetHighestEnmity 0 demo_hate) = Some 1"
    by (simp add: GetHighestEnmity_def demo_hate_list highest_loop.simps Enmity_def tie_kept_def
        hostile_def entry_entity_def attackable_def demo_ent_def demo_player_def)
  moreover obtain w' where "GetHighestEnmity 0 demo_hate = (Some 1, w')" using r by (metis prod.collapse)
  moreover have "world_ok demo_hate" unfolding demo_hate_def by (rule AddBaseEnmity_ok[OF demo_world_ok])
  ultimately show ?thesis using GetHighestEnmity_maximal[of demo_hate 0 "Some 1" w'] by simp
qed

section \<open>Decay, reductions, and the fate of an entry\<close>

lemma decay_amount_24 [simp]: "decay_amount = 24"
proof -
  have "f32 (of_int 24) = of_int 24" by (rule f32_of_int) simp
  then show ?thesis by (simp add: decay_amount_def trunc_def)
qed

lemma GetVE_Decay: "GetVE (DecayEnmity h w) h p = max 0 (GetVE w h p - 24) \<or> GetVE w h p < 0 \<and> GetVE (DecayEnmity h w) h p = 0"
  by (auto simp: GetVE_def DecayEnmity_def decay_entry_def map_of_map split: option.split)

lemma ents_Decay [simp]: "ents (DecayEnmity h w) = ents w"
  by (simp add: DecayEnmity_def)

lemma GetCE_Decay [simp]: "GetCE (DecayEnmity h w) h p = GetCE w h p"
  by (auto simp: GetCE_def DecayEnmity_def decay_entry_def map_of_map split: option.split)

text \<open>
  C40: volatile enmity fades: after \<open>n\<close> decays (one each logic update) an amount that was not
  negative has lost 24 per decay, down to zero and not below; so it reaches zero, in at most
  1250 updates for an amount up to the default cap of 30000; cumulative enmity does not fade.
\<close>

theorem volatile_enmity_fades:
  assumes "0 \<le> GetVE w h p"
  shows "GetVE ((DecayEnmity h ^^ n) w) h p = max 0 (GetVE w h p - 24 * int n) \<and>
    GetCE ((DecayEnmity h ^^ n) w) h p = GetCE w h p"
proof (induction n)
  case (Suc n)
  then show ?case using GetVE_Decay[of h "(DecayEnmity h ^^ n) w" p] by auto
qed (use assms in simp)

definition hated :: hate_world where
  "hated = upd_list 0 (map (\<lambda>(k, e). (k, e\<lparr>VE := 60\<rparr>))) demo_hate"

lemma hated_VE: "GetVE hated 0 1 = 60"
  using demo_hate_list by (simp add: hated_def GetVE_def elist_def upd_list_def upd_mob_def demo_player_def)

theorem volatile_enmity_fades_witness:
  "GetVE ((DecayEnmity 0 ^^ 2) hated) 0 1 = 12 \<and> GetVE ((DecayEnmity 0 ^^ 3) hated) 0 1 = 0"
  using volatile_enmity_fades[of hated 0 1 2] volatile_enmity_fades[of hated 0 1 3] by (simp add: hated_VE[simplified])

lemma share_all: "0 \<le> a \<Longrightarrow> a \<le> max_cap \<Longrightarrow> share a 100 = Some a"
proof -
  assume a: "0 \<le> a" "a \<le> max_cap"
  have one: "f32 1 = 1" using f32_of_int[of 1] by simp
  have "f32 (of_int a) = of_int a" using a by (intro f32_of_int) (simp add: max_cap_def)
  moreover have "\<bar>of_int a\<bar> \<le> (2 ^ 30 :: rat)"
  proof -
    have "of_int a \<le> (of_int (2 ^ 20) :: rat)" using a(2) unfolding max_cap_def by (simp only: of_int_le_iff)
    then show ?thesis using a(1) by simp
  qed
  ultimately show ?thesis using one by (simp add: share_def to_int32_Some trunc_def)
qed

text \<open>
  Taking 100 percent of the enmity of a listed entity leaves nothing of either component, and
  no percentage up to 100 leaves a negative amount or adds any.
\<close>

theorem LowerEnmityByPercent_takes:
  assumes "world_ok w" "pct \<le> 100" "HasID w h (id (ents w p))"
  shows "\<exists>w'. LowerEnmityByPercent h p pct None w = Some w' \<and>
      0 \<le> GetCE w' h p \<and> GetCE w' h p \<le> GetCE w h p \<and> 0 \<le> GetVE w' h p \<and> GetVE w' h p \<le> GetVE w h p \<and>
      (pct = 100 \<longrightarrow> GetCE w' h p = 0 \<and> GetVE w' h p = 0)"
proof -
  note ok = world_okD[OF assms(1), of h]
  obtain e where e: "map_of (elist w h) (id (ents w p)) = Some e"
    using assms(3) by (cases "map_of (elist w h) (id (ents w p))") (force simp: HasID_def map_of_eq_None_iff)+
  have b: "0 \<le> CE e" "CE e \<le> max_cap" "0 \<le> VE e" "VE e \<le> max_cap"
    using list_ok_lookup[OF ok(1) e] ok(3) by (auto simp: entry_ok_def)
  obtain s t where s: "share (CE e) pct = Some s" "0 \<le> s" "s \<le> CE e"
    and t: "share (VE e) pct = Some t" "0 \<le> t" "t \<le> VE e"
    using share_bounds b assms(2) by meson
  have all: "pct = 100 \<Longrightarrow> s = CE e \<and> t = VE e" using share_all s t b by auto
  show ?thesis
    using e s t b all by (auto simp: LowerEnmityByPercent_def take_share_bounds GetCE_def GetVE_def update_conv)
qed

theorem LowerEnmityByPercent_takes_witness:
  "\<exists>w'. LowerEnmityByPercent 0 1 100 None demo_hate = Some w' \<and> GetCE w' 0 1 = 0"
proof -
  have "world_ok demo_hate" unfolding demo_hate_def by (rule AddBaseEnmity_ok[OF demo_world_ok])
  moreover have "HasID demo_hate 0 (id (ents demo_hate 1))"
    by (simp add: HasID_def demo_hate_list demo_ent_def demo_player_def)
  ultimately show ?thesis using LowerEnmityByPercent_takes[of demo_hate 100 0 1] by auto
qed

section \<open>Notoriety\<close>

text \<open>
  \<open>hasEnmity\<close> looks the owner up in the lists of its mobs by the low 16 bits of its id.  So an
  owner with an id of more than 16 bits is dropped by every mob that has no entry under the
  truncated id, although the mob is alive and hates it.
\<close>

theorem hasEnmity_truncates_id:
  assumes "\<forall>m \<in> m_Lookup w p. is_mob_class (ents w m) \<and> (\<forall>x \<in> set (elist w m). 2 ^ 16 \<le> uint (fst x))"
  shows "noto_hasEnmity p w = (False, w\<lparr>m_Lookup := (m_Lookup w)(p := {})\<rparr>)"
proof -
  have "map_of (elist w m) (ucast (ucast (id (ents w p)) :: uint16)) = None" if "m \<in> m_Lookup w p" for m
  proof -
    have "uint (ucast v :: uint32) < 2 ^ 16" for v :: uint16
      using unsigned_less[of v, where 'a = int] by (simp add: unsigned_ucast_eq take_bit_int_eq_self)
    moreover have "2 ^ 16 \<le> uint (fst x)" if "x \<in> set (elist w m)" for x
      using assms that \<open>m \<in> m_Lookup w p\<close> by blast
    ultimately have "fst x \<noteq> ucast (v :: uint16)" if "x \<in> set (elist w m)" for x v
      using that by (metis linorder_not_le)
    then show ?thesis unfolding map_of_eq_None_iff by (metis imageE)
  qed
  then have "stale w p m" if "m \<in> m_Lookup w p" for m using assms that by (auto simp: stale_def)
  then have "Set.filter (\<lambda>e. \<not> stale w p e) (m_Lookup w p) = {}" by auto
  then show ?thesis by (simp only: noto_hasEnmity_def Let_def) simp
qed

theorem hasEnmity_truncates_id_witness:
  "m_Lookup demo_hate 1 = {0} \<and> HasID demo_hate 0 (id (ents demo_hate 1)) \<and> \<not> fst (noto_hasEnmity 1 demo_hate)"
proof -
  have l: "m_Lookup demo_hate 1 = {0}"
    by (simp add: demo_hate_def AddBaseEnmity_def noto_add_def) (simp add: demo_world_def demo_ent_def demo_player_def)
  have "\<forall>m \<in> m_Lookup demo_hate 1. is_mob_class (ents demo_hate m) \<and> (\<forall>x \<in> set (elist demo_hate m). 2 ^ 16 \<le> uint (fst x))"
    unfolding l by (simp add: demo_hate_list demo_ent_def)
  from hasEnmity_truncates_id[OF this] l show ?thesis
    by (simp add: HasID_def demo_hate_list demo_ent_def demo_player_def)
qed

end
