(* ===== verification/StatusEffects.thy ===== *)
theory StatusEffects
  imports Prelude
begin

unbundle bit_operations_syntax

text \<open>
  \<open>src/map/status_effect_container.cpp\<close> and \<open>src/map/status_effect.cpp\<close>: the status effects of a
  battle entity, the rules by which a new effect is refused or replaces others, songs and rolls, and
  the bookkeeping of the modifiers the effects grant.

  An \<open>owner\<close> holds its effects in the order of the multiset of the code; an effect is changed in
  place and marked as deleted, and only \<open>DeleteStatusEffects\<close> takes it out.  Times are nanoseconds
  of the clock.  The effect table that the server loads from the database and the Lua scripts
  that run when an effect is gained are parameters (\<open>env\<close>); the scripts that run when an effect is
  lost, packets, latents, auras and the recomputation of health are not modelled.
\<close>

section \<open>Effects and their owner\<close>

datatype EFFECTOVERWRITE = EQUAL_HIGHER | HIGHER | NEVER | ALWAYS | IGNORE_DUPLICATE | TIER_HIGHER

record EffectParams_t =
  Flag :: uint32
  Type :: nat
  NegativeId :: nat
  Overwrite :: EFFECTOVERWRITE
  BlockId :: nat
  RemoveId :: nat
  MinDuration :: int
  SortKey :: nat

record effect =
  m_StatusID :: nat
  m_SubID :: nat
  m_Icon :: nat
  m_Power :: nat
  m_SubPower :: nat
  m_Tier :: nat
  m_Flags :: uint32
  m_SourceType :: nat
  m_SourceTypeParam :: nat
  m_Type :: nat
  m_Slot :: nat
  m_TickTime :: int
  m_Duration :: int
  m_StartTime :: int
  m_tickCount :: int
  m_durationHookApplied :: bool
  has_owner :: bool
  modList :: "(nat \<times> 16 word) list"
  deleted :: bool

type_synonym modifiers = "nat \<Rightarrow> 16 word"

record owner =
  m_StatusEffectSet :: "effect list"
  m_modStat :: modifiers
  m_StatusIcons :: "nat list"
  icon_flags :: uint64
  is_pc :: bool
  is_mob_or_pet :: bool
  m_Immunity :: uint32
  has_master :: bool
  alive :: bool
  owner_id :: nat

record env =
  EffectsParams :: "nat \<Rightarrow> EffectParams_t"
  OnEffectGain :: "effect \<Rightarrow> effect"
  OnStatusEffectDuration :: "effect \<Rightarrow> effect"

definition MAX_EFFECTID :: nat where "MAX_EFFECTID = 814"

abbreviation EFFECT_SLEEP :: nat where "EFFECT_SLEEP \<equiv> 2"
abbreviation EFFECT_SLOW :: nat where "EFFECT_SLOW \<equiv> 13"
abbreviation EFFECT_CHARM :: nat where "EFFECT_CHARM \<equiv> 14"
abbreviation EFFECT_CHARM_II :: nat where "EFFECT_CHARM_II \<equiv> 17"
abbreviation EFFECT_SLEEP_II :: nat where "EFFECT_SLEEP_II \<equiv> 19"
abbreviation EFFECT_HASTE :: nat where "EFFECT_HASTE \<equiv> 33"
abbreviation EFFECT_REQUIEM :: nat where "EFFECT_REQUIEM \<equiv> 192"
abbreviation EFFECT_LULLABY :: nat where "EFFECT_LULLABY \<equiv> 193"
abbreviation EFFECT_NOCTURNE :: nat where "EFFECT_NOCTURNE \<equiv> 223"
abbreviation EFFECT_NONE :: nat where "EFFECT_NONE \<equiv> 255"
abbreviation EFFECT_FIRE_MANEUVER :: nat where "EFFECT_FIRE_MANEUVER \<equiv> 300"
abbreviation EFFECT_DARK_MANEUVER :: nat where "EFFECT_DARK_MANEUVER \<equiv> 307"
abbreviation EFFECT_DOUBLE_UP_CHANCE :: nat where "EFFECT_DOUBLE_UP_CHANCE \<equiv> 308"
abbreviation EFFECT_BUST :: nat where "EFFECT_BUST \<equiv> 309"
abbreviation EFFECT_FIGHTERS_ROLL :: nat where "EFFECT_FIGHTERS_ROLL \<equiv> 310"
abbreviation EFFECT_NATURALISTS_ROLL :: nat where "EFFECT_NATURALISTS_ROLL \<equiv> 339"
abbreviation EFFECT_IGNIS :: nat where "EFFECT_IGNIS \<equiv> 523"
abbreviation EFFECT_TENEBRAE :: nat where "EFFECT_TENEBRAE \<equiv> 530"
abbreviation EFFECT_RUNEISTS_ROLL :: nat where "EFFECT_RUNEISTS_ROLL \<equiv> 600"

definition HasEffectFlag :: "uint32 \<Rightarrow> effect \<Rightarrow> bool" where
  "HasEffectFlag fl e \<longleftrightarrow> m_Flags e AND fl \<noteq> 0"

definition is_status :: "nat \<Rightarrow> effect \<Rightarrow> bool" where
  "is_status i e \<longleftrightarrow> m_StatusID e = i \<and> \<not> deleted e"

definition in_range :: "nat \<Rightarrow> nat \<Rightarrow> effect \<Rightarrow> bool" where
  "in_range lo hi e \<longleftrightarrow> lo \<le> m_StatusID e \<and> m_StatusID e \<le> hi \<and> \<not> deleted e"

section \<open>The order of the effects\<close>

definition isSortedByStartTime :: "nat \<Rightarrow> bool" where
  "isSortedByStartTime i \<longleftrightarrow> EFFECT_FIRE_MANEUVER \<le> i \<and> i \<le> EFFECT_DARK_MANEUVER"

definition count_milliseconds :: "int \<Rightarrow> int" where
  "count_milliseconds d = d div 1000000"

definition statusOrdering :: "env \<Rightarrow> effect \<Rightarrow> effect \<Rightarrow> bool" where
  "statusOrdering v a b =
     (let ka = SortKey (EffectsParams v (m_StatusID a)); kb = SortKey (EffectsParams v (m_StatusID b));
          diff = count_milliseconds (m_StartTime a - m_StartTime b)
      in if ka \<noteq> kb then ka < kb
         else if m_Slot a \<noteq> m_Slot b then m_Slot a < m_Slot b
         else if isSortedByStartTime (m_StatusID a) \<and> isSortedByStartTime (m_StatusID b) \<and> diff \<noteq> 0
         then 0 < diff
         else m_StatusID a < m_StatusID b)"

text \<open>A multiset puts a new element behind its equivalents: before the first greater one.\<close>

primrec multiset_insert :: "env \<Rightarrow> effect \<Rightarrow> effect \<Rightarrow> effect list \<Rightarrow> effect list" where
  "multiset_insert v key e [] = [e]"
| "multiset_insert v key e (x # xs) =
     (if statusOrdering v key x then e # x # xs else x # multiset_insert v key e xs)"

section \<open>Queries\<close>

definition uint8_count :: "effect list \<Rightarrow> nat" where
  "uint8_count es = length es mod 256"

definition GetEffectsCount :: "nat \<Rightarrow> owner \<Rightarrow> nat" where
  "GetEffectsCount i s = uint8_count (filter (is_status i) (m_StatusEffectSet s))"

definition flagged_timed :: "uint32 \<Rightarrow> effect \<Rightarrow> bool" where
  "flagged_timed fl e \<longleftrightarrow> HasEffectFlag fl e \<and> 0 < m_Duration e \<and> \<not> deleted e"

definition GetEffectsCountWithFlag :: "uint32 \<Rightarrow> owner \<Rightarrow> nat" where
  "GetEffectsCountWithFlag fl s = uint8_count (filter (flagged_timed fl) (m_StatusEffectSet s))"

primrec lowest_free :: "effect list \<Rightarrow> nat \<Rightarrow> nat" where
  "lowest_free [] n = n"
| "lowest_free (e # es) n =
     (if m_Slot e = n \<and> \<not> deleted e then lowest_free es (Suc n mod 256)
      else if n < m_Slot e then n
      else lowest_free es n)"

definition GetLowestFreeSlot :: "owner \<Rightarrow> nat" where
  "GetLowestFreeSlot s = lowest_free (m_StatusEffectSet s) 1"

definition HasStatusEffect :: "nat \<Rightarrow> owner \<Rightarrow> bool" where
  "HasStatusEffect i s \<longleftrightarrow> (\<exists>e \<in> set (m_StatusEffectSet s). is_status i e)"

definition HasStatusEffectSub :: "nat \<Rightarrow> nat \<Rightarrow> owner \<Rightarrow> bool" where
  "HasStatusEffectSub i sub s \<longleftrightarrow> (\<exists>e \<in> set (m_StatusEffectSet s). is_status i e \<and> m_SubID e = sub)"

definition HasStatusEffectList :: "nat list \<Rightarrow> owner \<Rightarrow> bool" where
  "HasStatusEffectList is s \<longleftrightarrow> (\<exists>e \<in> set (m_StatusEffectSet s). \<not> deleted e \<and> m_StatusID e \<in> set is)"

definition HasStatusEffectByFlag :: "uint32 \<Rightarrow> owner \<Rightarrow> bool" where
  "HasStatusEffectByFlag fl s \<longleftrightarrow> (\<exists>e \<in> set (m_StatusEffectSet s). HasEffectFlag fl e \<and> \<not> deleted e)"

definition GetStatusEffect :: "nat \<Rightarrow> owner \<Rightarrow> effect option" where
  "GetStatusEffect i s = find (is_status i) (m_StatusEffectSet s)"

definition GetStatusEffectSub :: "nat \<Rightarrow> nat \<Rightarrow> owner \<Rightarrow> effect option" where
  "GetStatusEffectSub i sub s = find (\<lambda>e. is_status i e \<and> m_SubID e = sub) (m_StatusEffectSet s)"

definition GetStatusEffectBySource :: "nat \<Rightarrow> nat \<Rightarrow> nat \<Rightarrow> owner \<Rightarrow> effect option" where
  "GetStatusEffectBySource i ty param s =
     find (\<lambda>e. is_status i e \<and> m_SourceType e = ty \<and> m_SourceTypeParam e = param) (m_StatusEffectSet s)"

definition GetStatusEffectsInIDRange :: "nat \<Rightarrow> nat \<Rightarrow> owner \<Rightarrow> nat list" where
  "GetStatusEffectsInIDRange lo hi s = map m_StatusID (filter (in_range lo hi) (m_StatusEffectSet s))"

definition GetStatusEffectCountInIDRange :: "nat \<Rightarrow> nat \<Rightarrow> owner \<Rightarrow> nat" where
  "GetStatusEffectCountInIDRange lo hi s = uint8_count (filter (in_range lo hi) (m_StatusEffectSet s))"

primrec first_best :: "(effect \<Rightarrow> effect \<Rightarrow> bool) \<Rightarrow> effect list \<Rightarrow> effect option \<Rightarrow> effect option" where
  "first_best better [] b = b"
| "first_best better (e # es) b =
     first_best better es (case b of None \<Rightarrow> Some e | Some x \<Rightarrow> if better e x then Some e else Some x)"

definition newer :: "effect \<Rightarrow> effect \<Rightarrow> bool" where
  "newer e x \<longleftrightarrow> m_StartTime x < m_StartTime e"

definition older :: "effect \<Rightarrow> effect \<Rightarrow> bool" where
  "older e x \<longleftrightarrow> m_StartTime e < m_StartTime x"

definition GetNewestStatusEffectInIDRange :: "nat \<Rightarrow> nat \<Rightarrow> owner \<Rightarrow> nat" where
  "GetNewestStatusEffectInIDRange lo hi s =
     (case first_best newer (filter (in_range lo hi) (m_StatusEffectSet s)) None of
        Some e \<Rightarrow> m_StatusID e | None \<Rightarrow> EFFECT_NONE)"

definition HasPreventActionEffect :: "bool \<Rightarrow> owner \<Rightarrow> bool" where
  "HasPreventActionEffect ignoreCharm =
     (if ignoreCharm then HasStatusEffectList [2, 19, 7, 193, 159, 10, 28]
      else HasStatusEffectList [2, 19, 7, 193, 14, 17, 159, 10, 28])"

definition IsAsleep :: "owner \<Rightarrow> bool" where
  "IsAsleep = HasStatusEffectList [EFFECT_SLEEP, EFFECT_SLEEP_II, EFFECT_LULLABY]"

definition is_roll_id :: "nat \<Rightarrow> bool" where
  "is_roll_id i \<longleftrightarrow> (EFFECT_FIGHTERS_ROLL \<le> i \<and> i \<le> EFFECT_NATURALISTS_ROLL) \<or> i = EFFECT_RUNEISTS_ROLL"

definition CheckForElevenRoll :: "owner \<Rightarrow> bool" where
  "CheckForElevenRoll s \<longleftrightarrow>
     (\<exists>e \<in> set (m_StatusEffectSet s). is_roll_id (m_StatusID e) \<and> m_SubPower e = 11)"

definition HasBustEffect :: "nat \<Rightarrow> owner \<Rightarrow> bool" where
  "HasBustEffect i s \<longleftrightarrow>
     (\<exists>e \<in> set (m_StatusEffectSet s). m_StatusID e = EFFECT_BUST \<and> m_SubPower e = i)"

definition HasCorsairEffect :: "nat \<Rightarrow> owner \<Rightarrow> bool" where
  "HasCorsairEffect charid s \<longleftrightarrow>
     (\<exists>e \<in> set (m_StatusEffectSet s). (is_roll_id (m_StatusID e) \<or> m_StatusID e = EFFECT_BUST) \<and>
        (m_SourceTypeParam e = charid \<or> m_StatusID e = EFFECT_BUST))"

definition GetConfrontationEffect :: "owner \<Rightarrow> nat" where
  "GetConfrontationEffect s =
     (case find (HasEffectFlag 0x80000) (m_StatusEffectSet s) of Some e \<Rightarrow> m_Power e | None \<Rightarrow> 0)"

section \<open>Modifiers and removal\<close>

definition addModifiers :: "(nat \<times> 16 word) list \<Rightarrow> modifiers \<Rightarrow> modifiers" where
  "addModifiers ml m = fold (\<lambda>(k, a) m. if k \<noteq> 0 then m(k := m k + a) else m) ml m"

definition delModifiers :: "(nat \<times> 16 word) list \<Rightarrow> modifiers \<Rightarrow> modifiers" where
  "delModifiers ml m = fold (\<lambda>(k, a) m. m(k := m k - a)) ml m"

definition RemoveStatusEffect :: "effect \<Rightarrow> modifiers \<Rightarrow> effect \<times> modifiers" where
  "RemoveStatusEffect e m =
     (if \<not> deleted e then (e\<lparr>deleted := True\<rparr>, delModifiers (modList e) m) else (e, m))"

fun remove_first :: "(effect \<Rightarrow> bool) \<Rightarrow> effect list \<Rightarrow> modifiers \<Rightarrow> bool \<times> effect list \<times> modifiers" where
  "remove_first P [] m = (False, [], m)"
| "remove_first P (e # es) m =
     (if P e then let (e', m') = RemoveStatusEffect e m in (True, e' # es, m')
      else let (b, es', m') = remove_first P es m in (b, e # es', m'))"

fun remove_all :: "(effect \<Rightarrow> bool) \<Rightarrow> effect list \<Rightarrow> modifiers \<Rightarrow> effect list \<times> modifiers" where
  "remove_all P [] m = ([], m)"
| "remove_all P (e # es) m =
     (let (e', m') = (if P e then RemoveStatusEffect e m else (e, m));
          (es', m'') = remove_all P es m'
      in (e' # es', m''))"

definition with_first :: "(effect \<Rightarrow> bool) \<Rightarrow> owner \<Rightarrow> bool \<times> owner" where
  "with_first P s =
     (let (b, es, m) = remove_first P (m_StatusEffectSet s) (m_modStat s)
      in (b, s\<lparr>m_StatusEffectSet := es, m_modStat := m\<rparr>))"

definition with_all :: "(effect \<Rightarrow> bool) \<Rightarrow> owner \<Rightarrow> owner" where
  "with_all P s =
     (let (es, m) = remove_all P (m_StatusEffectSet s) (m_modStat s)
      in s\<lparr>m_StatusEffectSet := es, m_modStat := m\<rparr>)"

definition DelStatusEffect :: "nat \<Rightarrow> owner \<Rightarrow> bool \<times> owner" where
  "DelStatusEffect i = with_first (is_status i)"

definition DelStatusEffectSilent :: "nat \<Rightarrow> owner \<Rightarrow> bool \<times> owner" where
  "DelStatusEffectSilent i = with_first (is_status i)"

definition DelStatusEffectSub :: "nat \<Rightarrow> nat \<Rightarrow> owner \<Rightarrow> bool \<times> owner" where
  "DelStatusEffectSub i sub = with_first (\<lambda>e. is_status i e \<and> m_SubID e = sub)"

definition DelStatusEffectBySource :: "nat \<Rightarrow> nat \<Rightarrow> nat \<Rightarrow> owner \<Rightarrow> bool \<times> owner" where
  "DelStatusEffectBySource i ty param =
     with_first (\<lambda>e. is_status i e \<and> m_SourceType e = ty \<and> m_SourceTypeParam e = param)"

definition DelStatusEffectByTier :: "nat \<Rightarrow> nat \<Rightarrow> owner \<Rightarrow> bool \<times> owner" where
  "DelStatusEffectByTier i tier = with_first (\<lambda>e. is_status i e \<and> m_Tier e = tier)"

definition DelStatusEffectsByIcon :: "nat \<Rightarrow> owner \<Rightarrow> owner" where
  "DelStatusEffectsByIcon icon = with_all (\<lambda>e. m_Icon e = icon \<and> \<not> HasEffectFlag 0x800000 e)"

definition DelStatusEffectsByType :: "nat \<Rightarrow> owner \<Rightarrow> owner" where
  "DelStatusEffectsByType ty s = (if ty = 0 then s else with_all (\<lambda>e. m_Type e = ty) s)"

definition DelStatusEffectsByFlag :: "uint32 \<Rightarrow> owner \<Rightarrow> owner" where
  "DelStatusEffectsByFlag fl =
     with_all (\<lambda>e. HasEffectFlag fl e \<and>
       \<not> (fl AND 0x10 \<noteq> 0 \<and> m_StatusID e = EFFECT_SLEEP \<and> 5 \<le> m_Tier e))"

definition RemoveAllStatusEffectsInIDRange :: "nat \<Rightarrow> nat \<Rightarrow> owner \<Rightarrow> owner" where
  "RemoveAllStatusEffectsInIDRange lo hi = with_all (\<lambda>e. lo \<le> m_StatusID e \<and> m_StatusID e \<le> hi)"

definition WakeUp :: "owner \<Rightarrow> owner" where
  "WakeUp s = snd (DelStatusEffect EFFECT_LULLABY (snd (DelStatusEffect EFFECT_SLEEP_II
     (snd (DelStatusEffect EFFECT_SLEEP s)))))"

text \<open>Removal of the effect at a position of the set.\<close>

definition remove_at :: "nat \<Rightarrow> owner \<Rightarrow> owner" where
  "remove_at i s =
     (let (e, m) = RemoveStatusEffect (m_StatusEffectSet s ! i) (m_modStat s)
      in s\<lparr>m_StatusEffectSet := (m_StatusEffectSet s)[i := e], m_modStat := m\<rparr>)"

definition positions :: "(effect \<Rightarrow> bool) \<Rightarrow> owner \<Rightarrow> nat list" where
  "positions P s = filter (\<lambda>i. P (m_StatusEffectSet s ! i)) [0..<length (m_StatusEffectSet s)]"

text \<open>\<open>rnd\<close> is the number the generator draws below the number of candidates.\<close>

definition remove_random :: "(effect \<Rightarrow> bool) \<Rightarrow> nat \<Rightarrow> owner \<Rightarrow> nat option \<times> owner" where
  "remove_random P rnd s =
     (let is = positions P s in
      if is = [] then (None, s) else (Some (is ! rnd), remove_at (is ! rnd) s))"

definition EraseStatusEffect :: "nat \<Rightarrow> owner \<Rightarrow> nat \<times> owner" where
  "EraseStatusEffect rnd s =
     (case remove_random (flagged_timed 2) rnd s of
        (None, s') \<Rightarrow> (EFFECT_NONE, s') | (Some i, s') \<Rightarrow> (m_StatusID (m_StatusEffectSet s ! i), s'))"

definition HealingWaltz :: "nat \<Rightarrow> owner \<Rightarrow> nat \<times> owner" where
  "HealingWaltz rnd s =
     (case remove_random (\<lambda>e. (HasEffectFlag 0x4000 e \<or> HasEffectFlag 2 e) \<and> 0 < m_Duration e \<and> \<not> deleted e) rnd s of
        (None, s') \<Rightarrow> (EFFECT_NONE, s') | (Some i, s') \<Rightarrow> (m_StatusID (m_StatusEffectSet s ! i), s'))"

definition EraseAllStatusEffect :: "owner \<Rightarrow> nat \<times> owner" where
  "EraseAllStatusEffect s =
     (uint8_count (filter (flagged_timed 2) (m_StatusEffectSet s)), with_all (flagged_timed 2) s)"

definition DispelStatusEffect :: "uint32 \<Rightarrow> nat \<Rightarrow> owner \<Rightarrow> nat \<times> owner" where
  "DispelStatusEffect fl rnd s =
     (case remove_random (flagged_timed fl) rnd s of
        (None, s') \<Rightarrow> (EFFECT_NONE, s') | (Some i, s') \<Rightarrow> (m_StatusID (m_StatusEffectSet s ! i), s'))"

definition DispelAllStatusEffect :: "uint32 \<Rightarrow> owner \<Rightarrow> nat \<times> owner" where
  "DispelAllStatusEffect fl s =
     (uint8_count (filter (flagged_timed fl) (m_StatusEffectSet s)), with_all (flagged_timed fl) s)"

text \<open>The copy that a thief gets: the fields the constructor takes, no owner, no modifiers, slot 0.\<close>

definition effect_copy :: "effect \<Rightarrow> effect" where
  "effect_copy e = e\<lparr>m_Type := 0, m_Slot := 0, m_StartTime := 0, m_tickCount := 0,
     has_owner := False, modList := [], deleted := False\<rparr>"

definition StealStatusEffect :: "uint32 \<Rightarrow> nat \<Rightarrow> owner \<Rightarrow> effect option \<times> owner" where
  "StealStatusEffect fl rnd s =
     (case remove_random (flagged_timed fl) rnd s of
        (None, s') \<Rightarrow> (None, s')
      | (Some i, s') \<Rightarrow> (Some (effect_copy (m_StatusEffectSet s ! i)), s'))"

definition remove_best :: "(effect \<Rightarrow> effect \<Rightarrow> bool) \<Rightarrow> nat \<Rightarrow> nat \<Rightarrow> owner \<Rightarrow> owner" where
  "remove_best better lo hi s =
     (case fold (\<lambda>i b. case b of None \<Rightarrow> Some i
                   | Some j \<Rightarrow> if better (m_StatusEffectSet s ! i) (m_StatusEffectSet s ! j) then Some i else Some j)
             (positions (in_range lo hi) s) None of
        None \<Rightarrow> s | Some i \<Rightarrow> remove_at i s)"

definition RemoveOldestStatusEffectInIDRange :: "nat \<Rightarrow> nat \<Rightarrow> owner \<Rightarrow> owner" where
  "RemoveOldestStatusEffectInIDRange = remove_best older"

definition RemoveNewestStatusEffectInIDRange :: "nat \<Rightarrow> nat \<Rightarrow> owner \<Rightarrow> owner" where
  "RemoveNewestStatusEffectInIDRange = remove_best newer"

primrec kill_loop :: "effect list \<Rightarrow> modifiers \<Rightarrow> effect list \<times> modifiers" where
  "kill_loop [] m = ([], m)"
| "kill_loop (e # es) m =
     (if m_Duration e \<noteq> 0 then kill_loop es (delModifiers (modList e) m)
      else let (es', m') = kill_loop es m in (e # es', m'))"

definition KillAllStatusEffect :: "owner \<Rightarrow> owner" where
  "KillAllStatusEffect s =
     (let (es, m) = kill_loop (m_StatusEffectSet s) (m_modStat s)
      in s\<lparr>m_StatusEffectSet := es, m_modStat := m\<rparr>)"

section \<open>Icons\<close>

fun icon_loop :: "effect list \<Rightarrow> nat \<Rightarrow> nat list \<Rightarrow> uint64 \<Rightarrow> nat list \<times> uint64" where
  "icon_loop [] n icons fl = (icons, fl)"
| "icon_loop (e # es) n icons fl =
     (if m_Icon e \<noteq> 0
      then (let fl = (if 256 \<le> m_Icon e \<and> m_Icon e < 512 then fl OR push_bit (n * 2) 1 else fl);
                fl = (if 512 \<le> m_Icon e then fl OR push_bit (n * 2 + 1) 1 else fl);
                icons = icons[n := m_Icon e mod 256]
            in if Suc n = 32 then (icons, fl) else icon_loop es (Suc n) icons fl)
      else icon_loop es n icons fl)"

definition UpdateStatusIcons :: "owner \<Rightarrow> owner" where
  "UpdateStatusIcons s =
     (if \<not> is_pc s then s
      else let (icons, fl) = icon_loop (m_StatusEffectSet s) 0 (replicate 32 255) 0
           in s\<lparr>m_StatusIcons := icons, icon_flags := fl\<rparr>)"

definition DeleteStatusEffects :: "owner \<Rightarrow> owner" where
  "DeleteStatusEffects s =
     (let gone = filter deleted (m_StatusEffectSet s);
          s1 = s\<lparr>m_StatusEffectSet := filter (\<lambda>e. \<not> deleted e) (m_StatusEffectSet s)\<rparr>
      in if \<exists>e \<in> set gone. m_Icon e \<noteq> 0 then UpdateStatusIcons s1 else s1)"

definition CheckEffectsExpiry :: "int \<Rightarrow> owner \<Rightarrow> owner" where
  "CheckEffectsExpiry tick s =
     DeleteStatusEffects (with_all (\<lambda>e. m_Duration e \<noteq> 0 \<and> m_StartTime e + m_Duration e \<le> tick) s)"

section \<open>Gaining an effect\<close>

definition hasImmunity :: "uint32 \<Rightarrow> owner \<Rightarrow> bool" where
  "hasImmunity im s \<longleftrightarrow> is_mob_or_pet s \<and> m_Immunity s AND im \<noteq> 0"

definition immunity_of :: "nat \<Rightarrow> uint32 option" where
  "immunity_of i = map_of [(12, 0x2), (11, 0x4), (10, 0x8), (6, 0x10), (4, 0x20), (5, 0x40), (13, 0x80),
     (3, 0x100), (194, 0x200), (192, 0x400), (28, 0x4000), (7, 0x10000)] i"

definition immune :: "effect \<Rightarrow> owner \<Rightarrow> bool" where
  "immune e s =
     (if m_StatusID e \<in> {EFFECT_SLEEP, EFFECT_SLEEP_II, EFFECT_LULLABY}
      then (m_SubPower e = 7 \<and> hasImmunity 0x800 s) \<or> (m_SubPower e = 8 \<and> hasImmunity 0x1000 s)
      else (case immunity_of (m_StatusID e) of None \<Rightarrow> False | Some im \<Rightarrow> hasImmunity im s))"

definition both_tiered :: "effect \<Rightarrow> effect \<Rightarrow> bool" where
  "both_tiered e x \<longleftrightarrow> m_Tier e \<noteq> 0 \<and> m_Tier x \<noteq> 0"

definition can_overwrite :: "EFFECTOVERWRITE \<Rightarrow> effect \<Rightarrow> effect \<Rightarrow> bool" where
  "can_overwrite ow e x =
     (case ow of
        ALWAYS \<Rightarrow> True
      | IGNORE_DUPLICATE \<Rightarrow> True
      | NEVER \<Rightarrow> False
      | EQUAL_HIGHER \<Rightarrow> if both_tiered e x then m_Tier x \<le> m_Tier e else m_Power x \<le> m_Power e
      | HIGHER \<Rightarrow> if both_tiered e x then m_Tier x < m_Tier e else m_Power x < m_Power e
      | TIER_HIGHER \<Rightarrow> both_tiered e x \<and> m_Tier x < m_Tier e)"

definition beats_negative :: "nat \<Rightarrow> effect \<Rightarrow> effect \<Rightarrow> bool" where
  "beats_negative neg e n =
     (if m_StatusID e = EFFECT_HASTE \<and> m_StatusID n = EFFECT_SLOW \<and> m_SubPower n = 1 then True
      else if both_tiered e n
      then (if m_Tier e = m_Tier n then neg < m_StatusID e else m_Tier n < m_Tier e)
      else m_Power n \<le> m_Power e)"

definition CanGainStatusEffect :: "env \<Rightarrow> effect \<Rightarrow> owner \<Rightarrow> bool" where
  "CanGainStatusEffect v e s =
     (let i = m_StatusID e; p = EffectsParams v i in
      if immune e s then False
      else if (i = EFFECT_CHARM \<or> i = EFFECT_CHARM_II) \<and> has_master s then False
      else if BlockId p \<noteq> 0 \<and> HasStatusEffect (BlockId p) s then False
      else (case (if NegativeId p \<noteq> 0 then GetStatusEffect (NegativeId p) s else None) of
              Some n \<Rightarrow> beats_negative (NegativeId p) e n
            | None \<Rightarrow> (case GetStatusEffect i s of
                         None \<Rightarrow> True | Some x \<Rightarrow> can_overwrite (Overwrite p) e x)))"

definition OverwriteStatusEffect :: "env \<Rightarrow> effect \<Rightarrow> owner \<Rightarrow> owner" where
  "OverwriteStatusEffect v e s =
     (let i = m_StatusID e; p = EffectsParams v i;
          s1 = (if Overwrite p \<noteq> IGNORE_DUPLICATE then snd (DelStatusEffectSilent i s) else s);
          s2 = (if 0 < RemoveId p then snd (DelStatusEffectSilent (RemoveId p) s1) else s1)
      in if 0 < NegativeId p then snd (DelStatusEffectSilent (NegativeId p) s2) else s2)"

definition SetEffectParams :: "env \<Rightarrow> effect \<Rightarrow> effect" where
  "SetEffectParams v e =
     (if MAX_EFFECTID \<le> m_StatusID e \<or> (m_StatusID e = EFFECT_NONE \<and> m_SubID e = 0) then e
      else e\<lparr>m_Flags := m_Flags e OR Flag (EffectsParams v (m_StatusID e)),
             m_Type := Type (EffectsParams v (m_StatusID e))\<rparr>)"

text \<open>\<open>SetIcon\<close> does nothing (but warn) for an effect that has no owner yet.\<close>

definition SetIcon :: "nat \<Rightarrow> effect \<Rightarrow> effect" where
  "SetIcon icon e = (if has_owner e then e\<lparr>m_Icon := icon\<rparr> else e)"

definition HandleEffectGainSideEffects :: "owner \<Rightarrow> effect \<Rightarrow> effect" where
  "HandleEffectGainSideEffects s e =
     (if alive s \<and> HasPreventActionEffect False s \<and>
         (m_StatusID e = EFFECT_SLEEP_II \<or> m_StatusID e = EFFECT_LULLABY)
      then SetIcon EFFECT_SLEEP e else e)"

definition AddStatusEffect :: "env \<Rightarrow> int \<Rightarrow> effect \<Rightarrow> owner \<Rightarrow> bool \<times> owner" where
  "AddStatusEffect v now e s =
     (if MAX_EFFECTID \<le> m_StatusID e \<or> \<not> CanGainStatusEffect v e s then (False, s)
      else
        let mind = MinDuration (EffectsParams v (m_StatusID e));
            e1 = (if m_Duration e < mind then e\<lparr>m_Duration := mind\<rparr> else e);
            s1 = OverwriteStatusEffect v e1 s;
            e2 = SetEffectParams v e1;
            e3 = (if m_durationHookApplied e2 then e2
                  else (OnStatusEffectDuration v e2)\<lparr>m_durationHookApplied := True\<rparr>);
            s2 = DelStatusEffectsByType (m_Type e3) s1;
            e4 = e3\<lparr>m_tickCount := 0, m_StartTime := now\<rparr>;
            s3 = s2\<lparr>m_StatusEffectSet := multiset_insert v e4 e4 (m_StatusEffectSet s2)\<rparr>;
            e5 = HandleEffectGainSideEffects s3 e4;
            e6 = (OnEffectGain v e5)\<lparr>has_owner := True\<rparr>;
            s4 = s2\<lparr>m_StatusEffectSet := multiset_insert v e4 e6 (m_StatusEffectSet s2),
                    m_modStat := addModifiers (modList e6) (m_modStat s2)\<rparr>
        in (True, if m_Icon e6 \<noteq> 0 then UpdateStatusIcons s4 else s4))"

text \<open>\<open>addMod\<close> and \<open>setMod\<close> of an effect that is in the set change the owner as well.\<close>

fun bump_mod :: "nat \<Rightarrow> 16 word \<Rightarrow> (nat \<times> 16 word) list \<Rightarrow> (nat \<times> 16 word) list" where
  "bump_mod k a [] = [(k, a)]"
| "bump_mod k a ((k', b) # ml) = (if k' = k then (k', b + a) # ml else (k', b) # bump_mod k a ml)"

fun put_mod :: "nat \<Rightarrow> 16 word \<Rightarrow> (nat \<times> 16 word) list \<Rightarrow> (nat \<times> 16 word) list" where
  "put_mod k a [] = [(k, a)]"
| "put_mod k a ((k', b) # ml) = (if k' = k then (k', a) # ml else (k', b) # put_mod k a ml)"

definition addModifier :: "nat \<Rightarrow> 16 word \<Rightarrow> modifiers \<Rightarrow> modifiers" where
  "addModifier k a m = (if k \<noteq> 0 then m(k := m k + a) else m)"

definition effect_addMod :: "nat \<Rightarrow> nat \<Rightarrow> 16 word \<Rightarrow> owner \<Rightarrow> owner" where
  "effect_addMod i k a s =
     (let e = m_StatusEffectSet s ! i
      in s\<lparr>m_StatusEffectSet := (m_StatusEffectSet s)[i := e\<lparr>modList := bump_mod k a (modList e)\<rparr>],
           m_modStat := (if has_owner e then addModifier k a (m_modStat s) else m_modStat s)\<rparr>)"

definition effect_setMod :: "nat \<Rightarrow> nat \<Rightarrow> 16 word \<Rightarrow> owner \<Rightarrow> owner" where
  "effect_setMod i k a s =
     (let e = m_StatusEffectSet s ! i;
          d = (case map_of (modList e) k of Some b \<Rightarrow> a - b | None \<Rightarrow> a)
      in s\<lparr>m_StatusEffectSet := (m_StatusEffectSet s)[i := e\<lparr>modList := put_mod k a (modList e)\<rparr>],
           m_modStat := (if has_owner e then addModifier k d (m_modStat s) else m_modStat s)\<rparr>)"

section \<open>Ticks\<close>

definition tick_due :: "int \<Rightarrow> effect \<Rightarrow> bool" where
  "tick_due tick e \<longleftrightarrow> m_TickTime e \<noteq> 0 \<and> m_tickCount e < (tick - m_StartTime e) div m_TickTime e"

definition TickEffects :: "int \<Rightarrow> owner \<Rightarrow> owner" where
  "TickEffects tick s =
     DeleteStatusEffects (if alive s
       then s\<lparr>m_StatusEffectSet := map (\<lambda>e. if tick_due tick e then e\<lparr>m_tickCount := m_tickCount e + 1\<rparr> else e) (m_StatusEffectSet s)\<rparr> else s)"


section \<open>Songs and rolls\<close>

definition end_time :: "effect \<Rightarrow> int" where
  "end_time e = m_StartTime e + m_Duration e"

text \<open>
  The loop over the set: \<open>is\<close> are the positions still to visit, \<open>n\<close> the songs of the same bard
  counted so far (a \<open>uint8\<close>), \<open>oldest\<close> the position of the one that ends first.
\<close>

fun bard_loop ::
  "nat list \<Rightarrow> effect \<Rightarrow> nat \<Rightarrow> nat option \<Rightarrow> owner \<Rightarrow> effect \<times> nat \<times> nat option \<times> owner" where
  "bard_loop [] e n oldest s = (e, n, oldest, s)"
| "bard_loop (i # is) e n oldest s =
     (let x = m_StatusEffectSet s ! i in
      if EFFECT_REQUIEM \<le> m_StatusID x \<and> m_StatusID x \<le> EFFECT_NOCTURNE
      then
        (let same = (m_Tier x = m_Tier e \<and> m_StatusID x = m_StatusID e);
             e1 = (if same then e\<lparr>m_Slot := m_Slot x\<rparr> else e);
             s1 = (if same then snd (DelStatusEffectByTier (m_StatusID e) (m_Tier e) s) else s)
         in if m_SubID x = m_SubID e
            then bard_loop is e1 (Suc n mod 256)
                   (case oldest of None \<Rightarrow> Some i
                    | Some j \<Rightarrow> if end_time x < end_time (m_StatusEffectSet s ! j) then Some i else Some j) s1
            else bard_loop is e1 n oldest s1)
      else bard_loop is e n oldest s)"

definition ApplyBardEffect :: "env \<Rightarrow> int \<Rightarrow> effect \<Rightarrow> nat \<Rightarrow> owner \<Rightarrow> bool \<times> owner" where
  "ApplyBardEffect v now e maxSongs s =
     (case bard_loop [0..<length (m_StatusEffectSet s)] e 0 None s of (e1, n, oldest, s1) \<Rightarrow>
        if n < maxSongs
        then (True, snd (AddStatusEffect v now
               (if m_Slot e1 = 0 then e1\<lparr>m_Slot := GetLowestFreeSlot s1\<rparr> else e1) s1))
        else (case oldest of
            Some j \<Rightarrow>
              let x = m_StatusEffectSet s1 ! j
              in (True, snd (AddStatusEffect v now (e1\<lparr>m_Slot := m_Slot x\<rparr>)
                   (snd (DelStatusEffectByTier (m_StatusID x) (m_Tier x) s1))))
          | None \<Rightarrow> (False, s1)))"

definition bust_effect :: "effect \<Rightarrow> effect \<Rightarrow> nat \<Rightarrow> effect" where
  "bust_effect e x bustDuration =
     (effect_copy e)\<lparr>m_StatusID := EFFECT_BUST, m_Icon := EFFECT_BUST, m_TickTime := 0,
       m_Duration := (300 - int bustDuration) * 1000000000, m_Flags := 0,
       m_SourceType := m_SourceType x, m_SourceTypeParam := m_SourceTypeParam x,
       m_durationHookApplied := False\<rparr>"

datatype corsair_result =
  cor_counted nat "nat option"
  | cor_done owner

text \<open>A double-up replaces the roll, or busts; both end the loop.\<close>

definition double_up :: "env \<Rightarrow> int \<Rightarrow> effect \<Rightarrow> nat \<Rightarrow> effect \<Rightarrow> owner \<Rightarrow> owner" where
  "double_up v now e bustDuration x s =
     (if m_SubPower e < 12
      then snd (AddStatusEffect v now
             (e\<lparr>m_Duration := m_Duration x, m_durationHookApplied := m_durationHookApplied x,
                m_Slot := m_Slot x\<rparr>)
             (snd (DelStatusEffectSilent (m_StatusID e) s)))
      else
        let s1 = (if m_SourceTypeParam x = owner_id s \<and> \<not> CheckForElevenRoll s
                  then snd (DelStatusEffectSilent EFFECT_DOUBLE_UP_CHANCE
                         (snd (AddStatusEffect v now (bust_effect e x bustDuration) s)))
                  else s)
        in snd (DelStatusEffectSilent (m_StatusID e) s1))"

fun corsair_loop ::
  "env \<Rightarrow> int \<Rightarrow> effect \<Rightarrow> nat \<Rightarrow> owner \<Rightarrow> nat list \<Rightarrow> nat \<Rightarrow> nat option \<Rightarrow> corsair_result" where
  "corsair_loop v now e bustDuration s [] n oldest = cor_counted n oldest"
| "corsair_loop v now e bustDuration s (i # is) n oldest =
     (let x = m_StatusEffectSet s ! i; bust = (m_StatusID x = EFFECT_BUST) in
      if is_roll_id (m_StatusID x) \<or> bust
      then
        if m_StatusID x = m_StatusID e \<and> m_SourceTypeParam x = m_SourceTypeParam e \<and> m_SubPower x < m_SubPower e
        then cor_done (double_up v now e bustDuration x s)
        else if m_SourceTypeParam x = m_SourceTypeParam e \<or> bust
        then corsair_loop v now e bustDuration s is
               (if bust \<and> m_SourceTypeParam e \<noteq> owner_id s then n else Suc n mod 256)
               (if bust then oldest
                else case oldest of None \<Rightarrow> Some i
                   | Some j \<Rightarrow> if end_time x < end_time (m_StatusEffectSet s ! j) then Some i else Some j)
        else corsair_loop v now e bustDuration s is n oldest
      else corsair_loop v now e bustDuration s is n oldest)"

definition ApplyCorsairEffect :: "env \<Rightarrow> int \<Rightarrow> effect \<Rightarrow> nat \<Rightarrow> nat \<Rightarrow> owner \<Rightarrow> bool \<times> owner" where
  "ApplyCorsairEffect v now e maxRolls bustDuration s =
     (if \<not> is_roll_id (m_StatusID e) then (False, s)
      else case corsair_loop v now e bustDuration s [0..<length (m_StatusEffectSet s)] 0 None of
          cor_done s' \<Rightarrow> (True, s')
        | cor_counted n oldest \<Rightarrow>
            if n < maxRolls
            then (True, snd (AddStatusEffect v now (e\<lparr>m_Slot := GetLowestFreeSlot s\<rparr>) s))
            else (case oldest of
                Some j \<Rightarrow>
                  let x = m_StatusEffectSet s ! j
                  in (True, snd (AddStatusEffect v now (e\<lparr>m_Slot := m_Slot x\<rparr>)
                       (snd (DelStatusEffect (m_StatusID x) s))))
              | None \<Rightarrow> (False, s)))"

definition fold_better :: "effect \<Rightarrow> effect \<Rightarrow> bool" where
  "fold_better e x \<longleftrightarrow>
     (if m_StatusID e = EFFECT_BUST
      then (if m_StatusID x = EFFECT_BUST then newer e x else True)
      else m_StatusID x \<noteq> EFFECT_BUST \<and> newer e x)"

definition Fold :: "nat \<Rightarrow> owner \<Rightarrow> owner" where
  "Fold charid s =
     (case fold (\<lambda>i b. case b of None \<Rightarrow> Some i
                   | Some j \<Rightarrow> if fold_better (m_StatusEffectSet s ! i) (m_StatusEffectSet s ! j) then Some i else Some j)
             (positions (\<lambda>e. (is_roll_id (m_StatusID e) \<or> m_StatusID e = EFFECT_BUST) \<and>
                             (m_SourceTypeParam e = charid \<or> m_StatusID e = EFFECT_BUST)) s) None of
        None \<Rightarrow> s | Some i \<Rightarrow> snd (DelStatusEffectSilent EFFECT_DOUBLE_UP_CHANCE (remove_at i s)))"

definition CopyConfrontationEffect :: "env \<Rightarrow> int \<Rightarrow> owner \<Rightarrow> owner \<Rightarrow> owner" where
  "CopyConfrontationEffect v now s target =
     fold (\<lambda>e t. if HasEffectFlag 0x80000 e then snd (AddStatusEffect v now e t) else t)
       (m_StatusEffectSet s) target"

section \<open>Every modifier an owner has beyond its own comes from a live effect\<close>

definition mods_of :: "(nat \<times> 16 word) list \<Rightarrow> modifiers" where
  "mods_of ml k = sum_list (map (\<lambda>(k', a). if k' = k then a else 0) ml)"

definition live_mods :: "effect list \<Rightarrow> modifiers" where
  "live_mods es k = sum_list (map (\<lambda>e. if deleted e then 0 else mods_of (modList e) k) es)"

lemma live_mods_simps [simp]:
  "live_mods [] k = 0"
  "live_mods (e # es) k = (if deleted e then 0 else mods_of (modList e) k) + live_mods es k"
  by (simp_all add: live_mods_def)

lemma mods_of_simps [simp]:
  "mods_of [] k = 0" "mods_of ((k', a) # ml) k = (if k' = k then a else 0) + mods_of ml k"
  by (simp_all add: mods_of_def)

lemma addModifiers_apply: "k \<noteq> 0 \<Longrightarrow> addModifiers ml m k = m k + mods_of ml k"
  by (induction ml arbitrary: m) (auto simp: addModifiers_def algebra_simps)

lemma delModifiers_apply: "delModifiers ml m k = m k - mods_of ml k"
  by (induction ml arbitrary: m) (auto simp: delModifiers_def algebra_simps)

definition accounted :: "modifiers \<Rightarrow> owner \<Rightarrow> bool" where
  "accounted base s \<longleftrightarrow>
     (\<forall>k. k \<noteq> 0 \<longrightarrow> m_modStat s k = base k + live_mods (m_StatusEffectSet s) k)"

lemma RemoveStatusEffect_accounts:
  "RemoveStatusEffect e m = (e', m') \<Longrightarrow>
   m' k - (if deleted e' then 0 else mods_of (modList e') k) = m k - (if deleted e then 0 else mods_of (modList e) k) \<and> deleted e'"
  by (auto simp: RemoveStatusEffect_def delModifiers_apply split: if_splits)

lemma remove_first_accounts:
  "remove_first P es m = (b, es', m') \<Longrightarrow> m' k - live_mods es' k = m k - live_mods es k"
proof (induction P es m arbitrary: b es' m' rule: remove_first.induct)
  case (2 P e es m)
  show ?case
  proof (cases "P e")
    case True
    obtain e1 m1 where r: "RemoveStatusEffect e m = (e1, m1)" by fastforce
    then show ?thesis using 2(2) True RemoveStatusEffect_accounts[OF r, of k] by (auto simp: algebra_simps)
  next
    case False
    obtain b1 es1 m1 where r: "remove_first P es m = (b1, es1, m1)" by (metis prod.exhaust)
    then show ?thesis using 2(2) False 2(1)[OF False r] by (auto simp: algebra_simps)
  qed
qed simp

lemma account_chain:
  assumes "(a :: 16 word) - d1 = m - d" "b - l2 = a - l"
  shows "b - (d1 + l2) = m - (d + l)"
proof -
  have "b - (d1 + l2) = (b - l2) - d1" by simp
  also have "\<dots> = (a - d1) - l" using assms(2) by simp
  also have "\<dots> = m - (d + l)" using assms(1) by simp
  finally show ?thesis .
qed

lemma remove_all_accounts:
  "remove_all P es m = (es', m') \<Longrightarrow> m' k - live_mods es' k = m k - live_mods es k"
proof (induction P es m arbitrary: es' m' rule: remove_all.induct)
  case (2 P e es m)
  obtain e1 m1 where r: "(if P e then RemoveStatusEffect e m else (e, m)) = (e1, m1)" by fastforce
  obtain es2 m2 where s: "remove_all P es m1 = (es2, m2)" by fastforce
  have "m1 k - (if deleted e1 then 0 else mods_of (modList e1) k) = m k - (if deleted e then 0 else mods_of (modList e) k)"
    using r RemoveStatusEffect_accounts[of e m e1 m1 k] by (auto split: if_splits)
  moreover have "m2 k - live_mods es2 k = m1 k - live_mods es k" using 2(1)[OF _ _ s] r by simp
  ultimately show ?case using 2(2) r s by (auto dest: account_chain)
qed simp

lemma accounted_eq: "accounted base s \<longleftrightarrow>
    (\<forall>k. k \<noteq> 0 \<longrightarrow> m_modStat s k - live_mods (m_StatusEffectSet s) k = base k)"
  by (auto simp: accounted_def algebra_simps)

lemma with_first_accounted: "accounted base s \<Longrightarrow> accounted base (snd (with_first P s))"
  unfolding with_first_def
  by (cases "remove_first P (m_StatusEffectSet s) (m_modStat s)" rule: prod_cases3)
    (simp add: accounted_eq remove_first_accounts)

lemma with_all_accounted: "accounted base s \<Longrightarrow> accounted base (with_all P s)"
  unfolding with_all_def
  by (cases "remove_all P (m_StatusEffectSet s) (m_modStat s)")
    (simp add: accounted_eq remove_all_accounts)


lemma RemoveStatusEffect_fields:
  "RemoveStatusEffect e m = (e', m') \<Longrightarrow> e' = e\<lparr>deleted := True\<rparr>"
  by (auto simp: RemoveStatusEffect_def split: if_splits)

lemma live_mods_insert [simp]:
  "live_mods (multiset_insert v key e es) k = (if deleted e then 0 else mods_of (modList e) k) + live_mods es k"
  by (induction es) (auto simp: algebra_simps)

lemma live_mods_update:
  "i < length es \<Longrightarrow> live_mods (es[i := e]) k =
     live_mods es k - (if deleted (es ! i) then 0 else mods_of (modList (es ! i)) k)
       + (if deleted e then 0 else mods_of (modList e) k)"
proof (induction es arbitrary: i)
  case (Cons x xs)
  then show ?case
  proof (cases i)
    case (Suc j)
    then show ?thesis using Cons.IH[of j] Cons.prems by (auto simp: algebra_simps)
  qed (auto simp: algebra_simps)
qed simp

lemma set_insert [simp]: "set (multiset_insert v key e es) = insert e (set es)"
  by (induction es) auto

lemma mods_of_bump: "mods_of (bump_mod k a ml) k' = mods_of ml k' + (if k' = k then a else 0)"
  by (induction k a ml rule: bump_mod.induct) (auto simp: algebra_simps)

lemma mods_of_put: "mods_of (put_mod k a ml) k' =
    mods_of ml k' + (if k' = k then (case map_of ml k of Some b \<Rightarrow> a - b | None \<Rightarrow> a) else 0)"
  by (induction k a ml rule: put_mod.induct) (auto simp: algebra_simps split: option.split)

lemma UpdateStatusIcons_keeps [simp]:
  "m_StatusEffectSet (UpdateStatusIcons s) = m_StatusEffectSet s"
  "m_modStat (UpdateStatusIcons s) = m_modStat s"
  by (auto simp: UpdateStatusIcons_def split: prod.split)

text \<open>What the scripts may do when an effect is gained: anything but delete or rename it.\<close>

definition hooks_ok :: "env \<Rightarrow> bool" where
  "hooks_ok v \<longleftrightarrow>
     (\<forall>e. deleted (OnEffectGain v e) = deleted e \<and> m_StatusID (OnEffectGain v e) = m_StatusID e \<and>
          deleted (OnStatusEffectDuration v e) = deleted e \<and>
          m_StatusID (OnStatusEffectDuration v e) = m_StatusID e)"

text \<open>The effect that ends in the set, and the state it is added to.\<close>

definition prepared :: "env \<Rightarrow> int \<Rightarrow> effect \<Rightarrow> effect" where
  "prepared v now e =
     (let mind = MinDuration (EffectsParams v (m_StatusID e));
          e1 = (if m_Duration e < mind then e\<lparr>m_Duration := mind\<rparr> else e);
          e2 = SetEffectParams v e1;
          e3 = (if m_durationHookApplied e2 then e2
                else (OnStatusEffectDuration v e2)\<lparr>m_durationHookApplied := True\<rparr>)
      in e3\<lparr>m_tickCount := 0, m_StartTime := now\<rparr>)"

definition cleared :: "env \<Rightarrow> int \<Rightarrow> effect \<Rightarrow> owner \<Rightarrow> owner" where
  "cleared v now e s = DelStatusEffectsByType (m_Type (prepared v now e)) (OverwriteStatusEffect v e s)"

lemma OverwriteStatusEffect_id:
  "m_StatusID e' = m_StatusID e \<Longrightarrow> OverwriteStatusEffect v e' s = OverwriteStatusEffect v e s"
  by (simp add: OverwriteStatusEffect_def)

lemma SetEffectParams_keeps [simp]:
  "m_StatusID (SetEffectParams v e) = m_StatusID e" "deleted (SetEffectParams v e) = deleted e"
  by (simp_all add: SetEffectParams_def)

lemma prepared_keeps:
  assumes "hooks_ok v"
  shows "m_StatusID (prepared v now e) = m_StatusID e \<and> deleted (prepared v now e) = deleted e"
  using assms by (auto simp: prepared_def Let_def hooks_ok_def)

lemma Handle_keeps [simp]:
  "m_StatusID (HandleEffectGainSideEffects s e) = m_StatusID e"
  "deleted (HandleEffectGainSideEffects s e) = deleted e"
  "has_owner (HandleEffectGainSideEffects s e) = has_owner e"
  by (simp_all add: HandleEffectGainSideEffects_def SetIcon_def)

lemma AddStatusEffect_cases:
  assumes "hooks_ok v"
  obtains "AddStatusEffect v now e s = (False, s)"
      "MAX_EFFECTID \<le> m_StatusID e \<or> \<not> CanGainStatusEffect v e s"
  | e' s' where "AddStatusEffect v now e s = (True, s')" "m_StatusID e < MAX_EFFECTID" "CanGainStatusEffect v e s"
      "m_StatusEffectSet s' = multiset_insert v (prepared v now e) e' (m_StatusEffectSet (cleared v now e s))"
      "m_modStat s' = addModifiers (modList e') (m_modStat (cleared v now e s))"
      "has_owner e'" "deleted e' = deleted e" "m_StatusID e' = m_StatusID e"
proof (cases "MAX_EFFECTID \<le> m_StatusID e \<or> \<not> CanGainStatusEffect v e s")
  case True
  then show ?thesis by (intro that(1)) (simp add: AddStatusEffect_def, blast)
next
  case False
  define p where "p = prepared v now e"
  define c where "c = cleared v now e s"
  define s3 where "s3 = c\<lparr>m_StatusEffectSet := multiset_insert v p p (m_StatusEffectSet c)\<rparr>"
  define e' where "e' = (OnEffectGain v (HandleEffectGainSideEffects s3 p))\<lparr>has_owner := True\<rparr>"
  define s4 where "s4 = c\<lparr>m_StatusEffectSet := multiset_insert v p e' (m_StatusEffectSet c),
     m_modStat := addModifiers (modList e') (m_modStat c)\<rparr>"
  have "AddStatusEffect v now e s = (True, if m_Icon e' \<noteq> 0 then UpdateStatusIcons s4 else s4)"
    using False unfolding AddStatusEffect_def
    by (simp add: Let_def s4_def e'_def s3_def c_def cleared_def p_def prepared_def
        OverwriteStatusEffect_id[of "e\<lparr>m_Duration := d\<rparr>" e for d])
  moreover have "m_StatusID e' = m_StatusID e" "deleted e' = deleted e" "has_owner e'"
    using assms prepared_keeps[OF assms, of now e] by (simp_all add: e'_def hooks_ok_def p_def)
  ultimately show ?thesis using False
    by (intro that(2)[of "if m_Icon e' \<noteq> 0 then UpdateStatusIcons s4 else s4" e'])
      (simp_all add: s4_def p_def c_def)
qed

lemma snd_with_first_ifs:
  "accounted base s \<Longrightarrow> accounted base (OverwriteStatusEffect v e s)"
  by (simp add: OverwriteStatusEffect_def Let_def DelStatusEffectSilent_def with_first_accounted)

lemma cleared_accounted: "accounted base s \<Longrightarrow> accounted base (cleared v now e s)"
  by (simp add: cleared_def DelStatusEffectsByType_def with_all_accounted snd_with_first_ifs)

lemma AddStatusEffect_accounted:
  assumes "hooks_ok v" "\<not> deleted e" "accounted base s"
  shows "accounted base (snd (AddStatusEffect v now e s))"
proof (cases rule: AddStatusEffect_cases[OF assms(1), of now e s])
  case 1
  then show ?thesis using assms(3) by simp
next
  case (2 e' s')
  then show ?thesis
    using cleared_accounted[OF assms(3), of v now e] assms(2)
    by (simp add: accounted_def addModifiers_apply algebra_simps)
qed

lemma remove_at_accounted:
  assumes "accounted base s" "i < length (m_StatusEffectSet s)"
  shows "accounted base (remove_at i s)"
proof -
  obtain e m where r: "RemoveStatusEffect (m_StatusEffectSet s ! i) (m_modStat s) = (e, m)" by fastforce
  then show ?thesis
    using assms RemoveStatusEffect_accounts[OF r] by (auto simp: remove_at_def accounted_def live_mods_update algebra_simps)
qed

lemma kill_loop_accounts:
  "kill_loop es m = (es', m') \<Longrightarrow>
     m' k - live_mods es' k = m k - live_mods es k
       - sum_list (map (\<lambda>e. mods_of (modList e) k) (filter (\<lambda>e. deleted e \<and> m_Duration e \<noteq> 0) es))"
proof (induction es arbitrary: m es' m')
  case (Cons e es)
  show ?case
  proof (cases "m_Duration e \<noteq> 0")
    case True
    then have "kill_loop es (delModifiers (modList e) m) = (es', m')" using Cons.prems by simp
    from Cons.IH[OF this] show ?thesis using True by (auto simp: delModifiers_apply algebra_simps)
  next
    case False
    obtain es1 m1 where r: "kill_loop es m = (es1, m1)" by fastforce
    then show ?thesis using Cons.prems False Cons.IH[OF r] by (auto simp: algebra_simps)
  qed
qed simp


section \<open>At most one live effect of a kind\<close>

definition live_count :: "nat \<Rightarrow> effect list \<Rightarrow> nat" where
  "live_count i es = length (filter (is_status i) es)"

lemma live_count_simps [simp]:
  "live_count i [] = 0"
  "live_count i (e # es) = (if is_status i e then Suc (live_count i es) else live_count i es)"
  by (simp_all add: live_count_def)

lemma is_status_deleted [simp]: "\<not> is_status i (e\<lparr>deleted := True\<rparr>)"
  by (simp add: is_status_def)

lemma remove_first_count:
  "remove_first P es m = (b, es', m') \<Longrightarrow> live_count i es' \<le> live_count i es"
proof (induction P es m arbitrary: b es' m' rule: remove_first.induct)
  case (2 P e es m)
  then show ?case
    by (cases "P e") (auto split: prod.splits dest!: RemoveStatusEffect_fields)
qed simp

lemma remove_first_count_eq:
  "remove_first (is_status i) es m = (b, es', m') \<Longrightarrow> live_count i es' = live_count i es - 1"
proof (induction "is_status i" es m arbitrary: b es' m' rule: remove_first.induct)
  case (2 e es m)
  then show ?case
    by (cases "is_status i e") (auto split: prod.splits dest!: RemoveStatusEffect_fields)
qed simp

lemma remove_all_count:
  "remove_all P es m = (es', m') \<Longrightarrow> live_count i es' \<le> live_count i es"
proof (induction P es m arbitrary: es' m' rule: remove_all.induct)
  case (2 P e es m)
  then show ?case
    by (cases "P e") (auto split: prod.splits dest!: RemoveStatusEffect_fields intro: le_SucI)
qed simp

lemma with_first_count: "live_count i (m_StatusEffectSet (snd (with_first P s))) \<le> live_count i (m_StatusEffectSet s)"
  by (auto simp: with_first_def split: prod.split dest: remove_first_count)

lemma with_all_count: "live_count i (m_StatusEffectSet (with_all P s)) \<le> live_count i (m_StatusEffectSet s)"
  by (auto simp: with_all_def split: prod.split dest: remove_all_count)

lemma Del_count:
  "live_count i (m_StatusEffectSet (snd (DelStatusEffectSilent i s))) = live_count i (m_StatusEffectSet s) - 1"
  by (auto simp: DelStatusEffectSilent_def with_first_def split: prod.split dest: remove_first_count_eq)

lemma Del_count_le:
  "live_count i (m_StatusEffectSet (snd (DelStatusEffectSilent j s))) \<le> live_count i (m_StatusEffectSet s)"
  by (simp add: DelStatusEffectSilent_def with_first_count)

lemma cleared_count:
  "live_count i (m_StatusEffectSet (cleared v now e s)) \<le> live_count i (m_StatusEffectSet s)"
  "Overwrite (EffectsParams v (m_StatusID e)) \<noteq> IGNORE_DUPLICATE \<Longrightarrow>
   live_count (m_StatusID e) (m_StatusEffectSet (cleared v now e s)) \<le> live_count (m_StatusID e) (m_StatusEffectSet s) - 1"
proof -
  have ty: "live_count i (m_StatusEffectSet (DelStatusEffectsByType ty s)) \<le> live_count i (m_StatusEffectSet s)" for i ty s
    by (simp add: DelStatusEffectsByType_def with_all_count)
  have tail: "live_count i (m_StatusEffectSet (if c then snd (DelStatusEffectSilent j s) else s)) \<le> live_count i (m_StatusEffectSet s)"
    for i c j s by (simp add: Del_count_le)
  show "live_count i (m_StatusEffectSet (cleared v now e s)) \<le> live_count i (m_StatusEffectSet s)"
    unfolding cleared_def OverwriteStatusEffect_def Let_def by (intro order_trans[OF ty] order_trans[OF tail] order_refl)
  let ?i = "m_StatusID e" and ?p = "EffectsParams v (m_StatusID e)"
  assume ow: "Overwrite ?p \<noteq> IGNORE_DUPLICATE"
  define s1 where "s1 = snd (DelStatusEffectSilent ?i s)"
  define s2 where "s2 = (if 0 < RemoveId ?p then snd (DelStatusEffectSilent (RemoveId ?p) s1) else s1)"
  define s3 where "s3 = (if 0 < NegativeId ?p then snd (DelStatusEffectSilent (NegativeId ?p) s2) else s2)"
  have "cleared v now e s = DelStatusEffectsByType (m_Type (prepared v now e)) s3"
    using ow by (simp add: cleared_def OverwriteStatusEffect_def Let_def s1_def s2_def s3_def)
  then have "live_count ?i (m_StatusEffectSet (cleared v now e s)) \<le> live_count ?i (m_StatusEffectSet s3)"
    by (simp only: ty)
  also have "\<dots> \<le> live_count ?i (m_StatusEffectSet s2)" unfolding s3_def by (rule tail)
  also have "\<dots> \<le> live_count ?i (m_StatusEffectSet s1)" unfolding s2_def by (rule tail)
  finally show "live_count ?i (m_StatusEffectSet (cleared v now e s)) \<le> live_count ?i (m_StatusEffectSet s) - 1"
    by (simp add: s1_def Del_count)
qed

lemma live_count_insert:
  "live_count i (multiset_insert v key e es) = live_count i es + (if is_status i e then 1 else 0)"
  by (induction es) auto

definition single :: "env \<Rightarrow> owner \<Rightarrow> bool" where
  "single v s \<longleftrightarrow> (\<forall>i. Overwrite (EffectsParams v i) \<noteq> IGNORE_DUPLICATE \<longrightarrow> live_count i (m_StatusEffectSet s) \<le> 1)"

lemma single_less:
  "single v s \<Longrightarrow> (\<And>i. live_count i (m_StatusEffectSet s') \<le> live_count i (m_StatusEffectSet s)) \<Longrightarrow> single v s'"
  unfolding single_def by (meson order_trans)

lemma AddStatusEffect_single:
  assumes "hooks_ok v" "single v s"
  shows "single v (snd (AddStatusEffect v now e s))"
proof (cases rule: AddStatusEffect_cases[OF assms(1), of now e s])
  case 1
  then show ?thesis using assms(2) by simp
next
  case (2 e' s')
  have "live_count i (m_StatusEffectSet s') \<le> 1" if i: "Overwrite (EffectsParams v i) \<noteq> IGNORE_DUPLICATE" for i
  proof (cases "i = m_StatusID e")
    case True
    have "live_count i (m_StatusEffectSet s) \<le> 1" using assms(2) i by (simp add: single_def)
    then have "live_count i (m_StatusEffectSet (cleared v now e s)) = 0"
      using cleared_count(2)[of v e now s] i True by simp
    then show ?thesis using 2(4) by (simp add: live_count_insert)
  next
    case False
    then have "\<not> is_status i e'" using 2(8) by (simp add: is_status_def)
    then show ?thesis using 2(4) cleared_count(1)[of i v now e s] assms(2) i
      by (auto simp: live_count_insert single_def intro: order_trans)
  qed
  then show ?thesis using 2(1) by (simp add: single_def)
qed

section \<open>The runs of a container\<close>

definition se_ok :: "env \<Rightarrow> modifiers \<Rightarrow> owner \<Rightarrow> bool" where
  "se_ok v base s \<longleftrightarrow> accounted base s \<and> single v s \<and> (\<forall>e \<in> set (m_StatusEffectSet s). has_owner e)"

lemma remove_first_set:
  "remove_first P es m = (b, es', m') \<Longrightarrow> x \<in> set es' \<Longrightarrow> \<exists>y \<in> set es. x = y \<or> x = y\<lparr>deleted := True\<rparr>"
proof (induction P es m arbitrary: b es' m' rule: remove_first.induct)
  case (2 P e es m)
  show ?case
  proof (cases "P e")
    case True
    obtain e1 m1 where r: "RemoveStatusEffect e m = (e1, m1)" by fastforce
    then have "es' = e1 # es" using 2(2) True by simp
    then show ?thesis using 2(3) RemoveStatusEffect_fields[OF r] by auto
  next
    case False
    obtain b1 es1 m1 where r: "remove_first P es m = (b1, es1, m1)" by (metis prod.exhaust)
    then have "es' = e # es1" using 2(2) False by simp
    then show ?thesis using 2(1)[OF False r] 2(3) by auto
  qed
qed simp

lemma remove_all_set:
  "remove_all P es m = (es', m') \<Longrightarrow> x \<in> set es' \<Longrightarrow> \<exists>y \<in> set es. x = y \<or> x = y\<lparr>deleted := True\<rparr>"
proof (induction P es m arbitrary: es' m' rule: remove_all.induct)
  case (2 P e es m)
  obtain e1 m1 where r: "(if P e then RemoveStatusEffect e m else (e, m)) = (e1, m1)" by fastforce
  obtain es2 m2 where s: "remove_all P es m1 = (es2, m2)" by fastforce
  have "es' = e1 # es2" using 2(2) r s by simp
  moreover have "e1 = e \<or> e1 = e\<lparr>deleted := True\<rparr>"
    using r by (cases "P e") (auto dest: RemoveStatusEffect_fields)
  ultimately show ?case using 2(1)[OF _ _ s] 2(3) r by auto
qed simp

lemma with_first_owned:
  "\<forall>e \<in> set (m_StatusEffectSet s). has_owner e \<Longrightarrow> \<forall>e \<in> set (m_StatusEffectSet (snd (with_first P s))). has_owner e"
  unfolding with_first_def
  by (cases "remove_first P (m_StatusEffectSet s) (m_modStat s)" rule: prod_cases3)
    (auto dest!: remove_first_set)

lemma with_all_owned:
  "\<forall>e \<in> set (m_StatusEffectSet s). has_owner e \<Longrightarrow> \<forall>e \<in> set (m_StatusEffectSet (with_all P s)). has_owner e"
  unfolding with_all_def
  by (cases "remove_all P (m_StatusEffectSet s) (m_modStat s)") (auto dest!: remove_all_set)

lemma with_first_ok: "se_ok v base s \<Longrightarrow> se_ok v base (snd (with_first P s))"
  using single_less[OF _ with_first_count] with_first_owned[of s P] by (simp add: se_ok_def with_first_accounted)

lemma with_all_ok: "se_ok v base s \<Longrightarrow> se_ok v base (with_all P s)"
  using single_less[OF _ with_all_count] with_all_owned[of s P] by (simp add: se_ok_def with_all_accounted)

lemma live_count_update:
  "i < length es \<Longrightarrow> (is_status j e \<Longrightarrow> is_status j (es ! i)) \<Longrightarrow> live_count j (es[i := e]) \<le> live_count j es"
proof (induction es arbitrary: i)
  case (Cons x xs)
  then show ?case using Cons.IH[of "i - 1"] by (cases i) (auto intro: le_SucI)
qed simp

lemma set_update_owned: "\<forall>x \<in> set es. has_owner x \<Longrightarrow> has_owner e \<Longrightarrow> \<forall>x \<in> set (es[i := e]). has_owner x"
  using set_update_subset_insert[of es i e] by auto

lemma remove_at_ok:
  assumes "se_ok v base s" "i < length (m_StatusEffectSet s)"
  shows "se_ok v base (remove_at i s)"
proof -
  obtain e m where r: "RemoveStatusEffect (m_StatusEffectSet s ! i) (m_modStat s) = (e, m)" by fastforce
  note e = RemoveStatusEffect_fields[OF r]
  have set: "m_StatusEffectSet (remove_at i s) = (m_StatusEffectSet s)[i := e]" by (simp add: remove_at_def r)
  have "single v (remove_at i s)"
    using assms by (auto simp: set se_ok_def e intro!: single_less[of v s] live_count_update)
  moreover have "\<forall>x \<in> set (m_StatusEffectSet (remove_at i s)). has_owner x"
    unfolding set using assms by (intro set_update_owned) (auto simp: se_ok_def e)
  ultimately show ?thesis using assms remove_at_accounted by (simp add: se_ok_def)
qed

lemma OverwriteStatusEffect_ok: "se_ok v base s \<Longrightarrow> se_ok v base (OverwriteStatusEffect v' e s)"
  by (simp add: OverwriteStatusEffect_def Let_def DelStatusEffectSilent_def with_first_ok)

lemma cleared_ok: "se_ok v base s \<Longrightarrow> se_ok v base (cleared v now e s)"
  by (simp add: cleared_def DelStatusEffectsByType_def with_all_ok OverwriteStatusEffect_ok)

lemma AddStatusEffect_ok:
  assumes "hooks_ok v" "\<not> deleted e" "se_ok v base s"
  shows "se_ok v base (snd (AddStatusEffect v now e s))"
proof -
  have "\<forall>x \<in> set (m_StatusEffectSet (snd (AddStatusEffect v now e s))). has_owner x"
  proof (cases rule: AddStatusEffect_cases[OF assms(1), of now e s])
    case 1
    then show ?thesis using assms(3) by (simp add: se_ok_def)
  next
    case (2 e' s')
    then show ?thesis using cleared_ok[OF assms(3), of now e] by (simp add: se_ok_def)
  qed
  then show ?thesis
    using assms AddStatusEffect_accounted AddStatusEffect_single by (simp add: se_ok_def)
qed

lemma bard_loop_ok:
  "bard_loop is e n b s = (e', n', b', s') \<Longrightarrow> se_ok v base s \<Longrightarrow>
     se_ok v base s' \<and> m_StatusID e' = m_StatusID e \<and> deleted e' = deleted e"
proof (induction "is" arbitrary: e n b s)
  case (Cons i "is")
  define x where "x = m_StatusEffectSet s ! i"
  define same where "same \<longleftrightarrow> m_Tier x = m_Tier e \<and> m_StatusID x = m_StatusID e"
  define e1 where "e1 = (if same then e\<lparr>m_Slot := m_Slot x\<rparr> else e)"
  define s1 where "s1 = (if same then snd (DelStatusEffectByTier (m_StatusID e) (m_Tier e) s) else s)"
  have s1: "se_ok v base s1" using Cons.prems(2) by (simp add: s1_def DelStatusEffectByTier_def with_first_ok)
  have e1: "m_StatusID e1 = m_StatusID e" "deleted e1 = deleted e" by (simp_all add: e1_def)
  note eq = Cons.prems(1)[unfolded bard_loop.simps Let_def x_def[symmetric], folded same_def,
      folded e1_def s1_def]
  show ?case
    using eq Cons.IH[of e1 _ _ s1] Cons.IH[of e _ _ s] s1 e1 Cons.prems(2) by (metis (no_types, lifting))
qed simp


lemma ApplyBardEffect_ok:
  assumes "hooks_ok v" "\<not> deleted e" "se_ok v base s"
  shows "se_ok v base (snd (ApplyBardEffect v now e maxSongs s))"
proof -
  obtain e1 n b s1 where l: "bard_loop [0..<length (m_StatusEffectSet s)] e 0 None s = (e1, n, b, s1)"
    by (metis prod.exhaust)
  note k = bard_loop_ok[OF l assms(3)]
  have add: "se_ok v base (snd (AddStatusEffect v now (e1\<lparr>m_Slot := k\<rparr>) s'))" if "se_ok v base s'" for s' k
    using AddStatusEffect_ok[OF assms(1) _ that] k assms(2) by simp
  have add0: "se_ok v base (snd (AddStatusEffect v now e1 s1))"
    using AddStatusEffect_ok[OF assms(1)] k assms(2) by simp
  have "se_ok v base (snd (DelStatusEffectByTier i t s1))" for i t
    using k by (simp add: DelStatusEffectByTier_def with_first_ok)
  then show ?thesis
    using add add0 k by (auto simp: ApplyBardEffect_def l Let_def split: option.split)
qed

lemma double_up_ok:
  assumes "hooks_ok v" "\<not> deleted e" "se_ok v base s"
  shows "se_ok v base (double_up v now e bd x s)"
proof -
  have del: "se_ok v base (snd (DelStatusEffectSilent i s'))" if "se_ok v base s'" for i s'
    using that by (simp add: DelStatusEffectSilent_def with_first_ok)
  have "\<not> deleted (bust_effect e x bd)" by (simp add: bust_effect_def effect_copy_def)
  then show ?thesis
    using assms unfolding double_up_def Let_def by (auto intro!: del AddStatusEffect_ok)
qed

lemma corsair_loop_ok:
  assumes "hooks_ok v" "\<not> deleted e" "se_ok v base s"
  shows "corsair_loop v now e bd s is n b = cor_done s' \<Longrightarrow> se_ok v base s'"
proof (induction "is" arbitrary: n b)
  case (Cons i "is")
  then show ?case using double_up_ok[OF assms] by (auto simp: Let_def split: if_splits)
qed simp

lemma ApplyCorsairEffect_ok:
  assumes "hooks_ok v" "\<not> deleted e" "se_ok v base s"
  shows "se_ok v base (snd (ApplyCorsairEffect v now e maxRolls bd s))"
proof -
  have "se_ok v base (snd (DelStatusEffect i s))" for i
    using assms(3) by (simp add: DelStatusEffect_def with_first_ok)
  then show ?thesis
    using assms corsair_loop_ok[OF assms]
    by (auto simp: ApplyCorsairEffect_def Let_def intro!: AddStatusEffect_ok split: corsair_result.split option.split)
qed

lemma filter_live: "live_mods (filter (\<lambda>e. \<not> deleted e) es) k = live_mods es k"
  "live_count i (filter (\<lambda>e. \<not> deleted e) es) = live_count i es"
  by (induction es) (auto simp: is_status_def)

lemma DeleteStatusEffects_ok: "se_ok v base s \<Longrightarrow> se_ok v base (DeleteStatusEffects s)"
  by (auto simp: se_ok_def DeleteStatusEffects_def Let_def accounted_def single_def filter_live)

lemma kill_loop_filter: "fst (kill_loop es m) = filter (\<lambda>e. m_Duration e = 0) es"
  by (induction es arbitrary: m) (simp_all add: case_prod_beta Let_def)

lemma filter_count: "live_count i (filter P es) \<le> live_count i es"
  by (induction es) (auto intro: le_SucI)

lemma KillAllStatusEffect_ok:
  assumes "se_ok v base s" "\<forall>e \<in> set (m_StatusEffectSet s). deleted e \<longrightarrow> m_Duration e = 0"
  shows "se_ok v base (KillAllStatusEffect s)"
proof -
  obtain es m where l: "kill_loop (m_StatusEffectSet s) (m_modStat s) = (es, m)" by fastforce
  then have es: "es = filter (\<lambda>e. m_Duration e = 0) (m_StatusEffectSet s)" using kill_loop_filter by (metis fst_conv)
  have "filter (\<lambda>e. deleted e \<and> m_Duration e \<noteq> 0) (m_StatusEffectSet s) = []" using assms(2) by (simp add: filter_empty_conv)
  then have "m k - live_mods es k = m_modStat s k - live_mods (m_StatusEffectSet s) k" for k
    using kill_loop_accounts[OF l, of k] by simp
  then have "accounted base (KillAllStatusEffect s)" using assms(1) by (simp add: KillAllStatusEffect_def l se_ok_def accounted_eq)
  moreover have "single v (KillAllStatusEffect s)"
    using assms(1) by (auto simp: KillAllStatusEffect_def l es se_ok_def filter_count intro: single_less)
  ultimately show ?thesis using assms(1) by (auto simp: KillAllStatusEffect_def l es se_ok_def)
qed

lemma in_place_ok:
  assumes "se_ok v base s" "i < length (m_StatusEffectSet s)" "\<not> deleted (m_StatusEffectSet s ! i)"
    and e: "m_StatusID e = m_StatusID (m_StatusEffectSet s ! i)" "\<not> deleted e" "has_owner e"
    and m: "\<And>k. k \<noteq> 0 \<Longrightarrow> m k - mods_of (modList e) k = m_modStat s k - mods_of (modList (m_StatusEffectSet s ! i)) k"
  shows "se_ok v base (s\<lparr>m_StatusEffectSet := (m_StatusEffectSet s)[i := e], m_modStat := m\<rparr>)"
proof -
  have "accounted base (s\<lparr>m_StatusEffectSet := (m_StatusEffectSet s)[i := e], m_modStat := m\<rparr>)"
    using assms(1-3) e m by (auto simp: se_ok_def accounted_def live_mods_update algebra_simps)
  moreover have "single v (s\<lparr>m_StatusEffectSet := (m_StatusEffectSet s)[i := e], m_modStat := m\<rparr>)"
    using assms(1-3) e by (auto simp: se_ok_def is_status_def intro!: single_less[of v s] live_count_update)
  moreover have "\<forall>x \<in> set ((m_StatusEffectSet s)[i := e]). has_owner x"
    using assms(1) e(3) by (intro set_update_owned) (auto simp: se_ok_def)
  ultimately show ?thesis by (simp add: se_ok_def)
qed

lemma effect_addMod_ok:
  assumes "se_ok v base s" "i < length (m_StatusEffectSet s)" "\<not> deleted (m_StatusEffectSet s ! i)"
  shows "se_ok v base (effect_addMod i k a s)"
proof -
  have o: "has_owner (m_StatusEffectSet s ! i)" using assms by (simp add: se_ok_def)
  show ?thesis
    unfolding effect_addMod_def Let_def
    by (rule in_place_ok[OF assms]) (use assms o in \<open>auto simp: mods_of_bump addModifier_def\<close>)
qed

lemma effect_setMod_ok:
  assumes "se_ok v base s" "i < length (m_StatusEffectSet s)" "\<not> deleted (m_StatusEffectSet s ! i)"
  shows "se_ok v base (effect_setMod i k a s)"
proof -
  have o: "has_owner (m_StatusEffectSet s ! i)" using assms by (simp add: se_ok_def)
  show ?thesis
    unfolding effect_setMod_def Let_def
    by (rule in_place_ok[OF assms])
      (use assms o in \<open>auto simp: mods_of_put addModifier_def split: option.split\<close>)
qed

lemma tick_map: "live_mods (map (\<lambda>e. if P e then e\<lparr>m_tickCount := f e\<rparr> else e) es) k = live_mods es k"
  "live_count i (map (\<lambda>e. if P e then e\<lparr>m_tickCount := f e\<rparr> else e) es) = live_count i es"
  by (induction es) (auto simp: is_status_def)

lemma TickEffects_ok: "se_ok v base s \<Longrightarrow> se_ok v base (TickEffects tick s)"
  unfolding TickEffects_def
  by (rule DeleteStatusEffects_ok) (auto simp: se_ok_def accounted_def single_def tick_map)

text \<open>
  One call on the container of an owner.  \<open>run_first\<close> is every \<open>DelStatusEffect\<close> variant, \<open>run_all\<close>
  every removal by icon, type, flag or range, \<open>run_at\<close> the removal of a chosen effect (erase, dispel,
  waltz, steal, oldest, newest).
\<close>

inductive se_run :: "env \<Rightarrow> owner \<Rightarrow> owner \<Rightarrow> bool" for v where
  run_add: "\<not> deleted e \<Longrightarrow> se_run v s (snd (AddStatusEffect v now e s))"
| run_bard: "\<not> deleted e \<Longrightarrow> se_run v s (snd (ApplyBardEffect v now e n s))"
| run_corsair: "\<not> deleted e \<Longrightarrow> se_run v s (snd (ApplyCorsairEffect v now e n bd s))"
| run_first: "se_run v s (snd (with_first P s))"
| run_all: "se_run v s (with_all P s)"
| run_at: "i < length (m_StatusEffectSet s) \<Longrightarrow> se_run v s (remove_at i s)"
| run_expire: "se_run v s (CheckEffectsExpiry tick s)"
| run_tick: "se_run v s (TickEffects tick s)"
| run_delete: "se_run v s (DeleteStatusEffects s)"
| run_kill: "\<forall>e \<in> set (m_StatusEffectSet s). deleted e \<longrightarrow> m_Duration e = 0 \<Longrightarrow> se_run v s (KillAllStatusEffect s)"
| run_addMod: "i < length (m_StatusEffectSet s) \<Longrightarrow> \<not> deleted (m_StatusEffectSet s ! i) \<Longrightarrow> se_run v s (effect_addMod i k a s)"
| run_setMod: "i < length (m_StatusEffectSet s) \<Longrightarrow> \<not> deleted (m_StatusEffectSet s ! i) \<Longrightarrow> se_run v s (effect_setMod i k a s)"

lemma se_run_ok: "se_run v s s' \<Longrightarrow> hooks_ok v \<Longrightarrow> se_ok v base s \<Longrightarrow> se_ok v base s'"
  by (induction rule: se_run.induct)
    (auto intro: AddStatusEffect_ok ApplyBardEffect_ok ApplyCorsairEffect_ok with_first_ok with_all_ok
      remove_at_ok TickEffects_ok DeleteStatusEffects_ok KillAllStatusEffect_ok effect_addMod_ok
      effect_setMod_ok simp: CheckEffectsExpiry_def)

lemma se_runs_ok: "(se_run v)\<^sup>*\<^sup>* s s' \<Longrightarrow> hooks_ok v \<Longrightarrow> se_ok v base s \<Longrightarrow> se_ok v base s'"
  by (induction rule: rtranclp_induct) (auto intro: se_run_ok)

text \<open>An owner without effects, and a table in which every effect may stand alone.\<close>

definition bare :: "modifiers \<Rightarrow> owner" where
  "bare base = \<lparr>m_StatusEffectSet = [], m_modStat = base, m_StatusIcons = replicate 32 255, icon_flags = 0,
     is_pc = True, is_mob_or_pet = False, m_Immunity = 0, has_master = False, alive = True, owner_id = 1\<rparr>"

lemma bare_ok: "se_ok v base (bare base)"
  by (simp add: se_ok_def bare_def accounted_def single_def)

definition plain_env :: env where
  "plain_env = \<lparr>EffectsParams = (\<lambda>_. \<lparr>Flag = 0, Type = 0, NegativeId = 0, Overwrite = EQUAL_HIGHER, BlockId = 0,
       RemoveId = 0, MinDuration = 0, SortKey = 10000\<rparr>),
     OnEffectGain = (\<lambda>e. e\<lparr>modList := [(25, of_nat (m_Power e))]\<rparr>), OnStatusEffectDuration = (\<lambda>e. e)\<rparr>"

lemma plain_env_ok: "hooks_ok plain_env"
  by (simp add: hooks_ok_def plain_env_def)

definition plain_effect :: "nat \<Rightarrow> nat \<Rightarrow> effect" where
  "plain_effect i pw = \<lparr>m_StatusID = i, m_SubID = 0, m_Icon = i, m_Power = pw, m_SubPower = 0, m_Tier = 0,
     m_Flags = 0, m_SourceType = 0, m_SourceTypeParam = 0, m_Type = 0, m_Slot = 0, m_TickTime = 0,
     m_Duration = 60000000000, m_StartTime = 0, m_tickCount = 0, m_durationHookApplied = False,
     has_owner = False, modList = [], deleted = False\<rparr>"



text \<open>
  C22: in every such run an effect whose kind may not be duplicated is live at most once.
\<close>

theorem no_duplicate_effects:
  assumes "hooks_ok v" "(se_run v)\<^sup>*\<^sup>* (bare base) s" "Overwrite (EffectsParams v i) \<noteq> IGNORE_DUPLICATE"
  shows "length (filter (is_status i) (m_StatusEffectSet s)) \<le> 1"
  using se_runs_ok[OF assms(2,1) bare_ok] assms(3) by (simp add: se_ok_def single_def live_count_def)

theorem no_duplicate_effects_witness:
  "length (filter (is_status 40) (m_StatusEffectSet (snd (AddStatusEffect plain_env 1 (plain_effect 40 7)
     (snd (AddStatusEffect plain_env 0 (plain_effect 40 7) (bare (\<lambda>_. 0)))))))) \<le> 1"
proof -
  have p: "\<not> deleted (plain_effect 40 7)" by (simp add: plain_effect_def)
  have ow: "Overwrite (EffectsParams plain_env 40) \<noteq> IGNORE_DUPLICATE" by (simp add: plain_env_def)
  let ?s1 = "snd (AddStatusEffect plain_env 0 (plain_effect 40 7) (bare (\<lambda>_. 0)))"
  let ?s2 = "snd (AddStatusEffect plain_env 1 (plain_effect 40 7) ?s1)"
  have "se_run plain_env (bare (\<lambda>_. 0)) ?s1" by (rule run_add[OF p])
  moreover have "se_run plain_env ?s1 ?s2" by (rule run_add[OF p])
  ultimately have "(se_run plain_env)\<^sup>*\<^sup>* (bare (\<lambda>_. 0)) ?s2" by (rule converse_rtranclp_into_rtranclp[OF _ r_into_rtranclp])
  from no_duplicate_effects[OF plain_env_ok this ow] show ?thesis .
qed

text \<open>
  \<open>KillAllStatusEffect\<close> does not look at the deletion mark: every effect with a duration that was
  removed but not yet taken out of the set has its modifiers subtracted a second time, for good.
\<close>

theorem KillAll_subtracts_twice:
  assumes "accounted base s" "k \<noteq> 0"
  shows "m_modStat (KillAllStatusEffect s) k = base k + live_mods (m_StatusEffectSet (KillAllStatusEffect s)) k
    - sum_list (map (\<lambda>e. mods_of (modList e) k) (filter (\<lambda>e. deleted e \<and> m_Duration e \<noteq> 0) (m_StatusEffectSet s)))"
proof -
  obtain es m where l: "kill_loop (m_StatusEffectSet s) (m_modStat s) = (es, m)" by fastforce
  show ?thesis
    using kill_loop_accounts[OF l, of k] assms by (simp add: KillAllStatusEffect_def l accounted_def algebra_simps)
qed

theorem KillAll_subtracts_twice_witness:
  "m_modStat (KillAllStatusEffect ((bare (\<lambda>_. 3))\<lparr>m_StatusEffectSet :=
     [(plain_effect 40 7)\<lparr>modList := [(25, 7)], deleted := True\<rparr>]\<rparr>)) 25 = 3 - 7"
proof -
  have "accounted (\<lambda>_. 3) ((bare (\<lambda>_. 3))\<lparr>m_StatusEffectSet := [(plain_effect 40 7)\<lparr>modList := [(25, 7)], deleted := True\<rparr>]\<rparr>)"
    by (simp add: accounted_def bare_def)
  from KillAll_subtracts_twice[OF this, of 25] show ?thesis
    by (simp add: KillAllStatusEffect_def plain_effect_def)
qed


section \<open>Songs\<close>

lemma remove_first_at:
  assumes "\<not> P a" "P b" "\<not> deleted b"
  shows "remove_first P [a, b] m = (True, [a, b\<lparr>deleted := True\<rparr>], delModifiers (modList b) m)"
  using assms by (simp add: RemoveStatusEffect_def)

lemma Add_other_live:
  assumes "hooks_ok v" "m_StatusID e \<noteq> i" "live_count i (m_StatusEffectSet s) = 0"
  shows "live_count i (m_StatusEffectSet (snd (AddStatusEffect v now e s))) = 0"
proof (cases rule: AddStatusEffect_cases[OF assms(1), of now e s])
  case (2 e' s')
  have "live_count i (m_StatusEffectSet (cleared v now e s)) = 0"
    using cleared_count(1)[of i v now e s] assms(3) by simp
  then show ?thesis using 2 assms(2) by (simp add: live_count_insert is_status_def)
qed (use assms(3) in simp)

lemma Has_live_count: "HasStatusEffect i s \<longleftrightarrow> live_count i (m_StatusEffectSet s) \<noteq> 0"
  by (simp add: HasStatusEffect_def live_count_def filter_empty_conv)

text \<open>
  The loop of \<open>ApplyBardEffect\<close> still counts a song that it has just deleted because the new one
  replaces it.  So when a bard who may keep two songs sings the later of the two again, the earlier
  song is dropped as well.
\<close>

theorem resinging_drops_other_song:
  assumes "hooks_ok v" "m_StatusEffectSet s = [a, b]" "\<not> deleted a" "\<not> deleted b"
    and songs: "EFFECT_REQUIEM \<le> m_StatusID a" "m_StatusID a \<le> EFFECT_NOCTURNE"
      "EFFECT_REQUIEM \<le> m_StatusID b" "m_StatusID b \<le> EFFECT_NOCTURNE"
    and mine: "m_SubID a = m_SubID e" "m_SubID b = m_SubID e" "end_time a \<le> end_time b"
    and again: "m_StatusID e = m_StatusID b" "m_Tier e = m_Tier b" "m_StatusID a \<noteq> m_StatusID b"
  shows "fst (ApplyBardEffect v now e 2 s) \<and> \<not> HasStatusEffect (m_StatusID a) (snd (ApplyBardEffect v now e 2 s))"
proof -
  define e1 where "e1 = e\<lparr>m_Slot := m_Slot b\<rparr>"
  define s1 where "s1 = s\<lparr>m_StatusEffectSet := [a, b\<lparr>deleted := True\<rparr>], m_modStat := delModifiers (modList b) (m_modStat s)\<rparr>"
  have d1: "snd (DelStatusEffectByTier (m_StatusID e) (m_Tier e) s) = s1"
    using assms unfolding DelStatusEffectByTier_def with_first_def assms(2)
    by (subst remove_first_at) (auto simp: is_status_def s1_def)
  have loop: "bard_loop [0..<length (m_StatusEffectSet s)] e 0 None s = (e1, 2, Some 0, s1)"
    using assms d1 by (simp add: e1_def upt_rec Let_def)
  define s2 where "s2 = snd (DelStatusEffectByTier (m_StatusID a) (m_Tier a) s1)"
  have "m_StatusEffectSet s2 = [a\<lparr>deleted := True\<rparr>, b\<lparr>deleted := True\<rparr>]"
    using assms(3) by (simp add: s2_def s1_def DelStatusEffectByTier_def with_first_def is_status_def RemoveStatusEffect_def)
  then have "live_count (m_StatusID a) (m_StatusEffectSet s2) = 0" by simp
  then have "\<not> HasStatusEffect (m_StatusID a) (snd (AddStatusEffect v now (e1\<lparr>m_Slot := m_Slot a\<rparr>) s2))"
    using Add_other_live[OF assms(1), of "e1\<lparr>m_Slot := m_Slot a\<rparr>" "m_StatusID a" s2 now] again
    by (simp add: Has_live_count e1_def)
  moreover have "ApplyBardEffect v now e 2 s = (True, snd (AddStatusEffect v now (e1\<lparr>m_Slot := m_Slot a\<rparr>) s2))"
    by (simp add: ApplyBardEffect_def loop Let_def s2_def) (simp add: s1_def)
  ultimately show ?thesis by simp
qed

theorem resinging_drops_other_song_witness:
  "\<not> HasStatusEffect 196 (snd (ApplyBardEffect plain_env 5 (plain_effect 198 1) 2
     ((bare (\<lambda>_. 0))\<lparr>m_StatusEffectSet := [plain_effect 196 1, plain_effect 198 1]\<rparr>)))"
  using resinging_drops_other_song[OF plain_env_ok, of "(bare (\<lambda>_. 0))\<lparr>m_StatusEffectSet := [plain_effect 196 1, plain_effect 198 1]\<rparr>"
      "plain_effect 196 1" "plain_effect 198 1" "plain_effect 198 1" 5]
  by (simp add: plain_effect_def end_time_def)

lemma lowest_free_spec:
  assumes "sorted (filter (\<lambda>n. n \<noteq> 0) (map m_Slot es))" "0 < n" "n + length es < 256"
  shows "n \<le> lowest_free es n \<and> (\<forall>e \<in> set es. \<not> deleted e \<longrightarrow> m_Slot e \<noteq> lowest_free es n) \<and>
    (\<forall>j. n \<le> j \<and> j < lowest_free es n \<longrightarrow> (\<exists>e \<in> set es. \<not> deleted e \<and> m_Slot e = j))"
  using assms
proof (induction es arbitrary: n)
  case (Cons e es)
  have tail: "sorted (filter (\<lambda>n. n \<noteq> 0) (map m_Slot es))" using Cons.prems(1) by (auto split: if_splits)
  consider "m_Slot e = n" "\<not> deleted e" | "n < m_Slot e" | "m_Slot e \<le> n" "\<not> (m_Slot e = n \<and> \<not> deleted e)" by linarith
  then show ?case
  proof cases
    case 1
    have m: "Suc n mod 256 = Suc n" using Cons.prems(3) by simp
    have "Suc n + length es < 256" using Cons.prems(3) by simp
    from Cons.IH[OF tail _ this] show ?thesis using 1 m
      by (auto simp: Suc_le_eq nat_less_le)
  next
    case 2
    then have "\<forall>x \<in> set es. m_Slot x = 0 \<or> n < m_Slot x"
      using Cons.prems(1,2) by (auto split: if_splits)
    then show ?thesis using 2 Cons.prems(2) by auto
  next
    case 3
    have "n + length es < 256" using Cons.prems(3) by simp
    from Cons.IH[OF tail Cons.prems(2) this] show ?thesis using 3 Cons.prems(2) by auto
  qed
qed simp

text \<open>
  When the set is sorted by the slots of the songs and rolls, the free slot that is handed out is
  the lowest one no live effect has.
\<close>

theorem GetLowestFreeSlot_lowest:
  assumes "sorted (filter (\<lambda>n. n \<noteq> 0) (map m_Slot (m_StatusEffectSet s)))" "length (m_StatusEffectSet s) < 255"
  shows "(\<forall>e \<in> set (m_StatusEffectSet s). \<not> deleted e \<longrightarrow> m_Slot e \<noteq> GetLowestFreeSlot s) \<and>
    (\<forall>j. 1 \<le> j \<and> j < GetLowestFreeSlot s \<longrightarrow> (\<exists>e \<in> set (m_StatusEffectSet s). \<not> deleted e \<and> m_Slot e = j))"
  using lowest_free_spec[of "m_StatusEffectSet s" 1] assms by (simp add: GetLowestFreeSlot_def)

theorem GetLowestFreeSlot_lowest_witness:
  "\<forall>e \<in> set [(plain_effect 196 1)\<lparr>m_Slot := 1\<rparr>, (plain_effect 198 1)\<lparr>m_Slot := 3\<rparr>]. \<not> deleted e \<longrightarrow>
     m_Slot e \<noteq> GetLowestFreeSlot ((bare (\<lambda>_. 0))\<lparr>m_StatusEffectSet :=
       [(plain_effect 196 1)\<lparr>m_Slot := 1\<rparr>, (plain_effect 198 1)\<lparr>m_Slot := 3\<rparr>]\<rparr>)"
  using GetLowestFreeSlot_lowest[of "(bare (\<lambda>_. 0))\<lparr>m_StatusEffectSet :=
      [(plain_effect 196 1)\<lparr>m_Slot := 1\<rparr>, (plain_effect 198 1)\<lparr>m_Slot := 3\<rparr>]\<rparr>"] by simp

section \<open>Icons\<close>

definition shown :: "owner \<Rightarrow> effect list" where
  "shown s = take 32 (filter (\<lambda>e. m_Icon e \<noteq> 0) (m_StatusEffectSet s))"

lemma bit_or_push: "bit ((fl :: uint64) OR push_bit k 1) m \<longleftrightarrow> bit fl m \<or> (m = k \<and> k < 64)"
  by (auto simp: bit_simps)

lemma shifted_nth: "n \<le> j \<Longrightarrow> (x # xs) ! (j - n) = (if j = n then x else xs ! (j - Suc n))"
  by (auto simp: nth_Cons' Suc_diff_le)

lemma shifted_length: "n \<le> j \<Longrightarrow> j - n < length (x # xs) \<longleftrightarrow> j = n \<or> j - Suc n < length xs"
  by auto

lemma icon_loop_spec:
  assumes "icon_loop es n icons fl = (icons', fl')" "n < 32" "length icons = 32"
  defines "sh \<equiv> take (32 - n) (filter (\<lambda>e. m_Icon e \<noteq> 0) es)"
  shows "length icons' = 32 \<and>
    (\<forall>j < 32. icons' ! j = (if n \<le> j \<and> j - n < length sh then m_Icon (sh ! (j - n)) mod 256 else icons ! j)) \<and>
    (\<forall>j < 32. bit fl' (2 * j) \<longleftrightarrow> bit fl (2 * j) \<or>
       (n \<le> j \<and> j - n < length sh \<and> 256 \<le> m_Icon (sh ! (j - n)) \<and> m_Icon (sh ! (j - n)) < 512)) \<and>
    (\<forall>j < 32. bit fl' (2 * j + 1) \<longleftrightarrow> bit fl (2 * j + 1) \<or>
       (n \<le> j \<and> j - n < length sh \<and> 512 \<le> m_Icon (sh ! (j - n))))"
  using assms(1-3) unfolding sh_def
proof (induction es arbitrary: n icons fl)
  case (Cons e es)
  show ?case
  proof (cases "m_Icon e = 0")
    case True
    then show ?thesis using Cons.IH[of n icons fl] Cons.prems by simp
  next
    case False
    define f1 where "f1 = (if 256 \<le> m_Icon e \<and> m_Icon e < 512 then fl OR push_bit (n * 2) 1 else fl)"
    define f2 where "f2 = (if 512 \<le> m_Icon e then f1 OR push_bit (n * 2 + 1) 1 else f1)"
    define ic where "ic = icons[n := m_Icon e mod 256]"
    have ic: "length ic = 32" "\<And>j. j < 32 \<Longrightarrow> ic ! j = (if j = n then m_Icon e mod 256 else icons ! j)"
      using Cons.prems(3) by (auto simp: ic_def)
    have b: "bit f2 (2 * j) \<longleftrightarrow> bit fl (2 * j) \<or> (j = n \<and> 256 \<le> m_Icon e \<and> m_Icon e < 512)"
      "bit f2 (2 * j + 1) \<longleftrightarrow> bit fl (2 * j + 1) \<or> (j = n \<and> 512 \<le> m_Icon e)" if "j < 32" for j
    proof -
      have "bit f1 m \<longleftrightarrow> bit fl m \<or> (m = n * 2 \<and> n * 2 < 64 \<and> 256 \<le> m_Icon e \<and> m_Icon e < 512)" for m
        unfolding f1_def by (simp only: bit_or_push split: if_split) auto
      then have "bit f2 m \<longleftrightarrow> bit fl m \<or> (m = n * 2 \<and> n * 2 < 64 \<and> 256 \<le> m_Icon e \<and> m_Icon e < 512) \<or>
          (m = n * 2 + 1 \<and> n * 2 + 1 < 64 \<and> 512 \<le> m_Icon e)" for m
        unfolding f2_def by (simp only: bit_or_push split: if_split) auto
      then show "bit f2 (2 * j) \<longleftrightarrow> bit fl (2 * j) \<or> (j = n \<and> 256 \<le> m_Icon e \<and> m_Icon e < 512)"
        "bit f2 (2 * j + 1) \<longleftrightarrow> bit fl (2 * j + 1) \<or> (j = n \<and> 512 \<le> m_Icon e)"
        using that Cons.prems(2) by auto presburger+
    qed
    have eq: "icon_loop (e # es) n icons fl = (if Suc n = 32 then (ic, f2) else icon_loop es (Suc n) ic f2)"
      using False by (simp add: Let_def f1_def f2_def ic_def)
    have sh: "take (32 - n) (filter (\<lambda>e. m_Icon e \<noteq> 0) (e # es)) =
        e # take (32 - Suc n) (filter (\<lambda>e. m_Icon e \<noteq> 0) es)"
      using False Cons.prems(2) by (simp add: take_Cons' Suc_diff_Suc[symmetric])
    show ?thesis
    proof (cases "Suc n = 32")
      case True
      then have "icons' = ic" "fl' = f2" using Cons.prems(1) eq by simp_all
      then show ?thesis using ic b True unfolding sh by (auto simp: nth_Cons split: nat.splits)
    next
      case lt: False
      then have r: "icon_loop es (Suc n) ic f2 = (icons', fl')" using Cons.prems(1) eq by simp
      have n: "Suc n < 32" using lt Cons.prems(2) by simp
      define rest where "rest = take (32 - Suc n) (filter (\<lambda>e. m_Icon e \<noteq> 0) es)"
      note ih = Cons.IH[OF r n ic(1), folded rest_def]
      note at = shifted_nth shifted_length
      note ih1 = ih[THEN conjunct2, THEN conjunct1, rule_format]
      note ih2 = ih[THEN conjunct2, THEN conjunct2, THEN conjunct1, rule_format]
      note ih3 = ih[THEN conjunct2, THEN conjunct2, THEN conjunct2, rule_format]
      have suc: "Suc n \<le> j \<longleftrightarrow> n \<le> j \<and> j \<noteq> n" for j by auto
      have 1: "icons' ! j = (if n \<le> j \<and> j - n < length (e # rest) then m_Icon ((e # rest) ! (j - n)) mod 256 else icons ! j)"
        if "j < 32" for j
        unfolding ih1[OF that] ic(2)[OF that] suc by (cases "n \<le> j"; cases "j = n") (simp_all only: at simp_thms if_True if_False)
      have 2: "bit fl' (2 * j) \<longleftrightarrow> bit fl (2 * j) \<or> (n \<le> j \<and> j - n < length (e # rest) \<and>
          256 \<le> m_Icon ((e # rest) ! (j - n)) \<and> m_Icon ((e # rest) ! (j - n)) < 512)" if "j < 32" for j
        unfolding ih2[OF that] b(1)[OF that] suc by (cases "n \<le> j"; cases "j = n") (simp_all only: at simp_thms if_True if_False)
      have 3: "bit fl' (2 * j + 1) \<longleftrightarrow> bit fl (2 * j + 1) \<or> (n \<le> j \<and> j - n < length (e # rest) \<and>
          512 \<le> m_Icon ((e # rest) ! (j - n)))" if "j < 32" for j
        unfolding ih3[OF that] b(2)[OF that] suc by (cases "n \<le> j"; cases "j = n") (simp_all only: at simp_thms if_True if_False)
      show ?thesis unfolding sh rest_def[symmetric] using ih 1 2 3 by blast
    qed
  qed
qed auto


lemma two_bits_nat: "take_bit 2 (n :: nat) = (if bit n 0 then 1 else 0) + (if bit n 1 then 2 else 0)"
proof -
  have "take_bit 2 n = n mod 4" unfolding take_bit_eq_mod by simp
  also have "\<dots> = n mod 2 + 2 * (n div 2 mod 2)" using mod_mult2_eq[of n 2 2] by simp
  also have "\<dots> = (if odd n then 1 else 0) + (if odd (n div 2) then 2 else 0)"
    unfolding mod2_eq_if by auto
  finally show ?thesis unfolding bit_iff_odd by (simp only: power_0 div_by_1 power_one_right)
qed
lemma two_bits: "unat (drop_bit k (fl :: uint64) AND 3) =
    (if bit fl k then 1 else 0) + (if bit fl (k + 1) then 2 else 0)"
proof -
  have "(3 :: uint64) = mask 2" by (simp add: mask_eq_exp_minus_1)
  then have "drop_bit k fl AND 3 = take_bit 2 (drop_bit k fl)" by (simp only: take_bit_eq_mask)
  then have "unat (drop_bit k fl AND 3) = take_bit 2 (unat (drop_bit k fl))" by (simp only: unsigned_take_bit_eq)
  also have "\<dots> = (if bit fl k then 1 else 0) + (if bit fl (k + 1) then 2 else 0)"
    unfolding two_bits_nat by (simp only: bit_unsigned_iff bit_drop_bit_eq o_def) (auto simp: bit_simps dest: bit_imp_le_length)
  finally show ?thesis .
qed

text \<open>
  C38: the 32 icon bytes and the 64 flag bits sent to the client hold the icons of the first 32 effects
  that have one.  Place \<open>j\<close>, with its two flag bits, gives back the \<open>j\<close>-th of these icons if it is below
  768; of a larger icon only the low eight bits and 512 come back; and unused places read 255.
\<close>

theorem icons_roundtrip:
  assumes "is_pc s" "j < 32"
  defines "s' \<equiv> UpdateStatusIcons s"
  shows "m_StatusIcons s' ! j + 256 * unat (drop_bit (2 * j) (icon_flags s') AND 3) =
    (if length (shown s) \<le> j then 255
     else if m_Icon (shown s ! j) < 768 then m_Icon (shown s ! j)
     else 512 + m_Icon (shown s ! j) mod 256)"
proof -
  obtain icons fl where l: "icon_loop (m_StatusEffectSet s) 0 (replicate 32 255) 0 = (icons, fl)" by fastforce
  then have s': "m_StatusIcons s' = icons" "icon_flags s' = fl" using assms(1) by (simp_all add: s'_def UpdateStatusIcons_def)
  have "length (replicate 32 (255 :: nat)) = 32" by simp
  note sp = icon_loop_spec[OF l _ this, unfolded diff_zero, folded shown_def, simplified zero_le simp_thms bit_0_eq bot_apply bot_bool_def]
  have n: "(0 :: nat) < 32" by simp
  note sp = sp[OF n]
  have i: "icons ! j = (if j < length (shown s) then m_Icon (shown s ! j) mod 256 else 255)"
    using sp[THEN conjunct2, THEN conjunct1, rule_format, OF assms(2)] assms(2) by simp
  have b: "bit fl (2 * j) \<longleftrightarrow> j < length (shown s) \<and> 256 \<le> m_Icon (shown s ! j) \<and> m_Icon (shown s ! j) < 512"
    using sp[THEN conjunct2, THEN conjunct2, THEN conjunct1, rule_format, OF assms(2)] by simp
  have c: "bit fl (2 * j + 1) \<longleftrightarrow> j < length (shown s) \<and> 512 \<le> m_Icon (shown s ! j)"
    using sp[THEN conjunct2, THEN conjunct2, THEN conjunct2, rule_format, OF assms(2)] by simp
  show ?thesis
  proof (cases "j < length (shown s)")
    case True
    have "x mod 256 + 256 * ((if 256 \<le> x \<and> x < 512 then 1 else 0) + (if 512 \<le> x then 2 else 0)) =
        (if x < 768 then x else 512 + x mod 256)" for x :: nat
      using le_mod_geq[of 256 x] le_mod_geq[of 256 "x - 256"]
      by (cases "x < 256"; cases "x < 512"; cases "x < 768") simp_all
    then show ?thesis unfolding s' two_bits i b c using True by (simp only: simp_thms if_True if_False not_le[symmetric])
  next
    case False
    then show ?thesis unfolding s' two_bits i b c by simp
  qed
qed

theorem icons_roundtrip_witness:
  "m_StatusIcons (UpdateStatusIcons ((bare (\<lambda>_. 0))\<lparr>m_StatusEffectSet := [plain_effect 600 1, plain_effect 807 1]\<rparr>)) ! 1 +
     256 * unat (drop_bit (2 * 1) (icon_flags (UpdateStatusIcons
       ((bare (\<lambda>_. 0))\<lparr>m_StatusEffectSet := [plain_effect 600 1, plain_effect 807 1]\<rparr>))) AND 3) = 551"
  using icons_roundtrip[of "(bare (\<lambda>_. 0))\<lparr>m_StatusEffectSet := [plain_effect 600 1, plain_effect 807 1]\<rparr>" 1]
  by (simp add: bare_def plain_effect_def shown_def)

end
