(* ===== verification/Merit.thy ===== *)
theory Merit
  imports Prelude
begin

text \<open>
  Merit points: \<open>src/map/merit.cpp\<close>, \<open>src/map/merit.h\<close>, the packet handler
  \<open>packets/c2s/0x0be_merits.cpp\<close> that edits them, and the functions of \<open>charutils.cpp\<close> for the
  spells and weapon skills a merit unlocks.

  A pointer into the array \<open>merits\<close> is an index.  \<open>uint8\<close> and \<open>uint16\<close> members are naturals,
  with \<open>mod\<close> written where the code adds to them.  A merit number is the value of the packet
  field shifted left, so it may exceed 16 bits; a read of \<open>meritCatInfo\<close> beyond its 54 rows is
  \<^term>\<open>None\<close>.  The settings, the job and level of the character, and which spells exist are
  arguments.  The database is the list of rows of \<open>char_merit\<close>.
\<close>

section \<open>Tables\<close>

definition upgrade :: "nat list list" where
  "upgrade =
    [[1, 2, 3, 4, 5, 5, 5, 5, 5, 7, 7, 7, 9, 9, 9],
     [3, 6, 9, 9, 9, 12, 12, 12, 12, 15, 15, 15, 15, 18, 18],
     [1, 2, 3, 3, 3, 3, 3, 3],
     [1, 2, 3, 3, 3, 3, 3, 3],
     [1, 2, 3, 3, 3, 3, 3, 3],
     [1, 2, 3, 4, 5],
     [1, 2, 3, 4, 5],
     [3, 4, 5, 5, 5],
     [20, 22, 24, 27, 30],
     [1, 3, 5, 7, 9, 12, 15, 18, 21, 24, 27, 30, 33, 36, 39, 42, 45, 45, 45, 45, 45, 45, 45,
      45, 45, 45, 48, 48, 48, 48, 48, 48, 48, 48, 48, 48, 51, 51, 51, 51, 51, 51, 51, 51, 51]]"

text \<open>
  The array has 10 rows of 45 bytes, and C++ fills a short row with zeros.  Other indices leave
  the array; the invariant below excludes them.
\<close>

definition upgrade_at :: "nat \<Rightarrow> nat \<Rightarrow> nat" where
  "upgrade_at row col = (upgrade ! row @ replicate (45 - length (upgrade ! row)) 0) ! col"

definition MAX_LIMIT_POINTS :: nat where
  "MAX_LIMIT_POINTS = 10000"

definition level_cap :: "nat list" where
  "level_cap = replicate 10 0 @ replicate 10 1 @ replicate 10 2 @ replicate 10 3 @ replicate 10 4 @
     replicate 5 5 @ replicate 5 6 @ replicate 5 7 @ replicate 5 8 @ replicate 5 9 @
     replicate 5 15 @ replicate 10 15 @ replicate 10 15"

record MeritCategoryInfo_t =
  MeritsInCat :: nat
  MaxPoints :: nat
  UpgradeID :: nat

definition cat_info :: "nat \<Rightarrow> nat \<Rightarrow> nat \<Rightarrow> MeritCategoryInfo_t" where
  "cat_info n mx u = \<lparr>MeritsInCat = n, MaxPoints = mx, UpgradeID = u\<rparr>"

definition meritCatInfo :: "MeritCategoryInfo_t list" where
  "meritCatInfo =
    [cat_info 3 40 0, cat_info 7 105 1, cat_info 19 152 2, cat_info 14 112 4, cat_info 5 10 5,
     cat_info 5 10 6, cat_info 5 10 6, cat_info 5 10 6, cat_info 7 10 6, cat_info 7 10 6,
     cat_info 5 10 6, cat_info 5 10 6, cat_info 5 10 6, cat_info 5 10 6, cat_info 5 10 6,
     cat_info 5 10 6, cat_info 5 10 6, cat_info 7 10 6, cat_info 5 10 6, cat_info 5 10 6,
     cat_info 5 10 6, cat_info 5 10 6, cat_info 5 10 6, cat_info 4 10 6, cat_info 4 10 6,
     cat_info 14 15 8, cat_info 5 10 6, cat_info 5 10 6,
     cat_info 0 0 8, cat_info 0 0 8, cat_info 0 0 8,
     cat_info 4 10 7, cat_info 4 10 7, cat_info 6 10 7, cat_info 12 10 7, cat_info 12 10 7,
     cat_info 4 10 7, cat_info 4 10 7, cat_info 4 10 7, cat_info 4 10 7, cat_info 6 10 7,
     cat_info 4 10 7, cat_info 4 10 7, cat_info 12 10 7, cat_info 4 10 7, cat_info 6 10 7,
     cat_info 4 10 7, cat_info 4 10 7, cat_info 4 10 7, cat_info 4 10 7, cat_info 6 10 7,
     cat_info 0 0 7, cat_info 4 10 7, cat_info 4 10 7]"

definition MCATEGORY_START :: int where "MCATEGORY_START = 0x40"
definition MCATEGORY_COUNT :: int where "MCATEGORY_COUNT = 0xDC0"
definition MERITS_COUNT :: nat where "MERITS_COUNT = 305"
definition MERIT_MAX_MERIT :: nat where "MERIT_MAX_MERIT = 0x44"

text \<open>Evaluated only for merits of at least \<^term>\<open>MCATEGORY_START\<close>.\<close>

definition GetMeritCategory :: "nat \<Rightarrow> nat" where
  "GetMeritCategory merit = merit div 64 - 1"

definition GetMeritID :: "nat \<Rightarrow> nat" where
  "GetMeritID merit = merit mod 64 div 2"

section \<open>State\<close>

record Merit_t =
  mt_id :: nat
  mt_next :: nat
  mt_count :: nat
  mt_value :: nat
  mt_upgrade :: nat
  mt_jobs :: nat
  mt_upgradeid :: nat
  mt_catid :: nat
  mt_spellid :: nat
  mt_wsunlockid :: nat

record CMeritPoints =
  m_LimitPoints :: nat
  m_MeritPoints :: nat
  merits :: "Merit_t list"
  Categories :: "nat list"

text \<open>What the merits change of the character: the spell and weapon skill bits and their saved copies.\<close>

record merit_char =
  char_id :: nat
  mjob :: nat
  mlvl :: nat
  m_SpellList :: "bool list"
  m_LearnedWeaponskills :: "bool list"
  char_spells :: "nat list"
  saved_weaponskills :: "bool list"
  MeritMode :: bool

type_synonym merit_row = "nat \<times> nat \<times> nat"

section \<open>Learned spells and weapon skills\<close>

definition addSpell :: "(nat \<Rightarrow> bool) \<Rightarrow> merit_char \<Rightarrow> nat \<Rightarrow> bool \<times> merit_char" where
  "addSpell known_spell ch i =
     (if known_spell i \<and> \<not> m_SpellList ch ! i
      then (True, ch\<lparr>m_SpellList := (m_SpellList ch)[i := True]\<rparr>) else (False, ch))"

definition delSpell :: "(nat \<Rightarrow> bool) \<Rightarrow> merit_char \<Rightarrow> nat \<Rightarrow> bool \<times> merit_char" where
  "delSpell known_spell ch i =
     (if known_spell i \<and> m_SpellList ch ! i
      then (True, ch\<lparr>m_SpellList := (m_SpellList ch)[i := False]\<rparr>) else (False, ch))"

definition SaveSpell :: "merit_char \<Rightarrow> nat \<Rightarrow> merit_char" where
  "SaveSpell ch i = (if i \<in> set (char_spells ch) then ch
     else ch\<lparr>char_spells := char_spells ch @ [i]\<rparr>)"

definition DeleteSpell :: "merit_char \<Rightarrow> nat \<Rightarrow> merit_char" where
  "DeleteSpell ch i = ch\<lparr>char_spells := remove1 i (char_spells ch)\<rparr>"

text \<open>The argument of these three is a \<open>uint8\<close>.\<close>

definition hasLearnedWeaponskill :: "merit_char \<Rightarrow> nat \<Rightarrow> bool" where
  "hasLearnedWeaponskill ch ws =
     (if length (m_LearnedWeaponskills ch) - 1 < ws mod 256 then False
      else m_LearnedWeaponskills ch ! (ws mod 256))"

definition addLearnedWeaponskill :: "merit_char \<Rightarrow> nat \<Rightarrow> merit_char" where
  "addLearnedWeaponskill ch ws =
     (if length (m_LearnedWeaponskills ch) - 1 < ws mod 256 then ch
      else ch\<lparr>m_LearnedWeaponskills := (m_LearnedWeaponskills ch)[ws mod 256 := True]\<rparr>)"

definition delLearnedWeaponskill :: "merit_char \<Rightarrow> nat \<Rightarrow> merit_char" where
  "delLearnedWeaponskill ch ws =
     (if length (m_LearnedWeaponskills ch) - 1 < ws mod 256 then ch
      else ch\<lparr>m_LearnedWeaponskills := (m_LearnedWeaponskills ch)[ws mod 256 := False]\<rparr>)"

definition SaveLearnedAbilities :: "merit_char \<Rightarrow> merit_char" where
  "SaveLearnedAbilities ch = ch\<lparr>saved_weaponskills := m_LearnedWeaponskills ch\<rparr>"

section \<open>Finding a merit\<close>

definition IsMeritExist :: "nat \<Rightarrow> bool option" where
  "IsMeritExist merit =
     (if to_i16 (int merit) < MCATEGORY_START then Some False
      else if MCATEGORY_COUNT \<le> to_i16 (int merit) then Some False
      else if GetMeritCategory merit < length meritCatInfo
      then Some (\<not> MeritsInCat (meritCatInfo ! GetMeritCategory merit) \<le> GetMeritID merit)
      else None)"

definition GetMeritPointer :: "CMeritPoints \<Rightarrow> nat \<Rightarrow> nat option option" where
  "GetMeritPointer s merit =
     (case IsMeritExist merit of
        None \<Rightarrow> None
      | Some False \<Rightarrow> Some None
      | Some True \<Rightarrow> Some (Some (Categories s ! GetMeritCategory merit + GetMeritID merit)))"

definition GetMeritByIndex :: "CMeritPoints \<Rightarrow> nat \<Rightarrow> Merit_t option" where
  "GetMeritByIndex s index = (if MERITS_COUNT \<le> index then None else Some (merits s ! index))"

definition count_run :: "CMeritPoints \<Rightarrow> nat \<Rightarrow> nat \<Rightarrow> nat" where
  "count_run s p n = fold (\<lambda>i t. (t + mt_count (merits s ! (p + i))) mod 2 ^ 16) [0..<n] 0"

definition GetMeritCountInSameCategory :: "CMeritPoints \<Rightarrow> nat \<Rightarrow> nat option" where
  "GetMeritCountInSameCategory s merit =
     (case IsMeritExist merit of
        None \<Rightarrow> None
      | Some False \<Rightarrow> Some 0
      | Some True \<Rightarrow> Some (count_run s (Categories s ! GetMeritCategory merit)
                        (MeritsInCat (meritCatInfo ! GetMeritCategory merit))))"

definition merit_value :: "merit_char \<Rightarrow> nat \<Rightarrow> Merit_t \<Rightarrow> nat" where
  "merit_value ch merit m =
     (let v = if mt_catid m < 5 \<or> bit (mt_jobs m) (mjob ch - 1) \<and> 75 \<le> mlvl ch
              then if merit = MERIT_MAX_MERIT then mt_count m
                   else min (mt_count m) (level_cap ! mlvl ch)
              else 0;
          v = if mt_catid m = 25 \<and> mlvl ch < 96 then 0 else v
      in v * mt_value m mod 2 ^ 16)"

definition GetMeritValue :: "CMeritPoints \<Rightarrow> merit_char \<Rightarrow> nat \<Rightarrow> nat option" where
  "GetMeritValue s ch merit =
     (case GetMeritPointer s merit of
        None \<Rightarrow> None
      | Some None \<Rightarrow> Some 0
      | Some (Some i) \<Rightarrow> Some (merit_value ch merit (merits s ! i)))"

section \<open>Limit points and merit points\<close>

definition merit_limit :: "nat \<Rightarrow> merit_char \<Rightarrow> CMeritPoints \<Rightarrow> nat" where
  "merit_limit MAX_MERIT_POINTS ch s =
     MAX_MERIT_POINTS + (case GetMeritValue s ch MERIT_MAX_MERIT of None \<Rightarrow> 0 | Some v \<Rightarrow> v)"

definition AddLimitPoints :: "nat \<Rightarrow> merit_char \<Rightarrow> CMeritPoints \<Rightarrow> nat \<Rightarrow> bool \<times> CMeritPoints" where
  "AddLimitPoints MAX_MERIT_POINTS ch s points =
     (let lp = (m_LimitPoints s + points) mod 2 ^ 16; s1 = s\<lparr>m_LimitPoints := lp\<rparr>
      in if MAX_LIMIT_POINTS \<le> lp
         then if m_MeritPoints s = merit_limit MAX_MERIT_POINTS ch s
              then (False, s\<lparr>m_LimitPoints := MAX_LIMIT_POINTS - 1\<rparr>)
              else let mp = min (m_MeritPoints s + lp div MAX_LIMIT_POINTS)
                              (merit_limit MAX_MERIT_POINTS ch s) mod 2 ^ 8;
                       s2 = s\<lparr>m_LimitPoints := lp mod MAX_LIMIT_POINTS\<rparr>
                   in if m_MeritPoints s \<noteq> mp then (True, s2\<lparr>m_MeritPoints := mp\<rparr>) else (False, s2)
         else (False, s1))"

definition SetLimitPoints :: "CMeritPoints \<Rightarrow> nat \<Rightarrow> CMeritPoints" where
  "SetLimitPoints s points = s\<lparr>m_LimitPoints := min points (MAX_LIMIT_POINTS - 1)\<rparr>"

definition SetMeritPoints :: "nat \<Rightarrow> merit_char \<Rightarrow> CMeritPoints \<Rightarrow> nat \<Rightarrow> CMeritPoints" where
  "SetMeritPoints MAX_MERIT_POINTS ch s points =
     s\<lparr>m_MeritPoints := min (points mod 2 ^ 8) (merit_limit MAX_MERIT_POINTS ch s mod 2 ^ 8)\<rparr>"

section \<open>Raising and lowering a merit\<close>

definition learn :: "(nat \<Rightarrow> bool) \<Rightarrow> merit_char \<Rightarrow> Merit_t \<Rightarrow> merit_char" where
  "learn known_spell ch m =
     (let ch1 = if mt_spellid m \<noteq> 0
                then case addSpell known_spell ch (mt_spellid m) of
                       (True, c) \<Rightarrow> SaveSpell c (mt_spellid m)
                     | (False, c) \<Rightarrow> c
                else ch
      in if mt_wsunlockid m \<noteq> 0 \<and> \<not> hasLearnedWeaponskill ch1 (mt_wsunlockid m)
         then SaveLearnedAbilities (addLearnedWeaponskill ch1 (mt_wsunlockid m)) else ch1)"

definition forget :: "(nat \<Rightarrow> bool) \<Rightarrow> merit_char \<Rightarrow> Merit_t \<Rightarrow> merit_char" where
  "forget known_spell ch m =
     (let ch1 = if mt_spellid m \<noteq> 0 \<and> mt_count m = 0
                then case delSpell known_spell ch (mt_spellid m) of
                       (True, c) \<Rightarrow> DeleteSpell c (mt_spellid m)
                     | (False, c) \<Rightarrow> c
                else ch
      in if mt_wsunlockid m \<noteq> 0 \<and> mt_count m = 0 \<and> hasLearnedWeaponskill ch1 (mt_wsunlockid m)
         then SaveLearnedAbilities (delLearnedWeaponskill ch1 (mt_wsunlockid m)) else ch1)"

definition can_raise :: "CMeritPoints \<Rightarrow> nat \<Rightarrow> Merit_t \<Rightarrow> bool option" where
  "can_raise s merit m =
     (case GetMeritCountInSameCategory s merit of
        None \<Rightarrow> None
      | Some t \<Rightarrow> Some (mt_next m \<le> m_MeritPoints s \<and> mt_count m < mt_upgrade m \<and>
                     t < MaxPoints (meritCatInfo ! GetMeritCategory merit)))"

definition raised :: "Merit_t \<Rightarrow> Merit_t" where
  "raised m = m\<lparr>mt_next := upgrade_at (mt_upgradeid m) (mt_count m + 1),
                mt_count := (mt_count m + 1) mod 2 ^ 8\<rparr>"

definition RaiseMerit :: "(nat \<Rightarrow> bool) \<Rightarrow> merit_char \<Rightarrow> CMeritPoints \<Rightarrow> nat
    \<Rightarrow> (merit_char \<times> CMeritPoints) option" where
  "RaiseMerit known_spell ch s merit =
     (case GetMeritPointer s merit of
        None \<Rightarrow> None
      | Some None \<Rightarrow> Some (ch, s)
      | Some (Some i) \<Rightarrow>
          (case can_raise s merit (merits s ! i) of
             None \<Rightarrow> None
           | Some False \<Rightarrow> Some (ch, s)
           | Some True \<Rightarrow>
               Some (learn known_spell ch (merits s ! i),
                     s\<lparr>m_MeritPoints := m_MeritPoints s - mt_next (merits s ! i),
                       merits := (merits s)[i := raised (merits s ! i)]\<rparr>)))"

definition lowered :: "nat \<Rightarrow> Merit_t \<Rightarrow> Merit_t" where
  "lowered merit m =
     (if 0 < mt_count m
      then m\<lparr>mt_count := mt_count m - 1,
             mt_next := upgrade_at (UpgradeID (meritCatInfo ! GetMeritCategory merit)) (mt_count m - 1)\<rparr>
      else m)"

definition LowerMerit :: "(nat \<Rightarrow> bool) \<Rightarrow> merit_char \<Rightarrow> CMeritPoints \<Rightarrow> nat
    \<Rightarrow> (merit_char \<times> CMeritPoints) option" where
  "LowerMerit known_spell ch s merit =
     (case GetMeritPointer s merit of
        None \<Rightarrow> None
      | Some None \<Rightarrow> Some (ch, s)
      | Some (Some i) \<Rightarrow>
          (let m = lowered merit (merits s ! i)
           in Some (forget known_spell ch m, s\<lparr>merits := (merits s)[i := m]\<rparr>)))"

section \<open>Loading the list of merits\<close>

text \<open>A row of the joined tables \<open>merits\<close>, \<open>spell_list\<close> and \<open>weapon_skills\<close>.\<close>

record merits_row =
  r_meritid :: nat
  r_value :: nat
  r_jobs :: nat
  r_upgrade :: nat
  r_upgradeid :: nat
  r_catagoryid :: nat
  r_spellid :: "nat option"
  r_unlock_id :: "nat option"

definition zero_merit :: Merit_t where
  "zero_merit = \<lparr>mt_id = 0, mt_next = 0, mt_count = 0, mt_value = 0, mt_upgrade = 0, mt_jobs = 0,
     mt_upgradeid = 0, mt_catid = 0, mt_spellid = 0, mt_wsunlockid = 0\<rparr>"

definition template_merit :: "merits_row \<Rightarrow> Merit_t" where
  "template_merit r = \<lparr>mt_id = r_meritid r, mt_next = upgrade_at (r_upgradeid r) 0, mt_count = 0,
     mt_value = r_value r, mt_upgrade = r_upgrade r, mt_jobs = r_jobs r,
     mt_upgradeid = r_upgradeid r, mt_catid = r_catagoryid r,
     mt_spellid = (case r_spellid r of None \<Rightarrow> 0 | Some i \<Rightarrow> i),
     mt_wsunlockid = (case r_unlock_id r of None \<Rightarrow> 0 | Some i \<Rightarrow> i)\<rparr>"

record scan_state =
  sc_index :: nat
  sc_catIndex :: nat
  sc_catMeritIndex :: nat
  groupOffset :: "nat list"

definition scan_row :: "nat \<Rightarrow> scan_state \<Rightarrow> scan_state" where
  "scan_row catid s =
     (let s1 = (if catid \<noteq> sc_catIndex s
                then s\<lparr>groupOffset := (groupOffset s)[sc_catIndex s := sc_index s - sc_catMeritIndex s],
                       sc_catIndex := (if catid \<noteq> sc_catIndex s + 1 then catid else sc_catIndex s + 1),
                       sc_catMeritIndex := 0\<rparr>
                else s)
      in s1\<lparr>sc_catMeritIndex := sc_catMeritIndex s1 + 1, sc_index := sc_index s1 + 1\<rparr>)"

definition scan_groups :: "nat list \<Rightarrow> nat list" where
  "scan_groups catids =
     (let s = fold scan_row catids \<lparr>sc_index = 0, sc_catIndex = 0, sc_catMeritIndex = 0,
                                    groupOffset = replicate 54 0\<rparr>
      in (groupOffset s)[sc_catIndex s := sc_index s - sc_catMeritIndex s])"

text \<open>The rows come ordered by \<open>meritid\<close>; the statement has \<open>LIMIT\<close> 305.\<close>

definition LoadMeritsList :: "merits_row list \<Rightarrow> Merit_t list \<times> nat list" where
  "LoadMeritsList rows =
     (let rs = take MERITS_COUNT rows
      in (map template_merit rs @ replicate (MERITS_COUNT - length rs) zero_merit,
          scan_groups (map r_catagoryid rs)))"

section \<open>Loading and saving the merits of a character\<close>

definition unknown_cat :: "nat \<Rightarrow> bool" where
  "unknown_cat c \<longleftrightarrow> 27 < c \<and> c < 31 \<or> c = 51"

definition cat_step :: "nat list \<Rightarrow> nat \<Rightarrow> nat \<times> nat list \<Rightarrow> nat \<times> nat list" where
  "cat_step offsets i st =
     (case st of (c, cs) \<Rightarrow>
        if c < 54 \<and> i = offsets ! c \<or> unknown_cat c
        then (c + 1, cs[c := if unknown_cat c then 163 else i]) else (c, cs))"

definition scan_categories :: "nat list \<Rightarrow> nat list" where
  "scan_categories offsets = snd (fold (cat_step offsets) [0..<MERITS_COUNT] (0, replicate 54 0))"

definition reset_merit :: "Merit_t \<Rightarrow> Merit_t" where
  "reset_merit m = m\<lparr>mt_count := 0, mt_next := upgrade_at (mt_upgradeid m) 0\<rparr>"

definition apply_row :: "nat \<times> nat \<Rightarrow> Merit_t \<Rightarrow> Merit_t" where
  "apply_row row m =
     (case row of (meritID, upgrades) \<Rightarrow>
        if mt_id m = meritID
        then m\<lparr>mt_count := upgrades mod 2 ^ 8, mt_next := upgrade_at (mt_upgradeid m) (upgrades mod 2 ^ 8)\<rparr>
        else m)"

definition char_rows :: "merit_row list \<Rightarrow> nat \<Rightarrow> (nat \<times> nat) list" where
  "char_rows db charid = map snd (filter (\<lambda>r. fst r = charid) db)"

definition LoadMeritPoints :: "nat list \<Rightarrow> merit_row list \<Rightarrow> nat \<Rightarrow> CMeritPoints \<Rightarrow> CMeritPoints" where
  "LoadMeritPoints offsets db charid s =
     s\<lparr>Categories := scan_categories offsets,
       merits := fold (\<lambda>row. map (apply_row row)) (char_rows db charid) (map reset_merit (merits s))\<rparr>"

text \<open>\<open>INSERT ... ON DUPLICATE KEY UPDATE\<close> and \<open>DELETE\<close> on the key \<open>(meritid, charid)\<close>.\<close>

definition row_key :: "merit_row \<Rightarrow> nat \<times> nat" where
  "row_key r = (fst r, fst (snd r))"

definition save_merit :: "nat \<Rightarrow> Merit_t \<Rightarrow> merit_row list \<Rightarrow> merit_row list" where
  "save_merit charid m db =
     (if 0 < mt_count m
      then if (charid, mt_id m) \<in> row_key ` set db
           then map (\<lambda>r. if row_key r = (charid, mt_id m) then (charid, mt_id m, mt_count m) else r) db
           else db @ [(charid, mt_id m, mt_count m)]
      else filter (\<lambda>r. row_key r \<noteq> (charid, mt_id m)) db)"

definition SaveMeritPoints :: "nat \<Rightarrow> CMeritPoints \<Rightarrow> merit_row list \<Rightarrow> merit_row list" where
  "SaveMeritPoints charid s db = fold (save_merit charid) (merits s) db"

text \<open>The constructor; the caller then sets the two point counters from \<open>char_exp\<close>.\<close>

definition new_CMeritPoints :: "Merit_t list \<times> nat list \<Rightarrow> merit_row list \<Rightarrow> nat \<Rightarrow> CMeritPoints" where
  "new_CMeritPoints tmpl db charid =
     (LoadMeritPoints (snd tmpl) db charid
        \<lparr>m_LimitPoints = 0, m_MeritPoints = 0, merits = fst tmpl, Categories = []\<rparr>)
     \<lparr>m_LimitPoints := 0, m_MeritPoints := 0\<rparr>"

definition login_merits :: "Merit_t list \<times> nat list \<Rightarrow> nat \<Rightarrow> merit_char \<Rightarrow> merit_row list \<Rightarrow> nat \<Rightarrow> nat
    \<Rightarrow> CMeritPoints" where
  "login_merits tmpl MAX_MERIT_POINTS ch db meritPoints limitPoints =
     SetLimitPoints (SetMeritPoints MAX_MERIT_POINTS ch (new_CMeritPoints tmpl db (char_id ch)) meritPoints)
       limitPoints"

section \<open>The packet that edits merits\<close>

record merits_packet =
  Kind :: nat
  Param1 :: nat
  Param2 :: nat

record merit_world =
  mw_char :: merit_char
  mw_points :: CMeritPoints
  mw_db :: "merit_row list"

definition merits_validate :: "merits_packet \<Rightarrow> bool" where
  "merits_validate p \<longleftrightarrow> (Kind p = 2 \<or> Kind p = 3) \<and> (Param1 p = 0 \<or> Param1 p = 1)"

definition merits_edit :: "(nat \<Rightarrow> bool) \<Rightarrow> merit_world \<Rightarrow> nat \<Rightarrow> nat \<Rightarrow> merit_world option" where
  "merits_edit known_spell w param merit =
     (case IsMeritExist merit of
        None \<Rightarrow> None
      | Some False \<Rightarrow> Some w
      | Some True \<Rightarrow>
          (case (if param = 0 then LowerMerit known_spell (mw_char w) (mw_points w) merit
                 else RaiseMerit known_spell (mw_char w) (mw_points w) merit) of
             None \<Rightarrow> None
           | Some (ch, s) \<Rightarrow>
               Some \<lparr>mw_char = ch, mw_points = s, mw_db = SaveMeritPoints (char_id ch) s (mw_db w)\<rparr>))"

definition merits_process :: "(nat \<Rightarrow> bool) \<Rightarrow> bool \<Rightarrow> merit_world \<Rightarrow> merits_packet \<Rightarrow> merit_world option" where
  "merits_process known_spell inMogHouse w p =
     (if \<not> merits_validate p then Some w
      else if Kind p = 2 then Some (w\<lparr>mw_char := (mw_char w)\<lparr>MeritMode := (Param1 p \<noteq> 0)\<rparr>\<rparr>)
      else if inMogHouse then merits_edit known_spell w (Param1 p) (2 * Param2 p)
      else Some w)"

section \<open>Where the categories point\<close>

lemma length_meritCatInfo [simp]: "length meritCatInfo = 54"
  by (simp add: meritCatInfo_def)

text \<open>The identifiers and categories of the shipped table, in order, as \<open>meritCatInfo\<close> lays them out.\<close>

definition std_ids :: "(nat \<times> nat) list" where
  "std_ids = concat (map (\<lambda>c. map (\<lambda>k. (64 * (c + 1) + 2 * k, c))
     [0..<MeritsInCat (meritCatInfo ! c)]) [0..<54])"

definition std_categories :: "nat list" where
  "std_categories =
    [0, 3, 10, 29, 43, 48, 53, 58, 63, 70, 77, 82, 87, 92, 97, 102, 107, 112, 119, 124, 129, 134,
     139, 144, 148, 152, 166, 171, 163, 163, 163, 176, 180, 184, 190, 202, 214, 218, 222, 226, 230,
     236, 240, 244, 256, 260, 266, 270, 274, 278, 282, 163, 288, 292]"

definition cat_ids :: "nat \<Rightarrow> nat list" where
  "cat_ids c = map (\<lambda>k. 64 * (c + 1) + 2 * k) [0..<MeritsInCat (meritCatInfo ! c)]"

definition std_first :: "nat list" where
  "std_first = concat (map cat_ids [0..<54])"

definition std_id_list :: "nat list" where
  "std_id_list = std_first @ replicate 9 0"

definition scan_rows :: "nat \<Rightarrow> nat \<Rightarrow> scan_state \<Rightarrow> scan_state" where
  "scan_rows n c = fold scan_row (replicate n c)"

lemma scan_same:
  "sc_catIndex s = c \<Longrightarrow> scan_rows n c s =
     s\<lparr>sc_catMeritIndex := sc_catMeritIndex s + n, sc_index := sc_index s + n\<rparr>"
  unfolding scan_rows_def
  by (induction n arbitrary: s) (simp_all add: scan_row_def Let_def del: fold_replicate)

lemma scan_none: "scan_rows 0 c s = s"
  by (simp add: scan_rows_def)

lemma scan_new:
  assumes "sc_catIndex s \<noteq> c" "0 < n"
  shows "scan_rows n c s =
     \<lparr>sc_index = sc_index s + n, sc_catIndex = c, sc_catMeritIndex = n,
      groupOffset = (groupOffset s)[sc_catIndex s := sc_index s - sc_catMeritIndex s]\<rparr>"
proof -
  obtain k where k: "n = Suc k" using assms(2) gr0_implies_Suc by blast
  have "scan_row c s =
     \<lparr>sc_index = sc_index s + 1, sc_catIndex = c, sc_catMeritIndex = 1,
      groupOffset = (groupOffset s)[sc_catIndex s := sc_index s - sc_catMeritIndex s]\<rparr>"
    using assms by (simp add: scan_row_def Let_def)
  moreover have "scan_rows n c s = scan_rows k c (scan_row c s)"
    by (simp add: scan_rows_def k del: fold_replicate)
  ultimately show ?thesis by (simp add: scan_same k)
qed

definition std_offsets_list :: "nat list" where
  "std_offsets_list =
    [0, 3, 10, 29, 43, 48, 53, 58, 63, 70, 77, 82, 87, 92, 97, 102, 107, 112, 119, 124, 129, 134,
     139, 144, 148, 152, 166, 171, 0, 0, 0, 176, 180, 184, 190, 202, 214, 218, 222, 226, 230,
     236, 240, 244, 256, 260, 266, 270, 274, 278, 282, 0, 288, 292]"

lemma map_snd_std_ids:
  "map snd std_ids = concat (map (\<lambda>c. replicate (MeritsInCat (meritCatInfo ! c)) c) [0..<54])"
  by (simp add: std_ids_def map_concat comp_def map_replicate_const)

lemma fold_concat_map: "fold f (concat (map g xs)) s = fold (\<lambda>x. fold f (g x)) xs s"
  by (induction xs arbitrary: s) simp_all

lemma upt_54:
  "[0..<54] = [0, 1, 2, 3, 4, 5, 6, 7, 8, 9, 10, 11, 12, 13, 14, 15, 16, 17, 18, 19, 20, 21, 22, 23,
     24, 25, 26, 27, 28, 29, 30, 31, 32, 33, 34, 35, 36, 37, 38, 39, 40, 41, 42, 43, 44, 45, 46, 47,
     48, 49, 50, 51, 52, 53]"
  by code_simp

lemma replicate_54:
  "replicate 54 (0 :: nat) = [0, 0, 0, 0, 0, 0, 0, 0, 0, 0, 0, 0, 0, 0, 0, 0, 0, 0, 0, 0, 0, 0, 0, 0,
     0, 0, 0, 0, 0, 0, 0, 0, 0, 0, 0, 0, 0, 0, 0, 0, 0, 0, 0, 0, 0, 0, 0, 0, 0, 0, 0, 0, 0, 0]"
  by (simp add: numeral_eq_Suc)

lemma scan_groups_std: "scan_groups (map snd std_ids) = std_offsets_list"
  unfolding scan_groups_def map_snd_std_ids fold_concat_map scan_rows_def[symmetric]
  by (simp add: scan_same scan_none scan_new meritCatInfo_def cat_info_def Let_def upt_54 replicate_54
      std_offsets_list_def del: fold_replicate One_nat_def, simp)

lemma cat_skip:
  assumes "\<forall>i. a \<le> i \<and> i < b \<longrightarrow> \<not> (c < 54 \<and> i = offs ! c) \<and> \<not> unknown_cat c"
  shows "fold (cat_step offs) [a..<b] (c, cs) = (c, cs)"
proof (cases "a \<le> b")
  case True
  then show ?thesis using assms
  proof (induction b rule: dec_induct)
    case (step n)
    then have "\<not> (c < 54 \<and> n = offs ! c) \<and> \<not> unknown_cat c" using lessI by blast
    with step show ?case by (auto simp: cat_step_def)
  qed simp
qed simp

lemma cat_known:
  assumes "c < 54" "\<not> unknown_cat c" "offs ! c = k" "a \<le> k" "k < b"
  shows "fold (cat_step offs) [a..<b] (c, cs) = fold (cat_step offs) [k + 1..<b] (c + 1, cs[c := k])"
proof -
  have "[a..<b] = [a..<k] @ k # [Suc k..<b]"
    using assms upt_add_eq_append[of a k "b - k"] upt_conv_Cons[of k b] by simp
  then show ?thesis using assms cat_skip[of a k c offs cs] by (simp add: cat_step_def)
qed

lemma cat_unknown:
  assumes "unknown_cat c" "a < b"
  shows "fold (cat_step offs) [a..<b] (c, cs) = fold (cat_step offs) [a + 1..<b] (c + 1, cs[c := 163])"
  using assms upt_conv_Cons[of a b] by (simp add: cat_step_def)

lemma cat_done: "fold (cat_step offs) [a..<b] (54, cs) = (54, cs)"
  by (rule cat_skip) (simp add: unknown_cat_def)

lemma scan_categories_std: "scan_categories std_offsets_list = std_categories"
  unfolding scan_categories_def MERITS_COUNT_def std_offsets_list_def std_categories_def
  by (simp add: cat_known cat_unknown cat_done unknown_cat_def replicate_54
      del: upt_rec_numeral upt_Suc One_nat_def, simp)

lemma std_info_all:
  "list_all (\<lambda>c. MeritsInCat c \<le> 19 \<and> MaxPoints c < 200 \<and> UpgradeID c < 10) meritCatInfo"
  by code_simp

lemma std_info:
  assumes "c < 54"
  shows "MeritsInCat (meritCatInfo ! c) \<le> 19 \<and> MaxPoints (meritCatInfo ! c) < 200 \<and>
    UpgradeID (meritCatInfo ! c) < 10"
  using std_info_all assms by (simp add: list_all_length)

lemma cat_ids_lengths:
  assumes "c \<le> 54"
  shows "map length (take c (map cat_ids [0..<54])) = map MeritsInCat (take c meritCatInfo)"
  using assms by (intro nth_equalityI) (auto simp: cat_ids_def)

lemma length_std_first: "length std_first = 296"
proof -
  have "sum_list (map MeritsInCat meritCatInfo) = 296" by code_simp
  then show ?thesis using cat_ids_lengths[of 54] by (simp add: std_first_def length_concat)
qed

lemma map_fst_std_ids: "map fst std_ids = std_first"
  by (simp add: std_ids_def std_first_def cat_ids_def[abs_def] map_concat comp_def)

lemma length_std_id_list [simp]: "length std_id_list = 305"
  by (simp add: std_id_list_def length_std_first)

lemma nth_concat_block:
  "c < length xss \<Longrightarrow> k < length (xss ! c) \<Longrightarrow>
     concat xss ! (sum_list (map length (take c xss)) + k) = xss ! c ! k \<and>
     sum_list (map length (take c xss)) + k < length (concat xss)"
proof (induction xss arbitrary: c)
  case (Cons xs xss)
  then show ?case by (cases c) (auto simp: nth_append)
qed simp

lemma std_offsets:
  "list_all (\<lambda>c. MeritsInCat (meritCatInfo ! c) = 0 \<or>
     sum_list (map MeritsInCat (take c meritCatInfo)) = std_categories ! c) [0..<54]"
  by code_simp

lemma std_layout:
  assumes "c < 54" "k < MeritsInCat (meritCatInfo ! c)"
  shows "std_categories ! c + k < 296 \<and> std_id_list ! (std_categories ! c + k) = 64 * (c + 1) + 2 * k"
proof -
  have off: "std_categories ! c = sum_list (map length (take c (map cat_ids [0..<54])))"
    using std_offsets assms unfolding cat_ids_lengths[OF less_imp_le[OF assms(1)]] list_all_iff
    by (metis atLeastLessThan_iff less_nat_zero_code set_upt zero_le)
  have k: "k < length (cat_ids c)" "cat_ids c ! k = 64 * (c + 1) + 2 * k"
    using assms by (simp_all add: cat_ids_def)
  have "std_first ! (std_categories ! c + k) = cat_ids c ! k \<and> std_categories ! c + k < length std_first"
    using nth_concat_block[of c "map cat_ids [0..<54]" k] assms k
    unfolding off std_first_def[symmetric] by simp
  then show ?thesis using k length_std_first by (simp add: std_id_list_def nth_append)
qed

lemma sorted_blocks:
  "n \<le> 54 \<Longrightarrow> sorted_wrt (<) (concat (map cat_ids [0..<n])) \<and>
     (\<forall>x \<in> set (concat (map cat_ids [0..<n])). 64 \<le> x \<and> x < 64 * (n + 1))"
proof (induction n)
  case (Suc n)
  have k: "MeritsInCat (meritCatInfo ! n) \<le> 19" using std_info[of n] Suc.prems by simp
  have IH: "sorted_wrt (<) (concat (map cat_ids [0..<n]))"
    "\<forall>x \<in> set (concat (map cat_ids [0..<n])). 64 \<le> x \<and> x < 64 * (n + 1)"
    using Suc by simp_all
  have new: "sorted_wrt (<) (cat_ids n)" "\<forall>x \<in> set (cat_ids n). 64 * (n + 1) \<le> x \<and> x < 64 * (n + 2)"
    using k by (auto simp: cat_ids_def sorted_wrt_map sorted_wrt_iff_nth_less)
  have "\<forall>x \<in> set (concat (map cat_ids [0..<Suc n])). 64 \<le> x \<and> x < 64 * (Suc n + 1)"
    using IH(2) new(2) by (fastforce simp del: set_concat)
  moreover have "sorted_wrt (<) (concat (map cat_ids [0..<Suc n]))"
    using IH new by (fastforce simp: sorted_wrt_append simp del: set_concat)
  ultimately show ?case by blast
qed simp

lemma std_first_sorted: "i < j \<Longrightarrow> j < 296 \<Longrightarrow> std_first ! i < std_first ! j"
  using sorted_blocks[of 54] length_std_first by (simp add: std_first_def sorted_wrt_iff_nth_less)

lemma std_first_pos: "i < 296 \<Longrightarrow> 64 \<le> std_first ! i"
  using sorted_blocks[of 54] length_std_first nth_mem[of i std_first]
  by (simp add: std_first_def del: set_concat)

lemma std_id_inj:
  assumes "i < 296" "j < 305" "std_id_list ! i = std_id_list ! j"
  shows "i = j"
proof -
  have i: "std_id_list ! i = std_first ! i"
    using assms(1) length_std_first by (simp add: std_id_list_def nth_append)
  have "j < 296"
    using assms i std_first_pos[OF assms(1)] length_std_first
    by (cases "j < 296") (auto simp: std_id_list_def nth_append)
  then have "std_id_list ! j = std_first ! j"
    using length_std_first by (simp add: std_id_list_def nth_append)
  with i assms \<open>j < 296\<close> show ?thesis
    using std_first_sorted[of i j] std_first_sorted[of j i] by (metis less_irrefl linorder_neqE_nat)
qed

lemma exist_cat:
  assumes "IsMeritExist merit = Some True"
  shows "GetMeritCategory merit < 54 \<and> GetMeritID merit < MeritsInCat (meritCatInfo ! GetMeritCategory merit)"
  using assms by (auto simp: IsMeritExist_def split: if_splits)

text \<open>The invariant.\<close>

definition merit_ok :: "Merit_t \<Rightarrow> bool" where
  "merit_ok m \<longleftrightarrow> mt_count m \<le> mt_upgrade m \<and> mt_upgrade m < 45 \<and> mt_upgradeid m < 10"

definition cat_total :: "CMeritPoints \<Rightarrow> nat \<Rightarrow> nat" where
  "cat_total s c = (\<Sum>k<MeritsInCat (meritCatInfo ! c). mt_count (merits s ! (std_categories ! c + k)))"

definition merits_layout :: "CMeritPoints \<Rightarrow> bool" where
  "merits_layout s \<longleftrightarrow> Categories s = std_categories \<and> map mt_id (merits s) = std_id_list"

definition merits_wf :: "CMeritPoints \<Rightarrow> bool" where
  "merits_wf s \<longleftrightarrow> merits_layout s \<and> (\<forall>m \<in> set (merits s). merit_ok m) \<and>
     (\<forall>c < 54. cat_total s c \<le> MaxPoints (meritCatInfo ! c)) \<and>
     m_LimitPoints s < MAX_LIMIT_POINTS \<and> m_MeritPoints s < 2 ^ 8"

lemma layout_length: "merits_layout s \<Longrightarrow> length (merits s) = 305"
  unfolding merits_layout_def using length_map[of mt_id "merits s"] by simp

lemma pointer_at:
  assumes "merits_layout s" "GetMeritPointer s merit = Some (Some i)"
  shows "IsMeritExist merit = Some True \<and> GetMeritCategory merit < 54 \<and> i < 296 \<and>
    GetMeritID merit < MeritsInCat (meritCatInfo ! GetMeritCategory merit) \<and>
    i = std_categories ! GetMeritCategory merit + GetMeritID merit \<and>
    mt_id (merits s ! i) = 64 * (GetMeritCategory merit + 1) + 2 * GetMeritID merit"
proof -
  have ex: "IsMeritExist merit = Some True"
    and i: "i = std_categories ! GetMeritCategory merit + GetMeritID merit"
    using assms by (auto simp: GetMeritPointer_def merits_layout_def split: option.splits bool.splits)
  note c = exist_cat[OF ex]
  have l: "i < 296" "std_id_list ! i = 64 * (GetMeritCategory merit + 1) + 2 * GetMeritID merit"
    using std_layout[OF c[THEN conjunct1] c[THEN conjunct2]] i by simp_all
  have "mt_id (merits s ! i) = map mt_id (merits s) ! i"
    using l(1) layout_length[OF assms(1)] by simp
  then have "mt_id (merits s ! i) = std_id_list ! i"
    using assms(1) by (simp add: merits_layout_def)
  with ex c i l show ?thesis by simp
qed

section \<open>Counting\<close>

lemma fold_mod_sum:
  assumes "\<And>i. i < n \<Longrightarrow> f i \<le> (255::nat)" "t + n * 255 < 2 ^ 16"
  shows "fold (\<lambda>i t. (t + f i) mod 2 ^ 16) [0..<n] t = t + (\<Sum>i<n. f i) \<and> (\<Sum>i<n. f i) \<le> n * 255"
  using assms
proof (induction n)
  case (Suc n)
  then have IH: "fold (\<lambda>i t. (t + f i) mod 2 ^ 16) [0..<n] t = t + (\<Sum>i<n. f i)" "(\<Sum>i<n. f i) \<le> n * 255"
    by simp_all
  moreover have "f n \<le> 255" using Suc.prems by simp
  ultimately show ?case using Suc.prems(2) by simp
qed simp

lemma category_count:
  assumes "merits_wf s" "IsMeritExist merit = Some True"
  shows "GetMeritCountInSameCategory s merit = Some (cat_total s (GetMeritCategory merit))"
proof -
  let ?c = "GetMeritCategory merit"
  have c: "?c < 54" using exist_cat[OF assms(2)] by simp
  have le: "mt_count (merits s ! (std_categories ! ?c + i)) \<le> 255"
    if "i < MeritsInCat (meritCatInfo ! ?c)" for i
  proof -
    have "std_categories ! ?c + i < length (merits s)"
      using std_layout[OF c that] layout_length assms(1) by (simp add: merits_wf_def)
    then have "merit_ok (merits s ! (std_categories ! ?c + i))"
      using assms(1) by (auto simp: merits_wf_def)
    then show ?thesis by (simp add: merit_ok_def)
  qed
  have "MeritsInCat (meritCatInfo ! ?c) \<le> 19" using std_info[OF c] by simp
  then have "count_run s (std_categories ! ?c) (MeritsInCat (meritCatInfo ! ?c)) = cat_total s ?c"
    unfolding count_run_def cat_total_def
    using fold_mod_sum[of "MeritsInCat (meritCatInfo ! ?c)"
        "\<lambda>i. mt_count (merits s ! (std_categories ! ?c + i))" 0] le by simp
  then show ?thesis
    using assms by (simp add: GetMeritCountInSameCategory_def merits_wf_def merits_layout_def)
qed

text \<open>Different categories occupy different entries.\<close>

lemma blocks_apart:
  assumes "c < 54" "k < MeritsInCat (meritCatInfo ! c)" "c' < 54" "k' < MeritsInCat (meritCatInfo ! c')"
    and "std_categories ! c + k = std_categories ! c' + k'"
  shows "c = c' \<and> k = k'"
proof -
  have e: "64 * (c + 1) + 2 * k = 64 * (c' + 1) + 2 * k'"
    using std_layout[OF assms(1,2)] std_layout[OF assms(3,4)] assms(5) by simp
  have "k \<le> 19" "k' \<le> 19"
    using std_info[OF assms(1)] std_info[OF assms(3)] assms(2,4) by linarith+
  then have "64 * c + 2 * k < 64 * (c + 1)" "64 * c' + 2 * k' < 64 * (c' + 1)" by simp_all
  with e have "c < c' + 1" "c' < c + 1" by simp_all
  with e show ?thesis by simp
qed

lemma cat_total_update:
  assumes "merits_layout s" "GetMeritPointer s merit = Some (Some i)" "c < 54"
  shows "cat_total (s\<lparr>m_MeritPoints := p, merits := (merits s)[i := m]\<rparr>) c + (if c = GetMeritCategory merit then mt_count (merits s ! i) else 0) =
    cat_total s c + (if c = GetMeritCategory merit then mt_count m else 0)"
proof -
  let ?g = "GetMeritCategory merit" and ?k = "GetMeritID merit"
  let ?n = "MeritsInCat (meritCatInfo ! c)" and ?b = "std_categories ! c"
  note p = pointer_at[OF assms(1,2)]
  have len: "i < length (merits s)" using p layout_length[OF assms(1)] by simp
  show ?thesis
  proof (cases "c = ?g")
    case True
    then have k: "?k \<in> {..<?n}" and i: "i = ?b + ?k" using p by simp_all
    have "(\<Sum>k \<in> {..<?n} - {?k}. mt_count ((merits s)[i := m] ! (?b + k))) =
      (\<Sum>k \<in> {..<?n} - {?k}. mt_count (merits s ! (?b + k)))"
      by (rule sum.cong) (auto simp: i)
    then have "(\<Sum>k<?n. mt_count ((merits s)[i := m] ! (?b + k))) + mt_count (merits s ! i) =
      (\<Sum>k<?n. mt_count (merits s ! (?b + k))) + mt_count m"
      using len i sum.remove[OF _ k, of "\<lambda>k. mt_count ((merits s)[i := m] ! (?b + k))"]
        sum.remove[OF _ k, of "\<lambda>k. mt_count (merits s ! (?b + k))"] by simp
    with True show ?thesis by (simp add: cat_total_def)
  next
    case False
    have "(merits s)[i := m] ! (?b + k) = merits s ! (?b + k)" if "k < ?n" for k
      using False p blocks_apart[OF assms(3) that, of ?g ?k] by (metis nth_list_update_neq)
    with False show ?thesis by (simp add: cat_total_def)
  qed
qed

section \<open>Raising and lowering\<close>

lemma wf_length: "merits_wf s \<Longrightarrow> length (merits s) = 305"
  by (simp add: merits_wf_def layout_length)

lemma RaiseMerit_cases:
  assumes "merits_wf s" "RaiseMerit kn ch s merit = Some (ch', s')"
  obtains (same) "s' = s" "ch' = ch"
  | (up) i where "GetMeritPointer s merit = Some (Some i)" "i < 296" "GetMeritCategory merit < 54"
      "mt_next (merits s ! i) \<le> m_MeritPoints s" "mt_count (merits s ! i) < mt_upgrade (merits s ! i)"
      "cat_total s (GetMeritCategory merit) < MaxPoints (meritCatInfo ! GetMeritCategory merit)"
      "ch' = learn kn ch (merits s ! i)"
      "s' = s\<lparr>m_MeritPoints := m_MeritPoints s - mt_next (merits s ! i),
              merits := (merits s)[i := raised (merits s ! i)]\<rparr>"
proof -
  have lay: "merits_layout s" using assms(1) by (simp add: merits_wf_def)
  consider (null) "GetMeritPointer s merit = Some None" | i where "GetMeritPointer s merit = Some (Some i)"
    using assms(2) by (auto simp: RaiseMerit_def split: option.splits)
  then show thesis
  proof cases
    case null
    with assms(2) same show ?thesis by (simp add: RaiseMerit_def)
  next
    case (2 i)
    note p = pointer_at[OF lay 2]
    show ?thesis
    proof (cases "mt_next (merits s ! i) \<le> m_MeritPoints s \<and> mt_count (merits s ! i) < mt_upgrade (merits s ! i) \<and>
        cat_total s (GetMeritCategory merit) < MaxPoints (meritCatInfo ! GetMeritCategory merit)")
      case True
      then show ?thesis using up[OF 2] p assms(2) category_count[OF assms(1)] 2
        by (simp add: RaiseMerit_def can_raise_def)
    next
      case False
      then have "can_raise s merit (merits s ! i) = Some False"
        using category_count[OF assms(1) p[THEN conjunct1]] by (simp add: can_raise_def del: de_Morgan_conj)
      then show ?thesis using same assms(2) 2 by (simp add: RaiseMerit_def)
    qed
  qed
qed

lemma LowerMerit_cases:
  assumes "merits_wf s" "LowerMerit kn ch s merit = Some (ch', s')"
  obtains (same) "s' = s" "ch' = ch"
  | (down) i where "GetMeritPointer s merit = Some (Some i)" "i < 296" "GetMeritCategory merit < 54"
      "ch' = forget kn ch (lowered merit (merits s ! i))"
      "s' = s\<lparr>merits := (merits s)[i := lowered merit (merits s ! i)]\<rparr>"
proof -
  have lay: "merits_layout s" using assms(1) by (simp add: merits_wf_def)
  consider (null) "GetMeritPointer s merit = Some None" | i where "GetMeritPointer s merit = Some (Some i)"
    using assms(2) by (auto simp: LowerMerit_def split: option.splits)
  then show thesis
  proof cases
    case null
    with assms(2) same show ?thesis by (simp add: LowerMerit_def)
  next
    case (2 i)
    with down[OF 2] pointer_at[OF lay 2] assms(2) show ?thesis by (simp add: LowerMerit_def Let_def)
  qed
qed

text \<open>Replacing one entry by one with the same identifier keeps the layout and moves one category total.\<close>

lemma update_keeps_wf:
  assumes wf: "merits_wf s" and ptr: "GetMeritPointer s merit = Some (Some i)"
    and ok: "merit_ok m" "mt_id m = mt_id (merits s ! i)"
    and tot: "cat_total s (GetMeritCategory merit) + mt_count m \<le>
      MaxPoints (meritCatInfo ! GetMeritCategory merit) + mt_count (merits s ! i)"
    and p: "p < 2 ^ 8"
  shows "merits_wf (s\<lparr>m_MeritPoints := p, merits := (merits s)[i := m]\<rparr>)"
proof -
  let ?s = "s\<lparr>m_MeritPoints := p, merits := (merits s)[i := m]\<rparr>"
  have lay: "merits_layout s" using wf by (simp add: merits_wf_def)
  have "mt_id m = map mt_id (merits s) ! i"
    using ok(2) pointer_at[OF lay ptr] wf_length[OF wf] by simp
  then have "map mt_id ((merits s)[i := m]) = map mt_id (merits s)"
    by (simp add: map_update)
  then have "merits_layout ?s" using lay by (simp add: merits_layout_def)
  moreover have "\<forall>m' \<in> set (merits ?s). merit_ok m'"
    using wf ok(1) set_update_subset_insert[of "merits s" i m] by (auto simp: merits_wf_def)
  moreover have "cat_total ?s c \<le> MaxPoints (meritCatInfo ! c)" if "c < 54" for c
    using cat_total_update[OF lay ptr that, of m p] wf tot that
    by (cases "c = GetMeritCategory merit") (auto simp: merits_wf_def)
  ultimately show ?thesis using wf p by (simp add: merits_wf_def)
qed

lemma RaiseMerit_wf [wf_intros]:
  assumes wf: "merits_wf s" and r: "RaiseMerit kn ch s merit = Some (ch', s')"
  shows "merits_wf s'"
  using wf r
proof (cases rule: RaiseMerit_cases)
  case (up i)
  have ok: "merit_ok (merits s ! i)" using wf up(2) wf_length[OF wf] by (auto simp: merits_wf_def)
  then have "merit_ok (raised (merits s ! i))" "mt_count (raised (merits s ! i)) = mt_count (merits s ! i) + 1"
    using up(5) by (simp_all add: merit_ok_def raised_def)
  then have "merits_wf (s\<lparr>m_MeritPoints := m_MeritPoints s - mt_next (merits s ! i),
      merits := (merits s)[i := raised (merits s ! i)]\<rparr>)"
    using up(6) wf by (intro update_keeps_wf[OF wf up(1)]) (auto simp: raised_def merits_wf_def)
  with up show ?thesis by simp
qed (use wf in simp)

lemma LowerMerit_wf [wf_intros]:
  assumes wf: "merits_wf s" and r: "LowerMerit kn ch s merit = Some (ch', s')"
  shows "merits_wf s'"
  using wf r
proof (cases rule: LowerMerit_cases)
  case (down i)
  have ok: "merit_ok (merits s ! i)" using wf down(2) wf_length[OF wf] by (auto simp: merits_wf_def)
  have "cat_total s (GetMeritCategory merit) \<le> MaxPoints (meritCatInfo ! GetMeritCategory merit)"
    using wf down(3) by (simp add: merits_wf_def)
  then have "merits_wf (s\<lparr>m_MeritPoints := m_MeritPoints s, merits := (merits s)[i := lowered merit (merits s ! i)]\<rparr>)"
    using ok wf by (intro update_keeps_wf[OF wf down(1)]) (auto simp: lowered_def merit_ok_def merits_wf_def)
  with down show ?thesis by simp
qed (use wf in simp)

lemma wf_limit: "merits_wf s \<Longrightarrow> l < MAX_LIMIT_POINTS \<Longrightarrow> merits_wf (s\<lparr>m_LimitPoints := l\<rparr>)"
  by (simp add: merits_wf_def merits_layout_def cat_total_def)

lemma wf_merit: "merits_wf s \<Longrightarrow> p < 2 ^ 8 \<Longrightarrow> merits_wf (s\<lparr>m_MeritPoints := p\<rparr>)"
  by (simp add: merits_wf_def merits_layout_def cat_total_def)

lemma AddLimitPoints_wf [wf_intros]:
  assumes "merits_wf s"
  shows "merits_wf (snd (AddLimitPoints mx ch s points))"
  using assms unfolding AddLimitPoints_def Let_def
  by (auto intro!: wf_merit wf_limit simp: MAX_LIMIT_POINTS_def)

lemma SetLimitPoints_wf [wf_intros]: "merits_wf s \<Longrightarrow> merits_wf (SetLimitPoints s points)"
  by (auto intro!: wf_limit simp: SetLimitPoints_def MAX_LIMIT_POINTS_def)

lemma SetMeritPoints_wf [wf_intros]: "merits_wf s \<Longrightarrow> merits_wf (SetMeritPoints mx ch s points)"
  by (auto intro!: wf_merit simp: SetMeritPoints_def min_less_iff_disj)

section \<open>Saving and loading\<close>

definition saved_count :: "merit_row list \<Rightarrow> nat \<Rightarrow> nat \<Rightarrow> nat" where
  "saved_count db charid i = (case map_of (char_rows db charid) i of None \<Rightarrow> 0 | Some u \<Rightarrow> u)"

definition rows_unique :: "merit_row list \<Rightarrow> nat \<Rightarrow> bool" where
  "rows_unique db charid \<longleftrightarrow> distinct (map fst (char_rows db charid))"

lemma char_rows_simps [simp]:
  "char_rows [] c = []"
  "char_rows (r # db) c = (if fst r = c then snd r # char_rows db c else char_rows db c)"
  "char_rows (a @ b) c = char_rows a c @ char_rows b c"
  by (simp_all add: char_rows_def)

lemma char_rows_replace:
  "char_rows (map (\<lambda>r. if row_key r = (c', x) then (c', x, k) else r) db) c =
    (if c = c' then map (\<lambda>r. if fst r = x then (x, k) else r) (char_rows db c) else char_rows db c)"
  by (induction db) (auto simp: row_key_def)

lemma char_rows_delete:
  "char_rows (filter (\<lambda>r. row_key r \<noteq> (c', x)) db) c =
    (if c = c' then filter (\<lambda>r. fst r \<noteq> x) (char_rows db c) else char_rows db c)"
  by (induction db) (auto simp: row_key_def)

lemma key_mem: "(c, x) \<in> row_key ` set db \<longleftrightarrow> x \<in> fst ` set (char_rows db c)"
  by (induction db) (auto simp: row_key_def)

lemma map_of_replace:
  "map_of (map (\<lambda>r. if fst r = x then (x, k) else r) xs) y =
    (if y = x then map_option (\<lambda>_. k) (map_of xs x) else map_of xs y)"
  by (induction xs) auto

lemma map_of_delete: "map_of (filter (\<lambda>r. fst r \<noteq> x) xs) y = (if y = x then None else map_of xs y)"
  by (induction xs) auto

lemma map_fst_replace: "map fst (map (\<lambda>r. if fst r = x then (x, k) else r) xs) = map fst xs"
  by (induction xs) auto

lemma distinct_filter_fst: "distinct (map fst xs) \<Longrightarrow> distinct (map fst (filter P xs))"
  by (induction xs) auto

lemma save_merit_rows:
  "char_rows (save_merit c m db) c' =
    (if c' \<noteq> c then char_rows db c'
     else if mt_count m = 0 then filter (\<lambda>r. fst r \<noteq> mt_id m) (char_rows db c)
     else if mt_id m \<in> fst ` set (char_rows db c)
     then map (\<lambda>r. if fst r = mt_id m then (mt_id m, mt_count m) else r) (char_rows db c)
     else char_rows db c @ [(mt_id m, mt_count m)])"
  by (simp add: save_merit_def char_rows_replace char_rows_delete key_mem del: map_map)

lemma save_merit_unique: "rows_unique db c \<Longrightarrow> rows_unique (save_merit c m db) c"
  by (simp add: rows_unique_def save_merit_rows map_fst_replace distinct_filter_fst del: map_map)

lemma save_merit_count:
  "saved_count (save_merit c m db) c x = (if x = mt_id m then mt_count m else saved_count db c x)"
proof (cases "mt_id m \<in> fst ` set (char_rows db c)")
  case True
  then have "map_of (char_rows db c) (mt_id m) \<noteq> None" by (simp add: map_of_eq_None_iff)
  with True show ?thesis
    by (auto simp: saved_count_def save_merit_rows map_of_replace map_of_delete)
next
  case False
  then have "map_of (char_rows db c) (mt_id m) = None" by (simp add: map_of_eq_None_iff)
  with False show ?thesis
    by (auto simp: saved_count_def save_merit_rows map_of_delete map_add_def split: option.splits)
qed

lemma save_fold:
  assumes "rows_unique db c"
  shows "rows_unique (fold (save_merit c) ms db) c \<and>
    (c' \<noteq> c \<longrightarrow> char_rows (fold (save_merit c) ms db) c' = char_rows db c')"
  using assms
  by (induction ms arbitrary: db) (simp_all add: save_merit_unique save_merit_rows)

lemma save_fold_count:
  assumes "\<forall>m \<in> set ms. mt_id m = x \<longrightarrow> mt_count m = k"
  shows "saved_count (fold (save_merit c) ms db) c x =
    (if x \<in> mt_id ` set ms then k else saved_count db c x)"
  using assms
  by (induction ms arbitrary: db) (auto simp: save_merit_count)

lemma load_rows: "fold (\<lambda>row. map (apply_row row)) rows ms = map (fold apply_row rows) ms"
  by (induction rows arbitrary: ms) (simp_all add: comp_def)

lemma apply_row_pair:
  "apply_row (i, u) m = (if mt_id m = i
     then m\<lparr>mt_count := u mod 2 ^ 8, mt_next := upgrade_at (mt_upgradeid m) (u mod 2 ^ 8)\<rparr> else m)"
  by (simp add: apply_row_def)

lemma apply_other: "mt_id m \<notin> fst ` set rows \<Longrightarrow> fold apply_row rows m = m"
  by (induction rows) (auto simp: apply_row_def split: prod.splits)

lemma apply_rows:
  assumes "distinct (map fst rows)"
  shows "fold apply_row rows m =
    (case map_of rows (mt_id m) of
       None \<Rightarrow> m
     | Some u \<Rightarrow> m\<lparr>mt_count := u mod 2 ^ 8, mt_next := upgrade_at (mt_upgradeid m) (u mod 2 ^ 8)\<rparr>)"
  using assms
proof (induction rows arbitrary: m)
  case (Cons r rows)
  obtain i u where r: "r = (i, u)" by (cases r)
  show ?case
  proof (cases "mt_id m = i")
    case True
    then have "fold apply_row rows (apply_row r m) = apply_row r m"
      using Cons.prems r by (intro apply_other) (auto simp: apply_row_pair)
    with True r show ?thesis by (simp add: apply_row_pair)
  next
    case False
    with Cons r show ?thesis by (simp add: apply_row_pair)
  qed
qed simp

text \<open>What a login reads back for each merit.\<close>

definition loaded :: "nat \<Rightarrow> Merit_t \<Rightarrow> Merit_t" where
  "loaded k m = m\<lparr>mt_count := k, mt_next := upgrade_at (mt_upgradeid m) k\<rparr>"

lemma load_merit:
  assumes "rows_unique db c" "\<And>i. saved_count db c i < 2 ^ 8"
  shows "merits (new_CMeritPoints tmpl db c) = map (\<lambda>m. loaded (saved_count db c (mt_id m)) m) (fst tmpl)"
proof -
  have "fold apply_row (char_rows db c) (reset_merit m) = loaded (saved_count db c (mt_id m)) m" for m
  proof (cases "map_of (char_rows db c) (mt_id m)")
    case None
    then show ?thesis using assms(1)
      by (simp add: apply_rows rows_unique_def reset_merit_def loaded_def saved_count_def)
  next
    case (Some u)
    then have "u < 2 ^ 8" using assms(2)[of "mt_id m"] by (simp add: saved_count_def)
    with Some show ?thesis using assms(1)
      by (simp add: apply_rows rows_unique_def reset_merit_def loaded_def saved_count_def)
  qed
  then show ?thesis by (simp add: new_CMeritPoints_def LoadMeritPoints_def load_rows)
qed

section \<open>Sessions\<close>

definition merit_static :: "Merit_t \<Rightarrow> Merit_t" where
  "merit_static m = m\<lparr>mt_next := 0, mt_count := 0\<rparr>"

text \<open>The rows of \<open>merits\<close> the server ships: these identifiers, at most 44 upgrades, one of the ten cost rows.\<close>

definition shipped_merits :: "merits_row list \<Rightarrow> bool" where
  "shipped_merits rows \<longleftrightarrow> map (\<lambda>r. (r_meritid r, r_catagoryid r)) rows = std_ids \<and>
     (\<forall>r \<in> set rows. r_upgrade r < 45 \<and> r_upgradeid r < 10)"

text \<open>
  The runs of one character: the first login, packets, limit points from kills, a merit point
  command, changes of job and level, other characters' rows, and logging in again with any saved
  point counters.
\<close>

inductive merit_run :: "merits_row list \<Rightarrow> nat \<Rightarrow> (nat \<Rightarrow> bool) \<Rightarrow> merit_world \<Rightarrow> bool"
  for rows mx known_spell where
  first_login: "char_rows db (char_id ch) = [] \<Longrightarrow>
    merit_run rows mx known_spell
      \<lparr>mw_char = ch, mw_points = login_merits (LoadMeritsList rows) mx ch db mp lp, mw_db = db\<rparr>"
| packet: "merit_run rows mx known_spell w \<Longrightarrow> merits_process known_spell inMogHouse w p = Some w' \<Longrightarrow>
    merit_run rows mx known_spell w'"
| limit: "merit_run rows mx known_spell w \<Longrightarrow>
    merit_run rows mx known_spell (w\<lparr>mw_points := snd (AddLimitPoints mx (mw_char w) (mw_points w) n)\<rparr>)"
| set_merits: "merit_run rows mx known_spell w \<Longrightarrow>
    merit_run rows mx known_spell (w\<lparr>mw_points := SetMeritPoints mx (mw_char w) (mw_points w) n\<rparr>)"
| other: "merit_run rows mx known_spell w \<Longrightarrow> char_id ch = char_id (mw_char w) \<Longrightarrow>
    char_rows db (char_id ch) = char_rows (mw_db w) (char_id ch) \<Longrightarrow>
    merit_run rows mx known_spell (w\<lparr>mw_char := ch, mw_db := db\<rparr>)"
| relog: "merit_run rows mx known_spell w \<Longrightarrow>
    merit_run rows mx known_spell
      (w\<lparr>mw_points := login_merits (LoadMeritsList rows) mx (mw_char w) (mw_db w) mp lp\<rparr>)"

definition merit_world_ok :: "merits_row list \<Rightarrow> merit_world \<Rightarrow> bool" where
  "merit_world_ok rows w \<longleftrightarrow> merits_wf (mw_points w) \<and>
     map merit_static (merits (mw_points w)) = map merit_static (fst (LoadMeritsList rows)) \<and>
     rows_unique (mw_db w) (char_id (mw_char w)) \<and>
     (\<forall>i. saved_count (mw_db w) (char_id (mw_char w)) i < 2 ^ 8) \<and>
     (\<forall>m \<in> set (merits (mw_points w)). saved_count (mw_db w) (char_id (mw_char w)) (mt_id m) = mt_count m)"

lemma shipped_length: "shipped_merits rows \<Longrightarrow> length rows = 296"
  unfolding shipped_merits_def
  by (metis length_map length_std_first map_fst_std_ids)

lemma template_shipped:
  assumes "shipped_merits rows"
  shows "fst (LoadMeritsList rows) = map template_merit rows @ replicate 9 zero_merit \<and>
    map mt_id (fst (LoadMeritsList rows)) = std_id_list \<and>
    scan_categories (snd (LoadMeritsList rows)) = std_categories"
proof -
  have "map (\<lambda>r. (r_meritid r, r_catagoryid r)) rows = std_ids" using assms by (simp add: shipped_merits_def)
  then have "map fst (map (\<lambda>r. (r_meritid r, r_catagoryid r)) rows) = map fst std_ids"
    "map snd (map (\<lambda>r. (r_meritid r, r_catagoryid r)) rows) = map snd std_ids" by simp_all
  then have ids: "map r_meritid rows = std_first" and cats: "map r_catagoryid rows = map snd std_ids"
    by (simp_all add: map_fst_std_ids comp_def)
  have "fst (LoadMeritsList rows) = map template_merit rows @ replicate 9 zero_merit"
    using shipped_length[OF assms] by (simp add: LoadMeritsList_def MERITS_COUNT_def)
  moreover have "map mt_id (map template_merit rows @ replicate 9 zero_merit) = std_id_list"
    using ids by (simp add: std_id_list_def template_merit_def zero_merit_def comp_def map_replicate_const)
  moreover have "snd (LoadMeritsList rows) = std_offsets_list"
    using shipped_length[OF assms] cats scan_groups_std by (simp add: LoadMeritsList_def MERITS_COUNT_def)
  ultimately show ?thesis by (simp add: scan_categories_std)
qed

lemma same_id_same_count:
  assumes wf: "merits_wf s" and st: "map merit_static (merits s) = map merit_static (fst (LoadMeritsList rows))"
    and sh: "shipped_merits rows" and m: "m \<in> set (merits s)" "m' \<in> set (merits s)" "mt_id m = mt_id m'"
  shows "mt_count m = mt_count m'"
proof -
  note tmpl = template_shipped[OF sh]
  have len: "length (merits s) = 305" by (rule wf_length[OF wf])
  have ids: "map mt_id (merits s) = std_id_list" using wf by (simp add: merits_wf_def merits_layout_def)
  obtain i j where i: "i < 305" "m = merits s ! i" and j: "j < 305" "m' = merits s ! j"
    using m len by (metis in_set_conv_nth)
  have eq: "std_id_list ! i = std_id_list ! j"
    using m(3) i j len nth_map[of i "merits s" mt_id] nth_map[of j "merits s" mt_id] unfolding ids by simp
  have zero: "mt_count (merits s ! k) = 0" if "k < 305" "\<not> k < 296" for k
  proof -
    have "merit_static (merits s ! k) = merit_static zero_merit"
      using arg_cong[OF st, of "\<lambda>xs. xs ! k"] that len tmpl shipped_length[OF sh]
      by (simp add: nth_append)
    then have "mt_upgrade (merits s ! k) = 0"
      by (simp add: merit_static_def zero_merit_def) (metis Merit_t.select_convs(5) Merit_t.surjective Merit_t.update_convs(2,3))
    moreover have "merit_ok (merits s ! k)" using wf that(1) len by (simp add: merits_wf_def)
    ultimately show ?thesis by (simp add: merit_ok_def)
  qed
  show ?thesis
  proof (cases "i < 296 \<or> j < 296")
    case True
    then have "i = j" using std_id_inj[of i j] std_id_inj[of j i] eq i(1) j(1) by metis
    with i j show ?thesis by simp
  next
    case False
    with zero i j show ?thesis by simp
  qed
qed

lemma saved_world:
  assumes wf: "merits_wf s" and st: "map merit_static (merits s) = map merit_static (fst (LoadMeritsList rows))"
    and sh: "shipped_merits rows" and un: "rows_unique db (char_id ch)"
    and small: "\<forall>i. saved_count db (char_id ch) i < 2 ^ 8"
  shows "merit_world_ok rows \<lparr>mw_char = ch, mw_points = s, mw_db = SaveMeritPoints (char_id ch) s db\<rparr>"
proof -
  have c: "saved_count (SaveMeritPoints (char_id ch) s db) (char_id ch) x =
      (if x \<in> mt_id ` set (merits s) then mt_count m else saved_count db (char_id ch) x)"
    if "x \<in> mt_id ` set (merits s) \<longrightarrow> m \<in> set (merits s) \<and> mt_id m = x" for x m
    unfolding SaveMeritPoints_def
  proof (cases "x \<in> mt_id ` set (merits s)")
    case True
    then have "\<forall>m' \<in> set (merits s). mt_id m' = x \<longrightarrow> mt_count m' = mt_count m"
      using that same_id_same_count[OF wf st sh] by metis
    from save_fold_count[OF this] True
    show "saved_count (fold (save_merit (char_id ch)) (merits s) db) (char_id ch) x = (if x \<in> mt_id ` set (merits s) then mt_count m else saved_count db (char_id ch) x)"
      by simp
  next
    case False
    then have "\<forall>m' \<in> set (merits s). mt_id m' = x \<longrightarrow> mt_count m' = 0" by blast
    from save_fold_count[OF this] False
    show "saved_count (fold (save_merit (char_id ch)) (merits s) db) (char_id ch) x = (if x \<in> mt_id ` set (merits s) then mt_count m else saved_count db (char_id ch) x)"
      by simp
  qed
  have "saved_count (SaveMeritPoints (char_id ch) s db) (char_id ch) (mt_id m) = mt_count m"
    if "m \<in> set (merits s)" for m
    using c[of "mt_id m" m] that by simp
  moreover have "saved_count (SaveMeritPoints (char_id ch) s db) (char_id ch) i < 2 ^ 8" for i
  proof (cases "i \<in> mt_id ` set (merits s)")
    case True
    then obtain m where m: "m \<in> set (merits s)" "mt_id m = i" by blast
    then have "mt_count m < 2 ^ 8" using wf by (auto simp: merits_wf_def merit_ok_def)
    with c[of i m] m True show ?thesis by simp
  next
    case False
    with c[of i zero_merit] small show ?thesis by simp
  qed
  moreover have "rows_unique (SaveMeritPoints (char_id ch) s db) (char_id ch)"
    using save_fold[OF un, of "merits s"] by (simp add: SaveMeritPoints_def)
  ultimately show ?thesis using wf st by (simp add: merit_world_ok_def)
qed

lemma loaded_static [simp]: "merit_static (loaded k m) = merit_static m" "mt_id (loaded k m) = mt_id m"
    "mt_count (loaded k m) = k" "merit_ok (loaded k m) \<longleftrightarrow> k \<le> mt_upgrade m \<and> mt_upgrade m < 45 \<and> mt_upgradeid m < 10"
  by (simp_all add: merit_static_def loaded_def merit_ok_def)

lemma static_fields:
  "merit_static m = merit_static m' \<Longrightarrow> mt_id m = mt_id m' \<and> mt_upgrade m = mt_upgrade m' \<and> mt_upgradeid m = mt_upgradeid m'"
  by (cases m; cases m') (simp add: merit_static_def)

lemma login_loaded:
  assumes "rows_unique db (char_id ch)" "\<forall>i. saved_count db (char_id ch) i < 2 ^ 8"
  shows "merits (login_merits tmpl mx ch db mp lp) =
    map (\<lambda>m. loaded (saved_count db (char_id ch) (mt_id m)) m) (fst tmpl)"
  using load_merit[OF assms(1)] assms(2) by (simp add: login_merits_def SetLimitPoints_def SetMeritPoints_def)

lemma loaded_wf:
  assumes sh: "shipped_merits rows" and un: "rows_unique db (char_id ch)"
    and small: "\<forall>i. saved_count db (char_id ch) i < 2 ^ 8"
    and ok: "\<forall>m \<in> set (fst (LoadMeritsList rows)). saved_count db (char_id ch) (mt_id m) \<le> mt_upgrade m"
    and tot: "\<forall>c < 54. cat_total (login_merits (LoadMeritsList rows) mx ch db mp lp) c \<le> MaxPoints (meritCatInfo ! c)"
  shows "merits_wf (login_merits (LoadMeritsList rows) mx ch db mp lp)"
proof -
  let ?s = "login_merits (LoadMeritsList rows) mx ch db mp lp"
  note tmpl = template_shipped[OF sh]
  note m = login_loaded[OF un small, of "LoadMeritsList rows" mx mp lp]
  have bounds: "\<forall>m \<in> set (fst (LoadMeritsList rows)). mt_upgrade m < 45 \<and> mt_upgradeid m < 10"
    using tmpl sh by (auto simp: shipped_merits_def template_merit_def zero_merit_def)
  have "Categories ?s = std_categories"
    using tmpl by (simp add: login_merits_def SetLimitPoints_def SetMeritPoints_def new_CMeritPoints_def LoadMeritPoints_def)
  moreover have "map mt_id (merits ?s) = std_id_list"
    using tmpl[THEN conjunct2, THEN conjunct1] unfolding m by (simp only: map_map comp_def loaded_static)
  ultimately have "merits_layout ?s" by (simp add: merits_layout_def)
  moreover have "\<forall>m \<in> set (merits ?s). merit_ok m" using m ok bounds by simp
  moreover have "m_LimitPoints ?s < MAX_LIMIT_POINTS" "m_MeritPoints ?s < 2 ^ 8"
    by (simp_all add: login_merits_def SetLimitPoints_def SetMeritPoints_def MAX_LIMIT_POINTS_def min_less_iff_disj)
  ultimately show ?thesis using tot by (simp add: merits_wf_def)
qed

lemma login_static:
  assumes "rows_unique db (char_id ch)" "\<forall>i. saved_count db (char_id ch) i < 2 ^ 8"
  shows "map merit_static (merits (login_merits tmpl mx ch db mp lp)) = map merit_static (fst tmpl)"
  by (simp add: login_loaded[OF assms] comp_def)

lemma merit_world_ok_first:
  assumes sh: "shipped_merits rows" and none: "char_rows db (char_id ch) = []"
  shows "merit_world_ok rows
    \<lparr>mw_char = ch, mw_points = login_merits (LoadMeritsList rows) mx ch db mp lp, mw_db = db\<rparr>"
proof -
  have un: "rows_unique db (char_id ch)" and z: "saved_count db (char_id ch) i = 0" for i
    using none by (simp_all add: rows_unique_def saved_count_def)
  let ?s = "login_merits (LoadMeritsList rows) mx ch db mp lp"
  have m: "merits ?s = map (loaded 0) (fst (LoadMeritsList rows))"
    using login_loaded[OF un] z by simp
  have "cat_total ?s c = 0" if "c < 54" for c
  proof -
    have "mt_count (merits ?s ! (std_categories ! c + k)) = 0" if "k < MeritsInCat (meritCatInfo ! c)" for k
    proof -
      have "std_categories ! c + k < length (fst (LoadMeritsList rows))"
        using std_layout[OF \<open>c < 54\<close> that] template_shipped[OF sh] shipped_length[OF sh] by simp
      then show ?thesis by (simp add: m)
    qed
    then show ?thesis by (simp add: cat_total_def)
  qed
  then have "merits_wf ?s" using z by (intro loaded_wf[OF sh un]) simp_all
  then show ?thesis using un z m login_static[OF un] by (auto simp: merit_world_ok_def)
qed

lemma map_eq_at: "map f xs = map f ys \<Longrightarrow> i < length xs \<Longrightarrow> f (xs ! i) = f (ys ! i)"
  by (metis length_map nth_map)

lemma relog_counts:
  assumes sh: "shipped_merits rows" and ok: "merit_world_ok rows w"
  shows "map mt_count (merits (login_merits (LoadMeritsList rows) mx (mw_char w) (mw_db w) mp lp)) =
      map mt_count (merits (mw_points w))" (is "map _ (merits ?s) = _")
proof -
  let ?c = "char_id (mw_char w)"
  have un: "rows_unique (mw_db w) ?c" and small: "\<forall>i. saved_count (mw_db w) ?c i < 2 ^ 8"
    and st: "map merit_static (merits (mw_points w)) = map merit_static (fst (LoadMeritsList rows))"
    using ok by (simp_all add: merit_world_ok_def)
  have len: "length (fst (LoadMeritsList rows)) = length (merits (mw_points w))"
    using arg_cong[OF st, of length] by simp
  show ?thesis
  proof (rule nth_equalityI)
    fix i assume "i < length (map mt_count (merits ?s))"
    then have i: "i < length (merits (mw_points w))" using len by (simp add: login_loaded[OF un small])
    have "mt_id (fst (LoadMeritsList rows) ! i) = mt_id (merits (mw_points w) ! i)"
      using static_fields[OF map_eq_at[OF st i]] by simp
    then show "map mt_count (merits ?s) ! i = map mt_count (merits (mw_points w)) ! i"
      using i len ok by (simp add: login_loaded[OF un small] merit_world_ok_def)
  qed (simp add: login_loaded[OF un small] len)
qed

lemma merit_world_ok_relog:
  assumes sh: "shipped_merits rows" and ok: "merit_world_ok rows w"
  shows "merit_world_ok rows (w\<lparr>mw_points := login_merits (LoadMeritsList rows) mx (mw_char w) (mw_db w) mp lp\<rparr>)"
proof -
  let ?c = "char_id (mw_char w)" and ?s = "login_merits (LoadMeritsList rows) mx (mw_char w) (mw_db w) mp lp"
  have un: "rows_unique (mw_db w) ?c" and small: "\<forall>i. saved_count (mw_db w) ?c i < 2 ^ 8"
    and st: "map merit_static (merits (mw_points w)) = map merit_static (fst (LoadMeritsList rows))"
    and wf: "merits_wf (mw_points w)"
    using ok by (simp_all add: merit_world_ok_def)
  note counts = relog_counts[OF sh ok, of mx mp lp]
  have len: "length (merits ?s) = length (merits (mw_points w))" using arg_cong[OF counts, of length] by simp
  have "saved_count (mw_db w) ?c (mt_id m) \<le> mt_upgrade m" if m: "m \<in> set (fst (LoadMeritsList rows))" for m
  proof -
    from m st obtain m' where m': "m' \<in> set (merits (mw_points w))" "merit_static m = merit_static m'"
      by (metis (no_types, lifting) image_iff list.set_map)
    then have "mt_count m' \<le> mt_upgrade m'" using wf by (simp add: merits_wf_def merit_ok_def)
    then show ?thesis using static_fields[OF m'(2)] m'(1) ok by (simp add: merit_world_ok_def)
  qed
  moreover have "cat_total ?s c = cat_total (mw_points w) c" if "c < 54" for c
    unfolding cat_total_def
  proof (rule sum.cong)
    fix k assume "k \<in> {..<MeritsInCat (meritCatInfo ! c)}"
    then have "std_categories ! c + k < length (merits ?s)"
      using std_layout[OF that, of k] wf_length[OF wf] len by simp
    then show "mt_count (merits ?s ! (std_categories ! c + k)) = mt_count (merits (mw_points w) ! (std_categories ! c + k))"
      by (rule map_eq_at[OF counts])
  qed simp
  ultimately have "merits_wf ?s" using wf by (intro loaded_wf[OF sh un small]) (simp_all add: merits_wf_def)
  moreover have "\<forall>m \<in> set (merits ?s). saved_count (mw_db w) ?c (mt_id m) = mt_count m"
    by (simp add: login_loaded[OF un small])
  ultimately show ?thesis using un small login_static[OF un small] by (simp add: merit_world_ok_def)
qed

lemma char_id_simps [simp]:
  "char_id (SaveSpell ch i) = char_id ch" "char_id (DeleteSpell ch i) = char_id ch"
  "char_id (SaveLearnedAbilities ch) = char_id ch" "char_id (addLearnedWeaponskill ch i) = char_id ch"
  "char_id (delLearnedWeaponskill ch i) = char_id ch" "char_id (snd (addSpell kn ch i)) = char_id ch"
  "char_id (snd (delSpell kn ch i)) = char_id ch"
  by (simp_all add: SaveSpell_def DeleteSpell_def SaveLearnedAbilities_def addLearnedWeaponskill_def
      delLearnedWeaponskill_def addSpell_def delSpell_def)

lemma char_id_learn [simp]: "char_id (learn kn ch m) = char_id ch"
  by (auto simp: learn_def Let_def addSpell_def)

lemma char_id_forget [simp]: "char_id (forget kn ch m) = char_id ch"
  by (auto simp: forget_def Let_def delSpell_def)

lemma static_update:
  "merit_static m = merit_static (ms ! i) \<Longrightarrow> map merit_static (ms[i := m]) = map merit_static ms"
  by (cases "i < length ms") (simp_all add: map_update list_update_same_conv list_update_beyond)

lemma RaiseMerit_static:
  assumes "merits_wf s" "RaiseMerit kn ch s merit = Some (ch', s')"
  shows "map merit_static (merits s') = map merit_static (merits s) \<and> char_id ch' = char_id ch"
  using assms by (cases rule: RaiseMerit_cases) (simp_all add: static_update raised_def merit_static_def)

lemma LowerMerit_static:
  assumes "merits_wf s" "LowerMerit kn ch s merit = Some (ch', s')"
  shows "map merit_static (merits s') = map merit_static (merits s) \<and> char_id ch' = char_id ch"
  using assms by (cases rule: LowerMerit_cases) (simp_all add: static_update lowered_def merit_static_def)

lemma edit_keeps:
  assumes wf: "merits_wf s0"
    and r: "(if param = 0 then LowerMerit kn c s0 merit else RaiseMerit kn c s0 merit) = Some (ch, s)"
  shows "merits_wf s \<and> map merit_static (merits s) = map merit_static (merits s0) \<and> char_id ch = char_id c"
proof (cases "param = 0")
  case True
  then have "LowerMerit kn c s0 merit = Some (ch, s)" using r by simp
  with LowerMerit_wf[OF wf] LowerMerit_static[OF wf] show ?thesis by blast
next
  case False
  then have "RaiseMerit kn c s0 merit = Some (ch, s)" using r by simp
  with RaiseMerit_wf[OF wf] RaiseMerit_static[OF wf] show ?thesis by blast
qed

lemma merit_world_ok_edit:
  assumes sh: "shipped_merits rows" and ok: "merit_world_ok rows w" and p: "merits_edit kn w param merit = Some w'"
  shows "merit_world_ok rows w'"
proof (cases "IsMeritExist merit = Some True")
  case True
  have wf: "merits_wf (mw_points w)" using ok by (simp add: merit_world_ok_def)
  let ?r = "if param = 0 then LowerMerit kn (mw_char w) (mw_points w) merit
      else RaiseMerit kn (mw_char w) (mw_points w) merit"
  obtain ch s where r: "?r = Some (ch, s)"
    using p True by (cases ?r) (auto simp: merits_edit_def simp del: if_split)
  then have w': "w' = \<lparr>mw_char = ch, mw_points = s, mw_db = SaveMeritPoints (char_id ch) s (mw_db w)\<rparr>"
    using p True by (simp add: merits_edit_def)
  note s = edit_keeps[OF wf r]
  show ?thesis unfolding w'
    by (rule saved_world[OF _ _ sh]) (use s ok in \<open>simp_all add: merit_world_ok_def\<close>)
next
  case False
  then have "w' = w" using p by (simp add: merits_edit_def split: option.splits bool.splits)
  with ok show ?thesis by simp
qed

lemma merit_world_ok_packet:
  assumes "shipped_merits rows" "merit_world_ok rows w" "merits_process kn inMogHouse w p = Some w'"
  shows "merit_world_ok rows w'"
proof (cases "merits_validate p \<and> Kind p \<noteq> 2 \<and> inMogHouse")
  case True
  then show ?thesis using assms merit_world_ok_edit[OF assms(1,2)] by (simp add: merits_process_def)
next
  case False
  then have "mw_points w' = mw_points w" "mw_db w' = mw_db w" "char_id (mw_char w') = char_id (mw_char w)"
    using assms(3) by (auto simp: merits_process_def split: if_splits)
  then show ?thesis using assms(2) by (simp add: merit_world_ok_def)
qed

lemma merit_world_ok_points:
  assumes "merit_world_ok rows w" "merits_wf s" "merits s = merits (mw_points w)"
  shows "merit_world_ok rows (w\<lparr>mw_points := s\<rparr>)"
  using assms by (simp add: merit_world_ok_def)

lemma merit_world_ok_wf: "merit_world_ok rows w \<Longrightarrow> merits_wf (mw_points w)"
  by (simp add: merit_world_ok_def)

lemma merits_kept:
  "merits (snd (AddLimitPoints mx ch s n)) = merits s" "merits (SetMeritPoints mx ch s n) = merits s"
  by (simp_all add: AddLimitPoints_def SetMeritPoints_def Let_def)

lemma merit_run_ok:
  assumes "merit_run rows mx kn w" "shipped_merits rows"
  shows "merit_world_ok rows w"
  using assms
proof induction
  case (other w ch db)
  then show ?case by (simp add: merit_world_ok_def rows_unique_def saved_count_def)
next
  case (limit w n)
  then show ?case by (auto intro!: merit_world_ok_points AddLimitPoints_wf simp: merits_kept dest: merit_world_ok_wf)
next
  case (set_merits w n)
  then show ?case by (auto intro!: merit_world_ok_points SetMeritPoints_wf simp: merits_kept dest: merit_world_ok_wf)
qed (auto intro: merit_world_ok_first merit_world_ok_packet merit_world_ok_relog)

section \<open>What every session keeps\<close>

definition sample_rows :: "merits_row list" where
  "sample_rows = map (\<lambda>(i, c). \<lparr>r_meritid = i, r_value = 1, r_jobs = 1, r_upgrade = 5,
     r_upgradeid = (if i = MERIT_MAX_MERIT then 9 else 6), r_catagoryid = c, r_spellid = None, r_unlock_id = None\<rparr>) std_ids"

definition sample_char :: merit_char where
  "sample_char = \<lparr>char_id = 1, mjob = 1, mlvl = 75, m_SpellList = replicate 1024 False,
     m_LearnedWeaponskills = replicate 64 False, char_spells = [], saved_weaponskills = replicate 64 False,
     MeritMode = True\<rparr>"

definition sample_world :: merit_world where
  "sample_world = \<lparr>mw_char = sample_char,
     mw_points = login_merits (LoadMeritsList sample_rows) 30 sample_char [] 10 0, mw_db = []\<rparr>"

lemma sample_shipped: "shipped_merits sample_rows"
proof -
  have "map (\<lambda>r. (r_meritid r, r_catagoryid r)) sample_rows = std_ids"
    by (simp add: sample_rows_def comp_def split_beta)
  then show ?thesis by (auto simp: shipped_merits_def sample_rows_def)
qed

lemma sample_run: "merit_run sample_rows 30 (\<lambda>_. True) sample_world"
  unfolding sample_world_def by (rule first_login) simp

text \<open>
  C21: whatever a session did, logging out and in again loads exactly the upgrades the character
  had in memory, merit by merit.
\<close>
theorem merit_relog_keeps_counts:
  assumes "shipped_merits rows" "merit_run rows mx kn w"
  shows "map mt_count (merits (login_merits (LoadMeritsList rows) mx (mw_char w) (mw_db w) mp lp)) =
    map mt_count (merits (mw_points w))"
  using relog_counts[OF assms(1) merit_run_ok[OF assms(2,1)]] .

section \<open>The merit number of a packet\<close>

lemma to_i16_low: "merit < 2 ^ 15 \<Longrightarrow> to_i16 (int merit) = int merit"
  by (simp add: to_i16_def)

lemma to_i16_mid: "2 ^ 15 \<le> merit \<Longrightarrow> merit < 2 ^ 16 \<Longrightarrow> to_i16 (int merit) < 0"
proof -
  assume a: "2 ^ 15 \<le> merit" "merit < 2 ^ 16"
  have "int merit + 2 ^ 15 = (int merit - 2 ^ 15) + 2 ^ 16" by simp
  then have "(int merit + 2 ^ 15) mod 2 ^ 16 = int merit - 2 ^ 15"
    using a by (simp only: mod_add_self2) simp
  then show ?thesis using a by (simp add: to_i16_def)
qed

lemma to_i16_high: "2 ^ 16 \<le> merit \<Longrightarrow> to_i16 (int merit) = to_i16 (int (merit - 2 ^ 16))"
proof -
  assume "2 ^ 16 \<le> merit"
  then have "int merit + 2 ^ 15 = int (merit - 2 ^ 16) + 2 ^ 15 + 2 ^ 16" by simp
  then show ?thesis unfolding to_i16_def by (metis mod_add_self2)
qed

text \<open>The accepted merit numbers below 16 bits stay within \<open>meritCatInfo\<close>; above, none does.\<close>

lemma exist_None:
  assumes "merit < 2 ^ 17"
  shows "IsMeritExist merit = None \<longleftrightarrow> 2 ^ 16 + 0x40 \<le> merit \<and> merit < 2 ^ 16 + 0xDC0"
proof -
  consider "merit < 2 ^ 15" | "2 ^ 15 \<le> merit" "merit < 2 ^ 16"
    | "2 ^ 16 \<le> merit" "merit - 2 ^ 16 < 2 ^ 15" | "2 ^ 15 \<le> merit - 2 ^ 16" "merit - 2 ^ 16 < 2 ^ 16"
    using assms by (cases "merit < 2 ^ 15"; cases "merit < 2 ^ 16"; cases "merit - 2 ^ 16 < 2 ^ 15") (auto simp: not_less)
  then show ?thesis
  proof cases
    case 1
    have "GetMeritCategory merit < 54" if "int merit < MCATEGORY_COUNT"
      using that by (simp add: GetMeritCategory_def MCATEGORY_COUNT_def)
    with 1 show ?thesis by (auto simp: IsMeritExist_def to_i16_low MCATEGORY_START_def)
  next
    case 2
    then show ?thesis using to_i16_mid[of merit] by (simp add: IsMeritExist_def MCATEGORY_START_def)
  next
    case 3
    then have e: "to_i16 (int merit) = int merit - 2 ^ 16"
      using to_i16_high[of merit] to_i16_low[of "merit - 2 ^ 16"] by simp
    have "\<not> GetMeritCategory merit < 54" using 3 by (simp add: GetMeritCategory_def)
    with 3 show ?thesis by (auto simp: IsMeritExist_def e MCATEGORY_START_def MCATEGORY_COUNT_def)
  next
    case 4
    then have "to_i16 (int merit) < 0" using to_i16_high[of merit] to_i16_mid[of "merit - 2 ^ 16"] by simp
    moreover have "2 ^ 16 + 2 ^ 15 \<le> merit" using 4(1) by simp
    ultimately show ?thesis by (simp add: IsMeritExist_def MCATEGORY_START_def)
  qed
qed

lemma edit_None:
  "merits_edit kn w param merit = None \<longleftrightarrow> IsMeritExist merit = None"
proof (cases "IsMeritExist merit")
  case (Some b)
  have p: "GetMeritPointer (mw_points w) merit \<noteq> None"
    using Some by (auto simp: GetMeritPointer_def split: bool.splits)
  have c: "GetMeritCountInSameCategory (mw_points w) merit \<noteq> None"
    using Some by (auto simp: GetMeritCountInSameCategory_def split: bool.splits)
  have "LowerMerit kn (mw_char w) (mw_points w) merit \<noteq> None"
    using p by (auto simp: LowerMerit_def Let_def split: option.splits)
  moreover have "RaiseMerit kn (mw_char w) (mw_points w) merit \<noteq> None"
    using p c by (auto simp: RaiseMerit_def can_raise_def split: option.splits bool.splits)
  ultimately show ?thesis using Some by (auto simp: merits_edit_def split: bool.splits option.splits)
qed (simp add: merits_edit_def)

lemma merit_number_parts:
  assumes "64 \<le> merit"
  shows "64 * (GetMeritCategory merit + 1) + 2 * GetMeritID merit = merit - merit mod 2"
proof -
  have "merit mod 64 mod 2 = merit mod 2" by (simp add: mod_mod_cancel)
  then have "2 * (merit mod 64 div 2) = merit mod 64 - merit mod 2"
    using minus_mod_eq_mult_div[of "merit mod 64" 2] by simp
  moreover have "64 * (merit div 64) + merit mod 64 = merit" by simp
  moreover have "merit mod 2 \<le> merit mod 64"
    using \<open>merit mod 64 mod 2 = merit mod 2\<close> mod_less_eq_dividend[of "merit mod 64" 2] by simp
  moreover have "1 \<le> merit div 64" using assms by simp
  ultimately show ?thesis unfolding GetMeritCategory_def GetMeritID_def by simp
qed

lemma accepted_merit:
  assumes lay: "merits_layout s" and m: "merit < 2 ^ 16"
  shows "GetMeritPointer s merit = Some None \<or>
    (\<exists>i < length (merits s). GetMeritPointer s merit = Some (Some i) \<and> mt_id (merits s ! i) = merit - merit mod 2)"
proof -
  have "IsMeritExist merit \<noteq> None" using exist_None[of merit] m by simp
  then consider "GetMeritPointer s merit = Some None" | i where "GetMeritPointer s merit = Some (Some i)"
    by (cases "the (IsMeritExist merit)") (auto simp: GetMeritPointer_def)
  then show ?thesis
  proof cases
    case (2 i)
    note at = pointer_at[OF lay 2]
    have "to_i16 (int merit) \<ge> MCATEGORY_START"
      using at by (auto simp: IsMeritExist_def split: if_splits)
    then have "merit < 2 ^ 15" using to_i16_mid[of merit] m by (auto simp: MCATEGORY_START_def not_le[symmetric])
    with \<open>to_i16 (int merit) \<ge> MCATEGORY_START\<close> have "64 \<le> merit"
      using to_i16_low[of merit] by (simp add: MCATEGORY_START_def)
    then have "64 * (GetMeritCategory merit + 1) + 2 * GetMeritID merit = merit - merit mod 2"
      by (rule merit_number_parts)
    moreover have "length (merits s) = 305"
      using lay unfolding merits_layout_def by (metis length_map length_std_id_list)
    ultimately show ?thesis using 2 at by auto
  qed simp
qed

text \<open>
  C8: in every session, starting from a first login and mixing edit packets, limit points, merit
  point commands, level changes and further logins, no merit is above its number of upgrades, no
  category is above its maximum, the limit points stay below 10000, and every merit number of 16
  bits is either refused or leads to the entry of the array that carries its identifier (an odd number
  to that of the even one below).  The edit packets are those whose handling is defined: the ones that
  carry a larger merit number and read outside the tables are the subject of
  \<open>merit_packet_out_of_bounds\<close>.
\<close>
theorem merit_session_wf:
  assumes "shipped_merits rows" "merit_run rows mx kn w"
  shows "(\<forall>m \<in> set (merits (mw_points w)). mt_count m \<le> mt_upgrade m) \<and>
    (\<forall>c < 54. cat_total (mw_points w) c \<le> MaxPoints (meritCatInfo ! c)) \<and>
    m_LimitPoints (mw_points w) < MAX_LIMIT_POINTS \<and>
    (\<forall>merit < 2 ^ 16. GetMeritPointer (mw_points w) merit = Some None \<or>
       (\<exists>i < length (merits (mw_points w)). GetMeritPointer (mw_points w) merit = Some (Some i) \<and>
          mt_id (merits (mw_points w) ! i) = merit - merit mod 2))"
proof -
  have wf: "merits_wf (mw_points w)" using merit_run_ok[OF assms(2,1)] by (simp add: merit_world_ok_def)
  then have lay: "merits_layout (mw_points w)" by (simp add: merits_wf_def)
  have "\<forall>merit < 2 ^ 16. GetMeritPointer (mw_points w) merit = Some None \<or>
       (\<exists>i < length (merits (mw_points w)). GetMeritPointer (mw_points w) merit = Some (Some i) \<and>
          mt_id (merits (mw_points w) ! i) = merit - merit mod 2)"
    using accepted_merit[OF lay] by blast
  with wf show ?thesis by (auto simp: merits_wf_def merit_ok_def)
qed

text \<open>A session in which the first merit has been raised.\<close>

lemma sample_raise:
  "\<exists>w. merits_process (\<lambda>_. True) True sample_world \<lparr>Kind = 3, Param1 = 1, Param2 = 0x20\<rparr> = Some w \<and>
     merit_run sample_rows 30 (\<lambda>_. True) w"
proof -
  have "IsMeritExist 64 \<noteq> None" using exist_None[of 64] by simp
  then have "merits_process (\<lambda>_. True) True sample_world \<lparr>Kind = 3, Param1 = 1, Param2 = 0x20\<rparr> \<noteq> None"
    by (auto simp: merits_process_def merits_validate_def edit_None)
  then show ?thesis using merit_run.packet[OF sample_run] by blast
qed

theorem merit_session_wf_witness:
  "\<exists>w. merits_process (\<lambda>_. True) True sample_world \<lparr>Kind = 3, Param1 = 1, Param2 = 0x20\<rparr> = Some w \<and>
     (\<forall>c < 54. cat_total (mw_points w) c \<le> MaxPoints (meritCatInfo ! c))"
  using sample_raise merit_session_wf[OF sample_shipped] by blast

theorem merit_relog_keeps_counts_witness:
  "\<exists>w. merits_process (\<lambda>_. True) True sample_world \<lparr>Kind = 3, Param1 = 1, Param2 = 0x20\<rparr> = Some w \<and>
     map mt_count (merits (login_merits (LoadMeritsList sample_rows) 30 (mw_char w) (mw_db w) 3 4)) =
     map mt_count (merits (mw_points w))"
  using sample_raise merit_relog_keeps_counts[OF sample_shipped] by blast

text \<open>
  C16: an edit packet makes the server read outside \<open>meritCatInfo\<close> exactly when it arrives in the
  Mog House, is well formed, and carries a parameter between 0x8020 and 0x86DF: the parameter is
  doubled to a 17-bit merit number, the range test looks at its low 16 bits only, and the category
  is then taken from all of it.
\<close>
theorem merit_packet_out_of_bounds:
  assumes "Param2 p < 2 ^ 16"
  shows "merits_process kn inMogHouse w p = None \<longleftrightarrow>
    inMogHouse \<and> Kind p = 3 \<and> (Param1 p = 0 \<or> Param1 p = 1) \<and> 0x8020 \<le> Param2 p \<and> Param2 p < 0x86E0"
  using assms exist_None[of "2 * Param2 p"] by (auto simp: merits_process_def merits_validate_def edit_None)

theorem merit_packet_out_of_bounds_witness:
  "merits_process (\<lambda>_. True) True sample_world \<lparr>Kind = 3, Param1 = 1, Param2 = 0x8020\<rparr> = None"
  using merit_packet_out_of_bounds[of "\<lparr>Kind = 3, Param1 = 1, Param2 = 0x8020\<rparr>"] by simp

section \<open>Points\<close>

text \<open>The points a set of upgrades costs by the table.\<close>

definition merit_cost :: "Merit_t \<Rightarrow> nat" where
  "merit_cost m = (\<Sum>k<mt_count m. upgrade_at (mt_upgradeid m) k)"

definition spent :: "CMeritPoints \<Rightarrow> nat" where
  "spent s = sum_list (map merit_cost (merits s))"

lemma sum_list_update_nat:
  "i < length xs \<Longrightarrow> sum_list (xs[i := y]) + xs ! i = sum_list xs + (y :: nat)"
  by (induction xs arbitrary: i) (auto split: nat.splits)

text \<open>
  C24: raising a merit either changes nothing or buys exactly one upgrade.  It then charges the
  price that the merit shows, which is no more than the points held, counts one upgrade more, shows the
  price of the cost table for the next one, and leaves every other merit as it was; what all
  upgrades cost by the table grows by the table's price of this one.  So where the price shown is the
  one of the table the points held and the points spent add up to the same number as before.  (After
  \<open>LowerMerit\<close> of the merit that raises the merit limit it is not, see \<open>LowerMerit_reprices\<close>.)
\<close>
theorem RaiseMerit_accounts:
  assumes wf: "merits_wf s" and r: "RaiseMerit kn ch s merit = Some (ch', s')"
  shows "(ch' = ch \<and> s' = s) \<or>
    (\<exists>i < length (merits s). GetMeritPointer s merit = Some (Some i) \<and>
       (let m = merits s ! i; m' = merits s' ! i; price = upgrade_at (mt_upgradeid m) (mt_count m) in
        m_MeritPoints s' + mt_next m = m_MeritPoints s \<and> mt_count m' = mt_count m + 1 \<and>
        mt_next m' = upgrade_at (mt_upgradeid m) (mt_count m + 1) \<and>
        (\<forall>j. j \<noteq> i \<longrightarrow> merits s' ! j = merits s ! j) \<and>
        spent s' = spent s + price \<and>
        (mt_next m = price \<longrightarrow> m_MeritPoints s' + spent s' = m_MeritPoints s + spent s)))"
  using wf r
proof (cases rule: RaiseMerit_cases)
  case (up i)
  let ?m = "merits s ! i"
  have len: "i < length (merits s)" using up(2) wf_length[OF wf] by simp
  have "merit_ok ?m" using wf len by (simp add: merits_wf_def)
  then have cost: "merit_cost (raised ?m) = merit_cost ?m + upgrade_at (mt_upgradeid ?m) (mt_count ?m)"
    and m': "mt_count (raised ?m) = mt_count ?m + 1" "mt_next (raised ?m) = upgrade_at (mt_upgradeid ?m) (mt_count ?m + 1)"
    using up(5) by (simp_all add: merit_cost_def raised_def merit_ok_def)
  have "spent s' + merit_cost ?m = spent s + merit_cost (raised ?m)"
    using sum_list_update_nat[of i "map merit_cost (merits s)" "merit_cost (raised ?m)"] len up(8)
    by (simp add: spent_def map_update)
  with cost have "spent s' = spent s + upgrade_at (mt_upgradeid ?m) (mt_count ?m)" by simp
  moreover have "merits s' ! i = raised ?m" "\<forall>j. j \<noteq> i \<longrightarrow> merits s' ! j = merits s ! j"
    "m_MeritPoints s' + mt_next ?m = m_MeritPoints s"
    using up(4,8) len by simp_all
  ultimately show ?thesis using up(1) len m' unfolding Let_def by (intro disjI2 exI[of _ i]) auto
qed simp

lemma sample_ok: "merit_world_ok sample_rows sample_world"
  by (rule merit_run_ok[OF sample_run sample_shipped])

lemma sample_merits:
  "merits (mw_points sample_world) = map (loaded 0) (fst (LoadMeritsList sample_rows))"
proof -
  have "saved_count [] c i = 0" "rows_unique [] c" for c i by (simp_all add: saved_count_def rows_unique_def)
  then show ?thesis using login_loaded[of "[]" sample_char "LoadMeritsList sample_rows" 30 10 0] by (simp add: sample_world_def)
qed

theorem RaiseMerit_accounts_witness:
  "\<exists>ch' s'. RaiseMerit (\<lambda>_. True) sample_char (mw_points sample_world) 0x40 = Some (ch', s') \<and>
    m_MeritPoints s' + spent s' = m_MeritPoints (mw_points sample_world) + spent (mw_points sample_world)"
proof -
  let ?s = "mw_points sample_world"
  have pr: "mt_next (merits ?s ! i) = upgrade_at (mt_upgradeid (merits ?s ! i)) (mt_count (merits ?s ! i))"
    if "i < length (merits ?s)" for i
    using nth_mem[OF that] by (auto simp: sample_merits loaded_def)
  have "IsMeritExist 0x40 \<noteq> None" using exist_None[of 64] by simp
  then have "RaiseMerit (\<lambda>_. True) sample_char (mw_points sample_world) 0x40 \<noteq> None"
    by (auto simp: RaiseMerit_def can_raise_def GetMeritPointer_def GetMeritCountInSameCategory_def
        split: option.splits bool.splits)
  then obtain ch' s' where "RaiseMerit (\<lambda>_. True) sample_char (mw_points sample_world) 0x40 = Some (ch', s')"
    by auto
  then show ?thesis using RaiseMerit_accounts[OF merit_world_ok_wf[OF sample_ok]] pr unfolding Let_def by metis
qed

lemma max_merit_pointer:
  assumes "merits_layout s"
  shows "GetMeritPointer s MERIT_MAX_MERIT = Some (Some 2) \<and> GetMeritCategory MERIT_MAX_MERIT = 0"
  using assms
  by (simp add: GetMeritPointer_def IsMeritExist_def MERIT_MAX_MERIT_def to_i16_def MCATEGORY_START_def
      MCATEGORY_COUNT_def GetMeritCategory_def GetMeritID_def meritCatInfo_def cat_info_def
      merits_layout_def std_categories_def)

lemma upgrade_first_rows:
  "list_all (\<lambda>n. upgrade_at 0 n < upgrade_at 9 n) [1..<10]"
  by code_simp

text \<open>
  Lowering the merit that raises the merit limit and raising it again costs a price of the
  HP/MP table instead of the one of its own table, which is higher at every level from the second
  to the tenth: \<open>LowerMerit\<close> takes the price from the row of the category.
\<close>
theorem LowerMerit_reprices:
  assumes wf: "merits_wf s" and m: "mt_upgradeid (merits s ! 2) = 9" "mt_count (merits s ! 2) = n"
    and n: "2 \<le> n" "n \<le> 10" and p: "upgrade_at 0 (n - 1) \<le> m_MeritPoints s"
  shows "\<exists>ch1 s1 ch2 s2. LowerMerit kn ch s MERIT_MAX_MERIT = Some (ch1, s1) \<and>
    RaiseMerit kn ch1 s1 MERIT_MAX_MERIT = Some (ch2, s2) \<and> mt_count (merits s2 ! 2) = n \<and>
    m_MeritPoints s2 = m_MeritPoints s - upgrade_at 0 (n - 1) \<and> upgrade_at 0 (n - 1) < upgrade_at 9 (n - 1)"
proof -
  let ?m = "merits s ! 2" and ?l = "lowered MERIT_MAX_MERIT (merits s ! 2)"
  let ?s1 = "s\<lparr>merits := (merits s)[2 := ?l]\<rparr>"
  have lay: "merits_layout s" using wf by (simp add: merits_wf_def)
  have len: "2 < length (merits s)" using wf_length[OF wf] by simp
  then have ok: "merit_ok ?m" using wf by (simp add: merits_wf_def)
  note ptr = max_merit_pointer[OF lay]
  have low: "LowerMerit kn ch s MERIT_MAX_MERIT = Some (forget kn ch ?l, ?s1)"
    using ptr by (simp add: LowerMerit_def Let_def)
  have l: "mt_count ?l = n - 1" "mt_next ?l = upgrade_at 0 (n - 1)" "mt_upgrade ?l = mt_upgrade ?m"
    using m n ptr by (simp_all add: lowered_def meritCatInfo_def cat_info_def)
  have wf1: "merits_wf ?s1" by (rule LowerMerit_wf[OF wf low])
  have ptr1: "GetMeritPointer ?s1 MERIT_MAX_MERIT = Some (Some 2)"
    using max_merit_pointer wf1 by (simp add: merits_wf_def)
  have "cat_total ?s1 0 < MaxPoints (meritCatInfo ! 0)"
  proof -
    have "cat_total ?s1 0 + n = cat_total s 0 + (n - 1)"
      using cat_total_update[OF lay ptr[THEN conjunct1], of 0 "?l" "m_MeritPoints s"] ptr l m by simp
    moreover have "cat_total s 0 \<le> MaxPoints (meritCatInfo ! 0)" using wf by (simp add: merits_wf_def)
    ultimately show ?thesis using n by linarith
  qed
  moreover have "IsMeritExist MERIT_MAX_MERIT = Some True"
    using pointer_at[OF lay ptr[THEN conjunct1]] by simp
  moreover have "n - 1 < mt_upgrade ?m" using ok m n by (simp add: merit_ok_def) linarith
  ultimately have "can_raise ?s1 MERIT_MAX_MERIT ?l = Some True"
    using category_count[OF wf1, of MERIT_MAX_MERIT] ptr l p by (simp add: can_raise_def)
  then have "RaiseMerit kn (forget kn ch ?l) ?s1 MERIT_MAX_MERIT =
      Some (learn kn (forget kn ch ?l) ?l, ?s1\<lparr>m_MeritPoints := m_MeritPoints s - upgrade_at 0 (n - 1),
        merits := (merits ?s1)[2 := raised ?l]\<rparr>)"
    using ptr1 len l by (simp add: RaiseMerit_def)
  moreover have "mt_count (raised ?l) = n" using l n by (simp add: raised_def)
  moreover have "upgrade_at 0 (n - 1) < upgrade_at 9 (n - 1)"
    using upgrade_first_rows n unfolding list_all_iff by (elim ballE[of _ _ "n - 1"]) auto
  ultimately show ?thesis using low len by (intro exI conjI) (assumption | simp)+
qed

definition sample_raised :: CMeritPoints where
  "sample_raised = (mw_points sample_world)\<lparr>m_MeritPoints := 10, merits := (merits (mw_points sample_world))
     [2 := (merits (mw_points sample_world) ! 2)\<lparr>mt_count := 5\<rparr>]\<rparr>"

lemma sample_entry:
  "mt_upgrade (merits (mw_points sample_world) ! 2) = 5 \<and> mt_upgradeid (merits (mw_points sample_world) ! 2) = 9 \<and>
    mt_count (merits (mw_points sample_world) ! 2) = 0 \<and> mt_catid (merits (mw_points sample_world) ! 2) = 0 \<and>
    mt_value (merits (mw_points sample_world) ! 2) = 1"
proof -
  have len: "2 < length sample_rows" using shipped_length[OF sample_shipped] by simp
  have "std_ids ! 2 = (MERIT_MAX_MERIT, 0)"
    by (simp add: std_ids_def upt_conv_Cons meritCatInfo_def cat_info_def MERIT_MAX_MERIT_def)
  then have "r_upgrade (sample_rows ! 2) = 5 \<and> r_upgradeid (sample_rows ! 2) = 9 \<and> r_catagoryid (sample_rows ! 2) = 0 \<and>
      r_value (sample_rows ! 2) = 1"
    using len by (simp add: sample_rows_def split_beta)
  then show ?thesis
    using len template_shipped[OF sample_shipped]
    by (simp add: sample_merits nth_append loaded_def template_merit_def)
qed

lemma sample_raised_wf: "merits_wf sample_raised"
proof -
  have wf: "merits_wf (mw_points sample_world)" by (rule merit_world_ok_wf[OF sample_ok])
  then have lay: "merits_layout (mw_points sample_world)" by (simp add: merits_wf_def)
  have "merit_ok (merits (mw_points sample_world) ! 2)" using wf wf_length[OF wf] by (simp add: merits_wf_def)
  moreover have "cat_total (mw_points sample_world) 0 = 0"
  proof -
    have "mt_count (merits (mw_points sample_world) ! k) = 0" if "k < 305" for k
      using that wf_length[OF wf] by (simp add: sample_merits)
    then show ?thesis by (simp add: cat_total_def std_categories_def meritCatInfo_def cat_info_def)
  qed
  ultimately show ?thesis unfolding sample_raised_def
    using max_merit_pointer[OF lay] sample_entry
    by (intro update_keeps_wf[OF wf, of MERIT_MAX_MERIT]) (simp_all add: merit_ok_def meritCatInfo_def cat_info_def)
qed

theorem LowerMerit_reprices_witness:
  "\<exists>ch1 s1 ch2 s2. LowerMerit (\<lambda>_. True) sample_char sample_raised MERIT_MAX_MERIT = Some (ch1, s1) \<and>
    RaiseMerit (\<lambda>_. True) ch1 s1 MERIT_MAX_MERIT = Some (ch2, s2) \<and> mt_count (merits s2 ! 2) = 5 \<and>
    m_MeritPoints s2 = 5 \<and> upgrade_at 9 4 = 9"
proof -
  have "2 < length (merits (mw_points sample_world))" using wf_length[OF merit_world_ok_wf[OF sample_ok]] by simp
  then have "mt_upgradeid (merits sample_raised ! 2) = 9" "mt_count (merits sample_raised ! 2) = 5"
    "m_MeritPoints sample_raised = 10"
    using sample_entry by (simp_all add: sample_raised_def)
  with LowerMerit_reprices[OF sample_raised_wf, of 5 "\<lambda>_. True" sample_char]
  show ?thesis by (simp add: upgrade_at_def upgrade_def)
qed

text \<open>
  C33: below the limit no limit point is lost: ten thousand limit points are one merit point, the
  merit points stop at the limit, and the result tells whether a merit point was gained.
\<close>
theorem AddLimitPoints_conserves:
  assumes wf: "merits_wf s" and fits: "m_LimitPoints s + points < 2 ^ 16"
    and lim: "m_MeritPoints s \<le> merit_limit mx ch s" "merit_limit mx ch s < 2 ^ 8"
    and r: "AddLimitPoints mx ch s points = (gained, s')"
  shows "m_MeritPoints s' = min (merit_limit mx ch s) (m_MeritPoints s + (m_LimitPoints s + points) div MAX_LIMIT_POINTS) \<and>
    (gained \<longleftrightarrow> m_MeritPoints s < m_MeritPoints s') \<and>
    (m_MeritPoints s + (m_LimitPoints s + points) div MAX_LIMIT_POINTS \<le> merit_limit mx ch s \<longrightarrow>
       m_MeritPoints s' * MAX_LIMIT_POINTS + m_LimitPoints s' =
       m_MeritPoints s * MAX_LIMIT_POINTS + m_LimitPoints s + points)"
proof -
  let ?t = "m_LimitPoints s + points" and ?L = "merit_limit mx ch s"
  have M: "MAX_LIMIT_POINTS = 10000" by (rule MAX_LIMIT_POINTS_def)
  have t: "?t mod 2 ^ 16 = ?t" using fits by simp
  show ?thesis
  proof (cases "MAX_LIMIT_POINTS \<le> ?t")
    case False
    then show ?thesis using r lim t by (auto simp: AddLimitPoints_def Let_def M)
  next
    case True
    then have q: "0 < ?t div MAX_LIMIT_POINTS" by (simp add: M div_greater_zero_iff)
    show ?thesis
    proof (cases "m_MeritPoints s = ?L")
      case True
      then show ?thesis using r t \<open>MAX_LIMIT_POINTS \<le> ?t\<close> q by (auto simp: AddLimitPoints_def Let_def)
    next
      case False
      have m: "min (m_MeritPoints s + ?t div MAX_LIMIT_POINTS) ?L mod 2 ^ 8 = min (m_MeritPoints s + ?t div MAX_LIMIT_POINTS) ?L"
        using lim by simp
      have "gained" "m_MeritPoints s' = min (m_MeritPoints s + ?t div MAX_LIMIT_POINTS) ?L"
        "m_LimitPoints s' = ?t mod MAX_LIMIT_POINTS"
        using r t m False lim q \<open>MAX_LIMIT_POINTS \<le> ?t\<close>
        by (auto simp: AddLimitPoints_def Let_def split: if_splits)
      then show ?thesis using q False lim div_mult_mod_eq[of ?t MAX_LIMIT_POINTS]
        by (auto simp: min_def algebra_simps)
    qed
  qed
qed

theorem AddLimitPoints_conserves_witness:
  "m_MeritPoints (snd (AddLimitPoints 30 sample_char sample_raised 25000)) = 12"
proof -
  have lay: "merits_layout sample_raised" using sample_raised_wf by (simp add: merits_wf_def)
  have "2 < length (merits (mw_points sample_world))" using wf_length[OF merit_world_ok_wf[OF sample_ok]] by simp
  then have "merit_value sample_char MERIT_MAX_MERIT (merits sample_raised ! 2) = 5" "m_MeritPoints sample_raised = 10"
    using sample_entry by (simp_all add: sample_raised_def merit_value_def sample_char_def)
  then have lim: "merit_limit 30 sample_char sample_raised = 35" "m_MeritPoints sample_raised = 10"
    using max_merit_pointer[OF lay] by (simp_all add: merit_limit_def GetMeritValue_def)
  have lp: "m_LimitPoints sample_raised = 0"
    by (simp add: sample_raised_def sample_world_def login_merits_def SetLimitPoints_def)
  show ?thesis
    using AddLimitPoints_conserves[OF sample_raised_wf, of 25000 30 sample_char] lim lp
    by (simp add: MAX_LIMIT_POINTS_def) (metis prod.collapse)
qed

text \<open>With more merit points than the limit allows, the next limit point reports a gain and takes points away.\<close>

lemma AddLimitPoints_above_limit:
  assumes "m_LimitPoints s + points < 2 ^ 16" "MAX_LIMIT_POINTS \<le> m_LimitPoints s + points"
    and "merit_limit mx ch s < m_MeritPoints s" "m_MeritPoints s < 2 ^ 8"
  shows "fst (AddLimitPoints mx ch s points) \<and>
    m_MeritPoints (snd (AddLimitPoints mx ch s points)) = merit_limit mx ch s"
  using assms by (auto simp: AddLimitPoints_def Let_def)

end
