(* ===== verification/VanaTime.thy ===== *)
theory VanaTime
  imports Float32
begin

text \<open>
  The game clock: \<open>src/common/vanadiel_clock.h\<close>, \<open>src/common/vana_time.h\<close> and the two gates of
  \<open>src/map/time_server.cpp\<close> that run the hourly work.  A time point is the number of Vana'diel
  milliseconds since the epoch; one Earth second is 25000 of them.  \<open>std::chrono::floor\<close> and
  \<open>ceil\<close> round towards minus and plus infinity, and the remainder of two durations is the
  remainder of their values in the finer unit, which is undefined when the second is zero.
\<close>

section \<open>Units\<close>

definition vsecond :: int where "vsecond = 1000"
definition vminute :: int where "vminute = 60 * vsecond"
definition vhour :: int where "vhour = 60 * vminute"
definition vday :: int where "vday = 24 * vhour"
definition vweek :: int where "vweek = 8 * vday"
definition vmonth :: int where "vmonth = 30 * vday"
definition vyear :: int where "vyear = 360 * vday"

lemmas vunits = vsecond_def vminute_def vhour_def vday_def vweek_def vmonth_def vyear_def

definition chrono_floor :: "int \<Rightarrow> int \<Rightarrow> int" where
  "chrono_floor unit t = t div unit * unit"

definition chrono_ceil :: "int \<Rightarrow> int \<Rightarrow> int" where
  "chrono_ceil unit t = - (- t div unit) * unit"

text \<open>The remainder of C++ truncates towards zero.\<close>

definition crem :: "int \<Rightarrow> int \<Rightarrow> int" where
  "crem a b = (if 0 \<le> a then a mod \<bar>b\<bar> else - (- a mod \<bar>b\<bar>))"

definition duration_rem :: "int \<Rightarrow> int \<Rightarrow> int \<Rightarrow> int option" where
  "duration_rem unit a b = (if b = 0 then None else Some (to_u32 (crem a b div unit)))"

section \<open>Conversions\<close>

text \<open>Earth time in nanoseconds since 1970; the clock of the server counts nanoseconds.\<close>

definition vanadiel_epoch :: int where
  "vanadiel_epoch = 1009810800 * 10 ^ 9"

definition tquot :: "int \<Rightarrow> int \<Rightarrow> int" where
  "tquot a b = (if 0 \<le> a then a div b else - (- a div b))"

definition to_earth_time :: "int \<Rightarrow> int" where
  "to_earth_time tp = tp * 40000 + vanadiel_epoch"

definition from_earth_time :: "int \<Rightarrow> int" where
  "from_earth_time tp = tquot (tp - vanadiel_epoch) 40000"

definition count_weeks :: "int \<Rightarrow> int" where
  "count_weeks d = to_u32 (chrono_floor vweek d div vweek)"

definition count_days :: "int \<Rightarrow> int" where
  "count_days d = to_u32 (chrono_floor vday d div vday)"

section \<open>The calendar\<close>

definition get_second :: "int \<Rightarrow> int option" where
  "get_second t = duration_rem vsecond (chrono_floor vsecond t) (chrono_floor vminute t)"

definition get_minute :: "int \<Rightarrow> int option" where
  "get_minute t = duration_rem vminute (chrono_floor vminute t) (chrono_floor vhour t)"

definition get_hour :: "int \<Rightarrow> int option" where
  "get_hour t = duration_rem vhour (chrono_floor vhour t) (chrono_floor vday t)"

definition get_monthday :: "int \<Rightarrow> int option" where
  "get_monthday t = duration_rem vday (chrono_ceil vday t) (chrono_floor vmonth t)"

definition get_month :: "int \<Rightarrow> int option" where
  "get_month t = duration_rem vmonth (chrono_ceil vmonth t) (chrono_floor vyear t)"

definition get_year :: "int \<Rightarrow> int" where
  "get_year t = to_i32 (chrono_floor vyear t div vyear)"

definition get_weekday :: "int \<Rightarrow> int option" where
  "get_weekday t = duration_rem vday (chrono_floor vday t) (chrono_floor vweek t)"

definition get_yearday :: "int \<Rightarrow> int option" where
  "get_yearday t = duration_rem vday (chrono_floor vday t) (chrono_floor vyear t)"

definition get_next_midnight :: "int \<Rightarrow> int" where
  "get_next_midnight t = chrono_ceil vday t"

datatype TOTD = TOTD_NONE | MIDNIGHT | NEWDAY | DAWN | DAY | DUSK | EVENING | NIGHT

definition totd_of_hour :: "int \<Rightarrow> TOTD" where
  "totd_of_hour h =
     (if h \<in> {0, 1, 2, 3} then MIDNIGHT
      else if h \<in> {4, 5} then NEWDAY
      else if h = 6 then DAWN
      else if h \<in> {7, 8, 9, 10, 11, 12, 13, 14, 15, 16} then DAY
      else if h = 17 then DUSK
      else if h \<in> {18, 19} then EVENING
      else if h \<in> {20, 21, 22, 23} then NIGHT
      else TOTD_NONE)"

definition get_totd :: "int \<Rightarrow> TOTD option" where
  "get_totd t = map_option totd_of_hour (get_hour t)"

section \<open>The moon and the race of the week\<close>

definition moon_day :: "int \<Rightarrow> int" where
  "moon_day t = to_u32 (count_days (t + 886 * vyear) + 26) mod 84"

text \<open>
  The phase is computed in \<open>double\<close>: each operation is the exact one followed by \<^const>\<open>f64\<close>, and
  the result is truncated.
\<close>

definition phase_of :: "int \<Rightarrow> int" where
  "phase_of d =
     (if 42 \<le> d then trunc (f64 (f64 (100 * f64 ((of_int d - 42) / 42)) + 1 / 2))
      else trunc (f64 (f64 (100 * f64 (1 - f64 (of_int d / 42))) + 1 / 2)))"

definition get_phase :: "int \<Rightarrow> int" where
  "get_phase t = phase_of (moon_day t)"

definition get_direction :: "int \<Rightarrow> int" where
  "get_direction t =
     (if moon_day t = 42 \<or> moon_day t = 0 then 0 else if moon_day t < 42 then 1 else 2)"

definition get_race :: "int \<Rightarrow> int" where
  "get_race t = to_u8 (count_weeks t mod 8 + 1)"

definition get_location :: "int \<Rightarrow> int" where
  "get_location t = to_u8 (count_weeks t mod 3)"

section \<open>The hourly gates of the time server\<close>

text \<open>
  A tick at time \<open>t\<close> with the static variable \<open>next\<close>: whether the hourly work runs, and the new
  value.  The Earth gate and the Vana'diel gate differ in the unit only.
\<close>

definition gate :: "int \<Rightarrow> int \<Rightarrow> int \<Rightarrow> bool \<times> int" where
  "gate unit next_tick t = (if next_tick \<le> t then (True, chrono_ceil unit t) else (False, next_tick))"

fun gate_run :: "int \<Rightarrow> int \<Rightarrow> int list \<Rightarrow> bool list" where
  "gate_run unit next_tick [] = []"
| "gate_run unit next_tick (t # ts) =
     (case gate unit next_tick t of (fired, n) \<Rightarrow> fired # gate_run unit n ts)"

text \<open>The first tick sets the static variable from its own time.\<close>

definition gate_ticks :: "int \<Rightarrow> int list \<Rightarrow> bool list" where
  "gate_ticks unit ts = (case ts of [] \<Rightarrow> [] | t # _ \<Rightarrow> gate_run unit (chrono_ceil unit t) ts)"

text \<open>What the Vana'diel gate runs: the day work at hour zero and the change of the time of day.\<close>

record clock_state =
  nextVHourlyUpdate :: int
  prevTotd :: TOTD

datatype clock_event = GameHour | GameDay | TOTDChange TOTD

definition vana_tick :: "clock_state \<Rightarrow> int \<Rightarrow> (clock_event list \<times> clock_state) option" where
  "vana_tick s vanaTime =
     (case get_hour vanaTime of
        None \<Rightarrow> None
      | Some vanaHour \<Rightarrow>
          (let vanaTotd = totd_of_hour vanaHour in
           Some (if nextVHourlyUpdate s \<le> vanaTime
                 then (GameHour # (if vanaHour = 0 then [GameDay] else []) @
                         (if vanaTotd \<noteq> prevTotd s then [TOTDChange vanaTotd] else []),
                       \<lparr>nextVHourlyUpdate = chrono_ceil vhour vanaTime, prevTotd = vanaTotd\<rparr>)
                 else ([], s))))"

section \<open>Remainders of time points\<close>

lemma rem_floor:
  assumes "0 < u" "0 < n" "n * u \<le> t"
  shows "duration_rem u (chrono_floor u t) (chrono_floor (n * u) t) = Some (to_u32 (t div u mod n))"
proof -
  let ?q = "t div u" and ?Q = "t div (n * u)"
  have Q: "?Q = ?q div n" using zdiv_zmult2_eq[of n t u] assms by (simp add: mult.commute)
  have "1 \<le> ?Q" using assms by (simp add: pos_imp_zdiv_pos_iff int_one_le_iff_zero_less)
  have "0 \<le> t" using assms by (smt (verit) mult_nonneg_nonneg)
  then have nn: "0 \<le> ?q * u" using assms by (simp add: pos_imp_zdiv_nonneg_iff)
  have b: "?Q * (n * u) = (?Q * n) * u" by simp
  have "?q mod n < ?Q * n"
    using assms \<open>1 \<le> ?Q\<close> pos_mod_bound[of n ?q] mult_right_mono[of 1 ?Q n] by linarith
  moreover have "?q mod (?Q * n) = (?q mod n) mod (?Q * n)"
  proof -
    have "?q = ?q mod n + ?Q * n * 1" using Q by simp
    then show ?thesis by (metis mod_mult_self2)
  qed
  ultimately have r: "?q mod (?Q * n) = ?q mod n" using assms by simp
  have "crem (?q * u) (?Q * (n * u)) = (?q mod n) * u"
    using nn assms \<open>1 \<le> ?Q\<close> unfolding crem_def b
    by (simp add: abs_mult mod_mult_mult2 r)
  moreover have "?Q * (n * u) \<noteq> 0" using assms \<open>1 \<le> ?Q\<close> by simp
  ultimately show ?thesis using assms by (simp add: duration_rem_def chrono_floor_def)
qed

lemma ceil_quot:
  assumes "0 < (u :: int)"
  shows "- (- t div u) = (if t mod u = 0 then t div u else t div u + 1)"
  using assms by (simp add: zdiv_zminus1_eq_if)

lemma rem_ceil:
  assumes "0 < u" "0 < n" "2 * (n * u) \<le> t"
  shows "duration_rem u (chrono_ceil u t) (chrono_floor (n * u) t) =
    Some (to_u32 (t div u mod n + (if t mod u = 0 then 0 else 1)))"
proof -
  let ?q = "t div u" and ?Q = "t div (n * u)"
  let ?e = "if t mod u = 0 then 0 else 1 :: int"
  let ?c = "?q + ?e"
  have c: "- (- t div u) = ?c" using ceil_quot[OF assms(1), of t] by simp
  have Q: "?Q = ?q div n" using zdiv_zmult2_eq[of n t u] assms by (simp add: mult.commute)
  have "0 < n * u" using assms by simp
  then have "2 \<le> ?Q" using assms zdiv_mono1[of "2 * (n * u)" t "n * u"] by simp
  have "0 \<le> t" using assms \<open>0 < n * u\<close> by linarith
  then have nn: "0 \<le> ?c * u" using assms by (simp add: pos_imp_zdiv_nonneg_iff)
  have b: "?Q * (n * u) = (?Q * n) * u" by simp
  have "0 \<le> ?q mod n + ?e" "?q mod n + ?e < ?Q * n"
    using assms pos_mod_bound[of n ?q] pos_mod_sign[of n ?q] mult_right_mono[OF \<open>2 \<le> ?Q\<close>, of n]
    by (cases "t mod u = 0"; simp only: if_True if_False refl; linarith)+
  moreover have "?c = (?q mod n + ?e) + ?Q * n" using Q by simp
  ultimately have r: "?c mod (?Q * n) = ?q mod n + ?e" by (metis mod_add_self2 mod_pos_pos_trivial)
  have "crem (?c * u) (?Q * (n * u)) = (?q mod n + ?e) * u"
    using nn assms \<open>2 \<le> ?Q\<close> unfolding crem_def b
    by (simp add: abs_mult mod_mult_mult2 r del: mult_cancel_right)
  moreover have "?Q * (n * u) \<noteq> 0" using assms \<open>2 \<le> ?Q\<close> by simp
  ultimately show ?thesis using assms by (simp add: duration_rem_def chrono_floor_def chrono_ceil_def c)
qed

lemma to_u32_id: "0 \<le> x \<Longrightarrow> x < 2 ^ 32 \<Longrightarrow> to_u32 x = x"
  by (simp add: to_u32_def)

text \<open>
  C32: from the third year on, the calendar functions take a time point apart and put together
  it is the same time point; seconds, minutes, hours and days of the week and of the year are within
  their ranges.  Month and day of the month are the ones of the day of the year, counted from one,
  in their ranges of 1 to 12 and 1 to 30, except exactly at midnight: both round a part up to the next
  one, so at a midnight the day of the month is the one that has just ended, 0 at the start of a
  month, and the month is 0 at the start of a year.
\<close>
theorem calendar_decomposes:
  assumes "2 * vyear \<le> t" "t < 2 ^ 31 * vyear"
  shows "\<exists>s mi h wd yd m d. get_second t = Some s \<and> get_minute t = Some mi \<and> get_hour t = Some h \<and>
    get_weekday t = Some wd \<and> get_yearday t = Some yd \<and> get_month t = Some m \<and> get_monthday t = Some d \<and>
    t = ((((get_year t * 360 + yd) * 24 + h) * 60 + mi) * 60 + s) * 1000 + t mod 1000 \<and>
    s \<in> {0..<60} \<and> mi \<in> {0..<60} \<and> h \<in> {0..<24} \<and> wd \<in> {0..<8} \<and> yd \<in> {0..<360} \<and>
    m = yd div 30 + (if t mod vmonth = 0 then 0 else 1) \<and> d = yd mod 30 + (if t mod vday = 0 then 0 else 1) \<and>
    (t mod vday \<noteq> 0 \<longrightarrow> m \<in> {1..12} \<and> d \<in> {1..30}) \<and>
    m \<in> {0..12} \<and> d \<in> {0..30} \<and> (m = 0 \<longleftrightarrow> t mod vyear = 0) \<and> (d = 0 \<longleftrightarrow> t mod vmonth = 0)"
proof -
  have t: "0 \<le> t" using assms by (simp add: vunits)
  have s: "get_second t = Some (t div 1000 mod 60)"
    using rem_floor[of vsecond 60 t] assms unfolding get_second_def
    by (simp add: vunits to_u32_id pos_mod_bound)
  have mi: "get_minute t = Some (t div vminute mod 60)"
    using rem_floor[of vminute 60 t] assms unfolding get_minute_def
    by (simp add: vunits to_u32_id)
  have h: "get_hour t = Some (t div vhour mod 24)"
    using rem_floor[of vhour 24 t] assms unfolding get_hour_def
    by (simp add: vunits to_u32_id)
  have wd: "get_weekday t = Some (t div vday mod 8)"
    using rem_floor[of vday 8 t] assms unfolding get_weekday_def
    by (simp add: vunits to_u32_id)
  have yd: "get_yearday t = Some (t div vday mod 360)"
    using rem_floor[of vday 360 t] assms unfolding get_yearday_def
    by (simp add: vunits to_u32_id)
  have units: "vyear = 12 * vmonth" "vmonth = 30 * vday" "0 < vday" "0 < vmonth" by (simp_all add: vunits)
  have m: "get_month t = Some (t div vmonth mod 12 + (if t mod vmonth = 0 then 0 else 1))"
  proof -
    have "2 * (12 * vmonth) \<le> t" using assms(1) units(1) by simp
    moreover have "0 \<le> t div vmonth mod 12" "t div vmonth mod 12 < 12" by simp_all
    ultimately show ?thesis
      using rem_ceil[OF units(4), of 12 t] unfolding get_month_def units(1) by (simp add: to_u32_id)
  qed
  have d: "get_monthday t = Some (t div vday mod 30 + (if t mod vday = 0 then 0 else 1))"
  proof -
    have "2 * (30 * vday) \<le> t" using assms(1) units by simp
    moreover have "0 \<le> t div vday mod 30" "t div vday mod 30 < 30" by simp_all
    ultimately show ?thesis
      using rem_ceil[OF units(3), of 30 t] unfolding get_monthday_def units(2) by (simp add: to_u32_id)
  qed
  have y: "get_year t = t div vyear"
    using assms t by (simp add: get_year_def chrono_floor_def vunits to_i32_id)
  let ?D = "t div vday"
  have recompose: "t = ((((get_year t * 360 + ?D mod 360) * 24 + t div vhour mod 24) * 60 + t div vminute mod 60) * 60 +
      t div 1000 mod 60) * 1000 + t mod 1000"
  proof -
    have q: "t div vyear = ?D div 360" "?D = t div vhour div 24" "t div vhour = t div vminute div 60"
      "t div vminute = t div 1000 div 60"
      by (simp_all add: vunits flip: zdiv_zmult2_eq)
    have "t div vyear * 360 + ?D mod 360 = ?D" "?D * 24 + t div vhour mod 24 = t div vhour"
      "t div vhour * 60 + t div vminute mod 60 = t div vminute"
      "t div vminute * 60 + t div 1000 mod 60 = t div 1000"
      unfolding q(1) by (simp only: div_mult_mod_eq, subst q(2), simp only: div_mult_mod_eq,
          subst q(3), simp only: div_mult_mod_eq, subst q(4), simp only: div_mult_mod_eq)
    then show ?thesis unfolding y by (simp only: div_mult_mod_eq)
  qed
  have yd30: "?D mod 360 div 30 = t div vmonth mod 12" "?D mod 360 mod 30 = ?D mod 30"
  proof -
    have "t div vmonth = ?D div 30" by (simp add: vunits flip: zdiv_zmult2_eq)
    then have "?D mod (30 * 12) = 30 * (t div vmonth mod 12) + ?D mod 30" by (simp only: zmod_zmult2_eq)
    then show "?D mod 360 div 30 = t div vmonth mod 12" "?D mod 360 mod 30 = ?D mod 30" by simp_all
  qed
  let ?m = "t div vmonth mod 12 + (if t mod vmonth = 0 then 0 else 1)"
    and ?d = "?D mod 30 + (if t mod vday = 0 then 0 else 1)"
  have "vday * 30 = vmonth" "vmonth * 12 = vyear" by (simp_all add: vunits)
  then have parts: "t mod vmonth = vday * (?D mod 30) + t mod vday"
      "t mod vyear = vmonth * (t div vmonth mod 12) + t mod vmonth"
    using zmod_zmult2_eq[of 30 t vday] zmod_zmult2_eq[of 12 t vmonth] by simp_all
  have nonneg: "0 \<le> ?D mod 30" "?D mod 30 < 30" "0 \<le> t div vmonth mod 12" "t div vmonth mod 12 < 12"
    "0 \<le> t mod vday" "0 \<le> t mod vmonth" using units by simp_all
  have zero: "b * c + r = 0 \<longleftrightarrow> c = 0 \<and> r = 0" if "0 < b" "0 \<le> c" "0 \<le> r" for b c r :: int
    using that by (metis add_nonneg_eq_0_iff less_imp_le mult_eq_0_iff mult_nonneg_nonneg order_less_irrefl)
  have vd: "t mod vmonth = 0 \<longleftrightarrow> ?D mod 30 = 0 \<and> t mod vday = 0"
    unfolding parts(1) by (rule zero[OF units(3) nonneg(1,5)])
  have vm: "t mod vyear = 0 \<longleftrightarrow> t div vmonth mod 12 = 0 \<and> t mod vmonth = 0"
    unfolding parts(2) by (rule zero[OF units(4) nonneg(3,6)])
  have md: "?m = ?D mod 360 div 30 + (if t mod vmonth = 0 then 0 else 1)"
      "?d = ?D mod 360 mod 30 + (if t mod vday = 0 then 0 else 1)"
      "t mod vday \<noteq> 0 \<longrightarrow> ?m \<in> {1..12} \<and> ?d \<in> {1..30}" "?m \<in> {0..12}" "?d \<in> {0..30}"
      "?m = 0 \<longleftrightarrow> t mod vyear = 0" "?d = 0 \<longleftrightarrow> t mod vmonth = 0"
    unfolding vm vd yd30 using nonneg by auto
  have ranges: "t div 1000 mod 60 \<in> {0..<60}" "t div vminute mod 60 \<in> {0..<60}" "t div vhour mod 24 \<in> {0..<24}"
      "?D mod 8 \<in> {0..<8}" "?D mod 360 \<in> {0..<360}"
    by simp_all
  show ?thesis
    unfolding s mi h wd yd m d
    by (rule exI[of _ "t div 1000 mod 60"], rule exI[of _ "t div vminute mod 60"],
        rule exI[of _ "t div vhour mod 24"], rule exI[of _ "?D mod 8"], rule exI[of _ "?D mod 360"],
        rule exI[of _ ?m], rule exI[of _ ?d], intro conjI) (rule refl recompose ranges md)+
qed

theorem calendar_decomposes_witness:
  "\<exists>h yd. get_hour (810 * vday) = Some h \<and> get_yearday (810 * vday) = Some yd \<and>
    get_monthday (810 * vday) = Some (yd mod 30)"
  using calendar_decomposes[of "810 * vday"] by (auto simp: vunits)

lemma midnight_monthday: "get_monthday (810 * vday) = Some 0 \<and> get_yearday (810 * vday) = Some 90"
  by (simp add: get_monthday_def get_yearday_def duration_rem_def chrono_ceil_def chrono_floor_def crem_def vunits to_u32_def)

section \<open>The moon\<close>

definition nearest_percent :: "int \<Rightarrow> int" where
  "nearest_percent x = (200 * x + 42) div 84"

lemma f64_near:
  assumes "\<bar>x\<bar> \<le> B"
  shows "\<bar>f64 x - x\<bar> \<le> B * (1 / 2 ^ 53)"
  using f64_error[of x] divide_right_mono[OF assms, of "2 ^ 53"] by simp

lemma abs_le_rat: "\<bar>x :: rat\<bar> \<le> b \<longleftrightarrow> - b \<le> x \<and> x \<le> b"
  by linarith

lemma phase_step:
  fixes e :: rat
  assumes x: "0 \<le> x" "x \<le> 42" and a: "\<bar>a - of_int x / 42\<bar> \<le> 4 * e" and e: "e = 1 / 2 ^ 53"
  shows "trunc (f64 (f64 (100 * a) + 1 / 2)) = nearest_percent x"
proof -
  define X where "X = (of_int x / 42 :: rat)"
  let ?y = "100 * X + 1 / 2" and ?b = "f64 (100 * a)" and ?q = "nearest_percent x"
  have X: "0 \<le> X" "X \<le> 1" using x by (simp_all add: X_def)
  have e': "0 \<le> e" "100000 * e \<le> 1" by (simp_all add: e)
  have a': "- (4 * e) \<le> a - X" "a - X \<le> 4 * e" using a unfolding X_def abs_le_rat by simp_all
  have "\<bar>100 * a\<bar> \<le> 200" unfolding abs_le_rat using a' e' X by linarith
  from f64_near[OF this] have b: "- (200 * e) \<le> ?b - 100 * a" "?b - 100 * a \<le> 200 * e"
    unfolding abs_le_rat e by simp_all
  have "\<bar>?b + 1 / 2\<bar> \<le> 300" unfolding abs_le_rat using a' b e' X by linarith
  from f64_near[OF this] have c: "- (300 * e) \<le> f64 (?b + 1 / 2) - (?b + 1 / 2)" "f64 (?b + 1 / 2) - (?b + 1 / 2) \<le> 300 * e"
    unfolding abs_le_rat e by simp_all
  let ?r = "(200 * x + 42) mod 84"
  have split: "200 * x + 42 = 84 * ?q + ?r" by (simp add: nearest_percent_def)
  have "?r \<noteq> 0"
  proof
    assume "?r = 0"
    with split have "42 * ?q = 100 * x + 21" by simp
    then have "even (100 * x + 21)" by (metis dvd_mult2 even_numeral)
    then show False by simp
  qed
  moreover have "even ?r" by (intro dvd_mod) simp_all
  moreover have "0 \<le> ?r" "?r < 84" by simp_all
  ultimately have r: "2 \<le> ?r" "?r \<le> 82" by (auto elim!: evenE)
  note split
  then have "(of_int (200 * x + 42) :: rat) = of_int (84 * ?q + ?r)" by presburger
  then have y: "84 * ?y = 84 * of_int ?q + of_int ?r" by (simp add: X_def)
  have "2 \<le> (of_int ?r :: rat)" "(of_int ?r :: rat) \<le> 82"
    using r by (metis of_int_le_iff of_int_numeral)+
  moreover have "Q \<le> F \<and> F < Q + 1"
    if "84 * ?y = 84 * Q + R" "2 \<le> R" "R \<le> 82" "- (300 * e) \<le> F - (?b + 1 / 2)" "F - (?b + 1 / 2) \<le> 300 * e"
    for F Q R :: rat
  proof -
    have "?y - 900 * e \<le> F" "F \<le> ?y + 900 * e" using that(4,5) a' b by linarith+
    moreover have "?y = Q + R / 84" using that(1) by simp
    moreover have "900 * e \<le> 1 / 100" using e' by linarith
    ultimately show ?thesis using that(2,3) by linarith
  qed
  ultimately have "of_int ?q \<le> f64 (?b + 1 / 2)" "f64 (?b + 1 / 2) < of_int ?q + 1"
    using y c by blast+
  moreover have "0 \<le> ?q" using x by (simp add: nearest_percent_def)
  ultimately show ?thesis by (simp add: trunc_def floor_eq_iff)
qed

text \<open>
  C39: the moon phase, computed in floating point, is the percentage of the 42 days from new to full
  moon rounded to the nearest whole number, for every day: the rounding errors of the four
  operations never reach the next number.
\<close>
theorem moon_phase_exact:
  "get_phase t = nearest_percent (if 42 \<le> moon_day t then moon_day t - 42 else 42 - moon_day t)"
proof -
  let ?d = "moon_day t"
  have d: "0 \<le> ?d" "?d < 84" by (simp_all add: moon_day_def)
  show ?thesis
  proof (cases "42 \<le> ?d")
    case True
    let ?x = "(of_int (?d - 42) / 42 :: rat)"
    have "\<bar>?x\<bar> \<le> 1" using True d by (simp add: field_simps)
    from f64_near[OF this] have "\<bar>f64 ?x - ?x\<bar> \<le> 4 * (1 / 2 ^ 53)" by linarith
    from phase_step[OF _ _ this] True d show ?thesis by (simp add: get_phase_def phase_of_def)
  next
    case False
    let ?x = "(of_int ?d / 42 :: rat)"
    define e :: rat where "e = 1 / 2 ^ 53"
    have x: "0 \<le> ?x" "?x \<le> 1" using False d by (simp_all add: field_simps)
    then have "\<bar>?x\<bar> \<le> 1" by simp
    from f64_near[OF this] have e1: "- e \<le> f64 ?x - ?x" "f64 ?x - ?x \<le> e" unfolding abs_le_rat e_def by simp_all
    have "e \<le> 1" by (simp add: e_def)
    then have "\<bar>1 - f64 ?x\<bar> \<le> 2" unfolding abs_le_rat using x e1 by linarith
    from f64_near[OF this] have e2: "- (2 * e) \<le> f64 (1 - f64 ?x) - (1 - f64 ?x)" "f64 (1 - f64 ?x) - (1 - f64 ?x) \<le> 2 * e"
      unfolding abs_le_rat e_def by simp_all
    have q: "(of_int (42 - ?d) / 42 :: rat) = 1 - ?x" by (simp add: field_simps)
    have "0 \<le> e" by (simp add: e_def)
    then have "\<bar>f64 (1 - f64 ?x) - of_int (42 - ?d) / 42\<bar> \<le> 4 * e"
      unfolding q abs_le_rat using e1 e2 by linarith
    from phase_step[OF _ _ this e_def] False d show ?thesis by (simp add: get_phase_def phase_of_def)
  qed
qed

section \<open>The gates\<close>

lemma chrono_ceil_inside:
  assumes "0 < u" "t mod u \<noteq> 0"
  shows "chrono_ceil u t = (t div u + 1) * u"
  using ceil_quot[OF assms(1), of t] assms(2) by (simp add: chrono_ceil_def)

lemma chrono_ceil_boundary: "0 < u \<Longrightarrow> t mod u = 0 \<Longrightarrow> chrono_ceil u t = t"
  using ceil_quot[of u t] by (auto simp: chrono_ceil_def)

lemma div_lt_iff: "0 < (u :: int) \<Longrightarrow> (t div u + 1) * u \<le> t' \<longleftrightarrow> t div u < t' div u"
proof -
  assume u: "0 < u"
  have "(t div u + 1) * u \<le> t' \<longleftrightarrow> t div u + 1 \<le> t' div u"
  proof
    assume "(t div u + 1) * u \<le> t'"
    then have "(t div u + 1) * u div u \<le> t' div u" using u by (rule zdiv_mono1)
    then show "t div u + 1 \<le> t' div u" using u by simp
  next
    assume "t div u + 1 \<le> t' div u"
    then have "(t div u + 1) * u \<le> t' div u * u" using u by simp
    also have "\<dots> \<le> t'" using u by (simp add: minus_mod_eq_div_mult[symmetric])
    finally show "(t div u + 1) * u \<le> t'" .
  qed
  then show ?thesis by linarith
qed

lemma gate_run_inside:
  assumes u: "0 < u" and so: "sorted (t # ts)" and inside: "\<forall>x \<in> set (t # ts). x mod u \<noteq> 0"
  shows "gate_run u ((t div u + 1) * u) ts = map2 (\<lambda>a b. a div u < b div u) (t # ts) ts"
  using so inside
proof (induction ts arbitrary: t)
  case (Cons t' ts)
  have le: "t div u \<le> t' div u" using Cons.prems(1) u by (simp add: zdiv_mono1)
  have step: "gate u ((t div u + 1) * u) t' = (t div u < t' div u, (t' div u + 1) * u)"
  proof (cases "t div u < t' div u")
    case True
    then show ?thesis using div_lt_iff[OF u, of t t'] chrono_ceil_inside[OF u] Cons.prems(2)
      by (simp add: gate_def)
  next
    case False
    then have "t' div u = t div u" using le by simp
    with False show ?thesis using div_lt_iff[OF u, of t t'] by (simp add: gate_def)
  qed
  with Cons show ?case by simp
qed simp

text \<open>
  For ticks in increasing order none of which falls exactly on an hour, the hourly work runs at
  a tick exactly when at least one hour has begun since the tick before, and never twice for one
  hour.  A tick exactly on the hour runs it, and so does the tick after: the next time is rounded
  up to the tick itself.
\<close>
theorem gate_once_per_hour:
  assumes "0 < u" "sorted (t # ts)"
  shows "((\<forall>x \<in> set (t # ts). x mod u \<noteq> 0) \<longrightarrow>
      gate_ticks u (t # ts) = False # map2 (\<lambda>a b. a div u < b div u) (t # ts) ts) \<and>
    (t mod u = 0 \<longrightarrow> take 2 (gate_ticks u (t # ts)) = map (\<lambda>_. True) (take 2 (t # ts)))"
proof (intro conjI impI)
  assume inside: "\<forall>x \<in> set (t # ts). x mod u \<noteq> 0"
  then have "gate u (chrono_ceil u t) t = (False, (t div u + 1) * u)"
    using div_lt_iff[OF assms(1), of t t] by (simp add: gate_def chrono_ceil_inside[OF assms(1)])
  with gate_run_inside[OF assms inside] show "gate_ticks u (t # ts) = False # map2 (\<lambda>a b. a div u < b div u) (t # ts) ts"
    by (simp add: gate_ticks_def)
next
  assume "t mod u = 0"
  then show "take 2 (gate_ticks u (t # ts)) = map (\<lambda>_. True) (take 2 (t # ts))"
    using assms by (cases ts) (simp_all add: gate_ticks_def gate_def chrono_ceil_boundary)
qed

theorem gate_once_per_hour_witness:
  "gate_ticks vhour [vhour div 2, vhour + 1, vhour + 2, 3 * vhour + 7] = [False, True, False, True] \<and>
   take 2 (gate_ticks vhour [vhour, vhour + 1]) = [True, True]"
  using gate_once_per_hour[of vhour "vhour div 2" "[vhour + 1, vhour + 2, 3 * vhour + 7]"]
    gate_once_per_hour[of vhour vhour "[vhour + 1]"]
  by (simp add: vunits)

text \<open>A tick after one inside an hour reports the change of the time of day exactly when there is one.\<close>

lemma totd_reported:
  assumes "2 * vyear \<le> t" "t \<le> t'" "t' < 2 ^ 31 * vyear" "t mod vhour \<noteq> 0" "t' mod vhour \<noteq> 0"
    and "get_totd t = Some d" "get_totd t' = Some d'" "s = \<lparr>nextVHourlyUpdate = chrono_ceil vhour t, prevTotd = d\<rparr>"
  shows "\<exists>es. vana_tick s t' = Some (es, \<lparr>nextVHourlyUpdate = chrono_ceil vhour t', prevTotd = d'\<rparr>) \<and>
    (\<forall>x. TOTDChange x \<in> set es \<longleftrightarrow> x = d' \<and> d' \<noteq> d)"
proof -
  have u: "0 < vhour" by (simp add: vunits)
  obtain h' where h': "get_hour t' = Some h'" "d' = totd_of_hour h'" using assms(7) by (auto simp: get_totd_def)
  have hour: "get_hour x = Some (x div vhour mod 24)" if "2 * vyear \<le> x" "x < 2 ^ 31 * vyear" for x
    using rem_floor[of vhour 24 x] that unfolding get_hour_def by (simp add: vunits to_u32_id)
  have le: "t div vhour \<le> t' div vhour" using assms(2) u by (simp add: zdiv_mono1)
  show ?thesis
  proof (cases "t div vhour < t' div vhour")
    case True
    then have "chrono_ceil vhour t \<le> t'" using div_lt_iff[OF u] assms(4) by (simp add: chrono_ceil_inside[OF u])
    then show ?thesis using h' assms(8) by (auto simp: vana_tick_def Let_def)
  next
    case False
    then have eq: "t' div vhour = t div vhour" using le by simp
    then have "\<not> chrono_ceil vhour t \<le> t'" "chrono_ceil vhour t' = chrono_ceil vhour t"
      using div_lt_iff[OF u, of t t'] assms(4,5) by (simp_all add: chrono_ceil_inside[OF u])
    moreover have "d' = d"
    proof -
      have "get_hour t' = get_hour t" using hour[of t] hour[of t'] eq assms(1,2,3) by simp
      then show ?thesis using assms(6,7) by (auto simp: get_totd_def)
    qed
    ultimately show ?thesis using h' assms(8) by (auto simp: vana_tick_def Let_def)
  qed
qed

end
