(* ===== verification/Spawn.thy ===== *)
theory Spawn
  imports VanaTime "HOL-Library.AList"
begin

text \<open>
  Respawning: \<open>src/map/spawn_slot.cpp\<close> (mobs that share a place), \<open>src/map/spawn_handler.cpp\<close>
  (pending respawns and their conditions) and \<open>zoneutils::GetWeatherElement\<close>.  The mobs of the
  zone are a list and a pointer to a mob is its position; a pointer to a slot is a number.  The two
  hash maps are association lists, so a statement about any list holds for every order in which
  the map may be walked.  Random numbers and the answer of the Lua check are arguments.  A mob's
  state is what these functions read: whether it is alive, its respawn settings and its despawn
  timer; \<open>Spawn\<close> makes it alive and clears the timer.
\<close>

section \<open>Mobs and conditions\<close>

datatype Weather = WNone | Sunshine | Clouds | Fog | HotSpell | HeatWave | Rain | Squall | DustStorm
  | SandStorm | Wind | Gales | Snow | Blizzards | Thunder | Thunderstorms | Auroras | StellarGlare
  | Gloom | Darkness

fun GetWeatherElement :: "Weather \<Rightarrow> int" where
  "GetWeatherElement WNone = 0" | "GetWeatherElement Sunshine = 0" | "GetWeatherElement Clouds = 0"
| "GetWeatherElement Fog = 0" | "GetWeatherElement HotSpell = 1" | "GetWeatherElement HeatWave = 1"
| "GetWeatherElement Rain = 6" | "GetWeatherElement Squall = 6" | "GetWeatherElement DustStorm = 4"
| "GetWeatherElement SandStorm = 4" | "GetWeatherElement Wind = 3" | "GetWeatherElement Gales = 3"
| "GetWeatherElement Snow = 2" | "GetWeatherElement Blizzards = 2" | "GetWeatherElement Thunder = 5"
| "GetWeatherElement Thunderstorms = 5" | "GetWeatherElement Auroras = 7"
| "GetWeatherElement StellarGlare = 7" | "GetWeatherElement Gloom = 8" | "GetWeatherElement Darkness = 8"

text \<open>The bits of \<open>m_SpawnType\<close>.\<close>

definition SPAWNTYPE_ATNIGHT :: nat where "SPAWNTYPE_ATNIGHT = 0"
definition SPAWNTYPE_ATEVENING :: nat where "SPAWNTYPE_ATEVENING = 1"
definition SPAWNTYPE_WEATHER :: nat where "SPAWNTYPE_WEATHER = 2"
definition SPAWNTYPE_FOG :: nat where "SPAWNTYPE_FOG = 3"

record spawn_mob =
  mob_id :: nat
  targid :: nat
  alive :: bool
  m_AllowRespawn :: bool
  m_RespawnTime :: int
  m_SpawnType :: nat
  is_elemental :: bool
  has_master :: bool
  m_Element :: int
  in_instance :: bool
  spawnSlot :: "nat option"
  m_DespawnTimer :: "int option"

text \<open>What the conditions read of the zone and the clock.\<close>

record conditions =
  totd :: TOTD
  weather :: Weather

definition canSpawnNow :: "conditions \<Rightarrow> spawn_mob \<Rightarrow> bool" where
  "canSpawnNow c m =
     (if \<not> m_AllowRespawn m then False
      else if bit (m_SpawnType m) SPAWNTYPE_ATNIGHT \<and> totd c \<noteq> NIGHT \<and> totd c \<noteq> MIDNIGHT then False
      else if bit (m_SpawnType m) SPAWNTYPE_ATEVENING \<and> totd c \<noteq> EVENING \<and> totd c \<noteq> NIGHT \<and>
                totd c \<noteq> MIDNIGHT \<and> totd c \<noteq> NEWDAY then False
      else if bit (m_SpawnType m) SPAWNTYPE_FOG \<and> weather c \<noteq> Fog then False
      else if bit (m_SpawnType m) SPAWNTYPE_WEATHER \<and> is_elemental m \<and> \<not> has_master m \<and>
                m_Element m \<noteq> GetWeatherElement (weather c) then False
      else True)"

definition mob_Spawn :: "spawn_mob \<Rightarrow> spawn_mob" where
  "mob_Spawn m = m\<lparr>alive := True, m_DespawnTimer := None\<rparr>"

definition SetDespawnTime :: "int \<Rightarrow> int \<Rightarrow> spawn_mob \<Rightarrow> spawn_mob" where
  "SetDespawnTime now d m = m\<lparr>m_DespawnTimer := (if 0 < d then Some (now + d) else None)\<rparr>"

section \<open>Slots\<close>

type_synonym slot_entry = "nat \<times> nat"

definition SlotAddMob :: "slot_entry list \<Rightarrow> nat \<Rightarrow> nat \<Rightarrow> slot_entry list" where
  "SlotAddMob es p spawnChance = es @ [(p, spawnChance)]"

definition SlotRemoveMob :: "slot_entry list \<Rightarrow> nat \<Rightarrow> slot_entry list" where
  "SlotRemoveMob es p = filter (\<lambda>e. fst e \<noteq> p) es"

text \<open>
  The loop over the entries: \<^term>\<open>None\<close> when it meets a mob that is alive, otherwise the mobs with a
  chance and the ones without.
\<close>

fun scan_entries :: "conditions \<Rightarrow> spawn_mob list \<Rightarrow> slot_entry list \<Rightarrow> (nat \<times> nat) list \<Rightarrow> nat list
    \<Rightarrow> ((nat \<times> nat) list \<times> nat list) option" where
  "scan_entries c ms [] chance rest = Some (chance, rest)"
| "scan_entries c ms ((p, ch) # es) chance rest =
     (if alive (ms ! p) then None
      else if \<not> canSpawnNow c (ms ! p) then scan_entries c ms es chance rest
      else if 0 < ch then scan_entries c ms es (chance @ [(ch, p)]) rest
      else scan_entries c ms es chance (rest @ [p]))"

fun pick_chance :: "nat \<Rightarrow> nat \<Rightarrow> (nat \<times> nat) list \<Rightarrow> nat option" where
  "pick_chance roll acc [] = None"
| "pick_chance roll acc ((ch, p) # cs) =
     (if roll < acc + ch then Some p else pick_chance roll (acc + ch) cs)"

text \<open>The roll is below 100; the pick is the position \<open>GetRandomElement\<close> draws.\<close>

definition slot_choice :: "nat \<Rightarrow> nat \<Rightarrow> (nat \<times> nat) list \<Rightarrow> nat list \<Rightarrow> nat option" where
  "slot_choice roll pick chance rest =
     (let totalChance = sum_list (map fst chance);
          byChance = (if 0 < totalChance \<and> roll < totalChance then pick_chance roll 0 chance else None)
      in case byChance of
           Some p \<Rightarrow> Some p
         | None \<Rightarrow> if rest \<noteq> [] then Some (rest ! (pick mod length rest)) else None)"

definition spawn_at :: "spawn_mob list \<Rightarrow> nat \<Rightarrow> spawn_mob list" where
  "spawn_at ms p = ms[p := mob_Spawn ((ms ! p)\<lparr>m_AllowRespawn := True\<rparr>)]"

definition TrySpawn :: "conditions \<Rightarrow> slot_entry list \<Rightarrow> nat option \<Rightarrow> nat \<Rightarrow> nat \<Rightarrow> spawn_mob list
    \<Rightarrow> bool \<times> spawn_mob list" where
  "TrySpawn c es specificMobId roll pick ms =
     (case specificMobId of
        Some i \<Rightarrow>
          (case find (\<lambda>e. mob_id (ms ! fst e) = i) es of
             None \<Rightarrow> (False, ms)
           | Some (p, _) \<Rightarrow>
               if \<not> alive (ms ! p) \<and> canSpawnNow c (ms ! p) then (True, spawn_at ms p) else (False, ms))
      | None \<Rightarrow>
          (case scan_entries c ms es [] [] of
             None \<Rightarrow> (False, ms)
           | Some (chance, rest) \<Rightarrow>
               if chance = [] \<and> rest = [] then (False, ms)
               else case slot_choice roll pick chance rest of
                      None \<Rightarrow> (False, ms)
                    | Some p \<Rightarrow> (True, spawn_at ms p)))"

section \<open>The handler\<close>

text \<open>Times in nanoseconds; the window is half of the 30 seconds between two waves.\<close>

definition spawnWindow :: int where
  "spawnWindow = 30 * 10 ^ 9 div 2"

record spawn_world =
  mobs :: "spawn_mob list"
  slots :: "nat \<Rightarrow> slot_entry list"
  pendingRespawns :: "(nat \<times> int) list"
  pendingSlotRespawns :: "(nat \<times> int \<times> nat option) list"

definition registerForRespawn :: "int \<Rightarrow> spawn_world \<Rightarrow> nat \<Rightarrow> int option \<Rightarrow> spawn_world" where
  "registerForRespawn now w p respawnTime =
     (let m = mobs w ! p in
      if \<not> m_AllowRespawn m \<or> in_instance m then w
      else let respawnAt = now + (case respawnTime of None \<Rightarrow> m_RespawnTime m | Some d \<Rightarrow> d)
           in case spawnSlot m of
                Some sl \<Rightarrow> w\<lparr>pendingSlotRespawns := AList.update sl
                  (respawnAt, if respawnTime \<noteq> None then Some (mob_id m) else None) (pendingSlotRespawns w)\<rparr>
              | None \<Rightarrow> w\<lparr>pendingRespawns := AList.update (mob_id m) respawnAt (pendingRespawns w)\<rparr>)"

definition unregister :: "spawn_world \<Rightarrow> nat \<Rightarrow> spawn_world" where
  "unregister w p =
     (case spawnSlot (mobs w ! p) of
        Some sl \<Rightarrow> w\<lparr>pendingSlotRespawns := AList.delete sl (pendingSlotRespawns w)\<rparr>
      | None \<Rightarrow> w\<lparr>pendingRespawns := AList.delete (mob_id (mobs w ! p)) (pendingRespawns w)\<rparr>)"

definition isRegistered :: "spawn_world \<Rightarrow> nat \<Rightarrow> bool" where
  "isRegistered w p =
     (case spawnSlot (mobs w ! p) of
        Some sl \<Rightarrow> map_of (pendingSlotRespawns w) sl \<noteq> None
      | None \<Rightarrow> map_of (pendingRespawns w) (mob_id (mobs w ! p)) \<noteq> None)"

definition getRemainingRespawnTime :: "int \<Rightarrow> spawn_world \<Rightarrow> nat \<Rightarrow> int option" where
  "getRemainingRespawnTime now w p =
     (case (case spawnSlot (mobs w ! p) of
              Some sl \<Rightarrow> map_option fst (map_of (pendingSlotRespawns w) sl)
            | None \<Rightarrow> map_of (pendingRespawns w) (mob_id (mobs w ! p))) of
        None \<Rightarrow> None
      | Some respawnAt \<Rightarrow> Some (if 0 < respawnAt - now then respawnAt - now else 0))"

definition GetEntity :: "spawn_mob list \<Rightarrow> nat \<Rightarrow> nat option" where
  "GetEntity ms t = find (\<lambda>p. targid (ms ! p) = t) [0..<length ms]"

text \<open>Whether a pending mob is kept, dropped, or dropped to be spawned.\<close>

datatype wave_result = Keep | Drop | SpawnIt nat

definition wave_entry :: "conditions \<Rightarrow> (spawn_mob \<Rightarrow> bool) \<Rightarrow> int \<Rightarrow> spawn_mob list \<Rightarrow> nat \<times> int \<Rightarrow> wave_result" where
  "wave_entry c lua_cancels threshold ms pair =
     (if threshold < snd pair then Keep
      else case GetEntity ms (fst pair mod 0x1000) of
             None \<Rightarrow> Drop
           | Some p \<Rightarrow> if \<not> canSpawnNow c (ms ! p) \<or> lua_cancels (ms ! p) then Keep else SpawnIt p)"

definition spawn_all :: "nat list \<Rightarrow> spawn_mob list \<Rightarrow> spawn_mob list" where
  "spawn_all ps ms = fold (\<lambda>p ms. ms[p := mob_Spawn (ms ! p)]) ps ms"

definition to_spawn :: "wave_result list \<Rightarrow> nat list" where
  "to_spawn rs = concat (map (\<lambda>r. case r of SpawnIt p \<Rightarrow> [p] | _ \<Rightarrow> []) rs)"

fun slot_wave :: "conditions \<Rightarrow> (nat \<Rightarrow> nat \<times> nat) \<Rightarrow> int \<Rightarrow> (nat \<Rightarrow> slot_entry list)
    \<Rightarrow> (nat \<times> int \<times> nat option) list \<Rightarrow> spawn_mob list \<Rightarrow> (nat \<times> int \<times> nat option) list \<times> spawn_mob list" where
  "slot_wave c rnd threshold sl [] ms = ([], ms)"
| "slot_wave c rnd threshold sl ((k, respawnAt, specific) # ps) ms =
     (if threshold < respawnAt
      then case slot_wave c rnd threshold sl ps ms of (ps', ms') \<Rightarrow> ((k, respawnAt, specific) # ps', ms')
      else case TrySpawn c (sl k) specific (fst (rnd k)) (snd (rnd k)) ms of
             (True, ms1) \<Rightarrow> slot_wave c rnd threshold sl ps ms1
           | (False, ms1) \<Rightarrow>
               (case slot_wave c rnd threshold sl ps ms1 of (ps', ms') \<Rightarrow> ((k, respawnAt, specific) # ps', ms')))"

definition Tick :: "conditions \<Rightarrow> (spawn_mob \<Rightarrow> bool) \<Rightarrow> (nat \<Rightarrow> nat \<times> nat) \<Rightarrow> int \<Rightarrow> spawn_world \<Rightarrow> spawn_world" where
  "Tick c lua_cancels rnd now w =
     (let threshold = now + spawnWindow;
          rs = map (wave_entry c lua_cancels threshold (mobs w)) (pendingRespawns w);
          kept = map fst (filter (\<lambda>(p, r). r = Keep) (zip (pendingRespawns w) rs));
          ms1 = spawn_all (to_spawn rs) (mobs w)
      in case slot_wave c rnd threshold (slots w) (pendingSlotRespawns w) ms1 of
           (ps', ms2) \<Rightarrow> w\<lparr>mobs := ms2, pendingRespawns := kept, pendingSlotRespawns := ps'\<rparr>)"

text \<open>Times of one millisecond and one second, in nanoseconds.\<close>

definition onTOTDChange :: "int \<Rightarrow> TOTD \<Rightarrow> spawn_mob list \<Rightarrow> spawn_mob list" where
  "onTOTDChange now t ms =
     (case t of
        NEWDAY \<Rightarrow> map (\<lambda>m. if bit (m_SpawnType m) SPAWNTYPE_ATNIGHT then SetDespawnTime now (10 ^ 6) m else m) ms
      | DAWN \<Rightarrow> map (\<lambda>m. if bit (m_SpawnType m) SPAWNTYPE_ATEVENING then SetDespawnTime now (10 ^ 6) m else m) ms
      | _ \<Rightarrow> ms)"

definition onWeatherChange :: "int \<Rightarrow> Weather \<Rightarrow> spawn_mob list \<Rightarrow> spawn_mob list" where
  "onWeatherChange now wt ms =
     map (\<lambda>m.
       if is_elemental m \<and> \<not> has_master m \<and> bit (m_SpawnType m) SPAWNTYPE_WEATHER
       then if m_Element m \<noteq> GetWeatherElement wt then SetDespawnTime now (10 ^ 9) m else m
       else if bit (m_SpawnType m) SPAWNTYPE_FOG
       then if wt \<noteq> Fog then SetDespawnTime now (10 ^ 9) m else m
       else m) ms"

section \<open>Facts on single operations\<close>

lemma canSpawnNow_allow: "canSpawnNow c m \<Longrightarrow> m_AllowRespawn m"
  by (simp add: canSpawnNow_def split: if_splits)

text \<open>What the conditions read does not change when a mob that meets them spawns.\<close>

definition same_rules :: "spawn_mob \<Rightarrow> spawn_mob \<Rightarrow> bool" where
  "same_rules m m' \<longleftrightarrow> m' = m\<lparr>alive := alive m', m_DespawnTimer := m_DespawnTimer m'\<rparr>"

lemma same_rules_refl [simp]: "same_rules m m"
  by (simp add: same_rules_def)

lemma same_rules_can: "same_rules m m' \<Longrightarrow> canSpawnNow c m' = canSpawnNow c m"
  by (cases m; cases m') (simp add: same_rules_def canSpawnNow_def)

lemma same_rules_trans: "same_rules a b \<Longrightarrow> same_rules b c \<Longrightarrow> same_rules a c"
  by (cases a; cases b; cases c) (simp add: same_rules_def)

lemma same_rules_Spawn: "m_AllowRespawn m \<Longrightarrow> same_rules m (mob_Spawn (m\<lparr>m_AllowRespawn := True\<rparr>))"
  by (cases m) (simp add: same_rules_def mob_Spawn_def)

lemma same_rules_plain: "same_rules m (mob_Spawn m)"
  by (cases m) (simp add: same_rules_def mob_Spawn_def)

text \<open>One list of mobs comes from another by spawning the mobs of a set that meet the conditions.\<close>

definition spawned :: "conditions \<Rightarrow> nat set \<Rightarrow> spawn_mob list \<Rightarrow> spawn_mob list \<Rightarrow> bool" where
  "spawned c S ms ms' \<longleftrightarrow> length ms' = length ms \<and>
     (\<forall>p < length ms. same_rules (ms ! p) (ms' ! p) \<and> (alive (ms ! p) \<longrightarrow> alive (ms' ! p)) \<and>
        (alive (ms' ! p) \<longrightarrow> alive (ms ! p) \<or> p \<in> S \<and> canSpawnNow c (ms ! p)))"

lemma spawned_refl [simp]: "spawned c S ms ms"
  by (simp add: spawned_def)

lemma spawnedD:
  "spawned c S ms ms' \<Longrightarrow> p < length ms \<Longrightarrow> same_rules (ms ! p) (ms' ! p) \<and> (alive (ms ! p) \<longrightarrow> alive (ms' ! p)) \<and>
     (alive (ms' ! p) \<longrightarrow> alive (ms ! p) \<or> p \<in> S \<and> canSpawnNow c (ms ! p))"
  by (simp add: spawned_def)

lemma spawned_length: "spawned c S ms ms' \<Longrightarrow> length ms' = length ms"
  by (simp add: spawned_def)

lemma spawned_trans:
  assumes "spawned c S ms ms1" "spawned c T ms1 ms2"
  shows "spawned c (S \<union> T) ms ms2"
  unfolding spawned_def
proof (intro conjI allI impI)
  fix p assume "p < length ms"
  note d = spawnedD[OF assms(1) this] spawnedD[OF assms(2), of p] spawned_length[OF assms(1)] \<open>p < length ms\<close>
  show "same_rules (ms ! p) (ms2 ! p)" using d same_rules_trans by auto
  show "alive (ms2 ! p)" if "alive (ms ! p)" using d that by auto
  show "alive (ms ! p) \<or> p \<in> S \<union> T \<and> canSpawnNow c (ms ! p)" if "alive (ms2 ! p)"
    using d that same_rules_can[of "ms ! p" "ms1 ! p" c] by auto
qed (use assms in \<open>simp add: spawned_def\<close>)

lemma spawned_one:
  assumes "canSpawnNow c (ms ! p)" "p \<in> S" "same_rules (ms ! p) m" "alive m"
  shows "spawned c S ms (ms[p := m])"
  unfolding spawned_def
proof (intro conjI allI impI)
  fix q assume q: "q < length ms"
  show "same_rules (ms ! q) (ms[p := m] ! q)" using assms(3) q by (cases "q = p") auto
  show "alive (ms[p := m] ! q)" if "alive (ms ! q)" using assms(4) q that by (cases "q = p") auto
  show "alive (ms ! q) \<or> q \<in> S \<and> canSpawnNow c (ms ! q)" if "alive (ms[p := m] ! q)"
    using assms(1,2) q that by (cases "q = p") auto
qed simp

lemma spawned_mono: "spawned c S ms ms' \<Longrightarrow> S \<subseteq> T \<Longrightarrow> spawned c T ms ms'"
  unfolding spawned_def by blast

lemma spawned_at:
  assumes "canSpawnNow c (ms ! p)" "p \<in> S"
  shows "spawned c S ms (spawn_at ms p)"
  unfolding spawn_at_def using assms same_rules_Spawn[OF canSpawnNow_allow[OF assms(1)]]
  by (intro spawned_one) (simp_all add: mob_Spawn_def)

lemma scan_entries_spec:
  assumes "scan_entries c ms es chance rest = Some (chance', rest')"
  shows "(\<forall>e \<in> set es. \<not> alive (ms ! fst e)) \<and>
    chance' = chance @ [(ch, p). (p, ch) \<leftarrow> es, canSpawnNow c (ms ! p) \<and> 0 < ch] \<and>
    rest' = rest @ [p. (p, ch) \<leftarrow> es, canSpawnNow c (ms ! p) \<and> \<not> 0 < ch]"
  using assms
  by (induction c ms es chance rest rule: scan_entries.induct) (auto split: if_splits)

lemma scan_entries_None:
  "scan_entries c ms es chance rest = None \<longleftrightarrow> (\<exists>e \<in> set es. alive (ms ! fst e))"
  by (induction c ms es chance rest rule: scan_entries.induct) auto

lemma pick_chance_mem: "pick_chance roll acc cs = Some p \<Longrightarrow> \<exists>ch. (ch, p) \<in> set cs"
  by (induction roll acc cs rule: pick_chance.induct) (auto split: if_splits)

lemma slot_choice_mem:
  assumes "slot_choice roll pick chance rest = Some p"
  shows "(\<exists>ch. (ch, p) \<in> set chance) \<or> p \<in> set rest"
  using assms pick_chance_mem
  by (fastforce simp: slot_choice_def Let_def split: option.splits if_splits)

lemma TrySpawn_spawned:
  "spawned c (fst ` set es) ms (snd (TrySpawn c es specific roll pick ms))"
proof (cases specific)
  case (Some i)
  show ?thesis
  proof (cases "find (\<lambda>e. mob_id (ms ! fst e) = i) es")
    case (Some e)
    obtain p ch where e: "e = (p, ch)" by (cases e)
    then have "p \<in> fst ` set es" using Some by (metis find_Some_iff fst_conv image_eqI nth_mem)
    then show ?thesis using Some \<open>specific = Some i\<close> e by (auto simp: TrySpawn_def intro: spawned_at)
  qed (simp add: TrySpawn_def \<open>specific = Some i\<close>)
next
  case None
  show ?thesis
  proof (cases "scan_entries c ms es [] []")
    case (Some r)
    obtain chance rest where r: "r = (chance, rest)" by (cases r)
    note sc = scan_entries_spec[OF Some[unfolded r]]
    have "canSpawnNow c (ms ! p) \<and> p \<in> fst ` set es" if "slot_choice roll pick chance rest = Some p" for p
      using slot_choice_mem[OF that] sc by (force split: if_splits)
    then show ?thesis using Some r None
      by (auto simp: TrySpawn_def intro: spawned_at split: option.splits)
  qed (simp add: TrySpawn_def None)
qed

section \<open>A wave\<close>

lemma spawn_all_spawned:
  assumes "\<forall>p \<in> set ps. p \<in> S \<and> canSpawnNow c (ms ! p)"
  shows "spawned c S ms (spawn_all ps ms)"
  using assms
proof (induction ps arbitrary: ms)
  case (Cons p ps)
  let ?ms = "ms[p := mob_Spawn (ms ! p)]"
  have one: "spawned c S ms ?ms"
    using Cons.prems same_rules_plain by (intro spawned_one) (simp_all add: mob_Spawn_def)
  have "canSpawnNow c (?ms ! q) = canSpawnNow c (ms ! q)" for q
    using same_rules_can[OF same_rules_plain, of c "ms ! q"]
    by (cases "q = p \<and> p < length ms") (auto simp: nth_list_update list_update_beyond)
  then have "spawned c S ?ms (spawn_all ps ?ms)" using Cons by simp
  from spawned_trans[OF one this] show ?case by (simp add: spawn_all_def)
qed (simp add: spawn_all_def)

lemma to_spawn_mem: "p \<in> set (to_spawn rs) \<longleftrightarrow> SpawnIt p \<in> set rs"
  by (auto simp: to_spawn_def split: wave_result.splits)

definition due_mobs :: "int \<Rightarrow> (nat \<Rightarrow> slot_entry list) \<Rightarrow> (nat \<times> int \<times> nat option) list \<Rightarrow> nat set" where
  "due_mobs threshold sl ps = {p. \<exists>(k, t, s) \<in> set ps. t \<le> threshold \<and> p \<in> fst ` set (sl k)}"

lemma due_mobs_Cons:
  "due_mobs threshold sl ((k, t, s) # ps) =
     (if threshold < t then {} else fst ` set (sl k)) \<union> due_mobs threshold sl ps"
  by (auto simp: due_mobs_def not_less)

lemma slot_wave_spawned:
  "spawned c (due_mobs threshold sl ps) ms (snd (slot_wave c rnd threshold sl ps ms))"
proof (induction ps arbitrary: ms)
  case (Cons e ps)
  obtain k t s where e: "e = (k, t, s)" by (cases e)
  show ?case
  proof (cases "threshold < t")
    case True
    then show ?thesis using Cons[of ms] e by (simp add: due_mobs_Cons split_beta)
  next
    case False
    obtain b ms1 where r: "TrySpawn c (sl k) s (fst (rnd k)) (snd (rnd k)) ms = (b, ms1)" by fastforce
    have "spawned c (fst ` set (sl k)) ms ms1"
      using TrySpawn_spawned[of c "sl k" ms s "fst (rnd k)" "snd (rnd k)"] r by simp
    from spawned_trans[OF this Cons[of ms1]] show ?thesis
      using False e r by (cases b) (simp_all add: due_mobs_Cons split_beta)
  qed
qed simp

lemma slot_wave_keeps:
  "e \<in> set ps \<Longrightarrow> threshold < fst (snd e) \<Longrightarrow> e \<in> set (fst (slot_wave c rnd threshold sl ps ms))"
proof (induction ps arbitrary: ms)
  case (Cons x ps)
  obtain k t s where x: "x = (k, t, s)" by (cases x)
  obtain b ms1 where r: "TrySpawn c (sl k) s (fst (rnd k)) (snd (rnd k)) ms = (b, ms1)" by fastforce
  show ?case using Cons.IH[of ms] Cons.IH[of ms1] Cons.prems x r
    by (cases b) (auto simp: split_beta)
qed simp

text \<open>
  C17: a wave makes a mob appear only if it was registered and due within fifteen seconds, by itself
  or through its slot, met its conditions of time, weather and respawning, and, outside a slot, the
  script did not object; a mob that was alive stays alive, and every registration that is not due
  stays pending.
\<close>
theorem Tick_spawns_only_due:
  assumes "w' = Tick c lua_cancels rnd now w" "p < length (mobs w)"
  shows "(alive (mobs w ! p) \<longrightarrow> alive (mobs w' ! p)) \<and>
    (alive (mobs w' ! p) \<and> \<not> alive (mobs w ! p) \<longrightarrow> canSpawnNow c (mobs w ! p) \<and>
       ((\<exists>(i, t) \<in> set (pendingRespawns w). t \<le> now + spawnWindow \<and> GetEntity (mobs w) (i mod 0x1000) = Some p \<and>
          \<not> lua_cancels (mobs w ! p)) \<or>
        (\<exists>(k, t, s) \<in> set (pendingSlotRespawns w). t \<le> now + spawnWindow \<and> p \<in> fst ` set (slots w k)))) \<and>
    (\<forall>e \<in> set (pendingRespawns w). now + spawnWindow < snd e \<longrightarrow> e \<in> set (pendingRespawns w')) \<and>
    (\<forall>e \<in> set (pendingSlotRespawns w). now + spawnWindow < fst (snd e) \<longrightarrow> e \<in> set (pendingSlotRespawns w'))"
proof -
  let ?th = "now + spawnWindow"
  let ?rs = "map (wave_entry c lua_cancels ?th (mobs w)) (pendingRespawns w)"
  let ?ms1 = "spawn_all (to_spawn ?rs) (mobs w)"
  let ?A = "{p. SpawnIt p \<in> set ?rs}"
  let ?B = "due_mobs ?th (slots w) (pendingSlotRespawns w)"
  obtain ps' ms2 where r: "slot_wave c rnd ?th (slots w) (pendingSlotRespawns w) ?ms1 = (ps', ms2)" by fastforce
  have w': "mobs w' = ms2" "pendingSlotRespawns w' = ps'"
    "pendingRespawns w' = map fst (filter (\<lambda>(p, r). r = Keep) (zip (pendingRespawns w) ?rs))"
    using assms(1) r by (simp_all add: Tick_def Let_def)
  have A: "canSpawnNow c (mobs w ! p) \<and> (\<exists>(i, t) \<in> set (pendingRespawns w). t \<le> ?th \<and>
      GetEntity (mobs w) (i mod 0x1000) = Some p \<and> \<not> lua_cancels (mobs w ! p))" if "p \<in> ?A" for p
  proof -
    from that obtain i t where "(i, t) \<in> set (pendingRespawns w)"
      "wave_entry c lua_cancels ?th (mobs w) (i, t) = SpawnIt p" by auto
    then show ?thesis by (auto simp: wave_entry_def split: if_splits option.splits intro!: bexI[of _ "(i, t)"])
  qed
  have "spawned c ?A (mobs w) ?ms1"
    using A by (intro spawn_all_spawned) (simp add: to_spawn_mem)
  from spawned_trans[OF this slot_wave_spawned[of c ?th "slots w" "pendingSlotRespawns w" ?ms1 rnd]] r
  have "spawned c (?A \<union> ?B) (mobs w) (mobs w')" by (simp add: w')
  note d = spawnedD[OF this assms(2)]
  have keep1: "e \<in> set (pendingRespawns w')" if "e \<in> set (pendingRespawns w)" "?th < snd e" for e
    unfolding w' using that by (force simp: zip_map2 in_set_zip in_set_conv_nth wave_entry_def)
  have keep2: "e \<in> set (pendingSlotRespawns w')" if "e \<in> set (pendingSlotRespawns w)" "?th < fst (snd e)" for e
    using slot_wave_keeps[OF that] r w' by (metis fst_conv)
  show ?thesis
    using d A keep1 keep2 unfolding due_mobs_def by blast
qed


definition day_mob :: spawn_mob where
  "day_mob = \<lparr>mob_id = 0x1001, targid = 1, alive = False, m_AllowRespawn = True, m_RespawnTime = 0,
     m_SpawnType = 0, is_elemental = False, has_master = False, m_Element = 0, in_instance = False,
     spawnSlot = Some 7, m_DespawnTimer = None\<rparr>"

definition night_mob :: spawn_mob where
  "night_mob = day_mob\<lparr>mob_id := 0x1002, targid := 2, m_SpawnType := 1\<rparr>"

definition sample_zone :: spawn_world where
  "sample_zone = \<lparr>mobs = [day_mob, night_mob], slots = (\<lambda>k. if k = 7 then [(0, 0), (1, 0)] else []),
     pendingRespawns = [], pendingSlotRespawns = [(7, 20 * 10 ^ 9, None)]\<rparr>"

theorem Tick_spawns_only_due_witness:
  "\<not> alive (mobs (Tick \<lparr>totd = NIGHT, weather = WNone\<rparr> (\<lambda>_. False) (\<lambda>_. (0, 1)) 0 sample_zone) ! 0) \<and>
   (7, 20 * 10 ^ 9, None) \<in> set (pendingSlotRespawns (Tick \<lparr>totd = NIGHT, weather = WNone\<rparr> (\<lambda>_. False) (\<lambda>_. (0, 1)) 0 sample_zone))"
  using Tick_spawns_only_due[OF refl, of 0 sample_zone "\<lparr>totd = NIGHT, weather = WNone\<rparr>" "\<lambda>_. False" "\<lambda>_. (0, 1)" 0]
  by (simp add: sample_zone_def spawnWindow_def day_mob_def)

section \<open>The odds of a slot\<close>

lemma pick_chance_split:
  assumes "p \<notin> snd ` set xs" "p \<notin> snd ` set ys" "acc \<le> roll"
  shows "pick_chance roll acc (xs @ (ch, p) # ys) = Some p \<longleftrightarrow>
    acc + sum_list (map fst xs) \<le> roll \<and> roll < acc + sum_list (map fst xs) + ch"
  using assms
proof (induction xs arbitrary: acc)
  case Nil
  then show ?case using pick_chance_mem[of roll "acc + ch" ys p] by force
next
  case (Cons x xs)
  then show ?case by (cases x) auto
qed

lemma spawn_at_alive:
  assumes "q < length ms" "p < length ms" "\<not> alive (ms ! p)"
  shows "alive (spawn_at ms q ! p) \<longleftrightarrow> q = p"
  using assms by (auto simp: spawn_at_def nth_list_update mob_Spawn_def)

definition ready_chances :: "conditions \<Rightarrow> spawn_mob list \<Rightarrow> slot_entry list \<Rightarrow> (nat \<times> nat) list" where
  "ready_chances c ms es = [(ch, p). (p, ch) \<leftarrow> es, canSpawnNow c (ms ! p) \<and> 0 < ch]"

definition ready_rest :: "conditions \<Rightarrow> spawn_mob list \<Rightarrow> slot_entry list \<Rightarrow> nat list" where
  "ready_rest c ms es = [p. (p, ch) \<leftarrow> es, canSpawnNow c (ms ! p) \<and> \<not> 0 < ch]"

lemma ready_split:
  assumes "distinct (map fst es)" "(p, ch) \<in> set es" "canSpawnNow c (ms ! p)" "0 < ch"
  shows "\<exists>xs ys. ready_chances c ms es = xs @ (ch, p) # ys \<and> p \<notin> snd ` set xs \<and> p \<notin> snd ` set ys \<and>
    p \<notin> set (ready_rest c ms es)"
proof -
  obtain as bs where es: "es = as @ (p, ch) # bs" using assms(2) by (metis split_list)
  then have "p \<notin> fst ` set as" "p \<notin> fst ` set bs" using assms(1) by auto
  then have "p \<notin> snd ` set (ready_chances c ms as)" "p \<notin> snd ` set (ready_chances c ms bs)"
    "p \<notin> set (ready_rest c ms es)"
    using es assms(4) by (force simp: ready_chances_def ready_rest_def split: if_splits)+
  moreover have "ready_chances c ms es = ready_chances c ms as @ (ch, p) # ready_chances c ms bs"
    using es assms(3,4) by (simp add: ready_chances_def)
  ultimately show ?thesis by blast
qed

text \<open>
  C23: in a slot none of whose mobs is alive, a mob with a spawn chance appears for exactly as many
  of the hundred rolls as its chance says, whatever the other mobs are, as long as the chances of
  the mobs that may spawn do not add up to more than a hundred.
\<close>
theorem spawn_chance_exact:
  assumes es: "distinct (map fst es)" "\<forall>e \<in> set es. fst e < length ms \<and> \<not> alive (ms ! fst e)"
    and p: "(p, ch) \<in> set es" "0 < ch" "canSpawnNow c (ms ! p)"
    and total: "sum_list (map fst (ready_chances c ms es)) \<le> 100"
  shows "card {roll \<in> {0..<100}. alive (snd (TrySpawn c es None roll pick ms) ! p)} = ch"
proof -
  obtain xs ys where sp: "ready_chances c ms es = xs @ (ch, p) # ys" "p \<notin> snd ` set xs" "p \<notin> snd ` set ys"
    "p \<notin> set (ready_rest c ms es)"
    using ready_split[OF es(1) p(1,3,2)] by blast
  let ?C = "ready_chances c ms es" and ?R = "ready_rest c ms es" and ?a = "sum_list (map fst xs)"
  have scan: "scan_entries c ms es [] [] = Some (?C, ?R)"
  proof -
    obtain r where "scan_entries c ms es [] [] = Some r"
      using es(2) scan_entries_None[of c ms es "[]" "[]"] by fastforce
    then show ?thesis using scan_entries_spec[of c ms es "[]" "[]" "fst r" "snd r"]
      by (simp add: ready_chances_def ready_rest_def prod_eq_iff)
  qed
  have range: "q < length ms" if "slot_choice roll pick ?C ?R = Some q" for q roll
    using slot_choice_mem[OF that] es(2) by (force simp: ready_chances_def ready_rest_def split: if_splits)
  have pl: "p < length ms" "\<not> alive (ms ! p)" using es(2) p(1) by auto
  have choice: "slot_choice roll pick ?C ?R = Some p \<longleftrightarrow> ?a \<le> roll \<and> roll < ?a + ch" for roll
  proof -
    have r: "?R = [] \<or> ?R ! (pick mod length ?R) \<noteq> p"
    proof (cases "?R = []")
      case False
      then have "?R ! (pick mod length ?R) \<in> set ?R" by (intro nth_mem) simp
      with sp(4) show ?thesis by metis
    qed simp
    have tot: "sum_list (map fst ?C) = ?a + ch + sum_list (map fst ys)" by (simp add: sp(1))
    have pick: "pick_chance roll 0 ?C = Some p \<longleftrightarrow> ?a \<le> roll \<and> roll < ?a + ch"
      using pick_chance_split[OF sp(2,3), of 0 roll ch] by (simp add: sp(1))
    show ?thesis
    proof (cases "roll < sum_list (map fst ?C)")
      case True
      then have "slot_choice roll pick ?C ?R = (case pick_chance roll 0 ?C of Some p \<Rightarrow> Some p
          | None \<Rightarrow> if ?R \<noteq> [] then Some (?R ! (pick mod length ?R)) else None)"
        by (simp add: slot_choice_def Let_def)
      with r pick show ?thesis by (cases "pick_chance roll 0 ?C") auto
    next
      case False
      then have "slot_choice roll pick ?C ?R = (if ?R \<noteq> [] then Some (?R ! (pick mod length ?R)) else None)"
        by (simp add: slot_choice_def Let_def)
      with r False tot show ?thesis by auto
    qed
  qed
  have al: "alive (snd (TrySpawn c es None roll pick ms) ! p) \<longleftrightarrow> ?a \<le> roll \<and> roll < ?a + ch" for roll
  proof (cases "slot_choice roll pick ?C ?R")
    case None
    then have "snd (TrySpawn c es None roll pick ms) = ms" by (simp add: TrySpawn_def scan)
    then show ?thesis using None choice[of roll] pl by simp
  next
    case (Some q)
    have "?C \<noteq> []" using sp(1) by simp
    then have "snd (TrySpawn c es None roll pick ms) = spawn_at ms q" using Some by (simp add: TrySpawn_def scan)
    then show ?thesis using Some choice[of roll] spawn_at_alive[OF range[OF Some] pl] by simp
  qed
  have "?a + ch \<le> 100" using total sp(1) by simp
  then have "{roll \<in> {0..<100}. alive (snd (TrySpawn c es None roll pick ms) ! p)} = {?a..<?a + ch}"
    unfolding al by auto
  then show ?thesis by simp
qed

theorem spawn_chance_exact_witness:
  "card {roll \<in> {0..<100}. alive (snd (TrySpawn \<lparr>totd = DAY, weather = WNone\<rparr> [(0, 30), (1, 5), (2, 0)]
     None roll 0 [day_mob, day_mob, day_mob]) ! 1)} = 5"
  by (rule spawn_chance_exact) (auto simp: day_mob_def canSpawnNow_def ready_chances_def)

section \<open>One mob of a slot at a time\<close>

text \<open>
  A respawn without a particular mob keeps at most one mob of a slot alive; but a respawn
  registered with an explicit time names its mob, and then the wave makes that mob appear even when
  another mob of the slot is alive.
\<close>
theorem specific_spawn_ignores_slot:
  assumes "p < length ms" "q < length ms" "p \<noteq> q" "{p, q} \<subseteq> fst ` set es" "alive (ms ! q)" "\<not> alive (ms ! p)"
    and "canSpawnNow c (ms ! p)" "\<forall>r < length ms. mob_id (ms ! r) = mob_id (ms ! p) \<longrightarrow> r = p"
    and "\<forall>e \<in> set es. fst e < length ms"
  shows "TrySpawn c es None roll pick ms = (False, ms) \<and>
    fst (TrySpawn c es (Some (mob_id (ms ! p))) roll pick ms) \<and>
    alive (snd (TrySpawn c es (Some (mob_id (ms ! p))) roll pick ms) ! p) \<and>
    alive (snd (TrySpawn c es (Some (mob_id (ms ! p))) roll pick ms) ! q)"
proof -
  have "scan_entries c ms es [] [] = None" using assms(4,5) by (force simp: scan_entries_None)
  then have one: "TrySpawn c es None roll pick ms = (False, ms)" by (simp add: TrySpawn_def)
  obtain e where e: "e \<in> set es" "fst e = p" using assms(4) by force
  then have "find (\<lambda>e. mob_id (ms ! fst e) = mob_id (ms ! p)) es \<noteq> None"
    by (metis (mono_tags, lifting) find_None_iff)
  then obtain e' where f: "find (\<lambda>e. mob_id (ms ! fst e) = mob_id (ms ! p)) es = Some e'" by auto
  then have "e' \<in> set es" "mob_id (ms ! fst e') = mob_id (ms ! p)" by (auto simp: find_Some_iff)
  then have "fst e' = p" using assms(8,9) by blast
  then have "TrySpawn c es (Some (mob_id (ms ! p))) roll pick ms = (True, spawn_at ms p)"
    using f assms(6,7) by (auto simp: TrySpawn_def split_beta)
  then show ?thesis using one assms(1-3,5)
    by (simp add: spawn_at_def mob_Spawn_def)
qed

theorem specific_spawn_ignores_slot_witness:
  "alive (snd (TrySpawn \<lparr>totd = NIGHT, weather = WNone\<rparr> [(0, 0), (1, 0)] (Some 0x1002) 0 0
     [day_mob\<lparr>alive := True\<rparr>, night_mob]) ! 0) \<and>
   alive (snd (TrySpawn \<lparr>totd = NIGHT, weather = WNone\<rparr> [(0, 0), (1, 0)] (Some 0x1002) 0 0
     [day_mob\<lparr>alive := True\<rparr>, night_mob]) ! 1)"
proof -
  let ?ms = "[day_mob\<lparr>alive := True\<rparr>, night_mob]"
  have "\<forall>r < length ?ms. mob_id (?ms ! r) = mob_id (?ms ! 1) \<longrightarrow> r = 1"
    by (auto simp: less_Suc_eq night_mob_def day_mob_def)
  then show ?thesis
    using specific_spawn_ignores_slot[of 1 ?ms 0 "[(0, 0), (1, 0)]" "\<lparr>totd = NIGHT, weather = WNone\<rparr>" 0 0]
    by (simp add: night_mob_def day_mob_def canSpawnNow_def SPAWNTYPE_ATEVENING_def SPAWNTYPE_WEATHER_def
        SPAWNTYPE_FOG_def bit_1_iff)
qed

section \<open>The end of the night\<close>

text \<open>
  C28: when the tick after at most one hour finds a mob no longer allowed by the time of day, the
  clock reports the new time of day, and the handler's reaction to it has the mob despawn a
  millisecond later.
\<close>
theorem night_mobs_leave:
  assumes t: "2 * vyear \<le> t" "t \<le> t'" "t' \<le> t + vhour" "t' < 2 ^ 31 * vyear" "t mod vhour \<noteq> 0" "t' mod vhour \<noteq> 0"
    and d: "get_totd t = Some d" "get_totd t' = Some d'"
    and m: "canSpawnNow \<lparr>totd = d, weather = wt\<rparr> m" "\<not> canSpawnNow \<lparr>totd = d', weather = wt\<rparr> m" "m \<in> set ms"
  shows "\<exists>es s'. vana_tick \<lparr>nextVHourlyUpdate = chrono_ceil vhour t, prevTotd = d\<rparr> t' = Some (es, s') \<and>
    TOTDChange d' \<in> set es \<and> SetDespawnTime now (10 ^ 6) m \<in> set (onTOTDChange now d' ms)"
proof -
  have hour: "get_hour x = Some (x div vhour mod 24)" if "2 * vyear \<le> x" "x < 2 ^ 31 * vyear" for x
    using rem_floor[of vhour 24 x] that unfolding get_hour_def by (simp add: vunits to_u32_id)
  let ?h = "t div vhour mod 24" and ?h' = "t' div vhour mod 24"
  have dd: "d = totd_of_hour ?h" "d' = totd_of_hour ?h'"
    using d t hour[of t] hour[of t'] by (auto simp: get_totd_def)
  have "d \<noteq> d'" using m by auto
  from totd_reported[OF t(1,2,4,5,6) d refl] this obtain es s'
    where "vana_tick \<lparr>nextVHourlyUpdate = chrono_ceil vhour t, prevTotd = d\<rparr> t' = Some (es, s')" "TOTDChange d' \<in> set es"
    by blast
  moreover have step: "?h' = ?h \<or> ?h' = (?h + 1) mod 24"
  proof -
    have u: "0 < vhour" by (simp add: vunits)
    have "t div vhour \<le> t' div vhour" "t' div vhour \<le> (t + vhour) div vhour"
      by (rule zdiv_mono1[OF t(2) u], rule zdiv_mono1[OF t(3) u])
    moreover have "(t + vhour) div vhour = t div vhour + 1" using u by simp
    ultimately have "t' div vhour = t div vhour \<or> t' div vhour = t div vhour + 1" by linarith
    then show ?thesis by (auto simp: mod_simps)
  qed
  moreover have "SetDespawnTime now (10 ^ 6) m \<in> set (onTOTDChange now d' ms)"
  proof -
    have ch: "d' = totd_of_hour ((?h + 1) mod 24)" using step dd \<open>d \<noteq> d'\<close> by auto
    have range: "?h \<in> {0..<24}" by simp
    have cases: "(d' = NEWDAY \<longrightarrow> d = MIDNIGHT) \<and> (d' = DAWN \<longrightarrow> d = NEWDAY) \<and> (d' = DAY \<longrightarrow> d = DAWN) \<and>
      (d' = DUSK \<longrightarrow> d = DAY) \<and> (d' = EVENING \<longrightarrow> d = DUSK) \<and> (d' = NIGHT \<longrightarrow> d = EVENING) \<and>
      (d' = MIDNIGHT \<longrightarrow> d = NIGHT) \<and> d' \<noteq> TOTD_NONE"
    proof -
      have all: "\<forall>h \<in> {0..<24 :: int}. totd_of_hour h \<noteq> totd_of_hour ((h + 1) mod 24) \<longrightarrow>
        (case totd_of_hour ((h + 1) mod 24) of NEWDAY \<Rightarrow> totd_of_hour h = MIDNIGHT | DAWN \<Rightarrow> totd_of_hour h = NEWDAY
          | DAY \<Rightarrow> totd_of_hour h = DAWN | DUSK \<Rightarrow> totd_of_hour h = DAY | EVENING \<Rightarrow> totd_of_hour h = DUSK
          | NIGHT \<Rightarrow> totd_of_hour h = EVENING | MIDNIGHT \<Rightarrow> totd_of_hour h = NIGHT | TOTD_NONE \<Rightarrow> False)"
        by code_simp
      show ?thesis
        using bspec[OF all range] \<open>d \<noteq> d'\<close> unfolding dd(1)[symmetric] ch[symmetric] by (cases d') simp_all
    qed
    show ?thesis using m cases by (cases d') (auto simp: canSpawnNow_def onTOTDChange_def split: if_splits)
  qed
  ultimately show ?thesis by blast
qed


theorem night_mobs_leave_witness:
  "\<exists>es s'. vana_tick \<lparr>nextVHourlyUpdate = chrono_ceil vhour (720 * vday + 3 * vhour + 1), prevTotd = MIDNIGHT\<rparr>
      (720 * vday + 4 * vhour + 1) = Some (es, s') \<and>
    TOTDChange NEWDAY \<in> set es \<and> SetDespawnTime 5 (10 ^ 6) night_mob \<in> set (onTOTDChange 5 NEWDAY [night_mob])"
  by (rule night_mobs_leave)
    (simp_all add: get_totd_def get_hour_def duration_rem_def chrono_floor_def crem_def to_u32_def vunits
      totd_of_hour_def canSpawnNow_def night_mob_def day_mob_def SPAWNTYPE_ATNIGHT_def SPAWNTYPE_ATEVENING_def
      SPAWNTYPE_WEATHER_def SPAWNTYPE_FOG_def bit_1_iff bit_0)

end
