(* ===== verification/Carrying.thy ===== *)
theory Carrying
  imports CharInventory
begin

text \<open>
  What a character carries, in order: every item agrees with its template and knows its slot, and
  the gil lies in the first cell.  Taking and adding keep that order and change the amounts by what
  was taken or added; the delivery box, trading, the shops and the auction house rest on it.
\<close>

section \<open>Bags in order\<close>

definition templates_ok :: "templates \<Rightarrow> bool" where
  "templates_ok T \<longleftrightarrow> (\<forall>ident tpl. spawn T ident = Some tpl \<longrightarrow>
     i_id tpl = ident \<and> ident \<noteq> 0 \<and> i_type tpl \<noteq> 0 \<and> i_reserve tpl = 0 \<and>
     (isType tpl ITEM_CURRENCY \<longleftrightarrow> ident = 0xFFFF) \<and> uint (i_stackSize tpl) < 2 ^ 31)"

text \<open>The items a player carries agree with their templates, and his gil is in its slot.\<close>

definition carried_ok :: "templates \<Rightarrow> item \<Rightarrow> bool" where
  "carried_ok T it \<longleftrightarrow> i_type it \<noteq> 0 \<and> i_quantity it \<le> i_stackSize it \<and> i_reserve it \<le> i_quantity it \<and>
     (\<exists>tpl. spawn T (i_id it) = Some tpl \<and> i_stackSize it = i_stackSize tpl \<and>
        i_flag it = i_flag tpl \<and> (isType it ITEM_CURRENCY \<longleftrightarrow> isType tpl ITEM_CURRENCY))"

definition char_ok :: "templates \<Rightarrow> character \<Rightarrow> bool" where
  "char_ok T ch \<longleftrightarrow> inventory_ok ch \<and> using_item ch = None \<and>
     (\<forall>l s it. GetItem s (storage ch l) = Some it \<longrightarrow> carried_ok T it \<and> i_slotID it = s) \<and>
     (\<exists>g. GetItem 0 (storage ch LOC_INVENTORY) = Some g \<and> i_id g = 0xFFFF)"

section \<open>The storages under taking and adding\<close>

lemma char_okD:
  assumes "char_ok T ch"
  shows "inventory_ok ch" "using_item ch = None"
    "\<And>l s it. GetItem s (storage ch l) = Some it \<Longrightarrow> carried_ok T it"
    "\<exists>g. GetItem 0 (storage ch LOC_INVENTORY) = Some g \<and> i_id g = 0xFFFF"
    "\<And>l s it. GetItem s (storage ch l) = Some it \<Longrightarrow> i_slotID it = s"
  using assms by (auto simp: char_ok_def)

lemma templates_okD:
  assumes "templates_ok T" "spawn T ident = Some tpl"
  shows "i_id tpl = ident" "ident \<noteq> 0" "i_type tpl \<noteq> 0" "i_reserve tpl = 0"
    "isType tpl ITEM_CURRENCY \<longleftrightarrow> ident = 0xFFFF" "uint (i_stackSize tpl) < 2 ^ 31"
  using assms by (auto simp: templates_ok_def)

lemma carried_okD:
  assumes "templates_ok T" "carried_ok T it"
  shows "uint (i_quantity it) \<le> uint (i_stackSize it)" "uint (i_stackSize it) < 2 ^ 31" "i_id it \<noteq> 0"
    "isType it ITEM_CURRENCY \<longleftrightarrow> i_id it = 0xFFFF"
  using assms templates_okD[OF assms(1)] unfolding carried_ok_def word_le_def by metis+

lemma carried_ok_setQuantity:
  "carried_ok T it \<Longrightarrow> i_reserve it \<le> q \<Longrightarrow> i_reserve it \<le> i_stackSize it \<Longrightarrow> carried_ok T (setQuantity q it)"
  by (auto simp: carried_ok_def setQuantity_def isType_def)

lemma LOC_INVENTORY_range: "LOC_INVENTORY < MAX_CONTAINER_ID"
  by (simp add: LOC_INVENTORY_def MAX_CONTAINER_ID_def)

text \<open>Changing one stack within its size, the gil included.\<close>

lemma UpdateItem_carried:
  assumes T: "templates_ok T" and ch: "char_ok T ch"
    and it: "GetItem s (storage ch LOC_INVENTORY) = Some it"
    and d: "0 \<le> uint (i_quantity it) + d" "uint (i_quantity it) + d \<le> uint (i_stackSize it)"
    and res: "uint (i_reserve it) \<le> uint (i_quantity it) + d"
  defines "newq \<equiv> i_quantity it + word_of_int d"
  shows "\<exists>ch'. UpdateItem LOC_INVENTORY s d False ch = (i_id it, ch') \<and> char_ok T ch' \<and>
    (\<forall>k. int (total_qty k ch') = int (total_qty k ch) + (if i_id it = k then d else 0)) \<and>
    (\<forall>l t. (l, t) \<noteq> (LOC_INVENTORY, s) \<longrightarrow> GetItem t (storage ch' l) = GetItem t (storage ch l)) \<and>
    GetItem s (storage ch' LOC_INVENTORY) =
      (if newq = 0 \<and> \<not> isType it ITEM_CURRENCY then None else Some (setQuantity newq it))"
proof -
  note c = char_okD[OF ch] and car = char_okD(3)[OF ch it]
  have r: "i_reserve it \<le> i_quantity it" using car by (simp add: carried_ok_def)
  note val = UpdateItem_value[OF it(1) c(2) d r, folded newq_def]
  have "i_reserve it \<le> newq" using res val(1) by (simp add: word_le_def)
  then have new: "carried_ok T (setQuantity newq it)" "i_slotID (setQuantity newq it) = s"
    using carried_ok_setQuantity[OF car] val(2) c(5)[OF it] by (auto simp: setQuantity_def)
  obtain g where g: "GetItem 0 (storage ch LOC_INVENTORY) = Some g" "i_id g = 0xFFFF" using c(4) by blast
  show ?thesis
  proof (cases "isType it ITEM_CURRENCY")
    case True
    let ?ch = "on_storage LOC_INVENTORY (set_cell s (Some (setQuantity newq it))) ch"
    note step = set_quantity_step[OF c(1) LOC_INVENTORY_range it val(1,2)]
    have u: "UpdateItem LOC_INVENTORY s d False ch = (i_id it, ?ch)" using val(3) True by simp
    have "\<exists>g. GetItem 0 (storage ?ch LOC_INVENTORY) = Some g \<and> i_id g = 0xFFFF"
      unfolding step(3) using g carried_okD(4)[OF T car] True by auto
    moreover have "carried_ok T x \<and> i_slotID x = t" if "GetItem t (storage ?ch l) = Some x" for l t x
      using that c(3,5) new unfolding step(3) by (auto split: if_splits)
    ultimately have "char_ok T ?ch"
      using step(1) c(2) unfolding char_ok_def by (auto simp del: storage_on_storage)
    moreover have "\<forall>l t. (l, t) \<noteq> (LOC_INVENTORY, s) \<longrightarrow> GetItem t (storage ?ch l) = GetItem t (storage ch l)"
      "GetItem s (storage ?ch LOC_INVENTORY) = Some (setQuantity newq it)"
      unfolding step(3) by auto
    ultimately show ?thesis
      using u step(2) True by (intro exI[of _ ?ch]) (simp del: storage_on_storage)
  next
    case False
    obtain ch' where ch': "UpdateItem LOC_INVENTORY s d False ch = (i_id it, ch')" "inventory_ok ch'"
      "using_item ch' = None"
      "\<forall>k. int (total_qty k ch') = int (total_qty k ch) + (if i_id it = k then d else 0)"
      "\<forall>l t. (l, t) \<noteq> (LOC_INVENTORY, s) \<longrightarrow> GetItem t (storage ch' l) = GetItem t (storage ch l)"
      "GetItem s (storage ch' LOC_INVENTORY) = (if newq = 0 then None else Some (setQuantity newq it))"
      unfolding newq_def using UpdateItem_step[OF c(1) LOC_INVENTORY_range c(2) it False d r] by blast
    have "isType g ITEM_CURRENCY" using carried_okD(4)[OF T c(3)[OF g(1)]] g(2) by simp
    with False it g have s0: "s \<noteq> 0" by (metis option.inject)
    have "carried_ok T x \<and> i_slotID x = t" if "GetItem t (storage ch' l) = Some x" for l t x
      using that c(3,5) new ch'(5,6) by (cases "(l, t) = (LOC_INVENTORY, s)") (auto split: if_splits)
    moreover have "GetItem 0 (storage ch' LOC_INVENTORY) = Some g" using g(1) ch'(5) s0 by auto
    ultimately have "char_ok T ch'" using ch'(2,3) g(2) unfolding char_ok_def by blast
    with ch'(1,4,5,6) False show ?thesis by (intro exI[of _ ch']) auto
  qed
qed

lemma UpdateItem_changes:
  assumes "templates_ok T" "char_ok T ch" "GetItem s (storage ch LOC_INVENTORY) = Some it"
    and "0 \<le> uint (i_quantity it) + d" "uint (i_quantity it) + d \<le> uint (i_stackSize it)" "i_reserve it = 0"
  shows "\<exists>ch'. UpdateItem LOC_INVENTORY s d False ch = (i_id it, ch') \<and> char_ok T ch' \<and>
    (\<forall>k. int (total_qty k ch') = int (total_qty k ch) + (if i_id it = k then d else 0))"
proof -
  have "uint (i_reserve it) \<le> uint (i_quantity it) + d" using assms(4,6) by simp
  from UpdateItem_carried[OF assms(1-5) this] show ?thesis by blast
qed

lemma AddItemObject_items:
  assumes "inventory_ok ch" "AddItemObject loc it db ch = (r, ch')" "\<not> isType it ITEM_CURRENCY"
    "GetItem t (storage ch' l) = Some x"
  shows "GetItem t (storage ch l) = Some x \<or> (\<exists>k. x = placed t k it)"
proof -
  let ?c = "storage ch loc"
  have ok: "store_ok ?c" using assms(1) by (simp add: inventory_ok_def)
  obtain s c where ins: "InsertItem (Some it) ?c = (s, c)" by fastforce
  have cells: "cell c u = cell ?c u \<or> (\<exists>k. cell c u = Some (placed u k it))" for u
  proof (cases "first_free_slot ?c")
    case None
    then show ?thesis using ins by (auto simp: InsertItem_def)
  next
    case (Some f)
    then show ?thesis using InsertItem_fills(4)[OF ok Some, of it u] ins by auto
  qed
  have size_c: "m_size c = m_size ?c" using m_size_ops(1)[of "Some it" ?c] ins by simp
  have okc: "store_ok c" using store_ok_InsertItem[OF ok, of "Some it"] ins by simp
  have in_c: "GetItem u c = Some y \<Longrightarrow> GetItem u ?c = Some y \<or> (\<exists>k. y = placed u k it)" for u y
    using cells[of u] by (auto simp: GetItem_cell size_c)
  from assms(2,3) consider "ch' = ch" | "ch' = on_storage loc (\<lambda>_. c) ch"
    | "ch' = on_storage loc (\<lambda>c. snd (RemoveItem s c)) (on_storage loc (\<lambda>_. c) ch)"
    by (auto simp: AddItemObject_def ins Let_def split: if_splits)
  then show ?thesis
    using assms(4) in_c GetItem_RemoveItem[OF okc, of t s] by cases (auto split: if_splits)
qed

text \<open>Adding what a box shows, of an item that is not gil: all of it or nothing.\<close>

lemma carried_ok_placed: "carried_ok T it \<Longrightarrow> carried_ok T (placed s k it)"
  by (auto simp: carried_ok_def placed_def isType_def)

lemma AddItem_item:
  assumes ch: "char_ok T ch" and it: "carried_ok T it" "\<not> isType it ITEM_CURRENCY"
  shows "\<exists>r ch'. AddItemObject LOC_INVENTORY it db ch = (r, ch') \<and> char_ok T ch' \<and>
    (\<forall>k. total_qty k ch' = total_qty k ch + (if r = ERROR_SLOTID then 0 else qty_of k it))"
proof -
  note c = char_okD[OF ch]
  obtain r ch' where a: "AddItemObject LOC_INVENTORY it db ch = (r, ch')" "inventory_ok ch'"
    "using_item ch' = using_item ch"
    "\<And>k. total_qty k ch' = total_qty k ch + (if r = ERROR_SLOTID then 0 else qty_of k it)"
    "\<And>l t x. GetItem t (storage ch l) = Some x \<Longrightarrow> GetItem t (storage ch' l) = Some x"
    using AddItemObject_step[OF c(1) LOC_INVENTORY_range it(2), of db] by metis
  have "carried_ok T x \<and> i_slotID x = t" if "GetItem t (storage ch' l) = Some x" for l t x
    using AddItemObject_items[OF c(1) a(1) it(2) that] c(3,5) carried_ok_placed[OF it(1)]
    by (auto simp: placed_def)
  then have "char_ok T ch'" using a c unfolding char_ok_def by metis
  with a(1,4) show ?thesis by blast
qed

text \<open>Adding gil: never more than what was shown, and all of it when the purse has room.\<close>

lemma AddItem_gil:
  assumes T: "templates_ok T" and ch: "char_ok T ch" and it: "carried_ok T it" "isType it ITEM_CURRENCY"
  shows "\<exists>ch'. AddItemObject LOC_INVENTORY it db ch = (0, ch') \<and> char_ok T ch' \<and>
    (\<forall>k. total_qty k ch' \<le> total_qty k ch + qty_of k it) \<and>
    (\<forall>g. GetItem 0 (storage ch LOC_INVENTORY) = Some g \<longrightarrow> i_reserve g = 0 \<longrightarrow>
       uint (i_quantity g) + uint (i_quantity it) \<le> uint (i_stackSize g) \<longrightarrow>
       (\<forall>k. total_qty k ch' = total_qty k ch + qty_of k it))"
proof -
  note c = char_okD[OF ch]
  obtain g where g: "GetItem 0 (storage ch LOC_INVENTORY) = Some g" "i_id g = 0xFFFF" using c(4) by blast
  have car: "carried_ok T g" by (rule c(3)[OF g(1)])
  note ci = carried_okD[OF T it(1)] and cg = carried_okD[OF T car]
  have same: "i_id it = i_id g" using ci(4) it(2) g(2) by simp
  let ?d = "uint (i_quantity it)" and ?q = "uint (i_quantity g)" and ?s = "uint (i_stackSize g)"
  have sint: "sint (i_quantity it) = ?d" using ci(1,2) by (intro sint_small) linarith
  define ch' where "ch' = snd (UpdateItem LOC_INVENTORY 0 ?d False ch)"
  have add: "AddItemObject LOC_INVENTORY it db ch = (0, ch')"
    using it(2) by (simp add: AddItemObject_def sint ch'_def)
  have exact: "char_ok T ch' \<and> (\<forall>k. total_qty k ch' = total_qty k ch + qty_of k it)"
    if room: "i_reserve g = 0" "?q + ?d \<le> ?s"
  proof -
    obtain c' where c': "UpdateItem LOC_INVENTORY 0 ?d False ch = (i_id g, c')" "char_ok T c'"
      "\<forall>k. int (total_qty k c') = int (total_qty k ch) + (if i_id g = k then ?d else 0)"
      using UpdateItem_changes[OF T ch g(1) _ room(2,1)] by auto
    have "total_qty k c' = total_qty k ch + qty_of k it" for k
      using spec[OF c'(3), of k] uint_qty_of[of k it] same by (auto split: if_splits)
    then show ?thesis using c'(1,2) by (simp add: ch'_def)
  qed
  have general: "char_ok T ch' \<and> (\<forall>k. total_qty k ch' \<le> total_qty k ch + qty_of k it)"
  proof (cases "i_stackSize g < i_quantity g - i_reserve g + i_quantity it")
    case True
    then have "ch' = ch" using g(1) by (simp add: ch'_def UpdateItem_def)
    then show ?thesis using ch by simp
  next
    case False
    let ?sum = "i_quantity g + i_quantity it"
    let ?n = "if i_stackSize g < ?sum then i_stackSize g else ?sum"
    have plus: "uint ?sum = ?q + ?d" using cg(1,2) ci(1,2) by (simp add: uint_word_ariths)
    have le: "?n \<le> i_stackSize g" by (auto simp: not_less)
    have val: "uint ?n = ?q + (uint ?n - ?q)" by simp
    note step = set_quantity_step[OF c(1) LOC_INVENTORY_range g(1) val le]
    have cur: "isType g ITEM_CURRENCY" using cg(4) g(2) by simp
    have ch'_eq: "ch' = on_storage LOC_INVENTORY (set_cell 0 (Some (setQuantity ?n g))) ch"
      using False g(1) c(2) cur by (simp add: ch'_def UpdateItem_def Let_def)
    have bound: "uint ?n - ?q \<le> ?d" using plus by (auto simp: word_less_def)
    have "int (total_qty k ch') \<le> int (total_qty k ch + qty_of k it)" for k
      using step(2)[of k] bound same uint_qty_of[of k it] unfolding ch'_eq by auto
    then have "\<forall>k. total_qty k ch' \<le> total_qty k ch + qty_of k it" by (simp only: of_nat_le_iff) simp
    moreover have "?q \<le> uint ?n" using plus cg(1) ci(1) by (auto simp: word_less_def)
    then have ge: "i_quantity g \<le> ?n" by (simp add: word_le_def)
    have res: "i_reserve g \<le> i_quantity g" using car by (simp add: carried_ok_def)
    have new: "carried_ok T (setQuantity ?n g)"
      by (rule carried_ok_setQuantity[OF car]) (use res ge le in \<open>auto intro: order_trans\<close>)
    have "carried_ok T x \<and> i_slotID x = t" if "GetItem t (storage ch' l) = Some x" for l t x
      using that c(3,5) new c(5)[OF g(1)] unfolding ch'_eq step(3) by (auto simp: setQuantity_def split: if_splits)
    moreover have "\<exists>g. GetItem 0 (storage ch' LOC_INVENTORY) = Some g \<and> i_id g = 0xFFFF"
      unfolding ch'_eq step(3) using g(2) by simp
    moreover have "inventory_ok ch'" "using_item ch' = None" using step(1) c(2) by (simp_all add: ch'_eq)
    ultimately show ?thesis unfolding char_ok_def by blast
  qed
  show ?thesis using add general exact g(1) by (intro exI[of _ ch']) auto
qed

lemma AddItem_shown:
  assumes T: "templates_ok T" and ch: "char_ok T ch" and it: "carried_ok T it"
  shows "\<exists>r ch'. AddItemObject LOC_INVENTORY it db ch = (r, ch') \<and> char_ok T ch' \<and>
    (\<forall>k. total_qty k ch' \<le> total_qty k ch + (if r = ERROR_SLOTID then 0 else qty_of k it)) \<and>
    ((\<forall>g. isType it ITEM_CURRENCY \<longrightarrow> GetItem 0 (storage ch LOC_INVENTORY) = Some g \<longrightarrow>
         i_reserve g = 0 \<and> uint (i_quantity g) + uint (i_quantity it) \<le> uint (i_stackSize g)) \<longrightarrow>
     (\<forall>k. total_qty k ch' = total_qty k ch + (if r = ERROR_SLOTID then 0 else qty_of k it)))"
proof (cases "isType it ITEM_CURRENCY")
  case True
  obtain g where "GetItem 0 (storage ch LOC_INVENTORY) = Some g" using char_okD(4)[OF ch] by blast
  moreover obtain ch' where "AddItemObject LOC_INVENTORY it db ch = (0, ch')" "char_ok T ch'"
    "\<forall>k. total_qty k ch' \<le> total_qty k ch + qty_of k it"
    "\<forall>g. GetItem 0 (storage ch LOC_INVENTORY) = Some g \<longrightarrow> i_reserve g = 0 \<longrightarrow>
       uint (i_quantity g) + uint (i_quantity it) \<le> uint (i_stackSize g) \<longrightarrow>
       (\<forall>k. total_qty k ch' = total_qty k ch + qty_of k it)"
    using AddItem_gil[OF T ch it True] by blast
  ultimately show ?thesis using True by (intro exI[of _ 0] exI[of _ ch']) (simp add: ERROR_SLOTID_def)
next
  case False
  show ?thesis using AddItem_item[OF ch it False, of db] by auto
qed

section \<open>A sample bag\<close>

definition potion :: item where
  "potion = (new_item 4096)\<lparr>i_type := ITEM_USABLE, i_stackSize := 12\<rparr>"

definition sample_templates :: templates where
  "sample_templates ident = (if ident = 4096 then Some potion else None)"

definition purse_of :: "nat \<Rightarrow> uint32 \<Rightarrow> item" where
  "purse_of s q = (setType ITEM_CURRENCY (new_item 0xFFFF))\<lparr>i_stackSize := 999999999, i_quantity := q,
     i_slotID := s, i_locationID := 0\<rparr>"

definition potions :: "nat \<Rightarrow> uint32 \<Rightarrow> item" where
  "potions s q = potion\<lparr>i_quantity := q, i_slotID := s, i_locationID := 0\<rparr>"

text \<open>Twenty pieces of gil, and five potions in the first slot.\<close>

definition sample_bag :: container where
  "sample_bag = \<lparr>m_id = 0, m_buff = 0, m_size = 5, m_count = 1,
     m_ItemList = Some (purse_of 0 20) # Some (potions 1 5) # replicate 119 None\<rparr>"

definition sample_char :: character where
  "sample_char = \<lparr>storage = (\<lambda>l. if l = 0 then sample_bag else new_container (of_nat l)), using_item = None\<rparr>"

lemma spawn_sample:
  "spawn sample_templates ident =
     (if ident = 0xFFFF then Some (purse_of 255 0\<lparr>i_locationID := 255\<rparr>)
      else if ident = 4096 then Some potion else None)"
  by (auto simp: spawn_def lookup_def clone_def sample_templates_def potion_def purse_of_def MAX_ITEMID_def
      ITEM_USABLE_def new_item_def setType_def)

lemma sample_types:
  "isType (purse_of s q) ITEM_CURRENCY" "isType (purse_of s q\<lparr>i_locationID := l\<rparr>) ITEM_CURRENCY"
  "\<not> isType potion ITEM_CURRENCY" "\<not> isType (potions s q) ITEM_CURRENCY"
  by (simp_all add: purse_of_def potions_def potion_def isType_def setType_def new_item_def ITEM_CURRENCY_def
      ITEM_USABLE_def)

lemma sample_templates_ok: "templates_ok sample_templates"
  unfolding templates_ok_def spawn_sample
  by (auto simp: sample_types)
    (auto simp: potion_def purse_of_def new_item_def setType_def ITEM_CURRENCY_def ITEM_USABLE_def)

lemma sample_bag_cells:
  "s \<le> 120 \<Longrightarrow> cell sample_bag s =
     (if s = 0 then Some (purse_of 0 20) else if s = 1 then Some (potions 1 5) else None)"
  by (auto simp: cell_def sample_bag_def nth_Cons' nth_replicate)

lemma sample_bag_fields: "m_size sample_bag = 5" "m_count sample_bag = 1" "length (m_ItemList sample_bag) = 121"
  by (simp_all add: sample_bag_def)

lemma sample_bag_ok: "store_ok sample_bag"
proof -
  have "occupied sample_bag = {1}" by (auto simp: occupied_def sample_bag_cells split: if_splits)
  then show ?thesis
    by (auto simp: store_ok_def wf_container_def tight_def sample_bag_cells sample_bag_fields)
qed

lemma sample_items:
  "GetItem s (storage sample_char l) =
     (if l = 0 \<and> s = 0 then Some (purse_of 0 20) else if l = 0 \<and> s = 1 then Some (potions 1 5) else None)"
proof (cases "l = 0")
  case True
  then show ?thesis using sample_bag_cells[of s] by (auto simp: GetItem_def sample_char_def sample_bag_fields)
next
  case False
  then show ?thesis
    by (simp add: GetItem_def sample_char_def new_container_def cell_def MAX_CONTAINER_SIZE_def)
qed

lemma sample_char_ok: "char_ok sample_templates sample_char"
proof -
  have "store_ok (new_container l)" for l
    using store_ok_new_container[of 0 l] by (simp add: SetSize_def new_container_def)
  then have "inventory_ok sample_char" using sample_bag_ok by (simp add: inventory_ok_def sample_char_def)
  moreover have "carried_ok sample_templates (purse_of 0 20)" "carried_ok sample_templates (potions 1 5)"
    by (simp_all add: carried_ok_def spawn_sample)
      (simp_all add: purse_of_def potions_def potion_def new_item_def setType_def isType_def
        ITEM_CURRENCY_def ITEM_USABLE_def)
  ultimately show ?thesis
    by (auto simp: char_ok_def sample_items LOC_INVENTORY_def split: if_splits)
      (simp_all add: sample_char_def purse_of_def potions_def setType_def new_item_def)
qed

section \<open>What others see of a bag\<close>

abbreviation bag :: "character \<Rightarrow> nat \<Rightarrow> item option" where
  "bag ch s \<equiv> GetItem s (storage ch LOC_INVENTORY)"

abbreviation free_cells :: "character \<Rightarrow> nat" where
  "free_cells ch \<equiv> unat (GetFreeSlotsCount (storage ch LOC_INVENTORY))"

lemma SearchItem_found:
  assumes "store_ok c"
  shows "SearchItem k c \<noteq> ERROR_SLOTID \<longleftrightarrow> (\<exists>s it. GetItem s c = Some it \<and> i_id it = k)"
proof -
  have "wf_container c" using assms by (simp add: store_ok_def)
  from SearchItem_first[OF this, of k] show ?thesis
    by (auto simp: GetItem_def holds_id_def split: option.splits)
qed

lemma HasItem_iff:
  assumes "inventory_ok ch"
  shows "HasItem k ch \<longleftrightarrow> k \<noteq> 0 \<and> (\<exists>l < MAX_CONTAINER_ID. \<exists>s it. GetItem s (storage ch l) = Some it \<and> i_id it = k)"
proof -
  have "store_ok (storage ch l)" for l using assms by (simp add: inventory_ok_def)
  from SearchItem_found[OF this] show ?thesis
    unfolding HasItem_def by (simp add: Bex_def)
qed

lemma free_set_cell [simp]: "GetFreeSlotsCount (set_cell s v c) = GetFreeSlotsCount c"
  by (simp add: GetFreeSlotsCount_def)

lemma free_RemoveItem:
  assumes "store_ok c"
  shows "unat (GetFreeSlotsCount c) \<le> unat (GetFreeSlotsCount (snd (RemoveItem s c)))"
proof -
  let ?c = "snd (RemoveItem s c)"
  have ok: "store_ok ?c" by (rule store_ok_RemoveItem[OF assms])
  have size_c: "m_size ?c = m_size c" by simp
  have "cell ?c t = None" if "cell c t = None" "t \<in> {1..unat (m_size c)}" for t
    using that GetItem_RemoveItem[OF assms, of t s] size_c by (auto simp: GetItem_def split: if_splits)
  then show ?thesis
    using assms ok free_slots_tight[of c] free_slots_tight[of ?c] size_c
    by (auto simp: store_ok_def intro!: card_mono)
qed

lemma free_InsertItem:
  assumes "store_ok c"
  shows "unat (GetFreeSlotsCount c) - 1 \<le> unat (GetFreeSlotsCount (snd (InsertItem p c)))"
proof (cases "unat (GetFreeSlotsCount c) = 0 \<or> p = None")
  case True
  then show ?thesis by (auto simp: InsertItem_def)
next
  case False
  then obtain it where "p = Some it" by auto
  then show ?thesis using False containers.ins_free[OF assms, of it] by simp
qed

lemma UpdateItem_free:
  assumes "inventory_ok ch"
  shows "free_cells ch \<le> free_cells (snd (UpdateItem loc s d f ch))"
proof -
  have "store_ok (storage ch l)" for l using assms by (simp add: inventory_ok_def)
  then show ?thesis
    using free_RemoveItem[of "storage ch LOC_INVENTORY" s]
    by (auto simp: UpdateItem_def Let_def split: option.split)
qed

lemma AddItemObject_free:
  assumes "inventory_ok ch"
  shows "free_cells ch - 1 \<le> free_cells (snd (AddItemObject loc it db ch))"
proof (cases "isType it ITEM_CURRENCY \<or> (hasFlag it FLAG_RARE \<and> HasItem (i_id it) ch)")
  case True
  then show ?thesis
    using UpdateItem_free[OF assms, of loc 0 "sint (i_quantity it)" False]
    by (auto simp: AddItemObject_def)
next
  case False
  let ?c = "storage ch loc"
  have ok: "store_ok ?c" using assms by (simp add: inventory_ok_def)
  obtain s c where ins: "InsertItem (Some it) ?c = (s, c)" by fastforce
  have "unat (GetFreeSlotsCount ?c) - 1 \<le> unat (GetFreeSlotsCount c)" "store_ok c"
    using free_InsertItem[OF ok, of "Some it"] store_ok_InsertItem[OF ok, of "Some it"] ins by auto
  moreover from this(2) have "unat (GetFreeSlotsCount c) \<le> unat (GetFreeSlotsCount (snd (RemoveItem s c)))"
    by (rule free_RemoveItem)
  ultimately show ?thesis
    using False by (auto simp: AddItemObject_def ins Let_def)
qed

text \<open>The same item with another quantity.\<close>

definition restocked :: "item \<Rightarrow> item \<Rightarrow> bool" where
  "restocked x y \<longleftrightarrow> (\<exists>q. y = x\<lparr>i_quantity := q\<rparr>)"

lemma restocked_refl [simp]: "restocked x x"
  unfolding restocked_def by (rule exI[of _ "i_quantity x"]) simp

lemma restocked_setQuantity [simp]: "restocked x (setQuantity q x)"
  by (auto simp: restocked_def setQuantity_def)

lemma restocked_trans: "restocked x y \<Longrightarrow> restocked y z \<Longrightarrow> restocked x z"
  by (auto simp: restocked_def)

lemma restocked_fields:
  assumes "restocked x y"
  shows "i_id y = i_id x" "i_reserve y = i_reserve x" "i_flag y = i_flag x" "i_stackSize y = i_stackSize x"
    "i_type y = i_type x" "i_slotID y = i_slotID x" "i_subtype y = i_subtype x" "hasFlag y f = hasFlag x f"
  using assms by (auto simp: restocked_def hasFlag_def)

text \<open>A bag into which some of one kind of item may have been put, and one that gave from a cell.\<close>

definition received :: "templates \<Rightarrow> nat \<Rightarrow> int \<Rightarrow> character \<Rightarrow> character \<Rightarrow> bool" where
  "received T i n ch ch' \<longleftrightarrow> char_ok T ch' \<and> free_cells ch - 1 \<le> free_cells ch' \<and>
     (\<forall>s x. bag ch s = Some x \<longrightarrow> (\<exists>y. bag ch' s = Some y \<and> restocked x y)) \<and>
     (\<forall>g g'. bag ch 0 = Some g \<longrightarrow> bag ch' 0 = Some g' \<longrightarrow>
        uint (i_quantity g') \<le> uint (i_quantity g) + (if i = 0xFFFF then n else 0)) \<and>
     (\<forall>j. HasItem j ch' \<longrightarrow> HasItem j ch \<or> j = i)"

definition gave :: "templates \<Rightarrow> nat \<Rightarrow> character \<Rightarrow> character \<Rightarrow> bool" where
  "gave T s ch ch' \<longleftrightarrow> char_ok T ch' \<and> free_cells ch \<le> free_cells ch' \<and>
     (\<forall>t. t \<noteq> s \<longrightarrow> bag ch' t = bag ch t) \<and>
     (\<forall>x. bag ch' s = Some x \<longrightarrow> (\<exists>y. bag ch s = Some y \<and> restocked y x \<and> i_quantity x \<le> i_quantity y)) \<and>
     (\<forall>j. HasItem j ch' \<longrightarrow> HasItem j ch)"

lemma received_refl: "char_ok T ch \<Longrightarrow> 0 \<le> n \<Longrightarrow> received T i n ch ch"
  by (auto simp: received_def)


text \<open>Taking from a cell and adding, seen this way.\<close>

lemma UpdateItem_gave:
  assumes T: "templates_ok T" and ch: "char_ok T ch" and it: "bag ch s = Some it"
    and q: "uint (i_reserve it) + uint (q :: uint32) \<le> uint (i_quantity it)"
  shows "\<exists>ch'. UpdateItem LOC_INVENTORY s (- uint q) False ch = (i_id it, ch') \<and> gave T s ch ch' \<and>
    (\<forall>k. int (total_qty k ch') = int (total_qty k ch) - (if i_id it = k then uint q else 0))"
proof -
  let ?d = "- uint q"
  have d: "0 \<le> uint (i_quantity it) + ?d" "uint (i_quantity it) + ?d \<le> uint (i_stackSize it)"
    "uint (i_reserve it) \<le> uint (i_quantity it) + ?d"
    using q carried_okD(1)[OF T char_okD(3)[OF ch it]] uint_ge_0[of q] uint_ge_0[of "i_reserve it"] by linarith+
  obtain ch' where u: "UpdateItem LOC_INVENTORY s ?d False ch = (i_id it, ch')" "char_ok T ch'"
    "\<forall>k. int (total_qty k ch') = int (total_qty k ch) + (if i_id it = k then ?d else 0)"
    "\<forall>l t. (l, t) \<noteq> (LOC_INVENTORY, s) \<longrightarrow> GetItem t (storage ch' l) = GetItem t (storage ch l)"
    "bag ch' s = (if i_quantity it + word_of_int ?d = 0 \<and> \<not> isType it ITEM_CURRENCY then None
       else Some (setQuantity (i_quantity it + word_of_int ?d) it))"
    using UpdateItem_carried[OF T ch it d] by blast
  have same: "\<exists>t y. GetItem t (storage ch l) = Some y \<and> i_id y = i_id x"
    if "GetItem t (storage ch' l) = Some x" for l t x
  proof (cases "(l, t) = (LOC_INVENTORY, s)")
    case True
    then have "i_id x = i_id it" using that u(5) by (auto split: if_splits)
    then show ?thesis using True it by auto
  next
    case False
    then show ?thesis using that u(4) by auto
  qed
  have "HasItem j ch" if "HasItem j ch'" for j
    using that same unfolding HasItem_iff[OF char_okD(1)[OF ch]] HasItem_iff[OF char_okD(1)[OF u(2)]] by metis
  moreover have "free_cells ch \<le> free_cells ch'"
    using UpdateItem_free[OF char_okD(1)[OF ch], of LOC_INVENTORY s ?d False] u(1) by simp
  moreover have "restocked it x \<and> i_quantity x \<le> i_quantity it" if "bag ch' s = Some x" for x
  proof -
    have "i_quantity it + word_of_int ?d \<le> i_quantity it"
    proof -
      have "uint (i_quantity it) < 2 ^ 32" using uint_bounded[of "i_quantity it"] by simp
      then have "uint (i_quantity it) + ?d < 2 ^ 32" using uint_ge_0[of q] by linarith
      from uint_add_int[OF d(1) this] show ?thesis
        unfolding word_le_def using uint_ge_0[of q] by linarith
    qed
    then show ?thesis using that u(5) by (auto simp: min_def split: if_splits)
  qed
  ultimately have "gave T s ch ch'" using u(2,4) it by (simp add: gave_def)
  with u(1,3) show ?thesis by auto
qed

lemma AddItemObject_received:
  assumes T: "templates_ok T" and ch: "char_ok T ch" and it: "carried_ok T it"
  shows "received T (i_id it) (uint (i_quantity it)) ch (snd (AddItemObject LOC_INVENTORY it db ch))"
proof -
  obtain r ch' where a: "AddItemObject LOC_INVENTORY it db ch = (r, ch')" "char_ok T ch'"
    using AddItem_shown[OF T ch it, of db] by blast
  note c = char_okD[OF ch]
  have free: "free_cells ch - 1 \<le> free_cells ch'" using AddItemObject_free[OF c(1), of LOC_INVENTORY it db] a(1) by simp
  show ?thesis
  proof (cases "isType it ITEM_CURRENCY")
    case False
    have keep: "GetItem t (storage ch' l) = Some x" if "GetItem t (storage ch l) = Some x" for l t x
      using AddItemObject_step[OF c(1) LOC_INVENTORY_range False, of db] a(1) that by (metis prod.inject)
    have "HasItem j ch \<or> j = i_id it" if "HasItem j ch'" for j
      using that AddItemObject_items[OF c(1) a(1) False]
      unfolding HasItem_iff[OF c(1)] HasItem_iff[OF char_okD(1)[OF a(2)]] by (metis i_id_setters(3))
    moreover have "uint (i_quantity g') \<le> uint (i_quantity g) + (if i_id it = 0xFFFF then uint (i_quantity it) else 0)"
      if "bag ch 0 = Some g" "bag ch' 0 = Some g'" for g g'
      using that keep[OF that(1)] by simp
    ultimately show ?thesis using a keep free by (auto simp: received_def)
  next
    case True
    obtain g where g: "bag ch 0 = Some g" "i_id g = 0xFFFF" using c(4) by blast
    have same: "i_id it = i_id g" using carried_okD(4)[OF T it] True g(2) by simp
    note cg = carried_okD[OF T c(3)[OF g(1)]] and ci = carried_okD[OF T it]
    have sum: "uint (i_quantity g + i_quantity it) = uint (i_quantity g) + uint (i_quantity it)"
      using cg(1,2) ci(1,2) by (simp add: uint_word_ariths)
    have sint: "sint (i_quantity it) = uint (i_quantity it)"
      using ci(1,2) by (intro sint_small) linarith
    have cells: "storage ch' l = storage ch l \<or>
      (\<exists>q. l = LOC_INVENTORY \<and> storage ch' l = set_cell 0 (Some (setQuantity q g)) (storage ch l) \<and>
         uint q \<le> uint (i_quantity g) + uint (i_quantity it))" for l
    proof -
      have cur: "isType g ITEM_CURRENCY" using cg(4) g(2) by simp
      have "ch' = snd (UpdateItem LOC_INVENTORY 0 (uint (i_quantity it)) False ch)"
        using a(1) True by (simp add: AddItemObject_def sint)
      then show ?thesis using g(1) cur sum by (auto simp: UpdateItem_def Let_def word_less_def)
    qed
    have ok: "store_ok (storage ch LOC_INVENTORY)" using c(1) by (simp add: inventory_ok_def)
    have z: "0 \<le> unat (m_size (storage ch LOC_INVENTORY))" by simp
    have up: "\<exists>y. GetItem t (storage ch' l) = Some y \<and> restocked x y" if "GetItem t (storage ch l) = Some x" for l t x
      using cells[of l] that g(1) GetItem_set_cell[OF ok z] by auto
    have down: "\<exists>y. GetItem t (storage ch l) = Some y \<and> i_id y = i_id x" if "GetItem t (storage ch' l) = Some x" for l t x
      using cells[of l] that g(1) GetItem_set_cell[OF ok z] by (auto split: if_splits)
    have "HasItem j ch" if "HasItem j ch'" for j
      using that down unfolding HasItem_iff[OF c(1)] HasItem_iff[OF char_okD(1)[OF a(2)]] by metis
    moreover have "uint (i_quantity x') \<le> uint (i_quantity x) + (if i_id it = 0xFFFF then uint (i_quantity it) else 0)"
      if "bag ch 0 = Some x" "bag ch' 0 = Some x'" for x x'
    proof -
      have "x = g" "i_id it = 0xFFFF" using that(1) g same by simp_all
      then show ?thesis
        using cells[of LOC_INVENTORY] that(2) g(1) GetItem_set_cell[OF ok z] by (auto simp: min_def word_le_def)
    qed
    ultimately show ?thesis using a up free by (auto simp: received_def)
  qed
qed

text \<open>When an item arrives: there is room, its row is stored, a rare one is new, gil fits.\<close>

definition arrives :: "item \<Rightarrow> bool \<Rightarrow> character \<Rightarrow> bool" where
  "arrives it db ch \<longleftrightarrow>
     (if isType it ITEM_CURRENCY
      then (\<forall>g. bag ch 0 = Some g \<longrightarrow> uint (i_quantity g) + uint (i_quantity it) \<le> uint (i_stackSize g))
      else 0 < free_cells ch \<and> db \<and> \<not> (hasFlag it FLAG_RARE \<and> HasItem (i_id it) ch))"

lemma AddItemObject_amount:
  assumes T: "templates_ok T" and ch: "char_ok T ch" and it: "carried_ok T it"
  shows "total_qty k (snd (AddItemObject LOC_INVENTORY it db ch)) \<le> total_qty k ch + qty_of k it"
    "arrives it db ch \<Longrightarrow> total_qty k (snd (AddItemObject LOC_INVENTORY it db ch)) = total_qty k ch + qty_of k it"
proof -
  obtain r ch' where a: "AddItemObject LOC_INVENTORY it db ch = (r, ch')"
    "\<forall>k. total_qty k ch' \<le> total_qty k ch + (if r = ERROR_SLOTID then 0 else qty_of k it)"
    using AddItem_shown[OF T ch it, of db] by blast
  show "total_qty k (snd (AddItemObject LOC_INVENTORY it db ch)) \<le> total_qty k ch + qty_of k it"
    using spec[OF a(2), of k] a(1) by (auto split: if_splits)
  assume arr: "arrives it db ch"
  show "total_qty k (snd (AddItemObject LOC_INVENTORY it db ch)) = total_qty k ch + qty_of k it"
  proof (cases "isType it ITEM_CURRENCY")
    case True
    obtain g where g: "bag ch 0 = Some g" "i_id g = 0xFFFF" using char_okD(4)[OF ch] by blast
    note cg = char_okD(3)[OF ch g(1)]
    have same: "i_id it = i_id g" using carried_okD(4)[OF T it] True g(2) by simp
    have fits: "uint (i_quantity g) + uint (i_quantity it) \<le> uint (i_stackSize g)"
      using arr True g(1) by (simp add: arrives_def)
    have sint: "sint (i_quantity it) = uint (i_quantity it)"
      using carried_okD(1,2)[OF T it] by (intro sint_small) linarith
    have "uint (i_reserve g) \<le> uint (i_quantity g)" using cg by (simp add: carried_ok_def word_le_def)
    then have res: "uint (i_reserve g) \<le> uint (i_quantity g) + uint (i_quantity it)"
      using uint_ge_0[of "i_quantity it"] by linarith
    have "int (total_qty k (snd (UpdateItem LOC_INVENTORY 0 (uint (i_quantity it)) False ch))) =
        int (total_qty k ch) + (if i_id g = k then uint (i_quantity it) else 0)"
    proof -
      have "0 \<le> uint (i_quantity g) + uint (i_quantity it)" by simp
      from UpdateItem_carried[OF T ch g(1) this fits res] obtain c' where
        "UpdateItem LOC_INVENTORY 0 (uint (i_quantity it)) False ch = (i_id g, c')"
        "\<forall>k. int (total_qty k c') = int (total_qty k ch) + (if i_id g = k then uint (i_quantity it) else 0)"
        by blast
      then show ?thesis by simp
    qed
    then show ?thesis
      using True same uint_qty_of[of k it] by (simp add: AddItemObject_def sint split: if_splits)
  next
    case False
    note c = char_okD[OF ch]
    obtain r' ch'' where b: "AddItemObject LOC_INVENTORY it db ch = (r', ch'')"
      "\<And>k. total_qty k ch'' = total_qty k ch + (if r' = ERROR_SLOTID then 0 else qty_of k it)"
      using AddItemObject_step[OF c(1) LOC_INVENTORY_range False, of db] by metis
    have ok: "store_ok (storage ch LOC_INVENTORY)" using c(1) by (simp add: inventory_ok_def)
    have "fst (InsertItem (Some it) (storage ch LOC_INVENTORY)) \<noteq> ERROR_SLOTID"
      using containers.ins_free[OF ok, of it] arr False by (simp add: arrives_def ERROR_SLOTID_def)
    then have "r' \<noteq> ERROR_SLOTID"
      using b(1) arr False by (auto simp: AddItemObject_def arrives_def case_prod_unfold Let_def split: if_splits)
    with b show ?thesis by simp
  qed
qed

end
