(* ===== verification/Trade.thy ===== *)
theory Trade
  imports Carrying Exchange
begin

text \<open>
  Trading between players: the handlers of the three packets of the trade window
  (\<open>src/map/packets/c2s/0x032_trade_req.cpp\<close>, \<open>0x033_trade_res.cpp\<close>, \<open>0x034_trade_list.cpp\<close>)
  and \<open>CanTrade\<close> and \<open>DoTrade\<close> of \<open>src/map/utils/charutils.cpp\<close>.

  Each of two players has a universal container whose slots point to items of his own inventory.
  A pointer is the number of the cell the item lies in: between these packets the inventories
  are taken to change by trading only, so a pointer is good while the cell is filled and
  dangling once the trade has emptied it.  Following a dangling pointer is \<^term>\<open>None\<close>.
  The players are a function of their character identifiers; where they stand, what they are
  doing and the time come with each packet.  \<open>db s\<close> says whether the statement that stores the
  item of trade slot \<open>s\<close> succeeds.  Answers to the clients and the audit table are left out.
\<close>

section \<open>Players who trade\<close>

record trader =
  td_char :: character
  td_window :: "nat ucontainer"
  td_targid :: nat
  td_pending_id :: nat
  td_pending_targid :: nat
  td_invited :: int

type_synonym traders = "nat \<Rightarrow> trader"

text \<open>
  The surroundings of a packet: the player with a target identifier in the zone of the sender,
  who is a monstrosity, jailed or crafting, who blocks whom, how far apart and in which mog house
  two players are, whether the linkshell in a slot is one the sender has equipped, and the time
  in milliseconds.
\<close>

record trade_env =
  te_zone :: "nat \<Rightarrow> nat option"
  te_monstrosity :: "nat \<Rightarrow> bool"
  te_jailed :: "nat \<Rightarrow> bool"
  te_crafting :: "nat \<Rightarrow> bool"
  te_aid_blocked :: "nat \<Rightarrow> nat \<Rightarrow> bool"
  te_apart :: "nat \<Rightarrow> nat \<Rightarrow> bool"
  te_equipped :: "nat \<Rightarrow> bool"
  te_now :: int

definition GetEntity :: "trade_env \<Rightarrow> nat \<Rightarrow> nat option" where
  "GetEntity e targid = (if targid = 0 then None else te_zone e targid)"

definition in_bag :: "trader \<Rightarrow> nat \<Rightarrow> item option" where
  "in_bag p s = GetItem s (storage (td_char p) LOC_INVENTORY)"

definition set_reserve :: "nat \<Rightarrow> uint32 \<Rightarrow> trader \<Rightarrow> trader option" where
  "set_reserve s r p =
     (case in_bag p s of
        None \<Rightarrow> None
      | Some it \<Rightarrow>
          Some (p\<lparr>td_char := on_storage LOC_INVENTORY (set_cell s (Some (setReserve r it))) (td_char p)\<rparr>))"

definition on_window :: "(nat ucontainer \<Rightarrow> nat ucontainer) \<Rightarrow> trader \<Rightarrow> trader" where
  "on_window f p = p\<lparr>td_window := f (td_window p)\<rparr>"

definition clean_pending :: "trader \<Rightarrow> trader" where
  "clean_pending p = p\<lparr>td_pending_id := 0, td_pending_targid := 0\<rparr>"

definition cleanTradeTargets :: "nat \<Rightarrow> nat \<Rightarrow> traders \<Rightarrow> traders" where
  "cleanTradeTargets a b W = (let W1 = W(a := clean_pending (W a)) in W1(b := clean_pending (W1 b)))"

text \<open>\<open>CUContainer::Clean\<close> of a container that serves a trade releases what it points to.\<close>

fun release_offers :: "nat option list \<Rightarrow> trader \<Rightarrow> trader option" where
  "release_offers [] p = Some p"
| "release_offers (None # ps) p = release_offers ps p"
| "release_offers (Some s # ps) p =
     (case set_reserve s 0 p of None \<Rightarrow> None | Some p' \<Rightarrow> release_offers ps p')"

definition clean_window :: "trader \<Rightarrow> trader option" where
  "clean_window p =
     map_option (on_window (\<lambda>_. uc_empty))
       (if u_type (td_window p) = UCONTAINER_TRADE then release_offers (u_items (td_window p)) p
        else Some p)"

section \<open>Asking for a trade\<close>

text \<open>The old partner is looked up by his identifier where a target identifier is expected.\<close>

definition trade_req :: "trade_env \<Rightarrow> nat \<Rightarrow> nat \<Rightarrow> nat \<Rightarrow> traders \<Rightarrow> traders" where
  "trade_req e me ActIndex UniqueNo W =
     (case GetEntity e ActIndex of
        None \<Rightarrow> W
      | Some t \<Rightarrow>
          if t \<noteq> UniqueNo then W
          else if te_jailed e me \<or> te_jailed e t then W
          else if te_crafting e me \<or> te_crafting e t then W
          else if te_aid_blocked e me t then W
          else if td_pending_id (W t) = me then W
          else if \<not> uc_IsContainerEmpty (td_window (W t)) then W
          else if (td_pending_targid (W t) \<noteq> 0 \<and> te_now e - td_invited (W t) < 60000) \<or>
                  u_type (td_window (W t)) = UCONTAINER_TRADE then W
          else
            let old = td_pending_id (W me) in
            if old \<noteq> 0 \<and> GetEntity e (old mod 65536) = Some old then cleanTradeTargets old me W
            else
              let W1 = W(me := (W me)\<lparr>td_invited := te_now e, td_pending_id := UniqueNo,
                                       td_pending_targid := ActIndex\<rparr>)
              in W1(t := (W1 t)\<lparr>td_invited := te_now e, td_pending_id := me,
                                 td_pending_targid := td_targid (W1 me)\<rparr>))"

text \<open>The partner both sides agree on.\<close>

definition partner :: "trade_env \<Rightarrow> nat \<Rightarrow> traders \<Rightarrow> nat option" where
  "partner e me W =
     (case GetEntity e (td_pending_targid (W me)) of
        None \<Rightarrow> None
      | Some t \<Rightarrow> if td_pending_id (W me) \<noteq> t \<or> td_pending_id (W t) \<noteq> me then None else Some t)"

section \<open>Offering\<close>

text \<open>Linkshells may be offered only while one of the same shell is equipped.\<close>

definition offer :: "trade_env \<Rightarrow> nat \<Rightarrow> nat \<Rightarrow> uint32 \<Rightarrow> item \<Rightarrow> trader \<Rightarrow> trader option" where
  "offer e TradeIndex ItemIndex ItemNum it p =
     (case (if ItemNum = 0
            then map_option (on_window (\<lambda>c. snd (uc_SetItem TradeIndex None c))) (set_reserve ItemIndex 0 p)
            else Some p) of
        None \<Rightarrow> None
      | Some p1 \<Rightarrow>
          if isType it ITEM_LINKSHELL \<and> \<not> te_equipped e ItemIndex
          then map_option (on_window (\<lambda>c. snd (uc_SetItem TradeIndex None c))) (set_reserve ItemIndex 0 p1)
          else (case in_bag p1 ItemIndex of
                  None \<Rightarrow> None
                | Some it1 \<Rightarrow>
                    map_option (on_window (\<lambda>c. snd (uc_SetItem TradeIndex (Some ItemIndex) c)))
                      (set_reserve ItemIndex (ItemNum + i_reserve it1) p1)))"

definition trade_list ::
  "trade_env \<Rightarrow> nat \<Rightarrow> uint32 \<Rightarrow> nat \<Rightarrow> nat \<Rightarrow> nat \<Rightarrow> traders \<Rightarrow> traders option" where
  "trade_list e me ItemNum ItemNo ItemIndex TradeIndex W =
     (case partner e me W of
        None \<Rightarrow> Some W
      | Some t \<Rightarrow>
          (case (case uc_GetItem TradeIndex (td_window (W me)) of
                   None \<Rightarrow> Some (W me)
                 | Some s \<Rightarrow> map_option (on_window (uc_ClearSlot TradeIndex)) (set_reserve s 0 (W me))) of
             None \<Rightarrow> None
           | Some p \<Rightarrow>
               (case in_bag p ItemIndex of
                  None \<Rightarrow> Some (W(me := p))
                | Some it \<Rightarrow>
                    if i_id it \<noteq> ItemNo \<or> hasFlag it FLAG_EXCLUSIVE \<or>
                       i_quantity it < ItemNum + i_reserve it \<or> isSubType it ITEM_LOCKED
                    then Some (W(me := p))
                    else (case offer e TradeIndex ItemIndex ItemNum it p of
                            None \<Rightarrow> None
                          | Some p' \<Rightarrow>
                              (let W1 = W(me := on_window uc_UnLock p')
                               in Some (W1(t := on_window uc_UnLock (W1 t))))))))"

section \<open>Exchanging\<close>

text \<open>A rare item is refused when the receiver has one; a dangling pointer is followed.\<close>

fun acceptable :: "nat list \<Rightarrow> trader \<Rightarrow> trader \<Rightarrow> bool option" where
  "acceptable [] a b = Some True"
| "acceptable (s # ss) a b =
     (case uc_GetItem s (td_window a) of
        None \<Rightarrow> acceptable ss a b
      | Some p \<Rightarrow>
          (case in_bag a p of
             None \<Rightarrow> None
           | Some it \<Rightarrow>
               if hasFlag it FLAG_RARE \<and> HasItem (i_id it) (td_char b) then Some False
               else acceptable ss a b))"

definition CanTrade :: "bool \<Rightarrow> trader \<Rightarrow> trader \<Rightarrow> bool option" where
  "CanTrade monstrous a b =
     (if monstrous then Some False
      else if GetFreeSlotsCount (storage (td_char b) LOC_INVENTORY) < u_count (td_window a) then Some False
      else acceptable [0..<9] a b)"

text \<open>One slot: the receiver gets a copy of a single item or a new stack, the giver loses it.\<close>

definition trade_slot ::
  "templates \<Rightarrow> (nat \<Rightarrow> bool) \<Rightarrow> nat \<Rightarrow> trader \<times> trader \<Rightarrow> (trader \<times> trader) option" where
  "trade_slot T db s ab =
     (case ab of (a, b) \<Rightarrow>
       (case uc_GetItem s (td_window a) of
          None \<Rightarrow> Some (a, b)
        | Some p \<Rightarrow>
            (case in_bag a p of
               None \<Rightarrow> None
             | Some it \<Rightarrow>
                 (case (if i_stackSize it = 1 \<and> i_reserve it = 1
                        then map_option (\<lambda>new. snd (AddItemObject LOC_INVENTORY (setReserve 0 new) (db s) (td_char b)))
                               (clone it)
                        else Some (snd (AddItem T LOC_INVENTORY (i_id it) (i_reserve it) (db s) (td_char b)))) of
                    None \<Rightarrow> None
                  | Some chb \<Rightarrow>
                      map_option (\<lambda>a1.
                        (on_window (uc_ClearSlot s)
                           (a1\<lparr>td_char := snd (UpdateItem LOC_INVENTORY (i_slotID it)
                              (sint (0 - i_reserve it)) False (td_char a1))\<rparr>),
                         b\<lparr>td_char := chb\<rparr>))
                        (set_reserve p 0 a)))))"

fun trade_slots ::
  "templates \<Rightarrow> (nat \<Rightarrow> bool) \<Rightarrow> nat list \<Rightarrow> trader \<times> trader \<Rightarrow> (trader \<times> trader) option" where
  "trade_slots T db [] ab = Some ab"
| "trade_slots T db (s # ss) ab =
     (case trade_slot T db s ab of None \<Rightarrow> None | Some ab' \<Rightarrow> trade_slots T db ss ab')"

definition DoTrade ::
  "templates \<Rightarrow> (nat \<Rightarrow> bool) \<Rightarrow> trader \<times> trader \<Rightarrow> (trader \<times> trader) option" where
  "DoTrade T db ab = trade_slots T db [0..<9] ab"

section \<open>Answering\<close>

datatype trade_kind = Start | Cancell | Make | MakeCancell

definition both_clean :: "nat \<Rightarrow> nat \<Rightarrow> traders \<Rightarrow> traders option" where
  "both_clean a b W =
     (case clean_window (W a) of
        None \<Rightarrow> None
      | Some p \<Rightarrow>
          (let W1 = W(a := p) in
           map_option (\<lambda>q. cleanTradeTargets a b (W1(b := q))) (clean_window (W1 b))))"

definition swap :: "'a \<times> 'b \<Rightarrow> 'b \<times> 'a" where
  "swap ab = (snd ab, fst ab)"

text \<open>The exchange once both sides have accepted; \<open>db\<close> is for the sender, \<open>db'\<close> for the partner.\<close>

definition exchange ::
  "templates \<Rightarrow> trade_env \<Rightarrow> (nat \<Rightarrow> bool) \<Rightarrow> (nat \<Rightarrow> bool) \<Rightarrow> nat \<Rightarrow> nat \<Rightarrow> traders \<Rightarrow> traders option" where
  "exchange T e db db' me t W =
     (let m = te_monstrosity e me \<or> te_monstrosity e t in
      case CanTrade m (W me) (W t) of
        None \<Rightarrow> None
      | Some False \<Rightarrow> Some W
      | Some True \<Rightarrow>
          (case CanTrade m (W t) (W me) of
             None \<Rightarrow> None
           | Some False \<Rightarrow> Some W
           | Some True \<Rightarrow>
               (case DoTrade T db (W me, W t) of
                  None \<Rightarrow> None
                | Some ab \<Rightarrow>
                    map_option (\<lambda>ba. W(me := snd ba, t := fst ba)) (DoTrade T db' (swap ab)))))"

definition trade_res ::
  "templates \<Rightarrow> trade_env \<Rightarrow> (nat \<Rightarrow> bool) \<Rightarrow> (nat \<Rightarrow> bool) \<Rightarrow> nat \<Rightarrow> trade_kind \<Rightarrow> traders \<Rightarrow> traders option" where
  "trade_res T e db db' me kind W =
     (case partner e me W of
        None \<Rightarrow> Some W
      | Some t \<Rightarrow>
          (case kind of
             Start \<Rightarrow>
               if \<not> uc_IsContainerEmpty (td_window (W me)) \<or> \<not> uc_IsContainerEmpty (td_window (W t)) \<or>
                  te_apart e me t
               then Some (cleanTradeTargets me t W)
               else (let W1 = W(me := on_window (uc_SetType UCONTAINER_TRADE) (W me))
                     in Some (W1(t := on_window (uc_SetType UCONTAINER_TRADE) (W1 t))))
           | Cancell \<Rightarrow>
               (case (if u_type (td_window (W t)) = UCONTAINER_TRADE then clean_window (W t) else Some (W t)) of
                  None \<Rightarrow> None
                | Some q \<Rightarrow>
                    (let W1 = W(t := q) in
                     map_option (\<lambda>p. cleanTradeTargets me t (W1(me := p)))
                       (if u_type (td_window (W1 me)) = UCONTAINER_TRADE then clean_window (W1 me)
                        else Some (W1 me))))
           | Make \<Rightarrow>
               (let W1 = W(me := on_window uc_SetLock (W me)) in
                if \<not> u_lock (td_window (W1 t)) then Some W1
                else (case exchange T e db db' me t W1 of
                        None \<Rightarrow> None
                      | Some W2 \<Rightarrow> both_clean me t W2))
           | MakeCancell \<Rightarrow> Some W))"

section \<open>Packets\<close>

datatype trade_packet =
    TRADE_REQ nat nat
  | TRADE_RES trade_kind
  | TRADE_LIST uint32 nat nat nat

text \<open>The validators.\<close>

definition trade_valid :: "trade_env \<Rightarrow> nat \<Rightarrow> trade_packet \<Rightarrow> trader \<Rightarrow> bool" where
  "trade_valid e me pkt p \<longleftrightarrow> \<not> te_monstrosity e me \<and>
     (case pkt of
        TRADE_REQ ActIndex UniqueNo \<Rightarrow> me \<noteq> UniqueNo
      | TRADE_RES kind \<Rightarrow> td_pending_targid p \<noteq> 0
      | TRADE_LIST ItemNum ItemNo ItemIndex TradeIndex \<Rightarrow> td_pending_id p \<noteq> 0 \<and> TradeIndex \<le> 8)"

definition trade_process ::
  "templates \<Rightarrow> trade_env \<Rightarrow> (nat \<Rightarrow> bool) \<Rightarrow> (nat \<Rightarrow> bool) \<Rightarrow> nat \<Rightarrow> trade_packet \<Rightarrow> traders \<Rightarrow> traders option" where
  "trade_process T e db db' me pkt W =
     (if \<not> trade_valid e me pkt (W me) then Some W
      else (case pkt of
              TRADE_REQ ActIndex UniqueNo \<Rightarrow> Some (trade_req e me ActIndex UniqueNo W)
            | TRADE_RES kind \<Rightarrow> trade_res T e db db' me kind W
            | TRADE_LIST ItemNum ItemNo ItemIndex TradeIndex \<Rightarrow>
                trade_list e me ItemNum ItemNo ItemIndex TradeIndex W))"

end
