(* ===== verification/TradeLaws.thy ===== *)
theory TradeLaws
  imports Trade
begin

text \<open>
  What the packets of a trade keep: the order of the bags and of the windows that point into
  them, and the amounts.  An exchange is followed slot by slot (\<open>given\<close>, \<open>taken\<close>), then for a
  whole window (\<open>gave_all\<close>, \<open>took_all\<close>), then in both directions (\<open>swapped\<close>).
\<close>

section \<open>Traders in order\<close>

text \<open>
  The slots of a window point to filled cells, each to its own.  What a slot offers is the item
  of its cell, in the amount that is reserved.
\<close>

definition window_ok :: "trader \<Rightarrow> bool" where
  "window_ok p \<longleftrightarrow> length (u_items (td_window p)) = UCONTAINER_SIZE \<and>
     (u_type (td_window p) = UCONTAINER_EMPTY \<or> u_type (td_window p) = UCONTAINER_TRADE) \<and>
     (\<forall>s q. uc_GetItem s (td_window p) = Some q \<longrightarrow> s < 9 \<and> in_bag p q \<noteq> None) \<and>
     (\<forall>s s' q. uc_GetItem s (td_window p) = Some q \<longrightarrow> uc_GetItem s' (td_window p) = Some q \<longrightarrow> s = s')"

definition trader_ok :: "templates \<Rightarrow> trader \<Rightarrow> bool" where
  "trader_ok T p \<longleftrightarrow> char_ok T (td_char p) \<and> window_ok p"

definition offered :: "trader \<Rightarrow> nat \<Rightarrow> item option" where
  "offered p s = (case uc_GetItem s (td_window p) of None \<Rightarrow> None | Some q \<Rightarrow> in_bag p q)"

definition offer_of :: "nat \<Rightarrow> trader \<Rightarrow> nat \<Rightarrow> nat" where
  "offer_of k p s = (case offered p s of None \<Rightarrow> 0 | Some it \<Rightarrow> if i_id it = k then unat (i_reserve it) else 0)"

definition offers :: "nat \<Rightarrow> trader \<Rightarrow> nat list \<Rightarrow> nat" where
  "offers k p ss = sum_list (map (offer_of k p) ss)"

lemma uc_ClearSlot_GetItem:
  "uc_GetItem t (uc_ClearSlot s c) = (if t = s then None else uc_GetItem t c)"
  by (auto simp: uc_GetItem_def uc_ClearSlot_def nth_list_update)

lemma uc_ClearSlot_length [simp]: "length (u_items (uc_ClearSlot s c)) = length (u_items c)"
  by (simp add: uc_ClearSlot_def)

lemma uc_ClearSlot_fields [simp]:
  "u_type (uc_ClearSlot s c) = u_type c" "u_lock (uc_ClearSlot s c) = u_lock c"
  "u_count (uc_ClearSlot s c) = u_count c"
  by (simp_all add: uc_ClearSlot_def)

lemma on_window_simps [simp]:
  "td_char (on_window f p) = td_char p" "td_window (on_window f p) = f (td_window p)"
  "in_bag (on_window f p) q = in_bag p q" "td_targid (on_window f p) = td_targid p"
  "td_pending_id (on_window f p) = td_pending_id p" "td_pending_targid (on_window f p) = td_pending_targid p"
  by (simp_all add: on_window_def in_bag_def)

lemma window_okD:
  assumes "window_ok p"
  shows "length (u_items (td_window p)) = UCONTAINER_SIZE"
    "\<And>s q. uc_GetItem s (td_window p) = Some q \<Longrightarrow> s < 9"
    "\<And>s q. uc_GetItem s (td_window p) = Some q \<Longrightarrow> \<exists>it. in_bag p q = Some it"
    "\<And>s s' q. uc_GetItem s (td_window p) = Some q \<Longrightarrow> uc_GetItem s' (td_window p) = Some q \<Longrightarrow> s = s'"
    "u_type (td_window p) = UCONTAINER_EMPTY \<or> u_type (td_window p) = UCONTAINER_TRADE"
  using assms unfolding window_ok_def by blast+

text \<open>Reserving changes no amount.\<close>

lemma set_reserve_step:
  fixes r :: uint32
  assumes ch: "char_ok T (td_char p)" and it: "in_bag p s = Some it"
  defines "p' \<equiv> p\<lparr>td_char := on_storage LOC_INVENTORY (set_cell s (Some (setReserve r it))) (td_char p)\<rparr>"
  shows "set_reserve s r p = Some p'" "char_ok T (td_char p')"
    "\<And>k. total_qty k (td_char p') = total_qty k (td_char p)"
    "\<And>t. in_bag p' t = (if t = s then Some (setReserve r it) else in_bag p t)"
    "free_cells (td_char p') = free_cells (td_char p)"
    "\<And>j. HasItem j (td_char p') \<longleftrightarrow> HasItem j (td_char p)"
    "td_window p' = td_window p"
proof -
  let ?ch = "td_char p" and ?ch' = "td_char p'" and ?f = "set_cell s (Some (setReserve r it))"
  let ?c = "storage ?ch LOC_INVENTORY"
  have get: "GetItem s ?c = Some it" using it by (simp add: in_bag_def)
  note c = char_okD[OF ch] and car = char_okD(3)[OF ch get]
  have ok: "store_ok ?c" using c(1) by (simp add: inventory_ok_def)
  have s: "s \<le> unat (m_size ?c)" "cell ?c s = Some it" "s < length (m_ItemList ?c)"
    using get store_ok_sizeD[OF ok] by (auto simp: GetItem_cell)
  have ch': "?ch' = on_storage LOC_INVENTORY ?f ?ch" by (simp add: p'_def)
  have cells: "GetItem t (storage ?ch' l) =
      (if l = LOC_INVENTORY \<and> t = s then Some (setReserve r it) else GetItem t (storage ?ch l))" for l t
    using GetItem_set_cell[OF ok s(1)] by (auto simp: ch')
  show "set_reserve s r p = Some p'" using it by (simp add: set_reserve_def p'_def)
  have inv: "inventory_ok ?ch'"
    unfolding ch' using c(1) ok get by (intro inventory_ok_on_storage) (auto intro: store_ok_overwrite)
  have new: "carried_ok T (setReserve r it)" "i_slotID (setReserve r it) = s"
    using car c(5)[OF get] by (auto simp: carried_ok_def setReserve_def isType_def)
  obtain g where g: "GetItem 0 ?c = Some g" "i_id g = 0xFFFF" using c(4) by blast
  have "\<exists>g. GetItem 0 (storage ?ch' LOC_INVENTORY) = Some g \<and> i_id g = 0xFFFF"
    using g get by (auto simp: cells)
  moreover have "carried_ok T x \<and> i_slotID x = t" if "GetItem t (storage ?ch' l) = Some x" for l t x
    using that c(3,5) new unfolding cells by (auto split: if_splits)
  moreover have "using_item ?ch' = None" using c(2) by (simp add: ch')
  ultimately show "char_ok T ?ch'" using inv unfolding char_ok_def by blast
  show "total_qty k ?ch' = total_qty k ?ch" for k
  proof -
    have "qty_of k (setReserve r it) = qty_of k it" by (simp add: qty_of_def setReserve_def)
    then show ?thesis
      using total_qty_on_storage[OF LOC_INVENTORY_range, of k ?f ?ch] qty_set_cell[OF s(3,2), of k "setReserve r it"]
      unfolding ch' by linarith
  qed
  show "in_bag p' t = (if t = s then Some (setReserve r it) else in_bag p t)" for t
    using cells[of t LOC_INVENTORY] by (simp add: in_bag_def)
  show "free_cells ?ch' = free_cells ?ch" by (simp add: ch')
  show "HasItem j ?ch' \<longleftrightarrow> HasItem j ?ch" for j
  proof -
    have "(\<exists>t x. GetItem t (storage ?ch' l) = Some x \<and> i_id x = j) \<longleftrightarrow>
        (\<exists>t x. GetItem t (storage ?ch l) = Some x \<and> i_id x = j)" for l
      using get unfolding cells by (metis i_id_setters(1) option.inject)
    then show ?thesis unfolding HasItem_iff[OF inv] HasItem_iff[OF c(1)] by simp
  qed
  show "td_window p' = td_window p" by (simp add: p'_def)
qed


lemma set_reserve_gave:
  assumes T: "templates_ok T" and ch: "char_ok T (td_char p)" and it: "in_bag p s = Some it" and q: "uint q \<le> uint (i_quantity it)"
  shows "\<exists>p1 ch'. set_reserve s 0 p = Some p1 \<and> td_window p1 = td_window p \<and>
    p1 = p\<lparr>td_char := td_char p1\<rparr> \<and>
    UpdateItem LOC_INVENTORY s (- uint (q :: uint32)) False (td_char p1) = (i_id it, ch') \<and>
    char_ok T ch' \<and> free_cells (td_char p) \<le> free_cells ch' \<and>
    (\<forall>t. t \<noteq> s \<longrightarrow> bag ch' t = in_bag p t) \<and>
    (\<forall>x. bag ch' s = Some x \<longrightarrow> i_quantity x \<le> i_quantity it \<and> i_stackSize x = i_stackSize it) \<and>
    (\<forall>j. HasItem j ch' \<longrightarrow> HasItem j (td_char p)) \<and>
    (\<forall>k. int (total_qty k ch') = int (total_qty k (td_char p)) - (if i_id it = k then uint q else 0))"
proof -
  let ?p1 = "p\<lparr>td_char := on_storage LOC_INVENTORY (set_cell s (Some (setReserve 0 it))) (td_char p)\<rparr>"
  note r = set_reserve_step[OF ch it, where r = 0]
  have b: "bag (td_char ?p1) s = Some (setReserve 0 it)" using r(4)[of s] by (simp add: in_bag_def)
  have "uint (i_reserve (setReserve 0 it)) + uint q \<le> uint (i_quantity (setReserve 0 it))"
    using q by (simp add: min_def)
  from UpdateItem_gave[OF T r(2) b this] obtain ch' where
    u: "UpdateItem LOC_INVENTORY s (- uint q) False (td_char ?p1) = (i_id (setReserve 0 it), ch')"
      "gave T s (td_char ?p1) ch'"
      "\<forall>k. int (total_qty k ch') = int (total_qty k (td_char ?p1)) - (if i_id (setReserve 0 it) = k then uint q else 0)"
    by blast
  have "i_quantity x \<le> i_quantity it \<and> i_stackSize x = i_stackSize it" if "bag ch' s = Some x" for x
    using u(2) that b by (auto simp: gave_def restocked_fields setReserve_def)
  then show ?thesis
    using r(1,3,5,6,7) u r(4) by (intro exI[of _ ?p1] exI[of _ ch']) (auto simp: gave_def in_bag_def)
qed


lemma sint_neg:
  fixes n :: uint32
  assumes "uint n < 2 ^ 31"
  shows "sint (0 - n) = - uint n"
proof -
  have "uint (0 - n) = take_bit 32 (- uint n)" by (simp add: uint_word_ariths take_bit_eq_mod)
  then have "sint (0 - n) = signed_take_bit 31 (take_bit 32 (- uint n))" by (simp add: sint_uint)
  also have "\<dots> = signed_take_bit 31 (- uint n)" by (simp only: signed_take_bit_take_bit) simp
  also have "\<dots> = - uint n" using assms uint_ge_0[of n] by (intro signed_take_bit_int_eq_self) linarith+
  finally show ?thesis .
qed

text \<open>What reaches the receiver of \<open>n\<close> of an item: the item itself or a new stack.\<close>

definition fits :: "item \<Rightarrow> uint32 \<Rightarrow> bool \<Rightarrow> character \<Rightarrow> bool" where
  "fits it n db ch \<longleftrightarrow> n = 0 \<or> (0 < free_cells ch \<and>
     (if isType it ITEM_CURRENCY
      then (\<forall>g. bag ch 0 = Some g \<longrightarrow> uint (i_quantity g) + uint n \<le> uint (i_stackSize g))
      else db \<and> \<not> (hasFlag it FLAG_RARE \<and> HasItem (i_id it) ch)))"

lemma AddItem_received:
  fixes n :: uint32 and db :: bool
  assumes T: "templates_ok T" and ch: "char_ok T ch" and it: "carried_ok T it" and n: "n \<le> i_quantity it"
  defines "ch' \<equiv> snd (AddItem T LOC_INVENTORY (i_id it) n db ch)"
  shows "received T (i_id it) (uint n) ch ch'"
    "total_qty k ch' \<le> total_qty k ch + (if i_id it = k then unat n else 0)"
    "fits it n db ch \<Longrightarrow> total_qty k ch' = total_qty k ch + (if i_id it = k then unat n else 0)"
proof -
  obtain tpl where tpl: "spawn T (i_id it) = Some tpl" "i_stackSize it = i_stackSize tpl" "i_flag it = i_flag tpl"
    "isType it ITEM_CURRENCY \<longleftrightarrow> isType tpl ITEM_CURRENCY"
    using it by (auto simp: carried_ok_def)
  note t = templates_okD[OF T tpl(1)]
  let ?new = "setQuantity n tpl"
  have le: "n \<le> i_stackSize tpl" using n it tpl(2) by (auto simp: carried_ok_def)
  have new: "i_id ?new = i_id it" "i_quantity ?new = n" "isType ?new ITEM_CURRENCY = isType it ITEM_CURRENCY"
    "hasFlag ?new FLAG_RARE = hasFlag it FLAG_RARE" "i_flag ?new = i_flag tpl" "i_stackSize ?new = i_stackSize tpl"
    "i_reserve ?new = 0" "i_type ?new = i_type tpl"
    using le t(1,4) tpl(3,4) by (simp_all add: min_def hasFlag_def) (simp_all add: setQuantity_def)
  have car: "carried_ok T ?new" using tpl new t(3) le by (simp add: carried_ok_def)
  have q: "qty_of k ?new = (if i_id it = k then unat n else 0)" unfolding qty_of_def new(1,2) by simp
  let ?obj = "snd (AddItemObject LOC_INVENTORY ?new db ch)"
  have ch'_eq: "ch' = (if free_cells ch = 0 \<or> n = 0 then ch else ?obj)"
    by (simp add: ch'_def AddItem_def tpl(1) unat_eq_0)
  note add = AddItemObject_amount[OF T ch car, where k = k and db = db] AddItemObject_received[OF T ch car, of db]
  show "received T (i_id it) (uint n) ch ch'"
    using add(3) received_refl[OF ch, of "uint n"] unfolding ch'_eq new by simp
  show "total_qty k ch' \<le> total_qty k ch + (if i_id it = k then unat n else 0)"
    using add(1) unfolding ch'_eq q by (auto split: if_splits)
  assume "fits it n db ch"
  then have "n = 0 \<or> (0 < free_cells ch \<and> arrives ?new db ch)"
    unfolding fits_def arrives_def new(1-4) by auto
  then show "total_qty k ch' = total_qty k ch + (if i_id it = k then unat n else 0)"
    using add(2) unfolding ch'_eq q by (auto split: if_splits)
qed

lemma clone_received:
  assumes T: "templates_ok T" and ch: "char_ok T ch" and it: "carried_ok T it"
    and one: "i_stackSize it = 1" "i_reserve it = 1"
  shows "\<exists>new. clone it = Some new \<and>
    received T (i_id it) 1 ch (snd (AddItemObject LOC_INVENTORY (setReserve 0 new) db ch)) \<and>
    (\<forall>k. total_qty k (snd (AddItemObject LOC_INVENTORY (setReserve 0 new) db ch)) \<le>
       total_qty k ch + (if i_id it = k then 1 else 0)) \<and>
    (fits it 1 db ch \<longrightarrow> (\<forall>k. total_qty k (snd (AddItemObject LOC_INVENTORY (setReserve 0 new) db ch)) =
       total_qty k ch + (if i_id it = k then 1 else 0)))"
proof -
  have c: "clone it = Some it" using it by (simp add: clone_def carried_ok_def)
  have q: "i_quantity it = 1" using it one by (auto simp: carried_ok_def)
  let ?new = "setReserve 0 it"
  have car: "carried_ok T ?new" using it by (auto simp: carried_ok_def setReserve_def isType_def)
  have "qty_of k ?new = (if i_id it = k then 1 else 0)" for k by (simp add: qty_of_def q)
  moreover have "arrives ?new db ch" if "fits it 1 db ch"
    using that by (auto simp: fits_def arrives_def q isType_def hasFlag_def setReserve_def)
  ultimately show ?thesis
    using c AddItemObject_amount[OF T ch car, where db = db] AddItemObject_received[OF T ch car, of db] q
    by (intro exI[of _ it]) auto
qed


section \<open>One slot changes hands\<close>

definition given :: "nat \<Rightarrow> trader \<Rightarrow> trader \<Rightarrow> bool" where
  "given s a a' \<longleftrightarrow> (\<exists>ch'. a' = a\<lparr>td_char := ch', td_window := uc_ClearSlot s (td_window a)\<rparr>) \<and>
     free_cells (td_char a) \<le> free_cells (td_char a') \<and>
     (\<forall>t. offered a' t = (if t = s then None else offered a t)) \<and>
     (\<forall>j. HasItem j (td_char a') \<longrightarrow> HasItem j (td_char a)) \<and>
     (\<forall>g'. in_bag a' 0 = Some g' \<longrightarrow> (\<exists>g. in_bag a 0 = Some g \<and>
        i_quantity g' \<le> i_quantity g \<and> i_stackSize g' = i_stackSize g)) \<and>
     (\<forall>k. total_qty k (td_char a') + offer_of k a s = total_qty k (td_char a))"

definition taken :: "nat \<Rightarrow> trader \<Rightarrow> trader \<Rightarrow> trader \<Rightarrow> bool" where
  "taken s a b b' \<longleftrightarrow> (\<exists>ch'. b' = b\<lparr>td_char := ch'\<rparr>) \<and>
     free_cells (td_char b) - (if offered a s = None then 0 else 1) \<le> free_cells (td_char b') \<and>
     (\<forall>t x. offered b t = Some x \<longrightarrow> (\<exists>y. offered b' t = Some y \<and> restocked x y)) \<and>
     (\<forall>j. HasItem j (td_char b') \<longrightarrow> HasItem j (td_char b) \<or> (\<exists>it. offered a s = Some it \<and> i_id it = j)) \<and>
     (\<forall>g'. in_bag b' 0 = Some g' \<longrightarrow> (\<exists>g. in_bag b 0 = Some g \<and>
        unat (i_quantity g') \<le> unat (i_quantity g) + offer_of 0xFFFF a s \<and> i_stackSize g' = i_stackSize g)) \<and>
     (\<forall>k. total_qty k (td_char b') \<le> total_qty k (td_char b) + offer_of k a s)"

definition slot_fits :: "(nat \<Rightarrow> bool) \<Rightarrow> trader \<Rightarrow> trader \<Rightarrow> nat \<Rightarrow> bool" where
  "slot_fits db a b s \<longleftrightarrow> (\<forall>it. offered a s = Some it \<longrightarrow> fits it (i_reserve it) (db s) (td_char b))"

lemma char_ok_purse:
  assumes "char_ok T (td_char b)" "received T i n (td_char b) ch'"
  shows "\<forall>g'. bag ch' 0 = Some g' \<longrightarrow> (\<exists>g. in_bag b 0 = Some g \<and>
        uint (i_quantity g') \<le> uint (i_quantity g) + (if i = 0xFFFF then n else 0) \<and> i_stackSize g' = i_stackSize g)"
proof -
  obtain g where g: "bag (td_char b) 0 = Some g" using char_okD(4)[OF assms(1)] by blast
  with assms(2) obtain y where "bag ch' 0 = Some y" "restocked g y"
    "uint (i_quantity y) \<le> uint (i_quantity g) + (if i = 0xFFFF then n else 0)"
    unfolding received_def by blast
  then show ?thesis using g restocked_fields(4) by (auto simp: in_bag_def)
qed

lemma trade_slot_step:
  assumes T: "templates_ok T" and a: "trader_ok T a" and b: "trader_ok T b"
  shows "\<exists>a' b'. trade_slot T db s (a, b) = Some (a', b') \<and> trader_ok T a' \<and> trader_ok T b' \<and>
    given s a a' \<and> taken s a b b' \<and>
    (slot_fits db a b s \<longrightarrow> (\<forall>k. total_qty k (td_char b') = total_qty k (td_char b) + offer_of k a s))"
proof (cases "uc_GetItem s (td_window a)")
  case None
  have "uc_ClearSlot s (td_window a) = td_window a"
    using None by (auto simp: uc_ClearSlot_def uc_GetItem_def list_update_same_conv split: if_splits)
  moreover have "\<exists>ch'. a = a\<lparr>td_char := ch'\<rparr>" "\<exists>ch'. b = b\<lparr>td_char := ch'\<rparr>"
    by (rule exI[of _ "td_char a"], simp) (rule exI[of _ "td_char b"], simp)
  ultimately have "given s a a" "taken s a b b"
    using None by (auto simp: given_def taken_def offered_def offer_of_def)
  then show ?thesis
    using None a b by (auto simp: trade_slot_def offer_of_def offered_def)
next
  case (Some q)
  have ca: "char_ok T (td_char a)" and wa: "window_ok a" and cb: "char_ok T (td_char b)" and wb: "window_ok b"
    using a b by (auto simp: trader_ok_def)
  obtain it where it: "in_bag a q = Some it" using window_okD(3)[OF wa Some] by blast
  then have get: "bag (td_char a) q = Some it" by (simp add: in_bag_def)
  have car: "carried_ok T it" and slot: "i_slotID it = q" using char_okD(3,5)[OF ca get] by auto
  have res: "i_reserve it \<le> i_quantity it" using car by (simp add: carried_ok_def)
  let ?n = "i_reserve it"
  have off: "offered a s = Some it" "\<And>k. offer_of k a s = (if i_id it = k then unat ?n else 0)"
    using Some it by (simp_all add: offered_def offer_of_def)
  have "uint ?n < 2 ^ 31"
    using res carried_okD(1,2)[OF T car] by (simp add: word_le_def)
  then have neg: "sint (0 - ?n) = - uint ?n" by (rule sint_neg)
  obtain p1 cha where g: "set_reserve q 0 a = Some p1" "td_window p1 = td_window a" "p1 = a\<lparr>td_char := td_char p1\<rparr>"
    "UpdateItem LOC_INVENTORY q (- uint ?n) False (td_char p1) = (i_id it, cha)"
    "char_ok T cha" "free_cells (td_char a) \<le> free_cells cha" "\<forall>t. t \<noteq> q \<longrightarrow> bag cha t = in_bag a t"
    "\<forall>x. bag cha q = Some x \<longrightarrow> i_quantity x \<le> i_quantity it \<and> i_stackSize x = i_stackSize it"
    "\<forall>j. HasItem j cha \<longrightarrow> HasItem j (td_char a)"
    "\<forall>k. int (total_qty k cha) = int (total_qty k (td_char a)) - (if i_id it = k then uint ?n else 0)"
    using set_reserve_gave[OF T ca it, of ?n] res by (auto simp: word_le_def)
  define a' where "a' = a\<lparr>td_char := cha, td_window := uc_ClearSlot s (td_window a)\<rparr>"
  obtain chb where h: "(if i_stackSize it = 1 \<and> ?n = 1
        then map_option (\<lambda>new. snd (AddItemObject LOC_INVENTORY (setReserve 0 new) (db s) (td_char b))) (clone it)
        else Some (snd (AddItem T LOC_INVENTORY (i_id it) ?n (db s) (td_char b)))) = Some chb"
    "received T (i_id it) (uint ?n) (td_char b) chb"
    "\<forall>k. total_qty k chb \<le> total_qty k (td_char b) + (if i_id it = k then unat ?n else 0)"
    "fits it ?n (db s) (td_char b) \<longrightarrow>
      (\<forall>k. total_qty k chb = total_qty k (td_char b) + (if i_id it = k then unat ?n else 0))"
  proof (cases "i_stackSize it = 1 \<and> ?n = 1")
    case True
    let ?x = "\<lambda>new. snd (AddItemObject LOC_INVENTORY (setReserve 0 new) (db s) (td_char b))"
    obtain new where "clone it = Some new" "received T (i_id it) 1 (td_char b) (?x new)"
      "\<forall>k. total_qty k (?x new) \<le> total_qty k (td_char b) + (if i_id it = k then 1 else 0)"
      "fits it 1 (db s) (td_char b) \<longrightarrow>
        (\<forall>k. total_qty k (?x new) = total_qty k (td_char b) + (if i_id it = k then 1 else 0))"
      using clone_received[OF T cb car, of "db s"] True by blast
    moreover have "uint ?n = 1" "unat ?n = 1" using True by simp_all
    ultimately show ?thesis
      using True by (intro that[of "?x new"]) (simp_all only: simp_thms if_True option.map)
  next
    case False
    then show ?thesis using AddItem_received[OF T cb car res, where db = "db s"] that by auto
  qed
  let ?b' = "b\<lparr>td_char := chb\<rparr>"
  have step: "trade_slot T db s (a, b) = Some (a', ?b')"
    using h(1) g(1-4) Some it slot neg
    by (simp add: trade_slot_def on_window_def a'_def) (metis trader.surjective trader.update_convs(1))
  have others: "uc_GetItem t (td_window a) = Some q' \<Longrightarrow> t \<noteq> s \<Longrightarrow> q' \<noteq> q" for t q'
    using window_okD(4)[OF wa] Some by blast
  have bag_a: "in_bag a' t = bag cha t" for t by (simp add: in_bag_def a'_def)
  have win_a: "uc_GetItem t (td_window a') = (if t = s then None else uc_GetItem t (td_window a))" for t
    by (simp add: a'_def uc_ClearSlot_GetItem)
  have "window_ok a'"
    unfolding window_ok_def win_a bag_a
    using window_okD(1,2,4,5)[OF wa] window_okD(3)[OF wa] others g(7) by (auto simp: a'_def)
  then have ok_a: "trader_ok T a'" using g(5) by (simp add: trader_ok_def a'_def)
  have bag_b: "in_bag b t = Some x \<Longrightarrow> \<exists>y. in_bag ?b' t = Some y \<and> restocked x y" for t x
    using h(2) by (auto simp: received_def in_bag_def)
  have "window_ok ?b'"
    using wb bag_b unfolding window_ok_def by simp (metis option.exhaust option.distinct(1))
  then have ok_b: "trader_ok T ?b'" using h(2) by (simp add: trader_ok_def received_def)
  have "given s a a'"
    unfolding given_def
  proof (intro conjI allI impI)
    show "offered a' t = (if t = s then None else offered a t)" for t
      using others[of t] g(7) by (auto simp: offered_def win_a bag_a split: option.split)
    show "\<exists>g. in_bag a 0 = Some g \<and> i_quantity g' \<le> i_quantity g \<and> i_stackSize g' = i_stackSize g"
      if "in_bag a' 0 = Some g'" for g'
      using that g(7,8) it unfolding bag_a by (cases "q = 0") auto
    show "total_qty k (td_char a') + offer_of k a s = total_qty k (td_char a)" for k
    proof -
      have "int (total_qty k (td_char a') + offer_of k a s) = int (total_qty k (td_char a))"
        using spec[OF g(10), of k] by (simp add: a'_def off)
      then show ?thesis by (simp only: of_nat_eq_iff)
    qed
  qed (use g(6,9) in \<open>auto simp: a'_def\<close>)
  moreover have "taken s a b ?b'"
    unfolding taken_def
  proof (intro conjI allI impI)
    show "\<exists>y. offered ?b' t = Some y \<and> restocked x y" if "offered b t = Some x" for t x
      using that bag_b by (auto simp: offered_def split: option.splits)
    show "\<exists>g. in_bag b 0 = Some g \<and> unat (i_quantity g') \<le> unat (i_quantity g) + offer_of 0xFFFF a s \<and>
        i_stackSize g' = i_stackSize g" if "in_bag ?b' 0 = Some g'" for g'
    proof -
      have "bag chb 0 = Some g'" using that by (simp add: in_bag_def)
      with char_ok_purse[OF cb h(2)] obtain g0 where "in_bag b 0 = Some g0" "i_stackSize g' = i_stackSize g0"
        "uint (i_quantity g') \<le> uint (i_quantity g0) + (if i_id it = 0xFFFF then uint ?n else 0)" by blast
      then show ?thesis by (auto simp: off simp flip: of_nat_le_iff[where 'a = int])
    qed
    show "total_qty k (td_char ?b') \<le> total_qty k (td_char b) + offer_of k a s" for k
      using h(3) by (simp add: off)
  qed (use h(2) in \<open>auto simp: received_def off\<close>)
  ultimately show ?thesis
    using step ok_a ok_b h(4) by (intro exI[of _ a'] exI[of _ ?b']) (auto simp: slot_fits_def off)
qed


section \<open>A whole window changes hands\<close>

definition receivable :: "(nat \<Rightarrow> bool) \<Rightarrow> trader \<Rightarrow> trader \<Rightarrow> nat list \<Rightarrow> bool" where
  "receivable db a b ss \<longleftrightarrow>
     length (filter (\<lambda>s. offered a s \<noteq> None) ss) \<le> free_cells (td_char b) \<and>
     (\<forall>s \<in> set ss. \<forall>it. offered a s = Some it \<longrightarrow> db s \<and>
        (hasFlag it FLAG_RARE \<longrightarrow> \<not> HasItem (i_id it) (td_char b) \<and>
           (\<forall>s' \<in> set ss. \<forall>it'. s' \<noteq> s \<longrightarrow> offered a s' = Some it' \<longrightarrow> i_id it' \<noteq> i_id it))) \<and>
     (\<forall>g. in_bag b 0 = Some g \<longrightarrow> unat (i_quantity g) + offers 0xFFFF a ss \<le> unat (i_stackSize g))"

text \<open>Everything about a trader that a trade leaves alone.\<close>

definition same_trader :: "trader \<Rightarrow> trader \<Rightarrow> bool" where
  "same_trader a a' \<longleftrightarrow> td_targid a' = td_targid a \<and> td_pending_id a' = td_pending_id a \<and>
     td_pending_targid a' = td_pending_targid a \<and> td_invited a' = td_invited a \<and>
     u_type (td_window a') = u_type (td_window a) \<and> u_lock (td_window a') = u_lock (td_window a) \<and>
     u_count (td_window a') = u_count (td_window a)"

lemma same_trader_refl [simp]: "same_trader a a"
  by (simp add: same_trader_def)

lemma same_trader_trans: "same_trader a b \<Longrightarrow> same_trader b c \<Longrightarrow> same_trader a c"
  by (simp add: same_trader_def)

definition gave_all :: "trader \<Rightarrow> nat list \<Rightarrow> trader \<Rightarrow> bool" where
  "gave_all a ss a' \<longleftrightarrow> same_trader a a' \<and> free_cells (td_char a) \<le> free_cells (td_char a') \<and>
     (\<forall>t. offered a' t = (if t \<in> set ss then None else offered a t)) \<and>
     (\<forall>j. HasItem j (td_char a') \<longrightarrow> HasItem j (td_char a)) \<and>
     (\<forall>g'. in_bag a' 0 = Some g' \<longrightarrow> (\<exists>g. in_bag a 0 = Some g \<and>
        i_quantity g' \<le> i_quantity g \<and> i_stackSize g' = i_stackSize g)) \<and>
     (\<forall>k. total_qty k (td_char a') + offers k a ss = total_qty k (td_char a))"

definition took_all :: "trader \<Rightarrow> nat list \<Rightarrow> trader \<Rightarrow> trader \<Rightarrow> bool" where
  "took_all a ss b b' \<longleftrightarrow> same_trader b b' \<and>
     (\<forall>t x. offered b t = Some x \<longrightarrow> (\<exists>y. offered b' t = Some y \<and> restocked x y)) \<and>
     (\<forall>t. offered b t = None \<longrightarrow> offered b' t = None) \<and>
     (\<forall>k. total_qty k (td_char b') \<le> total_qty k (td_char b) + offers k a ss)"

lemma offered_None:
  assumes "window_ok p"
  shows "offered p t = None \<longleftrightarrow> uc_GetItem t (td_window p) = None"
proof (cases "uc_GetItem t (td_window p)")
  case (Some q)
  then show ?thesis using window_okD(3)[OF assms Some] by (auto simp: offered_def)
qed (simp add: offered_def)

lemma given_same: "given s a a' \<Longrightarrow> same_trader a a'"
  unfolding given_def by (elim conjE exE) (simp add: same_trader_def)

lemma taken_same: "taken s a b b' \<Longrightarrow> same_trader b b'"
  unfolding taken_def by (elim conjE exE) (simp add: same_trader_def)

lemma taken_None:
  assumes "taken s a b b'" "trader_ok T b" "trader_ok T b'" "offered b t = None"
  shows "offered b' t = None"
  using assms offered_None[of b t] offered_None[of b' t] by (auto simp: taken_def trader_ok_def)

lemma offers_cong: "(\<And>s. s \<in> set ss \<Longrightarrow> offered a' s = offered a s) \<Longrightarrow> offers k a' ss = offers k a ss"
  unfolding offers_def by (rule arg_cong[where f = sum_list]) (auto simp: offer_of_def)

lemma offered_carried:
  assumes "trader_ok T a" "offered a s = Some it"
  shows "carried_ok T it"
  using assms char_okD(3)[of T "td_char a"] by (auto simp: trader_ok_def offered_def in_bag_def split: option.splits)

lemma receivable_slot:
  assumes T: "templates_ok T" and a: "trader_ok T a" and r: "receivable db a b (s # ss)"
  shows "slot_fits db a b s"
  unfolding slot_fits_def
proof (intro allI impI)
  fix it
  assume it: "offered a s = Some it"
  have room: "0 < free_cells (td_char b)" using r it by (simp add: receivable_def)
  have dbs: "db s" "hasFlag it FLAG_RARE \<Longrightarrow> \<not> HasItem (i_id it) (td_char b)"
    using r it by (auto simp: receivable_def)
  have "uint (i_quantity g) + uint (i_reserve it) \<le> uint (i_stackSize g)"
    if "bag (td_char b) 0 = Some g" "isType it ITEM_CURRENCY" for g
  proof -
    have "i_id it = 0xFFFF" using carried_okD(4)[OF T offered_carried[OF a it]] that(2) by simp
    then have "offers 0xFFFF a (s # ss) = unat (i_reserve it) + offers 0xFFFF a ss"
      using it by (simp add: offers_def offer_of_def)
    moreover have "unat (i_quantity g) + offers 0xFFFF a (s # ss) \<le> unat (i_stackSize g)"
      using r that(1) by (simp add: receivable_def in_bag_def)
    ultimately have "unat (i_quantity g) + unat (i_reserve it) \<le> unat (i_stackSize g)" by simp
    then have "int (unat (i_quantity g) + unat (i_reserve it)) \<le> int (unat (i_stackSize g))"
      by (simp only: of_nat_le_iff)
    then show ?thesis by simp
  qed
  then show "fits it (i_reserve it) (db s) (td_char b)"
    using room dbs by (auto simp: fits_def)
qed

lemma receivable_rest:
  assumes r: "receivable db a b (s # ss)" and d: "s \<notin> set ss" and g: "given s a a'" and t: "taken s a b b'"
  shows "receivable db a' b' ss"
proof -
  have off: "offered a' x = offered a x" if "x \<in> set ss" for x
    using that d g by (auto simp: given_def)
  have "filter (\<lambda>x. offered a' x \<noteq> None) ss = filter (\<lambda>x. offered a x \<noteq> None) ss"
    by (rule filter_cong) (simp_all add: off)
  moreover have "length (filter (\<lambda>x. offered a x \<noteq> None) ss) \<le> free_cells (td_char b')"
  proof -
    have "length (filter (\<lambda>x. offered a x \<noteq> None) (s # ss)) \<le> free_cells (td_char b)"
      using r unfolding receivable_def by blast
    moreover have "free_cells (td_char b) - (if offered a s = None then 0 else 1) \<le> free_cells (td_char b')"
      using t unfolding taken_def by blast
    ultimately show ?thesis by (cases "offered a s = None") simp_all
  qed
  moreover have "db x \<and> (hasFlag it FLAG_RARE \<longrightarrow> \<not> HasItem (i_id it) (td_char b') \<and>
      (\<forall>y \<in> set ss. \<forall>it'. y \<noteq> x \<longrightarrow> offered a y = Some it' \<longrightarrow> i_id it' \<noteq> i_id it))"
    if x: "x \<in> set ss" "offered a x = Some it" for x it
  proof -
    have "x \<noteq> s" using x d by auto
    have "x \<in> set (s # ss)" using x by simp
    with r x(2) have st: "db x" "hasFlag it FLAG_RARE \<Longrightarrow> \<not> HasItem (i_id it) (td_char b)"
      "\<And>y it'. hasFlag it FLAG_RARE \<Longrightarrow> y \<in> set (s # ss) \<Longrightarrow> y \<noteq> x \<Longrightarrow> offered a y = Some it' \<Longrightarrow> i_id it' \<noteq> i_id it"
      unfolding receivable_def by blast+
    have "HasItem (i_id it) (td_char b') \<Longrightarrow> HasItem (i_id it) (td_char b) \<or>
        (\<exists>it'. offered a s = Some it' \<and> i_id it' = i_id it)"
      using t unfolding taken_def by blast
    then show ?thesis using \<open>x \<noteq> s\<close> st(1,2) st(3)[of s] st(3) by auto
  qed
  moreover have "unat (i_quantity g') + offers 0xFFFF a' ss \<le> unat (i_stackSize g')" if g': "in_bag b' 0 = Some g'" for g'
  proof -
    obtain g0 where g0: "in_bag b 0 = Some g0" "unat (i_quantity g') \<le> unat (i_quantity g0) + offer_of 0xFFFF a s"
      "i_stackSize g' = i_stackSize g0" using t g' unfolding taken_def by blast
    have "offers 0xFFFF a' ss = offers 0xFFFF a ss" by (rule offers_cong) (rule off)
    moreover have "offers 0xFFFF a (s # ss) = offer_of 0xFFFF a s + offers 0xFFFF a ss" by (simp add: offers_def)
    moreover have "unat (i_quantity g0) + offers 0xFFFF a (s # ss) \<le> unat (i_stackSize g0)"
      using r g0(1) unfolding receivable_def by blast
    ultimately show ?thesis using g0(2,3) by simp
  qed
  ultimately show ?thesis unfolding receivable_def by (simp add: off)
qed


lemma trade_slots_step:
  assumes T: "templates_ok T"
  shows "trader_ok T a \<Longrightarrow> trader_ok T b \<Longrightarrow> distinct ss \<Longrightarrow>
    \<exists>a' b'. trade_slots T db ss (a, b) = Some (a', b') \<and> trader_ok T a' \<and> trader_ok T b' \<and>
      gave_all a ss a' \<and> took_all a ss b b' \<and>
      (receivable db a b ss \<longrightarrow> (\<forall>k. total_qty k (td_char b') = total_qty k (td_char b) + offers k a ss))"
proof (induction ss arbitrary: a b)
  case Nil
  then show ?case by (simp add: gave_all_def took_all_def offers_def)
next
  case (Cons s ss)
  obtain a1 b1 where st: "trade_slot T db s (a, b) = Some (a1, b1)" "trader_ok T a1" "trader_ok T b1"
    "given s a a1" "taken s a b b1"
    "slot_fits db a b s \<Longrightarrow> \<forall>k. total_qty k (td_char b1) = total_qty k (td_char b) + offer_of k a s"
    using trade_slot_step[OF T Cons.prems(1,2), of db s] by blast
  have d: "distinct ss" "s \<notin> set ss" using Cons.prems(3) by auto
  obtain a2 b2 where rest: "trade_slots T db ss (a1, b1) = Some (a2, b2)" "trader_ok T a2" "trader_ok T b2"
    "gave_all a1 ss a2" "took_all a1 ss b1 b2"
    "receivable db a1 b1 ss \<Longrightarrow> \<forall>k. total_qty k (td_char b2) = total_qty k (td_char b1) + offers k a1 ss"
    using Cons.IH[OF st(2,3) d(1)] by blast
  have off: "offers k a (s # ss) = offer_of k a s + offers k a1 ss" for k
  proof -
    have "offered a1 x = offered a x" if "x \<in> set ss" for x
      using st(4) that d(2) by (auto simp: given_def)
    then have "offers k a1 ss = offers k a ss" by (rule offers_cong)
    then show ?thesis by (simp add: offers_def)
  qed
  have "gave_all a (s # ss) a2"
    unfolding gave_all_def
  proof (intro conjI allI impI)
    show "same_trader a a2"
      using same_trader_trans[OF given_same[OF st(4)]] rest(4) by (simp add: gave_all_def)
    show "free_cells (td_char a) \<le> free_cells (td_char a2)"
      using st(4) rest(4) unfolding given_def gave_all_def by linarith
    show "offered a2 t = (if t \<in> set (s # ss) then None else offered a t)" for t
      using st(4) rest(4) unfolding given_def gave_all_def by simp
    show "HasItem j (td_char a)" if "HasItem j (td_char a2)" for j
      using st(4) rest(4) that unfolding given_def gave_all_def by blast
    show "\<exists>g. in_bag a 0 = Some g \<and> i_quantity g' \<le> i_quantity g \<and> i_stackSize g' = i_stackSize g"
      if g': "in_bag a2 0 = Some g'" for g'
    proof -
      obtain g1 where "in_bag a1 0 = Some g1" "i_quantity g' \<le> i_quantity g1" "i_stackSize g' = i_stackSize g1"
        using rest(4) g' unfolding gave_all_def by blast
      moreover from this(1) obtain g where "in_bag a 0 = Some g" "i_quantity g1 \<le> i_quantity g"
        "i_stackSize g1 = i_stackSize g" using st(4) unfolding given_def by blast
      ultimately show ?thesis by (auto intro: order_trans)
    qed
    show "total_qty k (td_char a2) + offers k a (s # ss) = total_qty k (td_char a)" for k
    proof -
      have "total_qty k (td_char a1) + offer_of k a s = total_qty k (td_char a)"
        using st(4) unfolding given_def by blast
      moreover have "total_qty k (td_char a2) + offers k a1 ss = total_qty k (td_char a1)"
        using rest(4) unfolding gave_all_def by blast
      ultimately show ?thesis by (simp add: off)
    qed
  qed
  moreover have "took_all a (s # ss) b b2"
    unfolding took_all_def
  proof (intro conjI allI impI)
    show "same_trader b b2"
      using same_trader_trans[OF taken_same[OF st(5)]] rest(5) by (simp add: took_all_def)
    show "\<exists>y. offered b2 t = Some y \<and> restocked x y" if x: "offered b t = Some x" for t x
    proof -
      obtain y where "offered b1 t = Some y" "restocked x y" using st(5) x unfolding taken_def by blast
      moreover from this(1) obtain z where "offered b2 t = Some z" "restocked y z"
        using rest(5) unfolding took_all_def by blast
      ultimately show ?thesis using restocked_trans by blast
    qed
    show "offered b2 t = None" if "offered b t = None" for t
      using taken_None[OF st(5) Cons.prems(2) st(3) that] rest(5) unfolding took_all_def by blast
    show "total_qty k (td_char b2) \<le> total_qty k (td_char b) + offers k a (s # ss)" for k
    proof -
      have "total_qty k (td_char b1) \<le> total_qty k (td_char b) + offer_of k a s"
        using st(5) unfolding taken_def by blast
      moreover have "total_qty k (td_char b2) \<le> total_qty k (td_char b1) + offers k a1 ss"
        using rest(5) unfolding took_all_def by blast
      ultimately show ?thesis by (simp add: off)
    qed
  qed
  moreover have "total_qty k (td_char b2) = total_qty k (td_char b) + offers k a (s # ss)"
    if r: "receivable db a b (s # ss)" for k
    using st(6)[OF receivable_slot[OF T Cons.prems(1) r]] rest(6)[OF receivable_rest[OF r d(2) st(4,5)]]
    by (simp add: off)
  ultimately show ?case using st(1) rest(1-3) by auto
qed

text \<open>The slots of a window are the nine that \<open>DoTrade\<close> visits.\<close>

abbreviation offers_all :: "nat \<Rightarrow> trader \<Rightarrow> nat" where
  "offers_all k p \<equiv> offers k p [0..<9]"

lemma took_offers:
  assumes "took_all a ss b b'"
  shows "offers k b' ts = offers k b ts"
proof -
  have "offer_of k b' t = offer_of k b t" for t
  proof (cases "offered b t")
    case None
    then show ?thesis using assms by (auto simp: took_all_def offer_of_def)
  next
    case (Some x)
    then obtain y where "offered b' t = Some y" "restocked x y" using assms unfolding took_all_def by blast
    then show ?thesis using Some restocked_fields(1,2)[of x y] by (simp add: offer_of_def)
  qed
  then have "offer_of k b' = offer_of k b" by blast
  then show ?thesis by (simp add: offers_def)
qed

lemma took_receivable:
  assumes r: "receivable db b a ts" and g: "gave_all a ss a'" and t: "took_all a ss b b'"
  shows "receivable db b' a' ts"
proof -
  have some: "offered b' s = Some y \<Longrightarrow> \<exists>x. offered b s = Some x \<and> restocked x y" for s y
    using t unfolding took_all_def by (metis option.exhaust option.distinct(1) option.inject)
  have none: "offered b' s = None \<longleftrightarrow> offered b s = None" for s
    using t some unfolding took_all_def by (metis option.exhaust option.distinct(1))
  have "length (filter (\<lambda>s. offered b' s \<noteq> None) ts) \<le> free_cells (td_char a')"
  proof -
    have "length (filter (\<lambda>s. offered b s \<noteq> None) ts) \<le> free_cells (td_char a)"
      using r unfolding receivable_def by blast
    moreover have "free_cells (td_char a) \<le> free_cells (td_char a')" using g unfolding gave_all_def by blast
    ultimately show ?thesis by (simp add: none)
  qed
  moreover have "db s \<and> (hasFlag y FLAG_RARE \<longrightarrow> \<not> HasItem (i_id y) (td_char a') \<and>
      (\<forall>s' \<in> set ts. \<forall>y'. s' \<noteq> s \<longrightarrow> offered b' s' = Some y' \<longrightarrow> i_id y' \<noteq> i_id y))"
    if s: "s \<in> set ts" "offered b' s = Some y" for s y
  proof -
    obtain x where x: "offered b s = Some x" "restocked x y" using some[OF s(2)] by blast
    note f = restocked_fields(1,8)[OF x(2)]
    have st: "db s" "hasFlag x FLAG_RARE \<Longrightarrow> \<not> HasItem (i_id x) (td_char a)"
      "\<And>s' x'. hasFlag x FLAG_RARE \<Longrightarrow> s' \<in> set ts \<Longrightarrow> s' \<noteq> s \<Longrightarrow> offered b s' = Some x' \<Longrightarrow> i_id x' \<noteq> i_id x"
      using r s(1) x(1) unfolding receivable_def by blast+
    have "\<not> HasItem (i_id x) (td_char a')" if "hasFlag x FLAG_RARE"
      using st(2)[OF that] g unfolding gave_all_def by blast
    moreover have "i_id y' \<noteq> i_id x" if "hasFlag x FLAG_RARE" "s' \<in> set ts" "s' \<noteq> s" "offered b' s' = Some y'" for s' y'
      using some[OF that(4)] st(3)[OF that(1-3)] restocked_fields(1) by auto
    ultimately show ?thesis using st(1) by (auto simp: f)
  qed
  moreover have "unat (i_quantity g') + offers 0xFFFF b' ts \<le> unat (i_stackSize g')" if g': "in_bag a' 0 = Some g'" for g'
  proof -
    obtain g0 where g0: "in_bag a 0 = Some g0" "i_quantity g' \<le> i_quantity g0" "i_stackSize g' = i_stackSize g0"
      using g g' unfolding gave_all_def by blast
    moreover have "unat (i_quantity g0) + offers 0xFFFF b ts \<le> unat (i_stackSize g0)"
      using r g0(1) unfolding receivable_def by blast
    ultimately show ?thesis using took_offers[OF t] by (simp add: word_le_nat_alt)
  qed
  ultimately show ?thesis unfolding receivable_def by blast
qed


section \<open>The packets\<close>

lemma uc_SetItem_GetItem:
  "uc_GetItem t (snd (uc_SetItem s p c)) =
     (if t = s \<and> s < length (u_items c) \<and> \<not> u_lock c then p else uc_GetItem t c)"
  by (auto simp: uc_SetItem_def uc_GetItem_def Let_def nth_list_update)

lemma uc_SetItem_fields [simp]:
  "length (u_items (snd (uc_SetItem s p c))) = length (u_items c)"
  "u_type (snd (uc_SetItem s p c)) = u_type c" "u_lock (snd (uc_SetItem s p c)) = u_lock c"
  by (simp_all add: uc_SetItem_def Let_def)

lemma uc_lock_fields [simp]:
  "uc_GetItem s (uc_SetLock c) = uc_GetItem s c" "uc_GetItem s (uc_UnLock c) = uc_GetItem s c"
  "uc_GetItem s (uc_SetType y c) = uc_GetItem s c"
  "u_items (uc_SetLock c) = u_items c" "u_items (uc_UnLock c) = u_items c" "u_items (uc_SetType y c) = u_items c"
  "u_type (uc_SetLock c) = u_type c" "u_type (uc_UnLock c) = u_type c"
  "u_count (uc_SetLock c) = u_count c" "u_lock (uc_SetLock c)"
  by (simp_all add: uc_SetLock_def uc_UnLock_def uc_SetType_def uc_GetItem_def)

text \<open>Two traders who differ in what does not matter here: the same cells filled, the same amounts.\<close>

definition same_bag :: "templates \<Rightarrow> trader \<Rightarrow> trader \<Rightarrow> bool" where
  "same_bag T p p' \<longleftrightarrow> char_ok T (td_char p') \<and> (\<forall>s. in_bag p' s = None \<longleftrightarrow> in_bag p s = None) \<and>
     (\<forall>k. total_qty k (td_char p') = total_qty k (td_char p)) \<and>
     td_targid p' = td_targid p \<and> td_pending_id p' = td_pending_id p \<and>
     td_pending_targid p' = td_pending_targid p"

lemma same_bag_refl: "char_ok T (td_char p) \<Longrightarrow> same_bag T p p"
  by (simp add: same_bag_def)

lemma same_bag_trans: "same_bag T p q \<Longrightarrow> same_bag T q r \<Longrightarrow> same_bag T p r"
  by (simp add: same_bag_def)

lemma same_bag_window [simp]: "same_bag T p (on_window f q) = same_bag T p q"
  by (simp add: same_bag_def on_window_def in_bag_def)

lemma set_reserve_same:
  assumes ch: "char_ok T (td_char p)" and it: "in_bag p s = Some it"
  shows "\<exists>p'. set_reserve s r p = Some p' \<and> same_bag T p p' \<and> td_window p' = td_window p \<and>
    in_bag p' s = Some (setReserve r it)"
proof -
  let ?p' = "p\<lparr>td_char := on_storage LOC_INVENTORY (set_cell s (Some (setReserve r it))) (td_char p)\<rparr>"
  note st = set_reserve_step[OF ch it, where r = r]
  have "same_bag T p ?p'"
    using st(2,3) it unfolding same_bag_def st(4) by simp
  then show ?thesis using st(1,4,7) by auto
qed

lemma release_same:
  assumes "char_ok T (td_char p)" "\<forall>s. Some s \<in> set ps \<longrightarrow> in_bag p s \<noteq> None"
  shows "\<exists>p'. release_offers ps p = Some p' \<and> same_bag T p p' \<and> td_window p' = td_window p"
  using assms
proof (induction ps arbitrary: p)
  case Nil
  then show ?case by (simp add: same_bag_refl)
next
  case (Cons o' ps)
  show ?case
  proof (cases o')
    case None
    then show ?thesis using Cons by simp
  next
    case (Some s)
    then obtain it where "in_bag p s = Some it" using Cons.prems(2) by auto
    from set_reserve_same[OF Cons.prems(1) this, of 0] obtain p1 where
      p1: "set_reserve s 0 p = Some p1" "same_bag T p p1" "td_window p1 = td_window p" by blast
    have "\<forall>s. Some s \<in> set ps \<longrightarrow> in_bag p1 s \<noteq> None"
      using Cons.prems(2) p1(2) by (auto simp: same_bag_def)
    with Cons.IH[of p1] p1 obtain p2 where "release_offers ps p1 = Some p2" "same_bag T p1 p2"
      "td_window p2 = td_window p1" by (auto simp: same_bag_def)
    then show ?thesis using Some p1 same_bag_trans[OF p1(2)] by auto
  qed
qed

lemma window_ok_pointers:
  assumes "window_ok p" "Some s \<in> set (u_items (td_window p))"
  shows "in_bag p s \<noteq> None"
proof -
  obtain i where "i < length (u_items (td_window p))" "u_items (td_window p) ! i = Some s"
    using assms(2) by (auto simp: in_set_conv_nth)
  then have "uc_GetItem i (td_window p) = Some s" by (simp add: uc_GetItem_def)
  then show ?thesis using window_okD(3)[OF assms(1)] by blast
qed

lemma window_ok_empty [simp]: "window_ok (on_window (\<lambda>_. uc_empty) p)"
  by (auto simp: window_ok_def uc_empty_def uc_GetItem_def UCONTAINER_SIZE_def)

lemma clean_window_step:
  assumes "trader_ok T p"
  shows "\<exists>p'. clean_window p = Some p' \<and> trader_ok T p' \<and> same_bag T p p' \<and> td_window p' = uc_empty"
proof (cases "u_type (td_window p) = UCONTAINER_TRADE")
  case True
  have "char_ok T (td_char p)" "window_ok p" using assms by (auto simp: trader_ok_def)
  then obtain p' where "release_offers (u_items (td_window p)) p = Some p'" "same_bag T p p'"
    using release_same window_ok_pointers by blast
  then show ?thesis using True by (auto simp: clean_window_def trader_ok_def same_bag_def)
next
  case False
  then show ?thesis
    using assms by (auto simp: clean_window_def trader_ok_def same_bag_def)
qed

lemma window_ok_same_bag:
  assumes "window_ok p" "same_bag T p p'" "td_window p' = td_window p"
  shows "window_ok p'"
  using assms by (simp add: window_ok_def same_bag_def)


lemma acceptable_iff:
  assumes "trader_ok T a"
  shows "\<exists>r. acceptable ss a b = Some r \<and>
    (r \<longleftrightarrow> (\<forall>s \<in> set ss. \<forall>it. offered a s = Some it \<longrightarrow> \<not> (hasFlag it FLAG_RARE \<and> HasItem (i_id it) (td_char b))))"
proof (induction ss)
  case (Cons s ss)
  show ?case
  proof (cases "uc_GetItem s (td_window a)")
    case None
    then show ?thesis using Cons by (auto simp: offered_def)
  next
    case (Some q)
    then obtain it where "in_bag a q = Some it" using window_okD(3)[of a s q] assms by (auto simp: trader_ok_def)
    then show ?thesis using Some Cons by (auto simp: offered_def)
  qed
qed auto

text \<open>
  What \<open>CanTrade\<close> does not test: that the count of the window is right, that the gil fits into the
  purse, that a rare item is offered once, and that the database works.
\<close>

definition trade_fits :: "(nat \<Rightarrow> bool) \<Rightarrow> trader \<Rightarrow> trader \<Rightarrow> bool" where
  "trade_fits db a b \<longleftrightarrow>
     length (filter (\<lambda>s. offered a s \<noteq> None) [0..<9]) \<le> unat (u_count (td_window a)) \<and>
     (\<forall>s < 9. \<forall>it. offered a s = Some it \<longrightarrow> db s \<and> (hasFlag it FLAG_RARE \<longrightarrow>
        (\<forall>s' < 9. \<forall>it'. s' \<noteq> s \<longrightarrow> offered a s' = Some it' \<longrightarrow> i_id it' \<noteq> i_id it))) \<and>
     (\<forall>g. in_bag b 0 = Some g \<longrightarrow> unat (i_quantity g) + offers_all 0xFFFF a \<le> unat (i_stackSize g))"

lemma CanTrade_step:
  assumes "trader_ok T a"
  shows "\<exists>r. CanTrade m a b = Some r \<and> (r \<longrightarrow> trade_fits db a b \<longrightarrow> receivable db a b [0..<9])"
proof -
  obtain r where r: "acceptable [0..<9] a b = Some r"
    "r \<Longrightarrow> \<forall>s < 9. \<forall>it. offered a s = Some it \<longrightarrow> \<not> (hasFlag it FLAG_RARE \<and> HasItem (i_id it) (td_char b))"
    using acceptable_iff[OF assms, of "[0..<9]" b] by (auto simp del: upt_rec_numeral)
  let ?n = "u_count (td_window a)" and ?f = "GetFreeSlotsCount (storage (td_char b) LOC_INVENTORY)"
  show ?thesis
  proof (cases "m \<or> ?f < ?n")
    case True
    then show ?thesis by (auto simp: CanTrade_def)
  next
    case False
    then have "CanTrade m a b = Some r" using r(1) by (simp add: CanTrade_def)
    moreover have "receivable db a b [0..<9]" if "r" "trade_fits db a b"
    proof -
      have "unat ?n \<le> free_cells (td_char b)" using False by (simp add: not_less word_le_nat_alt)
      then show ?thesis
        using that(2) r(2)[OF that(1)] unfolding receivable_def trade_fits_def by (auto simp del: upt_rec_numeral)
    qed
    ultimately show ?thesis by blast
  qed
qed

text \<open>The exchange: everything offered changes hands, or nothing happens.\<close>

definition swapped :: "trader \<Rightarrow> trader \<Rightarrow> trader \<Rightarrow> trader \<Rightarrow> bool" where
  "swapped a b a' b' \<longleftrightarrow>
     (\<forall>k. total_qty k (td_char a') + offers_all k a \<le> total_qty k (td_char a) + offers_all k b) \<and>
     (\<forall>k. total_qty k (td_char b') + offers_all k b \<le> total_qty k (td_char b) + offers_all k a)"

definition swapped_exactly :: "trader \<Rightarrow> trader \<Rightarrow> trader \<Rightarrow> trader \<Rightarrow> bool" where
  "swapped_exactly a b a' b' \<longleftrightarrow>
     (\<forall>k. total_qty k (td_char a') + offers_all k a = total_qty k (td_char a) + offers_all k b) \<and>
     (\<forall>k. total_qty k (td_char b') + offers_all k b = total_qty k (td_char b) + offers_all k a)"

lemma both_DoTrade:
  assumes T: "templates_ok T" and a: "trader_ok T a" and b: "trader_ok T b"
  shows "\<exists>a1 b1 a2 b2. DoTrade T db (a, b) = Some (a1, b1) \<and> DoTrade T db' (b1, a1) = Some (b2, a2) \<and>
    trader_ok T a2 \<and> trader_ok T b2 \<and> same_trader a a2 \<and> same_trader b b2 \<and> swapped a b a2 b2 \<and>
    (receivable db a b [0..<9] \<longrightarrow> receivable db' b a [0..<9] \<longrightarrow> swapped_exactly a b a2 b2)"
proof -
  obtain a1 b1 where f: "DoTrade T db (a, b) = Some (a1, b1)" "trader_ok T a1" "trader_ok T b1"
    "gave_all a [0..<9] a1" "took_all a [0..<9] b b1"
    "receivable db a b [0..<9] \<Longrightarrow> \<forall>k. total_qty k (td_char b1) = total_qty k (td_char b) + offers_all k a"
    using trade_slots_step[OF T a b distinct_upt, of db 0 9] unfolding DoTrade_def by blast
  obtain b2 a2 where s: "DoTrade T db' (b1, a1) = Some (b2, a2)" "trader_ok T b2" "trader_ok T a2"
    "gave_all b1 [0..<9] b2" "took_all b1 [0..<9] a1 a2"
    "receivable db' b1 a1 [0..<9] \<Longrightarrow> \<forall>k. total_qty k (td_char a2) = total_qty k (td_char a1) + offers_all k b1"
    using trade_slots_step[OF T f(3,2) distinct_upt, of db' 0 9] unfolding DoTrade_def by blast
  have off: "offers_all k b1 = offers_all k b" for k by (rule took_offers[OF f(5)])
  have amounts: "total_qty k (td_char a1) + offers_all k a = total_qty k (td_char a)"
    "total_qty k (td_char b1) \<le> total_qty k (td_char b) + offers_all k a"
    "total_qty k (td_char b2) + offers_all k b = total_qty k (td_char b1)"
    "total_qty k (td_char a2) \<le> total_qty k (td_char a1) + offers_all k b" for k
    using f(4,5) s(4,5) unfolding gave_all_def took_all_def off[symmetric] by blast+
  have "swapped a b a2 b2"
    unfolding swapped_def
  proof (intro conjI allI)
    show "total_qty k (td_char a2) + offers_all k a \<le> total_qty k (td_char a) + offers_all k b" for k
      using amounts(1,4)[of k] by linarith
    show "total_qty k (td_char b2) + offers_all k b \<le> total_qty k (td_char b) + offers_all k a" for k
      using amounts(2,3)[of k] by linarith
  qed
  moreover have "swapped_exactly a b a2 b2"
    if r: "receivable db a b [0..<9]" "receivable db' b a [0..<9]"
  proof -
    have "total_qty k (td_char b1) = total_qty k (td_char b) + offers_all k a"
      "total_qty k (td_char a2) = total_qty k (td_char a1) + offers_all k b" for k
      using f(6)[OF r(1)] s(6)[OF took_receivable[OF r(2) f(4,5)]] off by simp_all
    then show ?thesis
      unfolding swapped_exactly_def
    proof (intro conjI allI)
      fix k
      assume e: "\<And>k. total_qty k (td_char b1) = total_qty k (td_char b) + offers_all k a"
        "\<And>k. total_qty k (td_char a2) = total_qty k (td_char a1) + offers_all k b"
      show "total_qty k (td_char a2) + offers_all k a = total_qty k (td_char a) + offers_all k b"
        using amounts(1)[of k] e(2)[of k] by linarith
      show "total_qty k (td_char b2) + offers_all k b = total_qty k (td_char b) + offers_all k a"
        using amounts(3)[of k] e(1)[of k] by linarith
    qed
  qed
  moreover have "same_trader a a2" "same_trader b b2"
    using f(4,5) s(4,5) same_trader_trans unfolding gave_all_def took_all_def by blast+
  ultimately show ?thesis using f(1) s(1-3) by blast
qed


lemma locked_same [simp]:
  "offered (on_window uc_SetLock p) s = offered p s" "offers k (on_window uc_SetLock p) ss = offers k p ss"
  "window_ok (on_window uc_SetLock p) = window_ok p" "trader_ok T (on_window uc_SetLock p) = trader_ok T p"
  "acceptable ss (on_window uc_SetLock p) b = acceptable ss p b"
  "acceptable ss b (on_window uc_SetLock p) = acceptable ss b p"
  "CanTrade m (on_window uc_SetLock p) b = CanTrade m p b"
  "CanTrade m b (on_window uc_SetLock p) = CanTrade m b p"
proof -
  show off: "offered (on_window uc_SetLock p) s = offered p s" for s
    by (simp add: offered_def split: option.split)
  show "offers k (on_window uc_SetLock p) ss = offers k p ss"
    by (rule offers_cong) (rule off)
  show w: "window_ok (on_window uc_SetLock p) = window_ok p" by (simp add: window_ok_def)
  then show "trader_ok T (on_window uc_SetLock p) = trader_ok T p" by (simp add: trader_ok_def)
  show x: "acceptable ss (on_window uc_SetLock p) b = acceptable ss p b" for ss
    by (induction ss) (simp_all split: option.split)
  show y: "acceptable ss b (on_window uc_SetLock p) = acceptable ss b p" for ss
    by (induction ss) (simp_all split: option.split)
  show "CanTrade m (on_window uc_SetLock p) b = CanTrade m p b" by (simp add: CanTrade_def x)
  show "CanTrade m b (on_window uc_SetLock p) = CanTrade m b p" by (simp add: CanTrade_def y)
qed

lemma locked_fits [simp]:
  "trade_fits db (on_window uc_SetLock p) b = trade_fits db p b"
  "trade_fits db b (on_window uc_SetLock p) = trade_fits db b p"
  by (simp_all add: trade_fits_def)

lemma locked_swapped [simp]:
  "swapped (on_window uc_SetLock a) b a' b' = swapped a b a' b'"
  "swapped_exactly (on_window uc_SetLock a) b a' b' = swapped_exactly a b a' b'"
  by (simp_all add: swapped_def swapped_exactly_def)

lemma exchange_step:
  fixes e :: trade_env
  assumes T: "templates_ok T" and ok: "trader_ok T (W me)" "trader_ok T (W t)" and ne: "me \<noteq> t"
  defines "m \<equiv> te_monstrosity e me \<or> te_monstrosity e t"
  shows "\<exists>a' b'. exchange T e db db' me t W = Some (W(me := a', t := b')) \<and> trader_ok T a' \<and> trader_ok T b' \<and>
    same_trader (W me) a' \<and> same_trader (W t) b' \<and>
    (if CanTrade m (W me) (W t) = Some True \<and> CanTrade m (W t) (W me) = Some True
     then swapped (W me) (W t) a' b' \<and>
       (trade_fits db (W me) (W t) \<longrightarrow> trade_fits db' (W t) (W me) \<longrightarrow> swapped_exactly (W me) (W t) a' b')
     else a' = W me \<and> b' = W t)"
proof -
  obtain r where r: "CanTrade m (W me) (W t) = Some r"
    "r \<Longrightarrow> trade_fits db (W me) (W t) \<Longrightarrow> receivable db (W me) (W t) [0..<9]"
    using CanTrade_step[OF ok(1)] by blast
  obtain r' where r': "CanTrade m (W t) (W me) = Some r'"
    "r' \<Longrightarrow> trade_fits db' (W t) (W me) \<Longrightarrow> receivable db' (W t) (W me) [0..<9]"
    using CanTrade_step[OF ok(2)] by blast
  show ?thesis
  proof (cases "r \<and> r'")
    case False
    then have "exchange T e db db' me t W = Some W"
      using r(1) r'(1) by (auto simp: exchange_def m_def split: bool.split)
    moreover have "W = W(me := W me, t := W t)" by simp
    ultimately show ?thesis using ok False r(1) r'(1) by (intro exI[of _ "W me"] exI[of _ "W t"]) auto
  next
    case True
    obtain a1 b1 a2 b2 where d: "DoTrade T db (W me, W t) = Some (a1, b1)" "DoTrade T db' (b1, a1) = Some (b2, a2)"
      "trader_ok T a2" "trader_ok T b2" "same_trader (W me) a2" "same_trader (W t) b2"
      "swapped (W me) (W t) a2 b2"
      "receivable db (W me) (W t) [0..<9] \<Longrightarrow> receivable db' (W t) (W me) [0..<9] \<Longrightarrow>
        swapped_exactly (W me) (W t) a2 b2"
      using both_DoTrade[OF T ok, of db db'] by blast
    have "exchange T e db db' me t W = Some (W(me := a2, t := b2))"
      using r(1) r'(1) True d(1,2) by (simp add: exchange_def m_def swap_def)
    then show ?thesis using d(3-8) r r' True by (intro exI[of _ a2] exI[of _ b2]) auto
  qed
qed

lemma clean_pending_simps [simp]:
  "td_char (clean_pending p) = td_char p" "td_window (clean_pending p) = td_window p"
  "td_pending_id (clean_pending p) = 0" "td_pending_targid (clean_pending p) = 0"
  "trader_ok T (clean_pending p) = trader_ok T p"
  by (simp_all add: clean_pending_def trader_ok_def window_ok_def in_bag_def)

lemma both_clean_step:
  assumes ok: "trader_ok T (W a)" "trader_ok T (W b)" and ne: "a \<noteq> b"
  shows "\<exists>W'. both_clean a b W = Some W' \<and> trader_ok T (W' a) \<and> trader_ok T (W' b) \<and>
    (\<forall>p. p \<noteq> a \<longrightarrow> p \<noteq> b \<longrightarrow> W' p = W p) \<and>
    td_window (W' a) = uc_empty \<and> td_window (W' b) = uc_empty \<and>
    td_pending_id (W' a) = 0 \<and> td_pending_targid (W' a) = 0 \<and> td_pending_id (W' b) = 0 \<and> td_pending_targid (W' b) = 0 \<and>
    (\<forall>k. total_qty k (td_char (W' a)) = total_qty k (td_char (W a)) \<and>
         total_qty k (td_char (W' b)) = total_qty k (td_char (W b)))"
proof -
  obtain p where p: "clean_window (W a) = Some p" "trader_ok T p" "same_bag T (W a) p" "td_window p = uc_empty"
    using clean_window_step[OF ok(1)] by blast
  obtain q where q: "clean_window (W b) = Some q" "trader_ok T q" "same_bag T (W b) q" "td_window q = uc_empty"
    using clean_window_step[OF ok(2)] by blast
  have "both_clean a b W = Some (W(a := clean_pending p, b := clean_pending q))"
    using p(1) q(1) ne by (auto simp: both_clean_def cleanTradeTargets_def Let_def fun_eq_iff)
  then show ?thesis using p q ne by (auto simp: same_bag_def)
qed

lemma trade_make_step:
  assumes T: "templates_ok T" and ok: "trader_ok T (W me)" "trader_ok T (W t)" and ne: "me \<noteq> t"
    and part: "partner e me W = Some t" and lock: "u_lock (td_window (W t))"
  defines "m \<equiv> te_monstrosity e me \<or> te_monstrosity e t"
  shows "\<exists>W'. trade_res T e db db' me Make W = Some W' \<and> trader_ok T (W' me) \<and> trader_ok T (W' t) \<and>
    (\<forall>p. p \<noteq> me \<longrightarrow> p \<noteq> t \<longrightarrow> W' p = W p) \<and>
    td_window (W' me) = uc_empty \<and> td_window (W' t) = uc_empty \<and>
    td_pending_targid (W' me) = 0 \<and> td_pending_targid (W' t) = 0 \<and>
    (if CanTrade m (W me) (W t) = Some True \<and> CanTrade m (W t) (W me) = Some True
     then swapped (W me) (W t) (W' me) (W' t) \<and>
       (trade_fits db (W me) (W t) \<longrightarrow> trade_fits db' (W t) (W me) \<longrightarrow> swapped_exactly (W me) (W t) (W' me) (W' t))
     else \<forall>k. total_qty k (td_char (W' me)) = total_qty k (td_char (W me)) \<and>
         total_qty k (td_char (W' t)) = total_qty k (td_char (W t)))"
proof -
  let ?W1 = "W(me := on_window uc_SetLock (W me))"
  have ok1: "trader_ok T (?W1 me)" "trader_ok T (?W1 t)" using ok ne by auto
  have at: "?W1 me = on_window uc_SetLock (W me)" "?W1 t = W t" using ne by auto
  obtain a' b' where x: "exchange T e db db' me t ?W1 = Some (?W1(me := a', t := b'))" "trader_ok T a'" "trader_ok T b'"
    "if CanTrade m (W me) (W t) = Some True \<and> CanTrade m (W t) (W me) = Some True
     then swapped (W me) (W t) a' b' \<and>
       (trade_fits db (W me) (W t) \<longrightarrow> trade_fits db' (W t) (W me) \<longrightarrow> swapped_exactly (W me) (W t) a' b')
     else td_char a' = td_char (W me) \<and> td_char b' = td_char (W t)"
  proof -
    obtain a' b' where y: "exchange T e db db' me t ?W1 = Some (?W1(me := a', t := b'))" "trader_ok T a'" "trader_ok T b'"
      "if CanTrade m (W me) (W t) = Some True \<and> CanTrade m (W t) (W me) = Some True
       then swapped (W me) (W t) a' b' \<and>
         (trade_fits db (W me) (W t) \<longrightarrow> trade_fits db' (W t) (W me) \<longrightarrow> swapped_exactly (W me) (W t) a' b')
       else a' = on_window uc_SetLock (W me) \<and> b' = W t"
      using exchange_step[OF T ok1 ne, of e db db'] unfolding at m_def[symmetric] locked_same locked_fits locked_swapped
      by blast
    show thesis by (rule that[OF y(1-3)]) (use y(4) in \<open>simp split: if_splits\<close>)
  qed
  let ?W2 = "?W1(me := a', t := b')"
  have "trader_ok T (?W2 me)" "trader_ok T (?W2 t)" using x(2,3) ne by auto
  from both_clean_step[OF this ne] obtain W' where W': "both_clean me t ?W2 = Some W'"
    "trader_ok T (W' me)" "trader_ok T (W' t)" "\<forall>p. p \<noteq> me \<longrightarrow> p \<noteq> t \<longrightarrow> W' p = ?W2 p"
    "td_window (W' me) = uc_empty" "td_window (W' t) = uc_empty" "td_pending_targid (W' me) = 0"
    "td_pending_targid (W' t) = 0"
    "\<forall>k. total_qty k (td_char (W' me)) = total_qty k (td_char (?W2 me)) \<and>
         total_qty k (td_char (W' t)) = total_qty k (td_char (?W2 t))" by blast
  have tot: "total_qty k (td_char (W' me)) = total_qty k (td_char a')"
    "total_qty k (td_char (W' t)) = total_qty k (td_char b')" for k using W'(9) ne by auto
  have "trade_res T e db db' me Make W = Some W'"
    using part lock x(1) W'(1) ne by (simp add: trade_res_def Let_def)
  moreover have "\<forall>p. p \<noteq> me \<longrightarrow> p \<noteq> t \<longrightarrow> W' p = W p" using W'(4) by simp
  ultimately have known: "trade_res T e db db' me Make W = Some W' \<and> trader_ok T (W' me) \<and> trader_ok T (W' t) \<and>
    (\<forall>p. p \<noteq> me \<longrightarrow> p \<noteq> t \<longrightarrow> W' p = W p) \<and>
    td_window (W' me) = uc_empty \<and> td_window (W' t) = uc_empty \<and>
    td_pending_targid (W' me) = 0 \<and> td_pending_targid (W' t) = 0"
    using W'(2,3,5-8) by blast
  show ?thesis
  proof (cases "CanTrade m (W me) (W t) = Some True \<and> CanTrade m (W t) (W me) = Some True")
    case True
    show ?thesis
      using known x(4) unfolding if_P[OF True] swapped_def swapped_exactly_def tot[symmetric] by blast
  next
    case False
    show ?thesis using known x(4) unfolding if_not_P[OF False] by (intro exI[of _ W']) (simp add: tot)
  qed
qed


section \<open>Every packet keeps the traders in order\<close>

definition traders_ok :: "templates \<Rightarrow> traders \<Rightarrow> bool" where
  "traders_ok T W \<longleftrightarrow> (\<forall>k. trader_ok T (W k)) \<and> (\<forall>k. td_pending_id (W k) = k \<longrightarrow> td_pending_targid (W k) = 0)"

definition keeps_amounts :: "templates \<Rightarrow> traders \<Rightarrow> traders \<Rightarrow> bool" where
  "keeps_amounts T W W' \<longleftrightarrow> traders_ok T W' \<and> (\<forall>p k. total_qty k (td_char (W' p)) = total_qty k (td_char (W p)))"

lemma partner_other:
  assumes "traders_ok T W" "partner e me W = Some t"
  shows "t \<noteq> me"
  using assms by (auto simp: traders_ok_def partner_def GetEntity_def split: if_splits option.splits)

lemma window_ok_put:
  assumes w: "window_ok p" and s: "slot < 9"
    and v: "\<And>q. v = Some q \<Longrightarrow> in_bag p q \<noteq> None \<and> (\<forall>s. uc_GetItem s (td_window p) \<noteq> Some q)"
  shows "window_ok (on_window (\<lambda>c. snd (uc_SetItem slot v c)) p)"
  unfolding window_ok_def
proof (intro conjI allI impI)
  let ?p = "on_window (\<lambda>c. snd (uc_SetItem slot v c)) p"
  show "length (u_items (td_window ?p)) = UCONTAINER_SIZE" using window_okD(1)[OF w] by simp
  show "u_type (td_window ?p) = UCONTAINER_EMPTY \<or> u_type (td_window ?p) = UCONTAINER_TRADE"
    using window_okD(5)[OF w] by simp
  show "x < 9" "in_bag ?p q \<noteq> None" if "uc_GetItem x (td_window ?p) = Some q" for x q
    using that s v window_okD(2,3)[OF w] by (auto simp: uc_SetItem_GetItem split: if_splits)
  show "x = y" if "uc_GetItem x (td_window ?p) = Some q" "uc_GetItem y (td_window ?p) = Some q" for x y q
    using that v window_okD(4)[OF w] by (auto simp: uc_SetItem_GetItem split: if_splits)
qed

lemma set_reserve_ok:
  assumes "trader_ok T p" "in_bag p s = Some it"
  shows "\<exists>p'. set_reserve s r p = Some p' \<and> trader_ok T p' \<and> same_bag T p p' \<and> td_window p' = td_window p \<and>
    in_bag p' s = Some (setReserve r it)"
proof -
  have "char_ok T (td_char p)" "window_ok p" using assms(1) by (auto simp: trader_ok_def)
  with set_reserve_same[OF this(1) assms(2), of r] window_ok_same_bag[OF this(2)] show ?thesis
    by (auto simp: trader_ok_def same_bag_def)
qed

lemma put_ok:
  assumes "trader_ok T p" "slot < 9"
    and "\<And>q. v = Some q \<Longrightarrow> in_bag p q \<noteq> None \<and> (\<forall>s. uc_GetItem s (td_window p) \<noteq> Some q)"
  shows "trader_ok T (on_window (\<lambda>c. snd (uc_SetItem slot v c)) p)"
  using assms window_ok_put[of p slot v] by (simp add: trader_ok_def)

lemma offer_keeps:
  assumes ok: "trader_ok T p" and it: "in_bag p idx = Some it" and slot: "slot < 9"
    and free: "\<And>s. uc_GetItem s (td_window p) \<noteq> Some idx"
  shows "\<exists>p'. offer e slot idx n it p = Some p' \<and> trader_ok T p' \<and> same_bag T p p'"
proof -
  let ?put = "\<lambda>v. on_window (\<lambda>c. snd (uc_SetItem slot v c))"
  have put_free: "uc_GetItem s (td_window (?put None x)) \<noteq> Some idx" if "\<And>s. uc_GetItem s (td_window x) \<noteq> Some idx" for s x
    using that by (simp add: uc_SetItem_GetItem)
  obtain p1 where p1: "(if n = 0 then map_option (?put None) (set_reserve idx 0 p) else Some p) = Some p1"
    "trader_ok T p1" "same_bag T p p1" "\<And>s. uc_GetItem s (td_window p1) \<noteq> Some idx"
  proof (cases "n = 0")
    case True
    obtain q where q: "set_reserve idx 0 p = Some q" "trader_ok T q" "same_bag T p q" "td_window q = td_window p"
      using set_reserve_ok[OF ok it, of 0] by blast
    show thesis
    proof (rule that[of "?put None q"])
      show "trader_ok T (?put None q)" by (rule put_ok[OF q(2) slot]) simp
      show "uc_GetItem s (td_window (?put None q)) \<noteq> Some idx" for s
        by (rule put_free) (use q(4) free in simp)
    qed (use True q in simp_all)
  next
    case False
    show thesis using False ok free same_bag_refl by (intro that[of p]) (auto simp: trader_ok_def)
  qed
  have "in_bag p1 idx \<noteq> None" using p1(3) it by (simp add: same_bag_def)
  then obtain it1 where it1: "in_bag p1 idx = Some it1" by blast
  have fin: "\<exists>q. set_reserve idx r p1 = Some q \<and> trader_ok T (?put v q) \<and> same_bag T p (?put v q)"
    if v: "v = None \<or> v = Some idx" for r v
  proof -
    obtain q where q: "set_reserve idx r p1 = Some q" "trader_ok T q" "same_bag T p1 q" "td_window q = td_window p1"
      "in_bag q idx = Some (setReserve r it1)" using set_reserve_ok[OF p1(2) it1, of r] by blast
    have "trader_ok T (?put v q)" by (rule put_ok[OF q(2) slot]) (use v q(4,5) p1(4) in auto)
    then show ?thesis using q(1) same_bag_trans[OF p1(3) q(3)] by auto
  qed
  from fin[of None 0] fin[of "Some idx" "n + i_reserve it1"] show ?thesis
    unfolding offer_def p1(1) option.case it1 by (cases "isType it ITEM_LINKSHELL \<and> \<not> te_equipped e idx") auto
qed

lemma clear_slot_ok:
  assumes "trader_ok T p"
  shows "trader_ok T (on_window (uc_ClearSlot s) p)"
  using assms by (auto simp: trader_ok_def window_ok_def uc_ClearSlot_GetItem split: if_splits)

lemma unlock_ok [simp]: "trader_ok T (on_window uc_UnLock p) = trader_ok T p"
  by (simp add: trader_ok_def window_ok_def)

lemma trade_list_keeps:
  assumes W: "traders_ok T W" and slot: "slot < 9"
    and fresh: "\<And>s. s \<noteq> slot \<Longrightarrow> uc_GetItem s (td_window (W me)) \<noteq> Some idx"
  shows "\<exists>W'. trade_list e me n ident idx slot W = Some W' \<and> keeps_amounts T W W'"
proof (cases "partner e me W")
  case None
  then show ?thesis using W by (simp add: trade_list_def keeps_amounts_def)
next
  case (Some t)
  have ne: "t \<noteq> me" by (rule partner_other[OF W Some])
  have ok: "trader_ok T (W me)" "trader_ok T (W t)" using W by (auto simp: traders_ok_def)
  have me: "td_pending_id (W me) = me \<Longrightarrow> td_pending_targid (W me) = 0" for me using W by (simp add: traders_ok_def)
  obtain p where p: "(case uc_GetItem slot (td_window (W me)) of None \<Rightarrow> Some (W me)
      | Some s \<Rightarrow> map_option (on_window (uc_ClearSlot slot)) (set_reserve s 0 (W me))) = Some p"
    "trader_ok T p" "same_bag T (W me) p" "\<And>s. uc_GetItem s (td_window p) \<noteq> Some idx"
  proof (cases "uc_GetItem slot (td_window (W me))")
    case None
    show thesis
    proof (rule that[of "W me"])
      show "uc_GetItem s (td_window (W me)) \<noteq> Some idx" for s using None fresh by (cases "s = slot") auto
      show "same_bag T (W me) (W me)" using ok(1) by (auto simp: trader_ok_def intro: same_bag_refl)
    qed (use None ok in simp_all)
  next
    case (Some s)
    obtain it where "in_bag (W me) s = Some it" using window_okD(3) Some ok(1) unfolding trader_ok_def by blast
    from set_reserve_ok[OF ok(1) this, of 0] obtain q where
      q: "set_reserve s 0 (W me) = Some q" "trader_ok T q" "same_bag T (W me) q" "td_window q = td_window (W me)" by blast
    show thesis
    proof (rule that[of "on_window (uc_ClearSlot slot) q"])
      show "uc_GetItem s (td_window (on_window (uc_ClearSlot slot) q)) \<noteq> Some idx" for s
        using fresh[of s] q(4) by (simp add: uc_ClearSlot_GetItem)
    qed (use Some q clear_slot_ok[OF q(2)] in simp_all)
  qed
  have upd: "keeps_amounts T W (W(me := q))" if "trader_ok T q" "same_bag T (W me) q" for q
    using that W unfolding keeps_amounts_def traders_ok_def same_bag_def by auto
  have upd2: "keeps_amounts T W (W(me := on_window uc_UnLock q, t := on_window uc_UnLock (W t)))"
    if "trader_ok T q" "same_bag T (W me) q" for q
    using that W ne unfolding keeps_amounts_def traders_ok_def same_bag_def by auto
  show ?thesis
  proof (cases "in_bag p idx")
    case None
    then show ?thesis using Some p(1) upd[OF p(2,3)] by (simp add: trade_list_def)
  next
    case it: (Some it)
    obtain p' where p': "offer e slot idx n it p = Some p'" "trader_ok T p'" "same_bag T p p'"
      using offer_keeps[OF p(2) it slot p(4)] by blast
    show ?thesis
      using Some p(1) it p'(1) ne upd[OF p(2,3)] upd2[OF p'(2) same_bag_trans[OF p(3) p'(3)]]
      by (auto simp: trade_list_def Let_def)
  qed
qed


lemma cleanTradeTargets_keeps: "traders_ok T W \<Longrightarrow> keeps_amounts T W (cleanTradeTargets a b W)"
  by (auto simp: cleanTradeTargets_def keeps_amounts_def traders_ok_def Let_def)

lemma keeps_amounts_refl: "traders_ok T W \<Longrightarrow> keeps_amounts T W W"
  by (simp add: keeps_amounts_def)

lemma trader_ok_fields:
  "trader_ok T (p\<lparr>td_invited := i, td_pending_id := x, td_pending_targid := y\<rparr>) = trader_ok T p"
  by (simp add: trader_ok_def window_ok_def in_bag_def)

lemma trade_req_keeps:
  assumes W: "traders_ok T W" and ne: "me \<noteq> uniq"
  shows "keeps_amounts T W (trade_req e me act uniq W)"
proof (cases "GetEntity e act")
  case None
  then show ?thesis using W by (simp add: trade_req_def keeps_amounts_def)
next
  case (Some t)
  let ?old = "td_pending_id (W me)"
  let ?W1 = "W(me := (W me)\<lparr>td_invited := te_now e, td_pending_id := uniq, td_pending_targid := act\<rparr>)"
  let ?W2 = "?W1(t := (?W1 t)\<lparr>td_invited := te_now e, td_pending_id := me, td_pending_targid := td_targid (?W1 me)\<rparr>)"
  have "trade_req e me act uniq W \<in> {W, cleanTradeTargets ?old me W} \<or>
      (t = uniq \<and> trade_req e me act uniq W = ?W2)"
    by (simp add: trade_req_def Some Let_def)
  moreover have "keeps_amounts T W ?W2" if "t = uniq"
  proof -
    have "t \<noteq> me" using that ne by simp
    then have "?W2 p = (if p = t then (W t)\<lparr>td_invited := te_now e, td_pending_id := me, td_pending_targid := td_targid (W me)\<rparr>
        else if p = me then (W me)\<lparr>td_invited := te_now e, td_pending_id := uniq, td_pending_targid := act\<rparr> else W p)" for p
      by simp
    then show ?thesis
      using W that ne unfolding keeps_amounts_def traders_ok_def by (simp add: trader_ok_fields)
  qed
  ultimately show ?thesis using keeps_amounts_refl[OF W] cleanTradeTargets_keeps[OF W] by auto
qed

lemma set_type_ok: "trader_ok T p \<Longrightarrow> trader_ok T (on_window (uc_SetType UCONTAINER_TRADE) p)"
proof -
  have "u_type (uc_SetType UCONTAINER_TRADE c) = (if u_type c = UCONTAINER_EMPTY then UCONTAINER_TRADE else u_type c)"
    for c :: "nat ucontainer" by (simp add: uc_SetType_def)
  then show "trader_ok T p \<Longrightarrow> trader_ok T (on_window (uc_SetType UCONTAINER_TRADE) p)"
    by (auto simp: trader_ok_def window_ok_def)
qed

lemma trade_start_keeps:
  assumes W: "traders_ok T W"
  shows "\<exists>W'. trade_res T e db db' me Start W = Some W' \<and> keeps_amounts T W W'"
proof (cases "partner e me W")
  case None
  then show ?thesis using keeps_amounts_refl[OF W] by (simp add: trade_res_def)
next
  case (Some t)
  have "keeps_amounts T W (W(me := on_window (uc_SetType UCONTAINER_TRADE) (W me),
      t := on_window (uc_SetType UCONTAINER_TRADE) (W t)))"
    using W partner_other[OF W Some] by (auto simp: keeps_amounts_def traders_ok_def set_type_ok)
  then show ?thesis
    using Some partner_other[OF W Some] cleanTradeTargets_keeps[OF W] by (simp add: trade_res_def Let_def)
qed

lemma trade_cancel_keeps:
  assumes W: "traders_ok T W"
  shows "\<exists>W'. trade_res T e db db' me Cancell W = Some W' \<and> keeps_amounts T W W'"
proof (cases "partner e me W")
  case None
  then show ?thesis using keeps_amounts_refl[OF W] by (simp add: trade_res_def)
next
  case (Some t)
  have ne: "t \<noteq> me" by (rule partner_other[OF W Some])
  have clean: "\<exists>q. (if u_type (td_window (W p)) = UCONTAINER_TRADE then clean_window (W p) else Some (W p)) = Some q \<and>
      trader_ok T q \<and> same_bag T (W p) q" for p
    using clean_window_step[of T "W p"] same_bag_refl[of T "W p"] W by (auto simp: traders_ok_def trader_ok_def)
  obtain q where q: "(if u_type (td_window (W t)) = UCONTAINER_TRADE then clean_window (W t) else Some (W t)) = Some q"
    "trader_ok T q" "same_bag T (W t) q" using clean by blast
  obtain p where p: "(if u_type (td_window (W me)) = UCONTAINER_TRADE then clean_window (W me) else Some (W me)) = Some p"
    "trader_ok T p" "same_bag T (W me) p" using clean by blast
  have "trade_res T e db db' me Cancell W = Some (cleanTradeTargets me t (W(t := q, me := p)))"
  proof -
    have at: "(W(t := q)) me = W me" using ne by simp
    show ?thesis unfolding trade_res_def Some option.case trade_kind.case q(1) Let_def at p(1) by simp
  qed
  moreover have "traders_ok T (W(t := q, me := p))"
    using W q(2,3) p(2,3) by (auto simp: traders_ok_def same_bag_def)
  then have "keeps_amounts T (W(t := q, me := p)) (cleanTradeTargets me t (W(t := q, me := p)))"
    by (rule cleanTradeTargets_keeps)
  ultimately show ?thesis
    using q(3) p(3) by (auto simp: keeps_amounts_def same_bag_def)
qed

text \<open>
  Runs of packets of any players.  A client is honest here when it names no item for two slots;
  an exchange is fair when everything offered fits.
\<close>

type_synonym trade_input = "nat \<times> trade_env \<times> (nat \<Rightarrow> bool) \<times> (nat \<Rightarrow> bool) \<times> trade_packet"

definition honest_offer :: "traders \<Rightarrow> trade_input \<Rightarrow> bool" where
  "honest_offer W s = (case s of (me, e, db, db', pkt) \<Rightarrow>
     (case pkt of
        TRADE_LIST n ident idx slot \<Rightarrow> \<forall>s < 9. s \<noteq> slot \<longrightarrow> uc_GetItem s (td_window (W me)) \<noteq> Some idx
      | _ \<Rightarrow> True))"

definition fair_exchange :: "traders \<Rightarrow> trade_input \<Rightarrow> bool" where
  "fair_exchange W s = (case s of (me, e, db, db', pkt) \<Rightarrow>
     pkt = TRADE_RES Make \<longrightarrow> (case partner e me W of None \<Rightarrow> True
       | Some t \<Rightarrow> trade_fits db (W me) (W t) \<and> trade_fits db' (W t) (W me)))"

fun trade_run :: "templates \<Rightarrow> trade_input list \<Rightarrow> traders \<Rightarrow> traders option" where
  "trade_run T [] W = Some W"
| "trade_run T ((me, e, db, db', pkt) # ss) W =
     (case trade_process T e db db' me pkt W of None \<Rightarrow> None | Some W' \<Rightarrow> trade_run T ss W')"

fun throughout :: "(traders \<Rightarrow> trade_input \<Rightarrow> bool) \<Rightarrow> templates \<Rightarrow> trade_input list \<Rightarrow> traders \<Rightarrow> bool" where
  "throughout C T [] W = True"
| "throughout C T ((me, e, db, db', pkt) # ss) W =
     (C W (me, e, db, db', pkt) \<and>
      (case trade_process T e db db' me pkt W of None \<Rightarrow> True | Some W' \<Rightarrow> throughout C T ss W'))"

definition riches :: "nat set \<Rightarrow> nat \<Rightarrow> traders \<Rightarrow> nat" where
  "riches K i W = (\<Sum>k \<in> K. total_qty i (td_char (W k)))"

lemma keeps_riches: "keeps_amounts T W W' \<Longrightarrow> riches K i W' = riches K i W"
  by (simp add: keeps_amounts_def riches_def)

lemma riches_swap:
  assumes K: "finite K" "a \<in> K" "b \<in> K" "a \<noteq> b" and same: "\<And>p. p \<noteq> a \<Longrightarrow> p \<noteq> b \<Longrightarrow> W' p = W p"
  shows "swapped (W a) (W b) (W' a) (W' b) \<Longrightarrow> riches K i W' \<le> riches K i W"
    "swapped_exactly (W a) (W b) (W' a) (W' b) \<Longrightarrow> riches K i W' = riches K i W"
proof -
  let ?f = "\<lambda>W p. total_qty i (td_char (W p))"
  have split: "riches K i V = ?f V a + (?f V b + sum (?f V) (K - {a} - {b}))" for V :: traders
  proof -
    have "sum (?f V) K = ?f V a + sum (?f V) (K - {a})" by (rule sum.remove[OF K(1,2)])
    moreover have "sum (?f V) (K - {a}) = ?f V b + sum (?f V) (K - {a} - {b})"
      by (rule sum.remove) (use K in auto)
    ultimately show ?thesis by (simp add: riches_def)
  qed
  have rest: "sum (?f W') (K - {a} - {b}) = sum (?f W) (K - {a} - {b})"
    by (rule sum.cong) (auto simp: same)
  show "riches K i W' \<le> riches K i W" if s: "swapped (W a) (W b) (W' a) (W' b)"
  proof -
    have "?f W' a + offers_all i (W a) \<le> ?f W a + offers_all i (W b)"
      "?f W' b + offers_all i (W b) \<le> ?f W b + offers_all i (W a)"
      using s unfolding swapped_def by blast+
    then show ?thesis unfolding split rest by linarith
  qed
  show "riches K i W' = riches K i W" if s: "swapped_exactly (W a) (W b) (W' a) (W' b)"
  proof -
    have "?f W' a + offers_all i (W a) = ?f W a + offers_all i (W b)"
      "?f W' b + offers_all i (W b) = ?f W b + offers_all i (W a)"
      using s unfolding swapped_exactly_def by blast+
    then show ?thesis unfolding split rest by linarith
  qed
qed


lemma partner_in:
  assumes "traders_ok T W" "partner e me W = Some t" "u_lock (td_window (W t))"
    and T: "templates_ok T" and K: "finite K" "me \<in> K" "t \<in> K"
  shows "\<exists>W'. trade_res T e db db' me Make W = Some W' \<and> traders_ok T W' \<and> (\<forall>i. riches K i W' \<le> riches K i W) \<and>
    (trade_fits db (W me) (W t) \<longrightarrow> trade_fits db' (W t) (W me) \<longrightarrow> (\<forall>i. riches K i W' = riches K i W))"
proof -
  have ne: "me \<noteq> t" using partner_other[OF assms(1,2)] by simp
  have ok: "trader_ok T (W me)" "trader_ok T (W t)" using assms(1) by (auto simp: traders_ok_def)
  let ?m = "te_monstrosity e me \<or> te_monstrosity e t"
  let ?C = "CanTrade ?m (W me) (W t) = Some True \<and> CanTrade ?m (W t) (W me) = Some True"
  obtain W' where W': "trade_res T e db db' me Make W = Some W'" "trader_ok T (W' me)" "trader_ok T (W' t)"
    "\<forall>p. p \<noteq> me \<longrightarrow> p \<noteq> t \<longrightarrow> W' p = W p" "td_pending_targid (W' me) = 0" "td_pending_targid (W' t) = 0"
    "if ?C then swapped (W me) (W t) (W' me) (W' t) \<and>
       (trade_fits db (W me) (W t) \<longrightarrow> trade_fits db' (W t) (W me) \<longrightarrow> swapped_exactly (W me) (W t) (W' me) (W' t))
     else \<forall>k. total_qty k (td_char (W' me)) = total_qty k (td_char (W me)) \<and>
         total_qty k (td_char (W' t)) = total_qty k (td_char (W t))"
    using trade_make_step[OF T ok ne assms(2,3), of db db'] by blast
  have same: "\<And>p. p \<noteq> me \<Longrightarrow> p \<noteq> t \<Longrightarrow> W' p = W p" using W'(4) by blast
  have okW: "traders_ok T W'"
    using assms(1) W'(2-6) unfolding traders_ok_def by metis
  have "(\<forall>i. riches K i W' \<le> riches K i W) \<and>
    (trade_fits db (W me) (W t) \<longrightarrow> trade_fits db' (W t) (W me) \<longrightarrow> (\<forall>i. riches K i W' = riches K i W))"
  proof (cases ?C)
    case True
    then show ?thesis using W'(7) riches_swap[where W = W and W' = W', OF K ne same] unfolding if_P[OF True] by blast
  next
    case False
    have "total_qty i (td_char (W' p)) = total_qty i (td_char (W p))" for i p
      using W'(7) same[of p] unfolding if_not_P[OF False] by (cases "p = me \<or> p = t") auto
    then show ?thesis by (simp add: riches_def)
  qed
  with W'(1) okW show ?thesis by blast
qed

lemma trade_process_keeps:
  assumes T: "templates_ok T" and W: "traders_ok T W" and h: "honest_offer W (me, e, db, db', pkt)"
    and K: "finite K" "me \<in> K" "\<And>t. partner e me W = Some t \<Longrightarrow> t \<in> K"
  shows "\<exists>W'. trade_process T e db db' me pkt W = Some W' \<and> traders_ok T W' \<and>
    (\<forall>i. riches K i W' \<le> riches K i W) \<and>
    (fair_exchange W (me, e, db, db', pkt) \<longrightarrow> (\<forall>i. riches K i W' = riches K i W))"
proof -
  have easy: ?thesis if "trade_process T e db db' me pkt W = Some W'" "keeps_amounts T W W'" for W'
    using that keeps_riches[OF that(2)] by (simp add: keeps_amounts_def)
  show ?thesis
  proof (cases "trade_valid e me pkt (W me)")
    case False
    then show ?thesis using easy keeps_amounts_refl[OF W] by (simp add: trade_process_def)
  next
    case valid: True
    show ?thesis
    proof (cases pkt)
      case (TRADE_REQ act uniq)
      then show ?thesis
        using valid easy trade_req_keeps[OF W, of me uniq e act] by (simp add: trade_process_def trade_valid_def)
    next
      case (TRADE_LIST n ident idx slot)
      have "\<exists>W'. trade_list e me n ident idx slot W = Some W' \<and> keeps_amounts T W W'"
      proof (rule trade_list_keeps[OF W])
        show "slot < 9" using valid TRADE_LIST by (simp add: trade_valid_def)
        show "uc_GetItem s (td_window (W me)) \<noteq> Some idx" if "s \<noteq> slot" for s
          using h that window_okD(2)[of "W me" s] W
          by (auto simp: honest_offer_def TRADE_LIST traders_ok_def trader_ok_def)
      qed
      then show ?thesis using easy valid TRADE_LIST by (auto simp: trade_process_def)
    next
      case (TRADE_RES kind)
      have proc: "trade_process T e db db' me pkt W = trade_res T e db db' me kind W"
        using valid TRADE_RES by (simp add: trade_process_def)
      consider "kind = Start" | "kind = Cancell" | "kind = MakeCancell" | "kind = Make" by (cases kind) auto
      then show ?thesis
      proof cases
        case 1
        then show ?thesis using easy trade_start_keeps[OF W, of e db db' me] proc by auto
      next
        case 2
        then show ?thesis using easy trade_cancel_keeps[OF W, of e db db' me] proc by auto
      next
        case 3
        then have "trade_res T e db db' me kind W = Some W"
          by (simp add: trade_res_def split: option.split)
        then show ?thesis using easy keeps_amounts_refl[OF W] proc by simp
      next
        case make: 4
        show ?thesis
        proof (cases "partner e me W")
          case None
          then have "trade_res T e db db' me kind W = Some W" by (simp add: trade_res_def)
          then show ?thesis using easy keeps_amounts_refl[OF W] proc by simp
        next
          case (Some t)
          have ne: "t \<noteq> me" by (rule partner_other[OF W Some])
          show ?thesis
          proof (cases "u_lock (td_window (W t))")
            case False
            have "keeps_amounts T W (W(me := on_window uc_SetLock (W me)))"
              using W by (auto simp: keeps_amounts_def traders_ok_def)
            then show ?thesis using easy False Some ne proc make by (simp add: trade_res_def Let_def)
          next
            case True
            from partner_in[OF W Some True T K(1,2) K(3)[OF Some], of db db'] show ?thesis
              unfolding proc make using Some TRADE_RES make by (auto simp: fair_exchange_def)
          qed
        qed
      qed
    qed
  qed
qed

end
