(* ===== verification/Trading.thy ===== *)
theory Trading
  imports TradeLaws
begin

text \<open>
  Trades between players as their clients drive them: runs of packets, what a confirmed trade
  does, and what a client that is not honest can do.
\<close>

section \<open>Nothing is created\<close>

lemma trade_run_keeps:
  assumes T: "templates_ok T" and K: "finite K"
  shows "traders_ok T W \<Longrightarrow> throughout honest_offer T ss W \<Longrightarrow>
    \<forall>s \<in> set ss. fst s \<in> K \<and> ran (te_zone (fst (snd s))) \<subseteq> K \<Longrightarrow>
    \<exists>W'. trade_run T ss W = Some W' \<and> traders_ok T W' \<and> (\<forall>i. riches K i W' \<le> riches K i W) \<and>
      (throughout fair_exchange T ss W \<longrightarrow> (\<forall>i. riches K i W' = riches K i W))"
proof (induction ss arbitrary: W)
  case (Cons s ss)
  obtain me e db db' pkt where s: "s = (me, e, db, db', pkt)" by (cases s) auto
  have h: "honest_offer W (me, e, db, db', pkt)" using Cons.prems(2) by (simp add: s)
  have me: "me \<in> K" "ran (te_zone e) \<subseteq> K" using Cons.prems(3) by (auto simp: s)
  have "t \<in> K" if "partner e me W = Some t" for t
  proof -
    have "te_zone e (td_pending_targid (W me)) = Some t"
      using that by (auto simp: partner_def GetEntity_def split: if_splits option.splits)
    then show ?thesis using me(2) by (auto simp: ran_def)
  qed
  from trade_process_keeps[OF T Cons.prems(1) h K me(1) this] obtain W1 where
    W1: "trade_process T e db db' me pkt W = Some W1" "traders_ok T W1" "\<And>i. riches K i W1 \<le> riches K i W"
    "fair_exchange W (me, e, db, db', pkt) \<Longrightarrow> \<forall>i. riches K i W1 = riches K i W" by blast
  have "throughout honest_offer T ss W1" using Cons.prems(2) W1(1) by (simp add: s)
  from Cons.IH[OF W1(2) this] Cons.prems(3) obtain W' where
    W': "trade_run T ss W1 = Some W'" "traders_ok T W'" "\<And>i. riches K i W' \<le> riches K i W1"
    "throughout fair_exchange T ss W1 \<Longrightarrow> \<forall>i. riches K i W' = riches K i W1" by auto
  have "throughout fair_exchange T (s # ss) W \<Longrightarrow> riches K i W' = riches K i W" for i
    using W1(1,4) W'(4) by (simp add: s)
  moreover have "riches K i W' \<le> riches K i W" for i using W1(3)[of i] W'(3)[of i] by simp
  ultimately show ?case using W1(1) W'(1,2) by (simp add: s)
qed simp

text \<open>
  C3: trading creates nothing and, when everything offered fits, loses nothing.  Whatever packets
  of the trade window any players send in whatever order, and whatever the database answers, as
  long as no client names one item for two slots of its window, the server does not crash, every
  window keeps pointing to items that are there, and the players together never own more of
  anything; they own exactly as much when every exchange that happens fits the receivers.
\<close>

theorem trades_accounted:
  assumes "templates_ok T" "traders_ok T W" "finite K"
    and "\<forall>s \<in> set ss. fst s \<in> K \<and> ran (te_zone (fst (snd s))) \<subseteq> K"
    and "throughout honest_offer T ss W"
  shows "\<exists>W'. trade_run T ss W = Some W' \<and> traders_ok T W' \<and> (\<forall>i. riches K i W' \<le> riches K i W) \<and>
    (throughout fair_exchange T ss W \<longrightarrow> (\<forall>i. riches K i W' = riches K i W))"
  using trade_run_keeps[OF assms(1,3,2,5,4)] .

section \<open>Two sample traders\<close>

definition sample_trader :: "nat \<Rightarrow> trader" where
  "sample_trader k = \<lparr>td_char = sample_char, td_window = uc_empty, td_targid = 1024 + k, td_pending_id = 0,
     td_pending_targid = 0, td_invited = 0\<rparr>"

definition sample_zone :: trade_env where
  "sample_zone = \<lparr>te_zone = (\<lambda>i. if i = 1031 then Some 7 else if i = 1032 then Some 8 else None),
     te_monstrosity = (\<lambda>_. False), te_jailed = (\<lambda>_. False), te_crafting = (\<lambda>_. False),
     te_aid_blocked = (\<lambda>_ _. False), te_apart = (\<lambda>_ _. False), te_equipped = (\<lambda>_. False), te_now = 100000\<rparr>"

lemma sample_trader_ok: "trader_ok sample_templates (sample_trader k)"
  using sample_char_ok window_ok_empty[of "sample_trader k"]
  by (simp add: trader_ok_def sample_trader_def on_window_def)

lemma sample_traders_ok: "traders_ok sample_templates sample_trader"
  using sample_trader_ok by (simp add: traders_ok_def) (simp add: sample_trader_def)

text \<open>Seven asks eight, who accepts; seven offers two potions, and both confirm.\<close>

definition sample_trade :: "trade_input list" where
  "sample_trade =
     [(7, sample_zone, \<lambda>_. True, \<lambda>_. True, TRADE_REQ 1032 8),
      (8, sample_zone, \<lambda>_. True, \<lambda>_. True, TRADE_RES Start),
      (7, sample_zone, \<lambda>_. True, \<lambda>_. True, TRADE_LIST 2 4096 1 1)]"

theorem trades_accounted_witness:
  "\<exists>W'. trade_run sample_templates sample_trade sample_trader = Some W' \<and> traders_ok sample_templates W' \<and>
     (\<forall>i. riches {7, 8} i W' = riches {7, 8} i sample_trader)"
proof -
  have empty: "uc_GetItem s uc_empty = None" for s by (simp add: uc_GetItem_def uc_empty_def UCONTAINER_SIZE_def)
  have "throughout honest_offer sample_templates sample_trade sample_trader"
    by (simp add: sample_trade_def honest_offer_def trade_process_def trade_valid_def trade_req_def trade_res_def
        GetEntity_def sample_zone_def sample_trader_def uc_IsContainerEmpty_def uc_empty_def partner_def
        uc_SetType_def on_window_def uc_GetItem_def UCONTAINER_SIZE_def split: option.split)
  moreover have "throughout fair_exchange sample_templates sample_trade sample_trader"
    by (simp add: sample_trade_def fair_exchange_def split: option.split)
  moreover have "\<forall>s \<in> set sample_trade. fst s \<in> {7, 8} \<and> ran (te_zone (fst (snd s))) \<subseteq> {7, 8}"
    by (auto simp: sample_trade_def sample_zone_def ran_def split: if_splits)
  ultimately show ?thesis
    using trades_accounted[OF sample_templates_ok sample_traders_ok, of "{7, 8}" sample_trade] by auto
qed


section \<open>Both sides get what was offered\<close>

text \<open>
  C4: an accepted trade hands over what the two windows offer, or nothing.  When a player confirms
  and the partner has confirmed, both windows are emptied and closed and no third player is touched.
  If \<open>CanTrade\<close> refuses one side, nobody's amounts change.  If it accepts both, each player gives
  all that his window offers and owns afterwards, of every item, at most what he owned less what he
  gave plus what the partner gave, and exactly that when everything fits both ways
  (\<open>trade_fits\<close>, what \<open>CanTrade\<close> does not test: the purse has room for the gil, a rare item is offered
  once, the window counts its slots, and the statements that store the items succeed).
\<close>

theorem trade_swaps_offers:
  assumes "templates_ok T" "traders_ok T W" "partner e me W = Some t" "u_lock (td_window (W t))"
  defines "m \<equiv> te_monstrosity e me \<or> te_monstrosity e t"
  shows "\<exists>W'. trade_res T e db db' me Make W = Some W' \<and> trader_ok T (W' me) \<and> trader_ok T (W' t) \<and>
    (\<forall>p. p \<noteq> me \<longrightarrow> p \<noteq> t \<longrightarrow> W' p = W p) \<and>
    td_window (W' me) = uc_empty \<and> td_window (W' t) = uc_empty \<and>
    (if CanTrade m (W me) (W t) = Some True \<and> CanTrade m (W t) (W me) = Some True
     then swapped (W me) (W t) (W' me) (W' t) \<and>
       (trade_fits db (W me) (W t) \<longrightarrow> trade_fits db' (W t) (W me) \<longrightarrow>
         (\<forall>k. total_qty k (td_char (W' me)) + offers_all k (W me) = total_qty k (td_char (W me)) + offers_all k (W t) \<and>
              total_qty k (td_char (W' t)) + offers_all k (W t) = total_qty k (td_char (W t)) + offers_all k (W me)))
     else \<forall>k. total_qty k (td_char (W' me)) = total_qty k (td_char (W me)) \<and>
              total_qty k (td_char (W' t)) = total_qty k (td_char (W t)))"
proof -
  have "trader_ok T (W me)" "trader_ok T (W t)" "me \<noteq> t"
    using assms(2) partner_other[OF assms(2,3)] by (auto simp: traders_ok_def)
  from trade_make_step[OF assms(1) this assms(3,4), of db db'] show ?thesis
    unfolding m_def[symmetric] swapped_exactly_def by (elim exE conjE) (intro exI conjI; assumption?; simp split: if_splits)
qed

text \<open>Seven offers two of his potions, eight three; eight has confirmed.\<close>

definition offering :: "uint32 \<Rightarrow> nat \<Rightarrow> nat \<Rightarrow> trader" where
  "offering n k other = the (set_reserve 1 n (sample_trader k))\<lparr>td_window := snd (uc_SetItem 1 (Some 1)
     (uc_SetType UCONTAINER_TRADE uc_empty)), td_pending_id := other, td_pending_targid := 1024 + other\<rparr>"

definition at_the_window :: traders where
  "at_the_window = sample_trader(7 := offering 2 7 8, 8 := on_window uc_SetLock (offering 3 8 7))"

lemma sample_bag_1: "in_bag (sample_trader k) 1 = Some (potions 1 5)"
  using sample_items[of 1 0] by (simp add: in_bag_def sample_trader_def LOC_INVENTORY_def)

lemma offering_facts:
  "trader_ok sample_templates (offering n k x)"
  "offered (offering n k x) s = (if s = 1 then Some (setReserve n (potions 1 5)) else None)"
  "total_qty i (td_char (offering n k x)) = total_qty i sample_char"
  "free_cells (td_char (offering n k x)) = 4"
  "in_bag (offering n k x) t =
     (if t = 0 then Some (purse_of 0 20) else if t = 1 then Some (setReserve n (potions 1 5)) else None)"
  "td_pending_id (offering n k x) = x" "td_pending_targid (offering n k x) = 1024 + x"
  "u_count (td_window (offering n k x)) = 1"
  "uc_GetItem s (td_window (offering n k x)) = (if s = 1 then Some 1 else None)"
proof -
  have c: "char_ok sample_templates (td_char (sample_trader k))" by (simp add: sample_trader_def sample_char_ok)
  obtain p where p: "set_reserve 1 n (sample_trader k) = Some p" and ch: "char_ok sample_templates (td_char p)"
    "\<And>k. total_qty k (td_char p) = total_qty k sample_char" "free_cells (td_char p) = free_cells sample_char"
    "\<And>t. in_bag p t = (if t = 1 then Some (setReserve n (potions 1 5)) else in_bag (sample_trader k) t)"
    using set_reserve_step[OF c sample_bag_1, where r = n] by (auto simp: sample_trader_def)
  let ?w = "snd (uc_SetItem 1 (Some (1::nat)) (uc_SetType UCONTAINER_TRADE uc_empty))"
  have w: "uc_GetItem s ?w = (if s = 1 then Some 1 else None)" for s
    unfolding uc_SetItem_GetItem by (simp add: uc_empty_def UCONTAINER_SIZE_def uc_SetType_def uc_GetItem_def)
  have eq: "offering n k x = p\<lparr>td_window := ?w, td_pending_id := x, td_pending_targid := 1024 + x\<rparr>"
    unfolding offering_def p by simp
  have win: "td_window (offering n k x) = ?w" unfolding eq by simp
  have bag: "in_bag (offering n k x) t = in_bag p t" for t by (simp add: eq in_bag_def)
  show "uc_GetItem s (td_window (offering n k x)) = (if s = 1 then Some 1 else None)" unfolding win by (rule w)
  show "offered (offering n k x) s = (if s = 1 then Some (setReserve n (potions 1 5)) else None)"
    unfolding offered_def win w bag ch(4) by simp
  have "window_ok (offering n k x)"
    unfolding window_ok_def win w bag ch(4)
    by (auto simp: uc_SetType_def uc_empty_def split: if_splits)
  then show "trader_ok sample_templates (offering n k x)" using ch(1) by (simp add: trader_ok_def eq)
  show "total_qty i (td_char (offering n k x)) = total_qty i sample_char" using ch(2) by (simp add: eq)
  have "GetFreeSlotsCount sample_bag = 4" by (simp add: GetFreeSlotsCount_def sample_bag_fields)
  then show "free_cells (td_char (offering n k x)) = 4"
    using ch(3) by (simp add: eq) (simp add: sample_char_def LOC_INVENTORY_def)
  show "in_bag (offering n k x) t =
     (if t = 0 then Some (purse_of 0 20) else if t = 1 then Some (setReserve n (potions 1 5)) else None)"
    unfolding bag ch(4) by (simp add: in_bag_def sample_trader_def LOC_INVENTORY_def sample_items)
  show "u_count (td_window (offering n k x)) = 1"
    unfolding win by (simp add: uc_SetItem_def uc_SetType_def uc_empty_def UCONTAINER_SIZE_def)
qed (simp_all add: offering_def)

lemma at_the_window_ok:
  "traders_ok sample_templates at_the_window" "partner sample_zone 7 at_the_window = Some 8"
  "u_lock (td_window (at_the_window 8))"
proof -
  show "traders_ok sample_templates at_the_window"
    using sample_traders_ok by (simp add: traders_ok_def at_the_window_def offering_facts(1,6))
  show "partner sample_zone 7 at_the_window = Some 8"
    by (simp add: partner_def at_the_window_def offering_facts(6,7) GetEntity_def sample_zone_def)
qed (simp add: at_the_window_def)

lemma nine_slots: "[0..<9] = [0, 1, 2, 3, 4, 5, 6, 7, 8 :: nat]"
  by (simp add: upt_rec)

lemma offering_offers:
  "offers_all k (offering n x y) = (if k = 4096 then unat (min n 5) else 0)"
  by (simp add: offers_def offer_of_def offering_facts(2) nine_slots)
    (simp add: potions_def potion_def new_item_def)

lemma offering_trades:
  "CanTrade False (offering n k x) (offering n' k' x') = Some True"
  "trade_fits (\<lambda>_. True) (offering n k x) (offering n' k' x')"
proof -
  have rare: "\<not> hasFlag (setReserve n (potions 1 5)) FLAG_RARE" for n
    by (simp add: hasFlag_def potions_def potion_def new_item_def setReserve_def)
  obtain r where "acceptable [0..<9] (offering n k x) (offering n' k' x') = Some r" "r"
    using acceptable_iff[OF offering_facts(1)[of n k x], of "[0..<9]" "offering n' k' x'"] rare
    by (auto simp: offering_facts(2) simp del: upt_rec_numeral split: if_splits)
  then show "CanTrade False (offering n k x) (offering n' k' x') = Some True"
    using offering_facts(4)[of n' k' x'] by (simp add: CanTrade_def offering_facts(8) word_less_nat_alt)
  show "trade_fits (\<lambda>_. True) (offering n k x) (offering n' k' x')"
    unfolding trade_fits_def offering_offers
    using rare by (auto simp: offering_facts(2,5,8) purse_of_def nine_slots split: if_splits)
qed

theorem trade_swaps_offers_witness:
  "\<exists>W'. trade_res sample_templates sample_zone (\<lambda>_. True) (\<lambda>_. True) 7 Make at_the_window = Some W' \<and>
     total_qty 4096 (td_char (W' 7)) + 2 = total_qty 4096 sample_char + 3 \<and>
     total_qty 4096 (td_char (W' 8)) + 3 = total_qty 4096 sample_char + 2"
proof -
  have at: "at_the_window 7 = offering 2 7 8" "at_the_window 8 = on_window uc_SetLock (offering 3 8 7)"
    by (simp_all add: at_the_window_def)
  have m: "(te_monstrosity sample_zone 7 \<or> te_monstrosity sample_zone 8) = False" by (simp add: sample_zone_def)
  obtain W' where W': "trade_res sample_templates sample_zone (\<lambda>_. True) (\<lambda>_. True) 7 Make at_the_window = Some W'"
    "\<forall>k. total_qty k (td_char (W' 7)) + offers_all k (at_the_window 7) =
           total_qty k (td_char (at_the_window 7)) + offers_all k (at_the_window 8) \<and>
         total_qty k (td_char (W' 8)) + offers_all k (at_the_window 8) =
           total_qty k (td_char (at_the_window 8)) + offers_all k (at_the_window 7)"
    using trade_swaps_offers[OF sample_templates_ok at_the_window_ok, unfolded m,
      where db = "\<lambda>_. True" and db' = "\<lambda>_. True"]
    by (auto simp: at offering_trades)
  have "offers_all 4096 (at_the_window 7) = 2" "offers_all 4096 (at_the_window 8) = 3"
    "total_qty 4096 (td_char (at_the_window 7)) = total_qty 4096 sample_char"
    "total_qty 4096 (td_char (at_the_window 8)) = total_qty 4096 sample_char"
    unfolding at locked_same offering_offers by (simp_all add: offering_facts(3) min_def)
  with W'(2)[rule_format, of 4096] W'(1) show ?thesis by (intro exI[of _ W']) simp
qed

section \<open>What a client can do that is not honest\<close>

text \<open>
  C14: an item can be taken out of a trade the partner has already accepted, without his knowing.
  The packet that fills a slot first takes out what the slot holds and only then looks at the
  item it names; when that item is refused the slot stays empty, and unlike after a change that
  succeeds the partner's confirmation stands.  A player who offered one item, let the partner
  confirm, and then sends such a packet and confirms himself, gets everything the partner offered
  and gives nothing, although the partner confirmed a trade for the item.
\<close>

theorem accepted_offer_withdrawn:
  assumes T: "templates_ok T" and W: "traders_ok T W" and part: "partner e me W = Some t"
    and lock: "u_lock (td_window (W t))"
    and slot: "uc_GetItem s (td_window (W me)) = Some q" and only: "\<And>x. x \<noteq> s \<Longrightarrow> uc_GetItem x (td_window (W me)) = None"
    and bad: "in_bag (W me) idx = None"
    and can: "\<not> te_monstrosity e me" "\<not> te_monstrosity e t" "CanTrade False (W t) (W me) = Some True"
      "unat (u_count (td_window (W me))) \<le> free_cells (td_char (W t))" "trade_fits db' (W t) (W me)"
  shows "\<exists>W1 W2. trade_list e me n ident idx s W = Some W1 \<and> u_lock (td_window (W1 t)) \<and>
    trade_res T e db db' me Make W1 = Some W2 \<and>
    (\<forall>k. total_qty k (td_char (W2 me)) = total_qty k (td_char (W me)) + offers_all k (W t) \<and>
         total_qty k (td_char (W2 t)) + offers_all k (W t) = total_qty k (td_char (W t)))"
proof -
  have ok: "trader_ok T (W me)" "trader_ok T (W t)" using W by (auto simp: traders_ok_def)
  have ne: "t \<noteq> me" by (rule partner_other[OF W part])
  obtain it where it: "in_bag (W me) q = Some it" using window_okD(3)[OF _ slot] ok(1) by (auto simp: trader_ok_def)
  have ch: "char_ok T (td_char (W me))" using ok(1) by (simp add: trader_ok_def)
  let ?p = "(W me)\<lparr>td_char := on_storage LOC_INVENTORY (set_cell q (Some (setReserve 0 it))) (td_char (W me))\<rparr>"
  note r = set_reserve_step[OF ch it, where r = 0]
  let ?q = "on_window (uc_ClearSlot s) ?p"
  let ?W1 = "W(me := ?q)"
  have "idx \<noteq> q" using bad it by auto
  then have empty: "in_bag ?q idx = None" using bad r(4)[of idx] by simp
  have step: "trade_list e me n ident idx s W = Some ?W1"
    unfolding trade_list_def part option.case slot r(1) option.map empty by simp
  have sb: "same_bag T (W me) ?p" using r(2,3) it unfolding same_bag_def r(4) by simp
  have okp: "trader_ok T ?p"
    using window_ok_same_bag[OF _ sb] ok(1) r(2,7) by (simp add: trader_ok_def)
  have okq: "trader_ok T ?q" by (rule clear_slot_ok[OF okp])
  have W1: "traders_ok T ?W1" using W okq sb by (auto simp: traders_ok_def same_bag_def)
  have part1: "partner e me ?W1 = Some t" using part ne by (auto simp: partner_def split: option.splits if_splits)
  have none: "offered ?q x = None" for x
    using only[of x] by (cases "x = s") (simp_all add: offered_def uc_ClearSlot_GetItem)
  have zero: "offers_all k ?q = 0" for k
    by (simp add: offers_def offer_of_def none sum_list_0 del: upt_rec_numeral)
  have at: "?W1 me = ?q" "?W1 t = W t" using ne by auto
  obtain b where b: "acceptable [0..<9] ?q (W t) = Some b" "b"
    using acceptable_iff[OF okq, of "[0..<9]" "W t"] none by (auto simp del: upt_rec_numeral)
  have "\<not> GetFreeSlotsCount (storage (td_char (W t)) LOC_INVENTORY) < u_count (td_window ?q)"
    using can(4) by (simp add: word_less_nat_alt)
  then have give: "CanTrade False ?q (W t) = Some True" using b by (simp add: CanTrade_def)
  have acc: "acceptable ss (W t) ?q = acceptable ss (W t) (W me)" for ss
    using r(6) by (induction ss) (simp_all split: option.split)
  have take: "CanTrade False (W t) ?q = Some True" using can(3) r(5) by (simp add: CanTrade_def acc split: if_splits)
  have fit: "trade_fits db ?q (W t)"
  proof -
    have "i_quantity g \<le> i_stackSize g" if "in_bag (W t) 0 = Some g" for g
      using that char_okD(3)[of T "td_char (W t)"] ok(2) by (auto simp: trader_ok_def in_bag_def carried_ok_def)
    then show ?thesis by (simp add: trade_fits_def none zero word_le_nat_alt)
  qed
  have purse: "i_quantity g' = i_quantity g \<and> i_stackSize g' = i_stackSize g"
    if "in_bag ?q 0 = Some g'" "in_bag (W me) 0 = Some g" for g g'
    using that r(4)[of 0] it by (auto split: if_splits)
  have filled: "in_bag (W me) 0 \<noteq> None" if "in_bag ?q 0 = Some g'" for g'
    using that r(4)[of 0] it by (auto split: if_splits)
  have fit': "trade_fits db' (W t) ?q"
    unfolding trade_fits_def
  proof (intro conjI allI impI)
    show "unat (i_quantity g') + offers_all 0xFFFF (W t) \<le> unat (i_stackSize g')" if g': "in_bag ?q 0 = Some g'" for g'
    proof -
      obtain g where "in_bag (W me) 0 = Some g" using filled[OF g'] by blast
      then show ?thesis using purse[OF g'] can(5) by (auto simp: trade_fits_def simp del: upt_rec_numeral)
    qed
  qed (use can(5) in \<open>auto simp: trade_fits_def simp del: upt_rec_numeral\<close>)
  have m: "(te_monstrosity e me \<or> te_monstrosity e t) = False" using can(1,2) by simp
  have okt: "trader_ok T (?W1 me)" "trader_ok T (?W1 t)" and ne': "me \<noteq> t" and lock1: "u_lock (td_window (?W1 t))"
    using okq ok(2) lock ne unfolding at by auto
  have both: "CanTrade False ?q (W t) = Some True \<and> CanTrade False (W t) ?q = Some True" using give take by blast
  obtain W2 where made: "trade_res T e db db' me Make ?W1 = Some W2"
    and swap: "swapped_exactly ?q (W t) (W2 me) (W2 t)"
    using trade_make_step[OF T okt ne' part1 lock1, where db = db and db' = db', unfolded at m if_P[OF both]] fit fit'
    by blast
  show ?thesis
    using step lock at r(3) made swap unfolding swapped_exactly_def
    by (intro exI[of _ ?W1] exI[of _ W2]) (simp add: zero)
qed


theorem accepted_offer_withdrawn_witness:
  "\<exists>W1 W2. trade_list sample_zone 7 1 4096 2 1 at_the_window = Some W1 \<and> u_lock (td_window (W1 8)) \<and>
     trade_res sample_templates sample_zone (\<lambda>_. True) (\<lambda>_. True) 7 Make W1 = Some W2 \<and>
     total_qty 4096 (td_char (W2 7)) = total_qty 4096 sample_char + 3 \<and>
     total_qty 4096 (td_char (W2 8)) + 3 = total_qty 4096 sample_char"
proof -
  have at: "at_the_window 7 = offering 2 7 8" "at_the_window 8 = on_window uc_SetLock (offering 3 8 7)"
    by (simp_all add: at_the_window_def)
  have slots: "uc_GetItem 1 (td_window (at_the_window 7)) = Some 1"
    "\<And>x. x \<noteq> 1 \<Longrightarrow> uc_GetItem x (td_window (at_the_window 7)) = None" "in_bag (at_the_window 7) 2 = None"
    unfolding at offering_facts(5,9) by simp_all
  have can: "\<not> te_monstrosity sample_zone 7" "\<not> te_monstrosity sample_zone 8"
    "CanTrade False (at_the_window 8) (at_the_window 7) = Some True"
    "unat (u_count (td_window (at_the_window 7))) \<le> free_cells (td_char (at_the_window 8))"
    "trade_fits (\<lambda>_. True) (at_the_window 8) (at_the_window 7)"
    by (simp_all add: at offering_trades offering_facts(4,8)) (simp_all add: sample_zone_def)
  have amounts: "offers_all 4096 (at_the_window 8) = 3"
    "total_qty 4096 (td_char (at_the_window 7)) = total_qty 4096 sample_char"
    "total_qty 4096 (td_char (at_the_window 8)) = total_qty 4096 sample_char"
    unfolding at locked_same offering_offers by (simp_all add: offering_facts(3) min_def)
  from accepted_offer_withdrawn[OF sample_templates_ok at_the_window_ok slots can, of 1 4096 "\<lambda>_. True"] amounts
  show ?thesis by metis
qed

end
