(* ===== verification/DeliveryBox.thy ===== *)
theory DeliveryBox
  imports CharInventory Exchange
begin

text \<open>
  The delivery box, by which players send items to each other: \<open>src/map/utils/dboxutils.cpp\<close>
  and the handler of its packet, \<open>src/map/packets/c2s/0x04d_pbx.cpp\<close>.

  The mail itself is a table of the database, \<open>delivery_box\<close>: a list of rows with the key
  (character, box, slot), where box 1 is the inbox (slots 0 to 7 are shown, 8 and above wait in a
  queue) and box 2 the outbox.  A statement that would break the key fails, the trigger
  \<open>delivery_box_insert\<close> gives a row of an inbox its slot, and \<open>rowsAffected\<close> counts rows
  that really change.  Where a statement with a limit does not say which row it means, it is
  the first of the list.  \<open>ok k\<close> says whether the \<open>k\<close>-th statement of an operation comes back
  without an error; a transaction that fails gives the table back as it was, but not the memory,
  and a commit that is reached succeeds.
  A player has his storages and a universal container that shows one box.  The container owns
  what it shows (it makes these items and destroys them), so a slot holds the item itself.
  Opening a box while the container serves something else cleans it as \<open>uc_Clean\<close> of
  \<open>Exchange\<close> describes; only the empty container that results is seen here.
  Item templates and the directory of characters are parameters.  A sub-identifier and the
  extra bytes of an item, answers to the client, logging and the audit table are left out.
\<close>

section \<open>The table\<close>

record box_row =
  r_charid :: nat
  r_charname :: string
  r_box :: nat
  r_slot :: nat
  r_itemid :: nat
  r_quantity :: uint32
  r_senderid :: nat
  r_sender :: string
  r_received :: bool
  r_sent :: bool

definition row_key :: "box_row \<Rightarrow> nat \<times> nat \<times> nat" where
  "row_key r = (r_charid r, r_box r, r_slot r)"

definition box_rows :: "nat \<Rightarrow> nat \<Rightarrow> box_row list \<Rightarrow> box_row list" where
  "box_rows c b rows = filter (\<lambda>r. r_charid r = c \<and> r_box r = b) rows"

definition delivery_box_insert :: "box_row list \<Rightarrow> box_row \<Rightarrow> box_row" where
  "delivery_box_insert rows r =
     (if r_box r = 1
      then (let slots = map r_slot (box_rows (r_charid r) 1 rows);
                top = foldr max slots 0
            in r\<lparr>r_slot := (if slots = [] \<or> top < 8 then 8 else top + 1)\<rparr>)
      else r)"

definition insert_row :: "box_row \<Rightarrow> box_row list \<Rightarrow> box_row list option" where
  "insert_row r rows =
     (let r' = delivery_box_insert rows r
      in if 65535 < r_slot r' \<or> row_key r' \<in> row_key ` set rows then None else Some (rows @ [r']))"

fun update_first :: "(box_row \<Rightarrow> bool) \<Rightarrow> (box_row \<Rightarrow> box_row) \<Rightarrow> box_row list \<Rightarrow> box_row list" where
  "update_first P f [] = []"
| "update_first P f (r # rows) = (if P r then f r # rows else r # update_first P f rows)"

fun delete_first :: "(box_row \<Rightarrow> bool) \<Rightarrow> box_row list \<Rightarrow> box_row list" where
  "delete_first P [] = []"
| "delete_first P (r # rows) = (if P r then rows else r # delete_first P rows)"

text \<open>An update of the slot, which is part of the key.\<close>

definition move_rows :: "(box_row \<Rightarrow> bool) \<Rightarrow> (nat \<Rightarrow> nat) \<Rightarrow> box_row list \<Rightarrow> box_row list option" where
  "move_rows P f rows =
     (let rows' = map (\<lambda>r. if P r then r\<lparr>r_slot := f (r_slot r)\<rparr> else r) rows
      in if distinct (map row_key rows') then Some rows' else None)"

definition by_slot :: "box_row list \<Rightarrow> box_row list" where
  "by_slot rows = sort_key r_slot rows"

section \<open>A player\<close>

record box_item =
  b_item :: item
  b_sender :: string
  b_receiver :: string
  b_sent :: bool

record mail_char =
  mc_id :: nat
  mc_name :: string
  mc_accid :: nat
  mc_char :: character
  mc_box :: "box_item ucontainer"

type_synonym directory = "string \<Rightarrow> (nat \<times> nat) option"
type_synonym mail = "box_row list \<times> mail_char"

definition getCharIdFromName :: "directory \<Rightarrow> string \<Rightarrow> nat" where
  "getCharIdFromName dir n = (case dir n of None \<Rightarrow> 0 | Some (c, a) \<Rightarrow> c)"

definition FLAG_CANSENDACCOUNT :: uint32 where "FLAG_CANSENDACCOUNT = 0x10"
definition FLAG_NODELIVERY :: uint32 where "FLAG_NODELIVERY = 0x2000"

definition IsSendBoxOpen :: "mail_char \<Rightarrow> bool" where
  "IsSendBoxOpen p \<longleftrightarrow> u_type (mc_box p) = UCONTAINER_SEND_DELIVERYBOX"

definition IsRecvBoxOpen :: "mail_char \<Rightarrow> bool" where
  "IsRecvBoxOpen p \<longleftrightarrow> u_type (mc_box p) = UCONTAINER_RECV_DELIVERYBOX"

definition IsAnyDeliveryBoxOpen :: "mail_char \<Rightarrow> bool" where
  "IsAnyDeliveryBoxOpen p \<longleftrightarrow> IsSendBoxOpen p \<or> IsRecvBoxOpen p"

definition shown :: "mail_char \<Rightarrow> nat \<Rightarrow> box_item option" where
  "shown p s = uc_GetItem s (mc_box p)"

definition show_item :: "nat \<Rightarrow> box_item option \<Rightarrow> mail_char \<Rightarrow> mail_char" where
  "show_item s b p = p\<lparr>mc_box := snd (uc_SetItem s b (mc_box p))\<rparr>"

text \<open>\<open>setSent\<close> on the item in a slot, whether or not the container is locked.\<close>

definition set_sent :: "nat \<Rightarrow> bool \<Rightarrow> mail_char \<Rightarrow> mail_char" where
  "set_sent s v p = p\<lparr>mc_box := (mc_box p)\<lparr>u_items :=
     (u_items (mc_box p))[s := map_option (b_sent_update (\<lambda>_. v)) (u_items (mc_box p) ! s)]\<rparr>\<rparr>"

section \<open>Opening, closing and showing\<close>

definition OpenSendBox :: "mail_char \<Rightarrow> mail_char" where
  "OpenSendBox p = p\<lparr>mc_box := uc_SetType UCONTAINER_SEND_DELIVERYBOX uc_empty\<rparr>"

definition OpenRecvBox :: "mail_char \<Rightarrow> mail_char" where
  "OpenRecvBox p = p\<lparr>mc_box := uc_SetType UCONTAINER_RECV_DELIVERYBOX uc_empty\<rparr>"

definition CloseMailWindow :: "mail_char \<Rightarrow> mail_char" where
  "CloseMailWindow p = (if IsAnyDeliveryBoxOpen p then p\<lparr>mc_box := uc_empty\<rparr> else p)"

definition row_item :: "item \<Rightarrow> nat \<Rightarrow> box_row \<Rightarrow> box_item" where
  "row_item tpl box r =
     \<lparr>b_item = setQuantity (r_quantity r) (tpl\<lparr>i_slotID := r_slot r\<rparr>),
      b_sender = (if box = 2 then r_charname r else r_sender r),
      b_receiver = (if box = 2 then r_sender r else r_charname r),
      b_sent = r_sent r\<rparr>"

definition show_row :: "templates \<Rightarrow> nat \<Rightarrow> box_row \<Rightarrow> mail_char \<Rightarrow> mail_char" where
  "show_row T box r p =
     (case spawn T (r_itemid r) of
        None \<Rightarrow> p
      | Some tpl \<Rightarrow> show_item (r_slot r) (Some (row_item tpl box r)) p)"

definition SendOldItems :: "templates \<Rightarrow> (nat \<Rightarrow> bool) \<Rightarrow> nat \<Rightarrow> mail \<Rightarrow> mail" where
  "SendOldItems T ok box w =
     (if \<not> IsAnyDeliveryBoxOpen (snd w) \<or> \<not> ok 0 then w
      else (fst w, fold (show_row T box)
              (by_slot (filter (\<lambda>r. r_slot r < 8) (box_rows (mc_id (snd w)) box (fst w)))) (snd w)))"

definition SendClientNewItemCount :: "(nat \<Rightarrow> bool) \<Rightarrow> int \<Rightarrow> mail \<Rightarrow> nat" where
  "SendClientNewItemCount ok box w =
     (if \<not> IsAnyDeliveryBoxOpen (snd w) \<or> \<not> ok 0 then 0
      else if box = 1
      then min (length (filter (\<lambda>i. uc_IsSlotEmpty i (mc_box (snd w))) [0..<8]))
             (length (filter (\<lambda>r. 8 \<le> r_slot r) (box_rows (mc_id (snd w)) 1 (fst w))))
      else if box = 2
      then length (filter r_received (box_rows (mc_id (snd w)) 2 (fst w))) mod 256
      else 0)"

section \<open>Sending\<close>

definition AddItemsToBeSent ::
  "templates \<Rightarrow> directory \<Rightarrow> (nat \<Rightarrow> bool) \<Rightarrow> nat \<Rightarrow> nat \<Rightarrow> uint32 \<Rightarrow> string \<Rightarrow> mail \<Rightarrow> mail" where
  "AddItemsToBeSent T dir ok post islot stacks receiver w =
     (let rows = fst w; p = snd w in
      if \<not> IsSendBoxOpen p then w
      else (case GetItem islot (storage (mc_char p) LOC_INVENTORY) of
        None \<Rightarrow> w
      | Some it \<Rightarrow>
        if stacks = 0 then w
        else if i_quantity it < stacks \<or> 0 < i_reserve it \<or> isSubType it ITEM_LOCKED then w
        else if \<not> uc_IsSlotEmpty post (mc_box p) then w
        else (case dir receiver of
          None \<Rightarrow> w
        | Some (rc, ra) \<Rightarrow>
          if rc = 0 \<or> ra = 0 then w
          else if hasFlag it FLAG_NODELIVERY \<and> (\<not> hasFlag it FLAG_CANSENDACCOUNT \<or> mc_accid p \<noteq> ra) then w
          else (case spawn T (i_id it) of
            None \<Rightarrow> w
          | Some tpl \<Rightarrow>
            let b = \<lparr>b_item = (setQuantity stacks tpl)\<lparr>i_slotID := i_slotID it\<rparr>, b_sender = mc_name p,
                     b_receiver = receiver, b_sent = False\<rparr>;
                row = \<lparr>r_charid = mc_id p, r_charname = mc_name p, r_box = 2, r_slot = post,
                     r_itemid = i_id it, r_quantity = stacks, r_senderid = rc, r_sender = receiver,
                     r_received = False, r_sent = False\<rparr>
            in (case (if ok 0 then insert_row row rows else None) of
                  None \<Rightarrow> w
                | Some rows' \<Rightarrow>
                  let (r, ch) = UpdateItem LOC_INVENTORY islot (- sint stacks) False (mc_char p)
                  in if r \<noteq> 0 then (rows', show_item post (Some b) (p\<lparr>mc_char := ch\<rparr>))
                     else (rows', p\<lparr>mc_char := ch\<rparr>))))))"

text \<open>The row of a parcel on its way; the trigger gives it its slot.\<close>

definition parcel :: "nat \<Rightarrow> string \<Rightarrow> item \<Rightarrow> mail_char \<Rightarrow> box_row" where
  "parcel to_id to_name it p =
     \<lparr>r_charid = to_id, r_charname = to_name, r_box = 1, r_slot = 0, r_itemid = i_id it,
      r_quantity = i_quantity it, r_senderid = mc_id p, r_sender = mc_name p,
      r_received = False, r_sent = False\<rparr>"

text \<open>The conditions of the statements.\<close>

definition to_send :: "nat \<Rightarrow> nat \<Rightarrow> nat \<Rightarrow> box_row \<Rightarrow> bool" where
  "to_send me charid post r \<longleftrightarrow>
     r_charid r = me \<and> r_senderid r = charid \<and> r_slot r = post \<and> r_box r = 2"

definition SendConfirmation :: "directory \<Rightarrow> (nat \<Rightarrow> bool) \<Rightarrow> nat \<Rightarrow> mail \<Rightarrow> mail" where
  "SendConfirmation dir ok post w =
     (let rows = fst w; p = snd w in
      if \<not> IsSendBoxOpen p then w
      else (case shown p post of
        None \<Rightarrow> w
      | Some b \<Rightarrow>
        if b_sent b \<or> \<not> ok 0 then w
        else
          let charid = getCharIdFromName dir (b_receiver b);
              mine = to_send (mc_id p) charid post
          in if \<not> ok 1 \<or> \<not> (\<exists>r \<in> set rows. mine r \<and> \<not> r_sent r) then w
             else (case (if ok 2
                         then insert_row (parcel charid (b_receiver b) (b_item b) p)
                                (map (\<lambda>r. if mine r then r\<lparr>r_sent := True\<rparr> else r) rows)
                         else None) of
                     None \<Rightarrow> w
                   | Some rows' \<Rightarrow> (rows', set_sent post True p))))"

text \<open>The second test of the code asks the first statement's result again.\<close>

definition recallable :: "nat \<Rightarrow> nat \<Rightarrow> box_row \<Rightarrow> bool" where
  "recallable me post r \<longleftrightarrow>
     r_charid r = me \<and> r_box r = 2 \<and> r_slot r = post \<and> r_sent r \<and> \<not> r_received r"

definition in_queue :: "nat \<Rightarrow> nat \<Rightarrow> item \<Rightarrow> box_row \<Rightarrow> bool" where
  "in_queue me charid it r \<longleftrightarrow> r_senderid r = me \<and> r_box r = 1 \<and> r_charid r = charid \<and>
     r_itemid r = i_id it \<and> r_quantity r = i_quantity it \<and> 8 \<le> r_slot r"

definition orphan :: "nat \<Rightarrow> nat \<Rightarrow> item \<Rightarrow> box_row \<Rightarrow> bool" where
  "orphan me post it r \<longleftrightarrow> r_box r = 2 \<and> r_charid r = me \<and> r_itemid r = i_id it \<and>
     r_quantity r = i_quantity it \<and> r_slot r = post"

definition cancel_sent :: "(nat \<Rightarrow> bool) \<Rightarrow> nat \<Rightarrow> nat \<Rightarrow> nat \<Rightarrow> item \<Rightarrow> box_row list \<Rightarrow> box_row list option" where
  "cancel_sent ok me charid post it rows =
     (if \<not> ok 0 \<or> charid = 0 \<or> \<not> ok 1 \<or> \<not> (\<exists>r \<in> set rows. recallable me post r) then None
      else if \<not> ok 2 then None
      else Some (delete_first (in_queue me charid it)
                   (update_first (recallable me post) (\<lambda>r. r\<lparr>r_sent := False\<rparr>) rows)))"

definition CancelSendingItem :: "directory \<Rightarrow> (nat \<Rightarrow> bool) \<Rightarrow> nat \<Rightarrow> mail \<Rightarrow> mail" where
  "CancelSendingItem dir ok post w =
     (let rows = fst w; p = snd w in
      if \<not> IsSendBoxOpen p then w
      else (case shown p post of
        None \<Rightarrow> w
      | Some b \<Rightarrow>
        (case cancel_sent ok (mc_id p) (getCharIdFromName dir (b_receiver b)) post (b_item b) rows of
           Some rows' \<Rightarrow> (rows', set_sent post False p)
         | None \<Rightarrow>
           (if ok 3 then delete_first (orphan (mc_id p) post (b_item b)) rows else rows, p))))"

text \<open>The row of a slot.\<close>

definition in_slot :: "nat \<Rightarrow> nat \<Rightarrow> nat \<Rightarrow> box_row \<Rightarrow> bool" where
  "in_slot c b s r \<longleftrightarrow> r_charid r = c \<and> r_box r = b \<and> r_slot r = s"

definition RemoveDeliveredItemFromSendingBox :: "(nat \<Rightarrow> bool) \<Rightarrow> mail \<Rightarrow> mail" where
  "RemoveDeliveredItemFromSendingBox ok w =
     (let rows = fst w; p = snd w in
      if \<not> IsSendBoxOpen p then w
      else (case by_slot (filter r_received (box_rows (mc_id p) 2 rows)) of
        [] \<Rightarrow> w
      | r0 # rest \<Rightarrow>
        let s = r_slot r0 mod 256;
            gone = in_slot (mc_id p) 2 s
        in (case shown p s of
              None \<Rightarrow> w
            | Some b \<Rightarrow>
              if ok 0 \<and> b_sent b \<and> ok 1 \<and> (\<exists>r \<in> set rows. gone r)
              then (delete_first gone rows, show_item s None p) else w)))"

section \<open>Receiving\<close>

definition inbox_queue :: "nat \<Rightarrow> box_row list \<Rightarrow> box_row list" where
  "inbox_queue c rows = by_slot (filter (\<lambda>r. 8 \<le> r_slot r) (box_rows c 1 rows))"

text \<open>The two updates that take the first row of the queue out; the slot is read into a byte.\<close>

definition dequeue :: "(nat \<Rightarrow> bool) \<Rightarrow> nat \<Rightarrow> nat \<Rightarrow> nat \<Rightarrow> box_row list \<Rightarrow> box_row list option" where
  "dequeue ok me post queue rows =
     (case (if ok 4 then move_rows (\<lambda>r. r_charid r = me \<and> r_box r = 1 \<and> r_slot r = queue) (\<lambda>s. post) rows
            else None) of
        None \<Rightarrow> None
      | Some rows1 \<Rightarrow>
        (if ok 5 then move_rows (\<lambda>r. r_charid r = me \<and> r_box r = 1 \<and> queue < r_slot r) (\<lambda>s. s - 1) rows1
         else None))"

definition SendNewItems :: "templates \<Rightarrow> (nat \<Rightarrow> bool) \<Rightarrow> int \<Rightarrow> nat \<Rightarrow> mail \<Rightarrow> mail" where
  "SendNewItems T ok box post w =
     (let rows = fst w; p = snd w in
      if \<not> IsRecvBoxOpen p \<or> box \<noteq> 1 \<or> \<not> ok 0 \<or> \<not> ok 1 then w
      else (case inbox_queue (mc_id p) rows of
        [] \<Rightarrow> w
      | r0 # rest \<Rightarrow>
        (case spawn T (r_itemid r0) of
           None \<Rightarrow> w
         | Some tpl \<Rightarrow>
           if \<not> uc_IsSlotEmpty post (mc_box p) \<or> \<not> ok 3 then w
           else
             let it = (setQuantity (r_quantity r0) tpl)\<lparr>i_slotID := post\<rparr>;
                 b = \<lparr>b_item = it, b_sender = r_sender r0, b_receiver = [], b_sent = False\<rparr>;
                 rows1 = (if ok 2
                   then update_first (\<lambda>r. r_senderid r = mc_id p \<and> r_charid r = r_senderid r0 \<and> r_box r = 2 \<and>
                          \<not> r_received r \<and> r_quantity r = i_quantity it \<and> r_sent r \<and> r_itemid r = i_id it)
                          (\<lambda>r. r\<lparr>r_received := True\<rparr>) rows
                   else rows)
             in (case dequeue ok (mc_id p) post (r_slot r0 mod 256) rows1 of
                   None \<Rightarrow> w
                 | Some rows2 \<Rightarrow> (rows2, show_item post (Some b) p)))))"

definition ReturnToSender :: "(nat \<Rightarrow> bool) \<Rightarrow> nat \<Rightarrow> mail \<Rightarrow> mail" where
  "ReturnToSender ok post w =
     (let rows = fst w; p = snd w in
      if \<not> IsRecvBoxOpen p then w
      else (case shown p post of
        None \<Rightarrow> w
      | Some b \<Rightarrow>
        (case (if ok 0 \<and> ok 1 then List.find (in_slot (mc_id p) 1 post) rows else None) of
           None \<Rightarrow> w
         | Some r0 \<Rightarrow>
           if r_senderid r0 = 0 then w
           else (case (if ok 2 then insert_row (parcel (r_senderid r0) (r_sender r0) (b_item b) p) rows
                       else None) of
                   None \<Rightarrow> w
                 | Some rows1 \<Rightarrow>
                   if ok 3 \<and> (\<exists>r \<in> set rows1. in_slot (mc_id p) 1 post r)
                   then (delete_first (in_slot (mc_id p) 1 post) rows1, show_item post None p)
                   else w))))"

text \<open>
  Taking an item: \<open>ok 2\<close> is the statement that stores it in the inventory.  The result is
  \<^const>\<open>None\<close> when the copy of the item is a null pointer.
\<close>

definition takeable :: "nat \<Rightarrow> int \<Rightarrow> nat \<Rightarrow> box_row \<Rightarrow> bool" where
  "takeable me box post r \<longleftrightarrow> in_slot me (nat box) post r \<and> (box = 2 \<longrightarrow> \<not> r_sent r)"

definition TakeItemFromCell :: "(nat \<Rightarrow> bool) \<Rightarrow> int \<Rightarrow> nat \<Rightarrow> mail \<Rightarrow> mail option" where
  "TakeItemFromCell ok box post w =
     (let rows = fst w; p = snd w in
      if \<not> IsAnyDeliveryBoxOpen p then Some w
      else (case shown p post of
        None \<Rightarrow> Some w
      | Some b \<Rightarrow>
        if \<not> isType (b_item b) ITEM_CURRENCY \<and>
           GetFreeSlotsCount (storage (mc_char p) LOC_INVENTORY) = 0 then Some w
        else
          let gone = takeable (mc_id p) box post
          in if \<not> ok 0 \<or> (box \<noteq> 1 \<and> box \<noteq> 2) \<or> \<not> ok 1 \<or> \<not> (\<exists>r \<in> set rows. gone r) then Some w
             else (case clone (b_item b) of
                     None \<Rightarrow> None
                   | Some it \<Rightarrow>
                     let (r, ch) = AddItemObject LOC_INVENTORY it (ok 2) (mc_char p)
                     in Some (if r \<noteq> ERROR_SLOTID
                              then (delete_first gone rows, show_item post None (p\<lparr>mc_char := ch\<rparr>))
                              else (rows, p\<lparr>mc_char := ch\<rparr>)))))"

definition RemoveItemFromCell :: "(nat \<Rightarrow> bool) \<Rightarrow> nat \<Rightarrow> mail \<Rightarrow> mail" where
  "RemoveItemFromCell ok post w =
     (let rows = fst w; p = snd w in
      if \<not> IsRecvBoxOpen p \<or> shown p post = None then w
      else if ok 0 \<and> (\<exists>r \<in> set rows. in_slot (mc_id p) 1 post r)
      then (delete_first (in_slot (mc_id p) 1 post) rows, show_item post None p)
      else w)"

section \<open>The packet\<close>

record pbx_packet =
  Command :: nat
  BoxNo :: int
  PostWorkNo :: int
  ItemWorkNo :: int
  ItemStacks :: int
  Result :: int
  ResParam1 :: int
  ResParam2 :: int
  ResParam3 :: int
  TargetName :: string

text \<open>What the character is doing and where he stands; the name has been read as a string.\<close>

record pbx_env =
  busy :: bool
  jailed :: bool
  residential :: bool
  gm :: bool
  zone_allows :: bool

definition pbx_validate :: "pbx_env \<Rightarrow> pbx_packet \<Rightarrow> bool" where
  "pbx_validate e p \<longleftrightarrow>
     1 \<le> Command p \<and> Command p \<le> 15 \<and> \<not> busy e \<and> \<not> jailed e \<and>
     Result p = 0 \<and> ResParam1 p = 0 \<and> ResParam2 p = 0 \<and> ResParam3 p = 0 \<and>
     (if Command p = 1
      then 1 \<le> BoxNo p \<and> BoxNo p \<le> 2 \<and> -1 \<le> PostWorkNo p \<and> PostWorkNo p \<le> 8 \<and>
           ItemWorkNo p = -1 \<and> ItemStacks p = -1
      else if Command p = 2
      then BoxNo p = 2 \<and> 0 \<le> PostWorkNo p \<and> PostWorkNo p \<le> 8 \<and>
           0 \<le> ItemStacks p \<and> ItemStacks p \<le> 999999999
      else if Command p = 3 \<or> Command p = 4
      then BoxNo p = 2 \<and> 0 \<le> PostWorkNo p \<and> PostWorkNo p \<le> 8 \<and> ItemWorkNo p = -1 \<and> ItemStacks p = -1
      else if Command p = 5
      then 1 \<le> BoxNo p \<and> BoxNo p \<le> 2 \<and> PostWorkNo p = -1 \<and> ItemWorkNo p = -1 \<and> ItemStacks p = -1
      else if Command p = 6
      then BoxNo p = 1 \<and> 0 \<le> PostWorkNo p \<and> PostWorkNo p \<le> 8 \<and> ItemWorkNo p = 1 \<and> ItemStacks p = -1
      else if Command p = 8 \<or> Command p = 9
      then BoxNo p = 1 \<and> 0 \<le> PostWorkNo p \<and> PostWorkNo p \<le> 8 \<and> ItemWorkNo p = -1 \<and> ItemStacks p = -1
      else if Command p = 10 \<or> Command p = 11
      then 1 \<le> BoxNo p \<and> BoxNo p \<le> 2 \<and> 0 \<le> PostWorkNo p \<and> PostWorkNo p \<le> 8 \<and>
           ItemWorkNo p = -1 \<and> ItemStacks p = -1
      else BoxNo p = -1 \<and> PostWorkNo p = -1 \<and> ItemWorkNo p = -1 \<and> ItemStacks p = -1)"

text \<open>Commands 5, 8 and 12 only answer the client.\<close>

definition pbx_process ::
  "templates \<Rightarrow> directory \<Rightarrow> pbx_env \<Rightarrow> (nat \<Rightarrow> bool) \<Rightarrow> pbx_packet \<Rightarrow> mail \<Rightarrow> mail option" where
  "pbx_process T dir e ok p w =
     (let post = nat (PostWorkNo p) in
      if \<not> pbx_validate e p then Some w
      else if \<not> residential e \<and> \<not> gm e \<and> \<not> zone_allows e then Some w
      else if Command p = 1 then Some (SendOldItems T ok (nat (BoxNo p)) w)
      else if Command p = 2
      then Some (AddItemsToBeSent T dir ok post (nat (ItemWorkNo p mod 256)) (word_of_int (ItemStacks p)) (TargetName p) w)
      else if Command p = 3 then Some (SendConfirmation dir ok post w)
      else if Command p = 4 then Some (CancelSendingItem dir ok post w)
      else if Command p = 6 then Some (SendNewItems T ok (BoxNo p) post w)
      else if Command p = 7 then Some (RemoveDeliveredItemFromSendingBox ok w)
      else if Command p = 9 then Some (ReturnToSender ok post w)
      else if Command p = 10 then TakeItemFromCell ok (BoxNo p) post w
      else if Command p = 11 then Some (RemoveItemFromCell ok post w)
      else if Command p = 13 then Some (fst w, OpenSendBox (snd w))
      else if Command p = 14 then Some (fst w, OpenRecvBox (snd w))
      else if Command p = 15 then Some (fst w, CloseMailWindow (snd w))
      else Some w)"

section \<open>Several players\<close>

record post_office =
  po_rows :: "box_row list"
  po_players :: "nat \<Rightarrow> mail_char"

definition pbx_step ::
  "templates \<Rightarrow> directory \<Rightarrow> pbx_env \<Rightarrow> (nat \<Rightarrow> bool) \<Rightarrow> nat \<Rightarrow> pbx_packet \<Rightarrow> post_office \<Rightarrow> post_office option" where
  "pbx_step T dir e ok me p W =
     map_option (\<lambda>(rows, q). \<lparr>po_rows = rows, po_players = (po_players W)(me := q)\<rparr>)
       (pbx_process T dir e ok p (po_rows W, po_players W me))"

end
