(* ===== verification/MailLaws.thy ===== *)
theory MailLaws
  imports DeliveryBox Carrying
begin

text \<open>
  What the operations of \<open>DeliveryBox\<close> keep: the invariant of the table and of the box a player
  has open, the amount of every item in the mail and in the bags, and what the other players see.
  One lemma per statement of the table first, then one per operation.
\<close>

section \<open>Statements of the table\<close>

lemma delete_first_split:
  assumes "\<exists>r \<in> set rows. P r"
  obtains xs r ys where "rows = xs @ r # ys" "P r" "delete_first P rows = xs @ ys"
proof -
  have "\<exists>xs r ys. rows = xs @ r # ys \<and> P r \<and> delete_first P rows = xs @ ys"
    using assms
  proof (induction rows)
    case (Cons a rows)
    show ?case
    proof (cases "P a")
      case True
      then show ?thesis by (intro exI[of _ "[]"] exI[of _ a] exI[of _ rows]) simp
    next
      case False
      with Cons obtain xs r ys where "rows = xs @ r # ys" "P r" "delete_first P rows = xs @ ys" by auto
      with False show ?thesis by (intro exI[of _ "a # xs"] exI[of _ r] exI[of _ ys]) simp
    qed
  qed simp
  with that show thesis by blast
qed

lemma delete_first_none: "\<not> (\<exists>r \<in> set rows. P r) \<Longrightarrow> delete_first P rows = rows"
  by (induction rows) auto

lemma update_first_split:
  assumes "\<exists>r \<in> set rows. P r"
  obtains xs r ys where "rows = xs @ r # ys" "P r" "update_first P f rows = xs @ f r # ys"
proof -
  have "\<exists>xs r ys. rows = xs @ r # ys \<and> P r \<and> update_first P f rows = xs @ f r # ys"
    using assms
  proof (induction rows)
    case (Cons a rows)
    show ?case
    proof (cases "P a")
      case True
      then show ?thesis by (intro exI[of _ "[]"] exI[of _ a] exI[of _ rows]) simp
    next
      case False
      with Cons obtain xs r ys where "rows = xs @ r # ys" "P r" "update_first P f rows = xs @ f r # ys" by auto
      with False show ?thesis by (intro exI[of _ "a # xs"] exI[of _ r] exI[of _ ys]) simp
    qed
  qed simp
  with that show thesis by blast
qed

lemma update_first_none: "\<not> (\<exists>r \<in> set rows. P r) \<Longrightarrow> update_first P f rows = rows"
  by (induction rows) auto

text \<open>An update whose condition fixes the key changes the one row that has it.\<close>

lemma update_by_key:
  assumes "distinct (map row_key rows)" "\<And>r. P r \<Longrightarrow> row_key r = k"
  shows "map (\<lambda>r. if P r then f r else r) rows = update_first P f rows"
  using assms(1)
proof (induction rows)
  case (Cons a rows)
  show ?case
  proof (cases "P a")
    case True
    have "\<not> P r" if "r \<in> set rows" for r
      using that Cons.prems assms(2)[OF True] assms(2)[of r] by (auto simp: image_iff)
    then have "map (\<lambda>r. if P r then f r else r) rows = rows" by (simp add: map_idI)
    with True show ?thesis by simp
  next
    case False
    with Cons show ?thesis by simp
  qed
qed simp

lemma same_key:
  "distinct (map row_key rows) \<Longrightarrow> r \<in> set rows \<Longrightarrow> r' \<in> set rows \<Longrightarrow> row_key r = row_key r' \<Longrightarrow> r = r'"
  by (metis distinct_map inj_onD)

lemma foldr_max: "foldr max xs (0 :: nat) = y \<Longrightarrow> x \<in> set xs \<Longrightarrow> x \<le> y"
  by (induction xs arbitrary: y) (auto simp: le_max_iff_disj)

lemma insert_row_appends:
  assumes "insert_row r rows = Some rows'"
  obtains s where "rows' = rows @ [r\<lparr>r_slot := s\<rparr>]" "row_key (r\<lparr>r_slot := s\<rparr>) \<notin> row_key ` set rows"
    "r_box r = 1 \<Longrightarrow> 8 \<le> s" "r_box r \<noteq> 1 \<Longrightarrow> s = r_slot r"
    "r_box r = 1 \<Longrightarrow> \<forall>r' \<in> set (box_rows (r_charid r) 1 rows). r_slot r' < s"
proof -
  let ?r = "delivery_box_insert rows r"
  have r: "?r = r\<lparr>r_slot := r_slot ?r\<rparr>" by (simp add: delivery_box_insert_def Let_def)
  have rows': "rows' = rows @ [?r]" "row_key ?r \<notin> row_key ` set rows"
    using assms by (auto simp: insert_row_def Let_def split: if_splits)
  have b: "8 \<le> r_slot ?r" "\<forall>r' \<in> set (box_rows (r_charid r) 1 rows). r_slot r' < r_slot ?r" if "r_box r = 1"
  proof -
    let ?slots = "map r_slot (box_rows (r_charid r) 1 rows)"
    note top = foldr_max[OF refl, of _ ?slots]
    show "8 \<le> r_slot ?r" using that by (auto simp: delivery_box_insert_def Let_def)
    show "\<forall>r' \<in> set (box_rows (r_charid r) 1 rows). r_slot r' < r_slot ?r"
      using that top by (force simp: delivery_box_insert_def Let_def)
  qed
  have o: "r_box r \<noteq> 1 \<Longrightarrow> r_slot ?r = r_slot r" by (simp add: delivery_box_insert_def)
  show thesis by (rule that[of "r_slot ?r"]) (use rows' b o in \<open>simp_all flip: r\<close>)
qed

section \<open>Mail in flight\<close>

text \<open>
  A row is an item unless it is the record of a parcel that has been sent off.  A record that
  waits for its parcel to be taken promises one that is still in the receiver's queue.
\<close>

definition live :: "box_row \<Rightarrow> bool" where
  "live r \<longleftrightarrow> r_box r = 1 \<or> \<not> r_sent r"

definition row_amount :: "nat \<Rightarrow> box_row \<Rightarrow> nat" where
  "row_amount i r = (if live r \<and> r_itemid r = i then unat (r_quantity r) else 0)"

definition in_mail :: "nat \<Rightarrow> box_row list \<Rightarrow> nat" where
  "in_mail i rows = sum_list (map (row_amount i) rows)"

definition is_promise :: "nat \<Rightarrow> nat \<Rightarrow> nat \<Rightarrow> uint32 \<Rightarrow> box_row \<Rightarrow> bool" where
  "is_promise a b i q r \<longleftrightarrow> r_box r = 2 \<and> r_charid r = b \<and> r_senderid r = a \<and> r_sent r \<and>
     \<not> r_received r \<and> r_itemid r = i \<and> r_quantity r = q"

definition is_queued :: "nat \<Rightarrow> nat \<Rightarrow> nat \<Rightarrow> uint32 \<Rightarrow> box_row \<Rightarrow> bool" where
  "is_queued a b i q r \<longleftrightarrow> r_box r = 1 \<and> r_charid r = a \<and> r_senderid r = b \<and> 8 \<le> r_slot r \<and>
     r_itemid r = i \<and> r_quantity r = q"

definition number :: "(box_row \<Rightarrow> bool) \<Rightarrow> box_row list \<Rightarrow> nat" where
  "number P rows = length (filter P rows)"

definition promises_kept :: "box_row list \<Rightarrow> bool" where
  "promises_kept rows \<longleftrightarrow>
     (\<forall>a b i q. number (is_promise a b i q) rows \<le> number (is_queued a b i q) rows)"

definition row_ok :: "templates \<Rightarrow> directory \<Rightarrow> box_row \<Rightarrow> bool" where
  "row_ok T dir r \<longleftrightarrow> (r_box r = 1 \<or> r_box r = 2) \<and>
     (\<exists>tpl. spawn T (r_itemid r) = Some tpl \<and> r_quantity r \<le> i_stackSize tpl) \<and>
     (r_box r = 2 \<longrightarrow> r_slot r < 8 \<and> r_senderid r \<noteq> 0 \<and> (\<exists>a. dir (r_sender r) = Some (r_senderid r, a)))"

definition rows_ok :: "templates \<Rightarrow> directory \<Rightarrow> box_row list \<Rightarrow> bool" where
  "rows_ok T dir rows \<longleftrightarrow> distinct (map row_key rows) \<and> (\<forall>r \<in> set rows. row_ok T dir r) \<and>
     promises_kept rows"

text \<open>What an open box shows in a slot is what the row of that slot says, if it is still there.\<close>

definition open_box :: "mail_char \<Rightarrow> nat" where
  "open_box p = (if IsSendBoxOpen p then 2 else 1)"

definition shown_ok :: "templates \<Rightarrow> box_item \<Rightarrow> bool" where
  "shown_ok T b \<longleftrightarrow> carried_ok T (b_item b) \<and> i_reserve (b_item b) = 0 \<and> i_type (b_item b) \<noteq> 0"

definition mirrors :: "nat \<Rightarrow> box_row \<Rightarrow> box_item \<Rightarrow> bool" where
  "mirrors box r b \<longleftrightarrow> r_itemid r = i_id (b_item b) \<and> r_quantity r = i_quantity (b_item b) \<and>
     (box = 2 \<longrightarrow> r_sent r = b_sent b \<and> r_sender r = b_receiver b)"

definition mirrored :: "templates \<Rightarrow> box_row list \<Rightarrow> mail_char \<Rightarrow> nat \<Rightarrow> box_item \<Rightarrow> bool" where
  "mirrored T rows p s b \<longleftrightarrow> s < 8 \<and> shown_ok T b \<and>
     (\<forall>r \<in> set rows. in_slot (mc_id p) (open_box p) s r \<longrightarrow> mirrors (open_box p) r b)"

definition box_ok :: "templates \<Rightarrow> box_row list \<Rightarrow> mail_char \<Rightarrow> bool" where
  "box_ok T rows p \<longleftrightarrow> (IsAnyDeliveryBoxOpen p \<longrightarrow>
     length (u_items (mc_box p)) = UCONTAINER_SIZE \<and> \<not> u_lock (mc_box p) \<and>
     (\<forall>s b. shown p s = Some b \<longrightarrow> mirrored T rows p s b))"

definition player_ok :: "templates \<Rightarrow> nat \<Rightarrow> box_row list \<Rightarrow> mail_char \<Rightarrow> bool" where
  "player_ok T me rows p \<longleftrightarrow> mc_id p = me \<and> char_ok T (mc_char p) \<and> box_ok T rows p"

text \<open>A step of one player puts nothing into the slots the others see.\<close>

definition from_row :: "box_row list \<Rightarrow> box_row \<Rightarrow> bool" where
  "from_row rows r' \<longleftrightarrow> (\<exists>x. r'\<lparr>r_received := x\<rparr> \<in> set rows)"

definition others_kept :: "nat \<Rightarrow> box_row list \<Rightarrow> box_row list \<Rightarrow> bool" where
  "others_kept me rows rows' \<longleftrightarrow>
     (\<forall>r' \<in> set rows'. r_charid r' \<noteq> me \<longrightarrow> r_slot r' < 8 \<longrightarrow> from_row rows r')"

lemma in_mail_simps [simp]:
  "in_mail i [] = 0" "in_mail i (r # rows) = row_amount i r + in_mail i rows"
  "in_mail i (rows @ rows') = in_mail i rows + in_mail i rows'"
  by (simp_all add: in_mail_def)

lemma number_simps [simp]:
  "number P [] = 0" "number P (r # rows) = (if P r then 1 else 0) + number P rows"
  "number P (rows @ rows') = number P rows + number P rows'"
  by (simp_all add: number_def)

lemma from_row_same: "r \<in> set rows \<Longrightarrow> from_row rows r"
  unfolding from_row_def by (rule exI[of _ "r_received r"]) simp

lemma row_amount_update [simp]:
  "row_amount i (r\<lparr>r_received := x\<rparr>) = row_amount i r"
  "row_amount i (r\<lparr>r_slot := s\<rparr>) = row_amount i r"
  by (simp_all add: row_amount_def live_def)

lemma row_ok_update [simp]:
  "row_ok T dir (r\<lparr>r_received := x\<rparr>) = row_ok T dir r"
  "row_ok T dir (r\<lparr>r_sent := x\<rparr>) = row_ok T dir r"
  by (simp_all add: row_ok_def)

lemma row_key_update [simp]:
  "row_key (r\<lparr>r_received := x\<rparr>) = row_key r"
  "row_key (r\<lparr>r_sent := x\<rparr>) = row_key r"
  by (simp_all add: row_key_def)

lemma in_slot_update [simp]:
  "in_slot c b s (r\<lparr>r_received := x\<rparr>) = in_slot c b s r"
  "in_slot c b s (r\<lparr>r_sent := x\<rparr>) = in_slot c b s r"
  by (simp_all add: in_slot_def)

lemma mirrors_received [simp]: "mirrors box (r\<lparr>r_received := x\<rparr>) b = mirrors box r b"
  by (simp add: mirrors_def)

lemma in_slot_key: "in_slot c b s r \<longleftrightarrow> row_key r = (c, b, s)"
  by (auto simp: in_slot_def row_key_def)

lemma mirrored_kept:
  assumes "mirrored T rows p s b" "mc_id p' = mc_id p" "open_box p' = open_box p"
    "\<And>r'. r' \<in> set rows' \<Longrightarrow> in_slot (mc_id p) (open_box p) s r' \<Longrightarrow> from_row rows r'"
  shows "mirrored T rows' p' s b"
  unfolding mirrored_def
proof (intro conjI ballI impI)
  fix r' assume "r' \<in> set rows'" "in_slot (mc_id p') (open_box p') s r'"
  with assms obtain x where "r'\<lparr>r_received := x\<rparr> \<in> set rows" "in_slot (mc_id p) (open_box p) s r'"
    by (auto simp: from_row_def)
  with assms(1,3) show "mirrors (open_box p') r' b" by (fastforce simp: mirrored_def)
qed (use assms(1) in \<open>simp_all add: mirrored_def\<close>)

lemma other_player_ok:
  assumes "player_ok T k rows p" "k \<noteq> me" "others_kept me rows rows'"
  shows "player_ok T k rows' p"
proof -
  have "mirrored T rows' p s b" if "mirrored T rows p s b" for s b
    by (rule mirrored_kept[OF that])
      (use assms that in \<open>auto simp: others_kept_def player_ok_def mirrored_def in_slot_def\<close>)
  with assms(1) show ?thesis by (auto simp: player_ok_def box_ok_def)
qed

section \<open>What each statement does to the invariants\<close>

lemma rows_ok_delete:
  assumes "rows_ok T dir (xs @ r # ys)" "\<not> (r_box r = 1 \<and> 8 \<le> r_slot r)"
  shows "rows_ok T dir (xs @ ys)"
proof -
  have "number (is_promise a b i q) (xs @ ys) \<le> number (is_queued a b i q) (xs @ ys)" for a b i q
  proof -
    have "number (is_promise a b i q) (xs @ r # ys) \<le> number (is_queued a b i q) (xs @ r # ys)"
      using assms(1) by (simp only: rows_ok_def promises_kept_def)
    moreover have "\<not> is_queued a b i q r" using assms(2) by (auto simp: is_queued_def)
    ultimately show ?thesis by (auto split: if_splits)
  qed
  with assms(1) show ?thesis by (auto simp: rows_ok_def promises_kept_def)
qed

lemma rows_ok_append:
  assumes "rows_ok T dir rows" "row_ok T dir r" "row_key r \<notin> row_key ` set rows" "\<not> r_sent r"
  shows "rows_ok T dir (rows @ [r])"
proof -
  have "number (is_promise a b i q) rows \<le> number (is_queued a b i q) rows" for a b i q
    using assms(1) by (simp only: rows_ok_def promises_kept_def)
  moreover have "\<not> is_promise a b i q r" for a b i q using assms(4) by (simp add: is_promise_def)
  ultimately show ?thesis using assms by (auto simp: rows_ok_def promises_kept_def trans_le_add1)
qed

text \<open>A parcel is sent off: its record makes a promise and the parcel joins the queue.\<close>

lemma rows_ok_send:
  assumes "rows_ok T dir (xs @ r # ys)" "r_box r = 2" "row_ok T dir n"
    "row_key n \<notin> row_key ` set (xs @ r # ys)" "\<not> r_sent n"
    "is_queued (r_senderid r) (r_charid r) (r_itemid r) (r_quantity r) n"
  shows "rows_ok T dir (xs @ r\<lparr>r_sent := True\<rparr> # ys @ [n])"
proof -
  have "number (is_promise a b i q) (xs @ r\<lparr>r_sent := True\<rparr> # ys @ [n])
      \<le> number (is_queued a b i q) (xs @ r\<lparr>r_sent := True\<rparr> # ys @ [n])" for a b i q
  proof -
    have "number (is_promise a b i q) (xs @ r # ys) \<le> number (is_queued a b i q) (xs @ r # ys)"
      using assms(1) by (simp only: rows_ok_def promises_kept_def)
    moreover have "is_promise a b i q (r\<lparr>r_sent := True\<rparr>) \<Longrightarrow> is_queued a b i q n"
      using assms(6) by (simp add: is_promise_def is_queued_def)
    moreover have "is_queued a b i q (r\<lparr>r_sent := True\<rparr>) = is_queued a b i q r" "\<not> is_promise a b i q n"
      using assms(2,5) by (auto simp: is_queued_def is_promise_def)
    ultimately show ?thesis by (auto split: if_splits)
  qed
  with assms show ?thesis by (auto simp: rows_ok_def promises_kept_def)
qed

lemma number_delete_first:
  assumes "\<exists>r \<in> set rows. P r"
  obtains r where "r \<in> set rows" "P r"
    "\<And>Q. number Q rows = (if Q r then 1 else 0) + number Q (delete_first P rows)"
    "\<And>i. in_mail i rows = row_amount i r + in_mail i (delete_first P rows)"
    "set (delete_first P rows) \<subseteq> set rows" "\<And>r'. r' \<in> set rows \<Longrightarrow> \<not> P r' \<Longrightarrow> r' \<in> set (delete_first P rows)"
    "distinct (map row_key rows) \<Longrightarrow> distinct (map row_key (delete_first P rows))"
proof -
  from delete_first_split[OF assms] obtain xs r ys where
    s: "rows = xs @ r # ys" "P r" "delete_first P rows = xs @ ys" by blast
  show thesis by (rule that[of r]) (use s in auto)
qed

lemma number_pos: "0 < number P rows \<longleftrightarrow> (\<exists>r \<in> set rows. P r)"
  by (auto simp: number_def filter_empty_conv)

text \<open>A parcel is called back: the promise is taken back and, as it was kept, a parcel leaves the queue.\<close>

lemma rows_ok_cancel:
  assumes "rows_ok T dir (xs @ r # ys)" "is_promise a b i q r"
  defines "rows1 \<equiv> xs @ r\<lparr>r_sent := False\<rparr> # ys"
  shows "rows_ok T dir (delete_first (is_queued a b i q) rows1)"
    "\<exists>r1 \<in> set rows1. is_queued a b i q r1"
proof -
  have le: "number (is_promise a' b' i' q') (xs @ r # ys) \<le> number (is_queued a' b' i' q') (xs @ r # ys)"
    for a' b' i' q' using assms(1) by (simp only: rows_ok_def promises_kept_def)
  have nq: "\<not> is_queued a' b' i' q' r" "\<not> is_queued a' b' i' q' (r\<lparr>r_sent := False\<rparr>)" for a' b' i' q'
    using assms(2) by (auto simp: is_promise_def is_queued_def)
  have "0 < number (is_queued a b i q) rows1"
    using le[of a b i q] assms(2) nq by (auto simp: rows1_def)
  then show ex: "\<exists>r1 \<in> set rows1. is_queued a b i q r1" by (simp only: number_pos)
  from number_delete_first[OF ex] obtain r1 where r1: "r1 \<in> set rows1" "is_queued a b i q r1"
    "\<And>Q. number Q rows1 = (if Q r1 then 1 else 0) + number Q (delete_first (is_queued a b i q) rows1)"
    "set (delete_first (is_queued a b i q) rows1) \<subseteq> set rows1"
    "distinct (map row_key rows1) \<Longrightarrow> distinct (map row_key (delete_first (is_queued a b i q) rows1))"
    by metis
  have "number (is_promise a' b' i' q') (delete_first (is_queued a b i q) rows1)
      \<le> number (is_queued a' b' i' q') (delete_first (is_queued a b i q) rows1)" for a' b' i' q'
  proof -
    have p: "\<not> is_promise a' b' i' q' r1" using r1(2) by (auto simp: is_promise_def is_queued_def)
    have "is_queued a' b' i' q' r1 \<Longrightarrow> is_promise a' b' i' q' r"
      using r1(2) assms(2) by (auto simp: is_promise_def is_queued_def)
    moreover have "\<not> is_promise a' b' i' q' (r\<lparr>r_sent := False\<rparr>)" by (simp add: is_promise_def)
    ultimately show ?thesis
      using le[of a' b' i' q'] nq p r1(3)[of "is_promise a' b' i' q'"] r1(3)[of "is_queued a' b' i' q'"]
      by (auto simp: rows1_def split: if_splits)
  qed
  moreover have "distinct (map row_key rows1)" "\<forall>r \<in> set rows1. row_ok T dir r"
    using assms(1) by (auto simp: rows_ok_def rows1_def)
  ultimately show "rows_ok T dir (delete_first (is_queued a b i q) rows1)"
    using r1(4,5) by (auto simp: rows_ok_def promises_kept_def)
qed

section \<open>What each statement does to a box that is shown\<close>

lemma show_item_simps [simp]:
  "mc_id (show_item s b p) = mc_id p" "mc_char (show_item s b p) = mc_char p"
  "mc_name (show_item s b p) = mc_name p"
  by (simp_all add: show_item_def)

lemma u_type_SetItem [simp]: "u_type (snd (uc_SetItem s b c)) = u_type c"
  by (simp add: uc_SetItem_def Let_def)

lemma show_item_open [simp]:
  "IsSendBoxOpen (show_item s b p) = IsSendBoxOpen p" "IsRecvBoxOpen (show_item s b p) = IsRecvBoxOpen p"
  "IsAnyDeliveryBoxOpen (show_item s b p) = IsAnyDeliveryBoxOpen p" "open_box (show_item s b p) = open_box p"
  by (simp_all add: IsSendBoxOpen_def IsRecvBoxOpen_def IsAnyDeliveryBoxOpen_def open_box_def show_item_def)

lemma set_sent_simps [simp]:
  "mc_id (set_sent s v p) = mc_id p" "mc_char (set_sent s v p) = mc_char p"
  "IsAnyDeliveryBoxOpen (set_sent s v p) = IsAnyDeliveryBoxOpen p" "open_box (set_sent s v p) = open_box p"
  "length (u_items (mc_box (set_sent s v p))) = length (u_items (mc_box p))"
  "u_lock (mc_box (set_sent s v p)) = u_lock (mc_box p)"
  by (simp_all add: set_sent_def IsSendBoxOpen_def IsRecvBoxOpen_def IsAnyDeliveryBoxOpen_def open_box_def)

lemma open_box_char [simp]:
  "IsAnyDeliveryBoxOpen (p\<lparr>mc_char := ch\<rparr>) = IsAnyDeliveryBoxOpen p" "open_box (p\<lparr>mc_char := ch\<rparr>) = open_box p"
  "shown (p\<lparr>mc_char := ch\<rparr>) s = shown p s" "mirrored T rows (p\<lparr>mc_char := ch\<rparr>) s b = mirrored T rows p s b"
  "box_ok T rows (p\<lparr>mc_char := ch\<rparr>) = box_ok T rows p"
  by (simp_all add: IsSendBoxOpen_def IsRecvBoxOpen_def IsAnyDeliveryBoxOpen_def open_box_def shown_def
      mirrored_def box_ok_def)

lemma mirrored_simps [simp]:
  "mirrored T rows (show_item s' b' p) s b = mirrored T rows p s b"
  "mirrored T rows (set_sent s' v p) s b = mirrored T rows p s b"
  by (simp_all add: mirrored_def)

lemma shown_show_item:
  "length (u_items (mc_box p)) = UCONTAINER_SIZE \<Longrightarrow> \<not> u_lock (mc_box p) \<Longrightarrow> s' < 16 \<Longrightarrow>
   shown (show_item s' b p) s = (if s = s' then b else shown p s)"
  by (auto simp: shown_def show_item_def uc_GetItem_def uc_SetItem_def UCONTAINER_SIZE_def Let_def)

lemma show_item_box:
  "length (u_items (mc_box (show_item s b p))) = length (u_items (mc_box p))"
  "u_lock (mc_box (show_item s b p)) = u_lock (mc_box p)"
  by (simp_all add: show_item_def uc_SetItem_def Let_def)

lemma shown_set_sent:
  "shown (set_sent s' v p) s =
     (if s = s' then map_option (b_sent_update (\<lambda>_. v)) (shown p s) else shown p s)"
  by (auto simp: shown_def set_sent_def uc_GetItem_def)

text \<open>Nothing new in the slots of the open box, apart from one.\<close>

definition slots_kept :: "mail_char \<Rightarrow> nat \<Rightarrow> box_row list \<Rightarrow> box_row list \<Rightarrow> bool" where
  "slots_kept p s rows rows' \<longleftrightarrow>
     (\<forall>r' \<in> set rows'. r_charid r' = mc_id p \<longrightarrow> r_box r' = open_box p \<longrightarrow> r_slot r' < 8 \<longrightarrow>
        r_slot r' \<noteq> s \<longrightarrow> from_row rows r')"

lemma still_mirrored:
  assumes "mirrored T rows p s b" "slots_kept p s' rows rows'" "s \<noteq> s'"
  shows "mirrored T rows' p s b"
  by (rule mirrored_kept[OF assms(1) refl refl])
    (use assms in \<open>auto simp: slots_kept_def mirrored_def in_slot_def\<close>)

lemma box_ok_show_item:
  assumes "box_ok T rows p" "IsAnyDeliveryBoxOpen p" "s < 16" "slots_kept p s rows rows'"
    "\<And>b. x = Some b \<Longrightarrow> mirrored T rows' p s b"
  shows "box_ok T rows' (show_item s x p)"
proof -
  have u: "length (u_items (mc_box p)) = UCONTAINER_SIZE" "\<not> u_lock (mc_box p)"
    "\<And>t b. shown p t = Some b \<Longrightarrow> mirrored T rows p t b"
    using assms(1,2) by (auto simp: box_ok_def)
  show ?thesis
    unfolding box_ok_def using assms(5) still_mirrored[OF u(3) assms(4)]
    by (auto simp: u show_item_box shown_show_item[OF u(1,2) assms(3)])
qed

lemma box_ok_set_sent:
  assumes "box_ok T rows p" "IsAnyDeliveryBoxOpen p" "shown p s = Some b" "slots_kept p s rows rows'"
    "mirrored T rows' p s (b\<lparr>b_sent := v\<rparr>)"
  shows "box_ok T rows' (set_sent s v p)"
proof -
  have u: "length (u_items (mc_box p)) = UCONTAINER_SIZE" "\<not> u_lock (mc_box p)"
    "\<And>t b. shown p t = Some b \<Longrightarrow> mirrored T rows p t b"
    using assms(1,2) by (auto simp: box_ok_def)
  show ?thesis
    unfolding box_ok_def using assms(3,5) still_mirrored[OF u(3) assms(4)]
    by (auto simp: u shown_set_sent)
qed

section \<open>The operations keep the mail in order\<close>

definition mail_ok :: "templates \<Rightarrow> directory \<Rightarrow> nat \<Rightarrow> mail \<Rightarrow> bool" where
  "mail_ok T dir me w \<longleftrightarrow> rows_ok T dir (fst w) \<and> player_ok T me (fst w) (snd w)"

definition amount :: "nat \<Rightarrow> mail \<Rightarrow> nat" where
  "amount i w = in_mail i (fst w) + total_qty i (mc_char (snd w))"

text \<open>A step of one player that keeps every invariant and every amount, or creates nothing.\<close>

definition keeps :: "templates \<Rightarrow> directory \<Rightarrow> nat \<Rightarrow> mail \<Rightarrow> mail \<Rightarrow> bool" where
  "keeps T dir me w w' \<longleftrightarrow> mail_ok T dir me w' \<and> others_kept me (fst w) (fst w') \<and>
     (\<forall>i. amount i w' = amount i w)"

definition keeps_less :: "templates \<Rightarrow> directory \<Rightarrow> nat \<Rightarrow> mail \<Rightarrow> mail \<Rightarrow> bool" where
  "keeps_less T dir me w w' \<longleftrightarrow> mail_ok T dir me w' \<and> others_kept me (fst w) (fst w') \<and>
     (\<forall>i. amount i w' \<le> amount i w)"

lemma keeps_less: "keeps T dir me w w' \<Longrightarrow> keeps_less T dir me w w'"
  by (simp add: keeps_def keeps_less_def)

lemma others_kept_refl: "others_kept me rows rows"
  by (simp add: others_kept_def from_row_same)

lemma keeps_refl: "mail_ok T dir me w \<Longrightarrow> keeps T dir me w w"
  by (simp add: keeps_def others_kept_refl)

lemma slots_kept_refl: "slots_kept p s rows rows"
  by (simp add: slots_kept_def from_row_same)

lemma mail_okD:
  assumes "mail_ok T dir me w"
  shows "rows_ok T dir (fst w)" "mc_id (snd w) = me" "char_ok T (mc_char (snd w))"
    "box_ok T (fst w) (snd w)" "distinct (map row_key (fst w))" "\<And>r. r \<in> set (fst w) \<Longrightarrow> row_ok T dir r"
  using assms by (auto simp: mail_ok_def player_ok_def rows_ok_def)

lemma shown_mirrored:
  assumes "mail_ok T dir me w" "IsAnyDeliveryBoxOpen (snd w)" "shown (snd w) s = Some b"
  shows "s < 8" "shown_ok T b"
    "\<And>r. r \<in> set (fst w) \<Longrightarrow> in_slot me (open_box (snd w)) s r \<Longrightarrow> mirrors (open_box (snd w)) r b"
  using assms by (auto simp: mail_ok_def player_ok_def box_ok_def mirrored_def)

lemma keepsI:
  assumes "rows_ok T dir rows'" "mc_id p' = me" "char_ok T (mc_char p')"
    "box_ok T rows' p'" "others_kept me (fst w) rows'" "\<And>i. amount i (rows', p') = amount i w"
  shows "keeps T dir me w (rows', p')"
  using assms by (simp add: keeps_def mail_ok_def player_ok_def)

text \<open>Opening and closing a box.\<close>

lemma closed_ok:
  assumes "mail_ok T dir me w"
  shows "keeps T dir me w (fst w, OpenSendBox (snd w))" "keeps T dir me w (fst w, OpenRecvBox (snd w))"
    "keeps T dir me w (fst w, CloseMailWindow (snd w))"
proof -
  note w = mail_okD[OF assms]
  have none: "uc_GetItem s (uc_SetType t uc_empty) = None" "uc_GetItem s uc_empty = None" for s t
    by (auto simp: uc_GetItem_def uc_SetType_def uc_empty_def)
  have "length (u_items (uc_SetType t (uc_empty :: box_item ucontainer))) = UCONTAINER_SIZE"
    "\<not> u_lock (uc_SetType t (uc_empty :: box_item ucontainer))" for t
    by (simp_all add: uc_SetType_def uc_empty_def)
  then have "box_ok T (fst w) (OpenSendBox (snd w))" "box_ok T (fst w) (OpenRecvBox (snd w))"
    by (simp_all add: box_ok_def shown_def OpenSendBox_def OpenRecvBox_def none)
  moreover have "box_ok T (fst w) (CloseMailWindow (snd w))"
    using w(4) by (simp add: CloseMailWindow_def box_ok_def IsAnyDeliveryBoxOpen_def IsSendBoxOpen_def
        IsRecvBoxOpen_def uc_empty_def)
  ultimately show "keeps T dir me w (fst w, OpenSendBox (snd w))"
    "keeps T dir me w (fst w, OpenRecvBox (snd w))" "keeps T dir me w (fst w, CloseMailWindow (snd w))"
    using w keeps_refl[OF assms] by (auto intro!: keepsI others_kept_refl
        simp: OpenSendBox_def OpenRecvBox_def CloseMailWindow_def amount_def)
qed

text \<open>Showing the rows of the box that is open.\<close>

lemma shown_ok_fresh:
  assumes "templates_ok T" "spawn T ident = Some tpl" "q \<le> i_stackSize tpl" "i_id (b_item b) = i_id tpl"
    "i_type (b_item b) = i_type tpl" "i_stackSize (b_item b) = i_stackSize tpl"
    "i_reserve (b_item b) = i_reserve tpl" "i_quantity (b_item b) = q" "i_flag (b_item b) = i_flag tpl"
  shows "shown_ok T b"
  using assms templates_okD[OF assms(1,2)] by (auto simp: shown_ok_def carried_ok_def isType_def)

lemma setQuantity_fields:
  "i_type (setQuantity q it) = i_type it" "i_reserve (setQuantity q it) = i_reserve it"
  "i_flag (setQuantity q it) = i_flag it"
  by (simp_all add: setQuantity_def)

lemma row_item_shown:
  assumes "templates_ok T" "row_ok T dir r" "spawn T (r_itemid r) = Some tpl"
  shows "shown_ok T (row_item tpl box r)" "mirrors box r (row_item tpl box r)"
proof -
  have le: "r_quantity r \<le> i_stackSize tpl" using assms(2,3) by (auto simp: row_ok_def)
  show "shown_ok T (row_item tpl box r)"
    by (rule shown_ok_fresh[OF assms(1,3) le])
      (use le in \<open>simp_all add: row_item_def min_def setQuantity_fields\<close>)
  show "mirrors box r (row_item tpl box r)"
    using le templates_okD(1)[OF assms(1,3)] by (auto simp: mirrors_def row_item_def min_def)
qed

lemma box_ok_show_row:
  assumes "templates_ok T" "rows_ok T dir rows" "box_ok T rows p" "IsAnyDeliveryBoxOpen p"
    "r \<in> set rows" "in_slot (mc_id p) (open_box p) (r_slot r) r" "r_slot r < 8" "box = open_box p"
  shows "box_ok T rows (show_row T box r p)"
proof (cases "spawn T (r_itemid r)")
  case None
  then show ?thesis using assms(3) by (simp add: show_row_def)
next
  case (Some tpl)
  have ok: "row_ok T dir r" and dist: "distinct (map row_key rows)" using assms(2,5) by (auto simp: rows_ok_def)
  have "r' = r" if "r' \<in> set rows" "in_slot (mc_id p) (open_box p) (r_slot r) r'" for r'
    using same_key[OF dist that(1) assms(5)] that(2) assms(6) by (simp add: in_slot_key)
  then have "mirrored T rows p (r_slot r) (row_item tpl box r)"
    unfolding mirrored_def using assms(7,8) row_item_shown[OF assms(1) ok Some] by blast
  then have "box_ok T rows (show_item (r_slot r) (Some (row_item tpl box r)) p)"
    using assms(7) by (intro box_ok_show_item[OF assms(3,4) _ slots_kept_refl]) auto
  then show ?thesis using Some by (simp add: show_row_def)
qed

lemma show_row_simps [simp]:
  "mc_id (show_row T box r p) = mc_id p" "mc_char (show_row T box r p) = mc_char p"
  "IsAnyDeliveryBoxOpen (show_row T box r p) = IsAnyDeliveryBoxOpen p"
  "open_box (show_row T box r p) = open_box p"
  by (auto simp: show_row_def split: option.splits)

lemma SendOldItems_keeps:
  assumes T: "templates_ok T" and w: "mail_ok T dir me w"
    and box: "IsAnyDeliveryBoxOpen (snd w) \<Longrightarrow> box = open_box (snd w)"
  shows "keeps T dir me w (SendOldItems T ok box w)"
proof (cases "IsAnyDeliveryBoxOpen (snd w) \<and> ok 0")
  case False
  then show ?thesis using keeps_refl[OF w] by (auto simp: SendOldItems_def)
next
  case True
  note d = mail_okD[OF w] and b = box[OF conjunct1[OF True]]
  define rs where "rs = by_slot (filter (\<lambda>r. r_slot r < 8) (box_rows me box (fst w)))"
  have fold: "box_ok T (fst w) (fold (show_row T box) xs p) \<and> mc_id (fold (show_row T box) xs p) = me \<and>
      mc_char (fold (show_row T box) xs p) = mc_char p"
    if "set xs \<subseteq> set rs" "box_ok T (fst w) p" "mc_id p = me" "IsAnyDeliveryBoxOpen p" "open_box p = box" for xs p
    using that
  proof (induction xs arbitrary: p)
    case (Cons r xs)
    have r: "r \<in> set (fst w)" "in_slot me box (r_slot r) r" "r_slot r < 8"
      using Cons.prems(1) by (auto simp: rs_def by_slot_def box_rows_def in_slot_def)
    have "box_ok T (fst w) (show_row T box r p)"
      using box_ok_show_row[OF T d(1) Cons.prems(2,4) r(1) _ r(3)] r(2) Cons.prems(3,5) by simp
    then show ?case using Cons.IH[of "show_row T box r p"] Cons.prems by simp
  qed simp
  have "SendOldItems T ok box w = (fst w, fold (show_row T box) rs (snd w))"
    using True d(2) by (simp add: SendOldItems_def rs_def)
  then show ?thesis
    using fold[of rs "snd w"] d(1-4) True b keepsI[OF _ _ _ _ others_kept_refl]
    by (simp add: amount_def)
qed

text \<open>Putting something into the outbox.\<close>

lemma others_kept_append:
  "(r_charid r = me \<or> 8 \<le> r_slot r) \<Longrightarrow> others_kept me rows (rows @ [r])"
  by (auto simp: others_kept_def from_row_same)

lemma slots_kept_append:
  "(r_slot r = s \<or> 8 \<le> r_slot r) \<Longrightarrow> slots_kept p s rows (rows @ [r])"
  by (auto simp: slots_kept_def from_row_same)

lemma sint_stack:
  fixes q :: uint32
  assumes "q \<le> i_quantity it" "uint (i_quantity it) \<le> uint (i_stackSize it)" "uint (i_stackSize it) < 2 ^ 31"
  shows "sint q = uint q"
  using assms by (intro sint_small) (auto simp: word_le_def)

text \<open>The row of a slot is the only one, so it decides what may be shown there.\<close>

lemma mirrored_exact:
  assumes "distinct (map row_key rows)" "r \<in> set rows" "in_slot (mc_id p) (open_box p) s r" "s < 8"
    "shown_ok T b" "mirrors (open_box p) r b"
  shows "mirrored T rows p s b"
proof -
  have "r' = r" if "r' \<in> set rows" "in_slot (mc_id p) (open_box p) s r'" for r'
    using same_key[OF assms(1) that(1) assms(2)] that(2) assms(3) by (simp add: in_slot_key)
  with assms show ?thesis unfolding mirrored_def by blast
qed

lemma AddItemsToBeSent_keeps:
  assumes T: "templates_ok T" and w: "mail_ok T dir me w" and post: "post < 8"
  shows "keeps T dir me w (AddItemsToBeSent T dir ok post islot stacks receiver w)"
proof (cases "AddItemsToBeSent T dir ok post islot stacks receiver w = w")
  case True
  then show ?thesis using keeps_refl[OF w] by simp
next
  case False
  let ?rows = "fst w" and ?p = "snd w"
  note d = mail_okD[OF w]
  from False obtain it rc ra tpl rows' where g: "IsSendBoxOpen ?p"
    "GetItem islot (storage (mc_char ?p) LOC_INVENTORY) = Some it" "stacks \<noteq> 0"
    "stacks \<le> i_quantity it" "i_reserve it = 0" "dir receiver = Some (rc, ra)" "rc \<noteq> 0"
    "spawn T (i_id it) = Some tpl"
    and row: "insert_row \<lparr>r_charid = mc_id ?p, r_charname = mc_name ?p, r_box = 2, r_slot = post,
       r_itemid = i_id it, r_quantity = stacks, r_senderid = rc, r_sender = receiver,
       r_received = False, r_sent = False\<rparr> ?rows = Some rows'"
    and res: "AddItemsToBeSent T dir ok post islot stacks receiver w =
      (let (r, ch) = UpdateItem LOC_INVENTORY islot (- sint stacks) False (mc_char ?p)
       in if r \<noteq> 0 then (rows', show_item post (Some \<lparr>b_item = (setQuantity stacks tpl)\<lparr>i_slotID := i_slotID it\<rparr>,
              b_sender = mc_name ?p, b_receiver = receiver, b_sent = False\<rparr>) (?p\<lparr>mc_char := ch\<rparr>))
          else (rows', ?p\<lparr>mc_char := ch\<rparr>))"
    by (auto simp: AddItemsToBeSent_def Let_def not_less split: option.splits if_splits)
  let ?row = "\<lparr>r_charid = mc_id ?p, r_charname = mc_name ?p, r_box = 2, r_slot = post,
       r_itemid = i_id it, r_quantity = stacks, r_senderid = rc, r_sender = receiver,
       r_received = False, r_sent = False\<rparr>"
  let ?b = "\<lparr>b_item = (setQuantity stacks tpl)\<lparr>i_slotID := i_slotID it\<rparr>,
              b_sender = mc_name ?p, b_receiver = receiver, b_sent = False\<rparr>"
  have car: "carried_ok T it" by (rule char_okD(3)[OF d(3) g(2)])
  note c = carried_okD[OF T car] and t = templates_okD[OF T g(8)]
  have size: "i_stackSize it = i_stackSize tpl" using car g(8) by (auto simp: carried_ok_def)
  have small: "stacks \<le> i_stackSize tpl" using g(4) c(1) size by (auto simp: word_le_def)
  have sint: "sint stacks = uint stacks" by (rule sint_stack[OF g(4) c(1,2)])
  have open2: "open_box ?p = 2" "IsAnyDeliveryBoxOpen ?p" using g(1) by (simp_all add: open_box_def IsAnyDeliveryBoxOpen_def)
  from row obtain s where rows': "rows' = ?rows @ [?row]" "row_key ?row \<notin> row_key ` set ?rows"
    by (rule insert_row_appends) simp
  have row_ok: "row_ok T dir ?row" using g small post by (auto simp: row_ok_def)
  have less: "0 \<le> uint (i_quantity it) + - uint stacks"
    "uint (i_quantity it) + - uint stacks \<le> uint (i_stackSize it)"
    using g(4) c(1) uint_nonnegative[of stacks] unfolding word_le_def by linarith+
  obtain ch where ch: "UpdateItem LOC_INVENTORY islot (- uint stacks) False (mc_char ?p) = (i_id it, ch)"
    "char_ok T ch" "\<forall>k. int (total_qty k ch) =
        int (total_qty k (mc_char ?p)) + (if i_id it = k then - uint stacks else 0)"
    using UpdateItem_changes[OF T d(3) g(2) less g(5)] by blast
  have taken: "total_qty k ch + (if i_id it = k then unat stacks else 0) = total_qty k (mc_char ?p)" for k
  proof -
    have n: "int (unat stacks) = uint stacks" by simp
    note e = spec[OF ch(3), of k]
    show ?thesis
    proof (cases "i_id it = k")
      case True
      show ?thesis using e n unfolding if_P[OF True] by linarith
    next
      case False
      show ?thesis using e unfolding if_not_P[OF False] by linarith
    qed
  qed
  have res': "AddItemsToBeSent T dir ok post islot stacks receiver w =
      (rows', show_item post (Some ?b) (?p\<lparr>mc_char := ch\<rparr>))"
    using res ch(1) c(3) by (simp add: sint)
  have mir: "shown_ok T ?b" "mirrors 2 ?row ?b"
    using shown_ok_fresh[OF T g(8) small, of ?b] t(1) small
    by (simp_all add: mirrors_def min_def setQuantity_fields)
  have rows_ok': "rows_ok T dir rows'" using rows_ok_append[OF d(1) row_ok rows'(2)] by (simp add: rows')
  then have dist: "distinct (map row_key rows')" by (simp add: rows_ok_def)
  have "box_ok T rows' (show_item post (Some ?b) (?p\<lparr>mc_char := ch\<rparr>))"
  proof (rule box_ok_show_item[where rows = ?rows])
    have "mirrored T rows' ?p post ?b"
      using mir post open2 by (intro mirrored_exact[OF dist, of ?row]) (auto simp: rows' in_slot_def)
    then show "mirrored T rows' (?p\<lparr>mc_char := ch\<rparr>) post b" if "Some ?b = Some b" for b
      using that by simp
  qed (use d(4) open2 post in \<open>auto simp: rows' intro: slots_kept_append\<close>)
  moreover have "amount i (rows', show_item post (Some ?b) (?p\<lparr>mc_char := ch\<rparr>)) = amount i w" for i
    using taken[of i] by (auto simp: amount_def rows' row_amount_def live_def)
  ultimately show ?thesis
    unfolding res' using rows_ok' ch(2) d(2)
    by (intro keepsI) (auto simp: rows' intro: others_kept_append)
qed

text \<open>Rows that come from old ones, or wait in a queue, disturb nobody.\<close>

lemma others_keptI:
  assumes "\<And>r'. r' \<in> set rows' \<Longrightarrow> r' \<in> set rows \<or> r_charid r' = me \<or> 8 \<le> r_slot r'"
  shows "others_kept me rows rows'"
  using assms by (fastforce simp: others_kept_def intro: from_row_same)

lemma slots_keptI:
  assumes "\<And>r'. r' \<in> set rows' \<Longrightarrow> r' \<in> set rows \<or> r_slot r' = s \<or> 8 \<le> r_slot r'"
  shows "slots_kept p s rows rows'"
  using assms by (fastforce simp: slots_kept_def intro: from_row_same)

lemma box_ok_fewer:
  assumes "box_ok T rows p" "set rows' \<subseteq> set rows"
  shows "box_ok T rows' p"
proof -
  have "mirrored T rows' p s b" if "mirrored T rows p s b" for s b
    by (rule mirrored_kept[OF that]) (use assms(2) in \<open>auto intro: from_row_same\<close>)
  with assms(1) show ?thesis by (auto simp: box_ok_def)
qed

lemma open_send: "IsSendBoxOpen p \<Longrightarrow> open_box p = 2 \<and> IsAnyDeliveryBoxOpen p"
  by (simp add: open_box_def IsAnyDeliveryBoxOpen_def)

lemma open_recv: "IsRecvBoxOpen p \<Longrightarrow> open_box p = 1 \<and> IsAnyDeliveryBoxOpen p"
  by (simp add: open_box_def IsAnyDeliveryBoxOpen_def IsSendBoxOpen_def IsRecvBoxOpen_def)

lemma receiver_id:
  assumes "row_ok T dir r" "r_box r = 2" "mirrors 2 r b"
  shows "getCharIdFromName dir (b_receiver b) = r_senderid r"
  using assms by (auto simp: row_ok_def mirrors_def getCharIdFromName_def)

text \<open>Sending off what is in the outbox.\<close>

lemma SendConfirmation_keeps:
  assumes T: "templates_ok T" and w: "mail_ok T dir me w"
  shows "keeps T dir me w (SendConfirmation dir ok post w)"
proof (cases "SendConfirmation dir ok post w = w")
  case True
  then show ?thesis using keeps_refl[OF w] by simp
next
  case False
  let ?rows = "fst w" and ?p = "snd w"
  note d = mail_okD[OF w]
  let ?to = "\<lambda>b. getCharIdFromName dir (b_receiver b)"
  let ?mine = "\<lambda>b. to_send (mc_id ?p) (?to b) post"
  let ?row = "\<lambda>b. parcel (?to b) (b_receiver b) (b_item b) ?p"
  let ?sent = "\<lambda>b. map (\<lambda>r. if ?mine b r then r\<lparr>r_sent := True\<rparr> else r) ?rows"
  from False obtain b where g: "IsSendBoxOpen ?p" "shown ?p post = Some b" "\<not> b_sent b" "ok 0"
    by (auto simp: SendConfirmation_def Let_def split: option.splits if_splits)
  then have eq: "SendConfirmation dir ok post w =
      (if \<not> ok 1 \<or> \<not> (\<exists>r \<in> set ?rows. ?mine b r \<and> \<not> r_sent r) then w
       else (case (if ok 2 then insert_row (?row b) (?sent b) else None) of
               None \<Rightarrow> w | Some rows' \<Rightarrow> (rows', set_sent post True ?p)))"
    by (simp add: SendConfirmation_def Let_def)
  with False have ex: "\<exists>r \<in> set ?rows. ?mine b r" by (auto split: if_splits)
  then obtain r where r: "r \<in> set ?rows" "?mine b r" by blast
  from False eq obtain rows' where row: "insert_row (?row b) (?sent b) = Some rows'"
    and res: "SendConfirmation dir ok post w = (rows', set_sent post True ?p)"
    by (auto split: if_splits option.splits)
  note o2 = open_send[OF g(1)] and sm = shown_mirrored[OF w conjunct2[OF open_send[OF g(1)]] g(2)]
  note r2 = r(2)[unfolded to_send_def]
  have key: "row_key r = (me, 2, post)" using r2 d(2) by (simp add: row_key_def)
  have mir: "mirrors 2 r b" using sm(3)[OF r(1)] key o2 by (simp add: in_slot_key)
  have map: "map (\<lambda>r. if ?mine b r then r\<lparr>r_sent := True\<rparr> else r) ?rows =
      update_first (?mine b) (\<lambda>r. r\<lparr>r_sent := True\<rparr>) ?rows"
    by (rule update_by_key[OF d(5), of _ "(me, 2, post)"]) (use d(2) in \<open>auto simp: row_key_def to_send_def\<close>)
  from update_first_split[OF ex, of "\<lambda>r. r\<lparr>r_sent := True\<rparr>"] obtain xs r' ys where
    u: "?rows = xs @ r' # ys" "?mine b r'"
    "update_first (?mine b) (\<lambda>r. r\<lparr>r_sent := True\<rparr>) ?rows = xs @ r'\<lparr>r_sent := True\<rparr> # ys" by blast
  have "row_key r' = row_key r" using u(2) r2 by (simp add: row_key_def to_send_def)
  then have r': "r' = r" using same_key[OF d(5)] r(1) u(1) by auto
  obtain s where s: "rows' = xs @ r\<lparr>r_sent := True\<rparr> # ys @ [(?row b)\<lparr>r_slot := s\<rparr>]"
    "row_key ((?row b)\<lparr>r_slot := s\<rparr>) \<notin> row_key ` set ?rows" "8 \<le> s"
    using row unfolding map u(3) r' by (rule insert_row_appends) (use u(1) r' in \<open>auto simp: parcel_def\<close>)
  have to: "?to b = r_senderid r" using r2 by simp
  have n_ok: "row_ok T dir ((?row b)\<lparr>r_slot := s\<rparr>)"
    using d(6)[OF r(1)] mir by (auto simp: row_ok_def mirrors_def parcel_def)
  have "rows_ok T dir rows'"
    unfolding s(1)
  proof (rule rows_ok_send)
    show "rows_ok T dir (xs @ r # ys)" using d(1) u(1) r' by simp
    show "row_key ((?row b)\<lparr>r_slot := s\<rparr>) \<notin> row_key ` set (xs @ r # ys)" using s(2) u(1) r' by simp
  qed (use r2 mir to s(3) n_ok d(2) in \<open>auto simp: is_queued_def mirrors_def parcel_def\<close>)
  moreover have "amount i (rows', set_sent post True ?p) = amount i w" for i
  proof -
    have "row_amount i ((?row b)\<lparr>r_slot := s\<rparr>) = row_amount i r" "row_amount i (r\<lparr>r_sent := True\<rparr>) = 0"
      using mir g(3) r2 by (auto simp: row_amount_def live_def mirrors_def parcel_def)
    then show ?thesis by (simp add: amount_def s(1) u(1) r')
  qed
  moreover have "box_ok T rows' (set_sent post True ?p)"
  proof (rule box_ok_set_sent[OF d(4) conjunct2[OF o2] g(2)])
    show "slots_kept ?p post ?rows rows'"
      by (rule slots_keptI) (use r2 s(1,3) u(1) r' in auto)
    have dist: "distinct (map row_key rows')" using \<open>rows_ok T dir rows'\<close> by (simp add: rows_ok_def)
    show "mirrored T rows' ?p post (b\<lparr>b_sent := True\<rparr>)"
      by (rule mirrored_exact[OF dist, of "r\<lparr>r_sent := True\<rparr>"])
        (use s(1) key d(2) o2 sm mir in \<open>auto simp: in_slot_key mirrors_def shown_ok_def\<close>)
  qed
  moreover have "others_kept me ?rows rows'"
    by (rule others_keptI) (use r2 d(2) s(1,3) u(1) r' in auto)
  ultimately show ?thesis unfolding res using d(2,3) by (intro keepsI) simp_all
qed

text \<open>Deleting the row of a shown slot, or of the outbox.\<close>

lemma delete_row:
  assumes "rows_ok T dir rows" "\<exists>r \<in> set rows. P r" "\<And>r. P r \<Longrightarrow> \<not> (r_box r = 1 \<and> 8 \<le> r_slot r)"
  obtains r where "r \<in> set rows" "P r" "rows_ok T dir (delete_first P rows)"
    "\<And>i. in_mail i rows = row_amount i r + in_mail i (delete_first P rows)"
    "set (delete_first P rows) \<subseteq> set rows"
proof -
  from delete_first_split[OF assms(2)] obtain xs r ys where
    s: "rows = xs @ r # ys" "P r" "delete_first P rows = xs @ ys" by blast
  show thesis
    by (rule that[of r]) (use s assms(1,3) rows_ok_delete[of T dir xs r ys] in auto)
qed

lemma others_fewer: "set rows' \<subseteq> set rows \<Longrightarrow> others_kept me rows rows'"
  by (rule others_keptI) auto

lemma slots_fewer: "set rows' \<subseteq> set rows \<Longrightarrow> slots_kept p s rows rows'"
  by (rule slots_keptI) auto

text \<open>Calling a parcel back.\<close>

lemma cancel_recalls:
  assumes w: "mail_ok T dir me w" and b: "IsSendBoxOpen (snd w)" "shown (snd w) post = Some b"
    and Some: "cancel_sent ok me (getCharIdFromName dir (b_receiver b)) post (b_item b) (fst w) = Some rows'"
  shows "keeps T dir me w (rows', set_sent post False (snd w))"
proof -
  let ?rows = "fst w" and ?p = "snd w"
  note d = mail_okD[OF w]
  note o2 = open_send[OF b(1)] and sm = shown_mirrored[OF w conjunct2[OF open_send[OF b(1)]] b(2)]
  let ?to = "getCharIdFromName dir (b_receiver b)"
  have mir: "mirrors 2 r b" if "r \<in> set ?rows" "r_charid r = me" "r_box r = 2" "r_slot r = post" for r
    using sm(3)[OF that(1)] that o2 by (simp add: in_slot_def)
  have ex: "\<exists>r \<in> set ?rows. recallable me post r" using Some by (auto simp: cancel_sent_def split: if_splits)
  from update_first_split[OF ex, of "\<lambda>r. r\<lparr>r_sent := False\<rparr>"] obtain xs r ys where
    u: "?rows = xs @ r # ys" "recallable me post r"
    "update_first (recallable me post) (\<lambda>r. r\<lparr>r_sent := False\<rparr>) ?rows = xs @ r\<lparr>r_sent := False\<rparr> # ys"
    by blast
  note r = u(2)[unfolded recallable_def]
  have rin: "r \<in> set ?rows" using u(1) by simp
  have m: "mirrors 2 r b" using mir[OF rin] r by simp
  have to: "?to = r_senderid r" using receiver_id[OF d(6)[OF rin] _ m] r by simp
  have queue: "in_queue me ?to (b_item b) = is_queued ?to me (r_itemid r) (r_quantity r)"
    using m by (auto simp: fun_eq_iff in_queue_def is_queued_def mirrors_def)
  have prom: "is_promise ?to me (r_itemid r) (r_quantity r) r" using r to by (simp add: is_promise_def)
  have rows': "rows' = delete_first (is_queued ?to me (r_itemid r) (r_quantity r)) (xs @ r\<lparr>r_sent := False\<rparr> # ys)"
    using Some by (auto simp: cancel_sent_def u(3) queue split: if_splits)
  note c = rows_ok_cancel[OF d(1)[unfolded u(1)] prom, folded rows']
  from number_delete_first[OF c(2)] obtain r1 where r1:
    "is_queued ?to me (r_itemid r) (r_quantity r) r1" "r1 \<in> set (xs @ r\<lparr>r_sent := False\<rparr> # ys)"
    "\<And>i. in_mail i (xs @ r\<lparr>r_sent := False\<rparr> # ys) = row_amount i r1 + in_mail i rows'"
    "set rows' \<subseteq> set (xs @ r\<lparr>r_sent := False\<rparr> # ys)"
    "\<And>r'. r' \<in> set (xs @ r\<lparr>r_sent := False\<rparr> # ys) \<Longrightarrow> \<not> is_queued ?to me (r_itemid r) (r_quantity r) r' \<Longrightarrow> r' \<in> set rows'"
    unfolding rows' by metis
  have key: "row_key r = (me, 2, post)" using r by (simp add: row_key_def)
  have keep: "r\<lparr>r_sent := False\<rparr> \<in> set rows'"
    by (rule r1(5)) (use r in \<open>auto simp: is_queued_def\<close>)
  have "amount i (rows', set_sent post False ?p) = amount i w" for i
  proof -
    have "row_amount i (r\<lparr>r_sent := False\<rparr>) = row_amount i r1" "row_amount i r = 0"
      using r1(1) r by (auto simp: row_amount_def live_def is_queued_def)
    then show ?thesis using r1(3)[of i] by (simp add: amount_def u(1))
  qed
  moreover have "box_ok T rows' (set_sent post False ?p)"
  proof (rule box_ok_set_sent[OF d(4) conjunct2[OF o2] b(2)])
    show "slots_kept ?p post ?rows rows'"
      by (rule slots_keptI) (use r r1(4) u(1) in auto)
    have dist: "distinct (map row_key rows')" using c(1) by (simp add: rows_ok_def)
    show "mirrored T rows' ?p post (b\<lparr>b_sent := False\<rparr>)"
      by (rule mirrored_exact[OF dist keep])
        (use key d(2) o2 sm m in \<open>auto simp: in_slot_key mirrors_def shown_ok_def\<close>)
  qed
  moreover have "others_kept me ?rows rows'"
    by (rule others_keptI) (use r r1(4) u(1) in auto)
  ultimately show ?thesis using c(1) d(2,3) by (intro keepsI) simp_all
qed

text \<open>When that fails the record is deleted, which loses the item of a record never sent off.\<close>

lemma cancel_fails:
  fixes db :: bool
  assumes w: "mail_ok T dir me w" and b: "IsSendBoxOpen (snd w)" "shown (snd w) post = Some b"
  defines "w' \<equiv> (if db then delete_first (orphan me post (b_item b)) (fst w) else fst w, snd w)"
  shows "keeps_less T dir me w w'" "b_sent b \<Longrightarrow> keeps T dir me w w'"
proof -
  let ?rows = "fst w" and ?p = "snd w"
  note d = mail_okD[OF w]
  note o2 = open_send[OF b(1)] and sm = shown_mirrored[OF w conjunct2[OF open_send[OF b(1)]] b(2)]
  have mir: "mirrors 2 r b" if "r \<in> set ?rows" "r_charid r = me" "r_box r = 2" "r_slot r = post" for r
    using sm(3)[OF that(1)] that o2 by (simp add: in_slot_def)
  have "rows_ok T dir (fst w') \<and> set (fst w') \<subseteq> set ?rows \<and>
    (\<forall>i. in_mail i (fst w') \<le> in_mail i ?rows \<and> (b_sent b \<longrightarrow> in_mail i (fst w') = in_mail i ?rows))"
  proof (cases "db \<and> (\<exists>r \<in> set ?rows. orphan me post (b_item b) r)")
    case True
    have outbox: "orphan me post (b_item b) r \<Longrightarrow> \<not> (r_box r = 1 \<and> 8 \<le> r_slot r)" for r
      by (simp add: orphan_def)
    obtain r where r: "r \<in> set ?rows" "orphan me post (b_item b) r"
      "rows_ok T dir (delete_first (orphan me post (b_item b)) ?rows)"
      "\<And>i. in_mail i ?rows = row_amount i r + in_mail i (delete_first (orphan me post (b_item b)) ?rows)"
      "set (delete_first (orphan me post (b_item b)) ?rows) \<subseteq> set ?rows"
      using delete_row[OF d(1) conjunct2[OF True] outbox] by metis
    have "mirrors 2 r b" using mir[OF r(1)] r(2) by (simp add: orphan_def)
    then have "b_sent b \<Longrightarrow> row_amount i r = 0" for i
      using r(2) by (auto simp: mirrors_def orphan_def row_amount_def live_def)
    then show ?thesis using True r by (simp add: w'_def)
  next
    case False
    then have "fst w' = ?rows" unfolding w'_def by (auto intro: delete_first_none)
    then show ?thesis using d(1) by simp
  qed
  then show "keeps_less T dir me w w'" "b_sent b \<Longrightarrow> keeps T dir me w w'"
    using d box_ok_fewer[OF d(4)] others_fewer
    by (auto simp: keeps_def keeps_less_def mail_ok_def player_ok_def amount_def w'_def)
qed

lemma CancelSendingItem_keeps:
  assumes w: "mail_ok T dir me w"
  shows "keeps_less T dir me w (CancelSendingItem dir ok post w)"
    "(\<And>b. shown (snd w) post = Some b \<Longrightarrow> b_sent b) \<Longrightarrow> keeps T dir me w (CancelSendingItem dir ok post w)"
proof -
  note d = mail_okD[OF w]
  have "keeps_less T dir me w (CancelSendingItem dir ok post w) \<and>
    ((\<forall>b. shown (snd w) post = Some b \<longrightarrow> b_sent b) \<longrightarrow> keeps T dir me w (CancelSendingItem dir ok post w))"
  proof (cases "IsSendBoxOpen (snd w) \<and> shown (snd w) post \<noteq> None")
    case False
    then have "CancelSendingItem dir ok post w = w" by (auto simp: CancelSendingItem_def Let_def split: option.splits)
    then show ?thesis using keeps_refl[OF w] keeps_less by metis
  next
    case True
    then obtain b where b: "IsSendBoxOpen (snd w)" "shown (snd w) post = Some b" by blast
    show ?thesis
      using b d(2) cancel_recalls[OF w b] cancel_fails[OF w b, of "ok 3"]
      by (auto simp: CancelSendingItem_def Let_def intro: keeps_less split: option.split)
  qed
  then show "keeps_less T dir me w (CancelSendingItem dir ok post w)"
    "(\<And>b. shown (snd w) post = Some b \<Longrightarrow> b_sent b) \<Longrightarrow> keeps T dir me w (CancelSendingItem dir ok post w)"
    by blast+
qed

text \<open>The row of a slot goes and with it what is shown there.\<close>

lemma box_ok_taken:
  assumes "box_ok T rows p" "IsAnyDeliveryBoxOpen p" "s < 8" "slots_kept p s rows rows'"
  shows "box_ok T rows' (show_item s None p)"
  using assms by (intro box_ok_show_item[OF assms(1,2) _ assms(4)]) auto

lemma RemoveDelivered_keeps:
  assumes w: "mail_ok T dir me w"
  shows "keeps T dir me w (RemoveDeliveredItemFromSendingBox ok w)"
proof (cases "RemoveDeliveredItemFromSendingBox ok w = w")
  case True
  then show ?thesis using keeps_refl[OF w] by simp
next
  case False
  let ?rows = "fst w" and ?p = "snd w"
  note d = mail_okD[OF w]
  from False obtain r0 rest b where g: "IsSendBoxOpen ?p"
    "by_slot (filter r_received (box_rows (mc_id ?p) 2 ?rows)) = r0 # rest"
    "shown ?p (r_slot r0 mod 256) = Some b" "b_sent b" "\<exists>r \<in> set ?rows. in_slot me 2 (r_slot r0 mod 256) r"
    and res: "RemoveDeliveredItemFromSendingBox ok w =
      (delete_first (in_slot me 2 (r_slot r0 mod 256)) ?rows, show_item (r_slot r0 mod 256) None ?p)"
    using d(2) by (auto simp: RemoveDeliveredItemFromSendingBox_def Let_def split: list.splits option.splits if_splits)
  let ?s = "r_slot r0 mod 256" and ?P = "in_slot me 2 (r_slot r0 mod 256)"
  note o2 = open_send[OF g(1)] and sm = shown_mirrored[OF w conjunct2[OF open_send[OF g(1)]] g(3)]
  have outbox: "?P r \<Longrightarrow> \<not> (r_box r = 1 \<and> 8 \<le> r_slot r)" for r by (simp add: in_slot_def)
  obtain r where r: "r \<in> set ?rows" "?P r" "rows_ok T dir (delete_first ?P ?rows)"
    "\<And>i. in_mail i ?rows = row_amount i r + in_mail i (delete_first ?P ?rows)"
    "set (delete_first ?P ?rows) \<subseteq> set ?rows"
    using delete_row[OF d(1) g(5) outbox] by metis
  have "mirrors 2 r b" using sm(3)[OF r(1)] r(2) o2 by simp
  then have "row_amount i r = 0" for i
    using g(4) r(2) by (auto simp: mirrors_def row_amount_def live_def in_slot_def)
  then have "amount i (delete_first ?P ?rows, show_item ?s None ?p) = amount i w" for i
    using r(4)[of i] by (simp add: amount_def)
  moreover have "box_ok T (delete_first ?P ?rows) (show_item ?s None ?p)"
    using box_ok_taken[OF d(4) conjunct2[OF o2] sm(1) slots_fewer[OF r(5)]] .
  ultimately show ?thesis
    unfolding res using r(3) d(2,3) others_fewer[OF r(5)] by (intro keepsI) simp_all
qed

lemma RemoveItemFromCell_keeps:
  assumes w: "mail_ok T dir me w"
  shows "keeps_less T dir me w (RemoveItemFromCell ok post w)"
proof (cases "RemoveItemFromCell ok post w = w")
  case True
  then show ?thesis using keeps_less[OF keeps_refl[OF w]] by simp
next
  case False
  let ?rows = "fst w" and ?p = "snd w" and ?P = "in_slot me 1 post"
  note d = mail_okD[OF w]
  from False obtain b where g: "IsRecvBoxOpen ?p" "shown ?p post = Some b" "\<exists>r \<in> set ?rows. ?P r"
    and res: "RemoveItemFromCell ok post w = (delete_first ?P ?rows, show_item post None ?p)"
    using d(2) by (auto simp: RemoveItemFromCell_def Let_def split: if_splits)
  note o1 = open_recv[OF g(1)] and sm = shown_mirrored[OF w conjunct2[OF open_recv[OF g(1)]] g(2)]
  have inbox: "?P r \<Longrightarrow> \<not> (r_box r = 1 \<and> 8 \<le> r_slot r)" for r using sm(1) by (simp add: in_slot_def)
  obtain r where r: "rows_ok T dir (delete_first ?P ?rows)"
    "\<And>i. in_mail i ?rows = row_amount i r + in_mail i (delete_first ?P ?rows)"
    "set (delete_first ?P ?rows) \<subseteq> set ?rows"
    using delete_row[OF d(1) g(3) inbox] by metis
  have "box_ok T (delete_first ?P ?rows) (show_item post None ?p)"
    using box_ok_taken[OF d(4) conjunct2[OF o1] sm(1) slots_fewer[OF r(3)]] .
  then show ?thesis
    unfolding res keeps_less_def using r d(2,3) others_fewer[OF r(3)]
    by (auto simp: mail_ok_def player_ok_def amount_def)
qed

lemma ReturnToSender_keeps:
  assumes w: "mail_ok T dir me w"
  shows "keeps T dir me w (ReturnToSender ok post w)"
proof (cases "ReturnToSender ok post w = w")
  case True
  then show ?thesis using keeps_refl[OF w] by simp
next
  case False
  let ?rows = "fst w" and ?p = "snd w" and ?P = "in_slot me 1 post"
  note d = mail_okD[OF w]
  from False obtain b r0 where g: "IsRecvBoxOpen ?p" "shown ?p post = Some b" "ok 0" "ok 1"
    "List.find (in_slot (mc_id ?p) 1 post) ?rows = Some r0" "r_senderid r0 \<noteq> 0"
    by (auto simp: ReturnToSender_def Let_def simp del: One_nat_def split: option.splits if_splits)
  then have eq: "ReturnToSender ok post w =
      (case (if ok 2 then insert_row (parcel (r_senderid r0) (r_sender r0) (b_item b) ?p) ?rows else None) of
         None \<Rightarrow> w
       | Some rows1 \<Rightarrow> if ok 3 \<and> (\<exists>r \<in> set rows1. ?P r)
                      then (delete_first ?P rows1, show_item post None ?p) else w)"
    using d(2) by (auto simp: ReturnToSender_def Let_def simp del: One_nat_def split: option.split)
  with False obtain rows1 where ex: "\<exists>r \<in> set rows1. ?P r"
    and ins: "insert_row (parcel (r_senderid r0) (r_sender r0) (b_item b) ?p) ?rows = Some rows1"
    and res: "ReturnToSender ok post w = (delete_first ?P rows1, show_item post None ?p)"
    by (auto split: option.splits if_splits)
  let ?n = "parcel (r_senderid r0) (r_sender r0) (b_item b) ?p"
  note o1 = open_recv[OF g(1)] and sm = shown_mirrored[OF w conjunct2[OF open_recv[OF g(1)]] g(2)]
  obtain s where s: "rows1 = ?rows @ [?n\<lparr>r_slot := s\<rparr>]" "row_key (?n\<lparr>r_slot := s\<rparr>) \<notin> row_key ` set ?rows" "8 \<le> s"
    using ins by (rule insert_row_appends) (auto simp: parcel_def)
  have n_ok: "row_ok T dir (?n\<lparr>r_slot := s\<rparr>)"
    using sm(2) by (auto simp: row_ok_def parcel_def shown_ok_def carried_ok_def)
  have ok1: "rows_ok T dir rows1"
    unfolding s(1) by (rule rows_ok_append[OF d(1) n_ok s(2)]) (simp add: parcel_def)
  have inbox: "?P r \<Longrightarrow> \<not> (r_box r = 1 \<and> 8 \<le> r_slot r)" for r using sm(1) by (simp add: in_slot_def)
  obtain r where r: "r \<in> set rows1" "?P r" "rows_ok T dir (delete_first ?P rows1)"
    "\<And>i. in_mail i rows1 = row_amount i r + in_mail i (delete_first ?P rows1)"
    "set (delete_first ?P rows1) \<subseteq> set rows1"
    using delete_row[OF ok1 ex inbox] by metis
  have "r \<in> set ?rows" using r(1,2) s(1,3) sm(1) by (auto simp: in_slot_def)
  then have mir: "mirrors 1 r b" using sm(3) r(2) o1 by simp
  have "amount i (delete_first ?P rows1, show_item post None ?p) = amount i w" for i
  proof -
    have "row_amount i (?n\<lparr>r_slot := s\<rparr>) = row_amount i r"
      using mir r(2) by (auto simp: row_amount_def live_def mirrors_def parcel_def in_slot_def)
    then show ?thesis using r(4)[of i] by (simp add: amount_def s(1))
  qed
  moreover have "slots_kept ?p post ?rows (delete_first ?P rows1)"
    by (rule slots_keptI) (use r(5) s(1,3) in auto)
  then have "box_ok T (delete_first ?P rows1) (show_item post None ?p)"
    by (rule box_ok_taken[OF d(4) conjunct2[OF o1] sm(1)])
  moreover have "others_kept me ?rows (delete_first ?P rows1)"
    by (rule others_keptI) (use r(5) s(1,3) in auto)
  ultimately show ?thesis unfolding res using r(3) d(2,3) by (intro keepsI) simp_all
qed

text \<open>Taking an item out of a box; gil may not fit into the purse.\<close>

definition purse_room :: "mail_char \<Rightarrow> nat \<Rightarrow> bool" where
  "purse_room p post \<longleftrightarrow> (\<forall>b g. shown p post = Some b \<longrightarrow> isType (b_item b) ITEM_CURRENCY \<longrightarrow>
     GetItem 0 (storage (mc_char p) LOC_INVENTORY) = Some g \<longrightarrow>
     i_reserve g = 0 \<and> uint (i_quantity g) + uint (i_quantity (b_item b)) \<le> uint (i_stackSize g))"

lemma TakeItemFromCell_keeps:
  assumes T: "templates_ok T" and w: "mail_ok T dir me w"
    and box: "IsAnyDeliveryBoxOpen (snd w) \<Longrightarrow> box = int (open_box (snd w))"
  shows "\<exists>w'. TakeItemFromCell ok box post w = Some w' \<and> keeps_less T dir me w w' \<and>
    (purse_room (snd w) post \<longrightarrow> keeps T dir me w w')"
proof (cases "TakeItemFromCell ok box post w = Some w")
  case True
  then show ?thesis using keeps_refl[OF w] keeps_less by blast
next
  case False
  let ?rows = "fst w" and ?p = "snd w"
  let ?P = "takeable (mc_id ?p) box post"
  note d = mail_okD[OF w]
  from False obtain b where g: "IsAnyDeliveryBoxOpen ?p" "shown ?p post = Some b" "\<exists>r \<in> set ?rows. ?P r"
    and res: "TakeItemFromCell ok box post w = (case clone (b_item b) of None \<Rightarrow> None | Some it \<Rightarrow>
       let (r, ch) = AddItemObject LOC_INVENTORY it (ok 2) (mc_char ?p)
       in Some (if r \<noteq> ERROR_SLOTID then (delete_first ?P ?rows, show_item post None (?p\<lparr>mc_char := ch\<rparr>))
                else (?rows, ?p\<lparr>mc_char := ch\<rparr>)))"
    by (auto simp: TakeItemFromCell_def Let_def split: option.splits if_splits)
  note bx = box[OF g(1)] and sm = shown_mirrored[OF w g(1,2)]
  have nb: "nat box = open_box ?p" "box = 2 \<longleftrightarrow> open_box ?p = 2" using bx by auto
  obtain r ch where a: "AddItemObject LOC_INVENTORY (b_item b) (ok 2) (mc_char ?p) = (r, ch)" "char_ok T ch"
    "\<forall>k. total_qty k ch \<le> total_qty k (mc_char ?p) + (if r = ERROR_SLOTID then 0 else qty_of k (b_item b))"
    "(\<forall>g. isType (b_item b) ITEM_CURRENCY \<longrightarrow> GetItem 0 (storage (mc_char ?p) LOC_INVENTORY) = Some g \<longrightarrow>
         i_reserve g = 0 \<and> uint (i_quantity g) + uint (i_quantity (b_item b)) \<le> uint (i_stackSize g)) \<longrightarrow>
     (\<forall>k. total_qty k ch = total_qty k (mc_char ?p) + (if r = ERROR_SLOTID then 0 else qty_of k (b_item b)))"
    using AddItem_shown[OF T d(3), of "b_item b" "ok 2"] sm(2) by (auto simp: shown_ok_def)
  have res': "TakeItemFromCell ok box post w = Some (if r \<noteq> ERROR_SLOTID
      then (delete_first ?P ?rows, show_item post None (?p\<lparr>mc_char := ch\<rparr>)) else (?rows, ?p\<lparr>mc_char := ch\<rparr>))"
    using res sm(2) a(1) by (simp add: clone_def shown_ok_def)
  show ?thesis
  proof (cases "r = ERROR_SLOTID")
    case True
    then show ?thesis
      using res' a d g(2) others_kept_refl
      by (auto simp: keeps_def keeps_less_def mail_ok_def player_ok_def amount_def purse_room_def)
  next
    case False
    have shown8: "?P r \<Longrightarrow> \<not> (r_box r = 1 \<and> 8 \<le> r_slot r)" for r
      using sm(1) by (simp add: takeable_def in_slot_def)
    obtain x where x: "x \<in> set ?rows" "?P x" "rows_ok T dir (delete_first ?P ?rows)"
      "\<And>i. in_mail i ?rows = row_amount i x + in_mail i (delete_first ?P ?rows)"
      "set (delete_first ?P ?rows) \<subseteq> set ?rows"
      using delete_row[OF d(1) g(3) shown8] by metis
    have "mirrors (open_box ?p) x b" using sm(3)[OF x(1)] x(2) nb d(2) by (simp add: takeable_def)
    then have amt: "row_amount i x = qty_of i (b_item b)" for i
      using x(2) nb by (auto simp: takeable_def row_amount_def live_def qty_of_def mirrors_def in_slot_def open_box_def split: if_splits)
    have "box_ok T (delete_first ?P ?rows) (show_item post None (?p\<lparr>mc_char := ch\<rparr>))"
      by (rule box_ok_taken[OF _ _ sm(1) slots_fewer[OF x(5)]]) (use d(4) g(1) in simp_all)
    then have ok': "mail_ok T dir me (delete_first ?P ?rows, show_item post None (?p\<lparr>mc_char := ch\<rparr>))"
      using a(2) x(3) d(2) by (simp add: mail_ok_def player_ok_def)
    have less: "amount i (delete_first ?P ?rows, show_item post None (?p\<lparr>mc_char := ch\<rparr>)) \<le> amount i w" for i
      using spec[OF a(3), of i] False amt[of i] x(4)[of i] by (simp add: amount_def)
    have same: "amount i (delete_first ?P ?rows, show_item post None (?p\<lparr>mc_char := ch\<rparr>)) = amount i w"
      if "purse_room ?p post" for i
    proof -
      have "total_qty i ch = total_qty i (mc_char ?p) + qty_of i (b_item b)"
        using a(4) False that g(2) unfolding purse_room_def by simp
      then show ?thesis using amt[of i] x(4)[of i] by (simp add: amount_def)
    qed
    show ?thesis
      using False res' ok' less same others_fewer[OF x(5)] by (simp add: keeps_def keeps_less_def)
  qed
qed

section \<open>Taking a parcel out of the queue\<close>

text \<open>Where a row of the table goes when the first of the queue moves to a shown slot.\<close>

definition advance :: "nat \<Rightarrow> nat \<Rightarrow> nat \<Rightarrow> box_row \<Rightarrow> box_row" where
  "advance me post queue r =
     (if r_charid r = me \<and> r_box r = 1
      then r\<lparr>r_slot := (if r_slot r = queue then post else if queue < r_slot r then r_slot r - 1 else r_slot r)\<rparr>
      else r)"

lemma advance_fields [simp]:
  "r_charid (advance me post queue r) = r_charid r" "r_box (advance me post queue r) = r_box r"
  "row_amount i (advance me post queue r) = row_amount i r"
  "is_promise a b i q (advance me post queue r) = is_promise a b i q r"
  by (simp_all add: advance_def is_promise_def)

lemma row_ok_advance [simp]: "row_ok T dir (advance me post queue r) = row_ok T dir r"
  by (auto simp: advance_def row_ok_def)

lemma dequeue_map:
  assumes "dequeue ok me post queue rows = Some rows'" "post < queue"
  shows "rows' = map (advance me post queue) rows" "distinct (map row_key rows')"
  using assms by (auto simp: dequeue_def move_rows_def Let_def advance_def split: if_splits)

lemma queue_first:
  assumes "inbox_queue me rows = r0 # rest"
  shows "r0 \<in> set rows" "r_charid r0 = me" "r_box r0 = 1" "8 \<le> r_slot r0"
    "\<And>r. r \<in> set rows \<Longrightarrow> r_charid r = me \<Longrightarrow> r_box r = 1 \<Longrightarrow> 8 \<le> r_slot r \<Longrightarrow> r_slot r0 \<le> r_slot r"
proof -
  let ?q = "filter (\<lambda>r. 8 \<le> r_slot r) (box_rows me 1 rows)"
  have set: "set (r0 # rest) = set ?q" unfolding assms[symmetric] by (simp add: inbox_queue_def by_slot_def)
  then have "r0 \<in> set ?q" by auto
  then show "r0 \<in> set rows" "r_charid r0 = me" "r_box r0 = 1" "8 \<le> r_slot r0" by (auto simp: box_rows_def)
  have "sorted (map r_slot (r0 # rest))"
    unfolding assms[symmetric] inbox_queue_def by_slot_def by (rule sorted_sort_key)
  then have le: "\<And>r. r \<in> set (r0 # rest) \<Longrightarrow> r_slot r0 \<le> r_slot r" by auto
  show "r_slot r0 \<le> r_slot r" if "r \<in> set rows" "r_charid r = me" "r_box r = 1" "8 \<le> r_slot r" for r
  proof (rule le)
    have "r \<in> set ?q" using that by (simp add: box_rows_def)
    then show "r \<in> set (r0 # rest)" unfolding set .
  qed
qed

text \<open>One parcel leaves the queue, and the others stay in it.\<close>

lemma queued_advance:
  assumes "distinct (map row_key rows)" "r0 \<in> set rows" "r_charid r0 = me" "r_box r0 = 1" "8 \<le> r_slot r0" "post < 8"
  shows "number (is_queued a b i q) (map (advance me post (r_slot r0)) rows) +
      (if is_queued a b i q r0 then 1 else 0) = number (is_queued a b i q) rows"
proof -
  let ?g = "advance me post (r_slot r0)"
  obtain xs ys where s: "rows = xs @ r0 # ys" using assms(2) by (meson split_list)
  have same: "is_queued a b i q (?g r) = is_queued a b i q r" if "r \<in> set (xs @ ys)" for r
  proof -
    have "row_key r0 \<notin> row_key ` set (xs @ ys)" using assms(1) unfolding s by (simp add: image_Un)
    with that have "row_key r \<noteq> row_key r0" by (metis imageI)
    then show ?thesis using assms(3-5) by (auto simp: advance_def is_queued_def row_key_def)
  qed
  have "number (is_queued a b i q) (map ?g zs) = number (is_queued a b i q) zs" if "set zs \<subseteq> set (xs @ ys)" for zs
    using that same by (induction zs) auto
  moreover have "\<not> is_queued a b i q (?g r0)" using assms(3,4,6) by (simp add: advance_def is_queued_def)
  ultimately show ?thesis by (simp add: s)
qed

text \<open>The record of the parcel that is taken no longer promises one.\<close>

definition marked :: "nat \<Rightarrow> box_row \<Rightarrow> box_row list \<Rightarrow> box_row list" where
  "marked me r0 rows =
     update_first (is_promise me (r_senderid r0) (r_itemid r0) (r_quantity r0)) (\<lambda>r. r\<lparr>r_received := True\<rparr>) rows"

lemma marked_promises:
  assumes "rows_ok T dir rows" "is_queued a0 (r_senderid r0) (r_itemid r0) (r_quantity r0) r0"
  shows "number (is_promise a b i q) (marked a0 r0 rows) + (if is_queued a b i q r0 then 1 else 0)
    \<le> number (is_queued a b i q) rows \<or> number (is_promise a b i q) (marked a0 r0 rows) = 0"
    "number (is_queued a b i q) (marked a0 r0 rows) = number (is_queued a b i q) rows"
proof -
  let ?P = "is_promise a0 (r_senderid r0) (r_itemid r0) (r_quantity r0)"
  have le: "number (is_promise a b i q) rows \<le> number (is_queued a b i q) rows"
    using assms(1) by (simp only: rows_ok_def promises_kept_def)
  have tuple: "is_queued a b i q r0 \<longleftrightarrow> (a, b, i, q) = (a0, r_senderid r0, r_itemid r0, r_quantity r0)"
    using assms(2) by (auto simp: is_queued_def)
  have both: "(number (is_promise a b i q) (marked a0 r0 rows) + (if is_queued a b i q r0 then 1 else 0)
    \<le> number (is_queued a b i q) rows \<or> number (is_promise a b i q) (marked a0 r0 rows) = 0) \<and>
    number (is_queued a b i q) (marked a0 r0 rows) = number (is_queued a b i q) rows"
  proof (cases "\<exists>r \<in> set rows. ?P r")
    case True
    from update_first_split[OF this, of "\<lambda>r. r\<lparr>r_received := True\<rparr>"] obtain xs r ys where
      s: "rows = xs @ r # ys" "?P r" "marked a0 r0 rows = xs @ r\<lparr>r_received := True\<rparr> # ys"
      unfolding marked_def by blast
    have "is_promise a b i q r \<longleftrightarrow> is_queued a b i q r0" unfolding tuple using s(2) by (auto simp: is_promise_def)
    moreover have "\<not> is_promise a b i q (r\<lparr>r_received := True\<rparr>)" "\<not> is_queued a b i q r"
      "\<not> is_queued a b i q (r\<lparr>r_received := True\<rparr>)"
      using s(2) by (auto simp: is_promise_def is_queued_def)
    ultimately show ?thesis using le unfolding s(3) unfolding s(1) by simp
  next
    case False
    then have "marked a0 r0 rows = rows" by (simp add: marked_def update_first_none)
    moreover have "is_queued a b i q r0 \<Longrightarrow> number (is_promise a b i q) rows = 0"
      unfolding tuple using False number_pos[of ?P rows] by simp
    ultimately show ?thesis using le by auto
  qed
  show "number (is_promise a b i q) (marked a0 r0 rows) + (if is_queued a b i q r0 then 1 else 0)
    \<le> number (is_queued a b i q) rows \<or> number (is_promise a b i q) (marked a0 r0 rows) = 0"
    by (rule conjunct1[OF both])
  show "number (is_queued a b i q) (marked a0 r0 rows) = number (is_queued a b i q) rows"
    by (rule conjunct2[OF both])
qed

lemma marked_rows:
  shows "r \<in> set (marked me r0 rows) \<Longrightarrow> from_row rows r" "in_mail i (marked me r0 rows) = in_mail i rows"
    "map row_key (marked me r0 rows) = map row_key rows"
    "(\<forall>r \<in> set (marked me r0 rows). row_ok T dir r) \<longleftrightarrow> (\<forall>r \<in> set rows. row_ok T dir r)"
    "r1 \<in> set rows \<Longrightarrow> r_box r1 = 1 \<Longrightarrow> r1 \<in> set (marked me r0 rows)"
proof -
  let ?P = "is_promise me (r_senderid r0) (r_itemid r0) (r_quantity r0)"
  have "(r \<in> set (marked me r0 rows) \<longrightarrow> from_row rows r) \<and> in_mail i (marked me r0 rows) = in_mail i rows \<and>
    map row_key (marked me r0 rows) = map row_key rows \<and>
    ((\<forall>r \<in> set (marked me r0 rows). row_ok T dir r) \<longleftrightarrow> (\<forall>r \<in> set rows. row_ok T dir r)) \<and>
    (r1 \<in> set rows \<longrightarrow> r_box r1 = 1 \<longrightarrow> r1 \<in> set (marked me r0 rows))"
  proof (cases "\<exists>r \<in> set rows. ?P r")
    case True
    from update_first_split[OF this, of "\<lambda>r. r\<lparr>r_received := True\<rparr>"] obtain xs x ys where
      s: "rows = xs @ x # ys" "?P x" "marked me r0 rows = xs @ x\<lparr>r_received := True\<rparr> # ys"
      unfolding marked_def by blast
    have "from_row rows (x\<lparr>r_received := True\<rparr>)"
      unfolding from_row_def by (rule exI[of _ "r_received x"]) (simp add: s(1))
    then show ?thesis using s by (auto simp: is_promise_def intro: from_row_same)
  next
    case False
    then show ?thesis by (simp add: marked_def update_first_none from_row_same)
  qed
  then show "r \<in> set (marked me r0 rows) \<Longrightarrow> from_row rows r" "in_mail i (marked me r0 rows) = in_mail i rows"
    "map row_key (marked me r0 rows) = map row_key rows"
    "(\<forall>r \<in> set (marked me r0 rows). row_ok T dir r) \<longleftrightarrow> (\<forall>r \<in> set rows. row_ok T dir r)"
    "r1 \<in> set rows \<Longrightarrow> r_box r1 = 1 \<Longrightarrow> r1 \<in> set (marked me r0 rows)" by blast+
qed

lemma advance_frame:
  assumes "r \<in> set rows" "post < 8" "8 \<le> queue"
    "r_slot (advance me post queue r) < 8" "r_slot (advance me post queue r) \<noteq> post \<or> r_charid r \<noteq> me"
  shows "advance me post queue r = r"
  using assms by (auto simp: advance_def split: if_splits)

text \<open>The statements of one delivery, on a table in order.\<close>

lemma delivery_rows:
  assumes ok: "rows_ok T dir rows" and q: "inbox_queue me rows = r0 # rest" and post: "post < 8"
    and dq: "dequeue okf me post (r_slot r0) (marked me r0 rows) = Some rows2"
  shows "rows_ok T dir rows2" "in_mail i rows2 = in_mail i rows" "slots_kept p post rows rows2"
    "others_kept me rows rows2" "r0\<lparr>r_slot := post\<rparr> \<in> set rows2"
proof -
  note f = queue_first[OF q]
  let ?m = "marked me r0 rows" and ?g = "advance me post (r_slot r0)"
  have lt: "post < r_slot r0" using f(4) post by simp
  note rows2 = dequeue_map[OF dq lt]
  have dist: "distinct (map row_key rows)" using ok by (simp add: rows_ok_def)
  have tuple: "is_queued me (r_senderid r0) (r_itemid r0) (r_quantity r0) r0"
    using f(2-4) by (simp add: is_queued_def)
  have r0m: "r0 \<in> set ?m" using marked_rows(5)[OF f(1)] f(3) by simp
  have distm: "distinct (map row_key ?m)" using dist by (simp only: marked_rows(3))
  have promises: "number (is_promise a b i q) rows2 \<le> number (is_queued a b i q) rows2" for a b i q
  proof -
    have "number (is_promise a b i q) (map ?g zs) = number (is_promise a b i q) zs" for zs
      by (induction zs) simp_all
    moreover note queued_advance[OF distm r0m f(2,3,4) post, of a b i q] marked_promises[OF ok tuple, of a b i q]
    ultimately show ?thesis unfolding rows2(1) by (auto split: if_splits)
  qed
  have "\<forall>r \<in> set ?m. row_ok T dir r" using ok unfolding marked_rows(4) rows_ok_def by blast
  then have "\<forall>r \<in> set rows2. row_ok T dir r" by (simp add: rows2(1))
  with promises rows2(2) show "rows_ok T dir rows2" by (simp add: rows_ok_def promises_kept_def)
  have "in_mail i (map ?g zs) = in_mail i zs" for zs by (induction zs) simp_all
  then show "in_mail i rows2 = in_mail i rows" by (simp add: rows2(1) marked_rows(2))
  have old: "from_row rows r'" if r': "r' \<in> set rows2" "r_slot r' < 8" "r_slot r' \<noteq> post \<or> r_charid r' \<noteq> me" for r'
  proof -
    obtain r where r: "r \<in> set ?m" "r' = ?g r" using r'(1) by (auto simp: rows2(1))
    have "?g r = r" using advance_frame[OF r(1) post f(4)] r'(2,3) r(2) by auto
    then show ?thesis using marked_rows(1)[OF r(1)] r(2) by simp
  qed
  then show "slots_kept p post rows rows2" "others_kept me rows rows2"
    by (auto simp: slots_kept_def others_kept_def)
  have "?g r0 = r0\<lparr>r_slot := post\<rparr>" using f(2,3) by (simp add: advance_def)
  with r0m show "r0\<lparr>r_slot := post\<rparr> \<in> set rows2" by (force simp: rows2(1))
qed

text \<open>What a delivery that happens does.\<close>

lemma SendNewItems_delivers:
  assumes T: "templates_ok T" and w: "mail_ok T dir me w" and post: "post < 8"
    and mark: "ok 2" and short: "\<And>r. r \<in> set (fst w) \<Longrightarrow> r_slot r < 256"
    and happens: "SendNewItems T ok box post w \<noteq> w"
  obtains r0 rest rows2 b where "IsRecvBoxOpen (snd w)" "inbox_queue me (fst w) = r0 # rest"
    "dequeue ok me post (r_slot r0) (marked me r0 (fst w)) = Some rows2"
    "SendNewItems T ok box post w = (rows2, show_item post (Some b) (snd w))"
    "shown_ok T b" "i_id (b_item b) = r_itemid r0" "i_quantity (b_item b) = r_quantity r0" "b_sender b = r_sender r0"
proof -
  let ?rows = "fst w" and ?p = "snd w"
  note d = mail_okD[OF w]
  from happens obtain r0 rest tpl where g: "IsRecvBoxOpen ?p" "inbox_queue me ?rows = r0 # rest"
    "spawn T (r_itemid r0) = Some tpl" "box = 1" "ok 0" "ok 1" "ok 3" "uc_IsSlotEmpty post (mc_box ?p)"
    using d(2) by (auto simp: SendNewItems_def Let_def split: list.splits option.splits if_splits)
  let ?it = "(setQuantity (r_quantity r0) tpl)\<lparr>i_slotID := post\<rparr>"
  let ?b = "\<lparr>b_item = ?it, b_sender = r_sender r0, b_receiver = [], b_sent = False\<rparr>"
  note f = queue_first[OF g(2)]
  have le: "r_quantity r0 \<le> i_stackSize tpl" using d(6)[OF f(1)] g(3) by (auto simp: row_ok_def)
  have it: "i_quantity ?it = r_quantity r0" "i_id ?it = r_itemid r0"
    using le templates_okD(1)[OF T g(3)] by (simp_all add: min_def)
  have pred: "(\<lambda>r. r_senderid r = me \<and> r_charid r = r_senderid r0 \<and> r_box r = 2 \<and> \<not> r_received r \<and>
      r_quantity r = i_quantity ?it \<and> r_sent r \<and> r_itemid r = i_id ?it) =
      is_promise me (r_senderid r0) (r_itemid r0) (r_quantity r0)"
    unfolding it by (auto simp: fun_eq_iff is_promise_def)
  have byte: "r_slot r0 mod 256 = r_slot r0" using short[OF f(1)] by simp
  have "SendNewItems T ok box post w =
      (case dequeue ok me post (r_slot r0) (marked me r0 ?rows) of
         None \<Rightarrow> w | Some rows2 \<Rightarrow> (rows2, show_item post (Some ?b) ?p))"
    using g d(2) mark pred by (simp add: SendNewItems_def Let_def byte marked_def)
  with happens obtain rows2 where dq: "dequeue ok me post (r_slot r0) (marked me r0 ?rows) = Some rows2"
    "SendNewItems T ok box post w = (rows2, show_item post (Some ?b) ?p)"
    by (auto split: option.splits)
  have "shown_ok T ?b"
    by (rule shown_ok_fresh[OF T g(3) le]) (use le in \<open>simp_all add: min_def setQuantity_fields\<close>)
  then show thesis by (rule that[OF g(1,2) dq]) (use it in simp_all)
qed

lemma SendNewItems_keeps:
  assumes T: "templates_ok T" and w: "mail_ok T dir me w" and post: "post < 8"
    and mark: "ok 2" and short: "\<And>r. r \<in> set (fst w) \<Longrightarrow> r_slot r < 256"
  shows "keeps T dir me w (SendNewItems T ok box post w)"
proof (cases "SendNewItems T ok box post w = w")
  case True
  then show ?thesis using keeps_refl[OF w] by simp
next
  case False
  let ?p = "snd w"
  note d = mail_okD[OF w]
  from SendNewItems_delivers[OF T w post mark short False] obtain r0 rest rows2 b where
    g: "IsRecvBoxOpen ?p" "inbox_queue me (fst w) = r0 # rest"
    and dq: "dequeue ok me post (r_slot r0) (marked me r0 (fst w)) = Some rows2"
    and res: "SendNewItems T ok box post w = (rows2, show_item post (Some b) ?p)"
    and b: "shown_ok T b" "i_id (b_item b) = r_itemid r0" "i_quantity (b_item b) = r_quantity r0" by metis
  note f = queue_first[OF g(2)] and o1 = open_recv[OF g(1)] and del = delivery_rows[OF d(1) g(2) post dq]
  have dist: "distinct (map row_key rows2)" using del(1) by (simp add: rows_ok_def)
  have "mirrored T rows2 ?p post b"
    by (rule mirrored_exact[OF dist del(5) _ post b(1)])
      (use f(2,3) d(2) o1 b in \<open>simp_all add: in_slot_def mirrors_def\<close>)
  then have "box_ok T rows2 (show_item post (Some b) ?p)"
    using post by (intro box_ok_show_item[OF d(4) conjunct2[OF o1] _ del(3)]) auto
  then show ?thesis
    unfolding res using del(1,2,4) d(2,3) by (intro keepsI) (simp_all add: amount_def)
qed

end
