(* ===== verification/Auction.thy ===== *)
theory Auction
  imports DeliveryBox Float32
begin

text \<open>
  The auction house: \<open>src/map/utils/auctionutils.cpp\<close> and the handler of its packet,
  \<open>src/map/packets/c2s/0x04e_auc.cpp\<close>.

  The listings are the table \<open>auction_house\<close>, whose rows are numbered as they are inserted.  A bid
  marks the cheapest listing it covers as sold, and the trigger \<open>auction_house_buy\<close> puts the money
  into the delivery box of the seller in the same statement.  As in \<open>DeliveryBox\<close>, \<open>ok k\<close> says
  whether the \<open>k\<close>-th statement of an operation comes back without an error, and a transaction that
  fails gives the table back as it was.  Of listings that cost the same the one inserted first
  is bought.  The fees are computed in \<open>float\<close> and converted to an integer, which is undefined when
  the result does not fit: that, like following a null pointer, is \<^const>\<open>None\<close>.
  The rates of the server's settings are parameters, and so is which item of the bag has been used
  in part.  Dates, answers to the client and the table of names the other trigger fills are left out.
\<close>

section \<open>Listings\<close>

record ah_row =
  ah_id :: nat
  ah_itemid :: nat
  ah_stack :: bool
  ah_seller :: nat
  ah_seller_name :: string
  ah_price :: uint32
  ah_buyer_name :: "string option"
  ah_sale :: uint32

record auction_house =
  house_rows :: "ah_row list"
  house_next :: nat

text \<open>What a player was last shown of his own listings, and when.\<close>

record ah_entry =
  h_itemid :: nat
  h_stack :: bool
  h_price :: uint32

record sales =
  m_ah_history :: "ah_entry list"
  m_AHHistoryTimestamp :: int

definition FLAG_NOAUCTION :: uint32 where "FLAG_NOAUCTION = 0x40"

record ah_settings =
  AH_BASE_FEE_STACKS :: uint32
  AH_TAX_RATE_STACKS :: rat
  AH_BASE_FEE_SINGLE :: uint32
  AH_TAX_RATE_SINGLE :: rat
  AH_MAX_FEE :: uint32
  AH_LIST_LIMIT :: nat

type_synonym auction = "auction_house \<times> mail \<times> sales"

text \<open>\<open>INSERT\<close>, with the number the table gives out.\<close>

definition list_row :: "ah_row \<Rightarrow> auction_house \<Rightarrow> auction_house" where
  "list_row r h = \<lparr>house_rows = house_rows h @ [r\<lparr>ah_id := house_next h\<rparr>], house_next = house_next h + 1\<rparr>"

definition unsold :: "nat \<Rightarrow> ah_row \<Rightarrow> bool" where
  "unsold seller r \<longleftrightarrow> ah_seller r = seller \<and> ah_sale r = 0"

section \<open>Looking at one's sales\<close>

definition OpenListOfSales :: "(nat \<Rightarrow> bool) \<Rightarrow> int \<Rightarrow> auction \<Rightarrow> auction" where
  "OpenListOfSales ok now a =
     (case a of (h, w, s) \<Rightarrow>
        if m_AHHistoryTimestamp s + 5000 < now
        then (h, w, \<lparr>m_ah_history =
                (if ok 0
                 then map (\<lambda>r. \<lparr>h_itemid = ah_itemid r, h_stack = ah_stack r, h_price = ah_price r\<rparr>)
                        (take 7 (sort_key ah_id (filter (unsold (mc_id (snd w))) (house_rows h))))
                 else []),
              m_AHHistoryTimestamp = now\<rparr>)
        else (h, w, s))"

section \<open>Selling\<close>

definition to_uint32 :: "rat \<Rightarrow> uint32 option" where
  "to_uint32 x = (if 0 \<le> trunc x \<and> trunc x < 2 ^ 32 then Some (word_of_int (trunc x)) else None)"

definition tax :: "uint32 \<Rightarrow> rat \<Rightarrow> uint32 \<Rightarrow> uint32 option" where
  "tax base rate price =
     to_uint32 (f32 (f32 (of_int (uint base)) + f32 (f32 (f32 (of_int (uint price)) * rate) / 100)))"

definition auctionFee :: "ah_settings \<Rightarrow> bool \<Rightarrow> uint32 \<Rightarrow> uint32 option" where
  "auctionFee S stack price =
     map_option (\<lambda>f. if AH_MAX_FEE S < f then AH_MAX_FEE S else f)
       (if stack then tax (AH_BASE_FEE_STACKS S) (AH_TAX_RATE_STACKS S) price
        else tax (AH_BASE_FEE_SINGLE S) (AH_TAX_RATE_SINGLE S) price)"

definition saleable :: "nat \<Rightarrow> item \<Rightarrow> bool" where
  "saleable stacks it \<longleftrightarrow> \<not> isSubType it ITEM_LOCKED \<and> i_reserve it = 0 \<and> \<not> hasFlag it FLAG_NOAUCTION \<and>
     stacks \<le> unat (i_quantity it)"

definition listing :: "nat \<Rightarrow> bool \<Rightarrow> uint32 \<Rightarrow> mail_char \<Rightarrow> ah_row" where
  "listing ident stack price p =
     \<lparr>ah_id = 0, ah_itemid = ident, ah_stack = stack, ah_seller = mc_id p, ah_seller_name = mc_name p,
      ah_price = price, ah_buyer_name = None, ah_sale = 0\<rparr>"

definition ProofOfPurchase ::
  "ah_settings \<Rightarrow> (nat \<Rightarrow> bool) \<Rightarrow> (nat \<Rightarrow> bool) \<Rightarrow> uint32 \<Rightarrow> nat \<Rightarrow> nat \<Rightarrow> auction \<Rightarrow> auction option" where
  "ProofOfPurchase S ok used LimitPrice ItemWorkIndex stacks a =
     (case a of (h, (rows, p), s) \<Rightarrow>
        let slot = ItemWorkIndex mod 256; ch = mc_char p in
        (case GetItem slot (storage ch LOC_INVENTORY) of
           None \<Rightarrow> Some a
         | Some it \<Rightarrow>
             if \<not> saleable stacks it \<or> used slot then Some a
             else if stacks = 0 \<and> (i_stackSize it = 1 \<or> i_stackSize it \<noteq> i_quantity it) then Some a
             else (case auctionFee S (stacks = 0) LimitPrice of
                     None \<Rightarrow> None
                   | Some fee \<Rightarrow>
                       (case GetItem 0 (storage ch LOC_INVENTORY) of
                          None \<Rightarrow> None
                        | Some gil \<Rightarrow>
                            if i_quantity gil < fee \<or> 0 < i_reserve gil then Some a
                            else
                              let ahListings = (if ok 0 then length (filter (unsold (mc_id p)) (house_rows h)) else 0)
                              in if (AH_LIST_LIMIT S \<noteq> 0 \<and> AH_LIST_LIMIT S \<le> ahListings) \<or> \<not> ok 1 then Some a
                                 else
                                   let h' = list_row (listing (i_id it) (stacks = 0) LimitPrice p) h;
                                       ch1 = snd (UpdateItem LOC_INVENTORY slot
                                               (- (if stacks \<noteq> 0 then 1 else sint (i_stackSize it))) False ch);
                                       ch2 = snd (UpdateItem LOC_INVENTORY 0 (- sint fee) False ch1)
                                   in Some (h', (rows, p\<lparr>mc_char := ch2\<rparr>), s)))))"

section \<open>Buying\<close>

definition wanted :: "nat \<Rightarrow> bool \<Rightarrow> uint32 \<Rightarrow> ah_row \<Rightarrow> bool" where
  "wanted ident stack bid r \<longleftrightarrow>
     ah_itemid r = ident \<and> ah_buyer_name r = None \<and> ah_stack r = stack \<and> ah_price r \<le> bid"

definition sold :: "string \<Rightarrow> uint32 \<Rightarrow> ah_row \<Rightarrow> ah_row" where
  "sold buyer bid r = r\<lparr>ah_buyer_name := Some buyer, ah_sale := bid\<rparr>"

text \<open>The trigger: the seller is paid by mail.\<close>

definition payment :: "ah_row \<Rightarrow> box_row" where
  "payment r = \<lparr>r_charid = ah_seller r, r_charname = ah_seller_name r, r_box = 1, r_slot = 0,
     r_itemid = 0xFFFF, r_quantity = ah_sale r, r_senderid = 0, r_sender = ''AH-Jeuno'',
     r_received = False, r_sent = False\<rparr>"

definition auction_house_buy :: "ah_row \<Rightarrow> ah_row \<Rightarrow> box_row list \<Rightarrow> box_row list option" where
  "auction_house_buy old new rows =
     (if ah_seller old \<noteq> 0 \<and> ah_sale new \<noteq> 0 then insert_row (payment new) rows else Some rows)"

text \<open>The update: the new tables, or \<^const>\<open>None\<close> when it fails or changes no row.\<close>

definition sell_cheapest ::
  "string \<Rightarrow> nat \<Rightarrow> bool \<Rightarrow> uint32 \<Rightarrow> auction_house \<times> box_row list \<Rightarrow> (auction_house \<times> box_row list) option" where
  "sell_cheapest buyer ident stack bid t =
     (case t of (h, rows) \<Rightarrow>
        (case sort_key ah_price (filter (wanted ident stack bid) (house_rows h)) of
           [] \<Rightarrow> None
         | r0 # rest \<Rightarrow>
             map_option (\<lambda>rows'. (h\<lparr>house_rows :=
                 map (\<lambda>r. if ah_id r = ah_id r0 then sold buyer bid r else r) (house_rows h)\<rparr>, rows'))
               (auction_house_buy r0 (sold buyer bid r0) rows)))"

definition PurchasingItems ::
  "templates \<Rightarrow> (nat \<Rightarrow> bool) \<Rightarrow> uint32 \<Rightarrow> nat \<Rightarrow> nat \<Rightarrow> auction \<Rightarrow> bool \<times> auction" where
  "PurchasingItems T ok BidPrice ItemNo stacks a =
     (case a of (h, (rows, p), s) \<Rightarrow>
        let ch = mc_char p in
        if GetFreeSlotsCount (storage ch LOC_INVENTORY) = 0 then (False, a)
        else (case lookup T ItemNo of
                None \<Rightarrow> (False, a)
              | Some tpl \<Rightarrow>
                  if hasFlag tpl FLAG_RARE \<and>
                     (\<exists>l \<in> set [0..<MAX_CONTAINER_ID]. SearchItem ItemNo (storage ch l) \<noteq> ERROR_SLOTID) then (False, a)
                  else (case GetItem 0 (storage ch LOC_INVENTORY) of
                          None \<Rightarrow> (False, a)
                        | Some gil \<Rightarrow>
                            if \<not> (isType gil ITEM_CURRENCY \<and> BidPrice \<le> i_quantity gil \<and> i_reserve gil = 0)
                            then (False, a)
                            else (case (if ok 0 then sell_cheapest (mc_name p) ItemNo (stacks = 0) BidPrice (h, rows)
                                        else None) of
                                    None \<Rightarrow> (False, a)
                                  | Some (h', rows') \<Rightarrow>
                                      let (r, ch1) = AddItem T LOC_INVENTORY ItemNo
                                            (if stacks = 0 then i_stackSize tpl else 1) (ok 1) ch
                                      in if r \<noteq> ERROR_SLOTID
                                         then (True, h', (rows', p\<lparr>mc_char :=
                                                snd (UpdateItem LOC_INVENTORY 0 (- sint BidPrice) False ch1)\<rparr>), s)
                                         else (False, h', (rows', p\<lparr>mc_char := ch1\<rparr>), s)))))"

section \<open>Taking a listing back\<close>

definition mine_again :: "nat \<Rightarrow> ah_entry \<Rightarrow> ah_row \<Rightarrow> bool" where
  "mine_again me e r \<longleftrightarrow> unsold me r \<and> ah_itemid r = h_itemid e \<and> ah_stack r = h_stack e \<and> ah_price r = h_price e"

fun unlist :: "(ah_row \<Rightarrow> bool) \<Rightarrow> ah_row list \<Rightarrow> ah_row list option" where
  "unlist P [] = None"
| "unlist P (r # rs) = (if P r then Some rs else map_option (Cons r) (unlist P rs))"

text \<open>When the item does not find its way into the bag the transaction is rolled back.\<close>

definition CancelSale :: "templates \<Rightarrow> (nat \<Rightarrow> bool) \<Rightarrow> nat \<Rightarrow> auction \<Rightarrow> auction" where
  "CancelSale T ok AucWorkIndex a =
     (case a of (h, (rows, p), s) \<Rightarrow>
        if length (m_ah_history s) \<le> AucWorkIndex then a
        else
          let e = m_ah_history s ! AucWorkIndex in
          (case (if ok 0 then unlist (mine_again (mc_id p) e) (house_rows h) else None) of
             None \<Rightarrow> a
           | Some rs \<Rightarrow>
               (case lookup T (h_itemid e) of
                  None \<Rightarrow> a
                | Some tpl \<Rightarrow>
                    let (r, ch) = AddItem T LOC_INVENTORY (h_itemid e) (if h_stack e then i_stackSize tpl else 1)
                                    (ok 1) (mc_char p)
                    in (if r \<noteq> ERROR_SLOTID then h\<lparr>house_rows := rs\<rparr> else h, (rows, p\<lparr>mc_char := ch\<rparr>), s))))"

section \<open>The packet\<close>

text \<open>
  The parameter of the packet is a union; the fields are at the same place in every form:
  a price, two 16-bit numbers and the stacks.  A lot names its cell and a bid its item in the
  first of the two numbers.
\<close>

record auc_packet =
  a_Command :: nat
  a_AucWorkIndex :: int
  a_Result :: int
  a_ResultStatus :: int
  a_price :: uint32
  a_first :: nat
  a_second :: nat
  a_stacks :: nat

record auc_env =
  ae_auction :: bool
  ae_jailed :: bool
  ae_now :: int
  ae_used :: "nat \<Rightarrow> bool"

definition auc_validate :: "auc_env \<Rightarrow> auc_packet \<Rightarrow> bool" where
  "auc_validate e k \<longleftrightarrow>
     ae_auction e \<and> \<not> ae_jailed e \<and> a_Command k \<in> {2, 4, 5, 10, 11, 12, 13, 14} \<and>
     a_Result k = 0 \<and> a_ResultStatus k = 0 \<and>
     (a_Command k = 10 \<longrightarrow> a_AucWorkIndex k = -1) \<and>
     (a_Command k \<in> {11, 12, 13, 14} \<longrightarrow> 0 \<le> a_AucWorkIndex k \<and> a_AucWorkIndex k \<le> 6) \<and>
     (a_Command k \<in> {4, 11, 14} \<longrightarrow> 1 \<le> a_price k \<and> a_price k \<le> 999999999 \<and> a_stacks k \<le> 1)"

text \<open>Commands 2, 4, 10 and 13 only answer the client.\<close>

definition auc_process ::
  "templates \<Rightarrow> ah_settings \<Rightarrow> auc_env \<Rightarrow> (nat \<Rightarrow> bool) \<Rightarrow> auc_packet \<Rightarrow> auction \<Rightarrow> auction option" where
  "auc_process T S e ok k a =
     (if \<not> auc_validate e k then Some a
      else if a_Command k = 5 then Some (OpenListOfSales ok (ae_now e) a)
      else if a_Command k = 11 then ProofOfPurchase S ok (ae_used e) (a_price k) (a_first k) (a_stacks k) a
      else if a_Command k = 12 then Some (CancelSale T ok (nat (a_AucWorkIndex k)) a)
      else if a_Command k = 14 then Some (snd (PurchasingItems T ok (a_price k) (a_first k) (a_stacks k) a))
      else Some a)"

section \<open>The market: auction house and delivery boxes together\<close>

record market =
  mk_house :: auction_house
  mk_office :: post_office
  mk_sales :: "nat \<Rightarrow> sales"

definition auc_step ::
  "templates \<Rightarrow> ah_settings \<Rightarrow> auc_env \<Rightarrow> (nat \<Rightarrow> bool) \<Rightarrow> nat \<Rightarrow> auc_packet \<Rightarrow> market \<Rightarrow> market option" where
  "auc_step T S e ok me k M =
     map_option (\<lambda>(h, (rows, q), s).
         \<lparr>mk_house = h,
          mk_office = \<lparr>po_rows = rows, po_players = (po_players (mk_office M))(me := q)\<rparr>,
          mk_sales = (mk_sales M)(me := s)\<rparr>)
       (auc_process T S e ok k (mk_house M, (po_rows (mk_office M), po_players (mk_office M) me), mk_sales M me))"

end
