(* ===== verification/AuctionLaws.thy ===== *)
theory AuctionLaws
  imports MailLaws Auction
begin

text \<open>
  What the statements and operations of the auction house do to the listings, the mail and the
  bags: the fees are defined, bags and mail stay in order, and every amount is accounted for.
\<close>

section \<open>Fees\<close>

text \<open>Rates with which a fee is always defined: at most a hundred percent, and the sums fit.\<close>

definition rates_ok :: "ah_settings \<Rightarrow> bool" where
  "rates_ok S \<longleftrightarrow> 0 \<le> AH_TAX_RATE_STACKS S \<and> AH_TAX_RATE_STACKS S \<le> 100 \<and>
     0 \<le> AH_TAX_RATE_SINGLE S \<and> AH_TAX_RATE_SINGLE S \<le> 100 \<and>
     AH_BASE_FEE_STACKS S \<le> 2 ^ 31 \<and> AH_BASE_FEE_SINGLE S \<le> 2 ^ 31 \<and> uint (AH_MAX_FEE S) < 2 ^ 31"

lemma tax_defined:
  assumes "0 \<le> rate" "rate \<le> 100" "base \<le> 2 ^ 31" "price \<le> 999999999"
  shows "\<exists>f. tax base rate price = Some f"
proof -
  define x :: rat where "x = of_int (uint price)"
  define y :: rat where "y = of_int (uint base)"
  have "uint price \<le> 999999999" "uint base \<le> 2147483648" using assms(3,4) by (simp_all add: word_le_def)
  then have u: "x \<le> 999999999" "y \<le> 2147483648" "0 \<le> x" "0 \<le> y"
    unfolding x_def y_def
    by (metis of_int_le_iff of_int_numeral, metis of_int_le_iff of_int_numeral)
      (simp_all only: of_int_0_le_iff uint_ge_0)
  have p: "0 \<le> f32 x" "f32 x \<le> 1000000100" using f32_nonneg[OF u(3)] f32_le[OF u(3,1)] by simp_all
  have "f32 x * rate \<le> 1000000100 * 100" using p assms(1,2) by (intro mult_mono) auto
  moreover have "0 \<le> f32 x * rate" using p assms(1) by simp
  ultimately have t: "0 \<le> f32 (f32 x * rate)" "f32 (f32 x * rate) \<le> 100000020000"
    using f32_nonneg f32_le[of "f32 x * rate" "1000000100 * 100"] by auto
  then have t': "0 \<le> f32 (f32 (f32 x * rate) / 100)" "f32 (f32 (f32 x * rate) / 100) \<le> 1000000400"
    using f32_nonneg[of "f32 (f32 x * rate) / 100"] f32_le[of "f32 (f32 x * rate) / 100" "1000000200"] by auto
  have b: "0 \<le> f32 y" "f32 y \<le> 2147483800" using f32_nonneg[OF u(4)] f32_le[OF u(4,2)] by simp_all
  let ?s = "f32 (f32 y + f32 (f32 (f32 x * rate) / 100))"
  have "0 \<le> ?s" "?s \<le> 3147485000"
    using f32_nonneg[of "f32 y + f32 (f32 (f32 x * rate) / 100)"]
      f32_le[of "f32 y + f32 (f32 (f32 x * rate) / 100)" 3147484200] b t' by auto
  then have "0 \<le> trunc ?s" "trunc ?s \<le> 3147485000" using trunc_nonneg trunc_le[of ?s 3147485000] by auto
  then show ?thesis by (simp add: tax_def to_uint32_def del: of_int_uint flip: x_def y_def)
qed

lemma auctionFee_defined:
  assumes "rates_ok S" "price \<le> 999999999"
  obtains fee where "auctionFee S stack price = Some fee" "uint fee < 2 ^ 31"
proof -
  have "\<exists>f. (if stack then tax (AH_BASE_FEE_STACKS S) (AH_TAX_RATE_STACKS S) price
        else tax (AH_BASE_FEE_SINGLE S) (AH_TAX_RATE_SINGLE S) price) = Some f"
    using assms tax_defined by (auto simp: rates_ok_def)
  then obtain f where f: "auctionFee S stack price = Some (if AH_MAX_FEE S < f then AH_MAX_FEE S else f)"
    unfolding auctionFee_def by auto
  show thesis by (rule that[OF f]) (use assms(1) in \<open>auto simp: rates_ok_def word_less_def not_less\<close>)
qed

section \<open>Adding to and taking from a bag\<close>

text \<open>Every template has stacks of at least one.\<close>

definition stackable :: "templates \<Rightarrow> bool" where
  "stackable T \<longleftrightarrow> (\<forall>ident tpl. spawn T ident = Some tpl \<longrightarrow> i_stackSize tpl \<noteq> 0)"

lemma AddItemObject_purse:
  assumes T: "templates_ok T" and ch: "char_ok T ch" and it: "carried_ok T it" and g: "bag ch 0 = Some g"
  shows "\<exists>g'. bag (snd (AddItemObject LOC_INVENTORY it db ch)) 0 = Some g' \<and> restocked g g' \<and> i_quantity g \<le> i_quantity g'"
proof (cases "isType it ITEM_CURRENCY")
  case False
  obtain r ch' where a: "AddItemObject LOC_INVENTORY it db ch = (r, ch')"
    "\<And>l t x. GetItem t (storage ch l) = Some x \<Longrightarrow> GetItem t (storage ch' l) = Some x"
    using AddItemObject_step[OF char_okD(1)[OF ch] LOC_INVENTORY_range False, of db] by metis
  then show ?thesis using a(2)[OF g] by simp
next
  case True
  note cg = carried_okD[OF T char_okD(3)[OF ch g]] and ci = carried_okD[OF T it]
  have g': "i_id g = 0xFFFF" using char_okD(4)[OF ch] g by simp
  have sint: "sint (i_quantity it) = uint (i_quantity it)" using ci(1,2) by (intro sint_small) linarith
  have ok: "store_ok (storage ch LOC_INVENTORY)" using char_okD(1)[OF ch] by (simp add: inventory_ok_def)
  have "uint (i_quantity g + i_quantity it) = uint (i_quantity g) + uint (i_quantity it)"
    using cg(1,2) ci(1,2) by (simp add: uint_word_ariths)
  then have "i_quantity g \<le> i_quantity g + i_quantity it" "i_quantity g \<le> i_stackSize g"
    using cg(1) by (simp_all add: word_le_def)
  moreover have "isType g ITEM_CURRENCY" using cg(4) g' by simp
  moreover have "(0 :: nat) \<le> unat (m_size (storage ch LOC_INVENTORY))" by simp
  ultimately show ?thesis
    using True g sint GetItem_set_cell[OF ok, of 0]
    by (auto simp: AddItemObject_def UpdateItem_def Let_def min_def)
qed


lemma AddItemObject_others:
  assumes T: "templates_ok T" and ch: "char_ok T ch" and it: "carried_ok T it" and k: "k \<noteq> i_id it"
  shows "total_qty k (snd (AddItemObject LOC_INVENTORY it db ch)) = total_qty k ch"
proof (cases "isType it ITEM_CURRENCY")
  case False
  have "qty_of k it = 0" using k by (simp add: qty_of_def)
  with AddItem_item[OF ch it False, of db] show ?thesis by auto
next
  case True
  note c = char_okD[OF ch]
  obtain g where g: "bag ch 0 = Some g" "i_id g = 0xFFFF" using c(4) by blast
  have ne: "i_id g \<noteq> k" using carried_okD(4)[OF T it] True g(2) k by simp
  have cur: "isType g ITEM_CURRENCY" using carried_okD(4)[OF T c(3)[OF g(1)]] g(2) by simp
  have "total_qty k (on_storage LOC_INVENTORY (set_cell 0 (Some (setQuantity n g))) ch) = total_qty k ch"
    if le: "n \<le> i_stackSize g" for n
  proof -
    have val: "uint n = uint (i_quantity g) + (uint n - uint (i_quantity g))" by simp
    show ?thesis using set_quantity_step(2)[OF c(1) LOC_INVENTORY_range g(1) val le, of k] ne by simp
  qed
  then show ?thesis using True g(1) cur by (auto simp: AddItemObject_def UpdateItem_def Let_def not_less)
qed

lemma lookup_spawn: "lookup T ident = Some tpl \<Longrightarrow> spawn T ident \<noteq> None \<Longrightarrow> spawn T ident = Some tpl"
  by (auto simp: spawn_def lookup_def clone_def MAX_ITEMID_def split: option.splits if_splits)

text \<open>\<open>AddItem\<close> by number: all of it or nothing, and of gil no more than all.\<close>

lemma AddItem_adds:
  assumes T: "templates_ok T" and ch: "char_ok T ch" and tpl: "spawn T ident = Some tpl" and n: "n \<le> i_stackSize tpl"
  shows "\<exists>r ch'. AddItem T LOC_INVENTORY ident n db ch = (r, ch') \<and> char_ok T ch' \<and>
    (\<forall>k. total_qty k ch' \<le> total_qty k ch + (if r \<noteq> ERROR_SLOTID \<and> k = ident then unat n else 0)) \<and>
    (\<forall>k. k \<noteq> 0xFFFF \<or> ident \<noteq> 0xFFFF \<longrightarrow>
      total_qty k ch' = total_qty k ch + (if r \<noteq> ERROR_SLOTID \<and> k = ident then unat n else 0)) \<and>
    (\<forall>g. bag ch 0 = Some g \<longrightarrow> (\<exists>g'. bag ch' 0 = Some g' \<and> restocked g g' \<and> i_quantity g \<le> i_quantity g'))"
proof (cases "GetFreeSlotsCount (storage ch LOC_INVENTORY) = 0 \<or> n = 0")
  case True
  then have "AddItem T LOC_INVENTORY ident n db ch = (ERROR_SLOTID, ch)" by (simp add: AddItem_def)
  then show ?thesis using ch by auto
next
  case False
  let ?it = "setQuantity n tpl"
  note t = templates_okD[OF T tpl]
  have add: "AddItem T LOC_INVENTORY ident n db ch = AddItemObject LOC_INVENTORY ?it db ch"
    using False tpl by (simp add: AddItem_def)
  have it: "carried_ok T ?it"
    unfolding carried_ok_def using t n tpl by (auto simp: setQuantity_fields isType_def)
  have q: "qty_of k ?it = (if k = ident then unat n else 0)" for k
    using n t(1) by (auto simp: qty_of_def min_def)
  have purse: "\<exists>g'. bag (snd (AddItemObject LOC_INVENTORY ?it db ch)) 0 = Some g' \<and> restocked g g' \<and>
      i_quantity g \<le> i_quantity g'" if "bag ch 0 = Some g" for g
    by (rule AddItemObject_purse[OF T ch it that])
  have cur: "isType ?it ITEM_CURRENCY \<longleftrightarrow> ident = 0xFFFF" using t(5) by (simp add: isType_def setQuantity_fields)
  show ?thesis
  proof (cases "ident = 0xFFFF")
    case True
    then obtain ch' where "AddItemObject LOC_INVENTORY ?it db ch = (0, ch')" "char_ok T ch'"
      "\<forall>k. total_qty k ch' \<le> total_qty k ch + qty_of k ?it"
      using AddItem_gil[OF T ch it, of db] cur by blast
    moreover have "\<forall>k. k \<noteq> 0xFFFF \<longrightarrow> total_qty k ch' = total_qty k ch"
      using AddItemObject_others[OF T ch it, of _ db] t(1) True calculation(1) by simp
    ultimately show ?thesis
      using purse True unfolding add q by (intro exI[of _ 0] exI[of _ ch']) (simp add: ERROR_SLOTID_def)
  next
    case ne: False
    then obtain r ch' where "AddItemObject LOC_INVENTORY ?it db ch = (r, ch')" "char_ok T ch'"
      "\<forall>k. total_qty k ch' = total_qty k ch + (if r = ERROR_SLOTID then 0 else qty_of k ?it)"
      using AddItem_item[OF ch it, of db] cur by blast
    with purse show ?thesis unfolding add q by (intro exI[of _ r] exI[of _ ch']) auto
  qed
qed

lemma AddItem_finds_room:
  assumes ch: "char_ok T ch" and tpl: "spawn T ident = Some tpl" and n: "n \<noteq> 0"
    and room: "GetFreeSlotsCount (storage ch LOC_INVENTORY) \<noteq> 0"
    and rare: "\<not> (hasFlag tpl FLAG_RARE \<and> HasItem (i_id tpl) ch)"
  shows "fst (AddItem T LOC_INVENTORY ident n True ch) \<noteq> ERROR_SLOTID"
proof -
  let ?it = "setQuantity n tpl"
  have ok: "store_ok (storage ch LOC_INVENTORY)" using char_okD(1)[OF ch] by (simp add: inventory_ok_def)
  have "hasFlag ?it f = hasFlag tpl f" for f by (simp add: hasFlag_def setQuantity_fields)
  moreover have "fst (InsertItem (Some ?it) (storage ch LOC_INVENTORY)) \<noteq> ERROR_SLOTID"
    using containers.ins_succeeds_iff[OF ok, of ?it] room by (simp add: ERROR_SLOTID_def unat_gt_0)
  ultimately show ?thesis
    using n room rare tpl by (auto simp: AddItem_def AddItemObject_def ERROR_SLOTID_def Let_def split: prod.split)
qed

text \<open>Paying out of the purse, which takes all that is asked or nothing.\<close>

lemma pay_gil:
  assumes T: "templates_ok T" and ch: "char_ok T ch" and g: "bag ch 0 = Some g" "i_reserve g = 0"
    and fee: "uint (fee :: uint32) < 2 ^ 31"
  shows "\<exists>ch'. snd (UpdateItem LOC_INVENTORY 0 (- sint fee) False ch) = ch' \<and> char_ok T ch' \<and>
    (\<forall>k. int (total_qty k ch') =
       int (total_qty k ch) - (if k = 0xFFFF \<and> fee \<le> i_quantity g then uint fee else 0))"
proof -
  have sint: "sint fee = uint fee" by (rule sint_small[OF fee])
  have gid: "i_id g = 0xFFFF" using char_okD(4)[OF ch] g(1) by simp
  show ?thesis
  proof (cases "fee \<le> i_quantity g")
    case True
    then have "uint (i_reserve g) + uint fee \<le> uint (i_quantity g)" using g(2) by (simp add: word_le_def)
    from UpdateItem_gave[OF T ch g(1) this] True gid show ?thesis
      by (auto simp: gave_def sint split: if_splits)
  next
    case False
    then have lt: "uint (i_quantity g) < uint fee" by (simp add: word_le_def)
    have "0 < uint fee" by (rule le_less_trans[OF uint_ge_0 lt])
    moreover have "i_quantity g < word_of_int (uint fee)" using lt by (simp add: word_less_def)
    ultimately have "UpdateItem LOC_INVENTORY 0 (- sint fee) False ch = (0, ch)"
      using g(1) by (simp add: UpdateItem_def sint)
    then show ?thesis using ch False by simp
  qed
qed

section \<open>Mail that arrives\<close>

lemma mail_arrives:
  assumes rows: "rows_ok T dir rows" and r: "insert_row r rows = Some rows'" "r_box r = 1" "\<not> r_sent r"
    and tpl: "spawn T (r_itemid r) = Some tpl" "r_quantity r \<le> i_stackSize tpl"
  shows "rows_ok T dir rows'" "in_mail i rows' = in_mail i rows + (if r_itemid r = i then unat (r_quantity r) else 0)"
    "player_ok T k rows p \<Longrightarrow> player_ok T k rows' p"
    "\<exists>s \<ge> 8. rows' = rows @ [r\<lparr>r_slot := s\<rparr>]"
proof -
  obtain s where s: "rows' = rows @ [r\<lparr>r_slot := s\<rparr>]" "row_key (r\<lparr>r_slot := s\<rparr>) \<notin> row_key ` set rows" "8 \<le> s"
    using insert_row_appends[OF r(1)] r(2) by metis
  have "row_ok T dir (r\<lparr>r_slot := s\<rparr>)" using r(2) tpl by (auto simp: row_ok_def)
  from rows_ok_append[OF rows this s(2)] r(3) show "rows_ok T dir rows'" by (simp add: s(1))
  show "in_mail i rows' = in_mail i rows + (if r_itemid r = i then unat (r_quantity r) else 0)"
    using r(2) by (simp add: s(1) row_amount_def live_def)
  have "others_kept (Suc k) rows rows'" unfolding s(1) using s(3) by (intro others_kept_append) simp
  then show "player_ok T k rows p \<Longrightarrow> player_ok T k rows' p" by (rule other_player_ok[rotated 2]) simp_all
  show "\<exists>s \<ge> 8. rows' = rows @ [r\<lparr>r_slot := s\<rparr>]" using s by blast
qed

lemma player_ok_char:
  "player_ok T k rows p \<Longrightarrow> char_ok T ch \<Longrightarrow> player_ok T k rows (p\<lparr>mc_char := ch\<rparr>)"
  by (simp add: player_ok_def box_ok_def)

section \<open>The listings\<close>

definition for_sale :: "ah_row \<Rightarrow> bool" where
  "for_sale r \<longleftrightarrow> ah_buyer_name r = None"

definition house_ok :: "templates \<Rightarrow> auction_house \<Rightarrow> bool" where
  "house_ok T h \<longleftrightarrow> distinct (map ah_id (house_rows h)) \<and>
     (\<forall>r \<in> set (house_rows h). ah_id r < house_next h \<and> spawn T (ah_itemid r) \<noteq> None \<and>
        (for_sale r \<longleftrightarrow> ah_sale r = 0))"

text \<open>How much of an item a listing holds.\<close>

definition lot :: "templates \<Rightarrow> nat \<Rightarrow> bool \<Rightarrow> uint32" where
  "lot T ident stack = (if stack then (case spawn T ident of None \<Rightarrow> 0 | Some tpl \<Rightarrow> i_stackSize tpl) else 1)"

definition listed :: "templates \<Rightarrow> nat \<Rightarrow> ah_row \<Rightarrow> nat" where
  "listed T i r = (if for_sale r \<and> ah_itemid r = i then unat (lot T (ah_itemid r) (ah_stack r)) else 0)"

definition on_sale :: "templates \<Rightarrow> nat \<Rightarrow> auction_house \<Rightarrow> nat" where
  "on_sale T i h = sum_list (map (listed T i) (house_rows h))"

lemma list_row_ok:
  assumes "house_ok T h" "spawn T (ah_itemid r) \<noteq> None" "for_sale r" "ah_sale r = 0"
  shows "house_ok T (list_row r h)" "on_sale T i (list_row r h) = on_sale T i h + listed T i r"
proof -
  have "listed T i (r\<lparr>ah_id := n\<rparr>) = listed T i r" for n by (simp add: listed_def for_sale_def)
  then show "on_sale T i (list_row r h) = on_sale T i h + listed T i r" by (simp add: on_sale_def list_row_def)
  show "house_ok T (list_row r h)"
    using assms by (auto simp: house_ok_def list_row_def for_sale_def)
qed

lemma sold_fields [simp]:
  "ah_id (sold b p r) = ah_id r" "ah_itemid (sold b p r) = ah_itemid r" "ah_sale (sold b p r) = p"
  "ah_seller (sold b p r) = ah_seller r" "\<not> for_sale (sold b p r)"
  by (simp_all add: sold_def for_sale_def)

text \<open>Marking the one row with a number.\<close>

definition mark_sold :: "string \<Rightarrow> uint32 \<Rightarrow> ah_row \<Rightarrow> auction_house \<Rightarrow> auction_house" where
  "mark_sold buyer bid r0 h =
     h\<lparr>house_rows := map (\<lambda>r. if ah_id r = ah_id r0 then sold buyer bid r else r) (house_rows h)\<rparr>"

lemma mark_split:
  assumes "distinct (map ah_id rs)" "r0 \<in> set rs"
  obtains xs ys where "rs = xs @ r0 # ys"
    "map (\<lambda>r. if ah_id r = ah_id r0 then sold b p r else r) rs = xs @ sold b p r0 # ys"
proof -
  obtain xs ys where s: "rs = xs @ r0 # ys" using split_list[OF assms(2)] by blast
  have "ah_id r \<noteq> ah_id r0" if "r \<in> set xs \<union> set ys" for r using assms(1) that unfolding s by (force simp: image_iff)
  then have "map (\<lambda>r. if ah_id r = ah_id r0 then sold b p r else r) xs = xs"
    "map (\<lambda>r. if ah_id r = ah_id r0 then sold b p r else r) ys = ys"
    by (auto intro!: map_idI)
  with s show thesis by (intro that[of xs ys]) simp_all
qed

lemma mark_sold_ok:
  assumes h: "house_ok T h" and r0: "r0 \<in> set (house_rows h)" and bid: "bid \<noteq> 0"
  shows "house_ok T (mark_sold b bid r0 h)" "on_sale T i (mark_sold b bid r0 h) + listed T i r0 = on_sale T i h"
proof -
  have d: "distinct (map ah_id (house_rows h))" using h by (simp add: house_ok_def)
  obtain xs ys where s: "house_rows h = xs @ r0 # ys" "house_rows (mark_sold b bid r0 h) = xs @ sold b bid r0 # ys"
    using mark_split[OF d r0, of b bid] by (auto simp: mark_sold_def)
  have n: "house_next (mark_sold b bid r0 h) = house_next h" by (simp add: mark_sold_def)
  have "listed T i (sold b bid r0) = 0" by (simp add: listed_def)
  then show "on_sale T i (mark_sold b bid r0 h) + listed T i r0 = on_sale T i h"
    by (simp add: on_sale_def s)
  show "house_ok T (mark_sold b bid r0 h)" using h bid unfolding house_ok_def s n by auto
qed

lemma unlist_Some:
  assumes "unlist P rs = Some rs'"
  obtains xs r ys where "rs = xs @ r # ys" "rs' = xs @ ys" "P r"
proof -
  have "\<exists>xs r ys. rs = xs @ r # ys \<and> rs' = xs @ ys \<and> P r"
    using assms
  proof (induction rs arbitrary: rs')
    case (Cons a rs)
    show ?case
    proof (cases "P a")
      case True
      then show ?thesis using Cons.prems by (intro exI[of _ "[]"]) auto
    next
      case False
      then obtain rs1 where "unlist P rs = Some rs1" "rs' = a # rs1" using Cons.prems by auto
      with Cons.IH obtain xs r ys where "rs = xs @ r # ys" "rs1 = xs @ ys" "P r" by blast
      with \<open>rs' = a # rs1\<close> show ?thesis by (intro exI[of _ "a # xs"]) auto
    qed
  qed simp
  with that show thesis by blast
qed

lemma sell_cheapest_Some:
  assumes "sell_cheapest buyer ident stack bid (h, rows) = Some t"
  obtains r0 rows' where "t = (mark_sold buyer bid r0 h, rows')" "r0 \<in> set (house_rows h)" "wanted ident stack bid r0"
    "\<And>r. r \<in> set (house_rows h) \<Longrightarrow> wanted ident stack bid r \<Longrightarrow> ah_price r0 \<le> ah_price r"
    "auction_house_buy r0 (sold buyer bid r0) rows = Some rows'"
proof -
  let ?rs = "sort_key ah_price (filter (wanted ident stack bid) (house_rows h))"
  obtain r0 rest rows' where c: "?rs = r0 # rest" "auction_house_buy r0 (sold buyer bid r0) rows = Some rows'"
    "t = (mark_sold buyer bid r0 h, rows')"
    using assms by (auto simp: sell_cheapest_def mark_sold_def split: list.splits)
  have "set ?rs = {r \<in> set (house_rows h). wanted ident stack bid r}" by simp
  moreover have "sorted (map ah_price ?rs)" by simp
  ultimately have "r0 \<in> set (house_rows h) \<and> wanted ident stack bid r0 \<and>
    (\<forall>r \<in> set (house_rows h). wanted ident stack bid r \<longrightarrow> ah_price r0 \<le> ah_price r)"
    unfolding c(1) by (auto simp: set_eq_iff)
  with c(2,3) show thesis by (intro that[of r0 rows']) auto
qed

section \<open>The operations keep the market in order\<close>

definition auction_ok :: "templates \<Rightarrow> directory \<Rightarrow> nat \<Rightarrow> auction \<Rightarrow> bool" where
  "auction_ok T dir me a \<longleftrightarrow> house_ok T (fst a) \<and> mail_ok T dir me (fst (snd a))"

definition worth :: "templates \<Rightarrow> nat \<Rightarrow> auction \<Rightarrow> nat" where
  "worth T i a = on_sale T i (fst a) + amount i (fst (snd a))"

text \<open>
  A step of one player that keeps every invariant, creates nothing and burns at most gil; the
  other players still see what their boxes show.
\<close>

definition deals :: "templates \<Rightarrow> directory \<Rightarrow> nat \<Rightarrow> auction \<Rightarrow> auction \<Rightarrow> bool" where
  "deals T dir me a a' \<longleftrightarrow> auction_ok T dir me a' \<and>
     (\<forall>k p. player_ok T k (fst (fst (snd a))) p \<longrightarrow> player_ok T k (fst (fst (snd a'))) p) \<and>
     (\<forall>i. worth T i a' \<le> worth T i a \<and> (i \<noteq> 0xFFFF \<longrightarrow> worth T i a' = worth T i a))"

lemma deals_refl: "auction_ok T dir me a \<Longrightarrow> deals T dir me a a"
  by (simp add: deals_def)

lemma auction_okD:
  assumes "auction_ok T dir me (h, (rows, p), s)"
  shows "house_ok T h" "rows_ok T dir rows" "player_ok T me rows p" "mc_id p = me" "char_ok T (mc_char p)"
  using assms by (auto simp: auction_ok_def mail_ok_def player_ok_def)

lemma OpenListOfSales_deals:
  assumes "auction_ok T dir me a"
  shows "deals T dir me a (OpenListOfSales ok now a)"
  using deals_refl[OF assms] assms
  by (auto simp: OpenListOfSales_def deals_def worth_def auction_ok_def split: prod.splits)

lemma CancelSale_deals:
  assumes T: "templates_ok T" "stackable T" and a: "auction_ok T dir me a"
  shows "deals T dir me a (CancelSale T ok idx a)"
proof -
  obtain h rows p s where [simp]: "a = (h, (rows, p), s)" by (metis prod.exhaust)
  note d = auction_okD[OF a[simplified]]
  let ?e = "m_ah_history s ! idx"
  show ?thesis
  proof (cases "\<exists>rs tpl. idx < length (m_ah_history s) \<and> ok 0 \<and>
      unlist (mine_again (mc_id p) ?e) (house_rows h) = Some rs \<and> lookup T (h_itemid ?e) = Some tpl")
    case False
    then have "CancelSale T ok idx a = a"
      by (auto simp: CancelSale_def Let_def not_less split: option.splits)
    then show ?thesis using deals_refl[OF a] by simp
  next
    case True
    then obtain rs tpl where idx: "idx < length (m_ah_history s)" "ok 0"
      and u: "unlist (mine_again (mc_id p) ?e) (house_rows h) = Some rs"
      and look: "lookup T (h_itemid ?e) = Some tpl" by blast
    obtain xs r ys where x: "house_rows h = xs @ r # ys" "rs = xs @ ys" "mine_again (mc_id p) ?e r"
      by (rule unlist_Some[OF u])
    have row: "for_sale r" "ah_itemid r = h_itemid ?e" "ah_stack r = h_stack ?e" "spawn T (ah_itemid r) \<noteq> None"
      using x(3) d(1) by (auto simp: mine_again_def unsold_def house_ok_def x(1))
    then have tpl: "spawn T (h_itemid ?e) = Some tpl" using lookup_spawn[OF look] by simp
    let ?n = "if h_stack ?e then i_stackSize tpl else 1"
    have nz: "i_stackSize tpl \<noteq> 0" using T(2) tpl by (auto simp: stackable_def)
    then have "1 \<le> i_stackSize tpl" by (simp add: word_le_nat_alt unat_gt_0 Suc_le_eq)
    then have n: "?n \<le> i_stackSize tpl" by simp
    obtain q ch where c: "AddItem T LOC_INVENTORY (h_itemid ?e) ?n (ok 1) (mc_char p) = (q, ch)" "char_ok T ch"
      "\<forall>k. total_qty k ch \<le> total_qty k (mc_char p) +
         (if q \<noteq> ERROR_SLOTID \<and> k = h_itemid ?e then unat ?n else 0)"
      "\<forall>k. k \<noteq> 0xFFFF \<or> h_itemid ?e \<noteq> 0xFFFF \<longrightarrow> total_qty k ch = total_qty k (mc_char p) +
         (if q \<noteq> ERROR_SLOTID \<and> k = h_itemid ?e then unat ?n else 0)"
      using AddItem_adds[OF T(1) d(5) tpl n, of "ok 1"] by blast
    let ?h = "if q \<noteq> ERROR_SLOTID then h\<lparr>house_rows := rs\<rparr> else h"
    have eq: "CancelSale T ok idx a = (?h, (rows, p\<lparr>mc_char := ch\<rparr>), s)"
      using idx u look c(1) by (auto simp: CancelSale_def Let_def not_le)
    have "listed T i r = (if i = h_itemid ?e then unat ?n else 0)" for i
      using row tpl by (auto simp: listed_def lot_def)
    then have sale: "on_sale T i (h\<lparr>house_rows := rs\<rparr>) + (if i = h_itemid ?e then unat ?n else 0) = on_sale T i h" for i
      by (simp add: on_sale_def x)
    have "house_ok T ?h" using d(1) by (auto simp: house_ok_def x)
    moreover have "mail_ok T dir me (rows, p\<lparr>mc_char := ch\<rparr>)"
      using d player_ok_char[OF d(3) c(2)] by (simp add: mail_ok_def)
    moreover have "worth T i (?h, (rows, p\<lparr>mc_char := ch\<rparr>), s) \<le> worth T i a" for i
      using spec[OF c(3), of i] sale[of i] by (auto simp: worth_def amount_def split: if_splits)
    moreover have "worth T i (?h, (rows, p\<lparr>mc_char := ch\<rparr>), s) = worth T i a" if "i \<noteq> 0xFFFF" for i
      using c(4) that sale[of i] by (auto simp: worth_def amount_def split: if_splits)
    ultimately show ?thesis unfolding eq by (simp add: deals_def auction_ok_def)
  qed
qed

lemma sum_moves:
  fixes x n :: nat and t t' f :: int
  assumes "t' = t - (if P then int n else 0) - f"
  shows "int (x + (if P then n else 0)) + t' = int x + t - f"
  using assms by simp

lemma ProofOfPurchase_deals:
  assumes T: "templates_ok T" and S: "rates_ok S" and a: "auction_ok T dir me a"
    and price: "price \<le> 999999999" and stacks: "stacks \<le> 1"
  shows "\<exists>a'. ProofOfPurchase S ok used price idx stacks a = Some a' \<and> deals T dir me a a'"
proof -
  obtain h rows p s where a_eq [simp]: "a = (h, (rows, p), s)" by (metis prod.exhaust)
  note d = auction_okD[OF a[simplified]]
  let ?slot = "idx mod 256" and ?ch = "mc_char p" and ?stack = "stacks = 0"
  obtain fee where fee: "auctionFee S ?stack price = Some fee" "uint fee < 2 ^ 31"
    by (rule auctionFee_defined[OF S price])
  obtain gil where gil: "bag ?ch 0 = Some gil" "i_id gil = 0xFFFF" using char_okD(4)[OF d(5)] by blast
  have same: ?thesis if "ProofOfPurchase S ok used price idx stacks a = Some a"
    using that deals_refl[OF a] by blast
  show ?thesis
  proof (cases "bag ?ch ?slot")
    case None
    then show ?thesis by (intro same) (simp add: ProofOfPurchase_def Let_def)
  next
    case (Some it)
    let ?count = "if ok 0 then length (filter (unsold (mc_id p)) (house_rows h)) else 0"
    let ?go = "saleable stacks it \<and> \<not> used ?slot \<and>
      \<not> (stacks = 0 \<and> (i_stackSize it = 1 \<or> i_stackSize it \<noteq> i_quantity it)) \<and>
      \<not> (i_quantity gil < fee \<or> 0 < i_reserve gil) \<and>
      \<not> ((AH_LIST_LIMIT S \<noteq> 0 \<and> AH_LIST_LIMIT S \<le> ?count) \<or> \<not> ok 1)"
    show ?thesis
    proof (cases ?go)
      case False
      then consider "\<not> saleable stacks it \<or> used ?slot" | "stacks = 0 \<and> (i_stackSize it = 1 \<or> i_stackSize it \<noteq> i_quantity it)"
        | "i_quantity gil < fee \<or> 0 < i_reserve gil"
        | "(AH_LIST_LIMIT S \<noteq> 0 \<and> AH_LIST_LIMIT S \<le> ?count) \<or> \<not> ok 1" by argo
      then have "ProofOfPurchase S ok used price idx stacks a = Some a"
        unfolding ProofOfPurchase_def Let_def by cases (simp_all only: Some fee gil a_eq prod.case option.case if_True if_cancel simp_thms)
      then show ?thesis by (rule same)
    next
      case True
      let ?q = "if stacks \<noteq> 0 then 1 else i_stackSize it"
      note car = char_okD(3)[OF d(5) Some]
      note ci = carried_okD[OF T car]
      have neg: "(if stacks \<noteq> 0 then 1 else sint (i_stackSize it)) = uint ?q"
        using sint_small[OF ci(2)] by simp
      have "uint (i_reserve it) + uint ?q \<le> uint (i_quantity it)"
      proof (cases "stacks = 0")
        case True
        then show ?thesis using \<open>?go\<close> by (simp add: saleable_def)
      next
        case False
        then have "1 \<le> unat (i_quantity it)" using True stacks by (auto simp: saleable_def)
        then have "1 \<le> uint (i_quantity it)" unfolding uint_nat by linarith
        moreover have "i_reserve it = 0" using True by (simp add: saleable_def)
        ultimately show ?thesis using False by simp
      qed
      from UpdateItem_gave[OF T d(5) Some this] obtain ch1 where
        u: "UpdateItem LOC_INVENTORY ?slot (- uint ?q) False ?ch = (i_id it, ch1)" "gave T ?slot ?ch ch1"
        "\<forall>k. int (total_qty k ch1) = int (total_qty k ?ch) - (if i_id it = k then uint ?q else 0)" by blast
      have ch1: "char_ok T ch1" using u(2) by (simp add: gave_def)
      obtain g1 where g1: "bag ch1 0 = Some g1" using char_okD(4)[OF ch1] by blast
      have "i_reserve g1 = 0"
      proof (cases "?slot = 0")
        case True
        then obtain y where "bag ?ch 0 = Some y" "restocked y g1" using u(2) g1 by (auto simp: gave_def)
        moreover have "i_reserve it = 0" using \<open>?go\<close> by (simp add: saleable_def)
        ultimately show ?thesis using Some True restocked_fields(2) by auto
      next
        case False
        then have "g1 = gil" using u(2) g1 gil(1) by (simp add: gave_def)
        moreover have "\<not> 0 < i_reserve gil" using \<open>?go\<close> by blast
        ultimately show ?thesis by (auto simp: word_gt_0)
      qed
      from pay_gil[OF T ch1 g1 this fee(2)] obtain ch2 where
        v: "snd (UpdateItem LOC_INVENTORY 0 (- sint fee) False ch1) = ch2" "char_ok T ch2"
        "\<forall>k. int (total_qty k ch2) =
           int (total_qty k ch1) - (if k = 0xFFFF \<and> fee \<le> i_quantity g1 then uint fee else 0)" by blast
      let ?r = "listing (i_id it) ?stack price p"
      let ?a = "(list_row ?r h, (rows, p\<lparr>mc_char := ch2\<rparr>), s)"
      have eq: "ProofOfPurchase S ok used price idx stacks a = Some ?a"
      proof -
        have no: "(\<not> saleable stacks it \<or> used ?slot) = False"
          "(stacks = 0 \<and> (i_stackSize it = 1 \<or> i_stackSize it \<noteq> i_quantity it)) = False"
          "(i_quantity gil < fee \<or> 0 < i_reserve gil) = False"
          "((AH_LIST_LIMIT S \<noteq> 0 \<and> AH_LIST_LIMIT S \<le> ?count) \<or> \<not> ok 1) = False"
          using True by argo+
        show ?thesis
          unfolding ProofOfPurchase_def Let_def a_eq prod.case Some fee gil option.case no if_False neg u(1) snd_conv v(1)
          by (rule refl)
      qed
      obtain tpl where tpl: "spawn T (i_id it) = Some tpl" "i_stackSize it = i_stackSize tpl"
        using car by (auto simp: carried_ok_def)
      have row: "spawn T (ah_itemid ?r) \<noteq> None" "for_sale ?r" "ah_sale ?r = 0"
        using tpl by (simp_all add: listing_def for_sale_def)
      have lq: "listed T i ?r = (if i_id it = i then unat ?q else 0)" for i
        using tpl row(2) by (auto simp: listed_def listing_def lot_def)
      then have w: "int (worth T i ?a) =
          int (worth T i a) - (if i = 0xFFFF \<and> fee \<le> i_quantity g1 then uint fee else 0)" for i
      proof -
        let ?f = "if i = 0xFFFF \<and> fee \<le> i_quantity g1 then uint fee else 0"
        have on: "on_sale T i (list_row ?r h) = on_sale T i h + (if i_id it = i then unat ?q else 0)"
          unfolding list_row_ok(2)[OF d(1) row] lq ..
        have nat: "uint ?q = int (unat ?q)" by (rule uint_nat)
        have "int (total_qty i ch2) = int (total_qty i ?ch) - (if i_id it = i then uint ?q else 0) - ?f"
          using spec[OF u(3), of i] spec[OF v(3), of i] by presburger
        then have "int (on_sale T i (list_row ?r h)) + int (total_qty i ch2) = int (on_sale T i h) + int (total_qty i ?ch) - ?f"
          unfolding on nat by (rule sum_moves)
        then show ?thesis by (simp add: worth_def amount_def)
      qed
      have "int (worth T i ?a) \<le> int (worth T i a)" for i using w[of i] uint_ge_0[of fee] by (simp split: if_splits)
      then have "worth T i ?a \<le> worth T i a" for i by (simp only: of_nat_le_iff)
      moreover have "worth T i ?a = worth T i a" if "i \<noteq> 0xFFFF" for i using w[of i] that by simp
      moreover have "mail_ok T dir me (rows, p\<lparr>mc_char := ch2\<rparr>)"
        using d player_ok_char[OF d(3) v(2)] by (simp add: mail_ok_def)
      ultimately have "deals T dir me a ?a"
        using list_row_ok(1)[OF d(1) row] by (simp add: deals_def auction_ok_def)
      with eq show ?thesis by blast
    qed
  qed
qed

text \<open>A bid that finds a listing: what it does to the tables.\<close>

lemma bid_tables:
  assumes T: "templates_ok T" and h: "house_ok T h" and rows: "rows_ok T dir rows" and ch: "char_ok T ch"
    and gil: "bag ch 0 = Some gil" "bid \<le> i_quantity gil" and bid: "bid \<noteq> 0"
    and s: "sell_cheapest buyer ident stack bid (h, rows) = Some t"
  obtains r0 rows' where "t = (mark_sold buyer bid r0 h, rows')" "r0 \<in> set (house_rows h)" "wanted ident stack bid r0"
    "\<And>r. r \<in> set (house_rows h) \<Longrightarrow> wanted ident stack bid r \<Longrightarrow> ah_price r0 \<le> ah_price r"
    "house_ok T (mark_sold buyer bid r0 h)"
    "\<And>i. on_sale T i (mark_sold buyer bid r0 h) + (if i = ident then unat (lot T ident stack) else 0) = on_sale T i h"
    "rows_ok T dir rows'"
    "\<And>i. in_mail i rows' = in_mail i rows + (if i = 0xFFFF \<and> ah_seller r0 \<noteq> 0 then unat bid else 0)"
    "\<And>k p. player_ok T k rows p \<Longrightarrow> player_ok T k rows' p"
    "if ah_seller r0 = 0 then rows' = rows
     else \<exists>s \<ge> 8. rows' = rows @ [(payment (sold buyer bid r0))\<lparr>r_slot := s\<rparr>]"
proof -
  obtain r0 rows' where r: "t = (mark_sold buyer bid r0 h, rows')" "r0 \<in> set (house_rows h)" "wanted ident stack bid r0"
    "\<And>r. r \<in> set (house_rows h) \<Longrightarrow> wanted ident stack bid r \<Longrightarrow> ah_price r0 \<le> ah_price r"
    "auction_house_buy r0 (sold buyer bid r0) rows = Some rows'"
    using sell_cheapest_Some[OF s] by metis
  have "listed T i r0 = (if i = ident then unat (lot T ident stack) else 0)" for i
    using r(3) by (auto simp: wanted_def listed_def for_sale_def)
  then have sale: "on_sale T i (mark_sold buyer bid r0 h) + (if i = ident then unat (lot T ident stack) else 0) = on_sale T i h" for i
    using mark_sold_ok(2)[OF h r(2) bid] by metis
  show thesis
  proof (cases "ah_seller r0 = 0")
    case True
    then have "rows' = rows" using r(5) by (simp add: auction_house_buy_def)
    then show thesis
      using True rows by (intro that[OF r(1-4) mark_sold_ok(1)[OF h r(2) bid] sale]) simp_all
  next
    case False
    let ?m = "payment (sold buyer bid r0)"
    have ins: "insert_row ?m rows = Some rows'" using r(5) False bid by (simp add: auction_house_buy_def)
    have gid: "i_id gil = 0xFFFF" using char_okD(4)[OF ch] gil(1) by simp
    obtain tpl where tpl: "spawn T 0xFFFF = Some tpl" "i_stackSize gil = i_stackSize tpl"
      using char_okD(3)[OF ch gil(1)] gid by (auto simp: carried_ok_def)
    have "i_quantity gil \<le> i_stackSize gil" using char_okD(3)[OF ch gil(1)] by (simp add: carried_ok_def)
    then have "r_quantity ?m \<le> i_stackSize tpl" using gil(2) tpl(2) by (simp add: payment_def)
    moreover have "r_box ?m = 1" "\<not> r_sent ?m" "spawn T (r_itemid ?m) = Some tpl"
      using tpl(1) by (simp_all add: payment_def)
    ultimately have m: "rows_ok T dir rows'"
      "\<And>i. in_mail i rows' = in_mail i rows + (if r_itemid ?m = i then unat (r_quantity ?m) else 0)"
      "\<And>k p. player_ok T k rows p \<Longrightarrow> player_ok T k rows' p" "\<exists>s \<ge> 8. rows' = rows @ [?m\<lparr>r_slot := s\<rparr>]"
      using mail_arrives[OF rows ins] by blast+
    have "in_mail i rows' = in_mail i rows + (if i = 0xFFFF \<and> ah_seller r0 \<noteq> 0 then unat bid else 0)" for i
      using m(2)[of i] False by (simp add: payment_def)
    then show thesis
      using m(1,3,4) False by (intro that[OF r(1-4) mark_sold_ok(1)[OF h r(2) bid] sale]) simp_all
  qed
qed

text \<open>And what it does to the buyer, when the item can be stored.\<close>

lemma bid_bag:
  assumes T: "templates_ok T" "stackable T" and ch: "char_ok T ch" and tpl: "spawn T ident = Some tpl"
    and room: "GetFreeSlotsCount (storage ch LOC_INVENTORY) \<noteq> 0"
    and rare: "\<not> (hasFlag tpl FLAG_RARE \<and>
      (\<exists>l \<in> set [0..<MAX_CONTAINER_ID]. SearchItem ident (storage ch l) \<noteq> ERROR_SLOTID))"
    and gil: "bag ch 0 = Some gil" "bid \<le> i_quantity gil" "i_reserve gil = 0"
  obtains r ch1 ch2 where
    "AddItem T LOC_INVENTORY ident (if stack then i_stackSize tpl else 1) True ch = (r, ch1)" "r \<noteq> ERROR_SLOTID"
    "snd (UpdateItem LOC_INVENTORY 0 (- sint bid) False ch1) = ch2" "char_ok T ch2"
    "\<And>k. total_qty k ch2 + (if k = 0xFFFF then unat bid else 0) \<le>
       total_qty k ch + (if k = ident then unat (lot T ident stack) else 0)"
    "\<And>k. k \<noteq> 0xFFFF \<or> ident \<noteq> 0xFFFF \<Longrightarrow> total_qty k ch2 + (if k = 0xFFFF then unat bid else 0) =
       total_qty k ch + (if k = ident then unat (lot T ident stack) else 0)"
proof -
  let ?n = "if stack then i_stackSize tpl else 1"
  have nz: "i_stackSize tpl \<noteq> 0" using T(2) tpl by (auto simp: stackable_def)
  then have "1 \<le> i_stackSize tpl" by (simp add: word_le_nat_alt unat_gt_0 Suc_le_eq)
  then have n: "?n \<le> i_stackSize tpl" "?n \<noteq> 0" using nz by simp_all
  have lot: "lot T ident stack = ?n" using tpl by (simp add: lot_def)
  obtain r ch1 where c: "AddItem T LOC_INVENTORY ident ?n True ch = (r, ch1)" "char_ok T ch1"
    "\<forall>k. total_qty k ch1 \<le> total_qty k ch + (if r \<noteq> ERROR_SLOTID \<and> k = ident then unat ?n else 0)"
    "\<forall>k. k \<noteq> 0xFFFF \<or> ident \<noteq> 0xFFFF \<longrightarrow> total_qty k ch1 = total_qty k ch + (if r \<noteq> ERROR_SLOTID \<and> k = ident then unat ?n else 0)"
    "\<forall>g. bag ch 0 = Some g \<longrightarrow> (\<exists>g'. bag ch1 0 = Some g' \<and> restocked g g' \<and> i_quantity g \<le> i_quantity g')"
    using AddItem_adds[OF T(1) ch tpl n(1), of True] by blast
  have "\<not> (hasFlag tpl FLAG_RARE \<and> HasItem (i_id tpl) ch)"
    using rare templates_okD(1)[OF T(1) tpl] by (auto simp: HasItem_def)
  from AddItem_finds_room[OF ch tpl n(2) room this] have r: "r \<noteq> ERROR_SLOTID" using c(1) by simp
  obtain g1 where g1: "bag ch1 0 = Some g1" "restocked gil g1" "i_quantity gil \<le> i_quantity g1" using c(5) gil(1) by blast
  have res: "i_reserve g1 = 0" using restocked_fields(2)[OF g1(2)] gil(3) by simp
  have le: "bid \<le> i_quantity g1" using gil(2) g1(3) by simp
  have "uint (i_quantity g1) < 2 ^ 31"
    using carried_okD(1,2)[OF T(1) char_okD(3)[OF c(2) g1(1)]] by linarith
  then have "uint bid < 2 ^ 31" using le by (simp add: word_le_def)
  from pay_gil[OF T(1) c(2) g1(1) res this] obtain ch2 where
    v: "snd (UpdateItem LOC_INVENTORY 0 (- sint bid) False ch1) = ch2" "char_ok T ch2"
    "\<forall>k. int (total_qty k ch2) =
       int (total_qty k ch1) - (if k = 0xFFFF \<and> bid \<le> i_quantity g1 then uint bid else 0)" by blast
  have pay: "total_qty k ch2 + (if k = 0xFFFF then unat bid else 0) = total_qty k ch1" for k
  proof -
    have "int (total_qty k ch2 + (if k = 0xFFFF then unat bid else 0)) = int (total_qty k ch1)"
      using spec[OF v(3), of k] le by simp
    then show ?thesis by (simp only: of_nat_eq_iff)
  qed
  have gain: "total_qty k ch1 \<le> total_qty k ch + (if k = ident then unat (lot T ident stack) else 0)" for k
    using spec[OF c(3), of k] r by (simp add: lot split: if_splits)
  have exact: "total_qty k ch1 = total_qty k ch + (if k = ident then unat (lot T ident stack) else 0)"
    if "k \<noteq> 0xFFFF \<or> ident \<noteq> 0xFFFF" for k
    using that spec[OF c(4), of k] r by (simp add: lot split: if_splits)
  show thesis by (rule that[OF c(1) r v(1,2)]) (simp_all only: pay gain exact)
qed

text \<open>The conditions under which a bid reaches the tables.\<close>

definition may_bid :: "templates \<Rightarrow> uint32 \<Rightarrow> nat \<Rightarrow> character \<Rightarrow> bool" where
  "may_bid T bid ident ch \<longleftrightarrow> GetFreeSlotsCount (storage ch LOC_INVENTORY) \<noteq> 0 \<and>
     (\<exists>tpl. lookup T ident = Some tpl \<and> \<not> (hasFlag tpl FLAG_RARE \<and>
        (\<exists>l \<in> set [0..<MAX_CONTAINER_ID]. SearchItem ident (storage ch l) \<noteq> ERROR_SLOTID))) \<and>
     (\<exists>gil. bag ch 0 = Some gil \<and> isType gil ITEM_CURRENCY \<and> bid \<le> i_quantity gil \<and> i_reserve gil = 0)"

lemma PurchasingItems_idle:
  assumes "\<not> may_bid T bid ident (mc_char p) \<or>
    (if ok 0 then sell_cheapest (mc_name p) ident (stacks = 0) bid (h, rows) else None) = None"
  shows "PurchasingItems T ok bid ident stacks (h, (rows, p), s) = (False, h, (rows, p), s)"
proof -
  from assms show ?thesis
  proof (elim disjE)
    assume "\<not> may_bid T bid ident (mc_char p)"
    then show ?thesis unfolding may_bid_def PurchasingItems_def Let_def by (auto split: option.split)
  next
    assume none: "(if ok 0 then sell_cheapest (mc_name p) ident (stacks = 0) bid (h, rows) else None) = None"
    show ?thesis
      unfolding PurchasingItems_def Let_def prod.case none option.case by (auto split: option.split)
  qed
qed

lemma PurchasingItems_bids:
  assumes "GetFreeSlotsCount (storage (mc_char p) LOC_INVENTORY) \<noteq> 0" "lookup T ident = Some tpl"
    and "\<not> (hasFlag tpl FLAG_RARE \<and>
      (\<exists>l \<in> set [0..<MAX_CONTAINER_ID]. SearchItem ident (storage (mc_char p) l) \<noteq> ERROR_SLOTID))"
    and "bag (mc_char p) 0 = Some gil" "isType gil ITEM_CURRENCY" "bid \<le> i_quantity gil" "i_reserve gil = 0"
    and "ok 0" "sell_cheapest (mc_name p) ident (stacks = 0) bid (h, rows) = Some (h', rows')"
    and "AddItem T LOC_INVENTORY ident (if stacks = 0 then i_stackSize tpl else 1) (ok 1) (mc_char p) = (r, ch1)"
  shows "PurchasingItems T ok bid ident stacks (h, (rows, p), s) =
    (if r \<noteq> ERROR_SLOTID
     then (True, h', (rows', p\<lparr>mc_char := snd (UpdateItem LOC_INVENTORY 0 (- sint bid) False ch1)\<rparr>), s)
     else (False, h', (rows', p\<lparr>mc_char := ch1\<rparr>), s))"
proof -
  have no: "(GetFreeSlotsCount (storage (mc_char p) LOC_INVENTORY) = 0) = False"
    "(hasFlag tpl FLAG_RARE \<and>
      (\<exists>l \<in> set [0..<MAX_CONTAINER_ID]. SearchItem ident (storage (mc_char p) l) \<noteq> ERROR_SLOTID)) = False"
    "(\<not> (isType gil ITEM_CURRENCY \<and> bid \<le> i_quantity gil \<and> i_reserve gil = 0)) = False" "ok 0 = True"
    using assms(1,3,5-8) by blast+
  show ?thesis
    unfolding PurchasingItems_def Let_def prod.case assms(2,4) option.case no if_False if_True assms(9,10) ..
qed

lemma PurchasingItems_deals:
  assumes T: "templates_ok T" "stackable T" and a: "auction_ok T dir me a" and bid: "bid \<noteq> 0" and stored: "ok 1"
  shows "deals T dir me a (snd (PurchasingItems T ok bid ident stacks a))"
proof -
  obtain h rows p s where a_eq: "a = (h, (rows, p), s)" by (metis prod.exhaust)
  note d = auction_okD[OF a[unfolded a_eq]]
  let ?ch = "mc_char p" and ?lot = "lot T ident (stacks = 0)"
  let ?sale = "if ok 0 then sell_cheapest (mc_name p) ident (stacks = 0) bid (h, rows) else None"
  show ?thesis
  proof (cases "may_bid T bid ident ?ch \<and> ?sale \<noteq> None")
    case False
    then have "PurchasingItems T ok bid ident stacks a = (False, a)"
      unfolding a_eq by (intro PurchasingItems_idle) blast
    then show ?thesis using deals_refl[OF a] by simp
  next
    case True
    then obtain t where sc: "ok 0" "sell_cheapest (mc_name p) ident (stacks = 0) bid (h, rows) = Some t"
      by (auto split: if_splits)
    obtain tpl gil where c: "GetFreeSlotsCount (storage ?ch LOC_INVENTORY) \<noteq> 0" "lookup T ident = Some tpl"
      "\<not> (hasFlag tpl FLAG_RARE \<and>
        (\<exists>l \<in> set [0..<MAX_CONTAINER_ID]. SearchItem ident (storage ?ch l) \<noteq> ERROR_SLOTID))"
      "bag ?ch 0 = Some gil" "isType gil ITEM_CURRENCY" "bid \<le> i_quantity gil" "i_reserve gil = 0"
      using True unfolding may_bid_def by blast
    obtain r0 rows' where r: "t = (mark_sold (mc_name p) bid r0 h, rows')" "house_ok T (mark_sold (mc_name p) bid r0 h)"
      "\<And>i. on_sale T i (mark_sold (mc_name p) bid r0 h) + (if i = ident then unat ?lot else 0) = on_sale T i h"
      "rows_ok T dir rows'"
      "\<And>i. in_mail i rows' = in_mail i rows + (if i = 0xFFFF \<and> ah_seller r0 \<noteq> 0 then unat bid else 0)"
      "\<And>k p. player_ok T k rows p \<Longrightarrow> player_ok T k rows' p" "r0 \<in> set (house_rows h)" "wanted ident (stacks = 0) bid r0"
      by (rule bid_tables[OF T(1) d(1,2,5) c(4,6) bid sc(2)]) metis
    have "spawn T ident \<noteq> None" using r(7,8) d(1) by (auto simp: house_ok_def wanted_def)
    from lookup_spawn[OF c(2) this] have tpl: "spawn T ident = Some tpl" .
    obtain q ch1 ch2 where b:
      "AddItem T LOC_INVENTORY ident (if stacks = 0 then i_stackSize tpl else 1) True ?ch = (q, ch1)" "q \<noteq> ERROR_SLOTID"
      "snd (UpdateItem LOC_INVENTORY 0 (- sint bid) False ch1) = ch2" "char_ok T ch2"
      "\<And>k. total_qty k ch2 + (if k = 0xFFFF then unat bid else 0) \<le>
         total_qty k ?ch + (if k = ident then unat ?lot else 0)"
      "\<And>k. k \<noteq> 0xFFFF \<or> ident \<noteq> 0xFFFF \<Longrightarrow> total_qty k ch2 + (if k = 0xFFFF then unat bid else 0) =
         total_qty k ?ch + (if k = ident then unat ?lot else 0)"
      by (rule bid_bag[OF T d(5) tpl c(1,3,4,6,7), of "stacks = 0"]) metis
    let ?a = "(mark_sold (mc_name p) bid r0 h, (rows', p\<lparr>mc_char := ch2\<rparr>), s)"
    have "snd (PurchasingItems T ok bid ident stacks a) = ?a"
      using PurchasingItems_bids[where ok = ok, OF c sc(1) sc(2)[unfolded r(1)], of q ch1 s] b(1-3) stored by (simp add: a_eq)
    moreover have "worth T i ?a \<le> worth T i a" for i
      using r(3)[of i] r(5)[of i] b(5)[of i] by (simp add: worth_def amount_def a_eq split: if_splits)
    moreover have "worth T i ?a = worth T i a" if "i \<noteq> 0xFFFF" for i
      using r(3)[of i] r(5)[of i] b(6)[of i] that by (simp add: worth_def amount_def a_eq split: if_splits)
    moreover have "mail_ok T dir me (rows', p\<lparr>mc_char := ch2\<rparr>)"
      using r(4) r(6)[OF player_ok_char[OF d(3) b(4)]] by (simp add: mail_ok_def)
    ultimately show ?thesis
      using r(2,6) by (simp add: deals_def auction_ok_def a_eq)
  qed
qed

section \<open>The packet\<close>

text \<open>The one thing assumed of a packet: a bought item finds its place in the table of the bag.\<close>

lemma auc_process_deals:
  assumes T: "templates_ok T" "stackable T" and S: "rates_ok S" and a: "auction_ok T dir me a"
    and stored: "a_Command k = 14 \<longrightarrow> ok 1"
  shows "\<exists>a'. auc_process T S e ok k a = Some a' \<and> deals T dir me a a'"
proof (cases "auc_validate e k")
  case False
  then show ?thesis using deals_refl[OF a] by (simp add: auc_process_def)
next
  case True
  consider "a_Command k = 5" | "a_Command k = 11" | "a_Command k = 12" | "a_Command k = 14"
    | "a_Command k \<notin> {5, 11, 12, 14}" by blast
  then show ?thesis
  proof cases
    case 1
    then show ?thesis using True OpenListOfSales_deals[OF a] by (simp add: auc_process_def)
  next
    case 2
    then have "a_price k \<le> 999999999" "a_stacks k \<le> 1" using True by (simp_all add: auc_validate_def)
    from ProofOfPurchase_deals[OF T(1) S a this] show ?thesis using True 2 by (simp add: auc_process_def)
  next
    case 3
    then show ?thesis using True CancelSale_deals[OF T a] by (simp add: auc_process_def)
  next
    case 4
    then have "1 \<le> a_price k" using True by (simp add: auc_validate_def)
    then have "a_price k \<noteq> 0" by auto
    from PurchasingItems_deals[OF T a this] show ?thesis using True 4 stored by (simp add: auc_process_def)
  next
    case 5
    then show ?thesis using True deals_refl[OF a] by (simp add: auc_process_def)
  qed
qed

end
