(* ===== verification/PostOffice.thy ===== *)
theory PostOffice
  imports MailLaws
begin

text \<open>
  The delivery boxes of all players together: runs of packets, what an honest client can rely on,
  what a client that is not honest can do, what an honest one can lose, and the queue an inbox is.
\<close>

section \<open>The post office\<close>

text \<open>
  A client of the game sends the packets of its delivery box for the box it has opened and for
  the eight slots it shows.  Two more things are assumed of a delivery: that the statement that
  marks the sender's record comes back without an error, and that no slot number needs more than
  the byte it is read into.
\<close>

type_synonym pbx_input = "nat \<times> pbx_env \<times> (nat \<Rightarrow> bool) \<times> pbx_packet"

definition honest :: "post_office \<Rightarrow> pbx_input \<Rightarrow> bool" where
  "honest W s = (case s of (me, e, ok, p) \<Rightarrow>
     PostWorkNo p < 8 \<and>
     (Command p = 1 \<or> Command p = 10 \<longrightarrow>
        (IsSendBoxOpen (po_players W me) \<longrightarrow> BoxNo p = 2) \<and> (IsRecvBoxOpen (po_players W me) \<longrightarrow> BoxNo p = 1)) \<and>
     (Command p = 6 \<longrightarrow> ok 2 \<and> (\<forall>r \<in> set (po_rows W). r_slot r < 256)))"

text \<open>Packets that cannot destroy anything: throwing an item away, calling back what was never
  sent, and taking gil that does not fit.\<close>

definition careful :: "post_office \<Rightarrow> pbx_input \<Rightarrow> bool" where
  "careful W s = (case s of (me, e, ok, p) \<Rightarrow>
     Command p \<noteq> 11 \<and>
     (Command p = 4 \<longrightarrow> (\<forall>b. shown (po_players W me) (nat (PostWorkNo p)) = Some b \<longrightarrow> b_sent b)) \<and>
     (Command p = 10 \<longrightarrow> purse_room (po_players W me) (nat (PostWorkNo p))))"

fun po_run :: "templates \<Rightarrow> directory \<Rightarrow> pbx_input list \<Rightarrow> post_office \<Rightarrow> post_office option" where
  "po_run T dir [] W = Some W"
| "po_run T dir ((me, e, ok, p) # ss) W =
     (case pbx_step T dir e ok me p W of None \<Rightarrow> None | Some W' \<Rightarrow> po_run T dir ss W')"

fun along :: "(post_office \<Rightarrow> pbx_input \<Rightarrow> bool) \<Rightarrow> templates \<Rightarrow> directory \<Rightarrow> pbx_input list \<Rightarrow> post_office \<Rightarrow> bool" where
  "along C T dir [] W = True"
| "along C T dir ((me, e, ok, p) # ss) W =
     (C W (me, e, ok, p) \<and>
      (case pbx_step T dir e ok me p W of None \<Rightarrow> True | Some W' \<Rightarrow> along C T dir ss W'))"

definition office_ok :: "templates \<Rightarrow> directory \<Rightarrow> post_office \<Rightarrow> bool" where
  "office_ok T dir W \<longleftrightarrow> rows_ok T dir (po_rows W) \<and> (\<forall>k. player_ok T k (po_rows W) (po_players W k))"

definition wealth :: "nat set \<Rightarrow> nat \<Rightarrow> post_office \<Rightarrow> nat" where
  "wealth K i W = in_mail i (po_rows W) + (\<Sum>k \<in> K. total_qty i (mc_char (po_players W k)))"

lemma open_boxes:
  assumes "IsAnyDeliveryBoxOpen p" "IsSendBoxOpen p \<longrightarrow> box = 2" "IsRecvBoxOpen p \<longrightarrow> box = 1"
  shows "box = int (open_box p)"
  using assms by (auto simp: IsAnyDeliveryBoxOpen_def open_box_def)

lemma pbx_process_keeps:
  assumes T: "templates_ok T" and w: "mail_ok T dir me (po_rows W, po_players W me)"
    and h: "honest W (me, e, ok, p)"
  shows "\<exists>w'. pbx_process T dir e ok p (po_rows W, po_players W me) = Some w' \<and>
    keeps_less T dir me (po_rows W, po_players W me) w' \<and>
    (careful W (me, e, ok, p) \<longrightarrow> keeps T dir me (po_rows W, po_players W me) w')"
proof -
  let ?w = "(po_rows W, po_players W me)" and ?post = "nat (PostWorkNo p)"
  note refl = keeps_refl[OF w]
  have same: ?thesis if "pbx_process T dir e ok p ?w = Some w'" "keeps T dir me ?w w'" for w'
    using that keeps_less by blast
  show ?thesis
  proof (cases "pbx_validate e p \<and> (residential e \<or> gm e \<or> zone_allows e)")
    case False
    then show ?thesis by (intro same[OF _ refl]) (auto simp: pbx_process_def Let_def)
  next
    case True
    have post: "?post < 8" using h by (auto simp: honest_def)
    from True have "1 \<le> Command p" "Command p \<le> 15" by (simp_all add: pbx_validate_def)
    then have "Command p \<in> {1, 2, 3, 4, 5, 6, 7, 8, 9, 10, 11, 12, 13, 14, 15}"
      by (simp only: insert_iff empty_iff) presburger
    then consider "Command p \<in> {5, 8, 12}" | "Command p = 1" | "Command p = 2" | "Command p = 3" | "Command p = 4"
      | "Command p = 6" | "Command p = 7" | "Command p = 9" | "Command p = 10" | "Command p = 11"
      | "Command p \<in> {13, 14, 15}" by auto
    then show ?thesis
    proof cases
      case 1
      then show ?thesis using True by (intro same[OF _ refl]) (auto simp: pbx_process_def Let_def)
    next
      case 2
      have "IsAnyDeliveryBoxOpen (po_players W me) \<Longrightarrow> BoxNo p = int (open_box (po_players W me))"
        using h 2 by (intro open_boxes) (auto simp: honest_def)
      then have "keeps T dir me ?w (SendOldItems T ok (nat (BoxNo p)) ?w)"
        by (intro SendOldItems_keeps[OF T w]) simp
      then show ?thesis using True 2 by (intro same) (auto simp: pbx_process_def Let_def)
    next
      case 3
      from AddItemsToBeSent_keeps[OF T w post] show ?thesis
        using True 3 by (intro same) (auto simp: pbx_process_def Let_def)
    next
      case 4
      show ?thesis using True 4 SendConfirmation_keeps[OF T w]
        by (intro same) (auto simp: pbx_process_def Let_def)
    next
      case 5
      have "pbx_process T dir e ok p ?w = Some (CancelSendingItem dir ok ?post ?w)"
        using True 5 by (auto simp: pbx_process_def Let_def)
      then show ?thesis using CancelSendingItem_keeps[OF w, where ok = ok and post = ?post] 5 by (auto simp: careful_def)
    next
      case 6
      have "keeps T dir me ?w (SendNewItems T ok (BoxNo p) ?post ?w)"
        using h 6 by (intro SendNewItems_keeps[OF T w post]) (auto simp: honest_def)
      then show ?thesis using True 6 by (intro same) (auto simp: pbx_process_def Let_def)
    next
      case 7
      show ?thesis using True 7 RemoveDelivered_keeps[OF w]
        by (intro same) (auto simp: pbx_process_def Let_def)
    next
      case 8
      show ?thesis using True 8 ReturnToSender_keeps[OF w]
        by (intro same) (auto simp: pbx_process_def Let_def)
    next
      case 9
      have "IsAnyDeliveryBoxOpen (snd ?w) \<Longrightarrow> BoxNo p = int (open_box (snd ?w))"
        using h 9 by (intro open_boxes) (auto simp: honest_def)
      then show ?thesis
        using TakeItemFromCell_keeps[OF T w, where box = "BoxNo p" and ok = ok and post = ?post] True 9
        by (auto simp: pbx_process_def Let_def careful_def)
    next
      case 10
      have "pbx_process T dir e ok p ?w = Some (RemoveItemFromCell ok ?post ?w)"
        using True 10 by (auto simp: pbx_process_def Let_def)
      then show ?thesis using RemoveItemFromCell_keeps[OF w] 10 by (auto simp: careful_def)
    next
      case 11
      have "pbx_process T dir e ok p ?w = Some (po_rows W, OpenSendBox (po_players W me)) \<or>
        pbx_process T dir e ok p ?w = Some (po_rows W, OpenRecvBox (po_players W me)) \<or>
        pbx_process T dir e ok p ?w = Some (po_rows W, CloseMailWindow (po_players W me))"
        using True 11 by (auto simp: pbx_process_def Let_def)
      then show ?thesis using closed_ok[OF w] by (auto intro: keeps_less)
    qed
  qed
qed

lemma pbx_step_keeps:
  assumes T: "templates_ok T" and W: "office_ok T dir W" and h: "honest W (me, e, ok, p)"
    and K: "finite K" "me \<in> K"
  shows "\<exists>W'. pbx_step T dir e ok me p W = Some W' \<and> office_ok T dir W' \<and>
    (\<forall>i. wealth K i W' \<le> wealth K i W) \<and>
    (careful W (me, e, ok, p) \<longrightarrow> (\<forall>i. wealth K i W' = wealth K i W))"
proof -
  let ?w = "(po_rows W, po_players W me)"
  have w: "mail_ok T dir me ?w" using W by (simp add: mail_ok_def office_ok_def)
  obtain rows q where r: "pbx_process T dir e ok p ?w = Some (rows, q)" "keeps_less T dir me ?w (rows, q)"
    "careful W (me, e, ok, p) \<longrightarrow> keeps T dir me ?w (rows, q)"
    using pbx_process_keeps[OF T w h] by force
  let ?W = "\<lparr>po_rows = rows, po_players = (po_players W)(me := q)\<rparr>"
  have step: "pbx_step T dir e ok me p W = Some ?W" using r(1) by (simp add: pbx_step_def)
  have mine: "rows_ok T dir rows" "player_ok T me rows q" "others_kept me (po_rows W) rows"
    using r(2) by (simp_all add: keeps_less_def mail_ok_def)
  have "player_ok T k rows (po_players W k)" if "k \<noteq> me" for k
    using W by (intro other_player_ok[OF _ that mine(3)]) (simp add: office_ok_def)
  then have ok': "office_ok T dir ?W" using mine by (simp add: office_ok_def)
  have split: "wealth K i V = amount i (po_rows V, po_players V me) +
      (\<Sum>k \<in> K - {me}. total_qty i (mc_char (po_players V k)))" for i V
    using K by (simp add: wealth_def amount_def sum.remove[OF K])
  have rest: "(\<Sum>k \<in> K - {me}. total_qty i (mc_char (po_players ?W k))) =
      (\<Sum>k \<in> K - {me}. total_qty i (mc_char (po_players W k)))" for i
    by (rule sum.cong) auto
  have "\<forall>i. wealth K i ?W \<le> wealth K i W"
    using r(2) unfolding split rest by (simp add: keeps_less_def)
  moreover have "careful W (me, e, ok, p) \<longrightarrow> (\<forall>i. wealth K i ?W = wealth K i W)"
    using r(3) unfolding split rest by (simp add: keeps_def)
  ultimately show ?thesis using step ok' by blast
qed

section \<open>A sample post office\<close>

definition sample_dir :: directory where
  "sample_dir name = (if name = ''Ayame'' then Some (7, 1) else if name = ''Bob'' then Some (8, 2) else None)"

definition sample_office :: post_office where
  "sample_office = \<lparr>po_rows = [], po_players = (\<lambda>k. \<lparr>mc_id = k, mc_name = (if k = 7 then ''Ayame'' else ''Bob''),
     mc_accid = 1, mc_char = sample_char, mc_box = uc_empty\<rparr>)\<rparr>"

definition at_home :: pbx_env where
  "at_home = \<lparr>busy = False, jailed = False, residential = True, gm = False, zone_allows = False\<rparr>"

definition pbx :: "nat \<Rightarrow> int \<Rightarrow> int \<Rightarrow> int \<Rightarrow> int \<Rightarrow> string \<Rightarrow> pbx_packet" where
  "pbx c b s i n name = \<lparr>Command = c, BoxNo = b, PostWorkNo = s, ItemWorkNo = i, ItemStacks = n,
     Result = 0, ResParam1 = 0, ResParam2 = 0, ResParam3 = 0, TargetName = name\<rparr>"

lemma closed_box_ok: "box_ok T rows (p\<lparr>mc_box := uc_empty\<rparr>)"
  by (simp add: box_ok_def IsAnyDeliveryBoxOpen_def IsSendBoxOpen_def IsRecvBoxOpen_def uc_empty_def)

lemma sample_office_ok: "office_ok sample_templates sample_dir sample_office"
proof -
  have "box_ok T rows (po_players sample_office k)" for T rows k
    using closed_box_ok[of T rows "po_players sample_office k"] by (simp add: sample_office_def)
  then show ?thesis
    using sample_char_ok
    by (simp add: office_ok_def rows_ok_def promises_kept_def player_ok_def) (simp add: sample_office_def)
qed

section \<open>Nothing is created\<close>

lemma po_run_keeps:
  assumes T: "templates_ok T" and K: "finite K"
  shows "office_ok T dir W \<Longrightarrow> along honest T dir ss W \<Longrightarrow> fst ` set ss \<subseteq> K \<Longrightarrow>
    \<exists>W'. po_run T dir ss W = Some W' \<and> office_ok T dir W' \<and>
      (\<forall>i. wealth K i W' \<le> wealth K i W) \<and>
      (along careful T dir ss W \<longrightarrow> (\<forall>i. wealth K i W' = wealth K i W))"
proof (induction ss arbitrary: W)
  case (Cons s ss)
  obtain me e ok p where s: "s = (me, e, ok, p)" by (cases s) auto
  from Cons.prems(2,3) have h: "honest W (me, e, ok, p)" "me \<in> K" "fst ` set ss \<subseteq> K" by (auto simp: s)
  from pbx_step_keeps[OF T Cons.prems(1) h(1) K h(2)] obtain W1 where
    W1: "pbx_step T dir e ok me p W = Some W1" "office_ok T dir W1" "\<And>i. wealth K i W1 \<le> wealth K i W"
    "careful W (me, e, ok, p) \<Longrightarrow> \<forall>i. wealth K i W1 = wealth K i W" by blast
  from Cons.prems(2) W1(1) have "along honest T dir ss W1" by (simp add: s)
  from Cons.IH[OF W1(2) this h(3)] obtain W' where W': "po_run T dir ss W1 = Some W'" "office_ok T dir W'"
    "\<And>i. wealth K i W' \<le> wealth K i W1" "along careful T dir ss W1 \<Longrightarrow> \<forall>i. wealth K i W' = wealth K i W1"
    by blast
  have "along careful T dir (s # ss) W \<Longrightarrow> wealth K i W' = wealth K i W" for i
    using W1(1,4) W'(4) by (simp add: s)
  moreover have "wealth K i W' \<le> wealth K i W" for i using W1(3)[of i] W'(3)[of i] by simp
  ultimately show ?case using W1(1) W'(1,2) by (simp add: s)
qed simp


text \<open>Ayame sends two potions to Bob, who opens his inbox.\<close>

definition sample_run :: "pbx_input list" where
  "sample_run = [(7, at_home, \<lambda>_. True, pbx 13 (-1) (-1) (-1) (-1) []),
     (7, at_home, \<lambda>_. True, pbx 2 2 0 1 2 ''Bob''), (7, at_home, \<lambda>_. True, pbx 3 2 0 (-1) (-1) []),
     (8, at_home, \<lambda>_. True, pbx 14 (-1) (-1) (-1) (-1) [])]"


section \<open>What a client can do that is not honest\<close>

text \<open>
  The packet names the box an item is taken from, and nothing compares it with the box that is
  open.  C0: with the inbox open and the outbox named, the row of the outbox is deleted and the
  item the inbox shows is put into the bag, while its row stays in the inbox: the item has been
  copied, for the price of whatever lay unsent in that slot of the outbox.
\<close>

theorem dbox_cross_box_copies:
  assumes T: "templates_ok T" and w: "mail_ok T dir me w" and recv: "IsRecvBoxOpen (snd w)"
    and b: "shown (snd w) post = Some b" "\<not> isType (b_item b) ITEM_CURRENCY"
    and fits: "\<not> (hasFlag (b_item b) FLAG_RARE \<and> HasItem (i_id (b_item b)) (mc_char (snd w)))"
      "GetFreeSlotsCount (storage (mc_char (snd w)) LOC_INVENTORY) \<noteq> 0"
    and r1: "r1 \<in> set (fst w)" "in_slot me 1 post r1"
    and r2: "r2 \<in> set (fst w)" "in_slot me 2 post r2" "\<not> r_sent r2"
    and p: "pbx_validate e p" "residential e" "Command p = 10" "BoxNo p = 2" "PostWorkNo p = int post"
    and ok: "\<And>k. ok k"
  shows "\<exists>w'. pbx_process T dir e ok p w = Some w' \<and> r1 \<in> set (fst w') \<and> r2 \<notin> set (fst w') \<and>
    shown (snd w') post = None \<and>
    (\<forall>k. amount k w' + row_amount k r2 = amount k w + qty_of k (b_item b) \<and>
         row_amount k r1 = qty_of k (b_item b))"
proof -
  let ?rows = "fst w" and ?p = "snd w" and ?P = "takeable me 2 post"
  note d = mail_okD[OF w] and o1 = open_recv[OF recv]
  note sm = shown_mirrored[OF w conjunct2[OF open_recv[OF recv]] b(1)]
  have inv: "inventory_ok (mc_char ?p)" by (rule char_okD(1)[OF d(3)])
  then have bag: "store_ok (storage (mc_char ?p) LOC_INVENTORY)" by (simp add: inventory_ok_def)
  have ins: "fst (InsertItem (Some (b_item b)) (storage (mc_char ?p) LOC_INVENTORY)) \<noteq> ERROR_SLOTID"
    using containers.ins_succeeds_iff[OF bag, of "b_item b"] fits(2)
    by (simp add: ERROR_SLOTID_def unat_gt_0)
  obtain r ch where a: "AddItemObject LOC_INVENTORY (b_item b) True (mc_char ?p) = (r, ch)"
    "\<forall>k. total_qty k ch = total_qty k (mc_char ?p) + (if r = ERROR_SLOTID then 0 else qty_of k (b_item b))"
    using AddItem_item[OF d(3) _ b(2), of True] sm(2) by (auto simp: shown_ok_def)
  have r: "r \<noteq> ERROR_SLOTID"
    using a(1) ins b(2) fits(1) by (auto simp: AddItemObject_def Let_def split: prod.splits if_splits)
  have ex: "\<exists>r \<in> set ?rows. ?P r" using r2 by (auto simp: takeable_def)
  obtain x where x: "x \<in> set ?rows" "?P x"
    "\<And>i. in_mail i ?rows = row_amount i x + in_mail i (delete_first ?P ?rows)"
    "\<And>r'. r' \<in> set ?rows \<Longrightarrow> \<not> ?P r' \<Longrightarrow> r' \<in> set (delete_first ?P ?rows)"
    using number_delete_first[OF ex] by metis
  have x2: "x = r2" using same_key[OF d(5) x(1) r2(1)] x(2) r2(2) by (auto simp: takeable_def in_slot_key)
  from delete_first_split[OF ex] obtain xs y ys where
    s: "?rows = xs @ y # ys" "?P y" "delete_first ?P ?rows = xs @ ys" by blast
  have "y = r2" using same_key[OF d(5) _ r2(1), of y] s(1,2) r2(2) by (auto simp: takeable_def in_slot_key)
  then have "r2 \<notin> set (xs @ ys)" using d(5) unfolding s(1) by auto
  then have gone: "r2 \<notin> set (delete_first ?P ?rows)" by (simp only: s(3) not_False_eq_True)
  let ?w = "(delete_first ?P ?rows, show_item post None (?p\<lparr>mc_char := ch\<rparr>))"
  have "pbx_process T dir e ok p w = TakeItemFromCell ok 2 post w"
    using p by (simp add: pbx_process_def Let_def)
  also have "\<dots> = Some ?w"
    using o1 b fits(2) ok ex a(1) r sm(2) d(2) by (auto simp: TakeItemFromCell_def Let_def clone_def shown_ok_def)
  finally have run: "pbx_process T dir e ok p w = Some ?w" .
  have "mirrors 1 r1 b" using sm(3)[OF r1(1)] r1(2) o1 by simp
  then have "row_amount k r1 = qty_of k (b_item b)" for k
    using r1(2) by (auto simp: row_amount_def live_def qty_of_def mirrors_def in_slot_def)
  moreover have "amount k ?w + row_amount k r2 = amount k w + qty_of k (b_item b)" for k
    using a(2) r x(3)[of k] by (simp add: amount_def x2)
  moreover have "shown (show_item post None (?p\<lparr>mc_char := ch\<rparr>)) post = None"
    using d(4) o1 sm(1) by (subst shown_show_item) (auto simp: box_ok_def)
  moreover have "r1 \<in> set (delete_first ?P ?rows)"
    using r1 by (intro x(4)) (auto simp: takeable_def in_slot_def)
  ultimately show ?thesis using run gone by (intro exI[of _ ?w]) simp
qed

definition copier :: mail where
  "copier =
     ([\<lparr>r_charid = 7, r_charname = ''Ayame'', r_box = 1, r_slot = 0, r_itemid = 4096, r_quantity = 12,
        r_senderid = 8, r_sender = ''Bob'', r_received = False, r_sent = False\<rparr>,
       \<lparr>r_charid = 7, r_charname = ''Ayame'', r_box = 2, r_slot = 0, r_itemid = 4096, r_quantity = 1,
        r_senderid = 8, r_sender = ''Bob'', r_received = False, r_sent = False\<rparr>],
      \<lparr>mc_id = 7, mc_name = ''Ayame'', mc_accid = 1, mc_char = sample_char,
       mc_box = \<lparr>u_type = UCONTAINER_RECV_DELIVERYBOX, u_lock = False, u_count = 1, u_target = 0,
         u_items = Some \<lparr>b_item = potions 0 12, b_sender = ''Bob'', b_receiver = ''Ayame'', b_sent = False\<rparr> #
           replicate 15 None\<rparr>\<rparr>)"

lemma shown_copier:
  "shown (snd copier) s = (if s = 0 then Some \<lparr>b_item = potions 0 12, b_sender = ''Bob'',
     b_receiver = ''Ayame'', b_sent = False\<rparr> else None)"
  by (auto simp: copier_def shown_def uc_GetItem_def nth_Cons' nth_replicate)

lemma copier_recv: "IsRecvBoxOpen (snd copier)" "open_box (snd copier) = 1"
  by (simp_all add: copier_def IsRecvBoxOpen_def open_box_def IsSendBoxOpen_def)

lemma potion_fields:
  "i_id (potions s q) = 4096" "i_quantity (potions s q) = q" "i_stackSize (potions s q) = 12"
  "i_reserve (potions s q) = 0" "i_type (potions s q) = 2" "i_flag (potions s q) = 0"
  "i_stackSize potion = 12" "i_flag potion = 0"
  by (simp_all add: potions_def potion_def new_item_def ITEM_USABLE_def)

lemma copier_ok: "mail_ok sample_templates sample_dir 7 copier"
proof -
  have rows: "rows_ok sample_templates sample_dir (fst copier)"
    by (auto simp: rows_ok_def promises_kept_def copier_def row_key_def row_ok_def spawn_sample potion_fields
        sample_dir_def is_promise_def)
  have "shown_ok sample_templates \<lparr>b_item = potions 0 12, b_sender = ''Bob'', b_receiver = ''Ayame'', b_sent = False\<rparr>"
    by (simp add: shown_ok_def carried_ok_def potion_fields spawn_sample sample_types)
  then have "mirrored sample_templates (fst copier) (snd copier) s b" if "shown (snd copier) s = Some b" for s b
    using that by (auto simp: shown_copier mirrored_def copier_recv mirrors_def in_slot_def potion_fields
        split: if_splits) (auto simp: copier_def)
  then have "box_ok sample_templates (fst copier) (snd copier)"
    by (simp add: box_ok_def) (simp add: copier_def UCONTAINER_SIZE_def)
  then show ?thesis using rows sample_char_ok by (simp add: mail_ok_def player_ok_def) (simp add: copier_def)
qed

theorem dbox_cross_box_copies_witness:
  "\<exists>w'. pbx_process sample_templates sample_dir at_home (\<lambda>_. True) (pbx 10 2 0 (-1) (-1) []) copier = Some w' \<and>
     amount 4096 w' = amount 4096 copier + 11"
proof -
  let ?r1 = "fst copier ! 0" and ?r2 = "fst copier ! 1"
  let ?b = "\<lparr>b_item = potions 0 12, b_sender = ''Bob'', b_receiver = ''Ayame'', b_sent = False\<rparr>"
  let ?p = "pbx 10 2 0 (-1) (-1) []"
  have b: "shown (snd copier) 0 = Some ?b" "\<not> isType (b_item ?b) ITEM_CURRENCY"
    "\<not> (hasFlag (b_item ?b) FLAG_RARE \<and> HasItem (i_id (b_item ?b)) (mc_char (snd copier)))"
    by (simp_all add: shown_copier sample_types hasFlag_def potion_fields)
  have free: "GetFreeSlotsCount (storage (mc_char (snd copier)) LOC_INVENTORY) \<noteq> 0"
    by (simp add: copier_def sample_char_def LOC_INVENTORY_def GetFreeSlotsCount_def sample_bag_fields)
  have r: "?r1 \<in> set (fst copier)" "in_slot 7 1 0 ?r1" "?r2 \<in> set (fst copier)" "in_slot 7 2 0 ?r2" "\<not> r_sent ?r2"
    by (simp_all add: copier_def in_slot_def)
  have p: "pbx_validate at_home ?p" "residential at_home" "Command ?p = 10" "BoxNo ?p = 2" "PostWorkNo ?p = int 0"
    by (simp_all add: pbx_validate_def at_home_def pbx_def)
  from dbox_cross_box_copies[OF sample_templates_ok copier_ok copier_recv(1) b free r p TrueI] obtain w' where
    w': "pbx_process sample_templates sample_dir at_home (\<lambda>_. True) ?p copier = Some w'"
      "\<forall>k. amount k w' + row_amount k ?r2 = amount k copier + qty_of k (b_item ?b) \<and>
         row_amount k ?r1 = qty_of k (b_item ?b)"
    by blast
  have n: "row_amount 4096 ?r2 = 1" "qty_of 4096 (b_item ?b) = 12"
    by (simp_all add: copier_def row_amount_def live_def qty_of_def potion_fields)
  have "amount 4096 w' + row_amount 4096 ?r2 = amount 4096 copier + qty_of 4096 (b_item ?b)"
    using w'(2) by blast
  then have "amount 4096 w' = amount 4096 copier + 11" unfolding n by linarith
  with w'(1) show ?thesis by blast
qed

lemma dequeue_in_place:
  assumes "distinct (map row_key rows)" "\<And>r. r \<in> set rows \<Longrightarrow> r_charid r = me \<Longrightarrow> r_box r = 1 \<Longrightarrow> r_slot r \<le> s"
    "\<And>k. ok k"
  shows "dequeue ok me s s rows = Some rows"
proof -
  have "map (\<lambda>r. if r_charid r = me \<and> r_box r = 1 \<and> r_slot r = s then r\<lparr>r_slot := s\<rparr> else r) rows = rows"
    by (rule map_idI) auto
  then have one: "move_rows (\<lambda>r. r_charid r = me \<and> r_box r = 1 \<and> r_slot r = s) (\<lambda>_. s) rows = Some rows"
    unfolding move_rows_def Let_def using assms(1) by (simp only: if_True)
  have "map (\<lambda>r. if r_charid r = me \<and> r_box r = 1 \<and> s < r_slot r then r\<lparr>r_slot := r_slot r - 1\<rparr> else r) rows = rows"
    by (rule map_idI) (use assms(2) in force)
  then have two: "move_rows (\<lambda>r. r_charid r = me \<and> r_box r = 1 \<and> s < r_slot r) (\<lambda>s. s - 1) rows = Some rows"
    unfolding move_rows_def Let_def using assms(1) by (simp only: if_True)
  show ?thesis unfolding dequeue_def one using assms(3) two by (simp only: if_True option.case)
qed

text \<open>
  The packet may name slot 8, which is the first slot of the queue: taking the only waiting
  parcel there shows it and leaves its row in the queue, so that it can be taken out once more.
\<close>

lemma slot_eight_stays_queued:
  assumes "IsRecvBoxOpen (snd w)" "inbox_queue (mc_id (snd w)) (fst w) = [r0]" "r_slot r0 = 8"
    "distinct (map row_key (fst w))" "spawn T (r_itemid r0) = Some tpl" "uc_IsSlotEmpty 8 (mc_box (snd w))"
    "\<And>k. ok k"
  shows "\<exists>b. snd (SendNewItems T ok 1 8 w) = show_item 8 (Some b) (snd w) \<and> i_id (b_item b) = i_id tpl \<and>
    inbox_queue (mc_id (snd w)) (fst (SendNewItems T ok 1 8 w)) = [r0]"
proof -
  let ?me = "mc_id (snd w)" and ?it = "(setQuantity (r_quantity r0) tpl)\<lparr>i_slotID := 8\<rparr>"
  let ?P = "\<lambda>r. r_senderid r = ?me \<and> r_charid r = r_senderid r0 \<and> r_box r = 2 \<and> \<not> r_received r \<and>
      r_quantity r = i_quantity ?it \<and> r_sent r \<and> r_itemid r = i_id ?it"
  let ?m = "update_first ?P (\<lambda>r. r\<lparr>r_received := True\<rparr>) (fst w)"
  have same: "inbox_queue ?me ?m = inbox_queue ?me (fst w)" and keys: "map row_key ?m = map row_key (fst w)"
  proof -
    have "filter (\<lambda>r. 8 \<le> r_slot r) (box_rows ?me 1 (update_first ?P (\<lambda>r. r\<lparr>r_received := True\<rparr>) rows)) =
        filter (\<lambda>r. 8 \<le> r_slot r) (box_rows ?me 1 rows)" for rows
      by (induction rows) (auto simp: box_rows_def)
    then show "inbox_queue ?me ?m = inbox_queue ?me (fst w)" by (simp add: inbox_queue_def)
    have "map row_key (update_first ?P (\<lambda>r. r\<lparr>r_received := True\<rparr>) rows) = map row_key rows" for rows
      by (induction rows) auto
    then show "map row_key ?m = map row_key (fst w)" .
  qed
  have only: "r = r0" if "r \<in> set ?m" "r_charid r = ?me" "r_box r = 1" "8 \<le> r_slot r" for r
  proof -
    have "r \<in> set (inbox_queue ?me ?m)" using that by (simp add: inbox_queue_def by_slot_def box_rows_def)
    then show ?thesis unfolding same assms(2) by simp
  qed
  have dist: "distinct (map row_key ?m)" unfolding keys by (rule assms(4))
  have at8: "r_slot r \<le> 8" if "r \<in> set ?m" "r_charid r = ?me" "r_box r = 1" for r
    using only[OF that] assms(3) by (cases "8 \<le> r_slot r") auto
  have "dequeue ok ?me 8 8 ?m = Some ?m" by (rule dequeue_in_place[OF dist at8 assms(7)])
  then have "SendNewItems T ok 1 8 w = (?m, show_item 8 (Some \<lparr>b_item = ?it, b_sender = r_sender r0,
      b_receiver = [], b_sent = False\<rparr>) (snd w))"
    using assms by (simp add: SendNewItems_def Let_def)
  then show ?thesis using same assms(2) by (intro exI) auto
qed

section \<open>What an honest client can lose\<close>

text \<open>Calling back an item that was never sent off deletes its row.\<close>

lemma cancel_of_unsent_loses:
  assumes w: "mail_ok T dir me w" and s: "IsSendBoxOpen (snd w)" "shown (snd w) post = Some b" "\<not> b_sent b"
    and r: "r \<in> set (fst w)" "in_slot me 2 post r" and ok: "ok 3"
  shows "amount k (CancelSendingItem dir ok post w) + qty_of k (b_item b) = amount k w"
proof -
  note d = mail_okD[OF w] and o2 = open_send[OF s(1)]
  have mir: "mirrors 2 r b" using shown_mirrored(3)[OF w conjunct2[OF o2] s(2) r(1)] r(2) o2 by simp
  have "r' = r" if "r' \<in> set (fst w)" "recallable me post r'" for r'
    using same_key[OF d(5) that(1) r(1)] that(2) r(2) by (simp add: recallable_def in_slot_key row_key_def)
  then have "\<not> (\<exists>r' \<in> set (fst w). recallable me post r')"
    using mir s(3) r(2) by (auto simp: recallable_def mirrors_def)
  then have none: "cancel_sent ok me to post (b_item b) (fst w) = None" for to by (simp add: cancel_sent_def)
  let ?P = "orphan me post (b_item b)"
  have res: "CancelSendingItem dir ok post w = (delete_first ?P (fst w), snd w)"
    using s none d(2) ok by (simp add: CancelSendingItem_def)
  have "?P r" using mir r(2) by (simp add: orphan_def mirrors_def in_slot_def)
  then have ex: "\<exists>r \<in> set (fst w). ?P r" using r(1) by blast
  obtain x where x: "x \<in> set (fst w)" "?P x" "in_mail k (fst w) = row_amount k x + in_mail k (delete_first ?P (fst w))"
    using number_delete_first[OF ex] by metis
  have "x = r" using same_key[OF d(5) x(1) r(1)] x(2) r(2) by (simp add: orphan_def in_slot_key row_key_def)
  then have "row_amount k x = qty_of k (b_item b)"
    using mir s(3) by (auto simp: mirrors_def row_amount_def live_def qty_of_def)
  then show ?thesis using x(3) by (simp add: res amount_def)
qed

text \<open>Gil that does not fit into the purse is taken out of the box and vanishes.\<close>

lemma gil_over_the_limit_vanishes:
  assumes T: "templates_ok T" and w: "mail_ok T dir me w"
    and b: "IsAnyDeliveryBoxOpen (snd w)" "shown (snd w) post = Some b" "isType (b_item b) ITEM_CURRENCY"
    and g: "GetItem 0 (storage (mc_char (snd w)) LOC_INVENTORY) = Some g"
      "i_stackSize g < i_quantity g - i_reserve g + i_quantity (b_item b)"
    and r: "\<exists>r \<in> set (fst w). takeable me (int (open_box (snd w))) post r" and ok: "\<And>k. ok k"
  shows "\<exists>w'. TakeItemFromCell ok (int (open_box (snd w))) post w = Some w' \<and>
    amount k w' + qty_of k (b_item b) = amount k w \<and> mc_char (snd w') = mc_char (snd w)"
proof -
  let ?box = "int (open_box (snd w))" and ?P = "takeable me (int (open_box (snd w))) post"
  note d = mail_okD[OF w] and sm = shown_mirrored[OF w b(1,2)]
  have car: "carried_ok T (b_item b)" using sm(2) by (simp add: shown_ok_def)
  have sint: "sint (i_quantity (b_item b)) = uint (i_quantity (b_item b))"
    using carried_okD(1,2)[OF T car] by (intro sint_small) linarith
  have upd: "snd (UpdateItem LOC_INVENTORY 0 (uint (i_quantity (b_item b))) False (mc_char (snd w))) = mc_char (snd w)"
    using g by (simp add: UpdateItem_def)
  have add: "AddItemObject LOC_INVENTORY (b_item b) (ok 2) (mc_char (snd w)) = (0, mc_char (snd w))"
    using b(3) upd by (simp add: AddItemObject_def sint)
  have res: "TakeItemFromCell ok ?box post w = Some (delete_first ?P (fst w), show_item post None (snd w))"
    using b r ok add d(2) sm(2) by (auto simp: TakeItemFromCell_def Let_def clone_def shown_ok_def ERROR_SLOTID_def
        open_box_def)
  obtain x where x: "x \<in> set (fst w)" "?P x" "in_mail k (fst w) = row_amount k x + in_mail k (delete_first ?P (fst w))"
    using number_delete_first[OF r] by metis
  have "mirrors (open_box (snd w)) x b" using sm(3)[OF x(1)] x(2) by (simp add: takeable_def)
  then have "row_amount k x = qty_of k (b_item b)"
    using x(2) by (auto simp: takeable_def mirrors_def row_amount_def live_def qty_of_def in_slot_def open_box_def
        split: if_splits)
  then show ?thesis using res x(3) by (intro exI[of _ "(delete_first ?P (fst w), show_item post None (snd w))"])
    (simp add: amount_def)
qed

section \<open>The inbox is a queue\<close>

lemma insort_last:
  "\<forall>y \<in> set ys. f y \<le> f x \<Longrightarrow> f z \<le> f x \<Longrightarrow> insort_key f z (ys @ [x]) = insort_key f z ys @ [x]"
  by (induction ys) auto

lemma sort_key_snoc: "\<forall>y \<in> set xs. f y \<le> f x \<Longrightarrow> sort_key f (xs @ [x]) = sort_key f xs @ [x]"
  by (induction xs) (simp_all add: insort_last)

lemma sort_key_map: "sort_key f (map g xs) = map g (sort_key (\<lambda>x. f (g x)) xs)"
proof -
  have "insort_key f (g x) (map g ys) = map g (insort_key (\<lambda>x. f (g x)) x ys)" for x ys
    by (induction ys) auto
  then show ?thesis by (induction xs) simp_all
qed

lemma sort_key_same_order:
  assumes "\<And>x y. x \<in> set xs \<Longrightarrow> y \<in> set xs \<Longrightarrow> f x \<le> f y \<longleftrightarrow> g x \<le> g y"
  shows "sort_key f xs = sort_key g xs"
  using assms
proof (induction xs)
  case (Cons a xs)
  have "insort_key f a ys = insort_key g a ys" if "set ys \<subseteq> set xs" for ys
    using that Cons.prems by (induction ys) auto
  then show ?case using Cons by simp
qed simp

definition letter :: "box_row \<Rightarrow> nat \<times> uint32 \<times> string" where
  "letter r = (r_itemid r, r_quantity r, r_sender r)"

definition letters :: "nat \<Rightarrow> box_row list \<Rightarrow> (nat \<times> uint32 \<times> string) list" where
  "letters c rows = map letter (inbox_queue c rows)"

definition waiting :: "nat \<Rightarrow> box_row list \<Rightarrow> box_row list" where
  "waiting c rows = filter (\<lambda>r. 8 \<le> r_slot r) (box_rows c 1 rows)"

lemma inbox_queue_waiting: "inbox_queue c rows = sort_key r_slot (waiting c rows)"
  by (simp add: inbox_queue_def by_slot_def waiting_def)

lemma waiting_simps:
  "waiting c (rows @ rows') = waiting c rows @ waiting c rows'"
  "waiting c (r # rows) = (if r_charid r = c \<and> r_box r = 1 \<and> 8 \<le> r_slot r then r # waiting c rows else waiting c rows)"
  "waiting c [] = []"
  by (simp_all add: waiting_def box_rows_def)

lemma waiting_marked: "waiting c (marked me r0 rows) = waiting c rows"
proof -
  have "waiting c (update_first (is_promise a b i q) (\<lambda>r. r\<lparr>r_received := True\<rparr>) zs) = waiting c zs" for a b i q zs
    by (induction zs) (auto simp: waiting_simps is_promise_def)
  then show ?thesis by (simp add: marked_def)
qed

text \<open>A new parcel goes to the back.\<close>

lemma queue_push:
  assumes "insert_row r rows = Some rows'" "r_box r = 1"
  shows "letters c rows' = letters c rows @ (if r_charid r = c then [letter r] else [])"
proof -
  obtain s where s: "rows' = rows @ [r\<lparr>r_slot := s\<rparr>]" "8 \<le> s" "\<forall>r' \<in> set (box_rows (r_charid r) 1 rows). r_slot r' < s"
    using assms by (rule_tac insert_row_appends[OF assms(1)]) auto
  have l: "letter (r\<lparr>r_slot := s\<rparr>) = letter r" by (simp add: letter_def)
  show ?thesis
  proof (cases "r_charid r = c")
    case True
    have "\<forall>r' \<in> set (waiting c rows). r_slot r' \<le> r_slot (r\<lparr>r_slot := s\<rparr>)"
      using s(3) True by (auto simp: waiting_def intro: less_imp_le)
    then have "sort_key r_slot (waiting c rows @ [r\<lparr>r_slot := s\<rparr>]) =
        sort_key r_slot (waiting c rows) @ [r\<lparr>r_slot := s\<rparr>]" by (rule sort_key_snoc)
    then show ?thesis using True assms(2) s(2)
      by (simp add: letters_def inbox_queue_waiting s(1) waiting_simps l)
  next
    case False
    then show ?thesis by (simp add: letters_def inbox_queue_waiting s(1) waiting_simps)
  qed
qed

text \<open>A delivery takes the parcel at the front and closes up.\<close>

lemma waiting_distinct: "distinct (map row_key rows) \<Longrightarrow> distinct (map r_slot (waiting c rows))"
  by (auto simp: distinct_map waiting_def box_rows_def inj_on_def row_key_def)

lemma waiting_advance:
  assumes "post < 8" "8 \<le> queue"
  shows "waiting me (map (advance me post queue) rows) =
      map (\<lambda>r. r\<lparr>r_slot := r_slot r - 1\<rparr>) (filter (\<lambda>r. queue < r_slot r) (waiting me rows)) \<or>
    (\<exists>r \<in> set (waiting me rows). r_slot r < queue)"
    "c \<noteq> me \<Longrightarrow> waiting c (map (advance me post queue) rows) = waiting c rows"
proof -
  show "waiting me (map (advance me post queue) rows) =
      map (\<lambda>r. r\<lparr>r_slot := r_slot r - 1\<rparr>) (filter (\<lambda>r. queue < r_slot r) (waiting me rows)) \<or>
    (\<exists>r \<in> set (waiting me rows). r_slot r < queue)"
    using assms by (induction rows) (auto simp: waiting_simps advance_def)
  show "waiting c (map (advance me post queue) rows) = waiting c rows" if "c \<noteq> me"
    using that by (induction rows) (auto simp: waiting_simps advance_def)
qed

lemma queue_pop:
  assumes "distinct (map row_key rows)" "inbox_queue me rows = r0 # rest" "post < 8"
    "dequeue ok me post (r_slot r0) (marked me r0 rows) = Some rows2"
  shows "letters me rows = letter r0 # letters me rows2" "c \<noteq> me \<Longrightarrow> letters c rows2 = letters c rows"
proof -
  note f = queue_first[OF assms(2)]
  have lt: "post < r_slot r0" using f(4) assms(3) by simp
  let ?W = "waiting me rows" and ?P = "\<lambda>r. r_slot r0 < r_slot r" and ?dec = "\<lambda>r. r\<lparr>r_slot := r_slot r - 1\<rparr>"
  note rows2 = dequeue_map(1)[OF assms(4) lt]
  have sorted: "sorted (map r_slot (r0 # rest))" "distinct (map r_slot (r0 # rest))"
    unfolding assms(2)[symmetric] inbox_queue_waiting
    using waiting_distinct[OF assms(1), of me] by (simp_all add: distinct_map)
  have above: "?P r" if "r \<in> set rest" for r
    using sorted that by (force simp: order_less_le)
  have "filter ?P (r0 # rest) = rest" using above by (simp add: filter_id_conv)
  then have rest: "rest = sort_key r_slot (filter ?P ?W)"
    unfolding assms(2)[symmetric] inbox_queue_waiting filter_sort[symmetric] by simp
  have none: "\<not> (\<exists>r \<in> set ?W. r_slot r < r_slot r0)"
    using f(5) by (auto simp: waiting_def box_rows_def not_less)
  have "waiting me rows2 = map ?dec (filter ?P ?W)"
    using waiting_advance(1)[OF assms(3) f(4), of me "marked me r0 rows"] none
    by (simp add: rows2 waiting_marked)
  moreover have "sort_key (\<lambda>r. r_slot (?dec r)) (filter ?P ?W) = sort_key r_slot (filter ?P ?W)"
    by (rule sort_key_same_order) auto
  ultimately have "inbox_queue me rows2 = map ?dec rest"
    by (simp add: inbox_queue_waiting sort_key_map rest)
  then show "letters me rows = letter r0 # letters me rows2"
    by (simp add: letters_def assms(2) letter_def)
  show "letters c rows2 = letters c rows" if "c \<noteq> me"
    using waiting_advance(2)[OF assms(3) f(4) that] by (simp add: letters_def inbox_queue_waiting rows2 waiting_marked)
qed

text \<open>
  C25: the inbox is a queue.  Whatever holes recalled parcels leave in the slots of the table, a
  new parcel joins the queue of its receiver behind all that wait and leaves the others' queues
  alone; and a delivery that happens shows exactly the parcel that has waited longest, and the
  queue that is left is the rest in the same order.
\<close>

theorem inbox_is_a_queue:
  fixes box :: int
  assumes T: "templates_ok T" and w: "mail_ok T dir me w"
    and post: "post < 8" and mark: "ok 2" and short: "\<forall>r \<in> set (fst w). r_slot r < 256"
  defines "w' \<equiv> SendNewItems T ok box post w"
  shows "(\<forall>r rows'. r_box r = 1 \<longrightarrow> insert_row r (fst w) = Some rows' \<longrightarrow>
      letters c rows' = letters c (fst w) @ (if r_charid r = c then [letter r] else [])) \<and>
    (w' \<noteq> w \<longrightarrow> (\<exists>b. shown (snd w') post = Some b \<and>
        letters me (fst w) = (i_id (b_item b), i_quantity (b_item b), b_sender b) # letters me (fst w') \<and>
        (c \<noteq> me \<longrightarrow> letters c (fst w') = letters c (fst w))))"
proof (intro conjI impI)
  show "\<forall>r rows'. r_box r = 1 \<longrightarrow> insert_row r (fst w) = Some rows' \<longrightarrow>
      letters c rows' = letters c (fst w) @ (if r_charid r = c then [letter r] else [])"
    using queue_push by blast
  assume "w' \<noteq> w"
  note d = mail_okD[OF w]
  obtain r0 rest rows2 b where g: "IsRecvBoxOpen (snd w)" "inbox_queue me (fst w) = r0 # rest"
    "dequeue ok me post (r_slot r0) (marked me r0 (fst w)) = Some rows2"
    "w' = (rows2, show_item post (Some b) (snd w))"
    "i_id (b_item b) = r_itemid r0" "i_quantity (b_item b) = r_quantity r0" "b_sender b = r_sender r0"
    using SendNewItems_delivers[where ok = ok and post = post and box = box, OF T w post mark]
      short \<open>w' \<noteq> w\<close> unfolding w'_def by metis
  note pop = queue_pop[OF d(5) g(2) post g(3)]
  have "shown (show_item post (Some b) (snd w)) post = Some b"
    using d(4) open_recv[OF g(1)] post by (subst shown_show_item) (auto simp: box_ok_def)
  then show "\<exists>b. shown (snd w') post = Some b \<and>
        letters me (fst w) = (i_id (b_item b), i_quantity (b_item b), b_sender b) # letters me (fst w') \<and>
        (c \<noteq> me \<longrightarrow> letters c (fst w') = letters c (fst w))"
    using g(4-7) pop by (auto simp: letter_def)
qed

text \<open>Two parcels wait, the older one in the lower slot.\<close>

definition queueing :: mail where
  "queueing =
     ([\<lparr>r_charid = 7, r_charname = ''Ayame'', r_box = 1, r_slot = 10, r_itemid = 4096, r_quantity = 2,
        r_senderid = 8, r_sender = ''Bob'', r_received = False, r_sent = False\<rparr>,
       \<lparr>r_charid = 7, r_charname = ''Ayame'', r_box = 1, r_slot = 8, r_itemid = 4096, r_quantity = 3,
        r_senderid = 9, r_sender = ''Carl'', r_received = False, r_sent = False\<rparr>],
      OpenRecvBox \<lparr>mc_id = 7, mc_name = ''Ayame'', mc_accid = 1, mc_char = sample_char, mc_box = uc_empty\<rparr>)"

lemma queueing_ok: "mail_ok sample_templates sample_dir 7 queueing"
proof -
  let ?p = "\<lparr>mc_id = 7, mc_name = ''Ayame'', mc_accid = 1, mc_char = sample_char, mc_box = uc_empty\<rparr>"
  have "rows_ok sample_templates sample_dir (fst queueing)"
    by (auto simp: rows_ok_def promises_kept_def queueing_def row_key_def row_ok_def spawn_sample potion_fields
        is_promise_def)
  moreover have "box_ok T rows ?p" for T rows
    using closed_box_ok[of T rows ?p] by simp
  ultimately have "mail_ok sample_templates sample_dir 7 (fst queueing, ?p)"
    using sample_char_ok by (simp add: mail_ok_def player_ok_def)
  from closed_ok(2)[OF this] show ?thesis by (simp add: keeps_def queueing_def)
qed

theorem inbox_is_a_queue_witness:
  "letters 7 (fst queueing) = [(4096, 3, ''Carl''), (4096, 2, ''Bob'')] \<and>
   letters 7 (fst (SendNewItems sample_templates (\<lambda>_. True) 1 0 queueing)) = [(4096, 2, ''Bob'')]"
proof -
  let ?w' = "SendNewItems sample_templates (\<lambda>_. True) 1 0 queueing"
  have before: "letters 7 (fst queueing) = [(4096, 3, ''Carl''), (4096, 2, ''Bob'')]"
    by (simp add: letters_def inbox_queue_waiting waiting_simps queueing_def letter_def)
  have "r_slot (fst ?w' ! 0) = 9"
    by (simp add: SendNewItems_def Let_def inbox_queue_waiting waiting_simps queueing_def spawn_sample dequeue_def
        move_rows_def row_key_def IsRecvBoxOpen_def OpenRecvBox_def uc_SetType_def uc_empty_def uc_IsSlotEmpty_def
        UCONTAINER_SIZE_def)
  then have ne: "?w' \<noteq> queueing" by (auto simp: queueing_def)
  have short: "\<forall>r \<in> set (fst queueing). r_slot r < 256" by (simp add: queueing_def)
  have zero: "(0 :: nat) < 8" by simp
  have "\<exists>x. letters 7 (fst queueing) = x # letters 7 (fst ?w')"
    using conjunct2[OF inbox_is_a_queue[where c = 7 and ok = "\<lambda>_. True" and box = 1,
        OF sample_templates_ok queueing_ok zero TrueI short], THEN mp, OF ne] by auto
  with before show ?thesis by auto
qed

end
