(* ===== verification/Market.thy ===== *)
theory Market
  imports AuctionLaws PostOffice
begin

text \<open>
  The market: every player's auction packets and delivery box packets in any order.  Listings,
  mail and bags together account for every item; a bid buys the cheapest listing it covers; and
  what happens when the item that was bought cannot be stored.
\<close>

section \<open>Runs of packets\<close>

datatype market_input =
    Mailing pbx_input
  | Dealing nat auc_env "nat \<Rightarrow> bool" auc_packet

fun market_step ::
  "templates \<Rightarrow> ah_settings \<Rightarrow> directory \<Rightarrow> market_input \<Rightarrow> market \<Rightarrow> market option" where
  "market_step T S dir (Mailing (me, e, ok, p)) M =
     map_option (\<lambda>W. M\<lparr>mk_office := W\<rparr>) (pbx_step T dir e ok me p (mk_office M))"
| "market_step T S dir (Dealing me e ok k) M = auc_step T S e ok me k M"

fun market_run ::
  "templates \<Rightarrow> ah_settings \<Rightarrow> directory \<Rightarrow> market_input list \<Rightarrow> market \<Rightarrow> market option" where
  "market_run T S dir [] M = Some M"
| "market_run T S dir (x # xs) M =
     (case market_step T S dir x M of None \<Rightarrow> None | Some M' \<Rightarrow> market_run T S dir xs M')"

fun all_along ::
  "(market \<Rightarrow> market_input \<Rightarrow> bool) \<Rightarrow> templates \<Rightarrow> ah_settings \<Rightarrow> directory \<Rightarrow> market_input list \<Rightarrow> market \<Rightarrow> bool" where
  "all_along C T S dir [] M = True"
| "all_along C T S dir (x # xs) M =
     (C M x \<and> (case market_step T S dir x M of None \<Rightarrow> True | Some M' \<Rightarrow> all_along C T S dir xs M'))"

text \<open>
  Assumed of a packet: a client of the delivery box is honest, and an item that is bought finds
  its place in the table of the bag.  Careful clients of the delivery box lose nothing.
\<close>

fun sound_input :: "market \<Rightarrow> market_input \<Rightarrow> bool" where
  "sound_input M (Mailing s) = honest (mk_office M) s"
| "sound_input M (Dealing me e ok k) = (a_Command k = 14 \<longrightarrow> ok 1)"

fun careful_input :: "market \<Rightarrow> market_input \<Rightarrow> bool" where
  "careful_input M (Mailing s) = careful (mk_office M) s"
| "careful_input M (Dealing me e ok k) = True"

fun sender_of :: "market_input \<Rightarrow> nat" where
  "sender_of (Mailing s) = fst s"
| "sender_of (Dealing me e ok k) = me"

definition market_ok :: "templates \<Rightarrow> directory \<Rightarrow> market \<Rightarrow> bool" where
  "market_ok T dir M \<longleftrightarrow> house_ok T (mk_house M) \<and> office_ok T dir (mk_office M)"

definition owned :: "templates \<Rightarrow> nat set \<Rightarrow> nat \<Rightarrow> market \<Rightarrow> nat" where
  "owned T K i M = on_sale T i (mk_house M) + wealth K i (mk_office M)"

section \<open>Every item is accounted for\<close>

lemma auc_step_keeps:
  assumes T: "templates_ok T" "stackable T" and S: "rates_ok S" and M: "market_ok T dir M"
    and stored: "a_Command k = 14 \<longrightarrow> ok 1" and K: "finite K" "me \<in> K"
  shows "\<exists>M'. auc_step T S e ok me k M = Some M' \<and> market_ok T dir M' \<and>
    (\<forall>i. owned T K i M' \<le> owned T K i M \<and> (i \<noteq> 0xFFFF \<longrightarrow> owned T K i M' = owned T K i M))"
proof -
  let ?W = "mk_office M"
  let ?a = "(mk_house M, (po_rows ?W, po_players ?W me), mk_sales M me)"
  have W: "rows_ok T dir (po_rows ?W)" "\<And>j. player_ok T j (po_rows ?W) (po_players ?W j)"
    using M by (simp_all add: market_ok_def office_ok_def)
  have a: "auction_ok T dir me ?a" using M W by (simp add: auction_ok_def mail_ok_def market_ok_def)
  obtain a' where "auc_process T S e ok k ?a = Some a'" "deals T dir me ?a a'"
    using auc_process_deals[where ok = ok, OF T S a stored] by blast
  moreover obtain h rows q s where "a' = (h, (rows, q), s)" by (metis prod.exhaust)
  ultimately have r: "auc_process T S e ok k ?a = Some (h, (rows, q), s)" "deals T dir me ?a (h, (rows, q), s)" by simp_all
  let ?P = "(po_players ?W)(me := q)"
  let ?M = "\<lparr>mk_house = h, mk_office = \<lparr>po_rows = rows, po_players = ?P\<rparr>, mk_sales = (mk_sales M)(me := s)\<rparr>"
  have step: "auc_step T S e ok me k M = Some ?M" using r(1) by (simp add: auc_step_def)
  have d: "house_ok T h" "rows_ok T dir rows" "player_ok T me rows q"
    "\<And>j p. player_ok T j (po_rows ?W) p \<Longrightarrow> player_ok T j rows p"
    "\<And>i. worth T i (h, (rows, q), s) \<le> worth T i ?a"
    "\<And>i. i \<noteq> 0xFFFF \<Longrightarrow> worth T i (h, (rows, q), s) = worth T i ?a"
    using r(2) by (simp_all add: deals_def auction_ok_def mail_ok_def)
  have "market_ok T dir ?M" using d(1-3) d(4)[OF W(2)] by (simp add: market_ok_def office_ok_def)
  moreover have "owned T K i M = worth T i ?a + (\<Sum>j \<in> K - {me}. total_qty i (mc_char (po_players ?W j)))" for i
    using K by (simp add: owned_def wealth_def worth_def amount_def sum.remove[OF K])
  moreover have "owned T K i ?M = worth T i (h, (rows, q), s) + (\<Sum>j \<in> K - {me}. total_qty i (mc_char (po_players ?W j)))" for i
  proof -
    have "(\<Sum>j \<in> K - {me}. total_qty i (mc_char (?P j))) = (\<Sum>j \<in> K - {me}. total_qty i (mc_char (po_players ?W j)))"
      by (rule sum.cong) auto
    then show ?thesis using K by (simp add: owned_def wealth_def worth_def amount_def sum.remove[OF K])
  qed
  ultimately show ?thesis using step d(5,6) by (intro exI[of _ ?M]) simp
qed

lemma market_step_keeps:
  assumes T: "templates_ok T" "stackable T" and S: "rates_ok S" and M: "market_ok T dir M"
    and x: "sound_input M x" and K: "finite K" "sender_of x \<in> K"
  shows "\<exists>M'. market_step T S dir x M = Some M' \<and> market_ok T dir M' \<and>
    (\<forall>i. owned T K i M' \<le> owned T K i M \<and>
      (i \<noteq> 0xFFFF \<and> careful_input M x \<longrightarrow> owned T K i M' = owned T K i M))"
proof (cases x)
  case (Mailing s)
  obtain me e ok p where s: "s = (me, e, ok, p)" by (metis prod.exhaust)
  have W: "office_ok T dir (mk_office M)" using M by (simp add: market_ok_def)
  have h: "honest (mk_office M) (me, e, ok, p)" "me \<in> K" using x K(2) by (simp_all add: Mailing s)
  from pbx_step_keeps[OF T(1) W h(1) K(1) h(2)] obtain W' where
    "pbx_step T dir e ok me p (mk_office M) = Some W'" "office_ok T dir W'"
    "\<forall>i. wealth K i W' \<le> wealth K i (mk_office M)"
    "careful (mk_office M) (me, e, ok, p) \<longrightarrow> (\<forall>i. wealth K i W' = wealth K i (mk_office M))" by blast
  then show ?thesis
    using M by (intro exI[of _ "M\<lparr>mk_office := W'\<rparr>"]) (simp add: Mailing s market_ok_def owned_def)
next
  case (Dealing me e ok k)
  then show ?thesis using auc_step_keeps[where k = k and ok = ok and me = me and e = e and K = K, OF T S M] x K by auto
qed

lemma market_run_keeps:
  assumes T: "templates_ok T" "stackable T" and S: "rates_ok S" and K: "finite K"
  shows "market_ok T dir M \<Longrightarrow> all_along sound_input T S dir xs M \<Longrightarrow> sender_of ` set xs \<subseteq> K \<Longrightarrow>
    \<exists>M'. market_run T S dir xs M = Some M' \<and> market_ok T dir M' \<and>
      (\<forall>i. owned T K i M' \<le> owned T K i M \<and>
        (i \<noteq> 0xFFFF \<and> all_along careful_input T S dir xs M \<longrightarrow> owned T K i M' = owned T K i M))"
proof (induction xs arbitrary: M)
  case (Cons x xs)
  from Cons.prems(2,3) have x: "sound_input M x" "sender_of x \<in> K" "sender_of ` set xs \<subseteq> K" by auto
  from market_step_keeps[OF T S Cons.prems(1) x(1) K x(2)] obtain M1 where
    M1: "market_step T S dir x M = Some M1" "market_ok T dir M1" "\<And>i. owned T K i M1 \<le> owned T K i M"
    "\<And>i. i \<noteq> 0xFFFF \<and> careful_input M x \<Longrightarrow> owned T K i M1 = owned T K i M" by blast
  from Cons.prems(2) M1(1) have "all_along sound_input T S dir xs M1" by simp
  from Cons.IH[OF M1(2) this x(3)] obtain M' where
    M': "market_run T S dir xs M1 = Some M'" "market_ok T dir M'" "\<And>i. owned T K i M' \<le> owned T K i M1"
    "\<And>i. i \<noteq> 0xFFFF \<and> all_along careful_input T S dir xs M1 \<Longrightarrow> owned T K i M' = owned T K i M1" by blast
  have "owned T K i M' = owned T K i M" if "i \<noteq> 0xFFFF \<and> all_along careful_input T S dir (x # xs) M" for i
    using that M1(1) M1(4)[of i] M'(4)[of i] by auto
  moreover have "owned T K i M' \<le> owned T K i M" for i using M1(3)[of i] M'(3)[of i] by simp
  ultimately show ?case using M1(1) M'(1,2) by auto
qed simp

text \<open>
  C1: the auction house and the delivery boxes together account for every item.  The runs are
  sequences of auction and delivery box packets of any players in any order and mixture, with any
  failures of the database but one, under two conditions (\<open>sound_input\<close>): the delivery box
  packets are honest, and the statement that stores an item that was bought succeeds.  In such a run
  nothing crashes or is undefined, the listings, boxes and bags stay in order, and the amount of
  every item in bags, in the mail and on sale never grows; if besides no delivery box packet throws
  away, calls back or overfills (\<open>careful_input\<close>), the amount of every item but gil, which the fees
  burn, stays exactly the same.  Without the conditions items or gil are created:
  \<open>dbox_cross_box_copies\<close>, \<open>unstored_bid_makes_gil\<close>.
\<close>

theorem market_accounted:
  assumes "templates_ok T" "stackable T" "rates_ok S" "market_ok T dir M"
    and "finite K" "sender_of ` set xs \<subseteq> K" "all_along sound_input T S dir xs M"
  shows "\<exists>M'. market_run T S dir xs M = Some M' \<and> market_ok T dir M' \<and>
    (\<forall>i. owned T K i M' \<le> owned T K i M \<and>
      (i \<noteq> 0xFFFF \<and> all_along careful_input T S dir xs M \<longrightarrow> owned T K i M' = owned T K i M))"
  by (rule market_run_keeps[OF assms(1-3,5,4,7,6)])

text \<open>Ayame lists a potion, Bob bids for one, and Ayame opens her inbox.\<close>

definition sample_rates :: ah_settings where
  "sample_rates = \<lparr>AH_BASE_FEE_STACKS = 4, AH_TAX_RATE_STACKS = 1 / 2, AH_BASE_FEE_SINGLE = 1,
     AH_TAX_RATE_SINGLE = 1, AH_MAX_FEE = 10000, AH_LIST_LIMIT = 7\<rparr>"

definition at_the_counter :: auc_env where
  "at_the_counter = \<lparr>ae_auction = True, ae_jailed = False, ae_now = 0, ae_used = (\<lambda>_. False)\<rparr>"

definition auc :: "nat \<Rightarrow> int \<Rightarrow> uint32 \<Rightarrow> nat \<Rightarrow> nat \<Rightarrow> auc_packet" where
  "auc c i price x stacks = \<lparr>a_Command = c, a_AucWorkIndex = i, a_Result = 0, a_ResultStatus = 0,
     a_price = price, a_first = x, a_second = 0, a_stacks = stacks\<rparr>"

definition sample_market :: market where
  "sample_market = \<lparr>mk_house = \<lparr>house_rows = [], house_next = 1\<rparr>, mk_office = sample_office,
     mk_sales = (\<lambda>_. \<lparr>m_ah_history = [], m_AHHistoryTimestamp = 0\<rparr>)\<rparr>"

definition sample_deals :: "market_input list" where
  "sample_deals =
     [Dealing 7 at_the_counter (\<lambda>_. True) (auc 11 0 3 1 1), Dealing 8 at_the_counter (\<lambda>_. True) (auc 14 0 3 4096 1),
      Mailing (7, at_home, \<lambda>_. True, pbx 14 (-1) (-1) (-1) (-1) [])]"

lemma sample_stackable: "stackable sample_templates"
  by (auto simp: stackable_def spawn_sample potion_fields purse_of_def new_item_def split: if_splits)

lemma sample_rates_ok: "rates_ok sample_rates"
  by (simp add: rates_ok_def sample_rates_def)

lemma sample_market_ok: "market_ok sample_templates sample_dir sample_market"
  using sample_office_ok by (simp add: market_ok_def sample_market_def house_ok_def)

theorem market_accounted_witness:
  "\<exists>M'. market_run sample_templates sample_rates sample_dir sample_deals sample_market = Some M' \<and>
     market_ok sample_templates sample_dir M' \<and>
     owned sample_templates {7, 8} 4096 M' = owned sample_templates {7, 8} 4096 sample_market"
proof -
  have "all_along sound_input sample_templates sample_rates sample_dir sample_deals sample_market"
    "all_along careful_input sample_templates sample_rates sample_dir sample_deals sample_market"
    by (simp_all add: sample_deals_def honest_def careful_def pbx_def split: option.split)
  moreover have "sender_of ` set sample_deals \<subseteq> {7, 8}" by (simp add: sample_deals_def)
  ultimately show ?thesis
    using market_accounted[OF sample_templates_ok sample_stackable sample_rates_ok sample_market_ok,
        of "{7, 8}" sample_deals] by auto
qed

text \<open>
  Gil has no template of its own, so gil that has been listed can be neither bought nor taken back.
\<close>

lemma listed_gil_is_stuck:
  "PurchasingItems T ok bid 0xFFFF stacks a = (False, a)"
  "h_itemid (m_ah_history (snd (snd a)) ! i) = 0xFFFF \<Longrightarrow> CancelSale T ok i a = a"
proof -
  have no: "lookup T 0xFFFF = None" by (simp add: lookup_def MAX_ITEMID_def)
  show "PurchasingItems T ok bid 0xFFFF stacks a = (False, a)"
    unfolding PurchasingItems_def Let_def no option.case by (simp split: prod.split)
  show "CancelSale T ok i a = a" if "h_itemid (m_ah_history (snd (snd a)) ! i) = 0xFFFF"
    using that no by (auto simp: CancelSale_def Let_def split: prod.split option.split)
qed

section \<open>What a bid buys\<close>

text \<open>A valid bid of somebody who may bid, for something that is on sale.\<close>

definition good_bid :: "templates \<Rightarrow> auc_env \<Rightarrow> auc_packet \<Rightarrow> auction \<Rightarrow> bool" where
  "good_bid T e k a \<longleftrightarrow> auc_validate e k \<and> a_Command k = 14 \<and>
     may_bid T (a_price k) (a_first k) (mc_char (snd (fst (snd a)))) \<and>
     (\<exists>r \<in> set (house_rows (fst a)). wanted (a_first k) (a_stacks k = 0) (a_price k) r) \<and>
     (\<forall>r \<in> set (fst (fst (snd a))). r_slot r < 65535)"

lemma insert_row_fits:
  assumes "r_box r = 1" "\<forall>r' \<in> set rows. r_slot r' < 65535"
  shows "insert_row r rows \<noteq> None"
proof -
  let ?r = "delivery_box_insert rows r" and ?old = "box_rows (r_charid r) 1 rows"
  let ?top = "foldr max (map r_slot ?old) 0"
  have "\<forall>x \<in> set xs. x < b \<Longrightarrow> 0 < b \<Longrightarrow> foldr max xs 0 < b" for xs and b :: nat
    by (induction xs) auto
  then have "?top < 65535" using assms(2) by (auto simp: box_rows_def)
  moreover have slot: "r_slot ?r = (if map r_slot ?old = [] \<or> ?top < 8 then 8 else ?top + 1)"
    "r_charid ?r = r_charid r" "r_box ?r = 1"
    using assms(1) by (simp_all add: delivery_box_insert_def Let_def)
  ultimately have "r_slot ?r \<le> 65535" by simp
  moreover have "row_key ?r \<noteq> row_key r'" if "r' \<in> set rows" for r'
  proof
    assume eq: "row_key ?r = row_key r'"
    then have "r' \<in> set ?old" "r_slot r' = r_slot ?r" using that slot by (auto simp: row_key_def box_rows_def)
    moreover have "r_slot r' \<le> ?top" using foldr_max[OF refl, of "r_slot r'" "map r_slot ?old"] calculation(1) by simp
    ultimately show False using slot(1) by (auto split: if_splits)
  qed
  ultimately show ?thesis by (auto simp: insert_row_def Let_def)
qed

lemma good_bid_sells:
  assumes "good_bid T e k (h, (rows, p), s)"
  shows "\<exists>t. sell_cheapest (mc_name p) (a_first k) (a_stacks k = 0) (a_price k) (h, rows) = Some t"
proof -
  let ?w = "wanted (a_first k) (a_stacks k = 0) (a_price k)"
  let ?rs = "sort_key ah_price (filter ?w (house_rows h))"
  have "?rs \<noteq> []"
  proof
    assume "?rs = []"
    then have "set ?rs = {}" by simp
    then show False using assms by (auto simp: good_bid_def)
  qed
  then obtain r0 rest where rs: "?rs = r0 # rest" by (cases ?rs) auto
  have "auction_house_buy r0 (sold (mc_name p) (a_price k) r0) rows \<noteq> None"
    using insert_row_fits[of "payment (sold (mc_name p) (a_price k) r0)" rows] assms
    by (auto simp: auction_house_buy_def payment_def good_bid_def)
  then show ?thesis by (auto simp: sell_cheapest_def rs)
qed

text \<open>The state of things when a good bid has reached the tables.\<close>

lemma good_bid_tables:
  assumes T: "templates_ok T" and a: "auction_ok T dir me (h, (rows, p), s)" and g: "good_bid T e k (h, (rows, p), s)"
  obtains tpl gil r0 rows' where
    "spawn T (a_first k) = Some tpl" "a_first k \<noteq> 0xFFFF"
    "GetFreeSlotsCount (storage (mc_char p) LOC_INVENTORY) \<noteq> 0" "lookup T (a_first k) = Some tpl"
    "\<not> (hasFlag tpl FLAG_RARE \<and>
      (\<exists>l \<in> set [0..<MAX_CONTAINER_ID]. SearchItem (a_first k) (storage (mc_char p) l) \<noteq> ERROR_SLOTID))"
    "bag (mc_char p) 0 = Some gil" "isType gil ITEM_CURRENCY" "a_price k \<le> i_quantity gil" "i_reserve gil = 0"
    "sell_cheapest (mc_name p) (a_first k) (a_stacks k = 0) (a_price k) (h, rows) =
       Some (mark_sold (mc_name p) (a_price k) r0 h, rows')"
    "r0 \<in> set (house_rows h)" "wanted (a_first k) (a_stacks k = 0) (a_price k) r0"
    "\<And>r. r \<in> set (house_rows h) \<Longrightarrow> wanted (a_first k) (a_stacks k = 0) (a_price k) r \<Longrightarrow> ah_price r0 \<le> ah_price r"
    "\<And>i. on_sale T i (mark_sold (mc_name p) (a_price k) r0 h) +
       (if i = a_first k then unat (lot T (a_first k) (a_stacks k = 0)) else 0) = on_sale T i h"
    "\<And>i. in_mail i rows' = in_mail i rows + (if i = 0xFFFF \<and> ah_seller r0 \<noteq> 0 then unat (a_price k) else 0)"
    "if ah_seller r0 = 0 then rows' = rows
     else \<exists>s \<ge> 8. rows' = rows @ [(payment (sold (mc_name p) (a_price k) r0))\<lparr>r_slot := s\<rparr>]"
proof -
  note d = auction_okD[OF a]
  obtain t where t: "sell_cheapest (mc_name p) (a_first k) (a_stacks k = 0) (a_price k) (h, rows) = Some t"
    using good_bid_sells[OF g] by blast
  have "1 \<le> a_price k" using g by (simp add: good_bid_def auc_validate_def)
  then have nz: "a_price k \<noteq> 0" by auto
  obtain tpl gil where c: "GetFreeSlotsCount (storage (mc_char p) LOC_INVENTORY) \<noteq> 0" "lookup T (a_first k) = Some tpl"
    "\<not> (hasFlag tpl FLAG_RARE \<and>
      (\<exists>l \<in> set [0..<MAX_CONTAINER_ID]. SearchItem (a_first k) (storage (mc_char p) l) \<noteq> ERROR_SLOTID))"
    "bag (mc_char p) 0 = Some gil" "isType gil ITEM_CURRENCY" "a_price k \<le> i_quantity gil" "i_reserve gil = 0"
    using g unfolding good_bid_def may_bid_def by auto
  have "spawn T (a_first k) \<noteq> None" using g d(1) by (auto simp: good_bid_def house_ok_def wanted_def)
  then have tpl: "spawn T (a_first k) = Some tpl" "a_first k \<noteq> 0xFFFF"
    using lookup_spawn[OF c(2)] c(2) by (auto simp: lookup_def MAX_ITEMID_def)
  show thesis
    by (rule bid_tables[OF T d(1,2,5) c(4,6) nz t]) (rule that[OF tpl c, unfolded t], simp_all)
qed

text \<open>
  C5: a bid buys the cheapest listing it covers and pays what was bid.  When all statements come
  back, a good bid marks exactly one listing as sold to the bidder, one that is as cheap as any he
  could have bought; the bidder gets the item, a whole stack or one of it, and pays his bid, not
  the price; and the seller, if the listing has one, gets a parcel with that money at the end of
  his queue.  No other row of either table and no other amount the bidder owns changes.
\<close>

theorem bid_buys_cheapest:
  assumes T: "templates_ok T" "stackable T" and a: "auction_ok T dir me (h, (rows, p), s)"
    and g: "good_bid T e k (h, (rows, p), s)" and ok: "\<And>j. ok j"
  shows "\<exists>r0 rows' ch'. auc_process T S e ok k (h, (rows, p), s) =
      Some (mark_sold (mc_name p) (a_price k) r0 h, (rows', p\<lparr>mc_char := ch'\<rparr>), s) \<and>
    r0 \<in> set (house_rows h) \<and> wanted (a_first k) (a_stacks k = 0) (a_price k) r0 \<and>
    (\<forall>r \<in> set (house_rows h). wanted (a_first k) (a_stacks k = 0) (a_price k) r \<longrightarrow> ah_price r0 \<le> ah_price r) \<and>
    (if ah_seller r0 = 0 then rows' = rows
     else \<exists>s \<ge> 8. rows' = rows @ [(payment (sold (mc_name p) (a_price k) r0))\<lparr>r_slot := s\<rparr>]) \<and>
    (\<forall>i. total_qty i ch' + (if i = 0xFFFF then unat (a_price k) else 0) =
       total_qty i (mc_char p) + (if i = a_first k then unat (lot T (a_first k) (a_stacks k = 0)) else 0))"
proof -
  obtain tpl gil r0 rows' where tpl: "spawn T (a_first k) = Some tpl" "a_first k \<noteq> 0xFFFF"
    and c: "GetFreeSlotsCount (storage (mc_char p) LOC_INVENTORY) \<noteq> 0" "lookup T (a_first k) = Some tpl"
    "\<not> (hasFlag tpl FLAG_RARE \<and>
      (\<exists>l \<in> set [0..<MAX_CONTAINER_ID]. SearchItem (a_first k) (storage (mc_char p) l) \<noteq> ERROR_SLOTID))"
    "bag (mc_char p) 0 = Some gil" "isType gil ITEM_CURRENCY" "a_price k \<le> i_quantity gil" "i_reserve gil = 0"
    and r0: "sell_cheapest (mc_name p) (a_first k) (a_stacks k = 0) (a_price k) (h, rows) =
       Some (mark_sold (mc_name p) (a_price k) r0 h, rows')"
    "r0 \<in> set (house_rows h)" "wanted (a_first k) (a_stacks k = 0) (a_price k) r0"
    "\<And>r. r \<in> set (house_rows h) \<Longrightarrow> wanted (a_first k) (a_stacks k = 0) (a_price k) r \<Longrightarrow> ah_price r0 \<le> ah_price r"
    "if ah_seller r0 = 0 then rows' = rows
     else \<exists>s \<ge> 8. rows' = rows @ [(payment (sold (mc_name p) (a_price k) r0))\<lparr>r_slot := s\<rparr>]"
    by (rule good_bid_tables[OF T(1) a g]) metis
  obtain q ch1 ch2 where b:
    "AddItem T LOC_INVENTORY (a_first k) (if a_stacks k = 0 then i_stackSize tpl else 1) True (mc_char p) = (q, ch1)"
    "q \<noteq> ERROR_SLOTID" "snd (UpdateItem LOC_INVENTORY 0 (- sint (a_price k)) False ch1) = ch2"
    "\<And>i. i \<noteq> 0xFFFF \<or> a_first k \<noteq> 0xFFFF \<Longrightarrow> total_qty i ch2 + (if i = 0xFFFF then unat (a_price k) else 0) =
       total_qty i (mc_char p) + (if i = a_first k then unat (lot T (a_first k) (a_stacks k = 0)) else 0)"
    by (rule bid_bag[OF T auction_okD(5)[OF a] tpl(1) c(1,3,4,6,7), of "a_stacks k = 0"]) metis
  have "auc_process T S e ok k (h, (rows, p), s) =
      Some (snd (PurchasingItems T ok (a_price k) (a_first k) (a_stacks k) (h, (rows, p), s)))"
    using g by (simp add: auc_process_def good_bid_def)
  also have "\<dots> = Some (mark_sold (mc_name p) (a_price k) r0 h, (rows', p\<lparr>mc_char := ch2\<rparr>), s)"
    using PurchasingItems_bids[where ok = ok, OF c ok r0(1), of q ch1 s] b(1-3) ok by simp
  finally show ?thesis
    using r0(2-5) b(4) tpl(2) by (intro exI[of _ r0] exI[of _ rows'] exI[of _ ch2]) simp
qed

text \<open>
  C15: a bid whose item cannot be stored makes gil.  The listing is sold and the seller paid before
  the item is put into the bag; when the statement that stores the item fails, the handler leaves it
  at that: the bidder gets nothing and pays nothing, the listing is gone, and the seller has the
  money nonetheless.
\<close>

theorem unstored_bid_makes_gil:
  assumes T: "templates_ok T" "stackable T" and a: "auction_ok T dir me (h, (rows, p), s)"
    and g: "good_bid T e k (h, (rows, p), s)" and ok: "ok 0" "\<not> ok 1"
    and sellers: "\<And>r. r \<in> set (house_rows h) \<Longrightarrow> ah_seller r \<noteq> 0"
  shows "\<exists>a'. auc_process T S e ok k (h, (rows, p), s) = Some a' \<and>
    (\<forall>i. total_qty i (mc_char (snd (fst (snd a')))) = total_qty i (mc_char p)) \<and>
    worth T 0xFFFF a' = worth T 0xFFFF (h, (rows, p), s) + unat (a_price k) \<and>
    worth T (a_first k) a' + unat (lot T (a_first k) (a_stacks k = 0)) = worth T (a_first k) (h, (rows, p), s)"
proof -
  let ?a = "(h, (rows, p), s)" and ?n = "\<lambda>tpl. if a_stacks k = 0 then i_stackSize tpl else 1"
  obtain tpl gil r0 rows' where tpl: "spawn T (a_first k) = Some tpl" "a_first k \<noteq> 0xFFFF"
    and c: "GetFreeSlotsCount (storage (mc_char p) LOC_INVENTORY) \<noteq> 0" "lookup T (a_first k) = Some tpl"
    "\<not> (hasFlag tpl FLAG_RARE \<and>
      (\<exists>l \<in> set [0..<MAX_CONTAINER_ID]. SearchItem (a_first k) (storage (mc_char p) l) \<noteq> ERROR_SLOTID))"
    "bag (mc_char p) 0 = Some gil" "isType gil ITEM_CURRENCY" "a_price k \<le> i_quantity gil" "i_reserve gil = 0"
    and r0: "sell_cheapest (mc_name p) (a_first k) (a_stacks k = 0) (a_price k) (h, rows) =
       Some (mark_sold (mc_name p) (a_price k) r0 h, rows')" "r0 \<in> set (house_rows h)"
    "\<forall>i. on_sale T i (mark_sold (mc_name p) (a_price k) r0 h) +
       (if i = a_first k then unat (lot T (a_first k) (a_stacks k = 0)) else 0) = on_sale T i h"
    "\<forall>i. in_mail i rows' = in_mail i rows + (if i = 0xFFFF \<and> ah_seller r0 \<noteq> 0 then unat (a_price k) else 0)"
    by (rule good_bid_tables[OF T(1) a g]) blast
  note ne = tpl(2)
  have "i_stackSize tpl \<noteq> 0" using T(2) tpl(1) by (auto simp: stackable_def)
  then have "1 \<le> i_stackSize tpl" by (simp add: word_le_nat_alt unat_gt_0 Suc_le_eq)
  then have n: "?n tpl \<le> i_stackSize tpl" by simp
  obtain q ch1 where b: "AddItem T LOC_INVENTORY (a_first k) (?n tpl) False (mc_char p) = (q, ch1)"
    "\<forall>i. i \<noteq> 0xFFFF \<or> a_first k \<noteq> 0xFFFF \<longrightarrow> total_qty i ch1 = total_qty i (mc_char p) +
       (if q \<noteq> ERROR_SLOTID \<and> i = a_first k then unat (?n tpl) else 0)"
    using AddItem_adds[OF T(1) auction_okD(5)[OF a] tpl(1) n, of False] by blast
  have "\<not> isType (setQuantity (?n tpl) tpl) ITEM_CURRENCY"
    using templates_okD(5)[OF T(1) tpl(1)] ne by (simp add: isType_def setQuantity_fields)
  then have q: "q = ERROR_SLOTID"
    using b(1) tpl(1) by (auto simp: AddItem_def AddItemObject_def Let_def split: prod.splits if_splits)
  have same: "total_qty i ch1 = total_qty i (mc_char p)" for i using b(2) q ne by simp
  let ?b = "(mark_sold (mc_name p) (a_price k) r0 h, (rows', p\<lparr>mc_char := ch1\<rparr>), s)"
  have "auc_process T S e ok k ?a = Some (snd (PurchasingItems T ok (a_price k) (a_first k) (a_stacks k) ?a))"
    using g by (simp add: auc_process_def good_bid_def)
  also have "\<dots> = Some ?b"
    using PurchasingItems_bids[where ok = ok, OF c ok(1) r0(1), of q ch1 s] b(1) q ok(2) by simp
  finally have run: "auc_process T S e ok k ?a = Some ?b" .
  have on: "on_sale T 0xFFFF (mark_sold (mc_name p) (a_price k) r0 h) = on_sale T 0xFFFF h"
    "on_sale T (a_first k) (mark_sold (mc_name p) (a_price k) r0 h) +
       unat (lot T (a_first k) (a_stacks k = 0)) = on_sale T (a_first k) h"
    "in_mail 0xFFFF rows' = in_mail 0xFFFF rows + unat (a_price k)" "in_mail (a_first k) rows' = in_mail (a_first k) rows"
    using spec[OF r0(3), of "0xFFFF"] spec[OF r0(3), of "a_first k"] spec[OF r0(4), of "0xFFFF"] spec[OF r0(4), of "a_first k"]
      sellers[OF r0(2)] ne by simp_all
  show ?thesis
    using run same on
    by (intro exI[of _ ?b]) (simp add: worth_def amount_def)
qed

text \<open>Two potions are on sale, for five and for three gil; Ayame bids four.\<close>

definition potion_lot :: "nat \<Rightarrow> nat \<Rightarrow> uint32 \<Rightarrow> ah_row" where
  "potion_lot n seller price = \<lparr>ah_id = n, ah_itemid = 4096, ah_stack = False, ah_seller = seller,
     ah_seller_name = ''Bob'', ah_price = price, ah_buyer_name = None, ah_sale = 0\<rparr>"

definition two_lots :: auction where
  "two_lots = (\<lparr>house_rows = [potion_lot 1 8 5, potion_lot 2 8 3], house_next = 3\<rparr>,
     ([], po_players sample_office 7), \<lparr>m_ah_history = [], m_AHHistoryTimestamp = 0\<rparr>)"

lemma two_lots_ok: "auction_ok sample_templates sample_dir 7 two_lots"
proof -
  have "mail_ok sample_templates sample_dir 7 ([], po_players sample_office 7)"
  proof -
    have "po_rows sample_office = []" by (simp add: sample_office_def)
    then show ?thesis using sample_office_ok by (simp add: office_ok_def mail_ok_def)
  qed
  then show ?thesis
    by (simp add: auction_ok_def two_lots_def house_ok_def potion_lot_def for_sale_def spawn_sample)
qed

lemma two_lots_bid: "good_bid sample_templates at_the_counter (auc 14 0 4 4096 1) two_lots"
proof -
  have "may_bid sample_templates 4 4096 sample_char"
  proof -
    have purse: "i_quantity (purse_of 0 20) = 20" "i_reserve (purse_of 0 20) = 0"
      by (simp_all add: purse_of_def new_item_def setType_def)
    have "storage sample_char 0 = sample_bag" by (simp add: sample_char_def)
    then show ?thesis
      using sample_items[of 0 0]
      by (simp add: may_bid_def lookup_def sample_templates_def MAX_ITEMID_def hasFlag_def potion_fields sample_types purse LOC_INVENTORY_def
          GetFreeSlotsCount_def sample_bag_fields)
  qed
  then show ?thesis
    by (simp add: good_bid_def auc_validate_def auc_def at_the_counter_def two_lots_def wanted_def potion_lot_def)
      (simp add: sample_office_def)
qed

theorem bid_buys_cheapest_witness:
  "\<exists>a'. auc_process sample_templates sample_rates at_the_counter (\<lambda>_. True) (auc 14 0 4 4096 1) two_lots = Some a' \<and>
     map ah_sale (house_rows (fst a')) = [0, 4] \<and> map r_quantity (fst (fst (snd a'))) = [4] \<and>
     total_qty 4096 (mc_char (snd (fst (snd a')))) = total_qty 4096 sample_char + 1"
proof -
  obtain h p s where t: "two_lots = (h, ([], p), s)" "h = fst two_lots" "mc_char p = sample_char"
    by (simp add: two_lots_def sample_office_def)
  let ?k = "auc 14 0 4 4096 1"
  have rows: "house_rows h = [potion_lot 1 8 5, potion_lot 2 8 3]" by (simp add: t(2) two_lots_def)
  have k: "a_price ?k = 4" "a_first ?k = 4096" "a_stacks ?k = 1" by (simp_all add: auc_def)
  obtain r0 rows' ch' where r: "auc_process sample_templates sample_rates at_the_counter (\<lambda>_. True) ?k (h, ([], p), s) =
      Some (mark_sold (mc_name p) 4 r0 h, (rows', p\<lparr>mc_char := ch'\<rparr>), s)"
    "r0 \<in> set (house_rows h)" "wanted 4096 False 4 r0"
    "if ah_seller r0 = 0 then rows' = [] else \<exists>s \<ge> 8. rows' = [(payment (sold (mc_name p) 4 r0))\<lparr>r_slot := s\<rparr>]"
    "\<forall>i. total_qty i ch' + (if i = 0xFFFF then unat (4 :: uint32) else 0) =
       total_qty i sample_char + (if i = 4096 then unat (lot sample_templates 4096 False) else 0)"
    using bid_buys_cheapest[OF sample_templates_ok sample_stackable two_lots_ok[unfolded t(1)]
        two_lots_bid[unfolded t(1)] TrueI, where S = sample_rates]
    unfolding k t(3) append_Nil by (elim exE conjE) (rule that, assumption, assumption, simp_all)
  have r0: "r0 = potion_lot 2 8 3" using r(2,3) by (auto simp: rows wanted_def potion_lot_def)
  have "map ah_sale (house_rows (mark_sold (mc_name p) 4 r0 h)) = [0, 4]"
    by (simp add: mark_sold_def rows r0) (simp add: potion_lot_def sold_def)
  moreover have "map r_quantity rows' = [4]"
    using r(4) by (auto simp: r0 potion_lot_def payment_def)
  moreover have "total_qty 4096 ch' = total_qty 4096 sample_char + 1"
    using spec[OF r(5), of 4096] by (simp add: lot_def)
  ultimately show ?thesis using r(1) by (simp add: t(1))
qed

theorem unstored_bid_makes_gil_witness:
  "\<exists>a'. auc_process sample_templates sample_rates at_the_counter (\<lambda>j. j = 0) (auc 14 0 4 4096 1) two_lots = Some a' \<and>
     worth sample_templates 0xFFFF a' = worth sample_templates 0xFFFF two_lots + 4"
proof -
  obtain h p s where t: "two_lots = (h, ([], p), s)" "h = fst two_lots" by (simp add: two_lots_def)
  have "ah_seller r \<noteq> 0" if "r \<in> set (house_rows h)" for r using that by (auto simp: t(2) two_lots_def potion_lot_def)
  with unstored_bid_makes_gil[OF sample_templates_ok sample_stackable two_lots_ok[unfolded t(1)]
      two_lots_bid[unfolded t(1)], where ok = "\<lambda>j. j = 0" and S = sample_rates]
  show ?thesis by (auto simp: t(1) auc_def)
qed

end
