(* ===== verification/Spec2Isabelle.thy ===== *)
theory Spec2Isabelle
  imports NameCodec Exchange TreasurePool Recast Wire Enmity StatusEffects Merit Spawn Trading Market
begin

text \<open>
  A verification development for the core logic of the LandSandBoat game server: the parts of the
  map server that hold what a player owns or has earned, the parts that decide what may happen to
  it, and the encoding of what travels to and from the client.  The paths below are relative to the
  directory \<open>src\<close> of the repository; unless another one is named the code is under \<open>src/map\<close>.

  \<^bold>\<open>The program and its parts\<close>

  A map server owns a number of zones.  A datagram of a client is deciphered, checked and
  decompressed into small packets; each small packet has a handler (\<open>packets/c2s\<close>) that validates
  its fields and calls utilities (\<open>utils\<close>) which change the character, the entities around him and
  the database; a tick moves the zones on.  The models follow that division:

  \<^item> the wire: cipher, digest and compression, composed in both directions, and the packed bit
    fields and names the packets are made of;
  \<^item> possessions: the item object, the containers of items, the eighteen storages of a character
    with the utilities that change them, and on top of these the treasure pool, the delivery box,
    trading between players and the auction house;
  \<^item> battle bookkeeping: enmity, status effects, recast timers;
  \<^item> progress and time: merit points, the game clock, respawning.

  \<^bold>\<open>Conventions\<close>

  A class is a record of the members its functions use, in the order of the class; an enumeration
  is a datatype or a set of constants with the values of the code; a function of the code is a
  definition of the same name that takes the object it is called on and returns it changed.  An
  unsigned integer whose arithmetic can wrap is a word of its width, or a natural number or
  integer with the reduction written out; identifiers and positions are naturals.  A result of
  \<^const>\<open>None\<close> is undefined behaviour (a null or dangling pointer, an access outside an array, a
  signed overflow, a conversion that does not fit) or, for \<open>SetCE\<close> and \<open>SetVE\<close> of \<open>Enmity\<close>, also a
  call that does not return; a theorem that an operation is never \<^const>\<open>None\<close> says that the server
  neither crashes nor loops there.  An error the code reports is a value of the result, such as the
  slot \<open>ERROR_SLOTID\<close>.  A pointer is an address of a heap, or the position of the object where
  the objects are stored in an array.  What is not in the repository's own code is an argument: the
  contents of the tables that the server loads at its start, clocks, random draws, the answers of
  scripts, and whether a statement of the database succeeds.  A table of the database that the code
  itself reads and writes is part of the state, with the constraints and triggers of the repository's SQL files.

  \<^bold>\<open>Theories\<close>

  \<^item> \<open>Prelude\<close>: the integer types, narrowing casts and lemmas all theories share.
  \<^item> \<open>Items\<close>: \<open>CItem\<close> (\<open>items/item.h\<close>, \<open>items/item.cpp\<close>).  \<open>StoreSpec\<close>: the locale \<open>item_store\<close>, what a
    client relies on when it puts an item into a storage.  \<open>ItemContainer\<close>: \<open>CItemContainer\<close>
    (\<open>item_container.cpp\<close>) with its invariant; it interprets \<open>item_store\<close>.  The lemmas show that the
    count of occupied cells is right after every operation and that a move conserves the items;
    two lemmas show what goes wrong outside the invariant.
  \<^item> \<open>BitPacking\<close>: the bit arrays and bit-field packers of \<open>src/common/utils.cpp\<close>.  \<open>FieldSpec\<close>: the
    locale \<open>field_store\<close>, the contract of a packer, interpreted for both bit orders.  \<open>NameCodec\<close>: the
    names packed with them.
  \<^item> \<open>Exchange\<close>: \<open>universal_container.cpp\<close> and \<open>trade_container.cpp\<close>, whose slots point to items
    owned elsewhere.
  \<^item> \<open>CharInventory\<close>: adding, updating, moving, dropping and recycling items
    (\<open>utils/charutils.cpp\<close>, \<open>utils/itemutils.cpp\<close>) and the item move packet
    (\<open>packets/c2s/0x029_item_move.cpp\<close>).  \<open>Carrying\<close>: the invariant of what a character carries and the
    effect of taking and adding on the amount of every item; the theories below share it.
  \<^item> \<open>TreasurePool\<close>: \<open>treasure_pool.cpp\<close> and the two packets of lotting and passing.
  \<^item> \<open>DeliveryBox\<close>: \<open>utils/dboxutils.cpp\<close>, \<open>packets/c2s/0x04d_pbx.cpp\<close> and the table
    \<open>delivery_box\<close>.  \<open>MailLaws\<close>: one lemma per statement and per operation.  \<open>PostOffice\<close>: runs of
    packets of all players, the queue of an inbox, and what a dishonest client can do.
  \<^item> \<open>Trade\<close>: the three packets of the trade window and \<open>CanTrade\<close>, \<open>DoTrade\<close> of \<open>charutils.cpp\<close>.
    \<open>TradeLaws\<close>: the invariant of the two windows, and an exchange followed slot by slot.  \<open>Trading\<close>:
    runs of trade packets.
  \<^item> \<open>Auction\<close>: \<open>utils/auctionutils.cpp\<close>, \<open>packets/c2s/0x04e_auc.cpp\<close>, the table \<open>auction_house\<close> and the
    trigger that pays the seller.  \<open>AuctionLaws\<close>: fees, statements, operations.  \<open>Market\<close>: runs that mix
    auction and delivery box packets.
  \<^item> \<open>Md5\<close>: \<open>src/common/md52.cpp\<close>.  \<open>CipherTables\<close>, \<open>Blowfish\<close>: \<open>src/common/blowfish.cpp\<close> and the keys of
    \<open>map_session.cpp\<close>.  \<open>Zlib\<close>, \<open>ZlibTables\<close>: \<open>src/common/zlib.cpp\<close> and the two tables the repository
    ships for it.  \<open>Wire\<close>: sending and receiving as \<open>map_networking.cpp\<close> composes them.
  \<^item> \<open>Recast\<close>: \<open>recast_container.cpp\<close>, \<open>char_recast_container.cpp\<close>.
  \<^item> \<open>Float32\<close>: the rounding of \<open>float\<close> and \<open>double\<close>.  \<open>Enmity\<close>: \<open>enmity_container.cpp\<close>,
    \<open>notoriety_container.cpp\<close>.
  \<^item> \<open>StatusEffects\<close>: \<open>status_effect_container.cpp\<close>, \<open>status_effect.cpp\<close>.
  \<^item> \<open>Merit\<close>: \<open>merit.cpp\<close>, the spells and weapon skills of \<open>charutils.cpp\<close> a merit unlocks, and the packet
    that edits merits.
  \<^item> \<open>VanaTime\<close>: \<open>src/common/vana_time.h\<close> and the gates of \<open>time_server.cpp\<close>.  \<open>Spawn\<close>:
    \<open>spawn_slot.cpp\<close>, \<open>spawn_handler.cpp\<close>, which decide on the time of day that \<open>VanaTime\<close> computes.

  \<^bold>\<open>How the parts interact\<close>

  Everything that gives a player an item or takes one goes through \<open>AddItemObject\<close> and
  \<open>UpdateItem\<close> of \<open>CharInventory\<close>, and those through \<open>InsertItem\<close> and \<open>RemoveItem\<close> of
  \<open>ItemContainer\<close>.  The containers provide \<open>item_store\<close>; adding an item uses its law.  The treasure
  pool, the delivery box, the trade window and the auction house rely on the two utilities only by
  the lemmas of \<open>Carrying\<close>.  The auction house pays and gives back through the table of the delivery
  box, so the two are proved to account for every item together, in runs that interleave the packets
  of all players in any order; the trade window owns no item but points into the bags, so its
  invariant ties each slot of a window to a filled cell.  The bit packers provide \<open>field_store\<close>, on which
  the name codecs rest.  The digest derives the cipher key and protects the packet, the compressor
  fills it; \<open>Wire\<close> composes the three and proves the receiver gets what was sent.

  \<^bold>\<open>What the lemmas show\<close>

  Each stateful component has an invariant (names ending in \<open>_ok\<close> or \<open>wf\<close>) that every
  operation keeps, and its properties follow for all runs: by rule induction over an inductive step
  relation (treasure pool, recast timers, enmity, status effects, merits), or by induction over a
  list of packets that a function executes (delivery box, trading, market).  For possessions the main
  statement is conservation: \<open>total_qty\<close> counts an item in the storages of a character, \<open>in_mail\<close> and the
  like in a table, and a run changes no total, or only lowers it where the code has a lossy branch.
  The other groups are the exact outcome of a decision (lots, the most hated enemy, spawn chances,
  prices, the bid that wins), round trips of encodings, agreement with a reference (the incremental digest
  with the digest of the whole message, the moon phase in \<open>double\<close> with the exact one), refinement
  (the rows of an inbox implement a queue, the wire implements the identity), termination and bounds of
  the loops over untrusted bytes, and the exact inputs on which the code does something it
  should not (names such as \<open>merit_packet_out_of_bounds\<close>, \<open>dbox_cross_box_copies\<close>).

  \<^bold>\<open>Bounds and fuel\<close>

  Loops over an index are folds or recursions over the range of the index.  Loops with no counter
  of their own are functions with a measure: the rest of the message in \<open>md5_blocks\<close>, the entries
  left in \<open>check_loop\<close> and \<open>highest_loop\<close>, the shifts left in \<open>shift_left_7\<close>.  The loop of
  \<open>PackSoultrapperName\<close> gets fuel 16 because its index rises in each of at most 16 rounds; the one of
  \<open>UnpackSoultrapperName\<close> gets 17 because its 14 bytes hold 16 characters of seven bits and the round
  after the last finds no bits, so neither runs out.  Decompression walks the tree with one step for
  each bit of its input.  \<open>SetCE\<close> and \<open>SetVE\<close> call themselves without a measure and are partial
  functions; a property says exactly when they return.

  \<^bold>\<open>Not modelled\<close>

  \<^item> Entities, their state machines, controllers and path finding, combat formulas, abilities, spells,
    fishing and synthesis: they call scripts, draw random numbers or compute with meshes of a
    third-party library at every step, so that a model would consist of parameters.
  \<^item> The scripts of the game and the bindings of the script language, which are glue around objects
    that are modelled where they keep state.
  \<^item> Packets to the client, log lines, audit tables and profiling: output only.  Where a component's
    meaning lies in what it announces (the outcome of a treasure pool), the announcement is a value.
  \<^item> Equipment and level, experience, parties, guild shops, conquest and the other processes of the
    server (login, search, world): queries of the database and messages between processes.
  \<^item> The contents of tables, generated code and the libraries under \<open>src/ext\<close>.
\<close>

end
